(* ===== verification/Prelude.thy ===== *)
theory Prelude
  imports Main "HOL-Library.Word" "HOL-Library.FSet" "HOL-Library.Option_ord"
begin

text \<open>
  The prelude of the development: the outcome type of a Rust computation (a value, an error
  or a panic), the checked machine arithmetic of the source, its big-endian byte encodings,
  and the two interfaces several components share (a machine whose steps keep an invariant,
  and an operation whose exact replay is harmless).  Nothing here models a particular file of
  the repository; every other theory builds on it.
\<close>

unbundle bit_operations_syntax

section \<open>Collections of facts\<close>

named_theorems res_simps \<open>equations of the outcome type and its combinators\<close>
named_theorems num_simps \<open>checked machine arithmetic read through unat\<close>
named_theorems enc_facts \<open>prefix codes of the canonical byte encodings\<close>

section \<open>Machine integers and byte arrays\<close>

text \<open>
  A Rust integer of w bits is a word of that width.  An array \<open>[u8; 32]\<close> is the 256-bit word
  its bytes spell in big-endian order, so that the all-zero array is 0; \<open>be_bytes 32\<close> gives
  the bytes back.
\<close>

type_synonym u8 = "8 word"
type_synonym u16 = "16 word"
type_synonym u32 = "32 word"
type_synonym u64 = "64 word"
type_synonym u128 = "128 word"
type_synonym bytes32 = "256 word"
type_synonym bytes = "u8 list"

definition checked_add :: "'l::len word \<Rightarrow> 'l word \<Rightarrow> 'l word option" where
  "checked_add a b = (if unat a + unat b < 2 ^ LENGTH('l) then Some (a + b) else None)"

definition checked_sub :: "'l::len word \<Rightarrow> 'l word \<Rightarrow> 'l word option" where
  "checked_sub a b = (if b \<le> a then Some (a - b) else None)"

definition saturating_sub :: "'l::len word \<Rightarrow> 'l word \<Rightarrow> 'l word" where
  "saturating_sub a b = (if b \<le> a then a - b else 0)"

text \<open>Rust's \<open>u64::try_from\<close>, \<open>u16::try_from\<close> on a wider or signed number.\<close>

definition try_word :: "int \<Rightarrow> 'l::len word option" where
  "try_word i = (if 0 \<le> i \<and> i < 2 ^ LENGTH('l) then Some (word_of_int i) else None)"

text \<open>An \<open>i128\<close> is the integer it holds; its checked operations test the range.\<close>

definition i128_checked :: "int \<Rightarrow> int option" where
  "i128_checked i = (if - (2 ^ 127) \<le> i \<and> i < 2 ^ 127 then Some i else None)"

lemma checked_add_SomeD:
  "checked_add a b = Some c \<Longrightarrow> unat c = unat a + unat b"
  by (auto simp: checked_add_def unat_word_ariths split: if_splits)

lemma checked_add_eq_Some [num_simps]:
  "checked_add a b = Some c \<longleftrightarrow> unat c = unat a + unat b"
proof
  assume eq: "unat c = unat a + unat b"
  have lt: "unat c < 2 ^ LENGTH('a)" by simp
  have "c = a + b" by (simp add: word_arith_nat_add eq [symmetric])
  moreover have "unat a + unat b < 2 ^ LENGTH('a)" using lt by (simp only: eq)
  ultimately show "checked_add a b = Some c" by (simp add: checked_add_def)
qed (rule checked_add_SomeD)

lemma checked_add_None:
  "checked_add (a :: 'l::len word) b = None \<longleftrightarrow> 2 ^ LENGTH('l) \<le> unat a + unat b"
  by (auto simp: checked_add_def)

text \<open>Evaluation compares words, not natural numbers of the size of the type.\<close>

lemma checked_add_code [code]:
  "checked_add (a :: 'l::len word) b = (if a \<le> a + b then Some (a + b) else None)"
  using no_olen_add_nat [of a b] by (simp add: checked_add_def)

lemma checked_add_le: "checked_add a b = Some c \<Longrightarrow> a \<le> c \<and> b \<le> c"
  by (simp add: checked_add_eq_Some word_le_nat_alt)

lemma checked_sub_SomeD:
  "checked_sub a b = Some c \<Longrightarrow> unat a = unat b + unat c"
  by (auto simp: checked_sub_def unat_sub word_le_nat_alt split: if_splits)

lemma checked_sub_None: "checked_sub a b = None \<longleftrightarrow> unat a < unat b"
  by (auto simp: checked_sub_def word_le_nat_alt)

lemma i128_checked_Some: "\<bar>i\<bar> < 2 ^ 127 \<Longrightarrow> i128_checked i = Some i"
  by (simp add: i128_checked_def abs_less_iff)

lemma try_word_SomeD: "try_word i = Some w \<Longrightarrow> int (unat w) = i"
  by (auto simp: try_word_def unsigned_of_int take_bit_int_eq_self split: if_splits)

section \<open>Outcomes\<close>

text \<open>
  A Rust function that returns \<open>Result<a, e>\<close> either returns a value, returns an error, or
  panics (an index out of range, an arithmetic overflow).  \<open>and_then\<close> is the operator
  written \<open>?\<close> in the source: it continues with the value and hands on an error or a panic.
\<close>

datatype ('a, 'e) res = Ok 'a | Err 'e | Panic

primrec and_then :: "('a, 'e) res \<Rightarrow> ('a \<Rightarrow> ('b, 'e) res) \<Rightarrow> ('b, 'e) res" where
  "and_then (Ok x) f = f x"
| "and_then (Err e) f = Err e"
| "and_then Panic f = Panic"

primrec map_err :: "('e \<Rightarrow> 'f) \<Rightarrow> ('a, 'e) res \<Rightarrow> ('a, 'f) res" where
  "map_err g (Ok x) = Ok x"
| "map_err g (Err e) = Err (g e)"
| "map_err g Panic = Panic"

primrec map_ok :: "('a \<Rightarrow> 'b) \<Rightarrow> ('a, 'e) res \<Rightarrow> ('b, 'e) res" where
  "map_ok g (Ok x) = Ok (g x)"
| "map_ok g (Err e) = Err e"
| "map_ok g Panic = Panic"

primrec ok_or :: "'a option \<Rightarrow> 'e \<Rightarrow> ('a, 'e) res" where
  "ok_or (Some x) e = Ok x"
| "ok_or None e = Err e"

text \<open>Indexing a map panics where the key is missing.\<close>

primrec or_panic :: "'a option \<Rightarrow> ('a, 'e) res" where
  "or_panic (Some x) = Ok x"
| "or_panic None = Panic"

definition is_ok :: "('a, 'e) res \<Rightarrow> bool" where
  "is_ok r = (case r of Ok _ \<Rightarrow> True | _ \<Rightarrow> False)"

definition is_err :: "('a, 'e) res \<Rightarrow> bool" where
  "is_err r = (case r of Err _ \<Rightarrow> True | _ \<Rightarrow> False)"

lemma is_ok_simps [simp, res_simps]:
  "is_ok (Ok x)" "\<not> is_ok (Err e)" "\<not> is_ok Panic"
  "is_err (Err e)" "\<not> is_err (Ok x)" "\<not> is_err Panic"
  by (simp_all add: is_ok_def is_err_def)

lemma is_okE: "is_ok r \<Longrightarrow> (\<And>x. r = Ok x \<Longrightarrow> P) \<Longrightarrow> P"
  by (cases r) auto

lemma and_then_eq_Ok [simp, res_simps]:
  "and_then r f = Ok y \<longleftrightarrow> (\<exists>x. r = Ok x \<and> f x = Ok y)"
  by (cases r) auto

lemma and_then_eq_Err [res_simps]:
  "and_then r f = Err e \<longleftrightarrow> r = Err e \<or> (\<exists>x. r = Ok x \<and> f x = Err e)"
  by (cases r) auto

lemma and_then_eq_Panic [simp, res_simps]:
  "and_then r f = Panic \<longleftrightarrow> r = Panic \<or> (\<exists>x. r = Ok x \<and> f x = Panic)"
  by (cases r) auto

lemma and_then_assoc: "and_then (and_then r f) g = and_then r (\<lambda>x. and_then (f x) g)"
  by (cases r) auto

lemma map_err_eq [simp, res_simps]:
  "map_err g r = Ok y \<longleftrightarrow> r = Ok y"
  "map_err g r = Panic \<longleftrightarrow> r = Panic"
  by (cases r; auto)+

lemma map_ok_eq [simp, res_simps]:
  "map_ok g r = Ok y \<longleftrightarrow> (\<exists>x. r = Ok x \<and> y = g x)"
  "map_ok g r = Panic \<longleftrightarrow> r = Panic"
  by (cases r; auto)+

lemma ok_or_eq [simp, res_simps]:
  "ok_or v e = Ok x \<longleftrightarrow> v = Some x"
  "ok_or v e = Err f \<longleftrightarrow> v = None \<and> f = e"
  "ok_or v e \<noteq> Panic"
  by (cases v; auto)+

lemma or_panic_eq [simp, res_simps]:
  "or_panic v = Ok x \<longleftrightarrow> v = Some x"
  "or_panic v \<noteq> Err e"
  "or_panic v = Panic \<longleftrightarrow> v = None"
  by (cases v; auto)+

text \<open>
  \<open>fail_if b e k\<close> is the early return \<open>if b then return Err(e)\<close> followed by \<open>k\<close>; it is written
  with the condition that makes the code fail, as the code writes it.
\<close>

definition fail_if :: "bool \<Rightarrow> 'e \<Rightarrow> ('a, 'e) res \<Rightarrow> ('a, 'e) res" where
  "fail_if b e k = (if b then Err e else k)"

lemma fail_if_eq [simp, res_simps]:
  "fail_if b e k = Ok x \<longleftrightarrow> \<not> b \<and> k = Ok x"
  "fail_if b e k = Panic \<longleftrightarrow> \<not> b \<and> k = Panic"
  "fail_if True e k = Err e"
  "fail_if False e k = k"
  by (auto simp: fail_if_def)

lemma fail_if_eq_Err [res_simps]:
  "fail_if b e k = Err f \<longleftrightarrow> (if b then f = e else k = Err f)"
  by (auto simp: fail_if_def)

text \<open>
  \<open>sound E r\<close>: the outcome \<open>r\<close> is not a panic and not one of the errors \<open>E\<close>.  The rules follow
  the shape of a handler, so that such a fact about it is proved by applying them backwards.
\<close>

definition sound :: "'e set \<Rightarrow> ('a, 'e) res \<Rightarrow> bool" where
  "sound E r \<longleftrightarrow> r \<noteq> Panic \<and> (\<forall>e\<in>E. r \<noteq> Err e)"

named_theorems sound_intros

lemma sound_Ok [simp, sound_intros]: "sound E (Ok x)"
  by (simp add: sound_def)

lemma sound_Err [sound_intros]: "e \<notin> E \<Longrightarrow> sound E (Err e)"
  by (auto simp: sound_def)

lemma sound_and_then [sound_intros]:
  "sound E r \<Longrightarrow> (\<And>x. r = Ok x \<Longrightarrow> sound E (f x)) \<Longrightarrow> sound E (and_then r f)"
  by (cases r) (auto simp: sound_def)

lemma sound_fail_if [sound_intros]:
  "e \<notin> E \<Longrightarrow> (\<not> c \<Longrightarrow> sound E r) \<Longrightarrow> sound E (fail_if c e r)"
  by (auto simp: sound_def fail_if_def)

lemma sound_ok_or [sound_intros]: "e \<notin> E \<Longrightarrow> sound E (ok_or x e)"
  by (cases x) (auto simp: sound_def)

lemma sound_or_panic [sound_intros]: "x \<noteq> None \<Longrightarrow> sound E (or_panic x)"
  by (cases x) (auto simp: sound_def)

lemma sound_map_ok [sound_intros]: "sound E r \<Longrightarrow> sound E (map_ok g r)"
  by (cases r) (auto simp: sound_def)

lemma sound_map_err [sound_intros]: "sound {e. g e \<in> E} r \<Longrightarrow> sound E (map_err g r)"
  by (cases r) (auto simp: sound_def)

lemma sound_if [sound_intros]:
  "(c \<Longrightarrow> sound E r) \<Longrightarrow> (\<not> c \<Longrightarrow> sound E s) \<Longrightarrow> sound E (if c then r else s)"
  by simp

lemma sound_option [sound_intros]:
  "(x = None \<Longrightarrow> sound E r) \<Longrightarrow> (\<And>y. x = Some y \<Longrightarrow> sound E (f y))
     \<Longrightarrow> sound E (case x of None \<Rightarrow> r | Some y \<Rightarrow> f y)"
  by (cases x) simp_all

lemma sound_prod [sound_intros]:
  "(\<And>a b. p = (a, b) \<Longrightarrow> sound E (f a b)) \<Longrightarrow> sound E (case p of (a, b) \<Rightarrow> f a b)"
  by (cases p) simp

lemma soundD: "sound E r \<Longrightarrow> r \<noteq> Panic" "sound E r \<Longrightarrow> e \<in> E \<Longrightarrow> r \<noteq> Err e"
  by (auto simp: sound_def)


text \<open>
  For evaluation by rewriting: an argument that is a computation is evaluated before the
  continuation that takes its result.
\<close>

lemma and_then_weak: "x = y \<Longrightarrow> and_then x f = and_then y f" by simp

lemma fail_if_weak: "b = b' \<Longrightarrow> fail_if b e r = fail_if b' e r" by simp

lemma map_ok_weak: "x = y \<Longrightarrow> map_ok f x = map_ok f y" by simp

lemmas lazily = and_then_weak fail_if_weak map_ok_weak if_weak_cong option.case_cong_weak res.case_cong_weak

section \<open>Big-endian bytes\<close>

primrec be_bytes :: "nat \<Rightarrow> 'l::len word \<Rightarrow> bytes" where
  "be_bytes 0 w = []"
| "be_bytes (Suc n) w = be_bytes n (drop_bit 8 w) @ [ucast w]"

lemma length_be_bytes [simp]: "length (be_bytes n w) = n"
  by (induction n arbitrary: w) simp_all

lemma be_bytes_mod:
  fixes w v :: "'a::len word"
  shows "be_bytes n w = be_bytes n v \<Longrightarrow> unat w mod 256 ^ n = unat v mod 256 ^ n"
proof (induction n arbitrary: w v)
  case 0
  then show ?case by simp
next
  case (Suc n)
  then have hi: "be_bytes n (drop_bit 8 w) = be_bytes n (drop_bit 8 v)"
    and lo: "(ucast w :: u8) = ucast v" by simp_all
  have "unat (drop_bit 8 w) mod 256 ^ n = unat (drop_bit 8 v) mod 256 ^ n"
    using hi by (rule Suc.IH)
  moreover have "unat (drop_bit 8 x) = unat x div 256" for x :: "'a word"
    using unat_drop_bit_eq [of 8 x] by (simp add: drop_bit_eq_div)
  ultimately have h: "(unat w div 256) mod 256 ^ n = (unat v div 256) mod 256 ^ n"
    by simp
  have "unat (ucast w :: u8) = unat (ucast v :: u8)" using lo by simp
  then have l: "unat w mod 256 = unat v mod 256"
    by (simp add: unsigned_ucast_eq take_bit_eq_mod)
  have split: "x mod 256 ^ Suc n = 256 * ((x div 256) mod 256 ^ n) + x mod 256" for x :: nat
    by (simp add: mod_mult2_eq)
  show ?case unfolding split using h l by simp
qed

lemma be_bytes_inject:
  fixes w v :: "'l::len word"
  assumes "LENGTH('l) \<le> 8 * n" and "be_bytes n w = be_bytes n v"
  shows "w = v"
proof -
  have "(2 :: nat) ^ LENGTH('l) \<le> 2 ^ (8 * n)"
    using assms(1) by (rule power_increasing) simp
  then have b: "(2 :: nat) ^ LENGTH('l) \<le> 256 ^ n" by (simp add: power_mult)
  have "unat x < 256 ^ n" for x :: "'l word"
    using b by (rule order.strict_trans2 [OF unsigned_less])
  with be_bytes_mod [OF assms(2)] have "unat w = unat v" by simp
  then show ?thesis by (simp add: word_unat_eq_iff)
qed

text \<open>The first 16 bytes of a 32-byte digest, read as a \<open>u128\<close>.\<close>

definition high_u128 :: "bytes32 \<Rightarrow> u128" where
  "high_u128 h = ucast (drop_bit 128 h)"

section \<open>Text\<close>

text \<open>
  A Rust string is its UTF-8 bytes, as a list of 8-bit characters.  \<open>str_blank\<close> is
  \<open>trim().is_empty()\<close>: every code point has the Unicode property White_Space.
\<close>

definition str_bytes :: "string \<Rightarrow> bytes" where
  "str_bytes s = map of_char s"

lemma str_bytes_inject [simp]: "str_bytes s = str_bytes t \<longleftrightarrow> s = t"
proof
  assume "str_bytes s = str_bytes t"
  then have "map (of_char :: char \<Rightarrow> u8) s = map of_char t" by (simp add: str_bytes_def)
  moreover have "inj (of_char :: char \<Rightarrow> u8)"
  proof (rule injI)
    fix c d :: char assume "(of_char c :: u8) = of_char d"
    then have "unat (of_char c :: u8) = unat (of_char d :: u8)" by simp
    moreover have "unat (of_char e :: u8) = (of_char e :: nat)" for e
    proof -
      have "(of_char e :: u8) = of_nat (of_char e)" by (simp add: of_nat_of_char)
      moreover have "(of_char e :: nat) < 256" by simp
      ultimately show ?thesis by (simp add: unsigned_of_nat take_bit_nat_eq_self)
    qed
    ultimately have "(of_char c :: nat) = of_char d" by simp
    then show "c = d" by simp
  qed
  ultimately show "s = t" by (simp add: inj_map_eq_map)
qed simp

lemma length_str_bytes [simp]: "length (str_bytes s) = length s"
  by (simp add: str_bytes_def)

function (sequential) blank_bytes :: "nat list \<Rightarrow> bool" where
  "blank_bytes [] = True"
| "blank_bytes (a # xs) =
     (if a \<in> {9, 10, 11, 12, 13, 32} then blank_bytes xs
      else (case xs of
        [] \<Rightarrow> False
      | b # ys \<Rightarrow>
          if a = 0xC2 \<and> b \<in> {0x85, 0xA0} then blank_bytes ys
          else (case ys of
            [] \<Rightarrow> False
          | c # zs \<Rightarrow>
              if (a, b, c) \<in> {(0xE1, 0x9A, 0x80), (0xE2, 0x81, 0x9F), (0xE3, 0x80, 0x80)}
                 \<or> (a = 0xE2 \<and> b = 0x80 \<and> (0x80 \<le> c \<and> c \<le> 0x8A \<or> c \<in> {0xA8, 0xA9, 0xAF}))
              then blank_bytes zs else False)))"
  by pat_completeness auto
termination by (relation "measure length") auto

definition str_blank :: "string \<Rightarrow> bool" where
  "str_blank s = blank_bytes (map of_char s)"

section \<open>Machines: steps that return an outcome\<close>

text \<open>
  Most components of the program are an owner record with operations that either return an
  effect together with the next record, or fail and leave the record as it was (the source
  clones the record, changes the clone and assigns it at the end).  \<open>run_machine\<close> performs a
  list of such operations, keeping the record where one fails, and collects the effects of
  those that succeed.
\<close>

primrec run_machine ::
  "('s \<Rightarrow> 'c \<Rightarrow> ('s \<times> 'o, 'e) res) \<Rightarrow> 's \<Rightarrow> 'c list \<Rightarrow> 's \<times> 'o list" where
  "run_machine step s [] = (s, [])"
| "run_machine step s (c # cs) =
     (case step s c of
        Ok (s', out) \<Rightarrow> (let (t, outs) = run_machine step s' cs in (t, out # outs))
      | _ \<Rightarrow> run_machine step s cs)"

lemma run_machine_append:
  "run_machine step s (xs @ ys) =
     (let (t, outs) = run_machine step s xs; (u, outs') = run_machine step t ys in (u, outs @ outs'))"
  by (induction xs arbitrary: s) (auto simp: Let_def split: res.splits prod.splits)

locale invariant_machine =
  fixes step :: "'s \<Rightarrow> 'c \<Rightarrow> ('s \<times> 'o, 'e) res"
    and inv :: "'s \<Rightarrow> bool"
  assumes step_inv: "inv s \<Longrightarrow> step s c = Ok (s', out) \<Longrightarrow> inv s'"
begin

lemma run_inv: "inv s \<Longrightarrow> run_machine step s cs = (t, outs) \<Longrightarrow> inv t"
proof (induction cs arbitrary: s outs)
  case Nil
  then show ?case by simp
next
  case (Cons c cs)
  show ?case
  proof (cases "step s c")
    case (Ok r)
    obtain s' out where r: "r = (s', out)" by (cases r)
    obtain u outs' where u: "run_machine step s' cs = (u, outs')"
      by (cases "run_machine step s' cs")
    have "inv s'" using Cons.prems(1) Ok r by (auto intro: step_inv)
    moreover have "u = t" using Cons.prems(2) Ok r u by simp
    ultimately show ?thesis using Cons.IH u by blast
  qed (use Cons in auto)
qed

end

text \<open>
  Exact replay is harmless: an operation that succeeded succeeds again on the state it left,
  changes nothing and has no effect.
\<close>

locale replay_machine = invariant_machine step inv
  for step :: "'s \<Rightarrow> 'c \<Rightarrow> ('s \<times> 'o, 'e) res" and inv :: "'s \<Rightarrow> bool" +
  fixes quiet :: "'o \<Rightarrow> bool"
  assumes step_replay:
    "inv s \<Longrightarrow> step s c = Ok (s', out) \<Longrightarrow> \<exists>out'. step s' c = Ok (s', out') \<and> quiet out'"
begin

lemma run_replicate:
  assumes "inv s" and "step s c = Ok (s', out)"
  shows "\<exists>outs. run_machine step s' (replicate n c) = (s', outs) \<and> list_all quiet outs"
proof -
  obtain out' where o: "step s' c = Ok (s', out')" "quiet out'"
    using step_replay [OF assms] by blast
  show ?thesis
  proof (induction n)
    case 0
    then show ?case by simp
  next
    case (Suc n)
    then obtain outs where "run_machine step s' (replicate n c) = (s', outs)"
      and "list_all quiet outs" by blast
    with o show ?case by simp
  qed
qed

end

text \<open>
  A machine whose states are stored: every state its runs reach passes the validation that
  guards deserialization and comes back unchanged.
\<close>

locale stored_machine = invariant_machine step inv
  for step :: "'s \<Rightarrow> 'c \<Rightarrow> ('s \<times> 'o, 'e) res" and inv :: "'s \<Rightarrow> bool" +
  fixes restore :: "'s \<Rightarrow> ('s, 'f) res"
  assumes restore_inv: "inv s \<Longrightarrow> restore s = Ok s"
begin

lemma run_restores:
  assumes "inv s"
  shows "restore (fst (run_machine step s cs)) = Ok (fst (run_machine step s cs))"
  by (rule restore_inv, rule run_inv [OF assms prod.collapse [symmetric]])

end

text \<open>
  A machine that accounts for what it emits: every level of its state moves by exactly the
  flow of the effect it returns.
\<close>

locale accounting_machine = invariant_machine step inv
  for step :: "'s \<Rightarrow> 'c \<Rightarrow> ('s \<times> 'o, 'e) res" and inv :: "'s \<Rightarrow> bool" +
  fixes level :: "'s \<Rightarrow> 'a \<Rightarrow> int" and flow :: "'o \<Rightarrow> 'a \<Rightarrow> int"
  assumes step_level: "inv s \<Longrightarrow> step s c = Ok (s', out) \<Longrightarrow> level s' a = level s a + flow out a"
begin

lemma run_level:
  "inv s \<Longrightarrow> run_machine step s cs = (t, outs) \<Longrightarrow>
     level t a = level s a + sum_list (map (\<lambda>out. flow out a) outs)"
proof (induction cs arbitrary: s outs)
  case Nil
  then show ?case by auto
next
  case (Cons c cs)
  show ?case
  proof (cases "step s c")
    case (Ok r)
    obtain s' out where r: "r = (s', out)" by (cases r)
    obtain u outs' where u: "run_machine step s' cs = (u, outs')"
      by (cases "run_machine step s' cs")
    have "u = t" and o: "outs = out # outs'" using Cons.prems(2) Ok r u by auto
    moreover have "inv s'" using Cons.prems(1) Ok r by (auto intro: step_inv)
    ultimately have "level t a = level s' a + sum_list (map (\<lambda>out. flow out a) outs')"
      using Cons.IH u by blast
    then show ?thesis using step_level [OF Cons.prems(1)] Ok r o by simp
  qed (use Cons in auto)
qed

end

text \<open>A machine every effect of which is good.\<close>

locale emitting_machine = invariant_machine step inv
  for step :: "'s \<Rightarrow> 'c \<Rightarrow> ('s \<times> 'o, 'e) res" and inv :: "'s \<Rightarrow> bool" +
  fixes good :: "'o \<Rightarrow> bool"
  assumes step_good: "inv s \<Longrightarrow> step s c = Ok (s', out) \<Longrightarrow> good out"
begin

lemma run_good:
  "inv s \<Longrightarrow> run_machine step s cs = (t, outs) \<Longrightarrow> list_all good outs"
proof (induction cs arbitrary: s outs)
  case (Cons c cs)
  show ?case
  proof (cases "step s c")
    case (Ok r)
    obtain s' out where r: "r = (s', out)" by (cases r)
    obtain u outs' where u: "run_machine step s' cs = (u, outs')"
      by (cases "run_machine step s' cs")
    have o: "outs = out # outs'" "u = t" using Cons.prems(2) Ok r u by auto
    have "inv s'" "good out" using Cons.prems(1) Ok r by (auto intro: step_inv step_good)
    then show ?thesis using Cons.IH u o by auto
  qed (use Cons in auto)
qed auto

end

end
