(* ===== verification/Btree.thy ===== *)
theory Btree
  imports Prelude "HOL-Library.Multiset"
begin

text \<open>
  The ordered maps of the Rust standard library (\<open>BTreeMap\<close>): a finite map whose iteration is
  in ascending key order.  A map is its strictly ascending list of entries, as an abstract
  type, so that two maps with the same lookups are equal and every theorem about a component's
  records is free of well-formedness hypotheses.  \<open>BTreeSet\<close> is used by the source for
  membership and counting only and is a finite set (\<open>fset\<close>) in the models.
\<close>

section \<open>The type of ordered maps\<close>

typedef (overloaded) ('k::linorder, 'v) btmap =
  "{xs :: ('k \<times> 'v) list. sorted_wrt (<) (map fst xs)}"
  morphisms bt_entries Btmap
proof
  show "[] \<in> {xs :: ('k \<times> 'v) list. sorted_wrt (<) (map fst xs)}" by simp
qed

setup_lifting type_definition_btmap

fun ins_entry :: "'k::linorder \<Rightarrow> 'v \<Rightarrow> ('k \<times> 'v) list \<Rightarrow> ('k \<times> 'v) list" where
  "ins_entry k v [] = [(k, v)]"
| "ins_entry k v ((k', v') # xs) =
     (if k < k' then (k, v) # (k', v') # xs
      else if k = k' then (k, v) # xs
      else (k', v') # ins_entry k v xs)"

lemma set_map_fst_ins_entry: "fst ` set (ins_entry k v xs) = insert k (fst ` set xs)"
  by (induction k v xs rule: ins_entry.induct) auto

lemma sorted_ins_entry:
  "sorted_wrt (<) (map fst xs) \<Longrightarrow> sorted_wrt (<) (map fst (ins_entry k v xs))"
proof (induction k v xs rule: ins_entry.induct)
  case (2 k v k' v' xs)
  then show ?case
    using set_map_fst_ins_entry [of k v xs] by (auto simp: image_iff)
qed simp

lemma map_of_ins_entry: "map_of (ins_entry k v xs) = (map_of xs)(k \<mapsto> v)"
  by (induction k v xs rule: ins_entry.induct) (auto simp: fun_eq_iff)

lift_definition bt_empty :: "('k::linorder, 'v) btmap" is "[]" by simp

lift_definition bt_insert :: "'k::linorder \<Rightarrow> 'v \<Rightarrow> ('k, 'v) btmap \<Rightarrow> ('k, 'v) btmap"
  is ins_entry by (rule sorted_ins_entry)

lift_definition bt_get :: "('k::linorder, 'v) btmap \<Rightarrow> 'k \<Rightarrow> 'v option" is map_of .

definition bt_values :: "('k::linorder, 'v) btmap \<Rightarrow> 'v list" where
  "bt_values m = map snd (bt_entries m)"

definition bt_len :: "('k::linorder, 'v) btmap \<Rightarrow> nat" where
  "bt_len m = length (bt_entries m)"

definition bt_has :: "('k::linorder, 'v) btmap \<Rightarrow> 'k \<Rightarrow> bool" where
  "bt_has m k = (bt_get m k \<noteq> None)"

text \<open>\<open>collect()\<close> of an iterator of pairs: later pairs replace earlier ones.\<close>

definition bt_collect :: "('k::linorder \<times> 'v) list \<Rightarrow> ('k, 'v) btmap" where
  "bt_collect xs = fold (\<lambda>(k, v). bt_insert k v) xs bt_empty"

section \<open>Laws\<close>

lemma bt_entries_empty [simp]: "bt_entries bt_empty = []"
  by (rule bt_empty.rep_eq)

lemma bt_entries_insert [simp]: "bt_entries (bt_insert k v m) = ins_entry k v (bt_entries m)"
  by (rule bt_insert.rep_eq)

lemma bt_get_entries: "bt_get m = map_of (bt_entries m)"
  by (rule bt_get.rep_eq)

lemma bt_sorted: "sorted_wrt (<) (map fst (bt_entries m))"
  using bt_entries by blast

lemma bt_distinct: "distinct (map fst (bt_entries m))"
  using bt_sorted [of m] by (simp add: strict_sorted_iff)

lemma bt_get_empty [simp]: "bt_get bt_empty k = None"
  by (simp add: bt_get_entries)

lemma bt_get_insert [simp]: "bt_get (bt_insert k v m) k' = (if k' = k then Some v else bt_get m k')"
  by (simp add: bt_get_entries map_of_ins_entry)

lemma bt_has_simps [simp]:
  "\<not> bt_has bt_empty k"
  "bt_has (bt_insert k v m) k' \<longleftrightarrow> k' = k \<or> bt_has m k'"
  by (auto simp: bt_has_def)

lemma bt_get_Some: "bt_get m k = Some v \<longleftrightarrow> (k, v) \<in> set (bt_entries m)"
  by (simp add: bt_get_entries bt_distinct)

lemma bt_values_iff: "v \<in> set (bt_values m) \<longleftrightarrow> (\<exists>k. bt_get m k = Some v)"
  by (force simp: bt_values_def bt_get_Some image_iff)

lemma bt_values_empty [simp]: "bt_values bt_empty = []"
  by (simp add: bt_values_def)

lemma bt_entries_keys: "bt_entries m = map (\<lambda>k. (k, the (bt_get m k))) (map fst (bt_entries m))"
proof -
  have "(\<lambda>k. (k, the (bt_get m k))) (fst e) = e" if "e \<in> set (bt_entries m)" for e
    using that bt_get_Some [of m "fst e" "snd e"] by simp
  then show ?thesis by (simp add: map_idI)
qed

lemma bt_keys_iff: "k \<in> fst ` set (bt_entries m) \<longleftrightarrow> bt_get m k \<noteq> None"
  by (force simp: bt_get_Some image_iff)

lemma bt_eqI:
  assumes "\<And>k. bt_get m k = bt_get n k" shows "m = n"
proof -
  have "set (map fst (bt_entries m)) = set (map fst (bt_entries n))"
    using assms by (simp add: set_eq_iff bt_keys_iff)
  then have "map fst (bt_entries m) = map fst (bt_entries n)"
    by (rule strict_sorted_equal [OF bt_sorted bt_sorted])
  moreover have "bt_get m = bt_get n" using assms by blast
  ultimately have "bt_entries m = bt_entries n"
    by (metis bt_entries_keys)
  then show ?thesis by (simp add: bt_entries_inject)
qed

lemma bt_insert_same: "bt_get m k = Some v \<Longrightarrow> bt_insert k v m = m"
  by (rule bt_eqI) simp

lemma bt_values_insert_new:
  "bt_get m k = None \<Longrightarrow> mset (bt_values (bt_insert k v m)) = add_mset v (mset (bt_values m))"
proof -
  assume "bt_get m k = None"
  then have "k \<notin> fst ` set (bt_entries m)" by (simp add: bt_keys_iff)
  then have "mset (ins_entry k v xs) = add_mset (k, v) (mset xs)"
    if "k \<notin> fst ` set xs" for xs
    using that by (induction k v xs rule: ins_entry.induct) auto
  with \<open>k \<notin> _\<close> show ?thesis by (simp add: bt_values_def)
qed

lemma bt_values_insert_old:
  assumes "bt_get m k = Some w"
  shows "add_mset w (mset (bt_values (bt_insert k v m))) = add_mset v (mset (bt_values m))"
proof -
  have "add_mset (k, w) (mset (ins_entry k v xs)) = add_mset (k, v) (mset xs)"
    if "map_of xs k = Some w" and "sorted_wrt (<) (map fst xs)" for xs
    using that
  proof (induction k v xs rule: ins_entry.induct)
    case (2 k v k' v' xs)
    have "\<not> k < k'"
    proof
      assume lt: "k < k'"
      then have "map_of xs k = Some w" using "2.prems"(1) by (simp split: if_splits)
      then have "k \<in> fst ` set xs" by (force dest: map_of_SomeD)
      then show False using "2.prems"(2) lt by force
    qed
    then show ?case using "2" by auto
  qed simp
  then have "add_mset (k, w) (mset (bt_entries (bt_insert k v m))) = add_mset (k, v) (mset (bt_entries m))"
    using assms bt_sorted [of m] by (simp add: bt_get_entries)
  then have "image_mset snd (add_mset (k, w) (mset (bt_entries (bt_insert k v m))))
     = image_mset snd (add_mset (k, v) (mset (bt_entries m)))" by (rule arg_cong)
  then show ?thesis by (simp add: bt_values_def)
qed

lemma bt_get_fold_insert:
  "bt_get (fold (\<lambda>(k, v). bt_insert k v) xs m) k =
     (case map_of (rev xs) k of Some v \<Rightarrow> Some v | None \<Rightarrow> bt_get m k)"
  by (induction xs arbitrary: m) (auto simp: map_add_def split: option.splits)

lemma map_of_rev_distinct: "distinct (map fst xs) \<Longrightarrow> map_of (rev xs) = map_of xs"
  by (rule map_of_inject_set [THEN iffD2]) (simp_all add: rev_map [symmetric])

lemma bt_get_collect: "distinct (map fst xs) \<Longrightarrow> bt_get (bt_collect xs) k = map_of xs k"
  by (simp add: bt_collect_def bt_get_fold_insert map_of_rev_distinct split: option.split)

lemma bt_collect_entries [simp]: "bt_collect (bt_entries m) = m"
  by (rule bt_eqI, subst bt_get_collect) (simp_all add: bt_distinct bt_get_entries)

definition bt_find :: "('k::linorder, 'v::zero) btmap \<Rightarrow> 'k \<Rightarrow> 'v" where
  "bt_find m k = (case bt_get m k of Some v \<Rightarrow> v | None \<Rightarrow> 0)"

lemma bt_find_insert [simp]: "bt_find (bt_insert k v m) k' = (if k' = k then v else bt_find m k')"
  by (simp add: bt_find_def)

lemma bt_find_empty [simp]: "bt_find bt_empty k = 0"
  by (simp add: bt_find_def)

lemma bt_sum_insert:
  "sum_list (bt_values (bt_insert k v m)) = sum_list (bt_values m) - bt_find m k + (v :: int)"
proof (cases "bt_get m k")
  case None
  have "sum_mset (mset (bt_values (bt_insert k v m))) = v + sum_mset (mset (bt_values m))"
    by (simp add: bt_values_insert_new [OF None])
  then show ?thesis by (simp add: sum_mset_sum_list bt_find_def None)
next
  case (Some w)
  have "sum_mset (add_mset w (mset (bt_values (bt_insert k v m)))) =
      sum_mset (add_mset v (mset (bt_values m)))"
    by (simp only: bt_values_insert_old [OF Some])
  then show ?thesis by (simp add: sum_mset_sum_list bt_find_def Some)
qed

lemma bt_sum_map_insert:
  "sum_list (map f (bt_values (bt_insert k v m))) =
     sum_list (map f (bt_values m)) - (case bt_get m k of Some w \<Rightarrow> f w | None \<Rightarrow> 0) + (f v :: int)"
proof (cases "bt_get m k")
  case None
  have "sum_mset (image_mset f (mset (bt_values (bt_insert k v m)))) = f v + sum_mset (image_mset f (mset (bt_values m)))"
    by (simp add: bt_values_insert_new [OF None])
  then show ?thesis by (simp add: None sum_mset_sum_list flip: mset_map)
next
  case (Some w)
  have "sum_mset (image_mset f (add_mset w (mset (bt_values (bt_insert k v m))))) =
      sum_mset (image_mset f (add_mset v (mset (bt_values m))))"
    by (simp only: bt_values_insert_old [OF Some])
  then show ?thesis by (simp add: Some sum_mset_sum_list flip: mset_map)
qed

lemma length_ins_entry: "length (ins_entry k v xs) \<le> Suc (length xs)"
  by (induction k v xs rule: ins_entry.induct) auto

lemma bt_len_insert: "bt_len (bt_insert k v m) \<le> Suc (bt_len m)"
  by (simp add: bt_len_def length_ins_entry)

lemma bt_len_collect: "bt_len (bt_collect xs) \<le> length xs"
proof -
  have "bt_len (fold (\<lambda>(k, v). bt_insert k v) xs m) \<le> length xs + bt_len m" for m
  proof (induction xs arbitrary: m)
    case Nil
    then show ?case by simp
  next
    case (Cons x xs)
    show ?case using Cons [of "bt_insert (fst x) (snd x) m"] bt_len_insert [of "fst x" "snd x" m]
      by (simp add: case_prod_beta)
  qed
  from this [of bt_empty] show ?thesis by (simp add: bt_collect_def bt_len_def)
qed

lemma bt_entries_find: "(a, x) \<in> set (bt_entries m) \<Longrightarrow> bt_find m a = x"
  by (simp add: bt_find_def bt_get_Some [symmetric])

lemma bt_sum_collect:
  "distinct (map fst xs) \<Longrightarrow> sum_list (bt_values (bt_collect xs)) = (sum_list (map snd xs) :: int)"
proof -
  assume d: "distinct (map fst xs)"
  have "sum_list (bt_values (fold (\<lambda>(k, v). bt_insert k v) xs m)) =
      sum_list (bt_values m) + (sum_list (map snd xs) :: int)"
    if "distinct (map fst xs)" "\<forall>k\<in>fst ` set xs. bt_get m k = None" for m
    using that
  proof (induction xs arbitrary: m)
    case Nil
    then show ?case by simp
  next
    case (Cons x xs)
    have "\<forall>k\<in>fst ` set xs. bt_get (bt_insert (fst x) (snd x) m) k = None"
      using Cons.prems by (auto simp: image_iff)
    then show ?case
      using Cons.IH [of "bt_insert (fst x) (snd x) m"] Cons.prems
      by (simp add: case_prod_beta bt_sum_insert bt_find_def)
  qed
  from this [of bt_empty] show ?thesis using d by (simp add: bt_collect_def)
qed

lemma bt_insert_twice: "bt_insert k v (bt_insert k w m) = bt_insert k v m"
  by (rule bt_eqI) simp

lemma sum_list_key:
  "distinct (map fst xs) \<Longrightarrow>
     sum_list (map (\<lambda>e. if fst e = i then f (snd e) else 0) xs) = (case map_of xs i of Some v \<Rightarrow> f v | None \<Rightarrow> (0 :: int))"
proof (induction xs)
  case (Cons e xs)
  have "map_of xs i = None" if "fst e = i" using Cons.prems that by (auto simp: map_of_eq_None_iff)
  then show ?case using Cons by (cases e) auto
qed simp

lemma bt_sum_key:
  "sum_list (map (\<lambda>e. if fst e = i then f (snd e) else 0) (bt_entries m)) = (case bt_get m i of Some v \<Rightarrow> f v | None \<Rightarrow> (0 :: int))"
  by (simp only: sum_list_key [OF bt_distinct] bt_get_entries)

text \<open>The map laws, for components that only look up and insert.\<close>

locale keyed_map =
  fixes get :: "'m \<Rightarrow> 'k \<Rightarrow> 'v option" and put :: "'k \<Rightarrow> 'v \<Rightarrow> 'm \<Rightarrow> 'm" and none :: 'm
  assumes get_none: "get none k = None"
    and get_put: "get (put k v m) k' = (if k' = k then Some v else get m k')"
    and get_ext: "(\<And>k. get m k = get n k) \<Longrightarrow> m = n"
begin

lemma put_put: "put k v (put k w m) = put k v m"
  by (rule get_ext) (simp add: get_put)

lemma put_commute: "k \<noteq> k' \<Longrightarrow> put k v (put k' w m) = put k' w (put k v m)"
  by (rule get_ext) (auto simp: get_put)

lemma put_get: "get m k = Some v \<Longrightarrow> put k v m = m"
  by (rule get_ext) (simp add: get_put)

lemma get_fold_put_notin:
  "k \<notin> fst ` set xs \<Longrightarrow> get (fold (\<lambda>(k, v). put k v) xs m) k = get m k"
  by (induction xs arbitrary: m) (auto simp: get_put)

end

interpretation bt: keyed_map bt_get bt_insert bt_empty
proof unfold_locales
  fix k :: 'a show "bt_get (bt_empty :: ('a, 'b) btmap) k = None" by simp
next
  fix k k' :: 'a and v :: 'b and m show "bt_get (bt_insert k v m) k' = (if k' = k then Some v else bt_get m k')"
    by simp
next
  fix m n :: "('a, 'b) btmap"
  assume "\<And>k. bt_get m k = bt_get n k" then show "m = n" by (rule bt_eqI)
qed

end
