(* ===== verification/Primitives.thy ===== *)
theory Primitives
  imports Btree
begin

text \<open>
  The constrained values of \<open>crates/cs-mail-primitives/src/lib.rs\<close>: calendar dates, money,
  times and versions with checked arithmetic, namespaced identifiers, message declarations and
  their canonical bytes, and the schedule records.  The 128-bit identifiers of the source are
  \<open>u128\<close>; each keeps its name as a type synonym.
\<close>

section \<open>Identifiers, amounts, times and versions\<close>

type_synonym request_id = u128
type_synonym request_class_id = u128
type_synonym quote_id = u128
type_synonym message_id = u128
type_synonym content_ref = u128
type_synonym delivery_intent_ref = u128
type_synonym operational_key_ref = u128
type_synonym idempotency_key = u128
type_synonym protocol_identity = u128
type_synonym provider_ref = u128
type_synonym program_ref = u128
type_synonym payment_operation_id = u128
type_synonym financial_event_id = u128
type_synonym allocation_id = u128
type_synonym annual_distribution_id = u128
type_synonym member_id = u128
type_synonym billing_account_id = u128
type_synonym service_contract_id = u128
type_synonym lane_id = u128
type_synonym alias_id = u128
type_synonym settlement_unit = u32
type_synonym canonical_time = u64
type_synonym duration = u64
type_synonym version = u64
type_synonym policy_version = u64
type_synonym protocol_version = u16
type_synonym money = u64
type_synonym event_ref = u64
type_synonym reply_epoch = u64

text \<open>A scoped reference: a derivation version and 32 bytes (\<open>RelationshipRef\<close> and its kin).\<close>

record scoped_ref =
  sr_version :: u16
  sr_bytes :: bytes32

definition money_checked_add :: "money \<Rightarrow> money \<Rightarrow> money option" where
  "money_checked_add a b = checked_add a b"

definition money_checked_sub :: "money \<Rightarrow> money \<Rightarrow> money option" where
  "money_checked_sub a b = checked_sub a b"

definition time_checked_add :: "canonical_time \<Rightarrow> duration \<Rightarrow> canonical_time option" where
  "time_checked_add t d = checked_add t d"

definition version_checked_next :: "version \<Rightarrow> version option" where
  "version_checked_next v = checked_add v 1"

text \<open>\<open>AliasId::new\<close> refuses the empty identifier.\<close>

datatype declaration_error =
  InvalidIdentifier | UnsupportedLegacyOrigin | UnsupportedGuestOrigin

definition alias_id_new :: "u128 \<Rightarrow> (alias_id, declaration_error) res" where
  "alias_id_new value = fail_if (value = 0) InvalidIdentifier (Ok value)"

lemma money_checked_add_Some [num_simps]:
  "money_checked_add a b = Some c \<longleftrightarrow> unat c = unat a + unat b"
  by (simp add: money_checked_add_def checked_add_eq_Some)

lemma money_checked_sub_SomeD:
  "money_checked_sub a b = Some c \<Longrightarrow> unat a = unat b + unat c"
  unfolding money_checked_sub_def by (rule checked_sub_SomeD)

lemma time_checked_add_Some [num_simps]:
  "time_checked_add t d = Some u \<longleftrightarrow> unat u = unat t + unat d"
  by (simp add: time_checked_add_def checked_add_eq_Some)

lemma version_checked_next_Some [num_simps]:
  "version_checked_next v = Some w \<longleftrightarrow> unat w = Suc (unat v)"
  by (simp add: version_checked_next_def checked_add_eq_Some)

section \<open>Calendar dates\<close>

definition leap :: "nat \<Rightarrow> bool" where
  "leap y \<longleftrightarrow> 4 dvd y \<and> (\<not> 100 dvd y \<or> 400 dvd y)"

definition month_lengths :: "nat \<Rightarrow> nat list" where
  "month_lengths y = [31, if leap y then 29 else 28, 31, 30, 31, 30, 31, 31, 30, 31, 30, 31]"

definition year_days :: "nat \<Rightarrow> nat" where
  "year_days y = (if leap y then 366 else 365)"

definition days_before_year :: "nat \<Rightarrow> nat" where
  "days_before_year y = sum_list (map year_days [1970..<y])"

definition day_number :: "nat \<Rightarrow> nat \<Rightarrow> nat \<Rightarrow> nat" where
  "day_number y m d = days_before_year y + sum_list (take (m - 1) (month_lengths y)) + (d - 1)"

definition calendar_date :: "u16 \<Rightarrow> u8 \<Rightarrow> u8 \<Rightarrow> canonical_time option" where
  "calendar_date year month day =
     (if \<not> (1970 \<le> year \<and> year \<le> 9999) \<or> \<not> (1 \<le> month \<and> month \<le> 12) then None
      else if day = 0 \<or> unat day > month_lengths (unat year) ! (unat month - 1) then None
      else Some (of_nat (day_number (unat year) (unat month) (unat day) * 86400000)))"

section \<open>Declarations\<close>

datatype known_purpose = Personal | Transactional | RequestPurpose | Bulk

primrec known_purpose_code :: "known_purpose \<Rightarrow> u8" where
  "known_purpose_code Personal = 0"
| "known_purpose_code Transactional = 1"
| "known_purpose_code RequestPurpose = 2"
| "known_purpose_code Bulk = 3"

record namespaced_identifier =
  ni_namespace :: string
  ni_name :: string
  ni_version :: u16

definition valid_identifier_byte :: "u8 \<Rightarrow> bool" where
  "valid_identifier_byte b \<longleftrightarrow>
     (97 \<le> b \<and> b \<le> 122) \<or> (48 \<le> b \<and> b \<le> 57) \<or> b = 46 \<or> b = 45 \<or> b = 95"

definition valid_identifier_component :: "string \<Rightarrow> bool" where
  "valid_identifier_component value \<longleftrightarrow>
     value \<noteq> [] \<and> length value \<le> 64 \<and> list_all valid_identifier_byte (str_bytes value)"

definition identifier_validate :: "namespaced_identifier \<Rightarrow> (unit, declaration_error) res" where
  "identifier_validate i =
     fail_if (ni_version i = 0 \<or> \<not> valid_identifier_component (ni_namespace i)
        \<or> \<not> valid_identifier_component (ni_name i)) InvalidIdentifier (Ok ())"

definition identifier_new ::
  "string \<Rightarrow> string \<Rightarrow> u16 \<Rightarrow> (namespaced_identifier, declaration_error) res" where
  "identifier_new namespace name ver =
     (let value = \<lparr>ni_namespace = namespace, ni_name = name, ni_version = ver\<rparr>
      in and_then (identifier_validate value) (\<lambda>_. Ok value))"

definition push_declaration_bytes :: "bytes \<Rightarrow> bytes \<Rightarrow> (bytes, declaration_error) res" where
  "push_declaration_bytes target value =
     and_then (ok_or (try_word (int (length value)) :: u16 option) InvalidIdentifier)
       (\<lambda>len. Ok (target @ be_bytes 2 len @ value))"

definition identifier_append ::
  "namespaced_identifier \<Rightarrow> bytes \<Rightarrow> (bytes, declaration_error) res" where
  "identifier_append i bs =
     and_then (identifier_validate i) (\<lambda>_.
     and_then (push_declaration_bytes bs (str_bytes (ni_namespace i))) (\<lambda>bs.
     and_then (push_declaration_bytes bs (str_bytes (ni_name i))) (\<lambda>bs.
     Ok (bs @ be_bytes 2 (ni_version i)))))"

datatype declared_purpose =
  Unspecified | Known known_purpose | Extension namespaced_identifier

definition purpose_validate :: "declared_purpose \<Rightarrow> (unit, declaration_error) res" where
  "purpose_validate p = (case p of Extension i \<Rightarrow> identifier_validate i | _ \<Rightarrow> Ok ())"

definition purpose_append :: "declared_purpose \<Rightarrow> bytes \<Rightarrow> (bytes, declaration_error) res" where
  "purpose_append p bs =
     and_then (purpose_validate p) (\<lambda>_.
       case p of
         Unspecified \<Rightarrow> Ok (bs @ [0])
       | Known k \<Rightarrow> Ok (bs @ [1, known_purpose_code k])
       | Extension i \<Rightarrow> identifier_append i (bs @ [2]))"

datatype origin_mode =
  HumanInitiated | AgentDraftHumanApproved | AutonomousAgent | AutomatedSystem | LegacyOrUnspecified

primrec origin_mode_code :: "origin_mode \<Rightarrow> u8" where
  "origin_mode_code HumanInitiated = 0"
| "origin_mode_code AgentDraftHumanApproved = 1"
| "origin_mode_code AutonomousAgent = 2"
| "origin_mode_code AutomatedSystem = 3"
| "origin_mode_code LegacyOrUnspecified = 4"

datatype declaration_authority =
  is_native_sender: NativeSender operational_key_ref
| is_legacy_gateway: LegacyGateway provider_ref
| is_guest_gateway: GuestGateway provider_ref
| is_guest_smtp: GuestSmtp provider_ref

primrec authority_append :: "declaration_authority \<Rightarrow> bytes \<Rightarrow> bytes" where
  "authority_append (NativeSender key) bs = bs @ 0 # be_bytes 16 key"
| "authority_append (LegacyGateway provider) bs = bs @ 1 # be_bytes 16 provider"
| "authority_append (GuestGateway provider) bs = bs @ 2 # be_bytes 16 provider"
| "authority_append (GuestSmtp provider) bs = bs @ 3 # be_bytes 16 provider"

record origin_declaration =
  od_mode :: origin_mode
  od_authority :: declaration_authority

datatype extension_criticality = NonCritical | Critical

record payload_schema =
  ps_id :: namespaced_identifier
  ps_criticality :: extension_criticality

definition schema_validate :: "payload_schema \<Rightarrow> (unit, declaration_error) res" where
  "schema_validate s = identifier_validate (ps_id s)"

definition schema_append :: "payload_schema \<Rightarrow> bytes \<Rightarrow> (bytes, declaration_error) res" where
  "schema_append s bs =
     and_then (schema_validate s) (\<lambda>_.
     and_then (identifier_append (ps_id s) bs) (\<lambda>bs.
     Ok (bs @ [case ps_criticality s of NonCritical \<Rightarrow> 0 | Critical \<Rightarrow> 1])))"

record message_declarations =
  md_purpose :: declared_purpose
  md_origin :: origin_declaration
  md_payload_schema :: "payload_schema option"

definition declarations_validate :: "message_declarations \<Rightarrow> (unit, declaration_error) res" where
  "declarations_validate d =
     and_then (purpose_validate (md_purpose d)) (\<lambda>_.
     and_then (case md_payload_schema d of None \<Rightarrow> Ok () | Some s \<Rightarrow> schema_validate s) (\<lambda>_.
     let mode = od_mode (md_origin d); authority = od_authority (md_origin d) in
     fail_if (is_legacy_gateway authority \<and> mode \<noteq> LegacyOrUnspecified)
       UnsupportedLegacyOrigin
     (fail_if (is_guest_smtp authority \<and> mode \<noteq> LegacyOrUnspecified)
       UnsupportedGuestOrigin
     (fail_if (is_guest_gateway authority \<and> mode \<noteq> HumanInitiated)
       UnsupportedGuestOrigin (Ok ())))))"

definition declarations_prefix :: bytes where
  "declarations_prefix = str_bytes ''cs-mail/message-declarations/v1''"

definition declarations_canonical_bytes ::
  "message_declarations \<Rightarrow> (bytes, declaration_error) res" where
  "declarations_canonical_bytes d =
     and_then (declarations_validate d) (\<lambda>_.
     and_then (purpose_append (md_purpose d) declarations_prefix) (\<lambda>bs.
     let bs = authority_append (od_authority (md_origin d)) (bs @ [origin_mode_code (od_mode (md_origin d))]) in
     case md_payload_schema d of
       Some s \<Rightarrow> schema_append s (bs @ [1])
     | None \<Rightarrow> Ok (bs @ [0])))"

section \<open>Schedules\<close>

datatype schedule_task =
  SubmissionTimeout request_id | RequestExpiry request_id | LaneHorizon lane_id

datatype schedule_change =
  Schedule schedule_task canonical_time
| CancelTask schedule_task

end
