(* ===== verification/Ledger.thy ===== *)
theory Ledger
  imports Primitives
begin

text \<open>
  The journal ledger of \<open>crates/cs-mail-ledger/src/lib.rs\<close>: accounts, transfers, batches, and
  the view that applies a whole batch or nothing.  The lemmas give the effect of a batch on
  every account, the conservation of the signed sum, and the conditions under which a batch is
  refused.
\<close>

section \<open>Accounts\<close>

datatype account =
  ProcessorClearing
| ProgramClearing payment_operation_id
| RequestEscrow payment_operation_id
| RefundPayable payment_operation_id
| ProcessingRevenue
| UtilityServiceReceipts payment_operation_id
| PendingForfeiture payment_operation_id
| CorporatePoolRevenue
| RestrictedMemberFunds
| MemberPayableAcc allocation_id
| CorporateLossClearing

text \<open>The derived order: by the variant's position, then by its identifier.\<close>

primrec account_rank :: "account \<Rightarrow> nat \<times> u128" where
  "account_rank ProcessorClearing = (0, 0)"
| "account_rank (ProgramClearing i) = (1, i)"
| "account_rank (RequestEscrow i) = (2, i)"
| "account_rank (RefundPayable i) = (3, i)"
| "account_rank ProcessingRevenue = (4, 0)"
| "account_rank (UtilityServiceReceipts i) = (5, i)"
| "account_rank (PendingForfeiture i) = (6, i)"
| "account_rank CorporatePoolRevenue = (7, 0)"
| "account_rank RestrictedMemberFunds = (8, 0)"
| "account_rank (MemberPayableAcc i) = (9, i)"
| "account_rank CorporateLossClearing = (10, 0)"

lemma account_rank_inject: "account_rank a = account_rank b \<longleftrightarrow> a = b"
  by (cases a; cases b) auto

instantiation account :: linorder
begin

definition less_account :: "account \<Rightarrow> account \<Rightarrow> bool" where
  "less_account a b \<longleftrightarrow>
     fst (account_rank a) < fst (account_rank b)
     \<or> (fst (account_rank a) = fst (account_rank b) \<and> snd (account_rank a) < snd (account_rank b))"

definition less_eq_account :: "account \<Rightarrow> account \<Rightarrow> bool" where
  "less_eq_account a b \<longleftrightarrow> a < b \<or> a = b"

instance
proof
  fix a b c :: account
  show "(a < b) = (a \<le> b \<and> \<not> b \<le> a)"
    by (auto simp: less_eq_account_def less_account_def)
  show "a \<le> a" by (simp add: less_eq_account_def)
  show "a \<le> b \<Longrightarrow> b \<le> c \<Longrightarrow> a \<le> c"
    by (auto simp: less_eq_account_def less_account_def)
  show "a \<le> b \<Longrightarrow> b \<le> a \<Longrightarrow> a = b"
    by (auto simp: less_eq_account_def less_account_def)
  show "a \<le> b \<or> b \<le> a"
    using account_rank_inject [of a b]
    by (auto simp: less_eq_account_def less_account_def prod_eq_iff)
qed

end

definition permits_negative :: "account \<Rightarrow> bool" where
  "permits_negative a =
     (case a of ProcessorClearing \<Rightarrow> True | ProgramClearing _ \<Rightarrow> True
      | CorporateLossClearing \<Rightarrow> True | _ \<Rightarrow> False)"

section \<open>Transfers and batches\<close>

record transfer =
  tr_from :: account
  tr_to :: account
  tr_amount :: money

type_synonym ledger_batch = "transfer list"

text \<open>\<open>LedgerBatch::transfer\<close> skips a zero amount.\<close>

definition batch_transfer :: "account \<Rightarrow> account \<Rightarrow> money \<Rightarrow> ledger_batch \<Rightarrow> ledger_batch" where
  "batch_transfer src dst amount batch =
     (if amount = 0 then batch
      else batch @ [\<lparr>tr_from = src, tr_to = dst, tr_amount = amount\<rparr>])"

definition is_balanced :: "ledger_batch \<Rightarrow> bool" where
  "is_balanced batch \<longleftrightarrow> list_all (\<lambda>t. tr_from t \<noteq> tr_to t) batch"

datatype ledger_error =
  LedgerInsufficientFunds account money money
| LedgerArithmeticOverflow
| LedgerInvalidBatch
| LedgerVersionConflict

section \<open>The ledger view\<close>

record ledger_view =
  lv_revision :: u64
  lv_unit :: settlement_unit
  lv_balances :: "(account \<times> int) list"

definition u64_max :: int where
  "u64_max = 2 ^ 64 - 1"

definition view_from_balances :: "u64 \<Rightarrow> settlement_unit \<Rightarrow> (account, int) btmap \<Rightarrow> ledger_view" where
  "view_from_balances revision unit balances =
     \<lparr>lv_revision = revision, lv_unit = unit, lv_balances = bt_entries balances\<rparr>"

definition signed_balance :: "ledger_view \<Rightarrow> account \<Rightarrow> int" where
  "signed_balance v a =
     (case List.find (\<lambda>(b, _). b = a) (lv_balances v) of None \<Rightarrow> 0 | Some (_, x) \<Rightarrow> x)"

definition ledger_balance :: "ledger_view \<Rightarrow> account \<Rightarrow> money" where
  "ledger_balance v a =
     (case try_word (max (signed_balance v a) 0) of Some m \<Rightarrow> m | None \<Rightarrow> - 1)"

text \<open>
  \<open>total_value\<close>: the first loop refuses a repeated account, a negative obligation and a value
  out of range; the fold adds the values with overflow checks; the sum must be zero.
\<close>

primrec check_balances ::
  "account list \<Rightarrow> (account \<times> int) list \<Rightarrow> (unit, ledger_error) res" where
  "check_balances seen [] = Ok ()"
| "check_balances seen (e # rest) =
     fail_if (fst e \<in> set seen \<or> (\<not> permits_negative (fst e) \<and> snd e < 0)) LedgerInvalidBatch
     (fail_if (snd e > u64_max \<or> snd e < - u64_max) LedgerArithmeticOverflow
       (check_balances (fst e # seen) rest))"

primrec checked_sum :: "int \<Rightarrow> (account \<times> int) list \<Rightarrow> (int, ledger_error) res" where
  "checked_sum acc [] = Ok acc"
| "checked_sum acc (e # rest) =
     and_then (ok_or (i128_checked (acc + snd e)) LedgerArithmeticOverflow)
       (\<lambda>acc'. checked_sum acc' rest)"

definition total_value :: "ledger_view \<Rightarrow> (money, ledger_error) res" where
  "total_value v =
     and_then (check_balances [] (lv_balances v)) (\<lambda>_.
     and_then (checked_sum 0 (lv_balances v)) (\<lambda>sum.
     fail_if (sum \<noteq> 0) LedgerInvalidBatch (Ok 0)))"

text \<open>One iteration of the loop of \<open>LedgerView::apply\<close>.\<close>

definition apply_transfer ::
  "(account, int) btmap \<Rightarrow> transfer \<Rightarrow> ((account, int) btmap, ledger_error) res" where
  "apply_transfer balances t =
     (let available = bt_find balances (tr_from t) in
      and_then (ok_or (i128_checked (available - uint (tr_amount t))) LedgerArithmeticOverflow) (\<lambda>remaining.
      if remaining < 0 \<and> \<not> permits_negative (tr_from t) then
        and_then (ok_or (try_word available) LedgerInvalidBatch) (\<lambda>m.
          Err (LedgerInsufficientFunds (tr_from t) m (tr_amount t)))
      else
        and_then (ok_or (i128_checked
            (bt_find balances (tr_to t) + uint (tr_amount t)))
            LedgerArithmeticOverflow) (\<lambda>destination.
        fail_if ((\<not> permits_negative (tr_to t) \<and> destination > u64_max) \<or> remaining < - u64_max)
          LedgerArithmeticOverflow
        (Ok (bt_insert (tr_to t) destination (bt_insert (tr_from t) remaining balances))))))"

primrec apply_transfers ::
  "(account, int) btmap \<Rightarrow> transfer list \<Rightarrow> ((account, int) btmap, ledger_error) res" where
  "apply_transfers balances [] = Ok balances"
| "apply_transfers balances (t # ts) =
     and_then (apply_transfer balances t) (\<lambda>b. apply_transfers b ts)"

definition view_apply :: "ledger_view \<Rightarrow> ledger_batch \<Rightarrow> (ledger_view, ledger_error) res" where
  "view_apply v batch =
     and_then (total_value v) (\<lambda>_.
     fail_if (\<not> is_balanced batch) LedgerInvalidBatch
     (and_then (apply_transfers (bt_collect (lv_balances v)) batch) (\<lambda>balances.
      and_then (ok_or (checked_add (lv_revision v) 1) LedgerArithmeticOverflow) (\<lambda>revision.
      let next = view_from_balances revision (lv_unit v) balances in
      and_then (total_value next) (\<lambda>_. Ok next)))))"

section \<open>The ledger state\<close>

record ledger_state =
  ls_view :: ledger_view

definition ledger_new :: "settlement_unit \<Rightarrow> ledger_state" where
  "ledger_new unit = \<lparr>ls_view = view_from_balances 0 unit bt_empty\<rparr>"

definition ledger_apply ::
  "ledger_state \<Rightarrow> u64 \<Rightarrow> ledger_batch \<Rightarrow> (ledger_state, ledger_error) res" where
  "ledger_apply s expected batch =
     fail_if (lv_revision (ls_view s) \<noteq> expected) LedgerVersionConflict
     (and_then (view_apply (ls_view s) batch) (\<lambda>v. Ok \<lparr>ls_view = v\<rparr>))"

section \<open>What a valid journal is\<close>

definition balance_ok :: "account \<times> int \<Rightarrow> bool" where
  "balance_ok e \<longleftrightarrow> (permits_negative (fst e) \<or> 0 \<le> snd e) \<and> snd e \<le> u64_max \<and> - u64_max \<le> snd e"

definition view_ok :: "ledger_view \<Rightarrow> bool" where
  "view_ok v \<longleftrightarrow> distinct (map fst (lv_balances v)) \<and> list_all balance_ok (lv_balances v)
     \<and> sum_list (map snd (lv_balances v)) = 0"

lemma check_balances_Ok:
  "check_balances seen xs = Ok () \<longleftrightarrow>
     distinct (map fst xs) \<and> set seen \<inter> set (map fst xs) = {} \<and> list_all balance_ok xs"
  by (induction xs arbitrary: seen) (auto simp: balance_ok_def)

lemma check_balances_no_panic: "check_balances seen xs \<noteq> Panic"
  by (induction xs arbitrary: seen) auto

lemma checked_sum_Ok: "checked_sum acc xs = Ok s \<Longrightarrow> s = acc + sum_list (map snd xs)"
  by (induction xs arbitrary: acc) (force simp: i128_checked_def split: if_splits)+

lemma checked_sum_no_panic: "checked_sum acc xs \<noteq> Panic"
  by (induction xs arbitrary: acc) auto

lemma checked_sum_bounded:
  assumes "list_all balance_ok xs" and "\<bar>acc\<bar> + int (length xs) * u64_max < 2 ^ 127"
  shows "checked_sum acc xs = Ok (acc + sum_list (map snd xs))"
  using assms
proof (induction xs arbitrary: acc)
  case Nil
  then show ?case by simp
next
  case (Cons e xs)
  have b: "\<bar>snd e\<bar> \<le> u64_max" using Cons.prems(1) by (auto simp: balance_ok_def)
  have u: "0 \<le> u64_max" by (simp add: u64_max_def)
  have "\<bar>acc + snd e\<bar> + int (length xs) * u64_max \<le> \<bar>acc\<bar> + int (length (e # xs)) * u64_max"
    using b by (simp add: algebra_simps)
  then have lt: "\<bar>acc + snd e\<bar> + int (length xs) * u64_max < 2 ^ 127"
    using Cons.prems(2) by linarith
  moreover have "0 \<le> int (length xs) * u64_max" using u by simp
  ultimately have "\<bar>acc + snd e\<bar> < 2 ^ 127" by linarith
  then have "i128_checked (acc + snd e) = Some (acc + snd e)"
    by (auto simp: i128_checked_def)
  then show ?case using Cons lt by (simp add: add.assoc)
qed

lemma total_value_Ok: "total_value v = Ok m \<Longrightarrow> m = 0 \<and> view_ok v"
  unfolding total_value_def
  by (auto simp: check_balances_Ok view_ok_def dest!: checked_sum_Ok)

lemma total_value_view_ok: "total_value v = Ok m \<Longrightarrow> view_ok v"
  by (simp add: total_value_Ok)

lemma total_value_overdraft: "total_value v \<noteq> Err (LedgerInsufficientFunds a x y)"
proof -
  have "check_balances seen xs \<noteq> Err (LedgerInsufficientFunds a x y)" for seen xs
    by (induction xs arbitrary: seen) (auto simp: fail_if_def)
  moreover have "checked_sum acc xs \<noteq> Err (LedgerInsufficientFunds a x y)" for acc xs
    by (induction xs arbitrary: acc) (auto simp: res_simps)
  ultimately show ?thesis by (auto simp: total_value_def res_simps fail_if_def split: if_splits)
qed

lemma total_value_no_panic: "total_value v \<noteq> Panic"
  by (simp add: total_value_def check_balances_no_panic checked_sum_no_panic)

lemma total_value_complete:
  assumes "view_ok v" and "length (lv_balances v) < 2 ^ 62"
  shows "total_value v = Ok 0"
proof -
  have "int (length (lv_balances v)) \<le> 2 ^ 62" using assms(2) by simp
  then have "int (length (lv_balances v)) * u64_max \<le> 2 ^ 62 * u64_max"
    by (rule mult_right_mono) (simp add: u64_max_def)
  then have "checked_sum 0 (lv_balances v) = Ok (0 + sum_list (map snd (lv_balances v)))"
    using assms(1) by (intro checked_sum_bounded) (auto simp: view_ok_def u64_max_def)
  moreover have "check_balances [] (lv_balances v) = Ok ()"
    using assms(1) by (simp add: check_balances_Ok view_ok_def)
  ultimately show ?thesis using assms(1) by (simp add: total_value_def view_ok_def)
qed
section \<open>The effect of a batch\<close>

definition flow_in :: "account \<Rightarrow> ledger_batch \<Rightarrow> int" where
  "flow_in a batch = sum_list (map (\<lambda>t. if tr_to t = a then uint (tr_amount t) else 0) batch)"

definition flow_out :: "account \<Rightarrow> ledger_batch \<Rightarrow> int" where
  "flow_out a batch = sum_list (map (\<lambda>t. if tr_from t = a then uint (tr_amount t) else 0) batch)"

definition net_flow :: "account \<Rightarrow> ledger_batch \<Rightarrow> int" where
  "net_flow a batch = flow_in a batch - flow_out a batch"

lemma net_flow_simps [simp]:
  "net_flow a [] = 0"
  "net_flow a (t # ts) = (if tr_to t = a then uint (tr_amount t) else 0)
     - (if tr_from t = a then uint (tr_amount t) else 0) + net_flow a ts"
  "net_flow a (xs @ ys) = net_flow a xs + net_flow a ys"
  by (simp_all add: net_flow_def flow_in_def flow_out_def)

lemma net_flow_transfer [simp]:
  "net_flow a (batch_transfer src dst m batch) = net_flow a batch
     + (if dst = a then uint m else 0) - (if src = a then uint m else 0)"
  by (simp add: batch_transfer_def)

lemma is_balanced_simps [simp]:
  "is_balanced []"
  "is_balanced (t # ts) \<longleftrightarrow> tr_from t \<noteq> tr_to t \<and> is_balanced ts"
  "is_balanced (xs @ ys) \<longleftrightarrow> is_balanced xs \<and> is_balanced ys"
  by (auto simp: is_balanced_def)

lemma is_balanced_transfer [simp]:
  "is_balanced (batch_transfer src dst m batch) \<longleftrightarrow> is_balanced batch \<and> (m = 0 \<or> src \<noteq> dst)"
  by (auto simp: batch_transfer_def)

lemma apply_transfer_Ok:
  assumes "apply_transfer m t = Ok m'" and "tr_from t \<noteq> tr_to t"
  shows "bt_find m' a = bt_find m a + net_flow a [t]"
    and "sum_list (bt_values m') = sum_list (bt_values m)"
    and "\<not> permits_negative (tr_from t) \<Longrightarrow> uint (tr_amount t) \<le> bt_find m (tr_from t)"
proof -
  have m': "m' = bt_insert (tr_to t) (bt_find m (tr_to t) + uint (tr_amount t))
      (bt_insert (tr_from t) (bt_find m (tr_from t) - uint (tr_amount t)) m)"
    and pos: "permits_negative (tr_from t) \<or> uint (tr_amount t) \<le> bt_find m (tr_from t)"
    using assms(1) by (auto simp: apply_transfer_def Let_def i128_checked_def bt_find_def split: if_splits)
  show "bt_find m' a = bt_find m a + net_flow a [t]" using assms(2) by (simp add: m')
  show "sum_list (bt_values m') = sum_list (bt_values m)"
    using assms(2) by (simp add: m' bt_sum_insert)
  show "\<not> permits_negative (tr_from t) \<Longrightarrow> uint (tr_amount t) \<le> bt_find m (tr_from t)"
    using pos by blast
qed

lemma apply_transfers_Ok:
  "apply_transfers m ts = Ok m' \<Longrightarrow> is_balanced ts \<Longrightarrow>
     bt_find m' a = bt_find m a + net_flow a ts
     \<and> sum_list (bt_values m') = sum_list (bt_values m)"
proof (induction ts arbitrary: m)
  case Nil
  then show ?case by simp
next
  case (Cons t ts)
  then obtain b where b: "apply_transfer m t = Ok b" "apply_transfers b ts = Ok m'" by auto
  show ?case
    using Cons.IH [OF b(2)] Cons.prems(2) apply_transfer_Ok(1,2) [OF b(1)] by simp
qed

lemma apply_transfers_no_panic: "apply_transfers m ts \<noteq> Panic"
  by (induction ts arbitrary: m) (auto simp: apply_transfer_def Let_def)

lemma signed_balance_find:
  "signed_balance v a = (case map_of (lv_balances v) a of Some x \<Rightarrow> x | None \<Rightarrow> 0)"
proof -
  have "(case List.find (\<lambda>(b, _). b = a) xs of None \<Rightarrow> 0 | Some (_, x) \<Rightarrow> x)
      = (case map_of xs a of Some x \<Rightarrow> x | None \<Rightarrow> (0 :: int))" for xs
    by (induction xs) auto
  then show ?thesis by (simp add: signed_balance_def)
qed

lemma signed_balance_from_balances [simp]:
  "signed_balance (view_from_balances r u m) a = bt_find m a"
  by (simp add: signed_balance_find view_from_balances_def bt_find_def bt_get_entries)

lemma bt_find_collect:
  "view_ok v \<Longrightarrow> bt_find (bt_collect (lv_balances v)) a = signed_balance v a"
  by (simp add: signed_balance_find bt_find_def bt_get_collect view_ok_def)

lemma view_apply_Ok:
  assumes "view_apply v batch = Ok v'"
  shows "view_ok v" and "view_ok v'" and "is_balanced batch"
    and "unat (lv_revision v') = Suc (unat (lv_revision v))"
    and "lv_unit v' = lv_unit v"
    and "signed_balance v' a = signed_balance v a + net_flow a batch"
proof -
  obtain x y m r where x: "total_value v = Ok x" and b: "is_balanced batch"
    and m: "apply_transfers (bt_collect (lv_balances v)) batch = Ok m"
    and r: "checked_add (lv_revision v) 1 = Some r"
    and v': "v' = view_from_balances r (lv_unit v) m"
    and y: "total_value (view_from_balances r (lv_unit v) m) = Ok y"
    using assms by (auto simp: view_apply_def Let_def)
  have ok: "view_ok v" and ok': "view_ok v'" using x y v' by (simp_all add: total_value_view_ok)
  show "view_ok v" "view_ok v'" "is_balanced batch" using ok ok' b by auto
  show "unat (lv_revision v') = Suc (unat (lv_revision v))" 
    using checked_add_SomeD [OF r] by (simp add: v' view_from_balances_def)
  show "lv_unit v' = lv_unit v" by (simp add: v' view_from_balances_def)
  show "signed_balance v' a = signed_balance v a + net_flow a batch"
    using apply_transfers_Ok [OF m b, of a] bt_find_collect [OF ok, of a] by (simp add: v')
qed

lemma view_apply_revision:
  assumes "view_apply v batch = Ok v'"
  shows "uint (lv_revision v') = uint (lv_revision v) + 1"
proof -
  have "int (unat (lv_revision v')) = int (unat (lv_revision v)) + 1"
    by (simp only: view_apply_Ok(4) [OF assms] of_nat_Suc)
  then show ?thesis by simp
qed

lemma view_apply_no_panic: "view_apply v batch \<noteq> Panic"
  by (auto simp: view_apply_def Let_def total_value_no_panic apply_transfers_no_panic)

lemma ledger_balance_ok:
  assumes "view_ok v" and "\<not> permits_negative a"
  shows "uint (ledger_balance v a) = signed_balance v a"
proof -
  have "0 \<le> signed_balance v a \<and> signed_balance v a \<le> u64_max"
  proof (cases "map_of (lv_balances v) a")
    case None
    then show ?thesis by (simp add: signed_balance_find u64_max_def)
  next
    case (Some x)
    then have "(a, x) \<in> set (lv_balances v)" by (rule map_of_SomeD)
    then have "balance_ok (a, x)" using assms(1) by (auto simp: view_ok_def list_all_iff)
    then show ?thesis using assms(2) Some by (simp add: signed_balance_find balance_ok_def)
  qed
  then show ?thesis
    by (simp add: ledger_balance_def try_word_def u64_max_def uint_word_of_int take_bit_int_eq_self)
qed
lemma apply_transfers_insufficient:
  "apply_transfers m ts = Err (LedgerInsufficientFunds a available required) \<Longrightarrow> is_balanced ts \<Longrightarrow>
     \<exists>pre t post. ts = pre @ t # post \<and> tr_from t = a \<and> tr_amount t = required
       \<and> \<not> permits_negative a \<and> bt_find m a + net_flow a pre = uint available \<and> available < required"
proof (induction ts arbitrary: m)
  case Nil
  then show ?case by simp
next
  case (Cons t ts)
  show ?case
  proof (cases "apply_transfer m t")
    case (Ok b)
    then obtain pre t' post where "ts = pre @ t' # post" "tr_from t' = a" "tr_amount t' = required"
      "\<not> permits_negative a" "bt_find b a + net_flow a pre = uint available" "available < required"
      using Cons.IH [of b] Cons.prems by (simp add: res_simps) blast
    moreover have "bt_find b a = bt_find m a + net_flow a [t]"
      using apply_transfer_Ok(1) [OF Ok] Cons.prems(2) by simp
    ultimately show ?thesis by (intro exI [of _ "t # pre"] exI [of _ t'] exI [of _ post]) simp
  next
    case (Err e)
    then have e: "apply_transfer m t = Err (LedgerInsufficientFunds a available required)"
      using Cons.prems(1) by simp
    then have "tr_from t = a" "tr_amount t = required" "\<not> permits_negative a"
      and w: "try_word (bt_find m a) = Some available" and lt: "bt_find m a < uint required"
      by (auto simp: apply_transfer_def Let_def bt_find_def res_simps i128_checked_def split: if_splits)
    moreover have "uint available = bt_find m a" using try_word_SomeD [OF w] by simp
    moreover from this have "available < required" using lt by (simp add: word_less_alt)
    ultimately show ?thesis by (intro exI [of _ "[]"] exI [of _ t] exI [of _ ts]) simp
  next
    case Panic
    then show ?thesis using Cons.prems(1) by simp
  qed
qed

definition ledger_step ::
  "ledger_state \<Rightarrow> u64 \<times> ledger_batch \<Rightarrow> (ledger_state \<times> ledger_batch, ledger_error) res" where
  "ledger_step s call = map_ok (\<lambda>s'. (s', snd call)) (ledger_apply s (fst call) (snd call))"

lemma ledger_apply_Ok:
  "ledger_apply s expected batch = Ok s' \<longleftrightarrow>
     lv_revision (ls_view s) = expected \<and> view_apply (ls_view s) batch = Ok (ls_view s')"
  by (cases s') (auto simp: ledger_apply_def)

lemma view_ok_new [simp]: "view_ok (ls_view (ledger_new unit))"
  by (simp add: ledger_new_def view_from_balances_def view_ok_def)

interpretation ledger: accounting_machine ledger_step "\<lambda>s. view_ok (ls_view s)"
  "\<lambda>s a. case a of Some acc \<Rightarrow> signed_balance (ls_view s) acc | None \<Rightarrow> int (unat (lv_revision (ls_view s)))"
  "\<lambda>batch a. case a of Some acc \<Rightarrow> net_flow acc batch | None \<Rightarrow> 1"
  by unfold_locales
    (auto simp: ledger_step_def ledger_apply_Ok dest: view_apply_Ok(2,6) view_apply_revision
      split: option.split)

lemma ledger_new_balance [simp]: "signed_balance (ls_view (ledger_new unit)) a = 0"
  by (simp add: ledger_new_def bt_find_def)

lemma ledger_new_revision [simp]: "lv_revision (ls_view (ledger_new unit)) = 0"
  by (simp add: ledger_new_def view_from_balances_def)

text \<open>
  After any sequence of \<open>LedgerState::apply\<close> calls on a new ledger, accepted or refused, the
  journal is valid (no repeated account, no negative obligation, all values in range, signed sum
  zero), its revision is the number of accepted batches, and the balance of every account is
  exactly what the accepted batches moved into it less what they moved out.
\<close>

theorem ledger_run_balances:
  "case run_machine ledger_step (ledger_new unit) calls of (s, applied) \<Rightarrow>
     view_ok (ls_view s)
     \<and> unat (lv_revision (ls_view s)) = length applied
     \<and> (\<forall>a. signed_balance (ls_view s) a = sum_list (map (net_flow a) applied))"
proof -
  obtain s applied where r: "run_machine ledger_step (ledger_new unit) calls = (s, applied)"
    by (cases "run_machine ledger_step (ledger_new unit) calls")
  note level = ledger.run_level [OF view_ok_new r]
  have "int (unat (lv_revision (ls_view s))) = int (length applied)"
    using level [of None] by (simp add: sum_list_triv)
  then have "unat (lv_revision (ls_view s)) = length applied" by (simp only: of_nat_eq_iff)
  then show ?thesis
    using ledger.run_inv [OF view_ok_new r] level [of "Some _"] by (simp add: r)
qed

text \<open>
  A batch refused for insufficient funds names a real overdraft: some transfer of the batch
  debits an obligation account that, after the transfers before it, holds exactly the reported
  available amount, which is less than the reported required amount.
\<close>

theorem ledger_overdraft_refused:
  assumes "ledger_apply s expected batch = Err (LedgerInsufficientFunds a available required)"
  shows "\<exists>pre t post. batch = pre @ t # post \<and> tr_from t = a \<and> tr_amount t = required
     \<and> \<not> permits_negative a
     \<and> signed_balance (ls_view s) a + net_flow a pre = uint available \<and> available < required"
proof -
  let ?v = "ls_view s"
  have "view_apply ?v batch = Err (LedgerInsufficientFunds a available required)"
    using assms by (auto simp: ledger_apply_def fail_if_def res_simps split: if_splits)
  then have "view_ok ?v" and b: "is_balanced batch"
    and ap: "apply_transfers (bt_collect (lv_balances ?v)) batch
      = Err (LedgerInsufficientFunds a available required)"
    by (auto simp: view_apply_def Let_def fail_if_def res_simps total_value_overdraft
        dest: total_value_view_ok split: if_splits)
  with apply_transfers_insufficient [OF ap b] show ?thesis by (simp add: bt_find_collect)
qed

section \<open>When a batch is accepted\<close>

definition volume :: "ledger_batch \<Rightarrow> int" where
  "volume batch = sum_list (map (\<lambda>t. uint (tr_amount t)) batch)"

primrec covered :: "(account \<Rightarrow> int) \<Rightarrow> ledger_batch \<Rightarrow> bool" where
  "covered balance [] = True"
| "covered balance (t # ts) \<longleftrightarrow>
     (permits_negative (tr_from t) \<or> uint (tr_amount t) \<le> balance (tr_from t))
     \<and> covered (\<lambda>a. balance a + net_flow a [t]) ts"

lemma volume_simps [simp]:
  "volume [] = 0" "volume (t # ts) = uint (tr_amount t) + volume ts"
  by (simp_all add: volume_def)

lemma volume_nonneg: "0 \<le> volume batch"
  by (induction batch) simp_all

lemma covered_transfer:
  "covered f (batch_transfer src dst m []) \<longleftrightarrow> m = 0 \<or> permits_negative src \<or> uint m \<le> f src"
  by (simp add: batch_transfer_def)

lemma covered_transfer2:
  "src \<noteq> dst \<Longrightarrow>
   covered f (batch_transfer src2 dst2 n (batch_transfer src dst m [])) \<longleftrightarrow>
     (m = 0 \<or> permits_negative src \<or> uint m \<le> f src)
     \<and> (n = 0 \<or> permits_negative src2
        \<or> uint n \<le> f src2 + (if dst = src2 then uint m else 0) - (if src = src2 then uint m else 0))"
  by (auto simp: batch_transfer_def)

lemma permits_negative_simps [simp]:
  "permits_negative ProcessorClearing" "permits_negative (ProgramClearing i)"
  "permits_negative CorporateLossClearing" "\<not> permits_negative (RequestEscrow i)"
  "\<not> permits_negative (RefundPayable i)" "\<not> permits_negative ProcessingRevenue"
  "\<not> permits_negative (UtilityServiceReceipts i)" "\<not> permits_negative (PendingForfeiture i)"
  "\<not> permits_negative CorporatePoolRevenue" "\<not> permits_negative RestrictedMemberFunds"
  "\<not> permits_negative (MemberPayableAcc j)"
  by (simp_all add: permits_negative_def)

lemma apply_transfer_complete:
  assumes "permits_negative (tr_from t) \<or> uint (tr_amount t) \<le> bt_find m (tr_from t)"
    and "\<forall>a. \<bar>bt_find m a\<bar> + uint (tr_amount t) \<le> u64_max" and "tr_from t \<noteq> tr_to t"
  shows "\<exists>m'. apply_transfer m t = Ok m'"
proof -
  have f: "\<bar>bt_find m (tr_from t)\<bar> + uint (tr_amount t) \<le> u64_max"
    and g: "\<bar>bt_find m (tr_to t)\<bar> + uint (tr_amount t) \<le> u64_max"
    using assms(2) by blast+
  have u: "0 \<le> uint (tr_amount t)" by simp
  have "i128_checked (bt_find m (tr_from t) - uint (tr_amount t)) =
      Some (bt_find m (tr_from t) - uint (tr_amount t))"
  proof (rule i128_checked_Some)
    have "\<bar>bt_find m (tr_from t) - uint (tr_amount t)\<bar> \<le> \<bar>bt_find m (tr_from t)\<bar> + uint (tr_amount t)"
      using u by linarith
    also have "\<dots> < 2 ^ 127" using f by (simp add: u64_max_def)
    finally show "\<bar>bt_find m (tr_from t) - uint (tr_amount t)\<bar> < 2 ^ 127" .
  qed
  moreover have "i128_checked (bt_find m (tr_to t) + uint (tr_amount t)) =
      Some (bt_find m (tr_to t) + uint (tr_amount t))"
  proof (rule i128_checked_Some)
    have "\<bar>bt_find m (tr_to t) + uint (tr_amount t)\<bar> \<le> \<bar>bt_find m (tr_to t)\<bar> + uint (tr_amount t)"
      using u by linarith
    also have "\<dots> < 2 ^ 127" using g by (simp add: u64_max_def)
    finally show "\<bar>bt_find m (tr_to t) + uint (tr_amount t)\<bar> < 2 ^ 127" .
  qed
  moreover have "\<not> (\<not> permits_negative (tr_to t) \<and> bt_find m (tr_to t) + uint (tr_amount t) > u64_max
      \<or> bt_find m (tr_from t) - uint (tr_amount t) < - u64_max)"
    using f g u by linarith
  moreover have "\<not> (bt_find m (tr_from t) - uint (tr_amount t) < 0 \<and> \<not> permits_negative (tr_from t))"
    using assms(1) by auto
  ultimately show ?thesis
    by (auto simp: apply_transfer_def Let_def)
qed

lemma apply_transfers_complete:
  "covered (bt_find m) ts \<Longrightarrow> is_balanced ts \<Longrightarrow> \<forall>a. \<bar>bt_find m a\<bar> + volume ts \<le> u64_max \<Longrightarrow>
     \<exists>m'. apply_transfers m ts = Ok m'"
proof (induction ts arbitrary: m)
  case Nil
  then show ?case by simp
next
  case (Cons t ts)
  have "\<forall>a. \<bar>bt_find m a\<bar> + uint (tr_amount t) \<le> u64_max"
  proof
    fix a show "\<bar>bt_find m a\<bar> + uint (tr_amount t) \<le> u64_max"
      using Cons.prems(3) [rule_format, of a] volume_nonneg [of ts] by simp
  qed
  then obtain b where b: "apply_transfer m t = Ok b"
    using Cons.prems apply_transfer_complete [of t m] by auto
  have flow: "bt_find b a = bt_find m a + net_flow a [t]" for a
    using apply_transfer_Ok(1) [OF b] Cons.prems(2) by simp
  have "covered (bt_find b) ts" using Cons.prems(1) by (simp add: flow [abs_def])
  moreover have "\<bar>bt_find b a\<bar> + volume ts \<le> u64_max" for a
  proof -
    have "\<bar>net_flow a [t]\<bar> \<le> uint (tr_amount t)" using Cons.prems(2) by simp
    then have "\<bar>bt_find b a\<bar> \<le> \<bar>bt_find m a\<bar> + uint (tr_amount t)" unfolding flow by linarith
    then show ?thesis using Cons.prems(3) [rule_format, of a] by simp
  qed
  ultimately show ?case using Cons.IH [of b] Cons.prems(2) b by auto
qed

lemma apply_transfers_len:
  "apply_transfers m ts = Ok m' \<Longrightarrow> bt_len m' \<le> bt_len m + 2 * length ts"
proof (induction ts arbitrary: m)
  case Nil
  then show ?case by simp
next
  case (Cons t ts)
  then obtain b where b: "apply_transfer m t = Ok b" "apply_transfers b ts = Ok m'" by auto
  from b(1) obtain x y where "b = bt_insert (tr_to t) x (bt_insert (tr_from t) y m)"
    by (auto simp: apply_transfer_def Let_def split: if_splits)
  then have "bt_len b \<le> Suc (Suc (bt_len m))"
    using bt_len_insert [of "tr_to t" x "bt_insert (tr_from t) y m"] bt_len_insert [of "tr_from t" y m]
    by simp
  then show ?case using Cons.IH [OF b(2)] by simp
qed

lemma apply_transfers_nonneg:
  "apply_transfers m ts = Ok m' \<Longrightarrow> is_balanced ts \<Longrightarrow> \<forall>a. permits_negative a \<or> 0 \<le> bt_find m a \<Longrightarrow>
     permits_negative a \<or> 0 \<le> bt_find m' a"
proof (induction ts arbitrary: m)
  case Nil
  then show ?case by simp
next
  case (Cons t ts)
  then obtain b where b: "apply_transfer m t = Ok b" "apply_transfers b ts = Ok m'" by auto
  have ne: "tr_from t \<noteq> tr_to t" using Cons.prems(2) by simp
  have "\<forall>a. permits_negative a \<or> 0 \<le> bt_find b a"
  proof
    fix a
    have "permits_negative a \<or> 0 \<le> bt_find m a" using Cons.prems(3) by blast
    then show "permits_negative a \<or> 0 \<le> bt_find b a"
      using apply_transfer_Ok(1) [OF b(1) ne, of a] apply_transfer_Ok(3) [OF b(1) ne] by auto
  qed
  then show ?case using Cons.IH [OF b(2)] Cons.prems(2) by simp
qed

lemma signed_balance_nonneg:
  assumes "view_ok v" shows "permits_negative a \<or> 0 \<le> signed_balance v a"
proof (cases "map_of (lv_balances v) a")
  case None
  then show ?thesis by (simp add: signed_balance_find)
next
  case (Some x)
  then have "(a, x) \<in> set (lv_balances v)" by (rule map_of_SomeD)
  then show ?thesis using assms Some
    by (auto simp: view_ok_def list_all_iff balance_ok_def signed_balance_find)
qed

lemma view_ok_from_balances:
  assumes "\<And>a. permits_negative a \<or> 0 \<le> bt_find m a" and "\<And>a. \<bar>bt_find m a\<bar> \<le> u64_max"
    and "sum_list (bt_values m) = 0"
  shows "view_ok (view_from_balances r u m)"
proof -
  have "balance_ok e" if "e \<in> set (bt_entries m)" for e
    using assms(1,2) [of "fst e"] bt_entries_find [of "fst e" "snd e" m] that
    by (auto simp: balance_ok_def abs_le_iff)
  then show ?thesis
    using assms(3) by (auto simp: view_ok_def view_from_balances_def bt_distinct list_all_iff bt_values_def)
qed

lemma net_flow_le_volume: "is_balanced batch \<Longrightarrow> \<bar>net_flow a batch\<bar> \<le> volume batch"
proof (induction batch)
  case (Cons t ts)
  have "\<bar>net_flow a [t]\<bar> \<le> uint (tr_amount t)" using Cons.prems by simp
  then show ?case using Cons by (simp add: abs_le_iff)
qed simp

lemma covered_mono: "covered f ts \<Longrightarrow> (\<And>a. \<not> permits_negative a \<Longrightarrow> f a \<le> g a) \<Longrightarrow> covered g ts"
proof (induction ts arbitrary: f g)
  case (Cons t ts)
  have "covered (\<lambda>a. g a + net_flow a [t]) ts"
    by (rule Cons.IH [of "\<lambda>a. f a + net_flow a [t]"]) (use Cons.prems in auto)
  then show ?case using Cons.prems(1,2) by (fastforce intro: order_trans)
qed simp

text \<open>A covered, balanced batch is refused for a value out of range only.\<close>

lemma check_balances_only_overflow:
  assumes "check_balances seen xs = Err e" and "distinct (map fst xs)" and "set seen \<inter> fst ` set xs = {}"
    and "\<forall>x\<in>set xs. permits_negative (fst x) \<or> 0 \<le> snd x"
  shows "e = LedgerArithmeticOverflow"
  using assms
proof (induction xs arbitrary: seen)
  case (Cons x xs)
  then show ?case by (auto simp: fail_if_def split: if_splits)
qed simp

lemma checked_sum_only_overflow: "checked_sum acc xs = Err e \<Longrightarrow> e = LedgerArithmeticOverflow"
  by (induction xs arbitrary: acc) (auto simp: res_simps)

lemma total_value_only_overflow:
  assumes "total_value v = Err e" and "distinct (map fst (lv_balances v))"
    and "\<forall>x\<in>set (lv_balances v). permits_negative (fst x) \<or> 0 \<le> snd x"
    and "sum_list (map snd (lv_balances v)) = 0"
  shows "e = LedgerArithmeticOverflow"
  using assms check_balances_only_overflow [of "[]" "lv_balances v" e] checked_sum_only_overflow [of 0 "lv_balances v" e]
  by (auto simp: total_value_def res_simps fail_if_def dest: checked_sum_Ok split: if_splits)

lemma apply_transfers_only_overflow:
  "apply_transfers m ts = Err e \<Longrightarrow> covered (bt_find m) ts \<Longrightarrow> is_balanced ts \<Longrightarrow> e = LedgerArithmeticOverflow"
proof (induction ts arbitrary: m)
  case (Cons t ts)
  show ?case
  proof (cases "apply_transfer m t")
    case (Ok b)
    have flow: "bt_find b a = bt_find m a + net_flow a [t]" for a
      using apply_transfer_Ok(1) [OF Ok] Cons.prems(3) by simp
    have "covered (bt_find b) ts" using Cons.prems(2) by (simp add: flow [abs_def])
    then show ?thesis using Cons.IH [of b] Cons.prems Ok by simp
  next
    case (Err x)
    then have "x = LedgerArithmeticOverflow"
      using Cons.prems(2) unfolding apply_transfer_def Let_def i128_checked_def fail_if_def
      by (auto simp: res_simps split: if_splits)
    then show ?thesis using Cons.prems(1) Err by simp
  qed (use Cons.prems(1) in simp)
qed simp

lemma view_apply_only_overflow:
  assumes "view_apply v batch = Err e" and ok: "view_ok v" and b: "is_balanced batch"
    and cov: "covered (signed_balance v) batch"
  shows "e = LedgerArithmeticOverflow"
proof -
  let ?m = "bt_collect (lv_balances v)"
  have find: "bt_find ?m = signed_balance v" by (rule ext) (rule bt_find_collect [OF ok])
  have nonneg: "\<forall>a. permits_negative a \<or> 0 \<le> bt_find ?m a" by (simp add: find signed_balance_nonneg [OF ok])
  have ok': "distinct (map fst (lv_balances v))" "sum_list (map snd (lv_balances v)) = 0"
    "\<forall>x\<in>set (lv_balances v). permits_negative (fst x) \<or> 0 \<le> snd x"
    using ok by (auto simp: view_ok_def list_all_iff balance_ok_def)
  consider "total_value v = Err e" | "apply_transfers ?m batch = Err e" | "e = LedgerArithmeticOverflow"
    | m r where "apply_transfers ?m batch = Ok m" "total_value (view_from_balances r (lv_unit v) m) = Err e"
    using assms(1) b by (auto simp: view_apply_def Let_def res_simps fail_if_def)
  then show ?thesis
  proof cases
    case 1
    then show ?thesis by (rule total_value_only_overflow [OF _ ok'(1,3,2)])
  next
    case 2
    then show ?thesis using cov b by (auto simp: find intro: apply_transfers_only_overflow)
  next
    case (4 m r)
    have "sum_list (bt_values m) = 0"
      using apply_transfers_Ok [OF 4(1) b] ok'(1,2) by (simp add: bt_sum_collect)
    moreover have "\<forall>x\<in>set (bt_entries m). permits_negative (fst x) \<or> 0 \<le> snd x"
      using apply_transfers_nonneg [OF 4(1) b nonneg] bt_entries_find [of _ _ m] by (metis prod.collapse)
    ultimately show ?thesis
      by (intro total_value_only_overflow [OF 4(2)]) (simp_all add: view_from_balances_def bt_distinct bt_values_def)
  qed
qed

text \<open>
  A balanced batch is accepted at the current revision whenever every obligation it debits is
  covered at that point of the batch, no value can leave the 64-bit range, and a revision is
  left: the checks of the code refuse nothing else (and never panic).
\<close>

theorem ledger_accepts:
  assumes ok: "view_ok (ls_view s)" and b: "is_balanced batch"
    and cov: "covered (signed_balance (ls_view s)) batch"
    and room: "\<forall>a. \<bar>signed_balance (ls_view s) a\<bar> + volume batch \<le> u64_max"
    and rev: "unat (lv_revision (ls_view s)) < 2 ^ 64 - 1"
    and len: "length (lv_balances (ls_view s)) + 2 * length batch < 2 ^ 62"
  shows "is_ok (ledger_apply s (lv_revision (ls_view s)) batch)"
proof -
  let ?v = "ls_view s" and ?m = "bt_collect (lv_balances (ls_view s))"
  have find: "bt_find ?m = signed_balance ?v" by (rule ext) (rule bt_find_collect [OF ok])
  obtain m where m: "apply_transfers ?m batch = Ok m"
    using apply_transfers_complete [of ?m batch] cov b room by (auto simp: find)
  have flow: "bt_find m a = signed_balance ?v a + net_flow a batch"
    and sum: "sum_list (bt_values m) = sum_list (bt_values ?m)" for a
    using apply_transfers_Ok [OF m b] by (auto simp: find)
  obtain r where r: "checked_add (lv_revision ?v) 1 = Some r"
    using rev by (simp add: checked_add_def)
  let ?next = "view_from_balances r (lv_unit ?v) m"
  have "view_ok ?next"
  proof (rule view_ok_from_balances)
    fix a
    have "\<forall>a. permits_negative a \<or> 0 \<le> bt_find ?m a" by (simp add: find signed_balance_nonneg [OF ok])
    then show "permits_negative a \<or> 0 \<le> bt_find m a" by (rule apply_transfers_nonneg [OF m b])
    show "\<bar>bt_find m a\<bar> \<le> u64_max"
      using room [rule_format, of a] net_flow_le_volume [OF b, of a] unfolding flow by linarith
    show "sum_list (bt_values m) = 0"
      using ok by (simp add: sum bt_sum_collect view_ok_def)
  qed
  moreover have "length (lv_balances ?next) < 2 ^ 62"
    using apply_transfers_len [OF m] bt_len_collect [of "lv_balances ?v"] len
    by (simp add: view_from_balances_def bt_len_def)
  ultimately have t: "total_value ?next = Ok 0" by (rule total_value_complete)
  have "total_value ?v = Ok 0" using ok len by (intro total_value_complete) simp_all
  then show ?thesis by (simp add: ledger_apply_def view_apply_def b m r t)
qed


text \<open>A concrete journal for the two conditional theorems.\<close>

definition sample_funding :: ledger_batch where
  "sample_funding = batch_transfer ProcessorClearing (RequestEscrow 7) 5 []"

definition sample_release :: "money \<Rightarrow> ledger_batch" where
  "sample_release amount = batch_transfer (RequestEscrow 7) (RefundPayable 8) amount []"

definition sample_journal :: ledger_state where
  "sample_journal = \<lparr>ls_view = \<lparr>lv_revision = 1, lv_unit = 1,
     lv_balances = [(ProcessorClearing, - 5), (RequestEscrow 7, 5)]\<rparr>\<rparr>"

lemma sample_funded: "ledger_apply (ledger_new 1) 0 sample_funding = Ok sample_journal"
  by (simp add: ledger_apply_def view_apply_def total_value_def sample_journal_def
      sample_funding_def batch_transfer_def ledger_new_def view_from_balances_def apply_transfer_def
      bt_collect_def u64_max_def i128_checked_def permits_negative_def checked_add_def fail_if_def
      less_account_def Let_def)

lemma sample_overdraft:
  "ledger_apply sample_journal 1 (sample_release 6) = Err (LedgerInsufficientFunds (RequestEscrow 7) 5 6)"
  by (simp add: ledger_apply_def view_apply_def total_value_def sample_journal_def
      sample_release_def batch_transfer_def apply_transfer_def try_word_def
      bt_collect_def u64_max_def i128_checked_def permits_negative_def fail_if_def
      bt_find_def Let_def)

lemma ledger_overdraft_refused_witness:
  "\<exists>pre t post. sample_release 6 = pre @ t # post \<and> tr_from t = RequestEscrow 7 \<and> tr_amount t = 6
     \<and> \<not> permits_negative (RequestEscrow 7)
     \<and> signed_balance (ls_view sample_journal) (RequestEscrow 7) + net_flow (RequestEscrow 7) pre = uint (5 :: money)
     \<and> (5 :: money) < 6"
  by (rule ledger_overdraft_refused [OF sample_overdraft])

lemma ledger_accepts_witness:
  "is_ok (ledger_apply sample_journal (lv_revision (ls_view sample_journal)) (sample_release 3))"
proof (rule ledger_accepts)
  show "view_ok (ls_view sample_journal)" by code_simp
  show "is_balanced (sample_release 3)" by code_simp
  show "covered (signed_balance (ls_view sample_journal)) (sample_release 3)" by code_simp
  show "\<forall>a. \<bar>signed_balance (ls_view sample_journal) a\<bar> + volume (sample_release 3) \<le> u64_max"
    by (simp add: signed_balance_def sample_journal_def sample_release_def batch_transfer_def u64_max_def)
qed (simp_all add: sample_journal_def sample_release_def batch_transfer_def)

end
