(* ===== verification/Crypto.thy ===== *)
theory Crypto
  imports Prelude
begin

text \<open>
  The third-party cryptography the program calls: SHA-256 (the crate sha2) and Ed25519 (the crate
  ed25519-dalek).  Their functions are the fields of a record that is an argument of every
  definition that calls them; no property needs a hypothesis about them.  A concrete instance
  serves the witnesses.
\<close>

record crypto =
  cr_sha256 :: "bytes \<Rightarrow> bytes32"
  cr_key_parses :: "bytes32 \<Rightarrow> bool"
  cr_signature_parses :: "bytes \<Rightarrow> bool"
  cr_verify :: "bytes32 \<Rightarrow> bytes \<Rightarrow> bytes \<Rightarrow> bool"
  cr_verify_strict :: "bytes32 \<Rightarrow> bytes \<Rightarrow> bytes \<Rightarrow> bool"
  cr_sign :: "bytes32 \<Rightarrow> bytes \<Rightarrow> bytes"
  cr_public_key :: "bytes32 \<Rightarrow> bytes32"

definition sample_crypto :: crypto where
  "sample_crypto = \<lparr>cr_sha256 = (\<lambda>bs. push_bit 128 (ucast (last (0 # bs)) + 1)),
     cr_key_parses = (\<lambda>_. True), cr_signature_parses = (\<lambda>s. s \<noteq> []),
     cr_verify = (\<lambda>_ _ s. s = [1]), cr_verify_strict = (\<lambda>_ _ s. s = [1]),
     cr_sign = (\<lambda>_ _. [1]), cr_public_key = (\<lambda>k. k)\<rparr>"

end
