(* ===== verification/Payments.thy ===== *)
theory Payments
  imports Ledger Crypto
begin

text \<open>
  Payment operations and their authenticated evidence, from \<open>crates/cs-mail-finance/src\<close>:
  \<open>scope.rs\<close>, \<open>payments.rs\<close>, \<open>bank.rs\<close>, \<open>lot.rs\<close> and the financial terms of \<open>program.rs\<close>.
  SHA-256 and Ed25519 are fields of the record \<open>crypto\<close> of the theory Crypto, the JSON encoder
  is an argument of its own.
\<close>

section \<open>Scope and terms\<close>

record financial_scope =
  fs_deployment_domain :: bytes32
  fs_operator :: provider_ref
  fs_program :: program_ref
  fs_payment_account :: bytes32
  fs_protocol_version :: protocol_version

definition scope_canonical_bytes :: "financial_scope \<Rightarrow> bytes" where
  "scope_canonical_bytes s =
     str_bytes ''cs-mail/financial-scope/v1''
     @ be_bytes 32 (fs_deployment_domain s)
     @ be_bytes 16 (fs_operator s)
     @ be_bytes 16 (fs_program s)
     @ be_bytes 32 (fs_payment_account s)
     @ be_bytes 2 (fs_protocol_version s)"

record financial_terms =
  ft_scope :: financial_scope
  ft_policy_version :: policy_version
  ft_corporate_basis_points :: u16
  ft_maturity_delay :: duration

datatype payment_error =
  FundingRestricted | PayInvalidSignature | OperationMismatch | PayDuplicateConflict
| PayUnavailable | PayInvalidOperation

datatype program_error =
  PrgInvalidPolicy | PrgIncompleteSnapshot | PrgDuplicateConflict | PrgMissingRecord
| PrgTooEarly | PrgClosedPeriod | PrgTimeRegression | PrgInsufficientEvidence
| PrgInvalidPayment | PrgArithmeticOverflow
| PrgLedger ledger_error
| PrgPayment payment_error

definition terms_validate :: "financial_terms \<Rightarrow> (unit, program_error) res" where
  "terms_validate t = (if ft_corporate_basis_points t > 10000 then Err PrgInvalidPolicy else Ok ())"

section \<open>Operations\<close>

datatype payment_kind =
  Capture
| is_refund: Refund payment_operation_id
| MemberPayout allocation_id

record payment_operation =
  op_scope :: financial_scope
  op_id :: payment_operation_id
  op_kind :: payment_kind
  op_amount :: money
  op_unit :: settlement_unit
  op_destination :: bytes32

definition operation_validate :: "payment_operation \<Rightarrow> (unit, payment_error) res" where
  "operation_validate p =
     fail_if (op_id p = 0 \<or> op_amount p = 0 \<or> op_destination p = 0) PayInvalidOperation
     (case op_kind p of
        Refund capture \<Rightarrow> fail_if (capture = 0 \<or> capture = op_id p) PayInvalidOperation (Ok ())
      | MemberPayout allocation \<Rightarrow> fail_if (allocation = 0) PayInvalidOperation (Ok ())
      | Capture \<Rightarrow> Ok ())"

primrec kind_bytes :: "payment_kind \<Rightarrow> bytes" where
  "kind_bytes Capture = [0]"
| "kind_bytes (Refund capture) = 1 # be_bytes 16 capture"
| "kind_bytes (MemberPayout allocation) = 2 # be_bytes 16 allocation"

definition operation_preimage :: "payment_operation \<Rightarrow> bytes" where
  "operation_preimage p =
     str_bytes ''cs-mail/payment-operation/v2''
     @ scope_canonical_bytes (op_scope p)
     @ be_bytes 16 (op_id p)
     @ kind_bytes (op_kind p)
     @ be_bytes 8 (op_amount p)
     @ be_bytes 4 (op_unit p)
     @ be_bytes 32 (op_destination p)"

definition operation_digest :: "crypto \<Rightarrow> payment_operation \<Rightarrow> bytes32" where
  "operation_digest c p = cr_sha256 c (operation_preimage p)"

definition request_payment_preimage ::
  "financial_scope \<Rightarrow> scoped_ref \<Rightarrow> request_id \<Rightarrow> bool \<Rightarrow> bytes" where
  "request_payment_preimage scope relationship request refund =
     str_bytes ''cs-mail/request-payment/v2''
     @ scope_canonical_bytes scope
     @ be_bytes 2 (sr_version relationship)
     @ be_bytes 32 (sr_bytes relationship)
     @ be_bytes 16 request
     @ [if refund then 1 else 0]"

definition request_payment_id ::
  "crypto \<Rightarrow> financial_scope \<Rightarrow> scoped_ref \<Rightarrow> request_id \<Rightarrow> bool \<Rightarrow> payment_operation_id" where
  "request_payment_id c scope relationship request refund =
     high_u128 (cr_sha256 c (request_payment_preimage scope relationship request refund))"

section \<open>Evidence\<close>

datatype payment_outcome = OutPending | OutSettled | OutFailed | OutVoided | OutReversed

record payment_evidence =
  pe_event_id :: financial_event_id
  pe_operation_id :: payment_operation_id
  pe_operation_digest :: bytes32
  pe_outcome :: payment_outcome

primrec outcome_code :: "payment_outcome \<Rightarrow> u8" where
  "outcome_code OutSettled = 0"
| "outcome_code OutPending = 3"
| "outcome_code OutFailed = 4"
| "outcome_code OutVoided = 1"
| "outcome_code OutReversed = 2"

definition evidence_signing_bytes :: "payment_evidence \<Rightarrow> bytes" where
  "evidence_signing_bytes e =
     str_bytes ''cs-mail/payment-evidence/v1''
     @ be_bytes 16 (pe_event_id e)
     @ be_bytes 16 (pe_operation_id e)
     @ be_bytes 32 (pe_operation_digest e)
     @ [outcome_code (pe_outcome e)]"

record signed_payment_evidence =
  spe_evidence :: payment_evidence
  spe_signature :: bytes

definition evidence_verify ::
  "crypto \<Rightarrow> signed_payment_evidence \<Rightarrow> bytes32 \<Rightarrow> payment_operation \<Rightarrow> (unit, payment_error) res" where
  "evidence_verify c r key p =
     (let e = spe_evidence r in
      fail_if (pe_operation_id e \<noteq> op_id p \<or> pe_operation_digest e \<noteq> operation_digest c p)
        OperationMismatch
      (fail_if (pe_outcome e = OutVoided \<and> op_kind p \<noteq> Capture) PayInvalidOperation
      (fail_if (\<not> cr_key_parses c key) PayInvalidSignature
      (fail_if (\<not> cr_signature_parses c (spe_signature r)) PayInvalidSignature
      (fail_if (\<not> cr_verify_strict c key (evidence_signing_bytes e) (spe_signature r))
        PayInvalidSignature (Ok ()))))))"

section \<open>Capture cancellation and processor requests\<close>

text \<open>\<open>CaptureCancellation\<close> is a validated capture; only \<open>new\<close> builds one.\<close>

datatype capture_cancellation = CaptureCancellation payment_operation

definition cancellation_new :: "payment_operation \<Rightarrow> (capture_cancellation, payment_error) res" where
  "cancellation_new p =
     and_then (operation_validate p) (\<lambda>_.
     fail_if (op_kind p \<noteq> Capture) PayInvalidOperation (Ok (CaptureCancellation p)))"

datatype processor_request =
  SubmitPayment payment_operation
| CancelCapture capture_cancellation

section \<open>Verified bank accounts\<close>

record bank_verification =
  bv_scope :: financial_scope
  bv_account :: billing_account_id
  bv_member :: member_id
  bv_bank_token :: bytes32
  bv_unit :: settlement_unit
  bv_version :: u64
  bv_signature :: bytes

record verified_bank_account =
  vb_evidence :: bank_verification
  vb_authority :: bytes32

text \<open>\<open>json\<close> is \<open>serde_json::to_vec\<close> on the signed tuple; it can fail.\<close>

definition bank_verify ::
  "crypto \<Rightarrow> (bank_verification \<Rightarrow> bytes option) \<Rightarrow> bank_verification \<Rightarrow> bytes32
     \<Rightarrow> (verified_bank_account, payment_error) res" where
  "bank_verify c json b authority =
     fail_if (bv_account b = 0 \<or> bv_member b = 0 \<or> bv_bank_token b = 0 \<or> bv_version b = 0)
       PayInvalidOperation
     (fail_if (\<not> cr_key_parses c authority) PayInvalidSignature
     (and_then (ok_or (json b) PayInvalidOperation) (\<lambda>bs.
      fail_if (\<not> cr_signature_parses c (bv_signature b)) PayInvalidSignature
      (fail_if (\<not> cr_verify_strict c authority bs (bv_signature b)) PayInvalidSignature
      (Ok \<lparr>vb_evidence = b, vb_authority = authority\<rparr>)))))"

section \<open>Forfeiture lots\<close>

record forfeiture =
  fo_id :: payment_operation_id
  fo_amount :: money
  fo_unit :: settlement_unit
  fo_forfeited_at :: canonical_time
  fo_requires_review :: bool
  fo_terms :: financial_terms

record maturity_clearance =
  mc_at :: canonical_time
  mc_evidence :: financial_event_id

datatype lot_lifecycle =
  LotPending bool
| LotCleared maturity_clearance
| is_assessed: LotAssessed maturity_clearance annual_distribution_id

record forfeiture_lot =
  lot_source :: forfeiture
  lot_lifecycle :: lot_lifecycle

definition lot_set_hold :: "forfeiture_lot \<Rightarrow> bool \<Rightarrow> (forfeiture_lot, program_error) res" where
  "lot_set_hold l held =
     fail_if (is_assessed (lot_lifecycle l)) PrgClosedPeriod
       (Ok (l\<lparr>lot_lifecycle := LotPending held\<rparr>))"

definition lot_clear ::
  "forfeiture_lot \<Rightarrow> financial_event_id \<Rightarrow> canonical_time \<Rightarrow> (forfeiture_lot, program_error) res" where
  "lot_clear l evidence at =
     fail_if (lot_lifecycle l = LotPending True \<or> is_assessed (lot_lifecycle l) \<or> evidence = 0)
       PrgInsufficientEvidence
     (and_then (ok_or (time_checked_add (fo_forfeited_at (lot_source l))
         (ft_maturity_delay (fo_terms (lot_source l)))) PrgArithmeticOverflow) (\<lambda>mature.
      fail_if (at < mature) PrgTooEarly
      (Ok (l\<lparr>lot_lifecycle := LotCleared \<lparr>mc_at = at, mc_evidence = evidence\<rparr>\<rparr>))))"

definition lot_eligible_at :: "forfeiture_lot \<Rightarrow> canonical_time \<Rightarrow> bool" where
  "lot_eligible_at l cutoff =
     (case lot_lifecycle l of LotCleared clearance \<Rightarrow> mc_at clearance < cutoff | _ \<Rightarrow> False)"

definition lot_assess ::
  "forfeiture_lot \<Rightarrow> annual_distribution_id \<Rightarrow> (forfeiture_lot, program_error) res" where
  "lot_assess l distribution =
     (case lot_lifecycle l of
        LotCleared clearance \<Rightarrow> Ok (l\<lparr>lot_lifecycle := LotAssessed clearance distribution\<rparr>)
      | _ \<Rightarrow> Err PrgInsufficientEvidence)"


section \<open>A concrete payment\<close>

definition sample_scope :: financial_scope where
  "sample_scope = \<lparr>fs_deployment_domain = 1, fs_operator = 2, fs_program = 3,
     fs_payment_account = 4, fs_protocol_version = 1\<rparr>"

definition sample_terms :: financial_terms where
  "sample_terms = \<lparr>ft_scope = sample_scope, ft_policy_version = 1, ft_corporate_basis_points = 2500,
     ft_maturity_delay = 10\<rparr>"

definition sample_capture :: payment_operation where
  "sample_capture = \<lparr>op_scope = sample_scope, op_id = 7, op_kind = Capture, op_amount = 12,
     op_unit = 1, op_destination = 5\<rparr>"

definition sample_receipt ::
  "financial_event_id \<Rightarrow> payment_operation \<Rightarrow> payment_outcome \<Rightarrow> signed_payment_evidence" where
  "sample_receipt event p outcome =
     \<lparr>spe_evidence = \<lparr>pe_event_id = event, pe_operation_id = op_id p,
        pe_operation_digest = operation_digest sample_crypto p, pe_outcome = outcome\<rparr>,
      spe_signature = [1]\<rparr>"

lemma sample_receipt_verifies:
  "evidence_verify sample_crypto (sample_receipt i p outcome) key p = Ok ()
     \<longleftrightarrow> \<not> (outcome = OutVoided \<and> op_kind p \<noteq> Capture)"
  by (simp add: evidence_verify_def sample_receipt_def sample_crypto_def)

lemma sample_receipt_simps [simp]:
  "pe_event_id (spe_evidence (sample_receipt i p outcome)) = i"
  "pe_operation_id (spe_evidence (sample_receipt i p outcome)) = op_id p"
  "pe_outcome (spe_evidence (sample_receipt i p outcome)) = outcome"
  by (simp_all add: sample_receipt_def)

lemma sample_settled_verifies:
  "evidence_verify sample_crypto (sample_receipt i p OutSettled) key p = Ok ()"
  by (simp add: sample_receipt_verifies)

end
