(* ===== verification/Execution.thy ===== *)
theory Execution
  imports Payments
begin

text \<open>
  One logical payment with sequential processor attempts: \<open>PaymentExecution\<close> of
  \<open>crates/cs-mail-finance/src/execution.rs\<close>.  Its vector of attempts is never empty (\<open>new\<close>
  stores one, nothing removes one, and restoring an empty vector fails), so the model keeps the
  earlier attempts and the latest one; \<open>px_attempts\<close> is the vector of the source.
\<close>

datatype payment_state =
  PayPending
| is_settled: PaySettled financial_event_id
| is_failed: PayFailed financial_event_id
| is_voided: PayVoided financial_event_id
| is_reversed: PayReversed financial_event_id financial_event_id

record attempt =
  at_operation :: payment_operation
  at_state :: payment_state

record payment_execution =
  px_earlier :: "attempt list"
  px_latest :: attempt
  px_events :: "(financial_event_id, payment_evidence) btmap"

definition px_attempts :: "payment_execution \<Rightarrow> attempt list" where
  "px_attempts p = px_earlier p @ [px_latest p]"

definition px_with_attempts :: "attempt list \<Rightarrow> payment_execution \<Rightarrow> payment_execution" where
  "px_with_attempts xs p = p\<lparr>px_earlier := butlast xs, px_latest := last xs\<rparr>"

datatype payment_change = ChangeNone | ChangeSettled | ChangeReversed

definition px_new :: "payment_operation \<Rightarrow> (payment_execution, payment_error) res" where
  "px_new operation =
     and_then (operation_validate operation) (\<lambda>_.
     Ok \<lparr>px_earlier = [], px_latest = \<lparr>at_operation = operation, at_state = PayPending\<rparr>,
         px_events = bt_empty\<rparr>)"

definition px_current :: "payment_execution \<Rightarrow> payment_operation" where
  "px_current p = at_operation (px_latest p)"

definition px_state :: "payment_execution \<Rightarrow> payment_state" where
  "px_state p = at_state (px_latest p)"

definition px_attempt_count :: "payment_execution \<Rightarrow> nat" where
  "px_attempt_count p = length (px_attempts p)"

definition px_operation :: "payment_execution \<Rightarrow> payment_operation_id \<Rightarrow> payment_operation option" where
  "px_operation p i =
     map_option at_operation (List.find (\<lambda>a. op_id (at_operation a) = i) (px_attempts p))"

definition px_pending :: "payment_execution \<Rightarrow> payment_operation option" where
  "px_pending p = (if px_state p = PayPending then Some (px_current p) else None)"

definition px_retry ::
  "payment_execution \<Rightarrow> payment_operation_id
     \<Rightarrow> (payment_execution \<times> payment_operation, payment_error) res" where
  "px_retry p i =
     fail_if (\<not> (is_failed (px_state p) \<or> is_voided (px_state p)) \<or> px_operation p i \<noteq> None)
       PayInvalidOperation
     (let operation = (px_current p)\<lparr>op_id := i\<rparr> in
      and_then (operation_validate operation) (\<lambda>_.
      Ok (p\<lparr>px_earlier := px_attempts p,
            px_latest := \<lparr>at_operation = operation, at_state = PayPending\<rparr>\<rparr>, operation)))"

text \<open>\<open>next_state\<close>: the effect of one outcome, with the arms in the order of the source.\<close>

definition next_state ::
  "payment_state \<Rightarrow> payment_evidence \<Rightarrow> (payment_state \<times> payment_change, payment_error) res" where
  "next_state state evidence =
     (let i = pe_event_id evidence in
      case (state, pe_outcome evidence) of
        (PayPending, OutSettled) \<Rightarrow> Ok (PaySettled i, ChangeSettled)
      | (PayPending, OutFailed) \<Rightarrow> Ok (PayFailed i, ChangeNone)
      | (PayPending, OutVoided) \<Rightarrow> Ok (PayVoided i, ChangeNone)
      | (PaySettled e, OutReversed) \<Rightarrow> Ok (PayReversed e i, ChangeReversed)
      | (_, OutPending) \<Rightarrow> Ok (state, ChangeNone)
      | (PaySettled _, OutSettled) \<Rightarrow> Ok (state, ChangeNone)
      | (PayReversed _ _, OutSettled) \<Rightarrow> Ok (state, ChangeNone)
      | (PayFailed _, OutFailed) \<Rightarrow> Ok (state, ChangeNone)
      | (PayVoided _, OutVoided) \<Rightarrow> Ok (state, ChangeNone)
      | (PayReversed _ _, OutReversed) \<Rightarrow> Ok (state, ChangeNone)
      | _ \<Rightarrow> Err PayInvalidOperation)"

text \<open>The position of the first element with a property, as \<open>Iterator::position\<close>.\<close>

primrec position_where :: "('a \<Rightarrow> bool) \<Rightarrow> 'a list \<Rightarrow> nat option" where
  "position_where f [] = None"
| "position_where f (x # xs) = (if f x then Some 0 else map_option Suc (position_where f xs))"

definition px_record ::
  "crypto \<Rightarrow> payment_execution \<Rightarrow> signed_payment_evidence \<Rightarrow> bytes32
     \<Rightarrow> (payment_execution \<times> payment_change, payment_error) res" where
  "px_record c p receipt key =
     (let e = spe_evidence receipt; attempts = px_attempts p in
      and_then (ok_or (position_where (\<lambda>a. op_id (at_operation a) = pe_operation_id e) attempts)
        OperationMismatch) (\<lambda>index.
      and_then (evidence_verify c receipt key (at_operation (attempts ! index))) (\<lambda>_.
      case bt_get (px_events p) (pe_event_id e) of
        Some old \<Rightarrow> if old = e then Ok (p, ChangeNone) else Err PayDuplicateConflict
      | None \<Rightarrow>
          and_then (next_state (at_state (attempts ! index)) e) (\<lambda>(state, change).
          fail_if (index + 1 \<noteq> length attempts \<and> change \<noteq> ChangeNone) PayInvalidOperation
          (Ok ((px_with_attempts (attempts[index := (attempts ! index)\<lparr>at_state := state\<rparr>]) p)
                 \<lparr>px_events := bt_insert (pe_event_id e) e (px_events p)\<rparr>, change))))))"

section \<open>Validation of a stored execution\<close>

definition event_matches ::
  "crypto \<Rightarrow> (financial_event_id, payment_evidence) btmap \<Rightarrow> payment_operation
     \<Rightarrow> financial_event_id \<Rightarrow> payment_outcome \<Rightarrow> bool" where
  "event_matches c events operation i outcome =
     (case bt_get events i of
        Some e \<Rightarrow> pe_operation_id e = op_id operation
          \<and> pe_operation_digest e = operation_digest c operation \<and> pe_outcome e = outcome
      | None \<Rightarrow> False)"

definition attempt_state_valid ::
  "crypto \<Rightarrow> (financial_event_id, payment_evidence) btmap \<Rightarrow> attempt \<Rightarrow> bool" where
  "attempt_state_valid c events a =
     (case at_state a of
        PayPending \<Rightarrow> True
      | PaySettled e \<Rightarrow> event_matches c events (at_operation a) e OutSettled
      | PayFailed e \<Rightarrow> event_matches c events (at_operation a) e OutFailed
      | PayVoided e \<Rightarrow> op_kind (at_operation a) = Capture
          \<and> event_matches c events (at_operation a) e OutVoided
      | PayReversed s r \<Rightarrow> event_matches c events (at_operation a) s OutSettled
          \<and> event_matches c events (at_operation a) r OutReversed)"

text \<open>The first loop of \<open>validate\<close>; \<open>seen\<close> is its set of identifiers.\<close>

primrec validate_attempts ::
  "crypto \<Rightarrow> (financial_event_id, payment_evidence) btmap \<Rightarrow> payment_operation
     \<Rightarrow> payment_operation_id list \<Rightarrow> attempt list \<Rightarrow> (unit, payment_error) res" where
  "validate_attempts c events first seen [] = Ok ()"
| "validate_attempts c events first seen (a # rest) =
     and_then (operation_validate (at_operation a)) (\<lambda>_.
     fail_if (at_operation a \<noteq> first\<lparr>op_id := op_id (at_operation a)\<rparr>
         \<or> op_id (at_operation a) \<in> set seen
         \<or> (rest \<noteq> [] \<and> \<not> (is_failed (at_state a) \<or> is_voided (at_state a))))
       PayInvalidOperation
     (fail_if (\<not> attempt_state_valid c events a) PayInvalidOperation
       (validate_attempts c events first (op_id (at_operation a) # seen) rest)))"

primrec validate_events ::
  "crypto \<Rightarrow> payment_execution \<Rightarrow> (financial_event_id \<times> payment_evidence) list
     \<Rightarrow> (unit, payment_error) res" where
  "validate_events c p [] = Ok ()"
| "validate_events c p (entry # rest) =
     (let (i, event) = entry in
      and_then (ok_or (px_operation p (pe_operation_id event)) PayInvalidOperation) (\<lambda>operation.
      fail_if (i \<noteq> pe_event_id event \<or> pe_operation_digest event \<noteq> operation_digest c operation)
        PayInvalidOperation
      (and_then (ok_or (List.find (\<lambda>a. op_id (at_operation a) = pe_operation_id event) (px_attempts p))
         PayInvalidOperation) (\<lambda>a.
       and_then (next_state (at_state a) event) (\<lambda>(state, _).
       fail_if (state \<noteq> at_state a) PayInvalidOperation (validate_events c p rest))))))"

definition px_validate :: "crypto \<Rightarrow> payment_execution \<Rightarrow> (unit, payment_error) res" where
  "px_validate c p =
     and_then (validate_attempts c (px_events p) (at_operation (hd (px_attempts p))) [] (px_attempts p))
       (\<lambda>_. validate_events c p (bt_entries (px_events p)))"

text \<open>\<open>TryFrom<StoredExecution>\<close>: an empty vector of attempts is refused.\<close>

definition px_restore ::
  "crypto \<Rightarrow> attempt list \<Rightarrow> (financial_event_id, payment_evidence) btmap
     \<Rightarrow> (payment_execution, payment_error) res" where
  "px_restore c attempts events =
     fail_if (attempts = []) PayInvalidOperation
     (let p = \<lparr>px_earlier = butlast attempts, px_latest = last attempts, px_events = events\<rparr>
      in and_then (px_validate c p) (\<lambda>_. Ok p))"


section \<open>What a valid execution is\<close>

definition attempt_ok ::
  "crypto \<Rightarrow> (financial_event_id, payment_evidence) btmap \<Rightarrow> payment_operation \<Rightarrow> attempt \<Rightarrow> bool" where
  "attempt_ok c events first a \<longleftrightarrow>
     operation_validate (at_operation a) = Ok ()
     \<and> at_operation a = first\<lparr>op_id := op_id (at_operation a)\<rparr> \<and> attempt_state_valid c events a"

definition attempt_closed :: "attempt \<Rightarrow> bool" where
  "attempt_closed a \<longleftrightarrow> is_failed (at_state a) \<or> is_voided (at_state a)"

definition attempt_ids :: "attempt list \<Rightarrow> payment_operation_id list" where
  "attempt_ids xs = map (\<lambda>a. op_id (at_operation a)) xs"

definition find_attempt :: "attempt list \<Rightarrow> payment_operation_id \<Rightarrow> attempt option" where
  "find_attempt xs i = List.find (\<lambda>a. op_id (at_operation a) = i) xs"

definition event_ok :: "crypto \<Rightarrow> attempt list \<Rightarrow> financial_event_id \<Rightarrow> payment_evidence \<Rightarrow> bool" where
  "event_ok c xs i e \<longleftrightarrow> i = pe_event_id e
     \<and> (case find_attempt xs (pe_operation_id e) of
          None \<Rightarrow> False
        | Some a \<Rightarrow> pe_operation_digest e = operation_digest c (at_operation a)
            \<and> (\<exists>change. next_state (at_state a) e = Ok (at_state a, change)))"

definition px_inv :: "crypto \<Rightarrow> payment_execution \<Rightarrow> bool" where
  "px_inv c p \<longleftrightarrow>
     (\<forall>a \<in> set (px_attempts p). attempt_ok c (px_events p) (at_operation (hd (px_attempts p))) a)
     \<and> distinct (attempt_ids (px_attempts p))
     \<and> list_all attempt_closed (px_earlier p)
     \<and> (\<forall>i e. bt_get (px_events p) i = Some e \<longrightarrow> event_ok c (px_attempts p) i e)"

lemma px_attempts_simps [simp]: "px_attempts p \<noteq> []" "butlast (px_attempts p) = px_earlier p"
  "last (px_attempts p) = px_latest p"
  by (simp_all add: px_attempts_def)

lemma validate_attempts_Ok:
  "validate_attempts c events first seen xs = Ok () \<longleftrightarrow>
     (\<forall>a \<in> set xs. attempt_ok c events first a) \<and> distinct (attempt_ids xs)
     \<and> set seen \<inter> set (attempt_ids xs) = {} \<and> list_all attempt_closed (butlast xs)"
  by (induction xs arbitrary: seen) (auto simp: attempt_ok_def attempt_closed_def attempt_ids_def)

lemma px_operation_find: "px_operation p i = map_option at_operation (find_attempt (px_attempts p) i)"
  by (simp add: px_operation_def find_attempt_def)

lemma validate_events_Ok:
  "validate_events c p xs = Ok () \<longleftrightarrow> (\<forall>(i, e) \<in> set xs. event_ok c (px_attempts p) i e)"
  by (induction xs)
    (auto simp: event_ok_def px_operation_find find_attempt_def [symmetric] Let_def split: option.splits)

lemma px_validate_iff: "px_validate c p = Ok () \<longleftrightarrow> px_inv c p"
  by (auto simp: px_validate_def px_inv_def validate_attempts_Ok validate_events_Ok bt_get_Some)

lemma px_restore_inv: "px_inv c p \<Longrightarrow> px_restore c (px_attempts p) (px_events p) = Ok p"
  using px_validate_iff [of c p] by (cases p) (simp add: px_restore_def)

section \<open>Attempts by identifier\<close>

lemma position_where_Some:
  "position_where f xs = Some n \<Longrightarrow> n < length xs \<and> f (xs ! n) \<and> List.find f xs = Some (xs ! n)"
  by (induction xs arbitrary: n) (auto split: if_splits)

lemma position_where_None: "position_where f xs = None \<longleftrightarrow> List.find f xs = None"
  by (induction xs) auto

lemma find_attempt_distinct:
  assumes "distinct (attempt_ids xs)" and "n < length xs" and "op_id (at_operation (xs ! n)) = i"
  shows "find_attempt xs i = Some (xs ! n)"
  using assms
proof (induction xs arbitrary: n)
  case Nil
  then show ?case by simp
next
  case (Cons x xs)
  then show ?case by (cases n) (auto simp: find_attempt_def attempt_ids_def)
qed

lemma find_attempt_Some: "find_attempt xs i = Some a \<Longrightarrow> a \<in> set xs \<and> op_id (at_operation a) = i"
  by (auto simp: find_attempt_def find_Some_iff)

lemma find_attempt_None: "find_attempt xs i = None \<longleftrightarrow> i \<notin> set (attempt_ids xs)"
  by (auto simp: find_attempt_def find_None_iff attempt_ids_def)

lemma find_attempt_append: "find_attempt xs i = Some a \<Longrightarrow> find_attempt (xs @ ys) i = Some a"
  by (induction xs) (auto simp: find_attempt_def split: if_splits)

lemma find_attempt_update:
  assumes "distinct (attempt_ids xs)" and "n < length xs"
    and "op_id (at_operation a) = op_id (at_operation (xs ! n))"
  shows "find_attempt (xs[n := a]) i =
     (if i = op_id (at_operation a) then Some a else find_attempt xs i)"
  using assms
proof (induction xs arbitrary: n)
  case Nil
  then show ?case by simp
next
  case (Cons x xs)
  then show ?case by (cases n) (auto simp: find_attempt_def attempt_ids_def)
qed

lemma attempt_ids_update:
  "n < length xs \<Longrightarrow> op_id (at_operation a) = op_id (at_operation (xs ! n)) \<Longrightarrow> attempt_ids (xs[n := a]) = attempt_ids xs"
  by (simp add: attempt_ids_def map_update list_update_same_conv)

section \<open>The state of one attempt\<close>

lemma next_state_settles:
  "next_state s e = Ok (s', ch) \<Longrightarrow> next_state s' e = Ok (s', ChangeNone)"
  by (cases s; cases "pe_outcome e") (auto simp: next_state_def Let_def)

lemma next_state_keeps_events:
  "next_state s e = Ok (s', ch) \<Longrightarrow> next_state s f = Ok (s, ch') \<Longrightarrow> \<exists>ch''. next_state s' f = Ok (s', ch'')"
  by (cases s; cases "pe_outcome e"; cases "pe_outcome f") (auto simp: next_state_def Let_def)

lemma next_state_quiet:
  "next_state s e = Ok (s', ch) \<Longrightarrow> is_failed s \<or> is_voided s \<Longrightarrow> s' = s \<and> ch = ChangeNone"
  by (cases s; cases "pe_outcome e") (auto simp: next_state_def Let_def)

lemma event_matches_insert:
  "bt_get events (pe_event_id e) = None \<Longrightarrow> event_matches c events p i outcome \<Longrightarrow>
     event_matches c (bt_insert (pe_event_id e) e events) p i outcome"
  by (auto simp: event_matches_def split: option.splits if_splits)

lemma attempt_state_valid_insert:
  "bt_get events (pe_event_id e) = None \<Longrightarrow> attempt_state_valid c events a \<Longrightarrow>
     attempt_state_valid c (bt_insert (pe_event_id e) e events) a"
  by (auto simp: attempt_state_valid_def event_matches_insert split: payment_state.splits)

lemma attempt_state_valid_next:
  assumes "attempt_state_valid c events a" and "bt_get events (pe_event_id e) = None"
    and "next_state (at_state a) e = Ok (s, ch)"
    and "pe_operation_id e = op_id (at_operation a)"
    and "pe_operation_digest e = operation_digest c (at_operation a)"
    and "pe_outcome e = OutVoided \<Longrightarrow> op_kind (at_operation a) = Capture"
  shows "attempt_state_valid c (bt_insert (pe_event_id e) e events) (a\<lparr>at_state := s\<rparr>)"
proof -
  have new: "event_matches c (bt_insert (pe_event_id e) e events) (at_operation a) (pe_event_id e) (pe_outcome e)"
    using assms(4,5) by (simp add: event_matches_def)
  have old: "attempt_state_valid c (bt_insert (pe_event_id e) e events) a"
    using assms(2,1) by (rule attempt_state_valid_insert)
  show ?thesis
  proof -
    obtain q st where a: "a = \<lparr>at_operation = q, at_state = st\<rparr>" by (cases a)
    show ?thesis
      using assms(3,6) new old unfolding a
      by (cases st; cases "pe_outcome e") (auto simp: next_state_def Let_def attempt_state_valid_def)
  qed
qed

section \<open>Every operation keeps a valid execution\<close>

datatype px_command =
  RetryAs payment_operation_id
| RecordUnder bytes32 signed_payment_evidence

definition px_step ::
  "crypto \<Rightarrow> payment_execution \<Rightarrow> px_command \<Rightarrow> (payment_execution \<times> payment_change, payment_error) res" where
  "px_step c p cmd =
     (case cmd of
        RetryAs i \<Rightarrow> map_ok (\<lambda>(p', _). (p', ChangeNone)) (px_retry p i)
      | RecordUnder key receipt \<Rightarrow> px_record c p receipt key)"

lemma px_new_inv: "px_new operation = Ok p \<Longrightarrow> px_inv c p"
  by (auto simp: px_new_def px_inv_def px_attempts_def attempt_ok_def attempt_ids_def attempt_state_valid_def)

lemma operation_validate_id:
  "operation_validate p = Ok () \<Longrightarrow> op_id p \<noteq> 0"
  by (simp add: operation_validate_def)

lemma px_retry_Ok:
  assumes "px_retry p i = Ok (p', q)"
  shows "attempt_closed (px_latest p)" and "px_operation p i = None"
    and "q = (px_current p)\<lparr>op_id := i\<rparr>" and "operation_validate q = Ok ()"
    and "p' = p\<lparr>px_earlier := px_attempts p, px_latest := \<lparr>at_operation = q, at_state = PayPending\<rparr>\<rparr>"
  using assms by (auto simp: px_retry_def Let_def attempt_closed_def px_state_def)

lemma px_retry_inv:
  assumes "px_retry p i = Ok (p', q)" and "px_inv c p"
  shows "px_inv c p'"
proof -
  note r = px_retry_Ok [OF assms(1)]
  let ?new = "\<lparr>at_operation = q, at_state = PayPending\<rparr>"
  have att: "px_attempts p' = px_attempts p @ [?new]" and ev: "px_events p' = px_events p"
    and early: "px_earlier p' = px_attempts p"
    by (simp_all add: r(5) px_attempts_def)
  have ids: "i \<notin> set (attempt_ids (px_attempts p))"
    using r(2) by (simp add: px_operation_find find_attempt_None)
  have find: "find_attempt (px_attempts p') j = Some a" if "find_attempt (px_attempts p) j = Some a" for j a
    using that by (simp add: att find_attempt_append)
  have hd: "hd (px_attempts p') = hd (px_attempts p)" by (simp add: att)
  have latest: "px_latest p \<in> set (px_attempts p)" by (simp add: px_attempts_def)
  then have "attempt_ok c (px_events p) (at_operation (hd (px_attempts p))) (px_latest p)"
    using assms(2) by (simp add: px_inv_def)
  then have "px_current p = (at_operation (hd (px_attempts p)))\<lparr>op_id := op_id (px_current p)\<rparr>"
    by (simp add: attempt_ok_def px_current_def)
  then have q: "q = (at_operation (hd (px_attempts p)))\<lparr>op_id := op_id q\<rparr>"
    using r(3) by (metis payment_operation.simps(8) payment_operation.surjective payment_operation.update_convs(2))
  have "attempt_ok c (px_events p) (at_operation (hd (px_attempts p))) ?new"
    using r(4) q by (simp add: attempt_ok_def attempt_state_valid_def)
  moreover have "list_all attempt_closed (px_attempts p)"
    using assms(2) r(1) by (simp add: px_inv_def px_attempts_def)
  moreover have "event_ok c (px_attempts p') j e" if "event_ok c (px_attempts p) j e" for j e
    using that find by (auto simp: event_ok_def split: option.splits)
  moreover have "op_id q = i" by (simp add: r(3))
  ultimately show ?thesis
    using assms(2) ids by (auto simp: px_inv_def att ev early hd attempt_ids_def)
qed

lemma px_record_cases:
  assumes "px_record c p receipt key = Ok (p', change)"
  obtains
    (replay) "bt_get (px_events p) (pe_event_id (spe_evidence receipt)) = Some (spe_evidence receipt)"
      "p' = p" "change = ChangeNone"
  | (recorded) n s where
      "bt_get (px_events p) (pe_event_id (spe_evidence receipt)) = None"
      "n < length (px_attempts p)"
      "op_id (at_operation (px_attempts p ! n)) = pe_operation_id (spe_evidence receipt)"
      "find_attempt (px_attempts p) (pe_operation_id (spe_evidence receipt)) = Some (px_attempts p ! n)"
      "evidence_verify c receipt key (at_operation (px_attempts p ! n)) = Ok ()"
      "next_state (at_state (px_attempts p ! n)) (spe_evidence receipt) = Ok (s, change)"
      "n + 1 = length (px_attempts p) \<or> change = ChangeNone"
      "p' = (px_with_attempts ((px_attempts p)[n := (px_attempts p ! n)\<lparr>at_state := s\<rparr>]) p)
         \<lparr>px_events := bt_insert (pe_event_id (spe_evidence receipt)) (spe_evidence receipt) (px_events p)\<rparr>"
proof (cases "bt_get (px_events p) (pe_event_id (spe_evidence receipt))")
  case None
  from assms None obtain n s where
    pos: "position_where (\<lambda>a. op_id (at_operation a) = pe_operation_id (spe_evidence receipt)) (px_attempts p) = Some n"
    and rest: "evidence_verify c receipt key (at_operation (px_attempts p ! n)) = Ok ()"
      "next_state (at_state (px_attempts p ! n)) (spe_evidence receipt) = Ok (s, change)"
      "n + 1 = length (px_attempts p) \<or> change = ChangeNone"
      "p' = (px_with_attempts ((px_attempts p)[n := (px_attempts p ! n)\<lparr>at_state := s\<rparr>]) p)
         \<lparr>px_events := bt_insert (pe_event_id (spe_evidence receipt)) (spe_evidence receipt) (px_events p)\<rparr>"
    unfolding px_record_def Let_def by auto
  show thesis
    by (rule recorded [OF None _ _ _ rest]) (use position_where_Some [OF pos] in \<open>simp_all add: find_attempt_def\<close>)
next
  case (Some old)
  then show thesis using assms replay unfolding px_record_def Let_def by (auto split: if_splits)
qed

lemma px_attempts_with [simp]:
  "xs \<noteq> [] \<Longrightarrow> px_attempts (px_with_attempts xs p) = xs"
  "px_attempts (p\<lparr>px_events := ev\<rparr>) = px_attempts p"
  "px_events (px_with_attempts xs p) = px_events p"
  by (simp_all add: px_attempts_def px_with_attempts_def)

lemma evidence_verify_kind:
  "evidence_verify c receipt key p = Ok () \<Longrightarrow> pe_outcome (spe_evidence receipt) = OutVoided \<Longrightarrow> op_kind p = Capture"
  by (simp add: evidence_verify_def Let_def)

lemma evidence_verify_digest:
  "evidence_verify c receipt key p = Ok () \<Longrightarrow>
     pe_operation_id (spe_evidence receipt) = op_id p
     \<and> pe_operation_digest (spe_evidence receipt) = operation_digest c p"
  by (simp add: evidence_verify_def Let_def)

text \<open>Under the invariant an earlier attempt never changes; only the latest one does.\<close>

lemma px_record_frame:
  assumes "px_record c p receipt key = Ok (p', change)" and "px_inv c p"
  shows "px_earlier p' = px_earlier p" and "at_operation (px_latest p') = at_operation (px_latest p)"
proof -
  from assms(1) have "px_earlier p' = px_earlier p \<and> at_operation (px_latest p') = at_operation (px_latest p)"
  proof (cases rule: px_record_cases)
    case (recorded n s)
    show ?thesis
    proof (cases "n + 1 = length (px_attempts p)")
      case True
      then have n: "n = length (px_earlier p)" by (simp add: px_attempts_def)
      show ?thesis unfolding recorded(8) px_with_attempts_def
        by (simp add: n px_attempts_def)
    next
      case False
      then have n: "n < length (px_earlier p)" using recorded(2) by (simp add: px_attempts_def)
      then have nth: "px_attempts p ! n = px_earlier p ! n" by (simp add: px_attempts_def nth_append)
      have "attempt_closed (px_earlier p ! n)"
        using assms(2) n by (simp add: px_inv_def list_all_length)
      then have "s = at_state (px_earlier p ! n)"
        using next_state_quiet [OF recorded(6)] by (simp add: nth attempt_closed_def)
      then have "(px_attempts p)[n := (px_attempts p ! n)\<lparr>at_state := s\<rparr>] = px_attempts p"
        using recorded(2) by (simp add: nth list_update_same_conv)
      then show ?thesis unfolding recorded(8) px_with_attempts_def by (simp only:) simp
    qed
  qed simp
  then show "px_earlier p' = px_earlier p" "at_operation (px_latest p') = at_operation (px_latest p)" by auto
qed

lemma px_record_inv:
  assumes "px_record c p receipt key = Ok (p', change)" and "px_inv c p"
  shows "px_inv c p'"
  using assms(1)
proof (cases rule: px_record_cases)
  case replay
  then show ?thesis using assms(2) by simp
next
  case (recorded n s)
  let ?e = "spe_evidence receipt" and ?xs = "px_attempts p"
  let ?a = "?xs ! n" and ?b = "(?xs ! n)\<lparr>at_state := s\<rparr>"
  note frame = px_record_frame [OF assms]
  have ne: "?xs[n := ?b] \<noteq> []" using recorded(2) by auto
  have att: "px_attempts p' = ?xs[n := ?b]" and ev: "px_events p' = bt_insert (pe_event_id ?e) ?e (px_events p)"
    using ne by (simp_all add: recorded(8))
  have ver: "pe_operation_id ?e = op_id (at_operation ?a)" "pe_operation_digest ?e = operation_digest c (at_operation ?a)"
    using evidence_verify_digest [OF recorded(5)] by auto
  have dist: "distinct (attempt_ids ?xs)" using assms(2) by (simp add: px_inv_def)
  have hd: "at_operation (hd (px_attempts p')) = at_operation (hd ?xs)"
    using recorded(2) ne by (cases ?xs; cases n) (auto simp: att)
  have ok: "attempt_ok c (px_events p) (at_operation (hd ?xs)) a" if "a \<in> set ?xs" for a
    using assms(2) that by (simp add: px_inv_def)
  have "attempt_ok c (px_events p') (at_operation (hd ?xs)) ?b"
  proof -
    have "attempt_state_valid c (px_events p') ?b"
      unfolding ev
      by (rule attempt_state_valid_next [OF _ recorded(1) recorded(6) ver])
        (use ok [OF nth_mem [OF recorded(2)]] evidence_verify_kind [OF recorded(5)] in \<open>simp_all add: attempt_ok_def\<close>)
    then show ?thesis using ok [OF nth_mem [OF recorded(2)]] by (simp add: attempt_ok_def)
  qed
  moreover have "attempt_ok c (px_events p') (at_operation (hd ?xs)) a" if "a \<in> set ?xs" for a
    using ok [OF that] attempt_state_valid_insert [OF recorded(1)] by (simp add: attempt_ok_def ev)
  ultimately have 1: "\<forall>a \<in> set (px_attempts p'). attempt_ok c (px_events p') (at_operation (hd (px_attempts p'))) a"
    using set_update_subset_insert [of ?xs n ?b] unfolding att [symmetric] hd by blast
  have 2: "distinct (attempt_ids (px_attempts p'))"
    using dist by (simp add: att attempt_ids_update [OF recorded(2)])
  have find: "find_attempt (px_attempts p') i = (if i = op_id (at_operation ?a) then Some ?b else find_attempt ?xs i)" for i
    unfolding att using find_attempt_update [OF dist recorded(2), of ?b i] by simp
  have 3: "event_ok c (px_attempts p') i v" if "bt_get (px_events p') i = Some v" for i v
  proof (cases "i = pe_event_id ?e")
    case True
    then have "v = ?e" using that by (simp add: ev)
    then show ?thesis
      using True ver next_state_settles [OF recorded(6)] by (auto simp: event_ok_def find)
  next
    case False
    then have "event_ok c ?xs i v" using that assms(2) by (simp add: ev px_inv_def)
    then show ?thesis
      using next_state_keeps_events [OF recorded(6)] find_attempt_distinct [OF dist recorded(2) refl]
      by (auto simp: event_ok_def find split: option.splits)
  qed
  show ?thesis using 1 2 3 frame(1) assms(2) by (simp add: px_inv_def)
qed

lemma px_step_inv: "px_inv c p \<Longrightarrow> px_step c p cmd = Ok (p', change) \<Longrightarrow> px_inv c p'"
  by (cases cmd) (auto simp: px_step_def intro: px_retry_inv px_record_inv)

interpretation px: stored_machine "px_step c" "px_inv c" "\<lambda>p. px_restore c (px_attempts p) (px_events p)"
  by unfold_locales (rule px_step_inv px_restore_inv; assumption)+

text \<open>The record operation replays; a retry does not (its identifier is then taken).\<close>

lemma px_record_replay:
  assumes "px_inv c p" and "px_record c p receipt key = Ok (p', change)"
  shows "px_record c p' receipt key = Ok (p', ChangeNone)"
  using assms(2)
proof (cases rule: px_record_cases)
  case replay
  then show ?thesis using assms(2) by simp
next
  case (recorded n s)
  let ?e = "spe_evidence receipt" and ?xs = "px_attempts p"
  let ?b = "(?xs ! n)\<lparr>at_state := s\<rparr>"
  have ne: "?xs[n := ?b] \<noteq> []" using recorded(2) by auto
  have att: "px_attempts p' = ?xs[n := ?b]" and ev: "px_events p' = bt_insert (pe_event_id ?e) ?e (px_events p)"
    using ne by (simp_all add: recorded(8))
  have f: "find_attempt (px_attempts p') (pe_operation_id ?e) = Some ?b"
    using find_attempt_update [of ?xs n ?b] assms(1) recorded(2,3) by (simp add: att px_inv_def)
  let ?f = "\<lambda>a. op_id (at_operation a) = pe_operation_id ?e"
  have "\<exists>m. position_where ?f (px_attempts p') = Some m \<and> px_attempts p' ! m = ?b"
  proof (cases "position_where ?f (px_attempts p')")
    case None
    then show ?thesis using f by (simp add: position_where_None find_attempt_def)
  next
    case (Some m)
    then show ?thesis using f position_where_Some [OF Some] by (simp add: find_attempt_def)
  qed
  then obtain m where "position_where ?f (px_attempts p') = Some m" and "px_attempts p' ! m = ?b" by blast
  then show ?thesis using recorded(5) by (simp add: px_record_def Let_def ev)
qed


section \<open>Properties\<close>

text \<open>
  A payment execution stays valid.  After any retries and any signed evidence, accepted or
  refused, the stored execution passes \<open>validate\<close> (so it restores unchanged), its attempts have
  distinct non-zero identifiers and differ in nothing else, and every attempt but the latest is
  failed or voided: at most one attempt is ever pending, settled or reversed.
\<close>

theorem execution_stays_valid:
  assumes "px_new operation = Ok p" and "run_machine (px_step c) p cmds = (t, outs)"
  shows "px_restore c (px_attempts t) (px_events t) = Ok t
     \<and> distinct (attempt_ids (px_attempts t)) \<and> 0 \<notin> set (attempt_ids (px_attempts t))
     \<and> list_all (\<lambda>a. is_failed (at_state a) \<or> is_voided (at_state a)) (px_earlier t)
     \<and> (\<forall>a \<in> set (px_attempts t). at_operation a = (at_operation (hd (px_attempts t)))\<lparr>op_id := op_id (at_operation a)\<rparr>)"
proof -
  have inv: "px_inv c t" by (rule px.run_inv [OF px_new_inv [OF assms(1)] assms(2)])
  have "0 \<notin> set (attempt_ids (px_attempts t))"
    using inv by (force simp: px_inv_def attempt_ok_def attempt_ids_def dest: operation_validate_id)
  moreover have "list_all (\<lambda>a. is_failed (at_state a) \<or> is_voided (at_state a)) (px_earlier t)"
    using inv by (simp add: px_inv_def attempt_closed_def [abs_def])
  ultimately show ?thesis
    using px_restore_inv [OF inv] inv unfolding px_inv_def attempt_ok_def by blast
qed

text \<open>
  Settled money is never charged twice.  A retry is accepted exactly when the latest attempt
  failed or was voided and the new identifier is unused and valid; it then appends a pending
  attempt for the same operation, and evidence changes no attempt but the latest.
\<close>

theorem execution_retry_condition:
  assumes "px_new operation = Ok p" and "run_machine (px_step c) p cmds = (t, outs)"
  shows "(is_ok (px_retry t i) \<longleftrightarrow>
       (is_failed (px_state t) \<or> is_voided (px_state t)) \<and> i \<notin> set (attempt_ids (px_attempts t))
       \<and> i \<noteq> 0 \<and> op_kind (px_current t) \<noteq> Refund i)
     \<and> (\<forall>receipt key t' change. px_record c t receipt key = Ok (t', change) \<longrightarrow> px_earlier t' = px_earlier t)"
proof -
  have inv: "px_inv c t" by (rule px.run_inv [OF px_new_inv [OF assms(1)] assms(2)])
  have "px_latest t \<in> set (px_attempts t)" by (simp add: px_attempts_def)
  then have "operation_validate (px_current t) = Ok ()"
    using inv by (simp add: px_inv_def attempt_ok_def px_current_def)
  then have valid: "is_ok (operation_validate ((px_current t)\<lparr>op_id := i\<rparr>)) \<longleftrightarrow>
      i \<noteq> 0 \<and> op_kind (px_current t) \<noteq> Refund i"
    by (auto simp: operation_validate_def fail_if_def split: payment_kind.splits if_splits)
  have "is_ok (px_retry t i) \<longleftrightarrow> (is_failed (px_state t) \<or> is_voided (px_state t))
      \<and> px_operation t i = None \<and> is_ok (operation_validate ((px_current t)\<lparr>op_id := i\<rparr>))"
    by (cases "operation_validate ((px_current t)\<lparr>op_id := i\<rparr>)") (auto simp: px_retry_def Let_def fail_if_def)
  then show ?thesis
    using px_record_frame(1) inv by (simp add: valid px_operation_find find_attempt_None)
qed

section \<open>A concrete execution\<close>

definition sample_execution :: payment_execution where
  "sample_execution = \<lparr>px_earlier = [], px_latest = \<lparr>at_operation = sample_capture, at_state = PayPending\<rparr>,
     px_events = bt_empty\<rparr>"

definition sample_failed_execution :: payment_execution where
  "sample_failed_execution = \<lparr>px_earlier = [], px_latest = \<lparr>at_operation = sample_capture, at_state = PayFailed 1\<rparr>,
     px_events = bt_insert 1 (spe_evidence (sample_receipt 1 sample_capture OutFailed)) bt_empty\<rparr>"

lemma sample_capture_fields [simp]:
  "op_id sample_capture = 7" "op_kind sample_capture = Capture" "op_amount sample_capture = 12"
  "op_destination sample_capture = 5"
  by (simp_all add: sample_capture_def)

lemma sample_execution_new: "px_new sample_capture = Ok sample_execution"
  by (simp add: px_new_def operation_validate_def sample_execution_def)

lemma sample_failure:
  "px_record sample_crypto sample_execution (sample_receipt 1 sample_capture OutFailed) 9
     = Ok (sample_failed_execution, ChangeNone)"
  by (simp add: px_record_def px_attempts_def sample_execution_def sample_failed_execution_def
      sample_receipt_verifies next_state_def px_with_attempts_def Let_def)

lemma sample_failure_run:
  "run_machine (px_step sample_crypto) sample_execution [RecordUnder 9 (sample_receipt 1 sample_capture OutFailed)]
     = (sample_failed_execution, [ChangeNone])"
  by (simp add: px_step_def sample_failure)

lemma execution_stays_valid_witness:
  "px_restore sample_crypto (px_attempts sample_failed_execution) (px_events sample_failed_execution)
     = Ok sample_failed_execution"
  using execution_stays_valid [OF sample_execution_new sample_failure_run] by simp

lemma execution_retry_condition_witness: "is_ok (px_retry sample_failed_execution 70)"
  using execution_retry_condition [OF sample_execution_new sample_failure_run, of 70]
  by (simp add: sample_failed_execution_def px_state_def px_current_def attempt_ids_def px_attempts_def)

end
