(* ===== verification/Funding.thy ===== *)
theory Funding
  imports Execution
begin

text \<open>
  Funding sources of \<open>crates/cs-mail-finance/src/funding.rs\<close>: which captures a verified bank
  account or a guest's payment instrument may reserve, which of them may be dispatched to the
  processor, and how evidence restricts the source.
\<close>

datatype source_evidence = BankVerified u64 | GuestInstrument

record funding_source =
  fu_token :: bytes32
  fu_evidence :: source_evidence
  fu_restricted :: bool
  fu_maximum_unresolved :: u32
  fu_attempts :: "(payment_operation_id, payment_execution) btmap"
  fu_dispatched :: "payment_operation_id fset"

definition funding_verified ::
  "verified_bank_account \<Rightarrow> u32 \<Rightarrow> (funding_source, payment_error) res" where
  "funding_verified bank maximum =
     fail_if (maximum = 0) PayInvalidOperation
     (Ok \<lparr>fu_token = bv_bank_token (vb_evidence bank),
          fu_evidence = BankVerified (bv_version (vb_evidence bank)),
          fu_restricted = False, fu_maximum_unresolved = maximum,
          fu_attempts = bt_empty, fu_dispatched = {||}\<rparr>)"

definition funding_guest :: "bytes32 \<Rightarrow> u32 \<Rightarrow> (funding_source, payment_error) res" where
  "funding_guest token maximum =
     fail_if (maximum = 0 \<or> token = 0) PayInvalidOperation
     (Ok \<lparr>fu_token = token, fu_evidence = GuestInstrument,
          fu_restricted = False, fu_maximum_unresolved = maximum,
          fu_attempts = bt_empty, fu_dispatched = {||}\<rparr>)"

definition unresolved_count :: "funding_source \<Rightarrow> nat" where
  "unresolved_count f =
     length (filter (\<lambda>p. px_state p = PayPending) (bt_values (fu_attempts f)))"

definition funding_reserve ::
  "funding_source \<Rightarrow> payment_operation \<Rightarrow> (funding_source, payment_error) res" where
  "funding_reserve f operation =
     (case bt_get (fu_attempts f) (op_id operation) of
        Some old \<Rightarrow> if px_current old = operation then Ok f else Err PayDuplicateConflict
      | None \<Rightarrow>
          fail_if (fu_restricted f
              \<or> unresolved_count f \<ge> unat (fu_maximum_unresolved f)
              \<or> op_destination operation \<noteq> fu_token f
              \<or> op_kind operation \<noteq> Capture) FundingRestricted
          (and_then (px_new operation) (\<lambda>p.
           Ok (f\<lparr>fu_attempts := bt_insert (op_id operation) p (fu_attempts f)\<rparr>))))"

definition funding_authorize_dispatch ::
  "funding_source \<Rightarrow> payment_operation_id \<Rightarrow> (funding_source, payment_error) res" where
  "funding_authorize_dispatch f i =
     (if i |\<in>| fu_dispatched f then Ok f
      else fail_if (fu_restricted f
          \<or> (case bt_get (fu_attempts f) i of None \<Rightarrow> True | Some p \<Rightarrow> px_state p \<noteq> PayPending))
        FundingRestricted
        (Ok (f\<lparr>fu_dispatched := finsert i (fu_dispatched f)\<rparr>)))"

definition funding_record ::
  "crypto \<Rightarrow> funding_source \<Rightarrow> signed_payment_evidence \<Rightarrow> bytes32
     \<Rightarrow> (funding_source, payment_error) res" where
  "funding_record c f receipt key =
     (let e = spe_evidence receipt; i = pe_operation_id e in
      fail_if (i |\<notin>| fu_dispatched f \<and> pe_outcome e \<noteq> OutVoided) PayInvalidOperation
      (and_then (ok_or (bt_get (fu_attempts f) i) PayInvalidOperation) (\<lambda>payment.
       and_then (px_record c payment receipt key) (\<lambda>(payment', _).
       let f' = f\<lparr>fu_attempts := bt_insert i payment' (fu_attempts f)\<rparr> in
       Ok (if is_failed (px_state payment') \<or> is_reversed (px_state payment')
           then f'\<lparr>fu_restricted := True\<rparr> else f')))))"

definition funding_reverify ::
  "funding_source \<Rightarrow> verified_bank_account \<Rightarrow> (funding_source, payment_error) res" where
  "funding_reverify f bank =
     (case fu_evidence f of
        GuestInstrument \<Rightarrow> Err PayInvalidOperation
      | BankVerified ver \<Rightarrow>
          fail_if (bv_bank_token (vb_evidence bank) \<noteq> fu_token f
              \<or> bv_version (vb_evidence bank) \<le> ver) PayInvalidOperation
          (Ok (f\<lparr>fu_evidence := BankVerified (bv_version (vb_evidence bank)),
                 fu_restricted := False\<rparr>)))"

text \<open>\<open>TryFrom<StoredSource>\<close>: the stored record has the fields of the source itself.\<close>

definition stored_attempt_valid :: "bytes32 \<Rightarrow> payment_operation_id \<times> payment_execution \<Rightarrow> bool" where
  "stored_attempt_valid token entry =
     (let (i, p) = entry in
      i = op_id (px_current p) \<and> px_attempt_count p = 1
      \<and> op_kind (px_current p) = Capture \<and> op_destination (px_current p) = token)"

definition funding_restore :: "funding_source \<Rightarrow> (funding_source, payment_error) res" where
  "funding_restore v =
     fail_if (fu_token v = 0 \<or> fu_evidence v = BankVerified 0 \<or> fu_maximum_unresolved v = 0)
       PayInvalidOperation
     (fail_if (\<not> list_all (stored_attempt_valid (fu_token v)) (bt_entries (fu_attempts v)))
       PayInvalidOperation
     (fail_if (\<not> fBall (fu_dispatched v) (\<lambda>i. bt_has (fu_attempts v) i)) PayInvalidOperation
     (Ok v)))"

section \<open>What a valid source is\<close>

definition source_attempt_ok :: "crypto \<Rightarrow> bytes32 \<Rightarrow> payment_operation_id \<Rightarrow> payment_execution \<Rightarrow> bool" where
  "source_attempt_ok c token i p \<longleftrightarrow>
     px_inv c p \<and> px_earlier p = [] \<and> op_id (px_current p) = i
     \<and> op_kind (px_current p) = Capture \<and> op_destination (px_current p) = token"

definition funding_inv :: "crypto \<Rightarrow> funding_source \<Rightarrow> bool" where
  "funding_inv c f \<longleftrightarrow>
     fu_token f \<noteq> 0 \<and> fu_evidence f \<noteq> BankVerified 0 \<and> fu_maximum_unresolved f \<noteq> 0
     \<and> (\<forall>i p. bt_get (fu_attempts f) i = Some p \<longrightarrow> source_attempt_ok c (fu_token f) i p)
     \<and> (\<forall>i. i |\<in>| fu_dispatched f \<longrightarrow> bt_has (fu_attempts f) i)
     \<and> unresolved_count f \<le> unat (fu_maximum_unresolved f)"

datatype funding_command =
  ReserveCapture payment_operation
| AuthorizeDispatch payment_operation_id
| RecordFunding signed_payment_evidence bytes32
| ReverifyBank verified_bank_account

definition funding_step ::
  "crypto \<Rightarrow> funding_source \<Rightarrow> funding_command \<Rightarrow> (funding_source \<times> unit, payment_error) res" where
  "funding_step c f cmd =
     map_ok (\<lambda>f'. (f', ()))
       (case cmd of
          ReserveCapture p \<Rightarrow> funding_reserve f p
        | AuthorizeDispatch i \<Rightarrow> funding_authorize_dispatch f i
        | RecordFunding receipt key \<Rightarrow> funding_record c f receipt key
        | ReverifyBank bank \<Rightarrow> funding_reverify f bank)"

definition pending_in :: "(payment_operation_id, payment_execution) btmap \<Rightarrow> nat" where
  "pending_in m = size (filter_mset (\<lambda>p. px_state p = PayPending) (mset (bt_values m)))"

lemma unresolved_count_pending: "unresolved_count f = pending_in (fu_attempts f)"
  by (simp add: unresolved_count_def pending_in_def mset_filter [symmetric] del: mset_filter)

lemma pending_in_insert_new:
  "bt_get m i = None \<Longrightarrow> pending_in (bt_insert i p m) = pending_in m + (if px_state p = PayPending then 1 else 0)"
  by (simp add: pending_in_def bt_values_insert_new)

lemma pending_in_insert_old:
  assumes "bt_get m i = Some q" and "px_state p = PayPending \<Longrightarrow> px_state q = PayPending"
  shows "pending_in (bt_insert i p m) \<le> pending_in m"
proof -
  have "filter_mset (\<lambda>p. px_state p = PayPending) (add_mset q (mset (bt_values (bt_insert i p m)))) =
      filter_mset (\<lambda>p. px_state p = PayPending) (add_mset p (mset (bt_values m)))"
    by (simp only: bt_values_insert_old [OF assms(1)])
  from arg_cong [OF this, of size] assms(2) show ?thesis
    by (simp add: pending_in_def split: if_splits)
qed

lemma pending_in_empty [simp]: "pending_in bt_empty = 0"
  by (simp add: pending_in_def)

lemma px_new_fields:
  "px_new q = Ok p \<Longrightarrow> px_earlier p = [] \<and> px_current p = q \<and> px_state p = PayPending"
  by (auto simp: px_new_def px_current_def px_state_def)

lemma px_record_state:
  assumes "px_record c p receipt key = Ok (p', change)" and "px_inv c p" and "px_state p' = PayPending"
  shows "px_state p = PayPending"
  using assms(1)
proof (cases rule: px_record_cases)
  case replay
  then show ?thesis using assms(3) by simp
next
  case (recorded n s)
  have earlier: "px_earlier p' = px_earlier p" by (rule px_record_frame [OF assms(1,2)])
  have ne: "(px_attempts p)[n := (px_attempts p ! n)\<lparr>at_state := s\<rparr>] \<noteq> []" using recorded(2) by auto
  then have att: "px_attempts p' = (px_attempts p)[n := (px_attempts p ! n)\<lparr>at_state := s\<rparr>]"
    by (simp add: recorded(8))
  have last: "px_latest q = px_attempts q ! length (px_earlier q)" for q
    by (simp add: px_attempts_def)
  show ?thesis
  proof (cases "n = length (px_earlier p)")
    case True
    then have "s = PayPending" using assms(3) recorded(2) by (simp add: px_state_def last earlier att)
    then have "at_state (px_attempts p ! n) = PayPending"
      using recorded(6) by (cases "at_state (px_attempts p ! n)"; cases "pe_outcome (spe_evidence receipt)")
        (auto simp: next_state_def Let_def)
    then show ?thesis using True by (simp add: px_state_def last)
  next
    case False
    then show ?thesis using assms(3) by (simp add: px_state_def last earlier att)
  qed
qed

lemma funding_reserve_inv:
  assumes "funding_reserve f q = Ok f'" and "funding_inv c f" shows "funding_inv c f'"
proof (cases "bt_get (fu_attempts f) (op_id q)")
  case (Some old)
  then show ?thesis using assms by (auto simp: funding_reserve_def split: if_splits)
next
  case None
  then obtain p where p: "px_new q = Ok p" and f': "f' = f\<lparr>fu_attempts := bt_insert (op_id q) p (fu_attempts f)\<rparr>"
    and room: "unresolved_count f < unat (fu_maximum_unresolved f)"
    and dest: "op_destination q = fu_token f" and kind: "op_kind q = Capture"
    using assms(1) by (auto simp: funding_reserve_def)
  have "source_attempt_ok c (fu_token f) (op_id q) p"
    using px_new_fields [OF p] px_new_inv [OF p] dest kind by (simp add: source_attempt_ok_def)
  then show ?thesis
    using assms(2) room px_new_fields [OF p]
    by (auto simp: funding_inv_def f' unresolved_count_pending pending_in_insert_new [OF None])
qed

lemma funding_dispatch_inv:
  assumes "funding_authorize_dispatch f i = Ok f'" and "funding_inv c f" shows "funding_inv c f'"
  using assms
  by (auto simp: funding_authorize_dispatch_def funding_inv_def unresolved_count_pending bt_has_def
      split: if_splits option.splits)

lemma funding_record_Ok:
  assumes "funding_record c f receipt key = Ok f'"
  obtains p p' change where "bt_get (fu_attempts f) (pe_operation_id (spe_evidence receipt)) = Some p"
    and "px_record c p receipt key = Ok (p', change)"
    and "f' = f\<lparr>fu_attempts := bt_insert (pe_operation_id (spe_evidence receipt)) p' (fu_attempts f),
       fu_restricted := fu_restricted f \<or> is_failed (px_state p') \<or> is_reversed (px_state p')\<rparr>"
  using assms by (cases f) (auto simp: funding_record_def Let_def split: if_splits)

lemma funding_record_inv:
  assumes "funding_record c f receipt key = Ok f'" and inv: "funding_inv c f" shows "funding_inv c f'"
  using assms(1)
proof (rule funding_record_Ok)
  fix p p' change
  assume get: "bt_get (fu_attempts f) (pe_operation_id (spe_evidence receipt)) = Some p"
    and rec: "px_record c p receipt key = Ok (p', change)"
    and f': "f' = f\<lparr>fu_attempts := bt_insert (pe_operation_id (spe_evidence receipt)) p' (fu_attempts f),
       fu_restricted := fu_restricted f \<or> is_failed (px_state p') \<or> is_reversed (px_state p')\<rparr>"
  have p: "source_attempt_ok c (fu_token f) (pe_operation_id (spe_evidence receipt)) p"
    using inv get by (simp add: funding_inv_def)
  then have "source_attempt_ok c (fu_token f) (pe_operation_id (spe_evidence receipt)) p'"
    using px_record_frame [OF rec] px_record_inv [OF rec] by (simp add: source_attempt_ok_def px_current_def)
  moreover have "pending_in (bt_insert (pe_operation_id (spe_evidence receipt)) p' (fu_attempts f)) \<le> pending_in (fu_attempts f)"
    by (rule pending_in_insert_old [OF get]) (use px_record_state [OF rec] p in \<open>simp add: source_attempt_ok_def\<close>)
  ultimately show "funding_inv c f'"
    using inv by (auto simp: funding_inv_def f' unresolved_count_pending)
qed

lemma funding_reverify_inv:
  assumes "funding_reverify f bank = Ok f'" and "funding_inv c f" shows "funding_inv c f'"
  using assms by (auto simp: funding_reverify_def funding_inv_def unresolved_count_pending split: source_evidence.splits)

lemma funding_step_inv: "funding_inv c f \<Longrightarrow> funding_step c f cmd = Ok (f', u) \<Longrightarrow> funding_inv c f'"
  by (cases cmd) (auto simp: funding_step_def intro: funding_reserve_inv funding_dispatch_inv
      funding_record_inv funding_reverify_inv)

lemma funding_restore_inv: "funding_inv c f \<Longrightarrow> funding_restore f = Ok f"
  by (auto simp: funding_restore_def funding_inv_def source_attempt_ok_def stored_attempt_valid_def
      list_all_iff bt_get_Some px_attempt_count_def px_attempts_def fail_if_def)

interpretation funding: stored_machine "funding_step c" "funding_inv c" funding_restore
  by unfold_locales (rule funding_step_inv funding_restore_inv; assumption)+

interpretation guest_restricted: invariant_machine "funding_step c"
  "\<lambda>f. fu_evidence f = GuestInstrument \<and> fu_restricted f"
proof
  fix s cmd s' out
  assume s: "fu_evidence s = GuestInstrument \<and> fu_restricted s" and ok: "funding_step c s cmd = Ok (s', out)"
  show "fu_evidence s' = GuestInstrument \<and> fu_restricted s'"
    using s ok
    by (cases cmd) (auto simp: funding_step_def funding_reserve_def funding_authorize_dispatch_def
        funding_reverify_def elim!: funding_record_Ok split: option.splits if_splits)
qed

lemma funding_guest_inv: "funding_guest token maximum = Ok f \<Longrightarrow> funding_inv c f"
  by (auto simp: funding_guest_def funding_inv_def unresolved_count_pending)

lemma bank_verify_fields:
  "bank_verify c json b authority = Ok v \<Longrightarrow> vb_evidence v = b \<and> bv_bank_token b \<noteq> 0 \<and> bv_version b \<noteq> 0"
  by (auto simp: bank_verify_def)

lemma funding_verified_inv:
  "bank_verify c json b authority = Ok v \<Longrightarrow> funding_verified v maximum = Ok f \<Longrightarrow> funding_inv c f"
  by (frule bank_verify_fields) (auto simp: funding_verified_def funding_inv_def unresolved_count_pending)

section \<open>Properties\<close>

text \<open>
  C39: A funding source never exceeds its exposure.  However a verified bank account or guest
  instrument is used, no more captures than its maximum are pending at once, every stored attempt
  is a single valid capture to the source's own token, only reserved captures are authorized for
  dispatch, and the stored source restores unchanged.
\<close>

theorem funding_stays_within_limits:
  assumes "bank_verify c json b authority = Ok v \<and> funding_verified v maximum = Ok f
       \<or> funding_guest token maximum = Ok f"
    and "run_machine (funding_step c) f cmds = (g, outs)"
  shows "unresolved_count g \<le> unat (fu_maximum_unresolved g)
     \<and> (\<forall>i p. bt_get (fu_attempts g) i = Some p \<longrightarrow> px_validate c p = Ok () \<and> px_attempt_count p = 1
          \<and> op_kind (px_current p) = Capture \<and> op_destination (px_current p) = fu_token g)
     \<and> (\<forall>i. i |\<in>| fu_dispatched g \<longrightarrow> bt_has (fu_attempts g) i)
     \<and> funding_restore g = Ok g"
proof -
  have "funding_inv c f"
    using assms(1) funding_verified_inv funding_guest_inv by blast
  from funding.run_inv [OF this assms(2)] have inv: "funding_inv c g" .
  then show ?thesis
    using funding_restore_inv [OF inv]
    by (auto simp: funding_inv_def source_attempt_ok_def px_validate_iff px_attempt_count_def px_attempts_def)
qed

text \<open>
  A failed or reversed capture restricts the source: no new capture is reserved and no
  undispatched one is authorized until a newer bank verification of the same token arrives, and
  a guest instrument, which cannot be reverified, stays restricted for good.
\<close>

theorem funding_restriction:
  assumes "funding_record c f receipt key = Ok g"
    and "bt_get (fu_attempts g) (pe_operation_id (spe_evidence receipt)) = Some p"
    and "is_failed (px_state p) \<or> is_reversed (px_state p)"
  shows "fu_restricted g
     \<and> (\<forall>q. bt_get (fu_attempts g) (op_id q) = None \<longrightarrow> funding_reserve g q = Err FundingRestricted)
     \<and> (\<forall>i. i |\<notin>| fu_dispatched g \<longrightarrow> funding_authorize_dispatch g i = Err FundingRestricted)
     \<and> (fu_evidence g = GuestInstrument \<longrightarrow> fu_restricted (fst (run_machine (funding_step c) g cmds)))"
proof -
  have r: "fu_restricted g"
    using assms by (elim funding_record_Ok) auto
  have keep: "fu_evidence h = GuestInstrument \<and> fu_restricted h"
    if "run_machine (funding_step c) g cmds = (h, outs)" "fu_evidence g = GuestInstrument" for h outs
    using that(2) r by (intro guest_restricted.run_inv [OF _ that(1)]) simp
  then show ?thesis
    using r keep [OF prod.collapse [symmetric]]
    by (auto simp: funding_reserve_def funding_authorize_dispatch_def)
qed

section \<open>A concrete source\<close>

definition sample_source :: funding_source where
  "sample_source = \<lparr>fu_token = 5, fu_evidence = GuestInstrument, fu_restricted = False,
     fu_maximum_unresolved = 1, fu_attempts = bt_empty, fu_dispatched = {||}\<rparr>"

definition sample_dispatched_source :: funding_source where
  "sample_dispatched_source = sample_source\<lparr>fu_attempts := bt_insert 7 sample_execution bt_empty,
     fu_dispatched := {|7|}\<rparr>"

definition sample_failed_source :: funding_source where
  "sample_failed_source = sample_dispatched_source\<lparr>fu_attempts := bt_insert 7 sample_failed_execution
     (bt_insert 7 sample_execution bt_empty), fu_restricted := True\<rparr>"

lemma sample_source_new: "funding_guest 5 1 = Ok sample_source"
  by (simp add: funding_guest_def sample_source_def)

lemma sample_source_run:
  "run_machine (funding_step sample_crypto) sample_source [ReserveCapture sample_capture, AuthorizeDispatch 7]
     = (sample_dispatched_source, [(), ()])"
  by (simp add: funding_step_def funding_reserve_def sample_source_def unresolved_count_pending sample_execution_new
      funding_authorize_dispatch_def sample_dispatched_source_def px_state_def)
    (simp add: sample_execution_def)

lemma funding_stays_within_limits_witness:
  "unresolved_count sample_dispatched_source \<le> 1 \<and> funding_restore sample_dispatched_source = Ok sample_dispatched_source"
  using funding_stays_within_limits [OF disjI2 [OF sample_source_new] sample_source_run]
  by (simp add: sample_dispatched_source_def sample_source_def)

lemma sample_source_failure:
  "funding_record sample_crypto sample_dispatched_source (sample_receipt 1 sample_capture OutFailed) 9
     = Ok sample_failed_source"
  by (simp add: funding_record_def sample_dispatched_source_def sample_failure sample_failed_source_def
      px_state_def Let_def)
    (simp add: sample_failed_execution_def)

lemma funding_restriction_witness:
  "funding_reserve sample_failed_source (sample_capture\<lparr>op_id := 70\<rparr>) = Err FundingRestricted"
  using funding_restriction [OF sample_source_failure, of sample_failed_execution]
  by (simp add: sample_failed_source_def sample_failed_execution_def px_state_def)

end
