(* ===== verification/Request_Financials.thy ===== *)
theory Request_Financials
  imports Payments
begin

text \<open>
  The money of one request: \<open>RequestFinancials\<close> of \<open>crates/cs-mail-finance/src/request.rs\<close>.
  The record outlives the request that caused it: it owns the capture, the settlement the
  recipient's decision records, the refund it owes, and the provider events that reconcile
  them, and it emits the ledger postings of each.
\<close>

datatype capture_status =
  CapPending | CapCancellationRequested | CapFundingFinalized | CapVoided | CapReversed

datatype refund_status =
  RefundNone | RefundPending payment_operation | RefundConfirmed payment_operation

primrec refund_operation :: "refund_status \<Rightarrow> payment_operation option" where
  "refund_operation RefundNone = None"
| "refund_operation (RefundPending p) = Some p"
| "refund_operation (RefundConfirmed p) = Some p"

datatype request_settlement =
  SettledAccepted | SettledRejected | SettledExpired | SettledCancelled

record financial_contract =
  fc_refund_id :: payment_operation_id
  fc_processing_charge :: money
  fc_collateral :: money
  fc_terms :: financial_terms
  fc_provider_key :: bytes32

record request_financials =
  rf_capture :: payment_operation
  rf_capture_status :: capture_status
  rf_refund :: refund_status
  rf_events :: "(financial_event_id, payment_evidence) btmap"
  rf_contract :: financial_contract
  rf_settlement :: "request_settlement option"

record financial_effects =
  fe_postings :: ledger_batch
  fe_operations :: "payment_operation_id list"
  fe_forfeitures :: "forfeiture list"
  fe_holds :: "payment_operation_id list"
  fe_capture_voided :: bool

definition no_effects :: financial_effects where
  "no_effects = \<lparr>fe_postings = [], fe_operations = [], fe_forfeitures = [], fe_holds = [],
     fe_capture_voided = False\<rparr>"

definition rf_new ::
  "payment_operation \<Rightarrow> financial_contract \<Rightarrow> (request_financials, payment_error) res" where
  "rf_new capture contract =
     and_then (operation_validate capture) (\<lambda>_.
     fail_if (\<not> is_ok (terms_validate (fc_terms contract))
         \<or> op_kind capture \<noteq> Capture
         \<or> op_amount capture = 0
         \<or> op_scope capture \<noteq> ft_scope (fc_terms contract)
         \<or> money_checked_add (fc_processing_charge contract) (fc_collateral contract)
             \<noteq> Some (op_amount capture)
         \<or> op_id capture = fc_refund_id contract
         \<or> fc_provider_key contract = 0) PayInvalidOperation
     (Ok \<lparr>rf_capture = capture, rf_capture_status = CapPending, rf_refund = RefundNone,
          rf_events = bt_empty, rf_contract = contract, rf_settlement = None\<rparr>))"

definition funding_finalized :: "request_financials \<Rightarrow> bool" where
  "funding_finalized r \<longleftrightarrow> rf_capture_status r = CapFundingFinalized \<or> rf_capture_status r = CapReversed"

definition capture_voided :: "request_financials \<Rightarrow> bool" where
  "capture_voided r \<longleftrightarrow> rf_capture_status r = CapVoided"

definition capture_reversed :: "request_financials \<Rightarrow> bool" where
  "capture_reversed r \<longleftrightarrow> rf_capture_status r = CapReversed"

definition pending_payment ::
  "request_financials \<Rightarrow> payment_operation_id \<Rightarrow> processor_request option" where
  "pending_payment r i =
     (if i = op_id (rf_capture r)
         \<and> (rf_capture_status r = CapPending \<or> rf_capture_status r = CapCancellationRequested) then
        (if rf_capture_status r = CapCancellationRequested then
           (case cancellation_new (rf_capture r) of Ok x \<Rightarrow> Some (CancelCapture x) | _ \<Rightarrow> None)
         else Some (SubmitPayment (rf_capture r)))
      else (case rf_refund r of
              RefundPending p \<Rightarrow> if op_id p = i then Some (SubmitPayment p) else None
            | _ \<Rightarrow> None))"

section \<open>The view of the parties\<close>

datatype refund_view = ViewNoRefund | ViewOwed money | ViewConfirmed money

record financial_view =
  fv_charge :: money
  fv_processing_charge :: money
  fv_collateral :: money
  fv_capture :: capture_status
  fv_settlement :: "request_settlement option"
  fv_refund :: refund_view
  fv_processing_retained :: money
  fv_collateral_forfeited :: money
  fv_awaiting_processor :: bool

definition rf_view :: "request_financials \<Rightarrow> financial_view" where
  "rf_view r =
     (let (retained, forfeited) =
        (case rf_settlement r of
           Some SettledRejected \<Rightarrow> (fc_processing_charge (rf_contract r), fc_collateral (rf_contract r))
         | Some SettledExpired \<Rightarrow> (fc_processing_charge (rf_contract r), 0)
         | _ \<Rightarrow> (0, 0));
        refund = (case rf_refund r of
           RefundNone \<Rightarrow> ViewNoRefund
         | RefundPending p \<Rightarrow> ViewOwed (op_amount p)
         | RefundConfirmed p \<Rightarrow> ViewConfirmed (op_amount p))
      in \<lparr>fv_charge = op_amount (rf_capture r),
          fv_processing_charge = fc_processing_charge (rf_contract r),
          fv_collateral = fc_collateral (rf_contract r),
          fv_capture = rf_capture_status r,
          fv_settlement = rf_settlement r,
          fv_refund = refund,
          fv_processing_retained = retained,
          fv_collateral_forfeited = forfeited,
          fv_awaiting_processor =
            rf_capture_status r = CapPending \<or> rf_capture_status r = CapCancellationRequested
            \<or> (case refund of ViewOwed _ \<Rightarrow> True | _ \<Rightarrow> False)\<rparr>)"

section \<open>Settlement and reconciliation\<close>

definition rf_operation ::
  "request_financials \<Rightarrow> payment_operation_id \<Rightarrow> payment_operation option" where
  "rf_operation r i =
     (if op_id (rf_capture r) = i then Some (rf_capture r)
      else (case refund_operation (rf_refund r) of
              Some p \<Rightarrow> if op_id p = i then Some p else None
            | None \<Rightarrow> None))"

definition refund_of :: "request_financials \<Rightarrow> money \<Rightarrow> payment_operation" where
  "refund_of r amount =
     \<lparr>op_scope = op_scope (rf_capture r), op_id = fc_refund_id (rf_contract r),
      op_kind = Refund (op_id (rf_capture r)), op_amount = amount,
      op_unit = op_unit (rf_capture r), op_destination = op_destination (rf_capture r)\<rparr>"

definition create_refund ::
  "request_financials \<Rightarrow> money \<Rightarrow> financial_effects
     \<Rightarrow> (request_financials \<times> financial_effects, payment_error) res" where
  "create_refund r amount effects =
     (if amount = 0 then Ok (r, effects)
      else let operation = refund_of r amount in
        case refund_operation (rf_refund r) of
          Some previous \<Rightarrow> if previous = operation then Ok (r, effects) else Err PayDuplicateConflict
        | None \<Rightarrow> Ok (r\<lparr>rf_refund := RefundPending operation\<rparr>,
            effects\<lparr>fe_postings := batch_transfer (RequestEscrow (op_id (rf_capture r)))
                       (RefundPayable (op_id operation)) amount (fe_postings effects),
                    fe_operations := fe_operations effects @ [op_id operation]\<rparr>))"

definition rf_settle ::
  "request_financials \<Rightarrow> request_settlement \<Rightarrow> canonical_time
     \<Rightarrow> (request_financials \<times> financial_effects, payment_error) res" where
  "rf_settle r settlement at =
     (case rf_settlement r of
        Some previous \<Rightarrow> if previous = settlement then Ok (r, no_effects) else Err PayDuplicateConflict
      | None \<Rightarrow>
          fail_if (settlement \<noteq> SettledCancelled \<and> \<not> funding_finalized r) PayInvalidOperation
          (let next = r\<lparr>rf_settlement := Some settlement\<rparr>;
               escrow = RequestEscrow (op_id (rf_capture r)) in
           if settlement = SettledCancelled \<and> \<not> funding_finalized next then
             (if \<not> capture_voided next then
                Ok (next\<lparr>rf_capture_status := CapCancellationRequested\<rparr>,
                    no_effects\<lparr>fe_operations := [op_id (rf_capture next)]\<rparr>)
              else Ok (next, no_effects))
           else if settlement = SettledAccepted \<or> settlement = SettledCancelled then
             create_refund next (op_amount (rf_capture next)) no_effects
           else
             let effects = no_effects\<lparr>fe_postings := batch_transfer escrow ProcessingRevenue
                   (fc_processing_charge (rf_contract next)) []\<rparr> in
             if settlement = SettledExpired then
               create_refund next (fc_collateral (rf_contract next)) effects
             else if fc_collateral (rf_contract next) \<noteq> 0 then
               Ok (next, effects\<lparr>
                   fe_postings := batch_transfer escrow (ProgramClearing (op_id (rf_capture next)))
                     (fc_collateral (rf_contract next)) (fe_postings effects),
                   fe_forfeitures := [\<lparr>fo_id = op_id (rf_capture next),
                     fo_amount = fc_collateral (rf_contract next),
                     fo_unit = op_unit (rf_capture next), fo_forfeited_at = at,
                     fo_requires_review = capture_reversed next,
                     fo_terms = fc_terms (rf_contract next)\<rparr>]\<rparr>)
             else Ok (next, effects)))"

text \<open>The \<open>match\<close> of \<open>record_payment\<close>; \<open>own\<close> says that the evidence names the capture.\<close>

definition rf_reconcile ::
  "request_financials \<Rightarrow> bool \<Rightarrow> payment_outcome
     \<Rightarrow> (request_financials \<times> financial_effects, payment_error) res" where
  "rf_reconcile r own outcome =
     (case (own, outcome) of
        (_, OutPending) \<Rightarrow> Ok (r, no_effects)
      | (False, OutFailed) \<Rightarrow> Ok (r, no_effects)
      | (True, OutSettled) \<Rightarrow>
          if \<not> funding_finalized r then
            let next = r\<lparr>rf_capture_status := CapFundingFinalized\<rparr>;
                effects = no_effects\<lparr>fe_postings := batch_transfer ProcessorClearing
                  (RequestEscrow (op_id (rf_capture next))) (op_amount (rf_capture next)) []\<rparr> in
            if rf_settlement next = Some SettledCancelled
            then create_refund next (op_amount (rf_capture next)) effects
            else Ok (next, effects)
          else Ok (r, no_effects)
      | (True, OutVoided) \<Rightarrow>
          if \<not> funding_finalized r then
            Ok (r\<lparr>rf_capture_status := CapVoided, rf_settlement := Some SettledCancelled\<rparr>,
                no_effects\<lparr>fe_capture_voided := True\<rparr>)
          else Ok (r, no_effects)
      | (True, OutFailed) \<Rightarrow>
          if \<not> funding_finalized r then
            Ok (r\<lparr>rf_capture_status := CapVoided, rf_settlement := Some SettledCancelled\<rparr>,
                no_effects\<lparr>fe_capture_voided := True\<rparr>)
          else Ok (r, no_effects)
      | (True, OutReversed) \<Rightarrow>
          if \<not> funding_finalized r then Err PayInvalidOperation
          else if \<not> capture_reversed r then
            let next = r\<lparr>rf_capture_status := CapReversed\<rparr> in
            Ok (next, no_effects\<lparr>
                fe_postings := batch_transfer CorporateLossClearing ProcessorClearing
                  (op_amount (rf_capture next)) [],
                fe_holds := (if rf_settlement next = Some SettledRejected
                    \<and> fc_collateral (rf_contract next) \<noteq> 0
                  then [op_id (rf_capture next)] else [])\<rparr>)
          else Ok (r, no_effects)
      | (False, OutSettled) \<Rightarrow>
          (case rf_refund r of
             RefundPending refund \<Rightarrow>
               Ok (r\<lparr>rf_refund := RefundConfirmed refund\<rparr>,
                   no_effects\<lparr>fe_postings := batch_transfer (RefundPayable (op_id refund))
                     ProcessorClearing (op_amount refund) []\<rparr>)
           | _ \<Rightarrow> Ok (r, no_effects))
      | _ \<Rightarrow> Err PayInvalidOperation)"

definition rf_record_payment ::
  "crypto \<Rightarrow> request_financials \<Rightarrow> signed_payment_evidence
     \<Rightarrow> (request_financials \<times> financial_effects, payment_error) res" where
  "rf_record_payment c r receipt =
     (let e = spe_evidence receipt in
      and_then (ok_or (rf_operation r (pe_operation_id e)) OperationMismatch) (\<lambda>operation.
      and_then (evidence_verify c receipt (fc_provider_key (rf_contract r)) operation) (\<lambda>_.
      case bt_get (rf_events r) (pe_event_id e) of
        Some previous \<Rightarrow> if previous = e then Ok (r, no_effects) else Err PayDuplicateConflict
      | None \<Rightarrow>
          and_then (rf_reconcile r (op_id operation = op_id (rf_capture r)) (pe_outcome e)) (\<lambda>(next, effects).
          Ok (next\<lparr>rf_events := bt_insert (pe_event_id e) e (rf_events next)\<rparr>, effects)))))"

section \<open>Restoring a stored record\<close>

definition rf_has :: "request_financials \<Rightarrow> payment_operation_id \<Rightarrow> payment_outcome \<Rightarrow> bool" where
  "rf_has r i outcome =
     list_ex (\<lambda>e. pe_operation_id e = i \<and> pe_outcome e = outcome) (bt_values (rf_events r))"

primrec rf_check_events ::
  "crypto \<Rightarrow> request_financials \<Rightarrow> (financial_event_id \<times> payment_evidence) list
     \<Rightarrow> (unit, payment_error) res" where
  "rf_check_events c r [] = Ok ()"
| "rf_check_events c r (entry # rest) =
     (let (i, e) = entry in
      and_then (ok_or (rf_operation r (pe_operation_id e)) OperationMismatch) (\<lambda>operation.
      fail_if (i \<noteq> pe_event_id e \<or> operation_digest c operation \<noteq> pe_operation_digest e)
        OperationMismatch (rf_check_events c r rest)))"

definition rf_state_valid :: "request_financials \<Rightarrow> bool" where
  "rf_state_valid r =
     (let capture = op_id (rf_capture r) in
      case rf_capture_status r of
        CapPending \<Rightarrow> rf_settlement r = None
      | CapCancellationRequested \<Rightarrow> rf_settlement r = Some SettledCancelled
      | CapFundingFinalized \<Rightarrow> rf_has r capture OutSettled
      | CapVoided \<Rightarrow> rf_settlement r = Some SettledCancelled
          \<and> (rf_has r capture OutVoided \<or> rf_has r capture OutFailed)
      | CapReversed \<Rightarrow> rf_has r capture OutSettled \<and> rf_has r capture OutReversed)"

definition rf_restore :: "crypto \<Rightarrow> request_financials \<Rightarrow> (request_financials, payment_error) res" where
  "rf_restore c v =
     and_then (rf_new (rf_capture v) (rf_contract v)) (\<lambda>fresh.
     let result = fresh\<lparr>rf_capture_status := rf_capture_status v, rf_refund := rf_refund v,
           rf_events := rf_events v, rf_settlement := rf_settlement v\<rparr> in
     and_then (rf_check_events c result (bt_entries (rf_events result))) (\<lambda>_.
     fail_if (\<not> rf_state_valid result) PayInvalidOperation
     (case refund_operation (rf_refund result) of
        None \<Rightarrow> Ok result
      | Some refund \<Rightarrow>
          and_then (case rf_settlement result of
              Some SettledAccepted \<Rightarrow> Ok (op_amount (rf_capture result))
            | Some SettledCancelled \<Rightarrow> Ok (op_amount (rf_capture result))
            | Some SettledExpired \<Rightarrow> Ok (fc_collateral (rf_contract result))
            | _ \<Rightarrow> Err PayInvalidOperation) (\<lambda>expected.
          fail_if (\<not> funding_finalized result
              \<or> op_id refund \<noteq> fc_refund_id (rf_contract result)
              \<or> op_kind refund \<noteq> Refund (op_id (rf_capture result))
              \<or> op_amount refund \<noteq> expected
              \<or> op_scope refund \<noteq> op_scope (rf_capture result)
              \<or> op_unit refund \<noteq> op_unit (rf_capture result)
              \<or> op_destination refund \<noteq> op_destination (rf_capture result)) PayInvalidOperation
          (fail_if ((case rf_refund result of RefundConfirmed _ \<Rightarrow> True | _ \<Rightarrow> False)
              \<and> \<not> rf_has result (op_id refund) OutSettled) PayInvalidOperation
          (Ok result))))))"


section \<open>The states a record can reach\<close>

definition refund_due :: "request_financials \<Rightarrow> money" where
  "refund_due r =
     (if funding_finalized r then
        (case rf_settlement r of
           Some SettledAccepted \<Rightarrow> op_amount (rf_capture r)
         | Some SettledCancelled \<Rightarrow> op_amount (rf_capture r)
         | Some SettledExpired \<Rightarrow> fc_collateral (rf_contract r)
         | _ \<Rightarrow> 0)
      else 0)"

definition rf_shape :: "request_financials \<Rightarrow> bool" where
  "rf_shape r \<longleftrightarrow>
     is_ok (rf_new (rf_capture r) (rf_contract r))
     \<and> (rf_capture_status r = CapPending \<longrightarrow> rf_settlement r = None)
     \<and> (rf_capture_status r = CapCancellationRequested \<or> rf_capture_status r = CapVoided
          \<longrightarrow> rf_settlement r = Some SettledCancelled)
     \<and> refund_operation (rf_refund r) =
         (if refund_due r = 0 then None else Some (refund_of r (refund_due r)))"

definition evidence_known :: "crypto \<Rightarrow> request_financials \<Rightarrow> payment_evidence \<Rightarrow> bool" where
  "evidence_known c r e \<longleftrightarrow> (case rf_operation r (pe_operation_id e) of None \<Rightarrow> False
     | Some operation \<Rightarrow> pe_operation_digest e = operation_digest c operation)"

definition rf_recorded :: "crypto \<Rightarrow> request_financials \<Rightarrow> bool" where
  "rf_recorded c r \<longleftrightarrow>
     (\<forall>i e. bt_get (rf_events r) i = Some e \<longrightarrow>
        i = pe_event_id e \<and> evidence_known c r e)
     \<and> (funding_finalized r \<longrightarrow> rf_has r (op_id (rf_capture r)) OutSettled)
     \<and> (capture_reversed r \<longrightarrow> rf_has r (op_id (rf_capture r)) OutReversed)
     \<and> (capture_voided r \<longrightarrow> rf_has r (op_id (rf_capture r)) OutVoided \<or> rf_has r (op_id (rf_capture r)) OutFailed)
     \<and> (\<forall>p. rf_refund r = RefundConfirmed p \<longrightarrow> rf_has r (op_id p) OutSettled)"

definition rf_inv :: "crypto \<Rightarrow> request_financials \<Rightarrow> bool" where
  "rf_inv c r \<longleftrightarrow> rf_shape r \<and> rf_recorded c r"

datatype rf_command =
  SettleRequest request_settlement canonical_time
| RecordEvidence signed_payment_evidence

definition rf_step ::
  "crypto \<Rightarrow> request_financials \<Rightarrow> rf_command
     \<Rightarrow> (request_financials \<times> financial_effects, payment_error) res" where
  "rf_step c r cmd =
     (case cmd of SettleRequest s at \<Rightarrow> rf_settle r s at | RecordEvidence x \<Rightarrow> rf_record_payment c r x)"

lemma rf_new_Ok:
  "rf_new capture contract = Ok r \<Longrightarrow>
     rf_capture r = capture \<and> rf_contract r = contract \<and> rf_capture_status r = CapPending
     \<and> rf_refund r = RefundNone \<and> rf_events r = bt_empty \<and> rf_settlement r = None
     \<and> op_kind capture = Capture \<and> op_amount capture \<noteq> 0
     \<and> unat (op_amount capture) = unat (fc_processing_charge contract) + unat (fc_collateral contract)
     \<and> op_id capture \<noteq> fc_refund_id contract"
  by (auto simp: rf_new_def money_checked_add_Some)

lemma rf_shapeD:
  assumes "rf_shape r"
  shows "op_kind (rf_capture r) = Capture" and "op_amount (rf_capture r) \<noteq> 0"
    and "op_id (rf_capture r) \<noteq> fc_refund_id (rf_contract r)"
    and "unat (op_amount (rf_capture r)) = unat (fc_processing_charge (rf_contract r)) + unat (fc_collateral (rf_contract r))"
  using assms by (auto simp: rf_shape_def elim!: is_okE dest: rf_new_Ok)

lemma rf_amount_split:
  "rf_shape r \<Longrightarrow>
     uint (op_amount (rf_capture r)) = uint (fc_processing_charge (rf_contract r)) + uint (fc_collateral (rf_contract r))"
  using rf_shapeD(4) [of r] by (metis of_nat_add uint_nat)

lemma rf_new_inv: "rf_new capture contract = Ok r \<Longrightarrow> rf_inv c r"
  by (frule rf_new_Ok) (auto simp: rf_inv_def rf_shape_def rf_recorded_def refund_due_def
      funding_finalized_def capture_reversed_def capture_voided_def)

section \<open>The accounts of one request\<close>

definition rf_level :: "request_financials \<Rightarrow> account \<Rightarrow> int" where
  "rf_level r a =
     (case a of
        RequestEscrow i \<Rightarrow>
          if i = op_id (rf_capture r) \<and> funding_finalized r \<and> rf_settlement r = None
          then uint (op_amount (rf_capture r)) else 0
      | RefundPayable i \<Rightarrow>
          (case rf_refund r of
             RefundPending p \<Rightarrow> if i = op_id p then uint (op_amount p) else 0
           | _ \<Rightarrow> 0)
      | ProcessingRevenue \<Rightarrow> uint (fv_processing_retained (rf_view r))
      | ProgramClearing i \<Rightarrow>
          if i = op_id (rf_capture r) then uint (fv_collateral_forfeited (rf_view r)) else 0
      | CorporateLossClearing \<Rightarrow>
          if capture_reversed r then - uint (op_amount (rf_capture r)) else 0
      | ProcessorClearing \<Rightarrow>
          (if funding_finalized r \<and> \<not> capture_reversed r then - uint (op_amount (rf_capture r)) else 0)
          + (case rf_refund r of RefundConfirmed p \<Rightarrow> uint (op_amount p) | _ \<Rightarrow> 0)
      | _ \<Rightarrow> 0)"

definition forfeited_total :: "financial_effects \<Rightarrow> int" where
  "forfeited_total fx = sum_list (map (\<lambda>f. uint (fo_amount f)) (fe_forfeitures fx))"

lemma no_effects_simps [simp]:
  "fe_postings no_effects = []" "fe_forfeitures no_effects = []" "fe_operations no_effects = []"
  "fe_holds no_effects = []" "\<not> fe_capture_voided no_effects"
  by (simp_all add: no_effects_def)

lemmas rf_flags = funding_finalized_def capture_reversed_def capture_voided_def


definition settled_with :: "request_financials \<Rightarrow> request_settlement \<Rightarrow> request_financials" where
  "settled_with r s =
     (let next = r\<lparr>rf_settlement := Some s\<rparr>
      in if refund_due next = 0 then next
         else next\<lparr>rf_refund := RefundPending (refund_of r (refund_due next))\<rparr>)"

text \<open>The postings of a settlement of a funded request.\<close>

definition settlement_postings :: "request_financials \<Rightarrow> request_settlement \<Rightarrow> ledger_batch" where
  "settlement_postings r s =
     (let escrow = RequestEscrow (op_id (rf_capture r));
          charge = fc_processing_charge (rf_contract r);
          collateral = fc_collateral (rf_contract r);
          payable = RefundPayable (fc_refund_id (rf_contract r)) in
      case s of
        SettledRejected \<Rightarrow> batch_transfer escrow (ProgramClearing (op_id (rf_capture r))) collateral
          (batch_transfer escrow ProcessingRevenue charge [])
      | SettledExpired \<Rightarrow> batch_transfer escrow payable collateral
          (batch_transfer escrow ProcessingRevenue charge [])
      | _ \<Rightarrow> batch_transfer escrow payable (op_amount (rf_capture r)) [])"

lemma rf_settle_cases:
  assumes "rf_settle r s at = Ok (r', fx)" and shape: "rf_shape r"
  obtains
    (replay) "rf_settlement r = Some s" "r' = r" "fx = no_effects"
  | (cancel) "rf_capture_status r = CapPending" "s = SettledCancelled" "rf_settlement r = None"
      "r' = r\<lparr>rf_settlement := Some SettledCancelled, rf_capture_status := CapCancellationRequested\<rparr>"
      "fx = no_effects\<lparr>fe_operations := [op_id (rf_capture r)]\<rparr>"
  | (settled) "funding_finalized r" "rf_settlement r = None" "r' = settled_with r s"
      "fe_postings fx = settlement_postings r s"
      "fe_forfeitures fx = (if s = SettledRejected \<and> fc_collateral (rf_contract r) \<noteq> 0
         then [\<lparr>fo_id = op_id (rf_capture r), fo_amount = fc_collateral (rf_contract r),
               fo_unit = op_unit (rf_capture r), fo_forfeited_at = at,
               fo_requires_review = capture_reversed r, fo_terms = fc_terms (rf_contract r)\<rparr>] else [])"
      "fe_holds fx = []" "\<not> fe_capture_voided fx"
proof (cases "rf_settlement r")
  case (Some t)
  then show thesis using assms(1) replay by (auto simp: rf_settle_def split: if_splits)
next
  case None
  have none: "rf_refund r = RefundNone"
    using shape None by (cases "rf_refund r") (auto simp: rf_shape_def refund_due_def split: if_splits)
  have amount: "op_amount (rf_capture r) \<noteq> 0" using shape by (rule rf_shapeD)
  show thesis
  proof (cases "funding_finalized r")
    case True
    then have f: "funding_finalized (r\<lparr>rf_settlement := x\<rparr>)" for x by (simp add: rf_flags)
    show thesis
      by (rule settled [OF True None], insert assms(1), unfold rf_settle_def)
        (cases s; simp add: None none True f amount create_refund_def settled_with_def refund_due_def
          settlement_postings_def refund_of_def capture_reversed_def Let_def batch_transfer_def
          split: if_splits; auto)+
  next
    case False
    then have s: "s = SettledCancelled" using assms(1) None by (auto simp: rf_settle_def)
    have st: "rf_capture_status r = CapPending"
      using shape False None by (cases "rf_capture_status r") (auto simp: rf_shape_def rf_flags)
    show thesis
      by (rule cancel [OF st s None]) (use assms(1) None s st in \<open>auto simp: rf_settle_def rf_flags Let_def\<close>)
  qed
qed

definition funded_now :: "request_financials \<Rightarrow> request_financials" where
  "funded_now r =
     (let next = r\<lparr>rf_capture_status := CapFundingFinalized\<rparr>
      in if refund_due next = 0 then next
         else next\<lparr>rf_refund := RefundPending (refund_of r (refund_due next))\<rparr>)"

definition funding_postings :: "request_financials \<Rightarrow> ledger_batch" where
  "funding_postings r =
     (let escrow = RequestEscrow (op_id (rf_capture r));
          funded = batch_transfer ProcessorClearing escrow (op_amount (rf_capture r)) [] in
      if rf_settlement r = Some SettledCancelled
      then batch_transfer escrow (RefundPayable (fc_refund_id (rf_contract r))) (op_amount (rf_capture r)) funded
      else funded)"

lemma rf_shape_unfunded:
  assumes "rf_shape r" and "\<not> funding_finalized r"
  shows "rf_refund r = RefundNone" and "rf_settlement r = None \<or> rf_settlement r = Some SettledCancelled"
  using assms
  by (cases "rf_refund r"; cases "rf_capture_status r"; auto simp: rf_shape_def refund_due_def rf_flags)+

lemma rf_reconcile_cases:
  assumes "rf_reconcile r own outcome = Ok (r', fx)" and shape: "rf_shape r"
  obtains
    (quiet) "r' = r" "fx = no_effects"
  | (funded) "own" "outcome = OutSettled" "\<not> funding_finalized r" "r' = funded_now r"
      "fe_postings fx = funding_postings r" "fe_forfeitures fx = []" "fe_holds fx = []"
      "\<not> fe_capture_voided fx"
  | (voided) "own" "outcome = OutVoided \<or> outcome = OutFailed" "\<not> funding_finalized r"
      "r' = r\<lparr>rf_capture_status := CapVoided, rf_settlement := Some SettledCancelled\<rparr>"
      "fx = no_effects\<lparr>fe_capture_voided := True\<rparr>"
  | (reversed) "own" "outcome = OutReversed" "rf_capture_status r = CapFundingFinalized"
      "r' = r\<lparr>rf_capture_status := CapReversed\<rparr>"
      "fe_postings fx = batch_transfer CorporateLossClearing ProcessorClearing (op_amount (rf_capture r)) []"
      "fe_forfeitures fx = []" "\<not> fe_capture_voided fx"
      "fe_holds fx = (if rf_settlement r = Some SettledRejected \<and> fc_collateral (rf_contract r) \<noteq> 0
         then [op_id (rf_capture r)] else [])"
  | (confirmed) refund where "\<not> own" "outcome = OutSettled" "rf_refund r = RefundPending refund"
      "r' = r\<lparr>rf_refund := RefundConfirmed refund\<rparr>"
      "fx = no_effects\<lparr>fe_postings := batch_transfer (RefundPayable (op_id refund)) ProcessorClearing
         (op_amount refund) []\<rparr>"
proof (cases own; cases outcome)
  assume own and o: "outcome = OutSettled"
  show thesis
  proof (cases "funding_finalized r")
    case True
    show thesis
      by (rule quiet) (use assms(1) \<open>own\<close> o True in \<open>simp_all add: rf_reconcile_def\<close>)
  next
    case False
    have none: "rf_refund r = RefundNone" using shape False by (rule rf_shape_unfunded)
    have st: "rf_settlement r = None \<or> rf_settlement r = Some SettledCancelled"
      using shape False by (rule rf_shape_unfunded)
    have amount: "op_amount (rf_capture r) \<noteq> 0" using shape by (rule rf_shapeD)
    have eff: "rf_reconcile r own outcome =
        (let next = r\<lparr>rf_capture_status := CapFundingFinalized\<rparr>;
             effects = no_effects\<lparr>fe_postings := batch_transfer ProcessorClearing
               (RequestEscrow (op_id (rf_capture next))) (op_amount (rf_capture next)) []\<rparr> in
         if rf_settlement next = Some SettledCancelled
         then create_refund next (op_amount (rf_capture next)) effects else Ok (next, effects))"
      using \<open>own\<close> o False by (simp add: rf_reconcile_def)
    from st show thesis
    proof
      assume n: "rf_settlement r = None"
      then have r': "r\<lparr>rf_capture_status := CapFundingFinalized\<rparr> = r'"
        and fx: "no_effects\<lparr>fe_postings := batch_transfer ProcessorClearing
           (RequestEscrow (op_id (rf_capture r))) (op_amount (rf_capture r)) []\<rparr> = fx"
        using assms(1) by (simp_all add: eff)
      show thesis
        by (rule funded [OF \<open>own\<close> o False])
          (simp_all add: n funded_now_def funding_postings_def refund_due_def Let_def flip: r' fx)
    next
      assume n: "rf_settlement r = Some SettledCancelled"
      then have r': "r\<lparr>rf_capture_status := CapFundingFinalized,
            rf_refund := RefundPending (refund_of r (op_amount (rf_capture r)))\<rparr> = r'"
        and fx: "no_effects\<lparr>fe_postings := batch_transfer (RequestEscrow (op_id (rf_capture r)))
            (RefundPayable (fc_refund_id (rf_contract r))) (op_amount (rf_capture r))
           (batch_transfer ProcessorClearing (RequestEscrow (op_id (rf_capture r))) (op_amount (rf_capture r)) []),
           fe_operations := [fc_refund_id (rf_contract r)]\<rparr> = fx"
        using assms(1) none amount by (simp_all add: eff create_refund_def refund_of_def)
      show thesis
        by (rule funded [OF \<open>own\<close> o False])
          (simp_all add: n amount funded_now_def funding_postings_def refund_due_def funding_finalized_def
            Let_def flip: r' fx)
    qed
  qed
next
  assume own and o: "outcome = OutVoided"
  show thesis
  proof (cases "funding_finalized r")
    case True
    show thesis
      by (rule quiet) (use assms(1) \<open>own\<close> o True in \<open>simp_all add: rf_reconcile_def\<close>)
  next
    case False
    show thesis
      by (rule voided) (use assms(1) \<open>own\<close> o False in \<open>simp_all add: rf_reconcile_def\<close>)
  qed
next
  assume own and o: "outcome = OutFailed"
  show thesis
  proof (cases "funding_finalized r")
    case True
    show thesis
      by (rule quiet) (use assms(1) \<open>own\<close> o True in \<open>simp_all add: rf_reconcile_def\<close>)
  next
    case False
    show thesis
      by (rule voided) (use assms(1) \<open>own\<close> o False in \<open>simp_all add: rf_reconcile_def\<close>)
  qed
next
  assume own and o: "outcome = OutReversed"
  then have f: "funding_finalized r" using assms(1) by (simp add: rf_reconcile_def split: if_splits)
  show thesis
  proof (cases "capture_reversed r")
    case True
    show thesis
      by (rule quiet) (use assms(1) \<open>own\<close> o f True in \<open>simp_all add: rf_reconcile_def\<close>)
  next
    case False
    then have "rf_capture_status r = CapFundingFinalized" using f by (simp add: rf_flags)
    then show thesis
      by (rule reversed [OF \<open>own\<close> o]) (use assms(1) \<open>own\<close> o f False in \<open>auto simp: rf_reconcile_def Let_def\<close>)
  qed
next
  assume own and "outcome = OutPending"
  then show thesis by (intro quiet) (use assms(1) in \<open>simp_all add: rf_reconcile_def\<close>)
next
  assume "\<not> own" and o: "outcome = OutSettled"
  show thesis
  proof (cases "rf_refund r")
    case (RefundPending refund)
    show thesis
      by (rule confirmed [OF \<open>\<not> own\<close> o RefundPending])
        (use assms(1) \<open>\<not> own\<close> o RefundPending in \<open>simp_all add: rf_reconcile_def\<close>)
  qed (rule quiet; use assms(1) \<open>\<not> own\<close> o in \<open>simp_all add: rf_reconcile_def\<close>)+
qed (rule quiet; use assms(1) in \<open>simp_all add: rf_reconcile_def\<close>)+

section \<open>Settlement and reconciliation keep the shape\<close>

lemma refund_of_cong [simp]:
  "refund_of (r\<lparr>rf_settlement := x\<rparr>) = refund_of r"
  "refund_of (r\<lparr>rf_refund := y\<rparr>) = refund_of r"
  "refund_of (r\<lparr>rf_capture_status := z\<rparr>) = refund_of r"
  "refund_of (r\<lparr>rf_events := w\<rparr>) = refund_of r"
  by (simp_all add: refund_of_def fun_eq_iff)

lemma op_refund_of [simp]:
  "op_amount (refund_of r m) = m" "op_id (refund_of r m) = fc_refund_id (rf_contract r)"
  "op_kind (refund_of r m) = Refund (op_id (rf_capture r))"
  by (simp_all add: refund_of_def)

lemma refund_due_cong [simp]:
  "refund_due (r\<lparr>rf_refund := x\<rparr>) = refund_due r"
  "refund_due (r\<lparr>rf_events := y\<rparr>) = refund_due r"
  "rf_capture_status r = CapFundingFinalized \<Longrightarrow> refund_due (r\<lparr>rf_capture_status := CapReversed\<rparr>) = refund_due r"
  by (simp_all add: refund_due_def rf_flags split: option.split request_settlement.split)

lemma view_retained:
  "fv_processing_retained (rf_view r) =
     (if rf_settlement r = Some SettledRejected \<or> rf_settlement r = Some SettledExpired
      then fc_processing_charge (rf_contract r) else 0)"
  "fv_collateral_forfeited (rf_view r) =
     (if rf_settlement r = Some SettledRejected then fc_collateral (rf_contract r) else 0)"
  by (simp_all add: rf_view_def Let_def split: option.split request_settlement.split)

lemma rf_settle_shape:
  assumes "rf_settle r s at = Ok (r', fx)" and "rf_shape r"
  shows "rf_shape r'"
  using assms
proof (cases rule: rf_settle_cases)
  case settled
  have "rf_refund r = RefundNone"
    using assms(2) settled(2) by (cases "rf_refund r") (auto simp: rf_shape_def refund_due_def split: if_splits)
  then show ?thesis
    using assms(2) settled(1,2) unfolding settled(3)
    by (cases s) (auto simp: settled_with_def Let_def rf_shape_def refund_due_def funding_finalized_def)
next
  case cancel
  then show ?thesis using assms(2) by (auto simp: rf_shape_def refund_due_def rf_flags)
qed (use assms(2) in simp)

lemma rf_reconcile_shape:
  assumes "rf_reconcile r own outcome = Ok (r', fx)" and "rf_shape r"
  shows "rf_shape r'"
  using assms
proof (cases rule: rf_reconcile_cases)
  case funded
  then show ?thesis
    using assms(2) rf_shape_unfunded [OF assms(2) funded(3)]
    by (auto simp: funded_now_def Let_def rf_shape_def refund_due_def rf_flags)
next
  case voided
  then show ?thesis using assms(2) rf_shape_unfunded [OF assms(2)]
    by (auto simp: rf_shape_def refund_due_def rf_flags)
next
  case reversed
  then show ?thesis using assms(2) by (simp add: rf_shape_def)
next
  case (confirmed refund)
  then show ?thesis using assms(2) by (simp add: rf_shape_def)
qed (use assms(2) in simp)

section \<open>Postings move the accounts of the request\<close>

lemma rf_settle_level:
  assumes "rf_settle r s at = Ok (r', fx)" and "rf_shape r"
  shows "rf_level r' a = rf_level r a + net_flow a (fe_postings fx)"
  using assms
proof (cases rule: rf_settle_cases)
  case settled
  have none: "rf_refund r = RefundNone"
    using assms(2) settled(2) by (cases "rf_refund r") (auto simp: rf_shape_def refund_due_def split: if_splits)
  note split = rf_amount_split [OF assms(2)]
  show ?thesis
    unfolding settled(3,4) using none settled(1,2) split
    by (cases s; cases a) (auto simp: settled_with_def settlement_postings_def rf_level_def view_retained
        refund_due_def rf_flags Let_def)
next
  case cancel
  then show ?thesis by (cases a) (auto simp: rf_level_def view_retained rf_flags)
qed simp

lemma rf_reconcile_level:
  assumes "rf_reconcile r own outcome = Ok (r', fx)" and "rf_shape r"
  shows "rf_level r' a = rf_level r a + net_flow a (fe_postings fx)"
  using assms
proof (cases rule: rf_reconcile_cases)
  case funded
  show ?thesis
    unfolding funded(4,5) using rf_shape_unfunded [OF assms(2) funded(3)] funded(3)
    by (cases a) (auto simp: funded_now_def funding_postings_def rf_level_def view_retained
        refund_due_def rf_flags Let_def)
next
  case voided
  then show ?thesis using rf_shape_unfunded [OF assms(2) voided(3)]
    by (cases a) (auto simp: rf_level_def view_retained rf_flags)
next
  case reversed
  then show ?thesis by (cases a) (simp_all add: rf_level_def view_retained rf_flags split: option.split request_settlement.split)
next
  case (confirmed refund)
  then show ?thesis by (cases a) (auto simp: rf_level_def view_retained rf_flags)
qed simp

section \<open>Postings are covered\<close>

definition postings_ok :: "request_financials \<Rightarrow> financial_effects \<Rightarrow> bool" where
  "postings_ok r fx \<longleftrightarrow> is_balanced (fe_postings fx) \<and> covered (rf_level r) (fe_postings fx)"

lemma rf_settle_postings:
  assumes "rf_settle r s at = Ok (r', fx)" and "rf_shape r"
  shows "postings_ok r fx"
  using assms
proof (cases rule: rf_settle_cases)
  case settled
  have "rf_level r (RequestEscrow (op_id (rf_capture r))) = uint (op_amount (rf_capture r))"
    using settled(1,2) by (simp add: rf_level_def)
  then show ?thesis
    unfolding postings_ok_def settled(4)
    by (cases s) (auto simp: settlement_postings_def Let_def covered_transfer covered_transfer2
        rf_amount_split [OF assms(2)])
qed (simp_all add: postings_ok_def)

lemma rf_reconcile_postings:
  assumes "rf_reconcile r own outcome = Ok (r', fx)" and "rf_shape r"
  shows "postings_ok r fx"
  using assms
proof (cases rule: rf_reconcile_cases)
  case funded
  have "rf_level r (RequestEscrow (op_id (rf_capture r))) = 0"
    using funded(3) by (simp add: rf_level_def)
  then show ?thesis
    unfolding postings_ok_def funded(5)
    by (auto simp: funding_postings_def Let_def covered_transfer covered_transfer2)
next
  case (confirmed refund)
  then show ?thesis by (simp add: postings_ok_def covered_transfer rf_level_def)
qed (simp_all add: postings_ok_def covered_transfer)

section \<open>The recorded evidence\<close>

lemma rf_operation_stable:
  assumes "rf_capture r' = rf_capture r"
    and "\<And>p. refund_operation (rf_refund r) = Some p \<Longrightarrow> refund_operation (rf_refund r') = Some p"
    and "rf_operation r i = Some p"
  shows "rf_operation r' i = Some p"
  using assms by (auto simp: rf_operation_def split: if_splits option.splits)

lemma rf_settle_frame:
  assumes "rf_settle r s at = Ok (r', fx)" and "rf_shape r"
  shows "rf_capture r' = rf_capture r" and "rf_contract r' = rf_contract r"
    and "rf_events r' = rf_events r"
    and "refund_operation (rf_refund r) = Some p \<Longrightarrow> refund_operation (rf_refund r') = Some p"
    and "rf_settlement r' = Some s"
    and "funding_finalized r' = funding_finalized r" and "capture_reversed r' = capture_reversed r"
    and "capture_voided r' = capture_voided r"
    and "rf_refund r' = RefundConfirmed q \<Longrightarrow> rf_refund r = RefundConfirmed q"
proof -
  have none: "rf_settlement r = None \<Longrightarrow> rf_refund r = RefundNone"
    using assms(2) by (cases "rf_refund r") (auto simp: rf_shape_def refund_due_def split: if_splits)
  show "rf_capture r' = rf_capture r" "rf_contract r' = rf_contract r" "rf_events r' = rf_events r"
    "rf_settlement r' = Some s" "funding_finalized r' = funding_finalized r"
    "capture_reversed r' = capture_reversed r" "capture_voided r' = capture_voided r"
    using assms by (cases rule: rf_settle_cases; auto simp: settled_with_def Let_def rf_flags)+
  show "refund_operation (rf_refund r) = Some p \<Longrightarrow> refund_operation (rf_refund r') = Some p"
    "rf_refund r' = RefundConfirmed q \<Longrightarrow> rf_refund r = RefundConfirmed q"
    using assms none by (cases rule: rf_settle_cases; auto simp: settled_with_def Let_def split: if_splits)+
qed

lemma rf_reconcile_frame:
  assumes "rf_reconcile r own outcome = Ok (r', fx)" and "rf_shape r"
  shows "rf_capture r' = rf_capture r" and "rf_contract r' = rf_contract r"
    and "rf_events r' = rf_events r"
    and "refund_operation (rf_refund r) = Some p \<Longrightarrow> refund_operation (rf_refund r') = Some p"
    and "rf_settlement r = Some s \<Longrightarrow> rf_settlement r' = Some s"
    and "funding_finalized r \<Longrightarrow> funding_finalized r'"
proof -
  note st = rf_shape_unfunded [OF assms(2)]
  show "rf_capture r' = rf_capture r" "rf_contract r' = rf_contract r" "rf_events r' = rf_events r"
    "funding_finalized r \<Longrightarrow> funding_finalized r'"
    using assms by (cases rule: rf_reconcile_cases; auto simp: funded_now_def Let_def rf_flags)+
  show "refund_operation (rf_refund r) = Some p \<Longrightarrow> refund_operation (rf_refund r') = Some p"
    "rf_settlement r = Some s \<Longrightarrow> rf_settlement r' = Some s"
    using assms st by (cases rule: rf_reconcile_cases; auto simp: funded_now_def Let_def split: if_splits)+
qed

lemma rf_has_insert:
  assumes "bt_get (rf_events r) i = None"
  shows "rf_has (r\<lparr>rf_events := bt_insert i e (rf_events r)\<rparr>) j outcome \<longleftrightarrow>
     rf_has r j outcome \<or> (pe_operation_id e = j \<and> pe_outcome e = outcome)"
proof -
  have "set (bt_values (bt_insert i e (rf_events r))) = insert e (set (bt_values (rf_events r)))"
    using bt_values_insert_new [OF assms, of e] by (metis set_mset_mset set_mset_add_mset_insert)
  then show ?thesis by (auto simp: rf_has_def list_ex_iff)
qed

lemma rf_has_cong: "rf_events r' = rf_events r \<Longrightarrow> rf_has r' = rf_has r"
  by (simp add: rf_has_def fun_eq_iff)

lemma rf_operation_cong [simp]:
  "rf_operation (r\<lparr>rf_events := x\<rparr>) = rf_operation r"
  by (simp add: rf_operation_def fun_eq_iff)

lemma rf_shape_events [simp]: "rf_shape (r\<lparr>rf_events := x\<rparr>) = rf_shape r"
  by (simp add: rf_shape_def)

lemma rf_flags_events [simp]:
  "funding_finalized (r\<lparr>rf_events := x\<rparr>) = funding_finalized r"
  "capture_reversed (r\<lparr>rf_events := x\<rparr>) = capture_reversed r"
  "capture_voided (r\<lparr>rf_events := x\<rparr>) = capture_voided r"
  by (simp_all add: rf_flags)

lemma rf_level_events [simp]: "rf_level (r\<lparr>rf_events := x\<rparr>) = rf_level r"
proof
  fix a show "rf_level (r\<lparr>rf_events := x\<rparr>) a = rf_level r a"
    by (cases a) (auto simp: rf_level_def view_retained)
qed

lemma rf_operation_id: "rf_operation r i = Some p \<Longrightarrow> op_id p = i"
  by (auto simp: rf_operation_def split: if_splits option.splits)

lemma rf_record_payment_cases:
  assumes "rf_record_payment c r receipt = Ok (r', fx)"
  obtains
    (replay) "bt_get (rf_events r) (pe_event_id (spe_evidence receipt)) = Some (spe_evidence receipt)"
      "r' = r" "fx = no_effects"
  | (recorded) operation nxt where
      "bt_get (rf_events r) (pe_event_id (spe_evidence receipt)) = None"
      "rf_operation r (pe_operation_id (spe_evidence receipt)) = Some operation"
      "evidence_verify c receipt (fc_provider_key (rf_contract r)) operation = Ok ()"
      "rf_reconcile r (op_id operation = op_id (rf_capture r)) (pe_outcome (spe_evidence receipt)) = Ok (nxt, fx)"
      "r' = nxt\<lparr>rf_events := bt_insert (pe_event_id (spe_evidence receipt)) (spe_evidence receipt) (rf_events nxt)\<rparr>"
  using assms unfolding rf_record_payment_def Let_def
  by (cases "bt_get (rf_events r) (pe_event_id (spe_evidence receipt))") (auto split: if_splits)

lemma evidence_verify_Ok:
  "evidence_verify c receipt key p = Ok () \<Longrightarrow>
     pe_operation_id (spe_evidence receipt) = op_id p
     \<and> pe_operation_digest (spe_evidence receipt) = operation_digest c p"
  by (simp add: evidence_verify_def Let_def)

lemma rf_reconcile_flags:
  assumes "rf_reconcile r own outcome = Ok (r', fx)" and "rf_shape r"
  shows "(funding_finalized r' \<longrightarrow> funding_finalized r \<or> own \<and> outcome = OutSettled)
    \<and> (capture_reversed r' \<longrightarrow> capture_reversed r \<or> own \<and> outcome = OutReversed)
    \<and> (capture_voided r' \<longrightarrow> capture_voided r \<or> own \<and> (outcome = OutVoided \<or> outcome = OutFailed))
    \<and> (rf_refund r' = RefundConfirmed p \<longrightarrow>
      rf_refund r = RefundConfirmed p \<or> rf_refund r = RefundPending p \<and> \<not> own \<and> outcome = OutSettled)"
  using assms
proof (cases rule: rf_reconcile_cases)
  case funded
  show ?thesis
    using rf_shape_unfunded(1) [OF assms(2) funded(3)] funded(1,2)
    unfolding funded(4) by (simp add: funded_now_def Let_def rf_flags)
qed (simp_all add: rf_flags)

lemma rf_settle_inv:
  assumes "rf_settle r s at = Ok (r', fx)" and "rf_inv c r"
  shows "rf_inv c r'"
proof -
  have sh: "rf_shape r" and rec: "rf_recorded c r" using assms(2) by (simp_all add: rf_inv_def)
  note f = rf_settle_frame [OF assms(1) sh]
  have op: "evidence_known c r e \<Longrightarrow> evidence_known c r' e" for e
    using rf_operation_stable [OF f(1) f(4)] by (auto simp: evidence_known_def split: option.splits)
  have "rf_recorded c r'"
    using rec unfolding rf_recorded_def rf_has_cong [OF f(3)] f(1,3,6,7,8)
    by (auto dest: f(9) op)
  then show ?thesis using rf_settle_shape [OF assms(1) sh] by (simp add: rf_inv_def)
qed

lemma rf_record_payment_inv:
  assumes "rf_record_payment c r receipt = Ok (r', fx)" and "rf_inv c r"
  shows "rf_inv c r'"
  using assms(1)
proof (cases rule: rf_record_payment_cases)
  case replay
  then show ?thesis using assms(2) by simp
next
  case (recorded operation nxt)
  let ?e = "spe_evidence receipt"
  have sh: "rf_shape r" and rec: "rf_recorded c r" using assms(2) by (simp_all add: rf_inv_def)
  note f = rf_reconcile_frame [OF recorded(4) sh] and fl = rf_reconcile_flags [OF recorded(4) sh]
  have op: "rf_operation r i = Some p \<Longrightarrow> rf_operation r' i = Some p" for i p
    using rf_operation_stable [OF f(1) f(4)] by (simp add: recorded(5))
  have known: "evidence_known c r e \<Longrightarrow> evidence_known c r' e" for e
    using op by (auto simp: evidence_known_def split: option.splits)
  have e: "pe_operation_id ?e = op_id operation" "pe_operation_digest ?e = operation_digest c operation"
    using evidence_verify_Ok [OF recorded(3)] by auto
  have fresh: "bt_get (rf_events nxt) (pe_event_id ?e) = None" using recorded(1) f(3) by simp
  have has: "rf_has r' j outcome \<longleftrightarrow> rf_has r j outcome \<or> (pe_operation_id ?e = j \<and> pe_outcome ?e = outcome)"
    for j outcome
    unfolding recorded(5) rf_has_insert [OF fresh] rf_has_cong [OF f(3)] ..
  have confirmed: "rf_has r' (op_id p) OutSettled" if "rf_refund nxt = RefundConfirmed p" for p
  proof -
    from fl [of p] that have "rf_refund r = RefundConfirmed p
      \<or> rf_refund r = RefundPending p \<and> op_id operation \<noteq> op_id (rf_capture r) \<and> pe_outcome ?e = OutSettled"
      by simp
    then show ?thesis
    proof
    assume "rf_refund r = RefundConfirmed p"
    then show ?thesis using rec by (simp add: has rf_recorded_def)
  next
    assume "rf_refund r = RefundPending p \<and> op_id operation \<noteq> op_id (rf_capture r) \<and> pe_outcome ?e = OutSettled"
    then show ?thesis using recorded(2) e(1) by (auto simp: has rf_operation_def split: if_splits)
    qed
  qed
  have k: "evidence_known c r' ?e" using op [OF recorded(2)] e(2) by (simp add: evidence_known_def)
  have ev: "i = pe_event_id v \<and> evidence_known c r' v" if "bt_get (rf_events r') i = Some v" for i v
  proof (cases "i = pe_event_id ?e")
    case True
    then have "v = ?e" using that by (simp add: recorded(5))
    then show ?thesis using True k by simp
  next
    case False
    then have "bt_get (rf_events r) i = Some v" using that f(3) by (simp add: recorded(5))
    then show ?thesis using rec known by (simp add: rf_recorded_def)
  qed
  have own: "op_id operation = pe_operation_id ?e" using e(1) by simp
  have cap: "rf_capture r' = rf_capture r" using f(1) by (simp add: recorded(5))
  note fl1 = fl [THEN conjunct1] and fl2 = fl [THEN conjunct2, THEN conjunct1]
    and fl3 = fl [THEN conjunct2, THEN conjunct2, THEN conjunct1]
  have r': "funding_finalized r' = funding_finalized nxt" "capture_reversed r' = capture_reversed nxt"
    "capture_voided r' = capture_voided nxt" "rf_refund r' = rf_refund nxt"
    by (simp_all add: recorded(5))
  have "rf_recorded c r'"
    unfolding rf_recorded_def cap r'
  proof (intro conjI allI impI)
    show "rf_has r' (op_id (rf_capture r)) OutSettled" if "funding_finalized nxt"
      using fl1 that rec own unfolding has rf_recorded_def by auto
    show "rf_has r' (op_id (rf_capture r)) OutReversed" if "capture_reversed nxt"
      using fl2 that rec own unfolding has rf_recorded_def by auto
    show "rf_has r' (op_id (rf_capture r)) OutVoided \<or> rf_has r' (op_id (rf_capture r)) OutFailed"
      if "capture_voided nxt"
      using fl3 that rec own unfolding has rf_recorded_def by auto
  qed (use ev confirmed in auto)
  moreover have "rf_shape r'" using rf_reconcile_shape [OF recorded(4) sh] by (simp add: recorded(5))
  ultimately show ?thesis by (simp add: rf_inv_def)
qed

lemma rf_step_inv: "rf_inv c r \<Longrightarrow> rf_step c r cmd = Ok (r', fx) \<Longrightarrow> rf_inv c r'"
  by (cases cmd) (auto simp: rf_step_def intro: rf_settle_inv rf_record_payment_inv)

lemma rf_step_level:
  assumes "rf_inv c r" and "rf_step c r cmd = Ok (r', fx)"
  shows "rf_level r' a = rf_level r a + net_flow a (fe_postings fx)" and "postings_ok r fx"
proof -
  have sh: "rf_shape r" using assms(1) by (simp add: rf_inv_def)
  have "rf_level r' a = rf_level r a + net_flow a (fe_postings fx) \<and> postings_ok r fx"
  proof (cases cmd)
    case (SettleRequest s at)
    then show ?thesis
      using assms(2) rf_settle_level [OF _ sh] rf_settle_postings [OF _ sh] by (simp add: rf_step_def)
  next
    case (RecordEvidence receipt)
    then have "rf_record_payment c r receipt = Ok (r', fx)" using assms(2) by (simp add: rf_step_def)
    then show ?thesis
    proof (cases rule: rf_record_payment_cases)
      case replay
      then show ?thesis by (simp add: postings_ok_def)
    next
      case (recorded operation nxt)
      show ?thesis
        using rf_reconcile_level [OF recorded(4) sh, of a] rf_reconcile_postings [OF recorded(4) sh]
        by (simp add: recorded(5))
    qed
  qed
  then show "rf_level r' a = rf_level r a + net_flow a (fe_postings fx)" "postings_ok r fx" by auto
qed

interpretation rf: accounting_machine "rf_step c" "rf_inv c" rf_level "\<lambda>fx a. net_flow a (fe_postings fx)"
  by unfold_locales (rule rf_step_inv rf_step_level; assumption)+

section \<open>Restoring and replaying\<close>

lemma rf_check_events_Ok:
  "(\<And>i e. (i, e) \<in> set xs \<Longrightarrow> i = pe_event_id e \<and> evidence_known c r e) \<Longrightarrow> rf_check_events c r xs = Ok ()"
proof (induction xs)
  case Nil
  then show ?case by simp
next
  case (Cons x xs)
  obtain i e where x: "x = (i, e)" by (cases x)
  have "i = pe_event_id e" and "evidence_known c r e" using Cons.prems [of i e] x by auto
  moreover have "rf_check_events c r xs = Ok ()" using Cons by auto
  ultimately show ?case by (auto simp: x evidence_known_def split: option.splits)
qed

lemma rf_state_valid_inv: "rf_inv c r \<Longrightarrow> rf_state_valid r"
  by (cases "rf_capture_status r")
    (auto simp: rf_inv_def rf_state_valid_def rf_recorded_def rf_shape_def rf_flags Let_def)

lemma rf_restore_inv:
  assumes "rf_inv c r" shows "rf_restore c r = Ok r"
proof -
  have sh: "rf_shape r" and rec: "rf_recorded c r" using assms by (simp_all add: rf_inv_def)
  obtain fresh where fresh: "rf_new (rf_capture r) (rf_contract r) = Ok fresh"
    using sh by (auto simp: rf_shape_def elim: is_okE)
  have same: "fresh\<lparr>rf_capture_status := rf_capture_status r, rf_refund := rf_refund r,
      rf_events := rf_events r, rf_settlement := rf_settlement r\<rparr> = r"
    using rf_new_Ok [OF fresh] by simp
  have ev: "rf_check_events c r (bt_entries (rf_events r)) = Ok ()"
    by (rule rf_check_events_Ok) (use rec in \<open>auto simp: rf_recorded_def bt_get_Some\<close>)
  show ?thesis
  proof (cases "refund_operation (rf_refund r)")
    case None
    then show ?thesis by (simp add: rf_restore_def fresh same ev rf_state_valid_inv [OF assms] Let_def)
  next
    case (Some p)
    then have due: "refund_due r \<noteq> 0" and p: "p = refund_of r (refund_due r)"
      using sh by (auto simp: rf_shape_def split: if_splits)
    have f: "funding_finalized r" using due by (simp add: refund_due_def split: if_splits)
    have expected: "(case rf_settlement r of
              Some SettledAccepted \<Rightarrow> Ok (op_amount (rf_capture r))
            | Some SettledCancelled \<Rightarrow> Ok (op_amount (rf_capture r))
            | Some SettledExpired \<Rightarrow> Ok (fc_collateral (rf_contract r))
            | _ \<Rightarrow> Err PayInvalidOperation) = Ok (refund_due r)"
      using due f by (simp add: refund_due_def split: option.splits request_settlement.splits)
    have has: "\<not> ((case rf_refund r of RefundConfirmed _ \<Rightarrow> True | _ \<Rightarrow> False) \<and> \<not> rf_has r (op_id p) OutSettled)"
      using rec Some by (auto simp: rf_recorded_def split: refund_status.splits)
    show ?thesis
      using has
      by (simp only: rf_restore_def fresh and_then.simps Let_def same ev rf_state_valid_inv [OF assms] Some expected
          option.case fail_if_eq not_True_eq_False) (simp add: p f refund_of_def)
  qed
qed

interpretation rf_stored: stored_machine "rf_step c" "rf_inv c" "rf_restore c"
  by unfold_locales (rule rf_restore_inv)

lemma evidence_known_operation:
  "evidence_known c r e \<Longrightarrow> \<exists>p. rf_operation r (pe_operation_id e) = Some p \<and> pe_operation_digest e = operation_digest c p"
  by (auto simp: evidence_known_def split: option.splits)

lemma rf_step_replay:
  assumes "rf_inv c r" and "rf_step c r cmd = Ok (r', fx)"
  shows "rf_step c r' cmd = Ok (r', no_effects)"
proof (cases cmd)
  case (SettleRequest s at)
  then have "rf_settle r s at = Ok (r', fx)" using assms(2) by (simp add: rf_step_def)
  then have "rf_settlement r' = Some s"
    using rf_settle_frame(5) assms(1) by (simp add: rf_inv_def)
  then show ?thesis by (simp add: SettleRequest rf_step_def rf_settle_def)
next
  case (RecordEvidence receipt)
  then have ok: "rf_record_payment c r receipt = Ok (r', fx)" using assms(2) by (simp add: rf_step_def)
  from ok have "rf_record_payment c r' receipt = Ok (r', no_effects)"
  proof (cases rule: rf_record_payment_cases)
    case replay
    then show ?thesis using ok by simp
  next
    case (recorded operation nxt)
    have sh: "rf_shape r" using assms(1) by (simp add: rf_inv_def)
    note f = rf_reconcile_frame [OF recorded(4) sh]
    have "rf_operation r' (pe_operation_id (spe_evidence receipt)) = Some operation"
      using rf_operation_stable [OF f(1) f(4) recorded(2)] by (simp add: recorded(5))
    moreover have "rf_contract r' = rf_contract r" using f(2) by (simp add: recorded(5))
    ultimately show ?thesis
      using recorded(3) by (simp add: rf_record_payment_def Let_def, simp add: recorded(5))
  qed
  then show ?thesis by (simp add: RecordEvidence rf_step_def)
qed

interpretation rf_replay: replay_machine "rf_step c" "rf_inv c" "\<lambda>fx. fx = no_effects"
  by unfold_locales (use rf_step_replay in blast)

lemma rf_step_settlement:
  assumes "rf_inv c r" and "rf_step c r cmd = Ok (r', fx)" and "rf_settlement r = Some s"
  shows "rf_settlement r' = Some s"
proof (cases cmd)
  case (SettleRequest t at)
  then have "rf_settle r t at = Ok (r', fx)" using assms(2) by (simp add: rf_step_def)
  then show ?thesis using assms(3) by (auto simp: rf_settle_def split: if_splits)
next
  case (RecordEvidence receipt)
  then have ok: "rf_record_payment c r receipt = Ok (r', fx)" using assms(2) by (simp add: rf_step_def)
  then show ?thesis
  proof (cases rule: rf_record_payment_cases)
    case (recorded operation nxt)
    then show ?thesis
      using rf_reconcile_frame(5) [OF recorded(4)] assms(1,3) by (simp add: rf_inv_def)
  qed (use assms(3) in simp)
qed

interpretation rf_final: invariant_machine "rf_step c" "\<lambda>r. rf_inv c r \<and> rf_settlement r = Some s"
  by unfold_locales (use rf_step_inv rf_step_settlement in blast)

text \<open>A settled, funded record: what no later step changes.\<close>

definition settled_as :: "request_financials \<Rightarrow> request_settlement \<Rightarrow> request_financials \<Rightarrow> bool" where
  "settled_as t s r \<longleftrightarrow> rf_settlement r = Some s \<and> funding_finalized r \<and> rf_capture r = rf_capture t \<and> rf_contract r = rf_contract t"

lemma settled_as_refund:
  assumes "settled_as t s r" and "settled_as t s r'" and "rf_shape r" and "rf_shape r'"
  shows "refund_operation (rf_refund r') = refund_operation (rf_refund r)"
proof -
  have "refund_due r' = refund_due r" "refund_of r' = refund_of r"
    using assms(1,2) by (auto simp: settled_as_def refund_due_def refund_of_def fun_eq_iff split: request_settlement.split)
  then show ?thesis using assms(3,4) by (simp add: rf_shape_def)
qed

lemma rf_step_settled_as:
  assumes "rf_inv c r" and "rf_step c r cmd = Ok (r', fx)" and "settled_as t s r"
  shows "settled_as t s r'"
proof -
  have sh: "rf_shape r" using assms(1) by (simp add: rf_inv_def)
  have s: "rf_settlement r' = Some s" using rf_step_settlement [OF assms(1,2)] assms(3) by (simp add: settled_as_def)
  have "rf_capture r' = rf_capture r \<and> rf_contract r' = rf_contract r \<and> funding_finalized r'"
  proof (cases cmd)
    case (SettleRequest x at)
    then have "rf_settle r x at = Ok (r', fx)" using assms(2) by (simp add: rf_step_def)
    from rf_settle_frame [OF this sh] show ?thesis using assms(3) by (simp add: settled_as_def)
  next
    case (RecordEvidence receipt)
    then have "rf_record_payment c r receipt = Ok (r', fx)" using assms(2) by (simp add: rf_step_def)
    then show ?thesis
    proof (cases rule: rf_record_payment_cases)
      case (recorded operation nxt)
      from rf_reconcile_frame [OF recorded(4) sh] show ?thesis using assms(3) by (simp add: recorded(5) settled_as_def)
    qed (use assms(3) in \<open>simp add: settled_as_def\<close>)
  qed
  then show ?thesis using s assms(3) by (simp add: settled_as_def)
qed

interpretation rf_settled: invariant_machine "rf_step c" "\<lambda>r. rf_inv c r \<and> settled_as t s r"
  by unfold_locales (use rf_step_inv rf_step_settled_as in blast)

lemma rf_step_forfeits:
  assumes "rf_inv c r" and "rf_step c r cmd = Ok (r', fx)"
  shows "uint (fv_collateral_forfeited (rf_view r')) =
     uint (fv_collateral_forfeited (rf_view r)) + forfeited_total fx"
proof (cases cmd)
  have sh: "rf_shape r" using assms(1) by (simp add: rf_inv_def)
  case (SettleRequest s at)
  then have "rf_settle r s at = Ok (r', fx)" using assms(2) by (simp add: rf_step_def)
  then show ?thesis using sh
    by (cases rule: rf_settle_cases) (auto simp: view_retained forfeited_total_def settled_with_def Let_def)
next
  have sh: "rf_shape r" using assms(1) by (simp add: rf_inv_def)
  case (RecordEvidence receipt)
  then have "rf_record_payment c r receipt = Ok (r', fx)" using assms(2) by (simp add: rf_step_def)
  then show ?thesis
  proof (cases rule: rf_record_payment_cases)
    case replay
    then show ?thesis by (simp add: forfeited_total_def)
  next
    case (recorded operation nxt)
    from recorded(4) sh have "fe_forfeitures fx = [] \<and>
      (rf_settlement nxt = Some SettledRejected \<longleftrightarrow> rf_settlement r = Some SettledRejected)"
    proof (cases rule: rf_reconcile_cases)
      case voided
      then show ?thesis using rf_shape_unfunded(2) [OF sh voided(3)] by auto
    qed (auto simp: funded_now_def Let_def)
    then show ?thesis
      using rf_reconcile_frame(2) [OF recorded(4) sh] by (simp add: recorded(5) view_retained forfeited_total_def)
  qed
qed

interpretation rf_lots: accounting_machine "rf_step c" "rf_inv c"
  "\<lambda>r _. uint (fv_collateral_forfeited (rf_view r))" "\<lambda>fx _. forfeited_total fx"
  by unfold_locales (rule rf_step_forfeits)

lemma rf_new_level: "rf_new capture contract = Ok r \<Longrightarrow> rf_level r a = 0"
  by (drule rf_new_Ok) (cases a; simp add: rf_level_def rf_flags view_retained)

text \<open>How a settlement divides the charge of a funded request.\<close>

definition share_refunded :: "request_financials \<Rightarrow> request_settlement \<Rightarrow> money" where
  "share_refunded r s =
     (case s of SettledRejected \<Rightarrow> 0 | SettledExpired \<Rightarrow> fc_collateral (rf_contract r) | _ \<Rightarrow> op_amount (rf_capture r))"

definition share_retained :: "request_financials \<Rightarrow> request_settlement \<Rightarrow> money" where
  "share_retained r s = (if s = SettledRejected \<or> s = SettledExpired then fc_processing_charge (rf_contract r) else 0)"

definition share_forfeited :: "request_financials \<Rightarrow> request_settlement \<Rightarrow> money" where
  "share_forfeited r s = (if s = SettledRejected then fc_collateral (rf_contract r) else 0)"

lemma settle_funded:
  assumes "rf_shape t" and "funding_finalized t" and "rf_settlement t = None"
  shows "\<exists>t' fx. rf_settle t s at = Ok (t', fx)
     \<and> rf_refund t' = (if share_refunded t s = 0 then RefundNone else RefundPending (refund_of t (share_refunded t s)))
     \<and> fe_operations fx = (if share_refunded t s = 0 then [] else [fc_refund_id (rf_contract t)])
     \<and> fe_postings fx = settlement_postings t s
     \<and> forfeited_total fx = uint (share_forfeited t s)"
proof -
  have none: "rf_refund t = RefundNone"
    using assms(1,3) by (cases "rf_refund t") (auto simp: rf_shape_def refund_due_def split: if_splits)
  have amount: "op_amount (rf_capture t) \<noteq> 0" using assms(1) by (rule rf_shapeD)
  have f: "funding_finalized (t\<lparr>rf_settlement := x\<rparr>)" for x using assms(2) by (simp add: rf_flags)
  show ?thesis
    by (cases s) (simp_all add: rf_settle_def assms(2,3) f none amount create_refund_def share_refunded_def share_forfeited_def
        settlement_postings_def forfeited_total_def refund_of_def batch_transfer_def Let_def)
qed

lemma settlement_flow:
  assumes "rf_shape t"
  shows "net_flow a (settlement_postings t s) =
     (if a = RequestEscrow (op_id (rf_capture t)) then - uint (op_amount (rf_capture t))
      else if a = RefundPayable (fc_refund_id (rf_contract t)) then uint (share_refunded t s)
      else if a = ProcessingRevenue then uint (share_retained t s)
      else if a = ProgramClearing (op_id (rf_capture t)) then uint (share_forfeited t s) else 0)"
  using rf_amount_split [OF assms]
  by (cases s) (auto simp: settlement_postings_def share_refunded_def share_retained_def share_forfeited_def Let_def)

section \<open>Properties\<close>

text \<open>
  C3: Double entry for one request.  Whatever settlements and processor events reach a request's
  financial record, in any order, accepted or refused, the postings it has emitted add up, for
  every account, to what the record itself says that account holds (escrow, refund payable,
  retained charge, forfeited collateral, processor clearing, loss), and the forfeiture lots it
  has emitted add up to the collateral its view reports forfeited.
\<close>

theorem request_accounts:
  assumes "rf_new capture contract = Ok r" and "run_machine (rf_step c) r cmds = (t, fxs)"
  shows "(\<forall>a. sum_list (map (\<lambda>fx. net_flow a (fe_postings fx)) fxs) = rf_level t a)
     \<and> sum_list (map forfeited_total fxs) = uint (fv_collateral_forfeited (rf_view t))"
proof -
  have inv: "rf_inv c r" using assms(1) by (rule rf_new_inv)
  have "fv_collateral_forfeited (rf_view r) = 0"
    using rf_new_Ok [OF assms(1)] by (simp add: view_retained)
  then show ?thesis
    using rf.run_level [OF inv assms(2)] rf_lots.run_level [OF inv assms(2)]
    by (simp add: rf_new_level [OF assms(1)])
qed

text \<open>
  No posting overdraws.  The batch of any further step is balanced, and in the ledger that
  the earlier batches of this request produced each debit of an obligation is covered when it
  is reached, so the ledger cannot refuse it for insufficient funds.
\<close>

theorem request_never_overdraws:
  assumes "rf_new capture contract = Ok r" and "run_machine (rf_step c) r cmds = (t, fxs)"
    and "rf_step c t cmd = Ok (t', fx)"
  shows "is_balanced (fe_postings fx)
     \<and> covered (\<lambda>a. sum_list (map (\<lambda>fx. net_flow a (fe_postings fx)) fxs)) (fe_postings fx)"
proof -
  have inv: "rf_inv c r" using assms(1) by (rule rf_new_inv)
  have "(\<lambda>a. sum_list (map (\<lambda>fx. net_flow a (fe_postings fx)) fxs)) = rf_level t"
    using rf.run_level [OF inv assms(2)] by (simp add: rf_new_level [OF assms(1)] fun_eq_iff)
  then show ?thesis
    using rf_step_level(2) [OF rf.run_inv [OF inv assms(2)] assms(3)] by (simp add: postings_ok_def)
qed

text \<open>
  Stored records restore.  Every record a run can reach passes the validation that guards
  deserialization and comes back unchanged.
\<close>

theorem request_restores:
  assumes "rf_new capture contract = Ok r"
  shows "rf_restore c (fst (run_machine (rf_step c) r cmds)) = Ok (fst (run_machine (rf_step c) r cmds))"
  by (rule rf_stored.run_restores) (rule rf_new_inv [OF assms])

text \<open>
  Exact replay is harmless.  A settlement or signed event that was accepted is accepted again
  any number of times, emits nothing and changes nothing.
\<close>

theorem request_replay:
  assumes "rf_new capture contract = Ok r" and "run_machine (rf_step c) r cmds = (t, fxs)"
    and "rf_step c t cmd = Ok (t', fx)"
  shows "\<exists>outs. run_machine (rf_step c) t' (replicate n cmd) = (t', outs) \<and> list_all (\<lambda>fx. fx = no_effects) outs"
  by (rule rf_replay.run_replicate [OF rf.run_inv [OF rf_new_inv [OF assms(1)] assms(2)] assms(3)])

text \<open>
  C11: The settlement of a funded request is decided once and divides the charge exactly.  Any of
  the four settlements is accepted while none is recorded.  It refunds the whole charge when the
  request was accepted or cancelled, the collateral when it expired and nothing when it was
  rejected, retains the processing charge when it expired or was rejected and forfeits the
  collateral only when it was rejected; the three add up to the captured amount.  The refund is
  the operation the record creates and dispatches, for exactly that amount; the record's view, the
  lots and, account by account, the postings show the same division.  Afterwards every run keeps
  that settlement and that refund and refuses every other settlement as a conflict.
\<close>

theorem request_settles_once:
  assumes "rf_new capture contract = Ok r" and "run_machine (rf_step c) r cmds = (t, fxs)"
    and "funding_finalized t" and "rf_settlement t = None"
  shows "\<exists>t' fx. rf_settle t s at = Ok (t', fx)
     \<and> uint (share_refunded t s) + uint (share_retained t s) + uint (share_forfeited t s) = uint (op_amount (rf_capture t))
     \<and> rf_refund t' = (if share_refunded t s = 0 then RefundNone else RefundPending (refund_of t (share_refunded t s)))
     \<and> fe_operations fx = (if share_refunded t s = 0 then [] else [fc_refund_id (rf_contract t)])
     \<and> fv_refund (rf_view t') = (if share_refunded t s = 0 then ViewNoRefund else ViewOwed (share_refunded t s))
     \<and> fv_processing_retained (rf_view t') = share_retained t s
     \<and> fv_collateral_forfeited (rf_view t') = share_forfeited t s
     \<and> forfeited_total fx = uint (share_forfeited t s)
     \<and> (\<forall>a. net_flow a (fe_postings fx) =
          (if a = RequestEscrow (op_id (rf_capture t)) then - uint (op_amount (rf_capture t))
           else if a = RefundPayable (fc_refund_id (rf_contract t)) then uint (share_refunded t s)
           else if a = ProcessingRevenue then uint (share_retained t s)
           else if a = ProgramClearing (op_id (rf_capture t)) then uint (share_forfeited t s) else 0))
     \<and> (\<forall>cmds' s'. rf_settlement (fst (run_machine (rf_step c) t' cmds')) = Some s
          \<and> refund_operation (rf_refund (fst (run_machine (rf_step c) t' cmds'))) = refund_operation (rf_refund t')
          \<and> (s' = s \<or> rf_settle (fst (run_machine (rf_step c) t' cmds')) s' at = Err PayDuplicateConflict))"
proof -
  have inv: "rf_inv c t" by (rule rf.run_inv [OF rf_new_inv [OF assms(1)] assms(2)])
  then have sh: "rf_shape t" by (simp add: rf_inv_def)
  obtain t' fx where ok: "rf_settle t s at = Ok (t', fx)"
    and refund: "rf_refund t' = (if share_refunded t s = 0 then RefundNone else RefundPending (refund_of t (share_refunded t s)))"
    and effects: "fe_operations fx = (if share_refunded t s = 0 then [] else [fc_refund_id (rf_contract t)])"
      "fe_postings fx = settlement_postings t s" "forfeited_total fx = uint (share_forfeited t s)"
    using settle_funded [OF sh assms(3,4)] by blast
  note f = rf_settle_frame [OF ok sh]
  have inv': "rf_inv c t'" by (rule rf_settle_inv [OF ok inv])
  have start: "settled_as t s t'" using f assms(3) by (simp add: settled_as_def)
  have later: "rf_inv c u \<and> settled_as t s u" if "u = fst (run_machine (rf_step c) t' cmds')" for u cmds'
    using that rf_settled.run_inv [OF _ prod.collapse [symmetric]] inv' start by blast
  have final: "rf_settlement u = Some s \<and> refund_operation (rf_refund u) = refund_operation (rf_refund t')
      \<and> (s' = s \<or> rf_settle u s' at = Err PayDuplicateConflict)"
    if u: "u = fst (run_machine (rf_step c) t' cmds')" for u cmds' s'
  proof -
    have "rf_settlement u = Some s" using later [OF u] by (simp add: settled_as_def)
    moreover have "refund_operation (rf_refund u) = refund_operation (rf_refund t')"
      using settled_as_refund [OF start] later [OF u] inv' by (simp add: rf_inv_def)
    ultimately show ?thesis by (simp add: rf_settle_def)
  qed
  have sum: "uint (share_refunded t s) + uint (share_retained t s) + uint (share_forfeited t s) = uint (op_amount (rf_capture t))"
    using rf_amount_split [OF sh] by (cases s) (simp_all add: share_refunded_def share_retained_def share_forfeited_def)
  have view: "fv_refund (rf_view t') = (if share_refunded t s = 0 then ViewNoRefund else ViewOwed (share_refunded t s))"
    by (simp add: rf_view_def refund Let_def split: prod.split)
  have kept: "fv_processing_retained (rf_view t') = share_retained t s" "fv_collateral_forfeited (rf_view t') = share_forfeited t s"
    using f(2,5) by (simp_all add: view_retained share_retained_def share_forfeited_def)
  note flow = settlement_flow [OF sh, of _ s, unfolded effects(2) [symmetric]]
  show ?thesis
    by (intro exI [of _ t'] exI [of _ fx] conjI allI)
      (rule ok sum refund effects(1) view kept effects(3) flow final [OF refl, THEN conjunct1]
        final [OF refl, THEN conjunct2, THEN conjunct1] final [OF refl, THEN conjunct2, THEN conjunct2])+
qed

section \<open>A concrete request\<close>

definition sample_contract :: financial_contract where
  "sample_contract = \<lparr>fc_refund_id = 8, fc_processing_charge = 2, fc_collateral = 10,
     fc_terms = sample_terms, fc_provider_key = 9\<rparr>"

definition sample_record :: request_financials where
  "sample_record = \<lparr>rf_capture = sample_capture, rf_capture_status = CapPending, rf_refund = RefundNone,
          rf_events = bt_empty, rf_contract = sample_contract, rf_settlement = None\<rparr>"

definition sample_funded_record :: request_financials where
  "sample_funded_record = sample_record\<lparr>rf_capture_status := CapFundingFinalized,
     rf_events := bt_insert 1 (spe_evidence (sample_receipt 1 sample_capture OutSettled)) bt_empty\<rparr>"

definition sample_fund :: rf_command where
  "sample_fund = RecordEvidence (sample_receipt 1 sample_capture OutSettled)"

lemma sample_record_new: "rf_new sample_capture sample_contract = Ok sample_record"
  by (simp add: rf_new_def operation_validate_def sample_capture_def sample_contract_def sample_terms_def
      terms_validate_def money_checked_add_def checked_add_def sample_record_def)

lemma sample_fund_step:
  "rf_step sample_crypto sample_record sample_fund =
     Ok (sample_funded_record, no_effects\<lparr>fe_postings := batch_transfer ProcessorClearing (RequestEscrow 7) 12 []\<rparr>)"
  by (simp add: rf_step_def sample_fund_def rf_record_payment_def rf_operation_def sample_record_def
      sample_receipt_verifies sample_capture_def [THEN arg_cong [of _ _ op_id]]
      sample_capture_def [THEN arg_cong [of _ _ op_kind]] sample_capture_def [THEN arg_cong [of _ _ op_amount]]
      rf_reconcile_def rf_flags sample_funded_record_def Let_def)

lemma sample_run:
  "run_machine (rf_step sample_crypto) sample_record [sample_fund] =
     (sample_funded_record, [no_effects\<lparr>fe_postings := batch_transfer ProcessorClearing (RequestEscrow 7) 12 []\<rparr>])"
  by (simp add: sample_fund_step)

lemma sample_settles: "is_ok (rf_step sample_crypto sample_funded_record (SettleRequest SettledExpired 100))"
  by (simp add: rf_step_def rf_settle_def sample_funded_record_def sample_record_def create_refund_def
      rf_flags Let_def)

lemma request_accounts_witness:
  "rf_level sample_funded_record (RequestEscrow 7) = 12"
  using request_accounts [OF sample_record_new sample_run, THEN conjunct1, rule_format, of "RequestEscrow 7"]
  by simp

lemma request_never_overdraws_witness:
  "\<exists>t' fx. rf_step sample_crypto sample_funded_record (SettleRequest SettledExpired 100) = Ok (t', fx)
     \<and> is_balanced (fe_postings fx)"
proof -
  obtain t' fx where s: "rf_step sample_crypto sample_funded_record (SettleRequest SettledExpired 100) = Ok (t', fx)"
    using sample_settles by (auto elim: is_okE)
  show ?thesis using request_never_overdraws [OF sample_record_new sample_run s] s by blast
qed

lemma request_restores_witness:
  "rf_restore sample_crypto sample_funded_record = Ok sample_funded_record"
  using request_restores [OF sample_record_new, of sample_crypto "[sample_fund]"] by (simp only: sample_run fst_conv)

lemma request_replay_witness:
  "\<exists>t' outs. run_machine (rf_step sample_crypto) t' (replicate 2 (SettleRequest SettledExpired 100)) = (t', outs)
     \<and> rf_settlement sample_funded_record = None"
proof -
  obtain t' fx where s: "rf_step sample_crypto sample_funded_record (SettleRequest SettledExpired 100) = Ok (t', fx)"
    using sample_settles by (auto elim: is_okE)
  show ?thesis using request_replay [OF sample_record_new sample_run s, of 2]
    by (auto simp: sample_funded_record_def sample_record_def)
qed

lemma request_settles_once_witness:
  "\<exists>t' fx. rf_settle sample_funded_record SettledExpired 100 = Ok (t', fx)
     \<and> fv_refund (rf_view t') = ViewOwed 10 \<and> fe_operations fx = [8]
     \<and> net_flow (RefundPayable 8) (fe_postings fx) = 10 \<and> net_flow (RequestEscrow 7) (fe_postings fx) = - 12"
  using request_settles_once [OF sample_record_new sample_run, of SettledExpired 100]
  by (auto simp: sample_funded_record_def sample_record_def sample_capture_def sample_contract_def rf_flags share_refunded_def)

end
