(* ===== verification/Capabilities.thy ===== *)
theory Capabilities
  imports Primitives Crypto
begin

text \<open>
  Recipient-granted communication lanes: \<open>crates/cs-mail-capabilities/src\<close> (\<open>lib.rs\<close>,
  \<open>reply.rs\<close>) and the domain identities of \<open>crates/cs-mail-adapters/src/lib.rs\<close> they name.  A
  lane is activated from a grant, authorizes and consumes messages within a rate limit, reaches
  its horizon, is reconfirmed or revoked.  The lemmas show that every operation keeps the lane
  within the validation that guards stored lanes, bound the admitted messages over time, and
  show that revocation is final.
\<close>

section \<open>Domain identities\<close>

definition ascii_lower :: "u8 \<Rightarrow> u8" where
  "ascii_lower b = (if 65 \<le> b \<and> b \<le> 90 then b + 32 else b)"

definition trim_end_dots :: "bytes \<Rightarrow> bytes" where
  "trim_end_dots bs = rev (dropWhile (\<lambda>b. b = 46) (rev bs))"

text \<open>\<open>split('.')\<close>: the labels between dots, one more than there are dots.\<close>

fun split_dots :: "bytes \<Rightarrow> bytes list" where
  "split_dots [] = [[]]"
| "split_dots (b # bs) =
     (if b = 46 then [] # split_dots bs
      else (case split_dots bs of [] \<Rightarrow> [[b]] | l # ls \<Rightarrow> (b # l) # ls))"

definition domain_byte :: "u8 \<Rightarrow> bool" where
  "domain_byte b \<longleftrightarrow> (97 \<le> b \<and> b \<le> 122) \<or> (65 \<le> b \<and> b \<le> 90) \<or> (48 \<le> b \<and> b \<le> 57) \<or> b = 45"

definition valid_label :: "bytes \<Rightarrow> bool" where
  "valid_label l \<longleftrightarrow> l \<noteq> [] \<and> length l \<le> 63 \<and> hd l \<noteq> 45 \<and> last l \<noteq> 45 \<and> list_all domain_byte l"

datatype domain_error = InvalidDomain

text \<open>A \<open>DomainIdentity\<close> is the normalized name's bytes.\<close>

definition parse_ascii :: "bytes \<Rightarrow> (bytes, domain_error) res" where
  "parse_ascii input =
     (let normalized = map ascii_lower (trim_end_dots input) in
      fail_if (normalized = [] \<or> length normalized > 253 \<or> \<not> list_all (\<lambda>b. b < 128) input) InvalidDomain
      (fail_if (\<not> list_all valid_label (split_dots normalized)) InvalidDomain
      (Ok normalized)))"

definition is_self_or_subdomain_of :: "bytes \<Rightarrow> bytes \<Rightarrow> bool" where
  "is_self_or_subdomain_of d parent \<longleftrightarrow>
     d = parent
     \<or> (length parent \<le> length d \<and> drop (length d - length parent) d = parent
        \<and> (let prefix = take (length d - length parent) d in prefix \<noteq> [] \<and> last prefix = 46))"

definition synthetic_protocol_identity :: "crypto \<Rightarrow> bytes \<Rightarrow> bytes32 \<Rightarrow> u16 \<Rightarrow> protocol_identity" where
  "synthetic_protocol_identity c d deployment mapping_version =
     high_u128 (cr_sha256 c (str_bytes ''cs-mail/legacy-domain-identity/v1''
       @ be_bytes 32 deployment @ be_bytes 2 mapping_version @ d))"

datatype dmarc_alignment = AlignStrict | AlignRelaxed

record verified_domain =
  vd_author_domain :: bytes
  vd_dkim :: "dmarc_alignment option"
  vd_spf :: "dmarc_alignment option"
  vd_evaluated_at :: canonical_time

record legacy_dmarc_evidence =
  le_format_version :: u16
  le_lane_domain :: bytes
  le_verification :: verified_domain

datatype dmarc_evidence_error = NoPassingMechanism | OutsideLaneDomain

definition verified_domain_passed ::
  "bytes \<Rightarrow> dmarc_alignment option \<Rightarrow> dmarc_alignment option \<Rightarrow> canonical_time
     \<Rightarrow> (verified_domain, dmarc_evidence_error) res" where
  "verified_domain_passed author dkim spf at =
     fail_if (dkim = None \<and> spf = None) NoPassingMechanism
     (Ok \<lparr>vd_author_domain = author, vd_dkim = dkim, vd_spf = spf, vd_evaluated_at = at\<rparr>)"

definition legacy_evidence_new ::
  "bytes \<Rightarrow> verified_domain \<Rightarrow> (legacy_dmarc_evidence, dmarc_evidence_error) res" where
  "legacy_evidence_new lane_domain v =
     fail_if (\<not> is_self_or_subdomain_of (vd_author_domain v) lane_domain) OutsideLaneDomain
     (Ok \<lparr>le_format_version = 1, le_lane_domain = lane_domain, le_verification = v\<rparr>)"

section \<open>Grants\<close>

datatype lane_subject =
  SubjNative bytes32
| SubjLegacyDomain bytes
| is_guest_subject: SubjGuestMailbox protocol_identity

datatype lane_mode = Expiring | Persistent

datatype authority_constraint = OnlyNativeSender | OnlyLegacyGateway | OnlyGuestGateway

definition constraint_matches :: "authority_constraint \<Rightarrow> declaration_authority \<Rightarrow> bool" where
  "constraint_matches c authority =
     (case (c, authority) of
        (OnlyNativeSender, NativeSender _) \<Rightarrow> True
      | (OnlyLegacyGateway, LegacyGateway _) \<Rightarrow> True
      | (OnlyLegacyGateway, GuestSmtp _) \<Rightarrow> True
      | (OnlyGuestGateway, GuestGateway _) \<Rightarrow> True
      | (OnlyGuestGateway, GuestSmtp _) \<Rightarrow> True
      | _ \<Rightarrow> False)"

record rate_limit =
  rl_max_messages :: u32
  rl_interval :: duration

definition rate_limit_valid :: "rate_limit \<Rightarrow> bool" where
  "rate_limit_valid r \<longleftrightarrow> rl_max_messages r > 0 \<and> rl_interval r > 0"

datatype capability_error =
  CapInvalidGrant | CapInvalidPublicKey | CapInvalidSignature | CapDuplicateConflict
| CapMissingLane | CapNotAuthorized | CapRateLimitExceeded | CapCapacityExceeded
| CapArithmeticOverflow | CapInvalidDeclaration | CapScopeMismatch | CapMessageValidityClosed
| CapUnsupportedCriticalExtension | CapUnsupportedWireVersion

record sender_scoped_grant =
  gr_id :: lane_id
  gr_subject :: lane_subject
  gr_sender :: protocol_identity
  gr_recipient :: protocol_identity
  gr_protocol_version :: protocol_version
  gr_deployment_domain :: bytes32
  gr_intended_provider :: provider_ref
  gr_recipient_operational_key :: operational_key_ref
  gr_purpose :: declared_purpose
  gr_origin :: "origin_mode option"
  gr_declaration_authority :: authority_constraint
  gr_lifetime :: duration
  gr_rate_limit :: rate_limit
  gr_mode :: lane_mode
  gr_issued_at :: canonical_time
  gr_not_before :: canonical_time
  gr_not_after :: canonical_time
  gr_version :: version

definition authority_matches_subject :: "lane_subject \<Rightarrow> authority_constraint \<Rightarrow> bool" where
  "authority_matches_subject s a =
     (case (s, a) of
        (SubjNative _, OnlyNativeSender) \<Rightarrow> True
      | (SubjLegacyDomain _, OnlyLegacyGateway) \<Rightarrow> True
      | (SubjGuestMailbox _, OnlyGuestGateway) \<Rightarrow> True
      | _ \<Rightarrow> False)"

definition grant_validate :: "sender_scoped_grant \<Rightarrow> (unit, capability_error) res" where
  "grant_validate g =
     and_then (map_err (\<lambda>_. CapInvalidDeclaration) (purpose_validate (gr_purpose g))) (\<lambda>_.
     fail_if (gr_id g = 0 \<or> gr_sender g = 0 \<or> gr_recipient g = 0 \<or> gr_intended_provider g = 0
        \<or> gr_recipient_operational_key g = 0
        \<or> (case gr_subject g of SubjGuestMailbox p \<Rightarrow> p = 0 \<or> p \<noteq> gr_sender g | _ \<Rightarrow> False)
        \<or> gr_lifetime g = 0 \<or> gr_protocol_version g = 0
        \<or> \<not> rate_limit_valid (gr_rate_limit g)
        \<or> gr_not_before g < gr_issued_at g \<or> gr_not_after g \<le> gr_not_before g
        \<or> \<not> authority_matches_subject (gr_subject g) (gr_declaration_authority g)
        \<or> (gr_declaration_authority g = OnlyLegacyGateway
            \<and> (case gr_origin g of Some origin \<Rightarrow> origin \<noteq> LegacyOrUnspecified | None \<Rightarrow> False)))
       CapInvalidGrant (Ok ()))"

definition push_bytes :: "bytes \<Rightarrow> bytes \<Rightarrow> (bytes, capability_error) res" where
  "push_bytes target bs =
     and_then (ok_or (try_word (int (length bs)) :: u32 option) CapInvalidGrant)
       (\<lambda>len. Ok (target @ be_bytes 4 len @ bs))"

definition subject_append :: "lane_subject \<Rightarrow> bytes \<Rightarrow> (bytes, capability_error) res" where
  "subject_append s bs =
     (case s of
        SubjGuestMailbox identity \<Rightarrow> Ok (bs @ 2 # be_bytes 16 identity)
      | SubjNative handle \<Rightarrow> Ok (bs @ 0 # be_bytes 32 handle)
      | SubjLegacyDomain d \<Rightarrow> push_bytes (bs @ [1]) d)"

primrec constraint_code :: "authority_constraint \<Rightarrow> u8" where
  "constraint_code OnlyNativeSender = 0"
| "constraint_code OnlyLegacyGateway = 1"
| "constraint_code OnlyGuestGateway = 2"

definition grant_signing_bytes :: "sender_scoped_grant \<Rightarrow> (bytes, capability_error) res" where
  "grant_signing_bytes g =
     and_then (grant_validate g) (\<lambda>_.
     and_then (subject_append (gr_subject g)
         (str_bytes ''cs-mail/lane-grant/v2'' @ be_bytes 16 (gr_id g))) (\<lambda>bs.
     let bs = bs @ be_bytes 16 (gr_sender g) @ be_bytes 16 (gr_recipient g)
         @ be_bytes 2 (gr_protocol_version g) @ be_bytes 32 (gr_deployment_domain g)
         @ be_bytes 16 (gr_intended_provider g) @ be_bytes 16 (gr_recipient_operational_key g) in
     and_then (map_err (\<lambda>_. CapInvalidDeclaration) (purpose_append (gr_purpose g) bs)) (\<lambda>bs.
     Ok (bs @ (case gr_origin g of Some origin \<Rightarrow> [1, origin_mode_code origin] | None \<Rightarrow> [0])
        @ [constraint_code (gr_declaration_authority g)]
        @ be_bytes 8 (gr_lifetime g) @ be_bytes 4 (rl_max_messages (gr_rate_limit g))
        @ be_bytes 8 (rl_interval (gr_rate_limit g))
        @ [case gr_mode g of Expiring \<Rightarrow> 0 | Persistent \<Rightarrow> 1]
        @ be_bytes 8 (gr_issued_at g) @ be_bytes 8 (gr_not_before g)
        @ be_bytes 8 (gr_not_after g) @ be_bytes 8 (gr_version g)))))"

record signed_lane_grant =
  sg_grant :: sender_scoped_grant
  sg_signature :: bytes

definition signed_grant_verify ::
  "crypto \<Rightarrow> signed_lane_grant \<Rightarrow> bytes32 \<Rightarrow> (unit, capability_error) res" where
  "signed_grant_verify c s key =
     fail_if (\<not> cr_key_parses c key) CapInvalidPublicKey
     (and_then (grant_signing_bytes (sg_grant s)) (\<lambda>bs.
      fail_if (\<not> cr_verify c key bs (sg_signature s)) CapInvalidSignature (Ok ())))"

section \<open>Lane control\<close>

datatype lane_control_action = ControlReconfirm | ControlRevoke

record lane_control =
  lc_lane_id :: lane_id
  lc_recipient :: protocol_identity
  lc_action :: lane_control_action
  lc_expected_version :: version
  lc_idempotency_key :: idempotency_key
  lc_protocol_version :: protocol_version
  lc_deployment_domain :: bytes32
  lc_intended_provider :: provider_ref
  lc_recipient_operational_key :: operational_key_ref

definition control_signing_bytes :: "lane_control \<Rightarrow> bytes" where
  "control_signing_bytes k =
     str_bytes ''cs-mail/lane-control/v1''
     @ be_bytes 16 (lc_lane_id k) @ be_bytes 16 (lc_recipient k)
     @ [case lc_action k of ControlReconfirm \<Rightarrow> 0 | ControlRevoke \<Rightarrow> 1]
     @ be_bytes 8 (lc_expected_version k) @ be_bytes 16 (lc_idempotency_key k)
     @ be_bytes 2 (lc_protocol_version k) @ be_bytes 32 (lc_deployment_domain k)
     @ be_bytes 16 (lc_intended_provider k) @ be_bytes 16 (lc_recipient_operational_key k)"

record signed_lane_control =
  slc_control :: lane_control
  slc_signature :: bytes

definition signed_control_verify ::
  "crypto \<Rightarrow> signed_lane_control \<Rightarrow> bytes32 \<Rightarrow> (unit, capability_error) res" where
  "signed_control_verify c s key =
     fail_if (\<not> cr_key_parses c key) CapInvalidPublicKey
     (fail_if (\<not> cr_verify c key (control_signing_bytes (slc_control s)) (slc_signature s))
        CapInvalidSignature (Ok ()))"

section \<open>Lanes\<close>

datatype lane_state = LaneActive | LaneAwaitingReconfirmation | LaneExpired | LaneRevoked

datatype lane_authority =
  RecipientGrant
| RequestAcceptance request_id scoped_ref event_ref event_ref

record sender_scoped_lane =
  ln_authority :: lane_authority
  ln_grant :: sender_scoped_grant
  ln_state :: lane_state
  ln_last_activity :: canonical_time
  ln_horizon_at :: canonical_time
  ln_rate_window_started_at :: canonical_time
  ln_messages_in_rate_window :: u32
  ln_version :: version
  ln_admitted_messages :: "message_id fset"

text \<open>\<open>TryFrom<LaneRecord>\<close>; the record has the fields of the lane.\<close>

definition lane_restore :: "sender_scoped_lane \<Rightarrow> (sender_scoped_lane, capability_error) res" where
  "lane_restore r =
     and_then (grant_validate (ln_grant r)) (\<lambda>_.
     fail_if (case ln_authority r of
         RequestAcceptance request _ creation acceptance \<Rightarrow> request = 0 \<or> creation = 0 \<or> acceptance = 0
       | RecipientGrant \<Rightarrow> False) CapInvalidGrant
     (and_then (ok_or (time_checked_add (ln_last_activity r) (gr_lifetime (ln_grant r)))
         CapArithmeticOverflow) (\<lambda>until.
      let activity_horizon = min until (gr_not_after (ln_grant r)) in
      and_then (ok_or (try_word (int (fcard (ln_admitted_messages r))) :: u64 option) CapInvalidGrant)
        (\<lambda>admitted.
      fail_if
        (ln_last_activity r < gr_issued_at (ln_grant r)
         \<or> ln_last_activity r \<ge> gr_not_after (ln_grant r)
         \<or> ln_rate_window_started_at r < gr_issued_at (ln_grant r)
         \<or> ln_rate_window_started_at r > ln_last_activity r
         \<or> time_checked_add (ln_rate_window_started_at r) (rl_interval (gr_rate_limit (ln_grant r))) = None
         \<or> ln_horizon_at r < activity_horizon
         \<or> ln_horizon_at r > gr_not_after (ln_grant r)
         \<or> (gr_mode (ln_grant r) = Expiring \<and> ln_horizon_at r \<noteq> activity_horizon)
         \<or> (ln_state r = LaneAwaitingReconfirmation \<and> gr_mode (ln_grant r) \<noteq> Expiring)
         \<or> (ln_state r \<noteq> LaneActive \<and> ln_version r = 0)
         \<or> ln_messages_in_rate_window r > rl_max_messages (gr_rate_limit (ln_grant r))
         \<or> unat (ln_messages_in_rate_window r) > unat admitted
         \<or> (admitted > 0 \<and> ln_messages_in_rate_window r = 0)
         \<or> ln_version r < admitted
         \<or> fBex (ln_admitted_messages r) (\<lambda>m. m = 0)) CapInvalidGrant
      (Ok r)))))"

definition lane_from_grant :: "sender_scoped_grant \<Rightarrow> (sender_scoped_lane, capability_error) res" where
  "lane_from_grant g =
     and_then (grant_validate g) (\<lambda>_.
     and_then (ok_or (time_checked_add (gr_issued_at g) (gr_lifetime g)) CapArithmeticOverflow) (\<lambda>until.
     and_then (ok_or (time_checked_add (gr_issued_at g) (rl_interval (gr_rate_limit g)))
       CapArithmeticOverflow) (\<lambda>_.
     Ok \<lparr>ln_authority = RecipientGrant, ln_grant = g, ln_state = LaneActive,
         ln_last_activity = gr_issued_at g, ln_horizon_at = min until (gr_not_after g),
         ln_rate_window_started_at = gr_issued_at g, ln_messages_in_rate_window = 0,
         ln_version = 0, ln_admitted_messages = {||}\<rparr>)))"

text \<open>\<open>VerifiedLaneGrant::verify\<close> followed by \<open>activate\<close>.\<close>

definition lane_activate ::
  "crypto \<Rightarrow> signed_lane_grant \<Rightarrow> bytes32 \<Rightarrow> (sender_scoped_lane, capability_error) res" where
  "lane_activate c s key = and_then (signed_grant_verify c s key) (\<lambda>_. lane_from_grant (sg_grant s))"

definition lane_schedule_change :: "sender_scoped_lane \<Rightarrow> schedule_change" where
  "lane_schedule_change l = Schedule (LaneHorizon (gr_id (ln_grant l))) (ln_horizon_at l)"

definition provides_relationship_access :: "sender_scoped_lane \<Rightarrow> canonical_time \<Rightarrow> bool" where
  "provides_relationship_access l now \<longleftrightarrow>
     ln_state l = LaneActive \<and> now \<ge> gr_issued_at (ln_grant l) \<and> now < gr_not_after (ln_grant l)
     \<and> (gr_mode (ln_grant l) \<noteq> Expiring \<or> now < ln_horizon_at l)"

definition lane_is_current :: "sender_scoped_lane \<Rightarrow> canonical_time \<Rightarrow> bool" where
  "lane_is_current l now \<longleftrightarrow>
     ln_state l = LaneActive \<and> now \<ge> gr_not_before (ln_grant l) \<and> now < gr_not_after (ln_grant l)
     \<and> (gr_mode (ln_grant l) \<noteq> Expiring \<or> now < ln_horizon_at l)"

datatype lane_evidence =
  EvNative bytes32
| EvLegacy legacy_dmarc_evidence
| EvGuestMailbox protocol_identity

definition evidence_matches :: "lane_evidence \<Rightarrow> lane_subject \<Rightarrow> bool" where
  "evidence_matches e s =
     (case (e, s) of
        (EvGuestMailbox a, SubjGuestMailbox b) \<Rightarrow> a = b
      | (EvNative a, SubjNative b) \<Rightarrow> a = b
      | (EvLegacy a, SubjLegacyDomain b) \<Rightarrow> le_lane_domain a = b
      | _ \<Rightarrow> False)"

definition lane_authorizes ::
  "sender_scoped_lane \<Rightarrow> protocol_identity \<Rightarrow> protocol_identity \<Rightarrow> lane_id option
     \<Rightarrow> message_declarations \<Rightarrow> lane_evidence \<Rightarrow> canonical_time \<Rightarrow> (unit, capability_error) res" where
  "lane_authorizes l sender recipient capability declarations evidence now =
     and_then (map_err (\<lambda>_. CapInvalidDeclaration) (declarations_validate declarations)) (\<lambda>_.
     fail_if (capability \<noteq> Some (gr_id (ln_grant l))
        \<or> md_purpose declarations \<noteq> gr_purpose (ln_grant l)
        \<or> (case gr_origin (ln_grant l) of Some origin \<Rightarrow> origin \<noteq> od_mode (md_origin declarations)
            | None \<Rightarrow> False)
        \<or> \<not> constraint_matches (gr_declaration_authority (ln_grant l)) (od_authority (md_origin declarations)))
       CapScopeMismatch
     (fail_if (ln_state l \<noteq> LaneActive
        \<or> sender \<noteq> gr_sender (ln_grant l) \<or> recipient \<noteq> gr_recipient (ln_grant l)
        \<or> now < gr_not_before (ln_grant l) \<or> now \<ge> gr_not_after (ln_grant l)
        \<or> (gr_mode (ln_grant l) = Expiring \<and> now \<ge> ln_horizon_at l)
        \<or> \<not> evidence_matches evidence (gr_subject (ln_grant l))) CapNotAuthorized
     (Ok ())))"

definition lane_consume ::
  "sender_scoped_lane \<Rightarrow> message_id \<Rightarrow> lane_id option \<Rightarrow> message_declarations \<Rightarrow> lane_evidence
     \<Rightarrow> canonical_time \<Rightarrow> (sender_scoped_lane \<times> bool, capability_error) res" where
  "lane_consume l message capability declarations evidence now =
     and_then (lane_authorizes l (gr_sender (ln_grant l)) (gr_recipient (ln_grant l)) capability
        declarations evidence now) (\<lambda>_.
     if message |\<in>| ln_admitted_messages l then Ok (l, True)
     else
       and_then (ok_or (time_checked_add (ln_rate_window_started_at l)
          (rl_interval (gr_rate_limit (ln_grant l)))) CapArithmeticOverflow) (\<lambda>rate_window_end.
       fail_if (message = 0 \<or> now < ln_last_activity l) CapNotAuthorized
       (and_then (if now \<ge> rate_window_end
            then and_then (ok_or (time_checked_add now (rl_interval (gr_rate_limit (ln_grant l))))
              CapArithmeticOverflow) (\<lambda>_. Ok (now, 0))
            else Ok (ln_rate_window_started_at l, ln_messages_in_rate_window l)) (\<lambda>(window, count).
        fail_if (count \<ge> rl_max_messages (gr_rate_limit (ln_grant l))) CapRateLimitExceeded
        (and_then (ok_or (checked_add count 1) CapArithmeticOverflow) (\<lambda>count.
         and_then (ok_or (time_checked_add now (gr_lifetime (ln_grant l))) CapArithmeticOverflow) (\<lambda>until.
         and_then (ok_or (version_checked_next (ln_version l)) CapArithmeticOverflow) (\<lambda>ver.
         Ok (l\<lparr>ln_rate_window_started_at := window, ln_messages_in_rate_window := count,
               ln_last_activity := now, ln_horizon_at := min until (gr_not_after (ln_grant l)),
               ln_version := ver, ln_admitted_messages := finsert message (ln_admitted_messages l)\<rparr>,
             False)))))))))"

datatype horizon_effect = HorizonNone | ReconfirmationRequired | ReviewReminder

definition lane_reach_horizon ::
  "sender_scoped_lane \<Rightarrow> canonical_time \<Rightarrow> (sender_scoped_lane \<times> horizon_effect, capability_error) res" where
  "lane_reach_horizon l now =
     (if now < ln_horizon_at l \<or> ln_state l \<noteq> LaneActive then Ok (l, HorizonNone)
      else
        and_then (ok_or (version_checked_next (ln_version l)) CapArithmeticOverflow) (\<lambda>ver.
        and_then (if gr_mode (ln_grant l) = Persistent \<and> now < gr_not_after (ln_grant l)
            then and_then (ok_or (time_checked_add now (gr_lifetime (ln_grant l))) CapArithmeticOverflow)
              (\<lambda>until. Ok (min until (gr_not_after (ln_grant l))))
            else Ok (ln_horizon_at l)) (\<lambda>horizon.
        let l = l\<lparr>ln_version := ver\<rparr> in
        if now \<ge> gr_not_after (ln_grant l)
        then Ok (l\<lparr>ln_state := LaneExpired\<rparr>, ReconfirmationRequired)
        else case gr_mode (ln_grant l) of
            Expiring \<Rightarrow> Ok (l\<lparr>ln_state := LaneAwaitingReconfirmation\<rparr>, ReconfirmationRequired)
          | Persistent \<Rightarrow> Ok (l\<lparr>ln_horizon_at := horizon\<rparr>, ReviewReminder))))"

definition lane_revoke :: "sender_scoped_lane \<Rightarrow> (sender_scoped_lane, capability_error) res" where
  "lane_revoke l =
     (if ln_state l = LaneRevoked then Ok l
      else and_then (ok_or (version_checked_next (ln_version l)) CapArithmeticOverflow)
        (\<lambda>ver. Ok (l\<lparr>ln_state := LaneRevoked, ln_version := ver\<rparr>)))"

record lane_revocation =
  lr_expected_version :: version
  lr_lane :: sender_scoped_lane

definition revocation_restore :: "lane_revocation \<Rightarrow> (lane_revocation, capability_error) res" where
  "revocation_restore r =
     fail_if (ln_state (lr_lane r) \<noteq> LaneRevoked
        \<or> version_checked_next (lr_expected_version r) \<noteq> Some (ln_version (lr_lane r)))
       CapInvalidGrant (Ok r)"

definition plan_revocation :: "sender_scoped_lane \<Rightarrow> (lane_revocation option, capability_error) res" where
  "plan_revocation l =
     (if ln_state l = LaneRevoked then Ok None
      else and_then (lane_revoke l) (\<lambda>next.
        Ok (Some \<lparr>lr_expected_version = ln_version l, lr_lane = next\<rparr>)))"

definition lane_reconfirm :: "sender_scoped_lane \<Rightarrow> canonical_time \<Rightarrow> (sender_scoped_lane, capability_error) res" where
  "lane_reconfirm l now =
     fail_if (ln_state l \<noteq> LaneAwaitingReconfirmation \<or> now \<ge> gr_not_after (ln_grant l)
        \<or> now < ln_horizon_at l) CapNotAuthorized
     (and_then (ok_or (time_checked_add now (gr_lifetime (ln_grant l))) CapArithmeticOverflow) (\<lambda>until.
      and_then (ok_or (version_checked_next (ln_version l)) CapArithmeticOverflow) (\<lambda>ver.
      Ok (l\<lparr>ln_state := LaneActive, ln_last_activity := now,
            ln_horizon_at := min until (gr_not_after (ln_grant l)), ln_version := ver\<rparr>))))"

section \<open>Reply lanes\<close>

record reply_lane_terms =
  rt_lifetime :: duration
  rt_rate_limit :: rate_limit
  rt_purpose :: declared_purpose

definition reply_terms_new :: "reply_lane_terms \<Rightarrow> (reply_lane_terms, capability_error) res" where
  "reply_terms_new r =
     fail_if (rt_lifetime r = 0 \<or> \<not> rate_limit_valid (rt_rate_limit r)) CapInvalidGrant
     (and_then (map_err (\<lambda>_. CapInvalidDeclaration) (purpose_validate (rt_purpose r))) (\<lambda>_. Ok r))"

record reply_acceptance =
  ra_request :: request_id
  ra_originating_relationship :: scoped_ref
  ra_reverse_relationship :: scoped_ref
  ra_sender :: protocol_identity
  ra_recipient :: protocol_identity
  ra_creation_key :: operational_key_ref
  ra_creation_event :: event_ref
  ra_acceptance_event :: event_ref
  ra_at :: canonical_time
  ra_version :: version
  ra_deployment :: bytes32
  ra_protocol_version :: protocol_version
  ra_provider :: provider_ref

definition accepted_lane_id :: "crypto \<Rightarrow> reply_acceptance \<Rightarrow> lane_id" where
  "accepted_lane_id c a =
     (high_u128 (cr_sha256 c (str_bytes ''cs-mail/accepted-reply-lane/v1''
        @ be_bytes 32 (ra_deployment a) @ be_bytes 32 (sr_bytes (ra_originating_relationship a))
        @ be_bytes 16 (ra_request a)))) OR 1"

definition accepted_lane ::
  "crypto \<Rightarrow> reply_lane_terms \<Rightarrow> reply_acceptance \<Rightarrow> (sender_scoped_lane, capability_error) res" where
  "accepted_lane c t a =
     fail_if (ra_request a = 0 \<or> ra_creation_key a = 0 \<or> ra_creation_event a = 0 \<or> ra_acceptance_event a = 0)
       CapInvalidGrant
     (and_then (ok_or (time_checked_add (ra_at a) (rt_lifetime t)) CapArithmeticOverflow) (\<lambda>not_after.
      and_then (lane_from_grant
        \<lparr>gr_id = accepted_lane_id c a,
         gr_subject = SubjNative (sr_bytes (ra_reverse_relationship a)),
         gr_sender = ra_recipient a, gr_recipient = ra_sender a,
         gr_protocol_version = ra_protocol_version a, gr_deployment_domain = ra_deployment a,
         gr_intended_provider = ra_provider a, gr_recipient_operational_key = ra_creation_key a,
         gr_purpose = rt_purpose t, gr_origin = Some HumanInitiated,
         gr_declaration_authority = OnlyNativeSender, gr_lifetime = rt_lifetime t,
         gr_rate_limit = rt_rate_limit t, gr_mode = Expiring, gr_issued_at = ra_at a,
         gr_not_before = ra_at a, gr_not_after = not_after, gr_version = ra_version a\<rparr>) (\<lambda>lane.
      Ok (lane\<lparr>ln_authority := RequestAcceptance (ra_request a) (ra_originating_relationship a)
           (ra_creation_event a) (ra_acceptance_event a)\<rparr>))))"

section \<open>The bounded lane book\<close>

record lane_book =
  lb_max_records :: nat
  lb_lanes :: "(lane_id, sender_scoped_lane) btmap"
  lb_operations :: "(idempotency_key, sender_scoped_grant) btmap"

definition lane_book_new :: "nat \<Rightarrow> lane_book" where
  "lane_book_new n = \<lparr>lb_max_records = n, lb_lanes = bt_empty, lb_operations = bt_empty\<rparr>"

definition lane_book_grant ::
  "crypto \<Rightarrow> lane_book \<Rightarrow> signed_lane_grant \<Rightarrow> bytes32 \<Rightarrow> idempotency_key
     \<Rightarrow> (lane_book \<times> schedule_change, capability_error) res" where
  "lane_book_grant c b s key idempotency =
     and_then (signed_grant_verify c s key) (\<lambda>_.
     case bt_get (lb_operations b) idempotency of
       Some existing \<Rightarrow>
         if existing = sg_grant s
         then map_ok (\<lambda>l. (b, lane_schedule_change l)) (ok_or (bt_get (lb_lanes b) (gr_id existing)) CapMissingLane)
         else Err CapDuplicateConflict
     | None \<Rightarrow>
         fail_if (bt_len (lb_lanes b) \<ge> lb_max_records b \<and> \<not> bt_has (lb_lanes b) (gr_id (sg_grant s)))
           CapCapacityExceeded
         (and_then (lane_from_grant (sg_grant s)) (\<lambda>lane.
          let i = gr_id (ln_grant lane) in
          and_then (case bt_get (lb_lanes b) i of
              Some existing \<Rightarrow> if existing = lane then Ok (lb_lanes b) else Err CapDuplicateConflict
            | None \<Rightarrow> Ok (bt_insert i lane (lb_lanes b))) (\<lambda>lanes.
          map_ok (\<lambda>l. (b\<lparr>lb_lanes := lanes,
                 lb_operations := bt_insert idempotency (sg_grant s) (lb_operations b)\<rparr>,
               lane_schedule_change l)) (or_panic (bt_get lanes i))))))"

section \<open>Every operation keeps a lane valid\<close>

datatype lane_command =
  ConsumeMessage message_id "lane_id option" message_declarations lane_evidence canonical_time
| ReachHorizon canonical_time
| RevokeLane
| ReconfirmLane canonical_time

text \<open>The effect of a step is the time of the admission, when it admitted a new message.\<close>

definition lane_step ::
  "sender_scoped_lane \<Rightarrow> lane_command \<Rightarrow> (sender_scoped_lane \<times> canonical_time option, capability_error) res" where
  "lane_step l cmd =
     (case cmd of
        ConsumeMessage m k d e now \<Rightarrow>
          map_ok (\<lambda>(l', replayed). (l', if replayed then None else Some now)) (lane_consume l m k d e now)
      | ReachHorizon now \<Rightarrow> map_ok (\<lambda>(l', _). (l', None)) (lane_reach_horizon l now)
      | RevokeLane \<Rightarrow> map_ok (\<lambda>l'. (l', None)) (lane_revoke l)
      | ReconfirmLane now \<Rightarrow> map_ok (\<lambda>l'. (l', None)) (lane_reconfirm l now))"

definition lane_valid :: "sender_scoped_lane \<Rightarrow> bool" where
  "lane_valid l \<longleftrightarrow> (let g = ln_grant l in
     grant_validate g = Ok ()
     \<and> (case ln_authority l of RequestAcceptance r _ creation acceptance \<Rightarrow> r \<noteq> 0 \<and> creation \<noteq> 0 \<and> acceptance \<noteq> 0
          | RecipientGrant \<Rightarrow> True)
     \<and> unat (ln_last_activity l) + unat (gr_lifetime g) < 2 ^ 64
     \<and> unat (ln_rate_window_started_at l) + unat (rl_interval (gr_rate_limit g)) < 2 ^ 64
     \<and> gr_issued_at g \<le> ln_rate_window_started_at l \<and> ln_rate_window_started_at l \<le> ln_last_activity l
     \<and> ln_last_activity l < gr_not_after g
     \<and> min (ln_last_activity l + gr_lifetime g) (gr_not_after g) \<le> ln_horizon_at l
     \<and> ln_horizon_at l \<le> gr_not_after g
     \<and> (gr_mode g = Expiring \<longrightarrow> ln_horizon_at l = min (ln_last_activity l + gr_lifetime g) (gr_not_after g))
     \<and> (ln_state l = LaneAwaitingReconfirmation \<longrightarrow> gr_mode g = Expiring)
     \<and> (ln_state l \<noteq> LaneActive \<longrightarrow> ln_version l \<noteq> 0)
     \<and> ln_messages_in_rate_window l \<le> rl_max_messages (gr_rate_limit g)
     \<and> unat (ln_messages_in_rate_window l) \<le> fcard (ln_admitted_messages l)
     \<and> (ln_admitted_messages l \<noteq> {||} \<longrightarrow> ln_messages_in_rate_window l \<noteq> 0)
     \<and> fcard (ln_admitted_messages l) \<le> unat (ln_version l)
     \<and> 0 |\<notin>| ln_admitted_messages l)"

lemma time_checked_add_cases:
  "time_checked_add t d = (if unat t + unat d < 2 ^ 64 then Some (t + d) else None)"
  by (simp add: time_checked_add_def checked_add_def)

lemma version_checked_next_cases:
  "version_checked_next v = (if Suc (unat v) < 2 ^ 64 then Some (v + 1) else None)"
  by (simp add: version_checked_next_def checked_add_def)

lemma unat_add_less: "unat (a :: u64) + unat b < 2 ^ 64 \<Longrightarrow> unat (a + b) = unat a + unat b"
  by (subst unat_add_lem [THEN iffD1]) simp_all

lemma unat_next: "Suc (unat (v :: u64)) < 2 ^ 64 \<Longrightarrow> unat (v + 1) = Suc (unat v)"
  using unat_add_less [of v 1] by simp


lemma lane_valid_restore: "lane_valid l \<Longrightarrow> lane_restore l = Ok l"
proof -
  assume v: "lane_valid l"
  have "fcard (ln_admitted_messages l) \<le> unat (ln_version l)" using v by (simp add: lane_valid_def Let_def)
  also have "\<dots> < 2 ^ 64" using unsigned_less [of "ln_version l"] by simp
  finally have lt: "fcard (ln_admitted_messages l) < 2 ^ 64" .
  then have w: "(try_word (int (fcard (ln_admitted_messages l))) :: u64 option) = Some (of_nat (fcard (ln_admitted_messages l)))"
    by (simp add: try_word_def)
  have "unat (of_nat (fcard (ln_admitted_messages l)) :: u64) = fcard (ln_admitted_messages l)"
    using lt by (simp add: unsigned_of_nat take_bit_nat_eq_self)
  with w obtain a :: u64 where a: "try_word (int (fcard (ln_admitted_messages l))) = Some a"
    and u: "unat a = fcard (ln_admitted_messages l)" by blast
  have z: "0 < a \<longleftrightarrow> ln_admitted_messages l \<noteq> {||}"
    using u by (cases "ln_admitted_messages l = {||}") (auto simp: word_less_nat_alt fcard_0_eq)
  have y: "\<not> ln_version l < a" using v by (simp add: word_less_nat_alt u lane_valid_def Let_def)
  have t: "time_checked_add (ln_last_activity l) (gr_lifetime (ln_grant l)) = Some (ln_last_activity l + gr_lifetime (ln_grant l))"
    "time_checked_add (ln_rate_window_started_at l) (rl_interval (gr_rate_limit (ln_grant l))) \<noteq> None"
    using v by (simp_all add: lane_valid_def Let_def time_checked_add_cases)
  have g: "grant_validate (ln_grant l) = Ok ()" using v by (simp add: lane_valid_def Let_def)
  have auth: "\<not> (case ln_authority l of
         RequestAcceptance request _ creation acceptance \<Rightarrow> request = 0 \<or> creation = 0 \<or> acceptance = 0
       | RecipientGrant \<Rightarrow> False)"
    using v by (cases "ln_authority l") (simp_all add: lane_valid_def Let_def)
  show ?thesis
    unfolding lane_restore_def g and_then.simps t(1) ok_or.simps Let_def a z u
    using auth t(2) y v order_trans [of "gr_issued_at (ln_grant l)" "ln_rate_window_started_at l" "ln_last_activity l"]
    by (simp add: lane_valid_def Let_def not_less not_le min_le_iff_disj) auto
qed

lemma grant_validate_Ok:
  "grant_validate g = Ok () \<Longrightarrow>
     rate_limit_valid (gr_rate_limit g) \<and> gr_lifetime g \<noteq> 0 \<and> gr_issued_at g \<le> gr_not_before g
     \<and> gr_not_before g < gr_not_after g"
  by (simp add: grant_validate_def not_less not_le)

lemma lane_authorizes_Ok:
  "lane_authorizes l sender recipient k d e now = Ok () \<Longrightarrow>
     ln_state l = LaneActive \<and> k = Some (gr_id (ln_grant l)) \<and> md_purpose d = gr_purpose (ln_grant l)
     \<and> sender = gr_sender (ln_grant l) \<and> recipient = gr_recipient (ln_grant l)
     \<and> gr_not_before (ln_grant l) \<le> now \<and> now < gr_not_after (ln_grant l)
     \<and> (gr_mode (ln_grant l) = Expiring \<longrightarrow> now < ln_horizon_at l)
     \<and> evidence_matches e (gr_subject (ln_grant l)) \<and> declarations_validate d = Ok ()"
  by (auto simp: lane_authorizes_def not_less not_le)

lemma lane_consume_cases:
  assumes "lane_consume l m k d e now = Ok (l', replayed)"
  obtains
    (replay) "m |\<in>| ln_admitted_messages l" "l' = l" "replayed"
  | (admitted) window count ver where "m |\<notin>| ln_admitted_messages l" "\<not> replayed" "m \<noteq> 0"
      "ln_last_activity l \<le> now"
      "unat (ln_rate_window_started_at l) + unat (rl_interval (gr_rate_limit (ln_grant l))) < 2 ^ 64"
      "if ln_rate_window_started_at l + rl_interval (gr_rate_limit (ln_grant l)) \<le> now
       then window = now \<and> count = 0 \<and> unat now + unat (rl_interval (gr_rate_limit (ln_grant l))) < 2 ^ 64
       else window = ln_rate_window_started_at l \<and> count = ln_messages_in_rate_window l"
      "count < rl_max_messages (gr_rate_limit (ln_grant l))"
      "unat now + unat (gr_lifetime (ln_grant l)) < 2 ^ 64"
      "unat ver = Suc (unat (ln_version l))"
      "l' = l\<lparr>ln_rate_window_started_at := window, ln_messages_in_rate_window := count + 1,
               ln_last_activity := now,
               ln_horizon_at := min (now + gr_lifetime (ln_grant l)) (gr_not_after (ln_grant l)),
               ln_version := ver, ln_admitted_messages := finsert m (ln_admitted_messages l)\<rparr>"
proof (cases "m |\<in>| ln_admitted_messages l")
  case True
  then show thesis using assms by (intro replay) (auto simp: lane_consume_def)
next
  case False
  let ?I = "rl_interval (gr_rate_limit (ln_grant l))"
  define w where "w = (if ln_rate_window_started_at l + ?I \<le> now then now else ln_rate_window_started_at l)"
  define n where "n = (if ln_rate_window_started_at l + ?I \<le> now then 0 else ln_messages_in_rate_window l)"
  have checked: "checked_add c 1 = Some c' \<Longrightarrow> c' = c + 1" for c c' :: u32
    by (simp add: checked_add_def split: if_splits)
  have "\<exists>ver. \<not> replayed \<and> m \<noteq> 0 \<and> ln_last_activity l \<le> now
      \<and> unat (ln_rate_window_started_at l) + unat ?I < 2 ^ 64
      \<and> (ln_rate_window_started_at l + ?I \<le> now \<longrightarrow> unat now + unat ?I < 2 ^ 64)
      \<and> n < rl_max_messages (gr_rate_limit (ln_grant l)) \<and> unat now + unat (gr_lifetime (ln_grant l)) < 2 ^ 64
      \<and> unat ver = Suc (unat (ln_version l))
      \<and> l' = l\<lparr>ln_rate_window_started_at := w, ln_messages_in_rate_window := n + 1,
               ln_last_activity := now,
               ln_horizon_at := min (now + gr_lifetime (ln_grant l)) (gr_not_after (ln_grant l)),
               ln_version := ver, ln_admitted_messages := finsert m (ln_admitted_messages l)\<rparr>"
    using assms False unfolding lane_consume_def w_def n_def
    by (auto simp: time_checked_add_cases version_checked_next_Some not_less not_le
        split: if_splits dest!: checked)
  then obtain ver where v: "\<not> replayed" "m \<noteq> 0" "ln_last_activity l \<le> now"
      "unat (ln_rate_window_started_at l) + unat ?I < 2 ^ 64"
      "ln_rate_window_started_at l + ?I \<le> now \<longrightarrow> unat now + unat ?I < 2 ^ 64"
      "n < rl_max_messages (gr_rate_limit (ln_grant l))" "unat now + unat (gr_lifetime (ln_grant l)) < 2 ^ 64"
      "unat ver = Suc (unat (ln_version l))"
      "l' = l\<lparr>ln_rate_window_started_at := w, ln_messages_in_rate_window := n + 1,
               ln_last_activity := now,
               ln_horizon_at := min (now + gr_lifetime (ln_grant l)) (gr_not_after (ln_grant l)),
               ln_version := ver, ln_admitted_messages := finsert m (ln_admitted_messages l)\<rparr>"
    by blast
  show thesis
    by (rule admitted [OF False v(1-4) _ v(6-9)]) (use v(5) in \<open>simp add: w_def n_def\<close>)
qed

lemma u32_next: "(n :: u32) < m \<Longrightarrow> unat (n + 1) = Suc (unat n) \<and> n + 1 \<le> m \<and> n + 1 \<noteq> 0"
proof -
  assume "n < m"
  then have nm: "unat n < unat m" by (simp add: word_less_nat_alt)
  have "unat m < 2 ^ LENGTH(32)" by (rule unsigned_less)
  with nm have "Suc (unat n) < 2 ^ 32" by simp
  then have u: "unat (n + 1) = Suc (unat n)" using unat_add_lem [of n 1] by simp
  have "n + 1 \<noteq> 0"
  proof
    assume "n + 1 = 0"
    then have "unat (n + 1) = 0" by simp
    then show False using u by simp
  qed
  then show ?thesis using u nm by (simp add: word_le_nat_alt)
qed

lemma lane_consume_valid:
  assumes "lane_consume l m k d e now = Ok (l', replayed)" and v: "lane_valid l"
  shows "lane_valid l'"
  using assms(1)
proof (cases rule: lane_consume_cases)
  case replay
  then show ?thesis using v by simp
next
  case (admitted window count ver)
  have auth: "lane_authorizes l (gr_sender (ln_grant l)) (gr_recipient (ln_grant l)) k d e now = Ok ()"
    using assms(1) by (auto simp: lane_consume_def)
  note a = lane_authorizes_Ok [OF auth]
  note n = u32_next [OF admitted(7)]
  have g: "grant_validate (ln_grant l) = Ok ()" using v by (simp add: lane_valid_def Let_def)
  have issued: "gr_issued_at (ln_grant l) \<le> now"
    using grant_validate_Ok [OF g] a by (auto intro: order_trans)
  have wm: "gr_issued_at (ln_grant l) \<le> window" "window \<le> now" "unat window + unat (rl_interval (gr_rate_limit (ln_grant l))) < 2 ^ 64"
    "unat count \<le> fcard (ln_admitted_messages l)"
    using admitted(6) v issued admitted(4) admitted(5)
    by (auto simp: lane_valid_def Let_def split: if_splits intro: order_trans)
  have fc: "fcard (finsert m (ln_admitted_messages l)) = Suc (fcard (ln_admitted_messages l))"
    using admitted(1) by (simp add: fcard_finsert_disjoint)
  have ver: "fcard (ln_admitted_messages l) \<le> unat (ln_version l)" using v by (simp add: lane_valid_def Let_def)
  show ?thesis
    unfolding lane_valid_def Let_def admitted(10)
    using v a wm n fc ver g admitted(3,8,9)
    by (simp add: lane_valid_def Let_def)
qed

lemma horizon_advance:
  assumes "unat (now :: u64) + unat life < 2 ^ 64" and "min (a + life) b \<le> h" and "h \<le> now" and "now < b"
  shows "min (a + life) b \<le> min (now + life) b"
proof -
  have le: "now \<le> now + life" using unat_add_less [OF assms(1)] by (simp add: word_le_nat_alt)
  have "min (a + life) b \<le> now" using assms(2,3) by (rule order_trans)
  then have "a + life \<le> now" using assms(4) by (auto simp: min_le_iff_disj dest: leD)
  then show ?thesis using le by (auto simp: min_def intro: order_trans)
qed

lemma lane_reach_horizon_cases:
  assumes "lane_reach_horizon l now = Ok (l', x)"
  obtains
    (idle) "l' = l" "x = HorizonNone"
  | (ended) ver where "ln_horizon_at l \<le> now" "ln_state l = LaneActive" "unat ver = Suc (unat (ln_version l))"
      "gr_not_after (ln_grant l) \<le> now" "l' = l\<lparr>ln_version := ver, ln_state := LaneExpired\<rparr>"
      "x = ReconfirmationRequired"
  | (awaiting) ver where "ln_horizon_at l \<le> now" "ln_state l = LaneActive" "unat ver = Suc (unat (ln_version l))"
      "now < gr_not_after (ln_grant l)" "gr_mode (ln_grant l) = Expiring"
      "l' = l\<lparr>ln_version := ver, ln_state := LaneAwaitingReconfirmation\<rparr>" "x = ReconfirmationRequired"
  | (reminded) ver where "ln_horizon_at l \<le> now" "ln_state l = LaneActive" "unat ver = Suc (unat (ln_version l))"
      "now < gr_not_after (ln_grant l)" "gr_mode (ln_grant l) = Persistent"
      "unat now + unat (gr_lifetime (ln_grant l)) < 2 ^ 64"
      "l' = l\<lparr>ln_version := ver, ln_horizon_at := min (now + gr_lifetime (ln_grant l)) (gr_not_after (ln_grant l))\<rparr>"
      "x = ReviewReminder"
proof (cases "now < ln_horizon_at l \<or> ln_state l \<noteq> LaneActive")
  case True
  then show thesis using assms by (intro idle) (auto simp: lane_reach_horizon_def)
next
  case False
  then have h: "ln_horizon_at l \<le> now" "ln_state l = LaneActive" by auto
  obtain ver where ver: "version_checked_next (ln_version l) = Some ver"
    using assms False by (auto simp: lane_reach_horizon_def)
  then have u: "unat ver = Suc (unat (ln_version l))" by (simp add: version_checked_next_Some)
  show thesis
  proof (cases "gr_not_after (ln_grant l) \<le> now")
    case True
    show thesis
      by (rule ended [OF h u True]) (use assms False True ver in \<open>auto simp: lane_reach_horizon_def Let_def\<close>)
  next
    case late: False
    then have na: "now < gr_not_after (ln_grant l)" by simp
    show thesis
    proof (cases "gr_mode (ln_grant l)")
      case Expiring
      show thesis
        by (rule awaiting [OF h u na Expiring])
          (use assms False late Expiring ver in \<open>auto simp: lane_reach_horizon_def Let_def\<close>)
    next
      case Persistent
      then have t: "unat now + unat (gr_lifetime (ln_grant l)) < 2 ^ 64"
        using assms False late ver by (auto simp: lane_reach_horizon_def time_checked_add_cases split: if_splits)
      show thesis
        by (rule reminded [OF h u na Persistent t])
          (use assms False late na Persistent ver t in \<open>auto simp: lane_reach_horizon_def Let_def time_checked_add_cases\<close>)
    qed
  qed
qed

lemma version_nonzero: "unat (v :: u64) = Suc n \<Longrightarrow> v \<noteq> 0"
  by auto

lemma lane_reach_horizon_valid:
  assumes "lane_reach_horizon l now = Ok (l', x)" and v: "lane_valid l"
  shows "lane_valid l'"
  using assms(1)
proof (cases rule: lane_reach_horizon_cases)
  case (ended ver)
  then show ?thesis using v by (auto simp: lane_valid_def Let_def dest: version_nonzero)
next
  case (awaiting ver)
  then show ?thesis using v by (auto simp: lane_valid_def Let_def dest: version_nonzero)
next
  case (reminded ver)
  have "min (ln_last_activity l + gr_lifetime (ln_grant l)) (gr_not_after (ln_grant l))
      \<le> min (now + gr_lifetime (ln_grant l)) (gr_not_after (ln_grant l))"
    by (rule horizon_advance [OF reminded(6) _ reminded(1,4)]) (use v in \<open>simp add: lane_valid_def Let_def\<close>)
  then show ?thesis using v reminded(2,3,5)
    by (simp add: lane_valid_def Let_def reminded(7) del: min_le_iff_disj min.bounded_iff)
qed (use v in simp)

lemma lane_revoke_Ok:
  "lane_revoke l = Ok l' \<Longrightarrow> l' = l \<and> ln_state l = LaneRevoked
     \<or> ln_state l \<noteq> LaneRevoked \<and> l' = l\<lparr>ln_state := LaneRevoked, ln_version := ln_version l'\<rparr>
        \<and> unat (ln_version l') = Suc (unat (ln_version l))"
  by (auto simp: lane_revoke_def version_checked_next_Some split: if_splits)

lemma lane_valid_revoked:
  "lane_valid l \<Longrightarrow> unat ver = Suc (unat (ln_version l)) \<Longrightarrow>
     lane_valid (l\<lparr>ln_state := LaneRevoked, ln_version := ver\<rparr>)"
  using version_nonzero [of ver "unat (ln_version l)"] by (simp add: lane_valid_def Let_def)

lemma lane_revoke_valid:
  assumes "lane_revoke l = Ok l'" and "lane_valid l"
  shows "lane_valid l'"
  using lane_revoke_Ok [OF assms(1)] lane_valid_revoked [OF assms(2)] assms(2) by metis

lemma lane_reconfirm_valid:
  assumes "lane_reconfirm l now = Ok l'" and v: "lane_valid l"
  shows "lane_valid l'"
proof -
  have st: "ln_state l = LaneAwaitingReconfirmation" and na: "now < gr_not_after (ln_grant l)"
    and h: "ln_horizon_at l \<le> now" and t: "unat now + unat (gr_lifetime (ln_grant l)) < 2 ^ 64"
    using assms(1) by (auto simp: lane_reconfirm_def time_checked_add_cases split: if_splits)
  obtain ver where ver: "unat ver = Suc (unat (ln_version l))" and
    l': "l' = l\<lparr>ln_state := LaneActive, ln_last_activity := now,
            ln_horizon_at := min (now + gr_lifetime (ln_grant l)) (gr_not_after (ln_grant l)), ln_version := ver\<rparr>"
    using assms(1) t by (auto simp: lane_reconfirm_def time_checked_add_cases version_checked_next_Some)
  have "unat (ln_last_activity l) + unat (gr_lifetime (ln_grant l)) < 2 ^ 64"
    and last: "ln_last_activity l < gr_not_after (ln_grant l)"
    and hm: "min (ln_last_activity l + gr_lifetime (ln_grant l)) (gr_not_after (ln_grant l)) \<le> ln_horizon_at l"
    using v by (simp_all add: lane_valid_def Let_def)
  then have "ln_last_activity l \<le> ln_last_activity l + gr_lifetime (ln_grant l)"
    using unat_add_less by (simp add: word_le_nat_alt)
  then have "ln_last_activity l \<le> now"
    using last order_trans [OF hm h] na by (auto simp: min_le_iff_disj)
  moreover have "ln_rate_window_started_at l \<le> now"
    using v order_trans [OF _ calculation, of "ln_rate_window_started_at l"] by (simp add: lane_valid_def Let_def)
  ultimately show ?thesis using v na t ver st
    by (simp add: lane_valid_def Let_def l')
qed

lemma lane_from_grant_valid:
  assumes "lane_from_grant g = Ok l" shows "lane_valid l"
proof -
  have g: "grant_validate g = Ok ()" using assms by (auto simp: lane_from_grant_def)
  show ?thesis
    using assms grant_validate_Ok [OF g] g
  by (auto simp: lane_from_grant_def lane_valid_def Let_def time_checked_add_cases
      intro: order_le_less_trans split: if_splits)
qed

lemma lane_step_valid: "lane_valid l \<Longrightarrow> lane_step l cmd = Ok (l', x) \<Longrightarrow> lane_valid l'"
  by (cases cmd) (auto simp: lane_step_def intro: lane_consume_valid lane_reach_horizon_valid
      lane_revoke_valid lane_reconfirm_valid)

interpretation lane: stored_machine lane_step lane_valid lane_restore
  by unfold_locales (rule lane_step_valid lane_valid_restore; assumption)+

section \<open>Revocation is final\<close>

lemma lane_step_grant: "lane_step l cmd = Ok (l', x) \<Longrightarrow> ln_grant l' = ln_grant l"
  by (cases cmd)
    (auto simp: lane_step_def lane_reconfirm_def lane_revoke_def split: if_splits
      elim!: lane_consume_cases lane_reach_horizon_cases)

interpretation lane_grant: invariant_machine lane_step "\<lambda>l. ln_grant l = g"
  by unfold_locales (simp add: lane_step_grant)

lemma lane_revoked_step:
  assumes "ln_state l = LaneRevoked" and "lane_step l cmd = Ok (l', x)"
  shows "l' = l \<and> x = None"
  using assms lane_authorizes_Ok
  by (cases cmd) (auto simp: lane_step_def lane_revoke_def lane_reconfirm_def lane_reach_horizon_def lane_consume_def)

section \<open>How many messages a lane admits\<close>

definition admitted_between :: "nat \<Rightarrow> nat \<Rightarrow> canonical_time option list \<Rightarrow> nat" where
  "admitted_between a b outs = length (filter (\<lambda>x. case x of None \<Rightarrow> False | Some t \<Rightarrow> a \<le> unat t \<and> unat t < b) outs)"

lemma admitted_between_simps [simp]:
  "admitted_between a b [] = 0"
  "admitted_between a b (xs @ ys) = admitted_between a b xs + admitted_between a b ys"
  "admitted_between a b [None] = 0"
  "admitted_between a b [Some t] = (if a \<le> unat t \<and> unat t < b then 1 else 0)"
  by (simp_all add: admitted_between_def)

lemma admitted_between_mono:
  "a' \<le> a \<Longrightarrow> b \<le> b' \<Longrightarrow> admitted_between a b xs \<le> admitted_between a' b' xs"
  unfolding admitted_between_def
  by (induction xs) (auto split: option.splits)

lemma admitted_between_split:
  "a \<le> m \<Longrightarrow> m \<le> b \<Longrightarrow> admitted_between a b xs = admitted_between a m xs + admitted_between m b xs"
  by (induction xs) (auto simp: admitted_between_def split: option.splits)

text \<open>
  The state of the rate window against the history \<open>hs\<close> of admission times: the current window
  holds the counted messages, the window before it at most the maximum, and the windows are at
  least an interval apart.
\<close>

definition rate_inv :: "sender_scoped_lane \<Rightarrow> canonical_time option list \<Rightarrow> bool" where
  "rate_inv l hs \<longleftrightarrow>
     (let w = unat (ln_rate_window_started_at l); i = unat (rl_interval (gr_rate_limit (ln_grant l)));
          m = unat (rl_max_messages (gr_rate_limit (ln_grant l))) in
      (\<forall>t. admitted_between t (t + i) hs \<le> 2 * m)
      \<and> (\<forall>b. admitted_between w b hs \<le> unat (ln_messages_in_rate_window l))
      \<and> unat (ln_messages_in_rate_window l) \<le> m
      \<and> admitted_between (w - i) w hs \<le> m
      \<and> (\<forall>b. admitted_between (w + i) b hs = 0) \<and> 0 < i)"

lemma rate_inv_admit:
  assumes inv: "rate_inv l hs" and ordered: "ln_rate_window_started_at l \<le> ln_last_activity l"
    and step: "lane_consume l m k d e now = Ok (l', False)"
  shows "rate_inv l' (hs @ [Some now])"
  using step
proof (cases rule: lane_consume_cases)
  case (admitted window count ver)
  let ?w = "unat (ln_rate_window_started_at l)" and ?i = "unat (rl_interval (gr_rate_limit (ln_grant l)))"
  let ?m = "unat (rl_max_messages (gr_rate_limit (ln_grant l)))" and ?n = "unat now"
  have c: "unat (count + 1) = Suc (unat count)" and cm: "Suc (unat count) \<le> ?m"
    using u32_next [OF admitted(7)] by (simp_all add: word_le_nat_alt)
  have all: "admitted_between t (t + ?i) hs \<le> 2 * ?m"
    and cur: "admitted_between ?w b hs \<le> unat (ln_messages_in_rate_window l)"
    and most: "unat (ln_messages_in_rate_window l) \<le> ?m"
    and prev: "admitted_between (?w - ?i) ?w hs \<le> ?m"
    and past: "admitted_between (?w + ?i) b hs = 0" and pos: "0 < ?i" for t b
    using inv by (simp_all add: rate_inv_def Let_def)
  have wn: "?w \<le> ?n" using ordered admitted(4) by (simp add: word_le_nat_alt)
  have fields: "ln_grant l' = ln_grant l" "ln_rate_window_started_at l' = window"
    "ln_messages_in_rate_window l' = count + 1"
    by (simp_all add: admitted(10))
  show ?thesis
  proof (cases "ln_rate_window_started_at l + rl_interval (gr_rate_limit (ln_grant l)) \<le> now")
    case True
    then have w: "window = now" "count = 0" using admitted(6) by simp_all
    have far: "?w + ?i \<le> ?n" using True unat_add_less [OF admitted(5)] by (simp add: word_le_nat_alt)
    have late: "admitted_between a b hs = 0" if "?w + ?i \<le> a" for a b
      using admitted_between_mono [OF that order_refl, of b hs] past [of b] by simp
    have old: "admitted_between a b hs \<le> ?m" if "?w \<le> a" for a b
      using admitted_between_mono [OF that order_refl, of b hs] cur [of b] most by simp
    have "admitted_between t (t + ?i) (hs @ [Some now]) \<le> 2 * ?m" for t
    proof (cases "t \<le> ?n \<and> ?n < t + ?i")
      case True
      then have "?w \<le> t" using far by simp
      then show ?thesis using old [of t "t + ?i"] cm by simp
    next
      case False
      then show ?thesis using all [of t] by auto
    qed
    moreover have "admitted_between (?n - ?i) ?n hs \<le> ?m" using far by (intro old) simp
    ultimately show ?thesis
      using far late cm c pos by (simp add: rate_inv_def Let_def fields w)
  next
    case False
    then have w: "window = ln_rate_window_started_at l" "count = ln_messages_in_rate_window l"
      using admitted(6) by simp_all
    have near: "?n < ?w + ?i" using False unat_add_less [OF admitted(5)] by (simp add: word_le_nat_alt)
    have "admitted_between t (t + ?i) (hs @ [Some now]) \<le> 2 * ?m" for t
    proof (cases "t \<le> ?n \<and> ?n < t + ?i")
      case inside: True
      show ?thesis
      proof (cases "?w \<le> t")
        case True
        then show ?thesis
          using admitted_between_mono [OF True order_refl, of "t + ?i" hs] cur [of "t + ?i"] cm by (simp add: w)
      next
        case False
        have "admitted_between t (t + ?i) hs = admitted_between t ?w hs + admitted_between ?w (t + ?i) hs"
          using False inside wn by (intro admitted_between_split) simp_all
        moreover have "admitted_between t ?w hs \<le> admitted_between (?w - ?i) ?w hs"
        proof (rule admitted_between_mono)
          show "?w - ?i \<le> t" using inside wn by linarith
        qed simp
        ultimately show ?thesis using prev cur [of "t + ?i"] cm by (simp add: w)
      qed
    next
      case False
      then show ?thesis using all [of t] by auto
    qed
    then show ?thesis
      using near wn prev past pos cm c cur le_SucI [OF cur] by (simp add: rate_inv_def Let_def fields w)
  qed
qed simp

lemma rate_inv_frame:
  assumes "rate_inv l hs" and "ln_grant l' = ln_grant l"
    and "ln_rate_window_started_at l' = ln_rate_window_started_at l"
    and "ln_messages_in_rate_window l' = ln_messages_in_rate_window l"
  shows "rate_inv l' (hs @ [None])"
  using assms by (simp add: rate_inv_def Let_def)

lemma rate_inv_step:
  assumes "rate_inv l hs" and "lane_valid l" and "lane_step l cmd = Ok (l', x)"
  shows "rate_inv l' (hs @ [x])"
proof (cases cmd)
  case (ConsumeMessage m k d e now)
  then obtain replayed where c: "lane_consume l m k d e now = Ok (l', replayed)"
    and x: "x = (if replayed then None else Some now)"
    using assms(3) by (auto simp: lane_step_def)
  show ?thesis
  proof (cases replayed)
    case True
    then have "l' = l" using c by (auto elim: lane_consume_cases)
    then show ?thesis using rate_inv_frame [OF assms(1), of l] True x by simp
  next
    case False
    then show ?thesis
      using rate_inv_admit [OF assms(1) _ , of m k d e now l'] c x assms(2) by (simp add: lane_valid_def Let_def)
  qed
next
  case (ReachHorizon now)
  then have x: "x = None" and "\<exists>y. lane_reach_horizon l now = Ok (l', y)"
    using assms(3) by (auto simp: lane_step_def)
  then obtain y where "lane_reach_horizon l now = Ok (l', y)" by blast
  then show ?thesis unfolding x by (cases rule: lane_reach_horizon_cases) (rule rate_inv_frame [OF assms(1)]; simp)+
next
  case RevokeLane
  then have "x = None" and "lane_revoke l = Ok l'" using assms(3) by (auto simp: lane_step_def)
  then show ?thesis by (auto simp: lane_revoke_def split: if_splits intro!: rate_inv_frame [OF assms(1)])
next
  case (ReconfirmLane now)
  then have "x = None" and "lane_reconfirm l now = Ok l'" using assms(3) by (auto simp: lane_step_def)
  then show ?thesis by (auto simp: lane_reconfirm_def intro!: rate_inv_frame [OF assms(1)])
qed

lemma rate_inv_run:
  "rate_inv l hs \<Longrightarrow> lane_valid l \<Longrightarrow> run_machine lane_step l cmds = (t, outs) \<Longrightarrow> rate_inv t (hs @ outs)"
proof (induction cmds arbitrary: l hs outs)
  case Nil
  then show ?case by simp
next
  case (Cons cmd cmds)
  show ?case
  proof (cases "lane_step l cmd")
    case (Ok r)
    obtain l' x where r: "r = (l', x)" by (cases r)
    obtain u outs' where u: "run_machine lane_step l' cmds = (u, outs')" by (cases "run_machine lane_step l' cmds")
    have ut: "u = t" and o: "outs = x # outs'" using Cons.prems(3) Ok r u by auto
    have step: "lane_step l cmd = Ok (l', x)" using Ok r by simp
    have "rate_inv t ((hs @ [x]) @ outs')"
      by (rule Cons.IH [OF rate_inv_step [OF Cons.prems(1,2) step] lane_step_valid [OF Cons.prems(2) step]])
        (use u ut in simp)
    then show ?thesis by (simp add: o)
  qed (use Cons in auto)
qed

lemma rate_inv_new:
  assumes "lane_from_grant g = Ok l" shows "rate_inv l []"
proof -
  have "rate_limit_valid (gr_rate_limit g)" and "ln_grant l = g" and "ln_messages_in_rate_window l = 0"
    using assms by (auto simp: lane_from_grant_def dest: grant_validate_Ok)
  then show ?thesis by (simp add: rate_inv_def Let_def rate_limit_valid_def word_less_nat_alt)
qed

section \<open>Properties\<close>

text \<open>
  A lane stays valid.  From activation on, any sequence of consumptions, horizons,
  reconfirmations and revocations leaves a lane that passes the validation of stored lanes
  unchanged: horizon within the signed interval, window counters within the rate limit and
  the admitted messages, and a version at least the number of admitted messages.
\<close>

theorem lane_stays_valid:
  assumes "lane_from_grant g = Ok l"
  shows "lane_restore (fst (run_machine lane_step l cmds)) = Ok (fst (run_machine lane_step l cmds))"
  by (rule lane.run_restores) (rule lane_from_grant_valid [OF assms])

text \<open>
  C40: The rate limit bounds every interval.  Whatever is done with a lane, in any time interval
  as long as the grant's rate interval it admits at most twice the grant's maximum of new
  messages (the windows of the code do not overlap, so an interval meets at most two).
\<close>

theorem lane_rate_limit:
  assumes "lane_from_grant g = Ok l" and "run_machine lane_step l cmds = (t, outs)"
  shows "admitted_between a (a + unat (rl_interval (gr_rate_limit g))) outs
     \<le> 2 * unat (rl_max_messages (gr_rate_limit g))"
proof -
  have "rate_inv t ([] @ outs)"
    by (rule rate_inv_run [OF rate_inv_new [OF assms(1)] lane_from_grant_valid [OF assms(1)] assms(2)])
  moreover have "ln_grant l = g" using assms(1) by (auto simp: lane_from_grant_def)
  moreover have "ln_grant t = ln_grant l"
    using lane_grant.run_inv [OF refl assms(2)] by simp
  ultimately show ?thesis by (simp add: rate_inv_def Let_def)
qed

text \<open>
  A lane admits only what its grant covers.  Consuming a message succeeds only on an active
  lane, for its own identifier, within the signed validity interval and before the horizon of
  an expiring lane, with the granted purpose and matching evidence; the message is then
  recorded, and consuming it again at that time changes nothing.
\<close>

theorem lane_consume_authorized:
  assumes "lane_consume l m k d e now = Ok (l', replayed)"
  shows "ln_state l = LaneActive \<and> k = Some (gr_id (ln_grant l)) \<and> md_purpose d = gr_purpose (ln_grant l)
     \<and> gr_not_before (ln_grant l) \<le> now \<and> now < gr_not_after (ln_grant l)
     \<and> (gr_mode (ln_grant l) = Expiring \<longrightarrow> now < ln_horizon_at l)
     \<and> evidence_matches e (gr_subject (ln_grant l)) \<and> declarations_validate d = Ok ()
     \<and> m |\<in>| ln_admitted_messages l' \<and> (replayed \<longleftrightarrow> m |\<in>| ln_admitted_messages l)
     \<and> (gr_lifetime (ln_grant l) \<noteq> 0 \<longrightarrow> lane_consume l' m k d e now = Ok (l', True))"
proof -
  have auth: "lane_authorizes l (gr_sender (ln_grant l)) (gr_recipient (ln_grant l)) k d e now = Ok ()"
    using assms by (auto simp: lane_consume_def)
  note a = lane_authorizes_Ok [OF auth]
  from assms have "m |\<in>| ln_admitted_messages l' \<and> (replayed \<longleftrightarrow> m |\<in>| ln_admitted_messages l)
     \<and> (gr_lifetime (ln_grant l) \<noteq> 0 \<longrightarrow> lane_consume l' m k d e now = Ok (l', True))"
  proof (cases rule: lane_consume_cases)
    case replay
    then show ?thesis using assms by simp
  next
    case (admitted window count ver)
    have "now < min (now + gr_lifetime (ln_grant l)) (gr_not_after (ln_grant l))" if "gr_lifetime (ln_grant l) \<noteq> 0"
    proof -
      have "0 < unat (gr_lifetime (ln_grant l))" using that by (simp add: unat_gt_0)
      then have "now < now + gr_lifetime (ln_grant l)"
        using unat_add_less [OF admitted(8)] by (simp add: word_less_nat_alt)
      then show ?thesis using a by simp
    qed
    then have "lane_authorizes l' (gr_sender (ln_grant l')) (gr_recipient (ln_grant l')) k d e now = Ok ()"
      if "gr_lifetime (ln_grant l) \<noteq> 0"
      using auth that unfolding lane_authorizes_def admitted(10) by (simp add: not_le)
    then show ?thesis using admitted by (simp add: lane_consume_def)
  qed
  then show ?thesis using a by blast
qed

text \<open>
  Revocation is final: no later operation changes a revoked lane, and none of them admits
  a message.
\<close>

theorem lane_revocation_final:
  assumes "lane_revoke l = Ok r"
  shows "ln_state r = LaneRevoked \<and> fst (run_machine lane_step r cmds) = r
     \<and> list_all (\<lambda>x. x = None) (snd (run_machine lane_step r cmds))"
proof -
  have r: "ln_state r = LaneRevoked" using assms by (auto simp: lane_revoke_def split: if_splits)
  have "fst (run_machine lane_step r cmds) = r \<and> list_all (\<lambda>x. x = None) (snd (run_machine lane_step r cmds))"
  proof (induction cmds)
    case Nil
    then show ?case by simp
  next
    case (Cons cmd cmds)
    show ?case
      using Cons lane_revoked_step [OF r, of cmd]
      by (cases "lane_step r cmd") (auto simp: Let_def split: prod.splits)
  qed
  then show ?thesis using r by blast
qed

section \<open>A concrete lane\<close>

definition sample_grant :: sender_scoped_grant where
  "sample_grant = \<lparr>gr_id = 1, gr_subject = SubjNative 9, gr_sender = 2, gr_recipient = 3,
     gr_protocol_version = 2, gr_deployment_domain = 3, gr_intended_provider = 4,
     gr_recipient_operational_key = 5, gr_purpose = Known Personal, gr_origin = Some HumanInitiated,
     gr_declaration_authority = OnlyNativeSender, gr_lifetime = 1000,
     gr_rate_limit = \<lparr>rl_max_messages = 1, rl_interval = 100\<rparr>, gr_mode = Expiring,
     gr_issued_at = 10, gr_not_before = 10, gr_not_after = 5000, gr_version = 0\<rparr>"

definition sample_lane :: sender_scoped_lane where
  "sample_lane = \<lparr>ln_authority = RecipientGrant, ln_grant = sample_grant, ln_state = LaneActive,
         ln_last_activity = 10, ln_horizon_at = 1010,
         ln_rate_window_started_at = 10, ln_messages_in_rate_window = 0,
         ln_version = 0, ln_admitted_messages = {||}\<rparr>"

definition sample_declarations :: message_declarations where
  "sample_declarations = \<lparr>md_purpose = Known Personal,
     md_origin = \<lparr>od_mode = HumanInitiated, od_authority = NativeSender 6\<rparr>, md_payload_schema = None\<rparr>"

definition sample_used_lane :: sender_scoped_lane where
  "sample_used_lane = sample_lane\<lparr>ln_messages_in_rate_window := 1, ln_last_activity := 20,
     ln_horizon_at := 1020, ln_version := 1, ln_admitted_messages := {|7|}\<rparr>"

lemma sample_lane_new: "lane_from_grant sample_grant = Ok sample_lane"
  by (simp add: lane_from_grant_def grant_validate_def purpose_validate_def sample_grant_def sample_lane_def
      rate_limit_valid_def authority_matches_subject_def time_checked_add_def checked_add_def fail_if_def)

lemma sample_consume:
  "lane_consume sample_lane 7 (Some 1) sample_declarations (EvNative 9) 20 = Ok (sample_used_lane, False)"
  by (simp add: lane_consume_def lane_authorizes_def declarations_validate_def purpose_validate_def
      sample_lane_def sample_grant_def sample_declarations_def constraint_matches_def evidence_matches_def
      time_checked_add_def version_checked_next_def checked_add_def fail_if_def sample_used_lane_def Let_def)

lemma sample_lane_run:
  "run_machine lane_step sample_lane [ConsumeMessage 7 (Some 1) sample_declarations (EvNative 9) 20]
     = (sample_used_lane, [Some 20])"
  by (simp add: lane_step_def sample_consume)

lemma lane_stays_valid_witness: "lane_restore sample_used_lane = Ok sample_used_lane"
  using lane_stays_valid [OF sample_lane_new,
      of "[ConsumeMessage 7 (Some 1) sample_declarations (EvNative 9) 20]"]
  by (simp only: sample_lane_run fst_conv)

lemma lane_rate_limit_witness: "admitted_between 0 100 [Some 20] \<le> 2"
  using lane_rate_limit [OF sample_lane_new sample_lane_run, of 0] by (simp add: sample_grant_def)

lemma lane_consume_authorized_witness:
  "lane_consume sample_used_lane 7 (Some 1) sample_declarations (EvNative 9) 20 = Ok (sample_used_lane, True)"
  using lane_consume_authorized [OF sample_consume] by (simp add: sample_lane_def sample_grant_def)

lemma lane_revocation_final_witness:
  "ln_state (sample_used_lane\<lparr>ln_state := LaneRevoked, ln_version := 2\<rparr>) = LaneRevoked"
proof -
  have "lane_revoke sample_used_lane = Ok (sample_used_lane\<lparr>ln_state := LaneRevoked, ln_version := 2\<rparr>)"
    by (simp add: lane_revoke_def sample_used_lane_def sample_lane_def version_checked_next_def checked_add_def)
  from lane_revocation_final [OF this] show ?thesis by blast
qed

end
