(* ===== verification/Pricing.thy ===== *)
theory Pricing
  imports Capabilities Payments
begin

text \<open>
  Request pricing and operator policy: \<open>pricing.rs\<close> and \<open>policy.rs\<close> of
  \<open>crates/cs-mail-protocol/src\<close>, with the policy snapshot and the errors of its \<open>lib.rs\<close>.
  The lemmas show that a quote lies within the published bounds and can always be charged, and
  that a validated policy yields a snapshot the kernel accepts.
\<close>

section \<open>Errors\<close>

datatype admission_failure =
  AdmUnsupportedCriticalExtension | AdmInvalidDeclaration | AdmContentExpired
| AdmMessageValidityClosed | AdmContentScopeMismatch | AdmContentMissing | AdmAuthenticationMismatch

datatype reply_restriction = RestrictedBlocked | RestrictedRevoked

datatype protocol_error =
  PtAuthenticationFailed
| PtAdmissionRefused admission_failure
| PtQuoteExpired
| PtQuoteVersionStale
| PtRelationshipAccepted
| PtContactBlocked
| PtBackoffActive canonical_time
| PtInsufficientFunds
| PtRequestAlreadyExists
| PtOppositeRequestPending request_id
| PtSenderReplyRestricted reply_restriction
| PtPaymentNotConfirmed
| PtPaymentInvalid
| PtFollowupNotAllowed
| PtAmountMismatch
| PtSubmissionWindowClosed
| PtRequestSubmissionCancelled
| PtDecisionWindowClosed
| PtMessageValidityClosed
| PtAlreadyTerminal
| PtVersionConflict
| PtDuplicateConflict
| PtInvalidState
| PtMissingRecord
| PtIncompleteSnapshot
| PtProtocolVersionMismatch
| PtPolicyInvalid
| PtRequestClassUnknown
| PtRequestClassOutsidePolicy
| PtArithmeticOverflow
| PtLedgerInvariant

section \<open>Request classes\<close>

record selected_request_class =
  sc_id :: request_class_id
  sc_description :: string

definition selected_class_new ::
  "request_class_id \<Rightarrow> string \<Rightarrow> (selected_request_class, protocol_error) res" where
  "selected_class_new i description =
     fail_if (i = 0 \<or> str_blank description) PtPolicyInvalid
     (Ok \<lparr>sc_id = i, sc_description = description\<rparr>)"

record request_class =
  rc_selection :: selected_request_class
  rc_collateral :: money

definition request_class_new ::
  "request_class_id \<Rightarrow> string \<Rightarrow> money \<Rightarrow> (request_class, protocol_error) res" where
  "request_class_new i description collateral =
     fail_if (collateral = 0) PtPolicyInvalid
     (and_then (selected_class_new i description) (\<lambda>selection.
      Ok \<lparr>rc_selection = selection, rc_collateral = collateral\<rparr>))"

definition rc_id :: "request_class \<Rightarrow> request_class_id" where
  "rc_id c = sc_id (rc_selection c)"

record recipient_request_classes =
  rcs_alias :: alias_id
  rcs_recipient :: protocol_identity
  rcs_version :: u64
  rcs_classes :: "request_class list"

definition max_request_classes :: nat where
  "max_request_classes = 8"

definition recipient_classes_new ::
  "protocol_identity \<Rightarrow> alias_id \<Rightarrow> u64 \<Rightarrow> request_class list
     \<Rightarrow> (recipient_request_classes, protocol_error) res" where
  "recipient_classes_new recipient alias ver classes =
     fail_if (recipient = 0 \<or> ver = 0 \<or> length classes > max_request_classes
        \<or> card (set (map rc_id classes)) \<noteq> length classes) PtPolicyInvalid
     (Ok \<lparr>rcs_alias = alias, rcs_recipient = recipient, rcs_version = ver, rcs_classes = classes\<rparr>)"

section \<open>The pricing policy and its quotes\<close>

record pricing_policy =
  pp_version :: policy_version
  pp_unit :: settlement_unit
  pp_processing_charge :: money
  pp_collateral_min :: money
  pp_collateral_max :: money

definition pricing_policy_new ::
  "policy_version \<Rightarrow> settlement_unit \<Rightarrow> money \<Rightarrow> money \<Rightarrow> money \<Rightarrow> (pricing_policy, protocol_error) res" where
  "pricing_policy_new ver unit processing lo hi =
     fail_if (ver = 0 \<or> processing = 0 \<or> lo = 0 \<or> lo > hi \<or> money_checked_add processing hi = None)
       PtPolicyInvalid
     (Ok \<lparr>pp_version = ver, pp_unit = unit, pp_processing_charge = processing,
          pp_collateral_min = lo, pp_collateral_max = hi\<rparr>)"

definition collateral_in_bounds :: "money \<Rightarrow> money \<Rightarrow> money \<Rightarrow> bool" where
  "collateral_in_bounds amount minimum maximum \<longleftrightarrow> amount \<noteq> 0 \<and> minimum \<le> amount \<and> amount \<le> maximum"

definition quotable :: "pricing_policy \<Rightarrow> request_class \<Rightarrow> bool" where
  "quotable p c = collateral_in_bounds (rc_collateral c) (pp_collateral_min p) (pp_collateral_max p)"

definition policy_permits :: "pricing_policy \<Rightarrow> recipient_request_classes \<Rightarrow> bool" where
  "policy_permits p cs = list_all (quotable p) (rcs_classes cs)"

record sender_offer =
  so_policy_version :: policy_version
  so_processing_charge :: money
  so_classes :: "request_class list"

definition policy_sender_offer :: "pricing_policy \<Rightarrow> recipient_request_classes \<Rightarrow> sender_offer" where
  "policy_sender_offer p cs =
     \<lparr>so_policy_version = pp_version p, so_processing_charge = pp_processing_charge p,
      so_classes = filter (quotable p) (rcs_classes cs)\<rparr>"

definition class_status :: "pricing_policy \<Rightarrow> recipient_request_classes \<Rightarrow> (request_class \<times> bool) list" where
  "class_status p cs = map (\<lambda>c. (c, quotable p c)) (rcs_classes cs)"

datatype pricing_refusal = NoPolicy | ClassUnknown | ClassOutsidePolicy

primrec refusal_error :: "pricing_refusal \<Rightarrow> protocol_error" where
  "refusal_error NoPolicy = PtPolicyInvalid"
| "refusal_error ClassUnknown = PtRequestClassUnknown"
| "refusal_error ClassOutsidePolicy = PtRequestClassOutsidePolicy"

record request_price =
  pr_policy_version :: policy_version
  pr_unit :: settlement_unit
  pr_processing_charge :: money
  pr_collateral :: money
  pr_selected :: selected_request_class

datatype price_error = InvalidPrice

definition price_restore :: "request_price \<Rightarrow> (request_price, price_error) res" where
  "price_restore v =
     fail_if (pr_policy_version v = 0 \<or> pr_processing_charge v = 0 \<or> pr_collateral v = 0
        \<or> money_checked_add (pr_processing_charge v) (pr_collateral v) = None) InvalidPrice (Ok v)"

definition policy_quote ::
  "pricing_policy \<Rightarrow> recipient_request_classes \<Rightarrow> request_class_id \<Rightarrow> (request_price, pricing_refusal) res" where
  "policy_quote p cs i =
     and_then (ok_or (List.find (\<lambda>c. rc_id c = i) (rcs_classes cs)) ClassUnknown) (\<lambda>c.
     fail_if (\<not> quotable p c) ClassOutsidePolicy
     (Ok \<lparr>pr_policy_version = pp_version p, pr_unit = pp_unit p,
          pr_processing_charge = pp_processing_charge p, pr_collateral = rc_collateral c,
          pr_selected = rc_selection c\<rparr>))"

datatype quote_pricing = PricingNotRequested | PricingResolved request_price | PricingRefused pricing_refusal

definition pricing_resolve ::
  "pricing_policy option \<Rightarrow> recipient_request_classes option \<Rightarrow> request_class_id \<Rightarrow> quote_pricing" where
  "pricing_resolve p cs i =
     (case p of
        None \<Rightarrow> PricingRefused NoPolicy
      | Some policy \<Rightarrow>
          (case cs of
             None \<Rightarrow> PricingRefused ClassUnknown
           | Some classes \<Rightarrow>
               (case policy_quote policy classes i of
                  Ok price \<Rightarrow> PricingResolved price
                | Err refusal \<Rightarrow> PricingRefused refusal
                | Panic \<Rightarrow> PricingRefused NoPolicy)))"

text \<open>Form feedback: \<open>str::parse::<u64>\<close> accepts an optional plus sign and digits in range.\<close>

definition digits_value :: "nat list \<Rightarrow> nat" where
  "digits_value ds = fold (\<lambda>d acc. acc * 10 + (d - 48)) ds 0"

definition parse_u64 :: "string \<Rightarrow> u64 option" where
  "parse_u64 s =
     (let bs = (map of_char s :: nat list); ds = (case bs of b # rest \<Rightarrow> if b = 43 then rest else bs | [] \<Rightarrow> []) in
      if ds = [] \<or> \<not> list_all (\<lambda>d. 48 \<le> d \<and> d \<le> 57) ds then None
      else try_word (int (digits_value ds)))"

datatype collateral_issue = WholeAmountRequired | OutsideBounds | PolicyUnavailable

definition collateral_input_issue ::
  "string \<Rightarrow> money option \<Rightarrow> money option \<Rightarrow> collateral_issue option" where
  "collateral_input_issue input minimum maximum =
     (case (minimum, maximum) of
        (Some lo, Some hi) \<Rightarrow>
          if lo = 0 \<or> lo > hi then Some PolicyUnavailable
          else (case parse_u64 input of
                  None \<Rightarrow> Some WholeAmountRequired
                | Some amount \<Rightarrow> if \<not> collateral_in_bounds amount lo hi then Some OutsideBounds else None)
      | _ \<Rightarrow> Some PolicyUnavailable)"

section \<open>The kernel's policy snapshot\<close>

record policy_snapshot =
  ps_reply_lane :: reply_lane_terms
  ps_protocol_version :: protocol_version
  ps_policy_version :: policy_version
  ps_privacy_profile_version :: u16
  ps_retention_policy_version :: u16
  ps_recipient_provider :: provider_ref
  ps_unit :: settlement_unit
  ps_submission_window :: duration
  ps_decision_window :: duration
  ps_quote_lifetime :: duration
  ps_backoff :: "duration list"
  ps_financial :: financial_terms
  ps_payment_provider_key :: bytes32
  ps_expiry_cooldown :: duration
  ps_rejection_cooldown :: duration

definition backoff_for :: "policy_snapshot \<Rightarrow> u32 \<Rightarrow> duration" where
  "backoff_for p level =
     (if unat level < length (ps_backoff p) then ps_backoff p ! unat level
      else if ps_backoff p \<noteq> [] then last (ps_backoff p) else 0)"

text \<open>\<open>windows(2)\<close> compares each pair of neighbours.\<close>

fun steps_ascending :: "duration list \<Rightarrow> bool" where
  "steps_ascending (a # b # rest) = (a \<le> b \<and> steps_ascending (b # rest))"
| "steps_ascending _ = True"

definition policy_snapshot_validate :: "policy_snapshot \<Rightarrow> (unit, protocol_error) res" where
  "policy_snapshot_validate p =
     fail_if (\<not> is_ok (terms_validate (ps_financial p)) \<or> ps_payment_provider_key p = 0
        \<or> ps_decision_window p = 0 \<or> ps_backoff p = [] \<or> hd (ps_backoff p) \<noteq> 0
        \<or> \<not> steps_ascending (ps_backoff p)) PtPolicyInvalid (Ok ())"

section \<open>The published protocol policy\<close>

record protocol_policy =
  po_reply_lane :: reply_lane_terms
  po_version :: policy_version
  po_privacy_profile_version :: u16
  po_retention_policy_version :: u16
  po_submission_window :: duration
  po_decision_window :: duration
  po_quote_lifetime :: duration
  po_backoff :: "duration list"
  po_expiry_cooldown :: duration
  po_rejection_cooldown :: duration
  po_corporate_basis_points :: u16
  po_maturity_delay :: duration

definition max_backoff_steps :: nat where
  "max_backoff_steps = 16"

definition protocol_policy_new :: "protocol_policy \<Rightarrow> (protocol_policy, protocol_error) res" where
  "protocol_policy_new r =
     fail_if (po_version r = 0
        \<or> (po_submission_window r = 0 \<or> po_decision_window r = 0 \<or> po_quote_lifetime r = 0)
        \<or> po_backoff r = [] \<or> length (po_backoff r) > max_backoff_steps \<or> hd (po_backoff r) \<noteq> 0
        \<or> \<not> steps_ascending (po_backoff r) \<or> po_corporate_basis_points r > 10000) PtPolicyInvalid
     (Ok r)"

record deployment_terms =
  dt_protocol_version :: protocol_version
  dt_provider :: provider_ref
  dt_unit :: settlement_unit
  dt_financial_scope :: financial_scope
  dt_payment_provider_key :: bytes32

definition policy_snapshot_of ::
  "protocol_policy \<Rightarrow> deployment_terms \<Rightarrow> (policy_snapshot, protocol_error) res" where
  "policy_snapshot_of r d =
     fail_if (fs_protocol_version (dt_financial_scope d) \<noteq> dt_protocol_version d \<or> dt_payment_provider_key d = 0)
       PtPolicyInvalid
     (let snapshot = \<lparr>ps_reply_lane = po_reply_lane r, ps_protocol_version = dt_protocol_version d,
          ps_policy_version = po_version r, ps_privacy_profile_version = po_privacy_profile_version r,
          ps_retention_policy_version = po_retention_policy_version r, ps_recipient_provider = dt_provider d,
          ps_unit = dt_unit d, ps_submission_window = po_submission_window r,
          ps_decision_window = po_decision_window r, ps_quote_lifetime = po_quote_lifetime r,
          ps_backoff = po_backoff r,
          ps_financial = \<lparr>ft_scope = dt_financial_scope d, ft_policy_version = po_version r,
            ft_corporate_basis_points = po_corporate_basis_points r, ft_maturity_delay = po_maturity_delay r\<rparr>,
          ps_payment_provider_key = dt_payment_provider_key d,
          ps_expiry_cooldown = po_expiry_cooldown r, ps_rejection_cooldown = po_rejection_cooldown r\<rparr>
      in and_then (policy_snapshot_validate snapshot) (\<lambda>_. Ok snapshot))"

lemma steps_ascending_sorted: "steps_ascending xs \<longleftrightarrow> sorted xs"
  by (induction xs rule: steps_ascending.induct) (auto intro: order_trans)

section \<open>Properties\<close>

text \<open>
  A quote can always be charged.  Under a constructed policy, a resolved price is for the
  requested class of the publication, in the policy's unit and at its processing charge, with
  the class's collateral inside the published bounds; charge and collateral are non-zero and
  their sum is representable, so the stored price restores unchanged.
\<close>

theorem quote_is_chargeable:
  assumes "pricing_policy_new ver unit processing lo hi = Ok p"
    and "pricing_resolve (Some p) cs i = PricingResolved price"
  shows "(\<exists>classes c. cs = Some classes \<and> c \<in> set (rcs_classes classes) \<and> rc_id c = i
       \<and> pr_selected price = rc_selection c \<and> pr_collateral price = rc_collateral c)
     \<and> pr_unit price = unit \<and> pr_processing_charge price = processing
     \<and> lo \<le> pr_collateral price \<and> pr_collateral price \<le> hi
     \<and> price_restore price = Ok price"
proof -
  have p: "ver \<noteq> 0" "processing \<noteq> 0" "lo \<noteq> 0" "lo \<le> hi" "money_checked_add processing hi \<noteq> None"
    "p = \<lparr>pp_version = ver, pp_unit = unit, pp_processing_charge = processing,
          pp_collateral_min = lo, pp_collateral_max = hi\<rparr>"
    using assms(1) by (auto simp: pricing_policy_new_def)
  obtain classes where cs: "cs = Some classes" and q: "policy_quote p classes i = Ok price"
    using assms(2) by (auto simp: pricing_resolve_def split: option.splits res.splits)
  then obtain c where c: "List.find (\<lambda>c. rc_id c = i) (rcs_classes classes) = Some c" and ok: "quotable p c"
    and price: "price = \<lparr>pr_policy_version = pp_version p, pr_unit = pp_unit p,
          pr_processing_charge = pp_processing_charge p, pr_collateral = rc_collateral c,
          pr_selected = rc_selection c\<rparr>"
    by (auto simp: policy_quote_def)
  have mem: "c \<in> set (rcs_classes classes)" "rc_id c = i" using c by (auto simp: find_Some_iff)
  have bounds: "lo \<le> rc_collateral c" "rc_collateral c \<le> hi" "rc_collateral c \<noteq> 0"
    using ok by (simp_all add: quotable_def collateral_in_bounds_def p(6))
  have "unat (rc_collateral c) \<le> unat hi" using bounds(2) by (simp add: word_le_nat_alt)
  then have "money_checked_add processing (rc_collateral c) \<noteq> None"
    using p(5) by (simp add: money_checked_add_def checked_add_def split: if_splits)
  then show ?thesis
    using cs mem bounds p(1,2) by (auto simp: price price_restore_def p(6))
qed

text \<open>
  A validated policy drives the kernel.  Every policy that passes construction gives, under
  a consistent deployment, a snapshot that passes the kernel's own validation, and the waiting
  time it assigns never falls as the request level rises, starting at zero.
\<close>

theorem policy_snapshot_accepted:
  assumes "protocol_policy_new r = Ok r"
    and "fs_protocol_version (dt_financial_scope d) = dt_protocol_version d" and "dt_payment_provider_key d \<noteq> 0"
  shows "\<exists>s. policy_snapshot_of r d = Ok s \<and> policy_snapshot_validate s = Ok ()
     \<and> backoff_for s 0 = 0 \<and> (\<forall>a b. a \<le> b \<longrightarrow> backoff_for s a \<le> backoff_for s b)"
proof -
  have r: "po_decision_window r \<noteq> 0" "po_backoff r \<noteq> []" "hd (po_backoff r) = 0" "sorted (po_backoff r)"
    "po_corporate_basis_points r \<le> 10000"
    using assms(1) by (auto simp: protocol_policy_new_def steps_ascending_sorted)
  obtain s where s: "policy_snapshot_of r d = Ok s" and b: "ps_backoff s = po_backoff r"
    and v: "policy_snapshot_validate s = Ok ()"
    using assms(2,3) r
    by (auto simp: policy_snapshot_of_def policy_snapshot_validate_def terms_validate_def Let_def steps_ascending_sorted)
  have mono: "backoff_for s a \<le> backoff_for s c" if "a \<le> c" for a c
  proof -
    have "unat a \<le> unat c" using that by (simp add: word_le_nat_alt)
    then show ?thesis
      using r(2,4) by (auto simp: backoff_for_def b last_conv_nth intro!: sorted_nth_mono)
  qed
  have "backoff_for s 0 = 0" using r(2,3) by (simp add: backoff_for_def b hd_conv_nth)
  then show ?thesis using s v mono by blast
qed

section \<open>A concrete policy\<close>

definition sample_pricing :: pricing_policy where
  "sample_pricing = \<lparr>pp_version = 1, pp_unit = 1, pp_processing_charge = 2,
     pp_collateral_min = 5, pp_collateral_max = 20\<rparr>"

definition sample_class :: request_class where
  "sample_class = \<lparr>rc_selection = \<lparr>sc_id = 4, sc_description = ''intro''\<rparr>, rc_collateral = 10\<rparr>"

definition sample_classes :: recipient_request_classes where
  "sample_classes = \<lparr>rcs_alias = 1, rcs_recipient = 20, rcs_version = 1, rcs_classes = [sample_class]\<rparr>"

definition sample_price :: request_price where
  "sample_price = \<lparr>pr_policy_version = 1, pr_unit = 1, pr_processing_charge = 2, pr_collateral = 10,
     pr_selected = \<lparr>sc_id = 4, sc_description = ''intro''\<rparr>\<rparr>"

lemma sample_price_resolved:
  "pricing_policy_new 1 1 2 5 20 = Ok sample_pricing"
  "pricing_resolve (Some sample_pricing) (Some sample_classes) 4 = PricingResolved sample_price"
  by (simp_all add: pricing_policy_new_def money_checked_add_def checked_add_def sample_pricing_def
      pricing_resolve_def policy_quote_def sample_classes_def sample_class_def rc_id_def quotable_def
      collateral_in_bounds_def sample_price_def fail_if_def)

lemma quote_is_chargeable_witness: "5 \<le> pr_collateral sample_price \<and> price_restore sample_price = Ok sample_price"
  using quote_is_chargeable [OF sample_price_resolved] by blast

definition sample_reply_terms :: reply_lane_terms where
  "sample_reply_terms = \<lparr>rt_lifetime = 1000, rt_rate_limit = \<lparr>rl_max_messages = 1, rl_interval = 100\<rparr>,
     rt_purpose = Known Personal\<rparr>"

definition sample_protocol_policy :: protocol_policy where
  "sample_protocol_policy = \<lparr>po_reply_lane = sample_reply_terms, po_version = 1,
     po_privacy_profile_version = 1, po_retention_policy_version = 1, po_submission_window = 50,
     po_decision_window = 100, po_quote_lifetime = 30, po_backoff = [0, 5, 60], po_expiry_cooldown = 7,
     po_rejection_cooldown = 9, po_corporate_basis_points = 2500, po_maturity_delay = 10\<rparr>"

definition sample_deployment :: deployment_terms where
  "sample_deployment = \<lparr>dt_protocol_version = 1, dt_provider = 2, dt_unit = 1,
     dt_financial_scope = sample_scope, dt_payment_provider_key = 9\<rparr>"

lemma policy_snapshot_accepted_witness:
  "\<exists>s. policy_snapshot_of sample_protocol_policy sample_deployment = Ok s \<and> policy_snapshot_validate s = Ok ()"
proof -
  have "protocol_policy_new sample_protocol_policy = Ok sample_protocol_policy"
    by (simp add: protocol_policy_new_def sample_protocol_policy_def max_backoff_steps_def fail_if_def)
  from policy_snapshot_accepted [OF this, of sample_deployment] show ?thesis
    by (auto simp: sample_deployment_def sample_scope_def)
qed

end
