(* ===== verification/Protocol_Model.thy ===== *)
theory Protocol_Model
  imports Pricing Request_Financials "HOL-Library.FSet"
begin

text \<open>
  The records of the request protocol: \<open>crates/cs-mail-protocol/src/model.rs\<close>.  A relationship
  is one sender alias addressing one recipient; its requests carry a lifecycle; the request
  history (level, waiting time, the one reservation) is shared by the aliases of a principal.
  The lemmas give the monotonicity of a history and the consequences of a valid state: one
  unresolved request at most, and a map from identifiers to the requests that bear them.
\<close>

section \<open>Relationships and request histories\<close>

record relationship_key =
  rk_reference :: scoped_ref
  rk_sender :: protocol_identity
  rk_recipient :: protocol_identity

datatype relationship_state =
  RelUnknown | RelAccepted | RelExpressLane lane_id | RelRejected | RelRevoked | RelBlocked

definition sender_reply_restriction :: "relationship_state \<Rightarrow> reply_restriction option" where
  "sender_reply_restriction s =
     (case s of RelBlocked \<Rightarrow> Some RestrictedBlocked | RelRevoked \<Rightarrow> Some RestrictedRevoked | _ \<Rightarrow> None)"

record relationship =
  re_reply_epoch :: reply_epoch
  re_key :: relationship_key
  re_history :: scoped_ref
  re_generation :: u64
  re_state :: relationship_state
  re_version :: version
  re_last_event :: "event_ref option"
  re_changed_at :: canonical_time

record request_reservation =
  rv_relationship :: scoped_ref
  rv_request :: request_id

record request_history =
  hi_reference :: scoped_ref
  hi_recipient :: protocol_identity
  hi_level :: u32
  hi_earliest :: canonical_time
  hi_pending :: "request_reservation option"
  hi_version :: version
  hi_last_event :: "event_ref option"
  hi_changed_at :: canonical_time

definition history_new :: "scoped_ref \<Rightarrow> protocol_identity \<Rightarrow> canonical_time \<Rightarrow> request_history" where
  "history_new reference recipient now =
     \<lparr>hi_reference = reference, hi_recipient = recipient, hi_level = 0, hi_earliest = now,
      hi_pending = None, hi_version = 0, hi_last_event = None, hi_changed_at = now\<rparr>"

definition extend_cooldown ::
  "request_history \<Rightarrow> canonical_time \<Rightarrow> duration \<Rightarrow> canonical_time \<Rightarrow> event_ref
     \<Rightarrow> (request_history, protocol_error) res" where
  "extend_cooldown h from d now event =
     and_then (ok_or (time_checked_add from d) PtArithmeticOverflow) (\<lambda>next.
     and_then (ok_or (version_checked_next (hi_version h)) PtArithmeticOverflow) (\<lambda>ver.
     Ok (h\<lparr>hi_earliest := max (hi_earliest h) next, hi_version := ver,
           hi_last_event := Some event, hi_changed_at := now\<rparr>)))"

definition record_submission ::
  "request_history \<Rightarrow> request_reservation \<Rightarrow> canonical_time \<Rightarrow> duration \<Rightarrow> event_ref
     \<Rightarrow> (request_history, protocol_error) res" where
  "record_submission h reservation at backoff event =
     fail_if (hi_pending h \<noteq> Some reservation) PtQuoteVersionStale
     (and_then (ok_or (checked_add (hi_level h) 1) PtArithmeticOverflow) (\<lambda>next_level.
      and_then (extend_cooldown h at backoff at event) (\<lambda>h'.
      Ok (h'\<lparr>hi_level := next_level, hi_pending := None\<rparr>))))"

section \<open>Request lifecycles\<close>

record submission_preparation =
  sp_deadline :: canonical_time

record request_submission =
  su_at :: canonical_time
  su_decision_deadline :: canonical_time

datatype acceptance_permission = PermStanding | PermExpressLane lane_id

datatype request_lifecycle =
  PreparingSubmission submission_preparation
| AwaitingRecipientDecision request_submission
| LcAccepted acceptance_permission request_submission event_ref
| LcRejected request_submission event_ref
| LcExpired request_submission event_ref
| LcCancelled submission_preparation event_ref

definition awaits_decision_at :: "request_lifecycle \<Rightarrow> canonical_time \<Rightarrow> bool" where
  "awaits_decision_at l now =
     (case l of AwaitingRecipientDecision s \<Rightarrow> now \<le> su_decision_deadline s | _ \<Rightarrow> False)"

definition is_terminal :: "request_lifecycle \<Rightarrow> bool" where
  "is_terminal l = (case l of PreparingSubmission _ \<Rightarrow> False | AwaitingRecipientDecision _ \<Rightarrow> False | _ \<Rightarrow> True)"

definition is_awaiting_recipient_decision :: "request_lifecycle \<Rightarrow> bool" where
  "is_awaiting_recipient_decision l = (case l of AwaitingRecipientDecision _ \<Rightarrow> True | _ \<Rightarrow> False)"

definition is_preparing_submission :: "request_lifecycle \<Rightarrow> bool" where
  "is_preparing_submission l = (case l of PreparingSubmission _ \<Rightarrow> True | _ \<Rightarrow> False)"

definition lc_preparation :: "request_lifecycle \<Rightarrow> submission_preparation option" where
  "lc_preparation l =
     (case l of PreparingSubmission p \<Rightarrow> Some p | LcCancelled p _ \<Rightarrow> Some p | _ \<Rightarrow> None)"

definition lc_submission :: "request_lifecycle \<Rightarrow> request_submission option" where
  "lc_submission l =
     (case l of AwaitingRecipientDecision a \<Rightarrow> Some a | LcAccepted _ a _ \<Rightarrow> Some a
      | LcRejected a _ \<Rightarrow> Some a | LcExpired a _ \<Rightarrow> Some a | _ \<Rightarrow> None)"

lemma lifecycle_predicates [simp]:
  "\<not> is_terminal (PreparingSubmission p)" "\<not> is_terminal (AwaitingRecipientDecision a)"
  "is_terminal (LcAccepted m a e)" "is_terminal (LcRejected a e)" "is_terminal (LcExpired a e)"
  "is_terminal (LcCancelled p e)"
  "is_preparing_submission (PreparingSubmission p)" "is_awaiting_recipient_decision (AwaitingRecipientDecision a)"
  "lc_preparation (PreparingSubmission p) = Some p" "lc_submission (AwaitingRecipientDecision a) = Some a"
  by (simp_all add: is_terminal_def is_preparing_submission_def is_awaiting_recipient_decision_def
      lc_preparation_def lc_submission_def)

lemma is_preparing_iff: "is_preparing_submission l \<longleftrightarrow> (\<exists>p. l = PreparingSubmission p)"
  by (simp add: is_preparing_submission_def split: request_lifecycle.splits)

lemma is_awaiting_iff: "is_awaiting_recipient_decision l \<longleftrightarrow> (\<exists>a. l = AwaitingRecipientDecision a)"
  by (simp add: is_awaiting_recipient_decision_def split: request_lifecycle.splits)

lemma not_terminal_iff: "\<not> is_terminal l \<longleftrightarrow> is_preparing_submission l \<or> is_awaiting_recipient_decision l"
  by (simp add: is_terminal_def is_preparing_submission_def is_awaiting_recipient_decision_def
      split: request_lifecycle.splits)

section \<open>Requests\<close>

datatype request_reply_agreement = NotOffered | Agreed reply_lane_terms

definition ra_agreed :: "request_reply_agreement \<Rightarrow> reply_lane_terms option" where
  "ra_agreed a = (case a of NotOffered \<Rightarrow> None | Agreed terms \<Rightarrow> Some terms)"

datatype request_return_route = NativeRoute alias_id | GuestMailbox

record request_terms =
  qt_return_route :: request_return_route
  qt_receiving_alias :: alias_id
  qt_reply_lane :: request_reply_agreement
  qt_selected_class :: selected_request_class
  qt_pricing_policy_version :: policy_version
  qt_quote_id :: quote_id
  qt_protocol_version :: protocol_version
  qt_policy_version :: policy_version
  qt_privacy_profile_version :: u16
  qt_retention_policy_version :: u16
  qt_relationship :: scoped_ref
  qt_request_history :: scoped_ref
  qt_sender :: protocol_identity
  qt_recipient :: protocol_identity
  qt_recipient_provider :: provider_ref
  qt_relationship_version :: version
  qt_history_version :: version
  qt_processing_charge :: money
  qt_collateral :: money
  qt_request_level :: u32
  qt_eligibility_time :: canonical_time
  qt_unit :: settlement_unit
  qt_submission_window :: duration
  qt_decision_window :: duration
  qt_issued_at :: canonical_time
  qt_expires_at :: canonical_time
  qt_declaration_digest :: "bytes32 option"
  qt_financial :: financial_terms
  qt_payment_provider_key :: bytes32
  qt_expiry_cooldown :: duration
  qt_rejection_cooldown :: duration
  qt_next_request_backoff :: duration

definition charge_amount :: "request_terms \<Rightarrow> (money, protocol_error) res" where
  "charge_amount t =
     ok_or (money_checked_add (qt_processing_charge t) (qt_collateral t)) PtArithmeticOverflow"

record relationship_request =
  rq_creation_key :: operational_key_ref
  rq_creation_event :: event_ref
  rq_id :: request_id
  rq_generation :: u64
  rq_initial_message :: message_id
  rq_funding :: payment_operation_id
  rq_terms :: request_terms
  rq_created_at :: canonical_time
  rq_lifecycle :: request_lifecycle
  rq_version :: version

definition reservation :: "relationship_request \<Rightarrow> request_reservation" where
  "reservation r = \<lparr>rv_relationship = qt_relationship (rq_terms r), rv_request = rq_id r\<rparr>"

section \<open>Messages and follow-ups\<close>

datatype admission_basis =
  BasisAliasLane alias_id u64
| BasisConversationReply message_id
| BasisRequestAnswer request_reservation event_ref
| BasisInitialRequest request_id
| BasisRequestFollowup request_id version
| BasisAcceptedRelationship version
| BasisExpressLane lane_id version

record message =
  ms_id :: message_id
  ms_relationship :: scoped_ref
  ms_content :: content_ref
  ms_delivery :: delivery_intent_ref
  ms_declaration :: bytes32
  ms_valid_until :: canonical_time
  ms_admitted_at :: canonical_time
  ms_basis :: admission_basis

record followup_policy =
  fp_version :: version
  fp_max_messages :: u32
  fp_max_per_interval :: u32
  fp_interval :: duration

definition default_followup_policy :: followup_policy where
  "default_followup_policy = \<lparr>fp_version = 0, fp_max_messages = 0, fp_max_per_interval = 0, fp_interval = 0\<rparr>"

section \<open>The protocol state and the settlement snapshot\<close>

record protocol_state =
  st_followup_policy :: followup_policy
  st_quotes :: "(quote_id, request_terms) btmap"
  st_used_quotes :: "quote_id fset"
  st_relationship :: relationship
  st_requests :: "(request_id, relationship_request) btmap"

definition owned_by :: "relationship_key \<Rightarrow> request_id \<Rightarrow> relationship_request \<Rightarrow> bool" where
  "owned_by key i r \<longleftrightarrow>
     i = rq_id r \<and> rq_id r \<noteq> 0
     \<and> qt_relationship (rq_terms r) = rk_reference key
     \<and> qt_sender (rq_terms r) = rk_sender key
     \<and> qt_recipient (rq_terms r) = rk_recipient key"

definition state_validate :: "protocol_state \<Rightarrow> (unit, protocol_error) res" where
  "state_validate s =
     fail_if (length (filter (\<lambda>r. \<not> is_terminal (rq_lifecycle r)) (bt_values (st_requests s))) > 1
        \<or> list_ex (\<lambda>(i, r). \<not> owned_by (re_key (st_relationship s)) i r) (bt_entries (st_requests s)))
       PtInvalidState (Ok ())"

definition active_request :: "protocol_state \<Rightarrow> relationship_request option" where
  "active_request s = List.find (\<lambda>r. \<not> is_terminal (rq_lifecycle r)) (bt_values (st_requests s))"

definition initial_scoped ::
  "scoped_ref \<Rightarrow> scoped_ref \<Rightarrow> protocol_identity \<Rightarrow> protocol_identity \<Rightarrow> canonical_time \<Rightarrow> protocol_state" where
  "initial_scoped relationship history sender recipient now =
     \<lparr>st_followup_policy = default_followup_policy, st_quotes = bt_empty, st_used_quotes = {||},
      st_relationship = \<lparr>re_reply_epoch = 0,
        re_key = \<lparr>rk_reference = relationship, rk_sender = sender, rk_recipient = recipient\<rparr>,
        re_history = history, re_generation = 0, re_state = RelUnknown, re_version = 0,
        re_last_event = None, re_changed_at = now\<rparr>,
      st_requests = bt_empty\<rparr>"

record settlement_snapshot =
  sn_lane :: "sender_scoped_lane option"
  sn_revision :: u64
  sn_state :: protocol_state
  sn_history :: request_history
  sn_payments :: "(request_id, request_financials) btmap"
  sn_messages :: "(message_id, message) btmap"
  sn_ledger :: ledger_view
  sn_complete :: bool

definition snapshot_complete ::
  "u64 \<Rightarrow> protocol_state \<Rightarrow> request_history \<Rightarrow> (request_id, request_financials) btmap
     \<Rightarrow> (message_id, message) btmap \<Rightarrow> ledger_view \<Rightarrow> settlement_snapshot" where
  "snapshot_complete revision state history payments messages ledger =
     \<lparr>sn_lane = None, sn_revision = revision, sn_state = state, sn_history = history,
      sn_payments = payments, sn_messages = messages, sn_ledger = ledger, sn_complete = True\<rparr>"

definition request_messages :: "settlement_snapshot \<Rightarrow> request_id \<Rightarrow> message list" where
  "request_messages s i =
     filter (\<lambda>m. case ms_basis m of BasisInitialRequest r \<Rightarrow> r = i | BasisRequestFollowup r _ \<Rightarrow> r = i | _ \<Rightarrow> False)
       (bt_values (sn_messages s))"

section \<open>Valid states\<close>

lemma bt_filter_values_le_one:
  "length (filter P (bt_values m)) \<le> 1 \<longleftrightarrow>
     (\<forall>i j v w. bt_get m i = Some v \<longrightarrow> bt_get m j = Some w \<longrightarrow> P v \<longrightarrow> P w \<longrightarrow> i = j)"
proof -
  let ?xs = "filter (P \<circ> snd) (bt_entries m)"
  have d: "distinct ?xs" using bt_distinct [of m] by (simp add: distinct_map)
  have "length (filter P (bt_values m)) = card (set ?xs)"
    using distinct_card [OF d] by (simp add: bt_values_def filter_map)
  also have "\<dots> \<le> 1 \<longleftrightarrow> (\<forall>x\<in>set ?xs. \<forall>y\<in>set ?xs. x = y)"
    by (simp add: card_le_Suc0_iff_eq)
  also have "\<dots> \<longleftrightarrow> (\<forall>i j v w. bt_get m i = Some v \<longrightarrow> bt_get m j = Some w \<longrightarrow> P v \<longrightarrow> P w \<longrightarrow> i = j)"
    by (auto simp: bt_get_Some [symmetric]) (metis option.inject)
  finally show ?thesis .
qed

definition unresolved_unique :: "protocol_state \<Rightarrow> bool" where
  "unresolved_unique s \<longleftrightarrow>
     (\<forall>i j r q. bt_get (st_requests s) i = Some r \<longrightarrow> bt_get (st_requests s) j = Some q
        \<longrightarrow> \<not> is_terminal (rq_lifecycle r) \<longrightarrow> \<not> is_terminal (rq_lifecycle q) \<longrightarrow> i = j)"

lemma state_validate_iff:
  "state_validate s = Ok () \<longleftrightarrow>
     unresolved_unique s
     \<and> (\<forall>i r. bt_get (st_requests s) i = Some r \<longrightarrow> owned_by (re_key (st_relationship s)) i r)"
  using bt_filter_values_le_one [of "\<lambda>r. \<not> is_terminal (rq_lifecycle r)" "st_requests s"]
  by (auto simp: state_validate_def unresolved_unique_def list_ex_iff bt_get_Some not_less)

lemma active_request_SomeD:
  assumes "active_request s = Some r"
  shows "\<not> is_terminal (rq_lifecycle r)" and "\<exists>i. bt_get (st_requests s) i = Some r"
  using assms by (auto simp: active_request_def find_Some_iff bt_values_iff [symmetric])

lemma active_request_None:
  "active_request s = None \<longleftrightarrow> (\<forall>i r. bt_get (st_requests s) i = Some r \<longrightarrow> is_terminal (rq_lifecycle r))"
  by (auto simp: active_request_def find_None_iff bt_values_iff)

lemma valid_active_request:
  assumes "state_validate s = Ok ()" and "active_request s = Some r"
  shows "bt_get (st_requests s) (rq_id r) = Some r" and "\<not> is_terminal (rq_lifecycle r)"
  using assms active_request_SomeD [of s r] by (auto simp: state_validate_iff owned_by_def)

lemma valid_active_unique:
  assumes "state_validate s = Ok ()" and "active_request s = Some r"
    and "bt_get (st_requests s) i = Some q" and "\<not> is_terminal (rq_lifecycle q)"
  shows "i = rq_id r \<and> q = r"
proof -
  have "i = rq_id r"
    using assms(1,3,4) valid_active_request [OF assms(1,2)]
    unfolding state_validate_iff unresolved_unique_def by blast
  then show ?thesis using assms(3) valid_active_request [OF assms(1,2)] by simp
qed

lemma extend_cooldown_Ok:
  assumes "extend_cooldown h from d now event = Ok h'"
  shows "unat (hi_earliest h') \<ge> unat from + unat d" and "hi_earliest h \<le> hi_earliest h'"
    and "hi_level h' = hi_level h" and "hi_pending h' = hi_pending h"
    and "hi_reference h' = hi_reference h" and "hi_recipient h' = hi_recipient h"
    and "unat (hi_version h') = Suc (unat (hi_version h))"
  using assms by (auto simp: extend_cooldown_def num_simps max_def word_le_nat_alt)

lemma record_submission_Ok:
  assumes "record_submission h rv at backoff event = Ok h'"
  shows "hi_pending h = Some rv" and "hi_pending h' = None"
    and "unat (hi_level h') = Suc (unat (hi_level h))"
    and "unat (hi_earliest h') \<ge> unat at + unat backoff" and "hi_earliest h \<le> hi_earliest h'"
    and "hi_reference h' = hi_reference h" and "hi_recipient h' = hi_recipient h"
    and "unat (hi_version h') = Suc (unat (hi_version h))"
proof -
  obtain l h1 where h: "hi_pending h = Some rv" "checked_add (hi_level h) 1 = Some l"
    "extend_cooldown h at backoff at event = Ok h1" "h' = h1\<lparr>hi_level := l, hi_pending := None\<rparr>"
    using assms by (auto simp: record_submission_def)
  show "hi_pending h = Some rv" "hi_pending h' = None" "unat (hi_level h') = Suc (unat (hi_level h))"
    "unat (hi_earliest h') \<ge> unat at + unat backoff" "hi_earliest h \<le> hi_earliest h'"
    "hi_reference h' = hi_reference h" "hi_recipient h' = hi_recipient h"
    "unat (hi_version h') = Suc (unat (hi_version h))"
    using h extend_cooldown_Ok [OF h(3)] by (simp_all add: num_simps)
qed

end
