(* ===== verification/Kernel.thy ===== *)
theory Kernel
  imports Protocol_Model
begin

text \<open>
  The deterministic protocol kernel: \<open>transition\<close>, \<open>receive_native_request\<close> and
  \<open>accept_express_lane\<close> of \<open>crates/cs-mail-protocol/src/lib.rs\<close>.  Every handler takes the
  manifest under construction (the record \<open>builder\<close>, the source's \<open>ManifestBuilder\<close>) and
  returns the next one, an error, or the panic of an index expression.  This theory holds the
  definitions and their branch lemmas; the properties are in the theories that import it.
\<close>

section \<open>Contexts, actors and commands\<close>

datatype request_permission = PermissionNotRequested | BondedRequest | DirectContact

datatype delivery_route = GuestRelay | NativeMailboxes

text \<open>\<open>cx_admission\<close> is the source's \<open>Result<(), AdmissionFailure>\<close>: \<open>Some f\<close> is \<open>Err(f)\<close>.\<close>

record transition_context =
  cx_permission :: request_permission
  cx_delivery :: delivery_route
  cx_admission :: "admission_failure option"
  cx_now :: canonical_time
  cx_journal_position :: u64
  cx_protocol_version :: protocol_version
  cx_policy :: policy_snapshot
  cx_pricing :: quote_pricing

datatype actor_ref =
  ActSender protocol_identity
| ActRecipient protocol_identity
| ActProvider provider_ref
| ActScheduler provider_ref

datatype cancellation_reason = SenderRequested | TimeoutReason | PreSubmissionFailure

record submission_input =
  si_request :: request_id
  si_expected_version :: version
  si_content :: content_ref
  si_delivery :: delivery_intent_ref
  si_declaration :: bytes32
  si_valid_until :: canonical_time

datatype protocol_command =
  RecordPayment request_id signed_payment_evidence
| SetFollowupPolicy version followup_policy
| AdmitFollowup request_id message_id content_ref delivery_intent_ref bytes32 canonical_time version
| IssueRequestTerms request_return_route alias_id request_class_id quote_id "bytes32 option"
| CreateRequest bytes32 request_id message_id request_terms
| SubmitRequestToRecipient submission_input
| CancelRequestSubmission request_id version cancellation_reason
| AcceptRelationship version
| RejectRelationship version
| BlockRelationship version
| UnblockRelationship version
| ExpireRequest request_id version
| RevokeRelationship version

record kernel_command =
  kc_command :: protocol_command
  kc_actor :: actor_ref
  kc_key :: operational_key_ref
  kc_idempotency_key :: idempotency_key

section \<open>Events, effects and the manifest\<close>

datatype terms_outcome = ChargeRequired request_terms | NoChargeRequired | ExistingRequest request_id

datatype effect_intent =
  ExecutePayment request_id payment_operation_id
| DeliverMessage message_id content_ref delivery_intent_ref
| EstablishRequestSolicitation request_id u64
| ReviewLane lane_id bool

datatype event_kind =
  PaymentRecorded request_id
| FollowupPolicyChanged
| FollowupAdmitted request_id message_id
| TermsIssued
| RequestCreated request_id
| RequestSubmitted request_id
| RequestAnswersGranted request_reservation
| RequestSubmissionCancelled request_id
| RequestPreparationSuperseded request_id request_reservation
| RequestHistoryChanged request_id
| MessageValidityClosedEvent request_id
| DeclarationMismatchEvent request_id
| RelationshipAcceptedEvent
| RelationshipLaneGranted lane_id
| RelationshipRejectedEvent
| RelationshipBlockedEvent
| RelationshipUnblocked
| RelationshipRevokedEvent
| RequestExpiredEvent request_id

record protocol_event =
  ev_reference :: event_ref
  ev_at :: canonical_time
  ev_kind :: event_kind

record committed_transition =
  ct_journal_position :: u64
  ct_events :: "protocol_event list"
  ct_terms :: "terms_outcome option"
  ct_delivered :: bool

record transition_manifest =
  tm_mailbox_deliveries :: "message_id list"
  tm_lane_revocation :: "lane_revocation option"
  tm_forfeitures :: "forfeiture list"
  tm_forfeiture_holds :: "payment_operation_id list"
  tm_expected_snapshot_revision :: u64
  tm_expected_ledger_revision :: u64
  tm_next_state :: protocol_state
  tm_next_history :: request_history
  tm_next_payments :: "(request_id, request_financials) btmap"
  tm_next_messages :: "(message_id, message) btmap"
  tm_ledger_batch :: ledger_batch
  tm_schedules :: "schedule_change list"
  tm_events :: "protocol_event list"
  tm_effects :: "effect_intent list"
  tm_terms :: "terms_outcome option"

definition is_delivery :: "effect_intent \<Rightarrow> bool" where
  "is_delivery e = (case e of DeliverMessage _ _ _ \<Rightarrow> True | _ \<Rightarrow> False)"

definition manifest_committed :: "transition_manifest \<Rightarrow> u64 \<Rightarrow> committed_transition" where
  "manifest_committed m position =
     \<lparr>ct_journal_position = position, ct_events = tm_events m, ct_terms = tm_terms m,
      ct_delivered = (tm_mailbox_deliveries m \<noteq> [] \<or> list_ex is_delivery (tm_effects m))\<rparr>"

primrec ledger_to_protocol :: "ledger_error \<Rightarrow> protocol_error" where
  "ledger_to_protocol (LedgerInsufficientFunds _ _ _) = PtInsufficientFunds"
| "ledger_to_protocol LedgerArithmeticOverflow = PtArithmeticOverflow"
| "ledger_to_protocol LedgerVersionConflict = PtVersionConflict"
| "ledger_to_protocol LedgerInvalidBatch = PtLedgerInvariant"

section \<open>The manifest under construction\<close>

record builder =
  mb_route :: delivery_route
  mb_mailbox :: "message_id list"
  mb_lane :: "sender_scoped_lane option"
  mb_lane_revocation :: "lane_revocation option"
  mb_next :: protocol_state
  mb_history :: request_history
  mb_payments :: "(request_id, request_financials) btmap"
  mb_messages :: "(message_id, message) btmap"
  mb_forfeitures :: "forfeiture list"
  mb_holds :: "payment_operation_id list"
  mb_batch :: ledger_batch
  mb_schedules :: "schedule_change list"
  mb_events :: "protocol_event list"
  mb_effects :: "effect_intent list"
  mb_terms :: "terms_outcome option"
  mb_event :: event_ref
  mb_now :: canonical_time

definition builder_new :: "settlement_snapshot \<Rightarrow> transition_context \<Rightarrow> builder" where
  "builder_new s cx =
     \<lparr>mb_route = cx_delivery cx, mb_mailbox = [], mb_lane = sn_lane s, mb_lane_revocation = None,
      mb_next = sn_state s, mb_history = sn_history s, mb_payments = sn_payments s,
      mb_messages = sn_messages s, mb_forfeitures = [], mb_holds = [], mb_batch = [],
      mb_schedules = [], mb_events = [], mb_effects = [], mb_terms = None,
      mb_event = cx_journal_position cx, mb_now = cx_now cx\<rparr>"

definition mb_deliver :: "builder \<Rightarrow> message_id \<Rightarrow> content_ref \<Rightarrow> delivery_intent_ref \<Rightarrow> builder" where
  "mb_deliver b message content intent =
     (case mb_route b of
        NativeMailboxes \<Rightarrow> b\<lparr>mb_mailbox := mb_mailbox b @ [message]\<rparr>
      | GuestRelay \<Rightarrow> b\<lparr>mb_effects := mb_effects b @ [DeliverMessage message content intent]\<rparr>)"

definition emit :: "builder \<Rightarrow> event_kind \<Rightarrow> builder" where
  "emit b kind = b\<lparr>mb_events := mb_events b
     @ [\<lparr>ev_reference = mb_event b, ev_at = mb_now b, ev_kind = kind\<rparr>]\<rparr>"

definition builder_finish :: "settlement_snapshot \<Rightarrow> builder \<Rightarrow> (transition_manifest, protocol_error) res" where
  "builder_finish s b =
     and_then (map_err ledger_to_protocol (view_apply (sn_ledger s) (mb_batch b))) (\<lambda>_.
     Ok \<lparr>tm_mailbox_deliveries = mb_mailbox b, tm_lane_revocation = mb_lane_revocation b,
        tm_forfeitures = mb_forfeitures b, tm_forfeiture_holds = mb_holds b,
        tm_expected_snapshot_revision = sn_revision s,
        tm_expected_ledger_revision = lv_revision (sn_ledger s),
        tm_next_state = mb_next b, tm_next_history = mb_history b, tm_next_payments = mb_payments b,
        tm_next_messages = mb_messages b, tm_ledger_batch = mb_batch b, tm_schedules = mb_schedules b,
        tm_events = mb_events b, tm_effects = mb_effects b, tm_terms = mb_terms b\<rparr>)"

text \<open>Updates of one part of the state under construction.\<close>

definition put_request :: "request_id \<Rightarrow> relationship_request \<Rightarrow> builder \<Rightarrow> builder" where
  "put_request i r b =
     b\<lparr>mb_next := (mb_next b)\<lparr>st_requests := bt_insert i r (st_requests (mb_next b))\<rparr>\<rparr>"

definition schedule :: "schedule_change \<Rightarrow> builder \<Rightarrow> builder" where
  "schedule x b = b\<lparr>mb_schedules := mb_schedules b @ [x]\<rparr>"

definition upd_relationship :: "(relationship \<Rightarrow> relationship) \<Rightarrow> builder \<Rightarrow> builder" where
  "upd_relationship f b =
     b\<lparr>mb_next := (mb_next b)\<lparr>st_relationship := f (st_relationship (mb_next b))\<rparr>\<rparr>"

definition find_request :: "builder \<Rightarrow> request_id \<Rightarrow> relationship_request option" where
  "find_request b i = bt_get (st_requests (mb_next b)) i"

definition rel_state :: "builder \<Rightarrow> relationship_state" where
  "rel_state b = re_state (st_relationship (mb_next b))"

definition next_version :: "version \<Rightarrow> (version, protocol_error) res" where
  "next_version v = ok_or (version_checked_next v) PtArithmeticOverflow"

section \<open>Money\<close>

definition apply_financial_effects :: "builder \<Rightarrow> request_id \<Rightarrow> financial_effects \<Rightarrow> builder" where
  "apply_financial_effects b i fx =
     b\<lparr>mb_batch := fold (\<lambda>t. batch_transfer (tr_from t) (tr_to t) (tr_amount t)) (fe_postings fx) (mb_batch b),
       mb_effects := mb_effects b @ map (ExecutePayment i) (fe_operations fx),
       mb_forfeitures := mb_forfeitures b @ fe_forfeitures fx,
       mb_holds := mb_holds b @ fe_holds fx\<rparr>"

definition payment_to_protocol :: "payment_error \<Rightarrow> protocol_error" where
  "payment_to_protocol e = (case e of PayDuplicateConflict \<Rightarrow> PtDuplicateConflict | _ \<Rightarrow> PtPaymentInvalid)"

definition settle_financials ::
  "builder \<Rightarrow> request_id \<Rightarrow> request_settlement \<Rightarrow> (builder, protocol_error) res" where
  "settle_financials b i settlement =
     and_then (ok_or (bt_get (mb_payments b) i) PtIncompleteSnapshot) (\<lambda>p.
     and_then (map_err payment_to_protocol (rf_settle p settlement (mb_now b))) (\<lambda>(p', fx).
     Ok (apply_financial_effects (b\<lparr>mb_payments := bt_insert i p' (mb_payments b)\<rparr>) i fx)))"

definition apply_cooldown :: "builder \<Rightarrow> canonical_time \<Rightarrow> duration \<Rightarrow> (builder, protocol_error) res" where
  "apply_cooldown b from d =
     and_then (extend_cooldown (mb_history b) from d (mb_now b) (mb_event b)) (\<lambda>h.
     Ok (b\<lparr>mb_history := h\<rparr>))"

definition release_reservation :: "relationship_request \<Rightarrow> builder \<Rightarrow> builder" where
  "release_reservation r b =
     (if hi_pending (mb_history b) = Some (reservation r)
      then b\<lparr>mb_history := (mb_history b)\<lparr>hi_pending := None\<rparr>\<rparr> else b)"

text \<open>
  The source binds the request as \<open>&mut\<close> and has changed it when the version overflows; the
  error discards the manifest.
\<close>

definition record_payment ::
  "crypto \<Rightarrow> builder \<Rightarrow> request_id \<Rightarrow> signed_payment_evidence \<Rightarrow> (builder, protocol_error) res" where
  "record_payment c b i receipt =
     and_then (ok_or (bt_get (mb_payments b) i) PtMissingRecord) (\<lambda>p.
     and_then (map_err payment_to_protocol (rf_record_payment c p receipt)) (\<lambda>(p', fx).
     let b1 = b\<lparr>mb_payments := bt_insert i p' (mb_payments b)\<rparr> in
     and_then
       (case find_request b1 i of
          Some r \<Rightarrow>
            (case (fe_capture_voided fx, rq_lifecycle r) of
               (True, PreparingSubmission preparation) \<Rightarrow>
                 and_then (next_version (rq_version r)) (\<lambda>ver.
                 let r' = r\<lparr>rq_lifecycle := LcCancelled preparation (mb_event b1), rq_version := ver\<rparr> in
                 Ok (schedule (CancelTask (SubmissionTimeout i))
                      (release_reservation r' (put_request i r' b1))))
             | _ \<Rightarrow> Ok b1)
        | None \<Rightarrow> Ok b1)
       (\<lambda>b2. Ok (emit (apply_financial_effects b2 i fx) (PaymentRecorded i)))))"

section \<open>Cancelling and settling a request\<close>

datatype reserved_cancellation =
  HistoryChangedCancellation | OrdinaryCancellation | ValidityClosedCancellation | DeclarationMismatchCancellation

primrec cancellation_event :: "reserved_cancellation \<Rightarrow> request_id \<Rightarrow> event_kind" where
  "cancellation_event HistoryChangedCancellation i = RequestHistoryChanged i"
| "cancellation_event OrdinaryCancellation i = RequestSubmissionCancelled i"
| "cancellation_event ValidityClosedCancellation i = MessageValidityClosedEvent i"
| "cancellation_event DeclarationMismatchCancellation i = DeclarationMismatchEvent i"

definition cancel_submission ::
  "builder \<Rightarrow> request_id \<Rightarrow> reserved_cancellation \<Rightarrow> (builder, protocol_error) res" where
  "cancel_submission b i cancellation =
     and_then (ok_or (find_request b i) PtMissingRecord) (\<lambda>r.
     fail_if (\<not> is_preparing_submission (rq_lifecycle r)) PtAlreadyTerminal
     (and_then (ok_or (lc_preparation (rq_lifecycle r)) PtInvalidState) (\<lambda>preparation.
      and_then (next_version (rq_version r)) (\<lambda>ver.
      let r' = r\<lparr>rq_lifecycle := LcCancelled preparation (mb_event b), rq_version := ver\<rparr> in
      and_then (settle_financials (release_reservation r' b) (rq_id r') SettledCancelled) (\<lambda>b'.
      Ok (emit (schedule (CancelTask (SubmissionTimeout (rq_id r'))) (put_request (rq_id r') r' b'))
            (cancellation_event cancellation (rq_id r'))))))))"

definition settle_accepted ::
  "builder \<Rightarrow> request_id \<Rightarrow> acceptance_permission \<Rightarrow> (builder, protocol_error) res" where
  "settle_accepted b i permission =
     and_then (or_panic (find_request b i)) (\<lambda>r.
     fail_if (\<not> is_awaiting_recipient_decision (rq_lifecycle r)) PtInvalidState
     (and_then (settle_financials b i SettledAccepted) (\<lambda>b'.
      and_then (ok_or (lc_submission (rq_lifecycle r)) PtInvalidState) (\<lambda>submission.
      and_then (next_version (rq_version r)) (\<lambda>ver.
      Ok (schedule (CancelTask (RequestExpiry i))
           (put_request i (r\<lparr>rq_lifecycle := LcAccepted permission submission (mb_event b'),
              rq_version := ver\<rparr>) b')))))))"

definition settle_rejected :: "builder \<Rightarrow> request_id \<Rightarrow> (builder, protocol_error) res" where
  "settle_rejected b i =
     and_then (or_panic (find_request b i)) (\<lambda>r.
     fail_if (\<not> is_awaiting_recipient_decision (rq_lifecycle r)) PtInvalidState
     (and_then (settle_financials b i SettledRejected) (\<lambda>b'.
      and_then (apply_cooldown b' (mb_now b') (qt_rejection_cooldown (rq_terms r))) (\<lambda>b''.
      and_then (ok_or (lc_submission (rq_lifecycle r)) PtInvalidState) (\<lambda>submission.
      and_then (next_version (rq_version r)) (\<lambda>ver.
      Ok (schedule (CancelTask (RequestExpiry i))
           (put_request i (r\<lparr>rq_lifecycle := LcRejected submission (mb_event b''),
              rq_version := ver\<rparr>) b''))))))))"

definition settle_expired :: "builder \<Rightarrow> request_id \<Rightarrow> (builder, protocol_error) res" where
  "settle_expired b i =
     and_then (or_panic (find_request b i)) (\<lambda>r.
     fail_if (\<not> is_awaiting_recipient_decision (rq_lifecycle r)) PtInvalidState
     (and_then (settle_financials b i SettledExpired) (\<lambda>b'.
      and_then (ok_or (lc_submission (rq_lifecycle r)) PtInvalidState) (\<lambda>submission.
      and_then (apply_cooldown b' (su_decision_deadline submission) (qt_expiry_cooldown (rq_terms r))) (\<lambda>b''.
      and_then (next_version (rq_version r)) (\<lambda>ver.
      Ok (schedule (CancelTask (RequestExpiry i))
           (put_request i (r\<lparr>rq_lifecycle := LcExpired submission (mb_event b''),
              rq_version := ver\<rparr>) b''))))))))"

section \<open>Terms and the creation of a request\<close>

definition set_followup_policy ::
  "builder \<Rightarrow> version \<Rightarrow> followup_policy \<Rightarrow> (builder, protocol_error) res" where
  "set_followup_policy b expected policy =
     fail_if (fp_version (st_followup_policy (mb_next b)) \<noteq> expected) PtVersionConflict
     (fail_if (fp_max_messages policy > 0 \<and> (fp_max_per_interval policy = 0 \<or> fp_interval policy = 0))
        PtPolicyInvalid
     (and_then (next_version expected) (\<lambda>ver.
      Ok (emit (b\<lparr>mb_next := (mb_next b)\<lparr>st_followup_policy := policy\<lparr>fp_version := ver\<rparr>\<rparr>\<rparr>)
            FollowupPolicyChanged))))"

definition issued_terms ::
  "builder \<Rightarrow> transition_context \<Rightarrow> request_return_route \<Rightarrow> alias_id \<Rightarrow> quote_id \<Rightarrow> bytes32 option
     \<Rightarrow> canonical_time \<Rightarrow> request_price \<Rightarrow> u32 \<Rightarrow> request_terms" where
  "issued_terms b cx return_route alias quote digest expires_at price next_level =
     (let policy = cx_policy cx; key = re_key (st_relationship (mb_next b)) in
      \<lparr>qt_return_route = return_route, qt_receiving_alias = alias,
       qt_reply_lane = Agreed (ps_reply_lane policy), qt_selected_class = pr_selected price,
       qt_pricing_policy_version = pr_policy_version price, qt_quote_id = quote,
       qt_protocol_version = cx_protocol_version cx, qt_policy_version = ps_policy_version policy,
       qt_privacy_profile_version = ps_privacy_profile_version policy,
       qt_retention_policy_version = ps_retention_policy_version policy,
       qt_relationship = rk_reference key, qt_request_history = hi_reference (mb_history b),
       qt_sender = rk_sender key, qt_recipient = rk_recipient key,
       qt_recipient_provider = ps_recipient_provider policy,
       qt_relationship_version = re_version (st_relationship (mb_next b)),
       qt_history_version = hi_version (mb_history b),
       qt_processing_charge = pr_processing_charge price, qt_collateral = pr_collateral price,
       qt_request_level = hi_level (mb_history b), qt_eligibility_time = hi_earliest (mb_history b),
       qt_unit = ps_unit policy, qt_submission_window = ps_submission_window policy,
       qt_decision_window = ps_decision_window policy, qt_issued_at = cx_now cx,
       qt_expires_at = expires_at, qt_declaration_digest = digest, qt_financial = ps_financial policy,
       qt_payment_provider_key = ps_payment_provider_key policy,
       qt_expiry_cooldown = ps_expiry_cooldown policy, qt_rejection_cooldown = ps_rejection_cooldown policy,
       qt_next_request_backoff = backoff_for policy next_level\<rparr>)"

definition quoted_price :: "quote_pricing \<Rightarrow> (request_price, protocol_error) res" where
  "quoted_price q =
     (case q of PricingResolved price \<Rightarrow> Ok price | PricingRefused refusal \<Rightarrow> Err (refusal_error refusal)
      | PricingNotRequested \<Rightarrow> Err PtPolicyInvalid)"

definition issue_terms ::
  "builder \<Rightarrow> transition_context \<Rightarrow> request_return_route \<Rightarrow> alias_id \<Rightarrow> request_class_id
     \<Rightarrow> quote_id \<Rightarrow> bytes32 option \<Rightarrow> (builder, protocol_error) res" where
  "issue_terms b cx return_route alias class quote digest =
     (case active_request (mb_next b) of
        Some r \<Rightarrow>
          fail_if (rel_state b = RelBlocked) PtContactBlocked
          (Ok (emit (b\<lparr>mb_terms := Some (ExistingRequest (rq_id r))\<rparr>) TermsIssued))
      | None \<Rightarrow>
          fail_if (rel_state b = RelBlocked) PtContactBlocked
          (case cx_permission cx of
             PermissionNotRequested \<Rightarrow> Err PtIncompleteSnapshot
           | DirectContact \<Rightarrow> Ok (emit (b\<lparr>mb_terms := Some NoChargeRequired\<rparr>) TermsIssued)
           | BondedRequest \<Rightarrow>
               fail_if (hi_pending (mb_history b) \<noteq> None) PtRequestAlreadyExists
               (fail_if (cx_now cx < hi_earliest (mb_history b)) (PtBackoffActive (hi_earliest (mb_history b)))
               (and_then (ok_or (time_checked_add (cx_now cx) (ps_quote_lifetime (cx_policy cx))) PtArithmeticOverflow)
                  (\<lambda>expires_at.
                and_then (quoted_price (cx_pricing cx)) (\<lambda>price.
                fail_if (sc_id (pr_selected price) \<noteq> class \<or> pr_unit price \<noteq> ps_unit (cx_policy cx)) PtPolicyInvalid
                (and_then (ok_or (checked_add (hi_level (mb_history b)) 1) PtArithmeticOverflow) (\<lambda>next_level.
                 let terms = issued_terms b cx return_route alias quote digest expires_at price next_level in
                 and_then (charge_amount terms) (\<lambda>_.
                 fail_if (bt_has (st_quotes (mb_next b)) quote \<or> quote |\<in>| st_used_quotes (mb_next b)) PtDuplicateConflict
                 (Ok (emit (b\<lparr>mb_next := (mb_next b)\<lparr>st_quotes := bt_insert quote terms (st_quotes (mb_next b))\<rparr>,
                         mb_terms := Some (ChargeRequired terms)\<rparr>) TermsIssued)))))))))))"

definition validate_request_terms ::
  "builder \<Rightarrow> transition_context \<Rightarrow> request_terms \<Rightarrow> (canonical_time, protocol_error) res" where
  "validate_request_terms b cx t =
     (let key = re_key (st_relationship (mb_next b)) in
      fail_if (qt_issued_at t > cx_now cx \<or> qt_expires_at t < qt_issued_at t \<or> cx_now cx > qt_expires_at t)
        PtQuoteExpired
      (fail_if (qt_protocol_version t \<noteq> cx_protocol_version cx
          \<or> qt_unit t \<noteq> ps_unit (cx_policy cx)
          \<or> qt_relationship t \<noteq> rk_reference key
          \<or> qt_request_history t \<noteq> hi_reference (mb_history b)
          \<or> qt_sender t \<noteq> rk_sender key
          \<or> qt_recipient t \<noteq> rk_recipient key
          \<or> qt_recipient_provider t \<noteq> ps_recipient_provider (cx_policy cx)
          \<or> qt_request_level t \<noteq> hi_level (mb_history b)
          \<or> qt_eligibility_time t \<noteq> hi_earliest (mb_history b)) PtAmountMismatch
      (fail_if (qt_relationship_version t \<noteq> re_version (st_relationship (mb_next b))
          \<or> qt_history_version t \<noteq> hi_version (mb_history b)) PtQuoteVersionStale
      (ok_or (time_checked_add (cx_now cx) (qt_submission_window t)) PtArithmeticOverflow))))"

definition request_capture ::
  "crypto \<Rightarrow> request_terms \<Rightarrow> request_id \<Rightarrow> money \<Rightarrow> bytes32 \<Rightarrow> payment_operation" where
  "request_capture c t i amount payment_method =
     \<lparr>op_scope = ft_scope (qt_financial t),
      op_id = request_payment_id c (ft_scope (qt_financial t)) (qt_relationship t) i False,
      op_kind = Capture, op_amount = amount, op_unit = qt_unit t, op_destination = payment_method\<rparr>"

definition request_contract :: "crypto \<Rightarrow> request_terms \<Rightarrow> request_id \<Rightarrow> financial_contract" where
  "request_contract c t i =
     \<lparr>fc_refund_id = request_payment_id c (ft_scope (qt_financial t)) (qt_relationship t) i True,
      fc_processing_charge = qt_processing_charge t, fc_collateral = qt_collateral t,
      fc_terms = qt_financial t, fc_provider_key = qt_payment_provider_key t\<rparr>"

definition create_request ::
  "crypto \<Rightarrow> builder \<Rightarrow> transition_context \<Rightarrow> request_id \<Rightarrow> message_id \<Rightarrow> bytes32 \<Rightarrow> request_terms
     \<Rightarrow> operational_key_ref \<Rightarrow> (builder, protocol_error) res" where
  "create_request c b cx i message_id payment_method t creation_key =
     fail_if (ra_agreed (qt_reply_lane t) = None) PtPolicyInvalid
     (fail_if (rel_state b = RelBlocked) PtContactBlocked
     (case cx_permission cx of
        PermissionNotRequested \<Rightarrow> Err PtIncompleteSnapshot
      | DirectContact \<Rightarrow> Err PtRelationshipAccepted
      | BondedRequest \<Rightarrow>
          and_then (validate_request_terms b cx t) (\<lambda>deadline.
          fail_if (bt_has (st_requests (mb_next b)) i \<or> bt_has (mb_payments b) i) PtDuplicateConflict
          (fail_if (list_ex (\<lambda>r. \<not> is_terminal (rq_lifecycle r)) (bt_values (st_requests (mb_next b)))
             \<or> hi_pending (mb_history b) \<noteq> None) PtRequestAlreadyExists
          (fail_if (qt_quote_id t |\<in>| st_used_quotes (mb_next b)
             \<or> bt_get (st_quotes (mb_next b)) (qt_quote_id t) \<noteq> Some t) PtQuoteVersionStale
          (fail_if (payment_method = 0) PtPolicyInvalid
          (fail_if (cx_now cx < hi_earliest (mb_history b)) (PtBackoffActive (hi_earliest (mb_history b)))
          (and_then (charge_amount t) (\<lambda>amount.
           let capture = request_capture c t i amount payment_method in
           fail_if (op_amount capture = 0) PtPolicyInvalid
           (and_then (ok_or (checked_add (re_generation (st_relationship (mb_next b))) 1) PtArithmeticOverflow)
             (\<lambda>generation.
            and_then (map_err payment_to_protocol (rf_new capture (request_contract c t i))) (\<lambda>financials.
            let b1 = b\<lparr>mb_history := (mb_history b)\<lparr>hi_pending :=
                    Some \<lparr>rv_relationship = qt_relationship t, rv_request = i\<rparr>\<rparr>,
                  mb_effects := mb_effects b @ [ExecutePayment i (op_id capture)],
                  mb_payments := bt_insert i financials (mb_payments b),
                  mb_next := (mb_next b)\<lparr>st_used_quotes := finsert (qt_quote_id t) (st_used_quotes (mb_next b))\<rparr>\<rparr>;
                b2 = upd_relationship (\<lambda>x. x\<lparr>re_generation := generation\<rparr>) b1;
                r = \<lparr>rq_creation_key = creation_key, rq_creation_event = mb_event b, rq_id = i,
                  rq_generation = generation, rq_initial_message = message_id, rq_funding = op_id capture,
                  rq_terms = t, rq_created_at = cx_now cx,
                  rq_lifecycle = PreparingSubmission \<lparr>sp_deadline = deadline\<rparr>, rq_version = 0\<rparr>
            in Ok (emit (schedule (Schedule (SubmissionTimeout i) deadline) (put_request i r b2))
                 (RequestCreated i))))))))))))))"

section \<open>Submission and its cancellation\<close>

definition submission_failure ::
  "builder \<Rightarrow> relationship_request \<Rightarrow> submission_input \<Rightarrow> request_permission
     \<Rightarrow> (reserved_cancellation option, protocol_error) res" where
  "submission_failure b r input permission =
     and_then (ok_or (lc_preparation (rq_lifecycle r)) PtInvalidState) (\<lambda>preparation.
     Ok (if permission = DirectContact \<or> mb_now b > sp_deadline preparation then Some OrdinaryCancellation
         else if mb_now b > si_valid_until input then Some ValidityClosedCancellation
         else if (case qt_declaration_digest (rq_terms r) of
                    Some expected \<Rightarrow> expected \<noteq> si_declaration input | None \<Rightarrow> False)
           then Some DeclarationMismatchCancellation
         else if qt_history_version (rq_terms r) \<noteq> hi_version (mb_history b)
             \<or> mb_now b < hi_earliest (mb_history b) then Some HistoryChangedCancellation
         else None))"

definition validate_submission_authority ::
  "builder \<Rightarrow> transition_context \<Rightarrow> relationship_request \<Rightarrow> (unit, protocol_error) res" where
  "validate_submission_authority b cx r =
     and_then (or_panic (bt_get (mb_payments b) (rq_id r))) (\<lambda>p.
     fail_if (\<not> funding_finalized p \<or> capture_reversed p) PtPaymentNotConfirmed
     (fail_if (cx_now cx < qt_eligibility_time (rq_terms r)) (PtBackoffActive (qt_eligibility_time (rq_terms r)))
     (fail_if (hi_pending (mb_history b) \<noteq> Some (reservation r)
         \<or> qt_relationship_version (rq_terms r) \<noteq> re_version (st_relationship (mb_next b))) PtQuoteVersionStale
     (Ok ()))))"

definition submitted_message :: "builder \<Rightarrow> transition_context \<Rightarrow> relationship_request \<Rightarrow> submission_input \<Rightarrow> message" where
  "submitted_message b cx r input =
     \<lparr>ms_id = rq_initial_message r, ms_relationship = qt_relationship (rq_terms r),
      ms_content = si_content input, ms_delivery = si_delivery input,
      ms_declaration = si_declaration input, ms_valid_until = si_valid_until input,
      ms_admitted_at = cx_now cx, ms_basis = BasisInitialRequest (si_request input)\<rparr>"

definition commit_submission ::
  "builder \<Rightarrow> transition_context \<Rightarrow> relationship_request \<Rightarrow> submission_input \<Rightarrow> (builder, protocol_error) res" where
  "commit_submission b cx r input =
     and_then (validate_submission_authority b cx r) (\<lambda>_.
     and_then (ok_or (time_checked_add (cx_now cx) (qt_decision_window (rq_terms r))) PtArithmeticOverflow) (\<lambda>deadline.
     fail_if (bt_has (mb_messages b) (rq_initial_message r)) PtDuplicateConflict
     (and_then (next_version (rq_version r)) (\<lambda>ver.
      and_then (record_submission (mb_history b) (reservation r) (cx_now cx)
          (qt_next_request_backoff (rq_terms r)) (mb_event b)) (\<lambda>h.
      let i = si_request input;
          r' = r\<lparr>rq_lifecycle := AwaitingRecipientDecision \<lparr>su_at = cx_now cx, su_decision_deadline = deadline\<rparr>,
                 rq_version := ver\<rparr>;
          b1 = b\<lparr>mb_messages := bt_insert (rq_initial_message r) (submitted_message b cx r input) (mb_messages b),
                 mb_history := h\<rparr>;
          b2 = schedule (Schedule (RequestExpiry i) deadline)
                 (schedule (CancelTask (SubmissionTimeout i)) (put_request i r' b1));
          b3 = mb_deliver b2 (rq_initial_message r) (si_content input) (si_delivery input);
          b4 = b3\<lparr>mb_effects := mb_effects b3 @ [EstablishRequestSolicitation i (rq_generation r)]\<rparr>
      in Ok (emit b4 (RequestSubmitted i)))))))"

definition submit_request_to_recipient ::
  "builder \<Rightarrow> transition_context \<Rightarrow> submission_input \<Rightarrow> (builder, protocol_error) res" where
  "submit_request_to_recipient b cx input =
     (let i = si_request input in
      fail_if (rel_state b = RelBlocked) PtContactBlocked
      (and_then (ok_or (find_request b i) PtMissingRecord) (\<lambda>r.
       fail_if (rq_version r \<noteq> si_expected_version input) PtVersionConflict
       (if \<not> is_preparing_submission (rq_lifecycle r) then
          (case rq_lifecycle r of LcCancelled _ _ \<Rightarrow> Err PtRequestSubmissionCancelled | _ \<Rightarrow> Err PtAlreadyTerminal)
        else and_then (submission_failure b r input (cx_permission cx)) (\<lambda>failure.
          case failure of
            Some reason \<Rightarrow> cancel_submission b i reason
          | None \<Rightarrow>
              if cx_admission cx \<noteq> None then cancel_submission b i OrdinaryCancellation
              else commit_submission b cx r input)))))"

definition cancel_request_submission ::
  "builder \<Rightarrow> actor_ref \<Rightarrow> request_id \<Rightarrow> version \<Rightarrow> cancellation_reason \<Rightarrow> (builder, protocol_error) res" where
  "cancel_request_submission b actor i expected reason =
     and_then (ok_or (find_request b i) PtMissingRecord) (\<lambda>r.
     if \<not> is_preparing_submission (rq_lifecycle r) then
       (case actor of ActScheduler _ \<Rightarrow> Ok b | _ \<Rightarrow> Err PtAlreadyTerminal)
     else fail_if (rq_version r \<noteq> expected) PtVersionConflict
       (and_then
          (if reason = TimeoutReason then
             and_then (ok_or (lc_preparation (rq_lifecycle r)) PtInvalidState) (\<lambda>p.
             fail_if (mb_now b < sp_deadline p) PtInvalidState (Ok ()))
           else Ok ())
          (\<lambda>_. cancel_submission b i OrdinaryCancellation)))"

section \<open>Decisions on the relationship\<close>

definition terminate_lane :: "builder \<Rightarrow> (builder, protocol_error) res" where
  "terminate_lane b =
     and_then (ok_or (checked_add (re_reply_epoch (st_relationship (mb_next b))) 1) PtArithmeticOverflow) (\<lambda>epoch.
     let b1 = upd_relationship (\<lambda>x. x\<lparr>re_reply_epoch := epoch\<rparr>) b in
     case mb_lane b1 of
       None \<Rightarrow> Ok b1
     | Some lane \<Rightarrow>
         and_then (map_err (\<lambda>e. case e of CapArithmeticOverflow \<Rightarrow> PtArithmeticOverflow | _ \<Rightarrow> PtInvalidState)
             (plan_revocation lane)) (\<lambda>effect.
         case effect of
           None \<Rightarrow> Ok b1
         | Some e \<Rightarrow> Ok ((schedule (CancelTask (LaneHorizon (gr_id (ln_grant (lr_lane e))))) b1)
             \<lparr>mb_lane_revocation := Some e\<rparr>)))"

datatype decision = DecAccept | DecReject | DecBlock

primrec decision_state :: "decision \<Rightarrow> relationship_state" where
  "decision_state DecAccept = RelAccepted"
| "decision_state DecReject = RelRejected"
| "decision_state DecBlock = RelBlocked"

primrec decision_event :: "decision \<Rightarrow> event_kind" where
  "decision_event DecAccept = RelationshipAcceptedEvent"
| "decision_event DecReject = RelationshipRejectedEvent"
| "decision_event DecBlock = RelationshipBlockedEvent"

text \<open>The four assignments every change of the relationship state makes.\<close>

definition mark_relationship :: "builder \<Rightarrow> relationship_state \<Rightarrow> (builder, protocol_error) res" where
  "mark_relationship b target =
     and_then (next_version (re_version (st_relationship (mb_next b)))) (\<lambda>ver.
     Ok (upd_relationship (\<lambda>x. x\<lparr>re_state := target, re_version := ver,
           re_last_event := Some (mb_event b), re_changed_at := mb_now b\<rparr>) b))"

definition settle_decision :: "builder \<Rightarrow> decision \<Rightarrow> (builder, protocol_error) res" where
  "settle_decision b d =
     (case active_request (mb_next b) of
        None \<Rightarrow> Ok b
      | Some r \<Rightarrow>
          (case rq_lifecycle r of
             PreparingSubmission _ \<Rightarrow> cancel_submission b (rq_id r) OrdinaryCancellation
           | AwaitingRecipientDecision submission \<Rightarrow>
               if mb_now b \<le> su_decision_deadline submission then
                 (case d of DecAccept \<Rightarrow> settle_accepted b (rq_id r) PermStanding
                  | _ \<Rightarrow> settle_rejected b (rq_id r))
               else settle_expired b (rq_id r)
           | _ \<Rightarrow> Ok b))"

definition relationship_decision :: "builder \<Rightarrow> version \<Rightarrow> decision \<Rightarrow> (builder, protocol_error) res" where
  "relationship_decision b expected d =
     fail_if (re_version (st_relationship (mb_next b)) \<noteq> expected) PtVersionConflict
     (fail_if (d = DecReject \<and> rel_state b = RelAccepted) PtInvalidState
     (fail_if (d \<noteq> DecBlock \<and> rel_state b = RelBlocked) PtContactBlocked
     (fail_if (d = DecAccept \<and> rel_state b = RelAccepted \<and> active_request (mb_next b) = None) PtInvalidState
     (and_then (mark_relationship b (decision_state d)) (\<lambda>b1.
      and_then (if d = DecBlock then terminate_lane b1 else Ok b1) (\<lambda>b2.
      and_then (settle_decision b2 d) (\<lambda>b3.
      Ok (emit b3 (decision_event d)))))))))"

definition unblock :: "builder \<Rightarrow> version \<Rightarrow> (builder, protocol_error) res" where
  "unblock b expected =
     fail_if (re_version (st_relationship (mb_next b)) \<noteq> expected) PtVersionConflict
     (fail_if (rel_state b \<noteq> RelBlocked) PtInvalidState
     (and_then (mark_relationship b RelRejected) (\<lambda>b1. Ok (emit b1 RelationshipUnblocked))))"

definition revoke :: "builder \<Rightarrow> version \<Rightarrow> (builder, protocol_error) res" where
  "revoke b expected =
     fail_if (re_version (st_relationship (mb_next b)) \<noteq> expected) PtVersionConflict
     (and_then (terminate_lane b) (\<lambda>b1.
      and_then (mark_relationship b1 RelRevoked) (\<lambda>b2. Ok (emit b2 RelationshipRevokedEvent))))"

definition expire_request :: "builder \<Rightarrow> request_id \<Rightarrow> version \<Rightarrow> (builder, protocol_error) res" where
  "expire_request b i expected =
     and_then (ok_or (find_request b i) PtMissingRecord) (\<lambda>r.
     if is_terminal (rq_lifecycle r) then Ok b
     else fail_if (rq_version r \<noteq> expected) PtVersionConflict
       (fail_if (\<not> is_awaiting_recipient_decision (rq_lifecycle r)) PtInvalidState
       (and_then (ok_or (lc_submission (rq_lifecycle r)) PtInvalidState) (\<lambda>submission.
        fail_if (mb_now b \<le> su_decision_deadline submission) PtDecisionWindowClosed
        (and_then (settle_expired b i) (\<lambda>b'. Ok (emit b' (RequestExpiredEvent i))))))))"

section \<open>Follow-ups\<close>

definition followups :: "(message_id, message) btmap \<Rightarrow> request_id \<Rightarrow> message list" where
  "followups ms i =
     filter (\<lambda>m. case ms_basis m of BasisRequestFollowup r _ \<Rightarrow> r = i | _ \<Rightarrow> False) (bt_values ms)"

definition recent_followups :: "message list \<Rightarrow> canonical_time \<Rightarrow> duration \<Rightarrow> message list" where
  "recent_followups ms now interval = filter (\<lambda>m. saturating_sub now (ms_admitted_at m) < interval) ms"

definition admit_followup ::
  "builder \<Rightarrow> request_id \<Rightarrow> message_id \<Rightarrow> content_ref \<Rightarrow> delivery_intent_ref \<Rightarrow> bytes32
     \<Rightarrow> canonical_time \<Rightarrow> version \<Rightarrow> admission_failure option \<Rightarrow> (builder, protocol_error) res" where
  "admit_followup b i message_id content delivery digest valid_until expected admission =
     fail_if (rel_state b = RelBlocked) PtContactBlocked
     (let policy = st_followup_policy (mb_next b) in
      fail_if (fp_version policy \<noteq> expected) PtVersionConflict
      (and_then (ok_or (find_request b i) PtMissingRecord) (\<lambda>r.
       fail_if (\<not> is_awaiting_recipient_decision (rq_lifecycle r)
          \<or> (case lc_submission (rq_lifecycle r) of None \<Rightarrow> True
              | Some a \<Rightarrow> mb_now b > su_decision_deadline a)) PtDecisionWindowClosed
       (fail_if (mb_now b > valid_until) PtMessageValidityClosed
       (case admission of
          Some failure \<Rightarrow> Err (PtAdmissionRefused failure)
        | None \<Rightarrow>
            fail_if (message_id = rq_initial_message r \<or> bt_has (mb_messages b) message_id) PtDuplicateConflict
            (let sent = followups (mb_messages b) i;
                 recent = recent_followups sent (mb_now b) (fp_interval policy) in
             fail_if (fp_max_messages policy = 0
                \<or> length sent \<ge> unat (fp_max_messages policy)
                \<or> length recent \<ge> unat (fp_max_per_interval policy)) PtFollowupNotAllowed
             (let m = \<lparr>ms_id = message_id, ms_relationship = qt_relationship (rq_terms r),
                    ms_content = content, ms_delivery = delivery, ms_declaration = digest,
                    ms_valid_until = valid_until, ms_admitted_at = mb_now b,
                    ms_basis = BasisRequestFollowup i (fp_version policy)\<rparr>;
                  b1 = b\<lparr>mb_messages := bt_insert message_id m (mb_messages b)\<rparr>
              in Ok (emit (mb_deliver b1 message_id content delivery) (FollowupAdmitted i message_id)))))))))"

section \<open>The transition\<close>

definition authorize ::
  "protocol_state \<Rightarrow> actor_ref \<Rightarrow> protocol_command \<Rightarrow> provider_ref \<Rightarrow> (unit, protocol_error) res" where
  "authorize s actor command provider =
     (let sender = ActSender (rk_sender (re_key (st_relationship s)));
          recipient = ActRecipient (rk_recipient (re_key (st_relationship s)));
          authorized =
            (case command of
               RecordPayment _ _ \<Rightarrow> actor = ActProvider provider
             | AdmitFollowup _ _ _ _ _ _ _ \<Rightarrow> actor = sender
             | IssueRequestTerms _ _ _ _ _ \<Rightarrow> actor = sender
             | CreateRequest _ _ _ _ \<Rightarrow> actor = sender
             | SubmitRequestToRecipient _ \<Rightarrow> actor = sender
             | CancelRequestSubmission _ _ reason \<Rightarrow>
                 (case reason of
                    SenderRequested \<Rightarrow> actor = sender
                  | TimeoutReason \<Rightarrow> actor = ActScheduler provider
                  | PreSubmissionFailure \<Rightarrow> actor = ActProvider provider)
             | ExpireRequest _ _ \<Rightarrow> actor = ActScheduler provider \<or> actor = ActProvider provider
             | _ \<Rightarrow> actor = recipient)
      in if authorized then Ok () else Err PtAuthenticationFailed)"

definition apply_command ::
  "crypto \<Rightarrow> builder \<Rightarrow> transition_context \<Rightarrow> actor_ref \<Rightarrow> operational_key_ref \<Rightarrow> protocol_command
     \<Rightarrow> (builder, protocol_error) res" where
  "apply_command c b cx actor key command =
     (case command of
        RecordPayment i receipt \<Rightarrow> record_payment c b i receipt
      | SetFollowupPolicy expected policy \<Rightarrow> set_followup_policy b expected policy
      | AdmitFollowup i message_id content delivery digest valid_until expected \<Rightarrow>
          admit_followup b i message_id content delivery digest valid_until expected (cx_admission cx)
      | IssueRequestTerms return_route alias class quote digest \<Rightarrow>
          issue_terms b cx return_route alias class quote digest
      | CreateRequest payment_method i message_id t \<Rightarrow> create_request c b cx i message_id payment_method t key
      | SubmitRequestToRecipient input \<Rightarrow> submit_request_to_recipient b cx input
      | CancelRequestSubmission i expected reason \<Rightarrow> cancel_request_submission b actor i expected reason
      | AcceptRelationship expected \<Rightarrow> relationship_decision b expected DecAccept
      | RejectRelationship expected \<Rightarrow> relationship_decision b expected DecReject
      | BlockRelationship expected \<Rightarrow> relationship_decision b expected DecBlock
      | UnblockRelationship expected \<Rightarrow> unblock b expected
      | ExpireRequest i expected \<Rightarrow> expire_request b i expected
      | RevokeRelationship expected \<Rightarrow> revoke b expected)"

definition validate_snapshot :: "settlement_snapshot \<Rightarrow> transition_context \<Rightarrow> (unit, protocol_error) res" where
  "validate_snapshot s cx =
     (let rel = st_relationship (sn_state s) in
      fail_if (cx_protocol_version cx \<noteq> 2) PtProtocolVersionMismatch
      (fail_if (\<not> sn_complete s) PtIncompleteSnapshot
      (fail_if (cx_protocol_version cx \<noteq> ps_protocol_version (cx_policy cx)) PtProtocolVersionMismatch
      (and_then (state_validate (sn_state s)) (\<lambda>_.
       and_then (policy_snapshot_validate (cx_policy cx)) (\<lambda>_.
       fail_if (lv_unit (sn_ledger s) \<noteq> ps_unit (cx_policy cx)) PtAmountMismatch
       (fail_if (hi_reference (sn_history s) \<noteq> re_history rel
           \<or> hi_recipient (sn_history s) \<noteq> rk_recipient (re_key rel)
           \<or> list_ex (\<lambda>r. case bt_get (sn_payments s) (rq_id r) of None \<Rightarrow> True
                | Some p \<Rightarrow> op_id (rf_capture p) \<noteq> rq_funding r) (bt_values (st_requests (sn_state s))))
          PtIncompleteSnapshot
       (fail_if (case sn_lane s of None \<Rightarrow> False
           | Some lane \<Rightarrow> gr_sender (ln_grant lane) \<noteq> rk_sender (re_key rel)
               \<or> gr_recipient (ln_grant lane) \<noteq> rk_recipient (re_key rel)) PtIncompleteSnapshot
       (Ok ())))))))))"

definition transition ::
  "crypto \<Rightarrow> settlement_snapshot \<Rightarrow> kernel_command \<Rightarrow> transition_context
     \<Rightarrow> (transition_manifest, protocol_error) res" where
  "transition c s command cx =
     and_then (validate_snapshot s cx) (\<lambda>_.
     and_then (authorize (sn_state s) (kc_actor command) (kc_command command)
       (ps_recipient_provider (cx_policy cx))) (\<lambda>_.
     and_then (apply_command c (builder_new s cx) cx (kc_actor command) (kc_key command) (kc_command command)) (\<lambda>b.
     builder_finish s b)))"

definition receive_native_request ::
  "settlement_snapshot \<Rightarrow> relationship_request \<Rightarrow> transition_context
     \<Rightarrow> (transition_manifest option, protocol_error) res" where
  "receive_native_request s incoming cx =
     and_then (validate_snapshot s cx) (\<lambda>_.
     let pair = re_key (st_relationship (sn_state s)) in
     fail_if (qt_sender (rq_terms incoming) \<noteq> rk_recipient pair
        \<or> qt_recipient (rq_terms incoming) \<noteq> rk_sender pair
        \<or> (case lc_submission (rq_lifecycle incoming) of None \<Rightarrow> True
            | Some submission \<Rightarrow> su_at submission > cx_now cx)) PtInvalidState
     (case sender_reply_restriction (re_state (st_relationship (sn_state s))) of
        Some reason \<Rightarrow> Err (PtSenderReplyRestricted reason)
      | None \<Rightarrow>
          (case active_request (sn_state s) of
             None \<Rightarrow> Ok None
           | Some r \<Rightarrow>
               if \<not> is_preparing_submission (rq_lifecycle r) then Ok None
               else and_then (cancel_submission (builder_new s cx) (rq_id r) OrdinaryCancellation) (\<lambda>b.
                 map_ok Some (builder_finish s
                   (emit b (RequestPreparationSuperseded (rq_id r) (reservation incoming))))))))"

definition accept_express_lane ::
  "settlement_snapshot \<Rightarrow> lane_id \<Rightarrow> transition_context \<Rightarrow> (transition_manifest, protocol_error) res" where
  "accept_express_lane s lane cx =
     and_then (validate_snapshot s cx) (\<lambda>_.
     fail_if (re_state (st_relationship (sn_state s)) = RelBlocked) PtContactBlocked
     (and_then (mark_relationship (builder_new s cx) (RelExpressLane lane)) (\<lambda>b1.
      and_then
        (case active_request (mb_next b1) of
           None \<Rightarrow> Ok b1
         | Some r \<Rightarrow>
             (case rq_lifecycle r of
                PreparingSubmission _ \<Rightarrow> cancel_submission b1 (rq_id r) OrdinaryCancellation
              | AwaitingRecipientDecision _ \<Rightarrow> settle_accepted b1 (rq_id r) (PermExpressLane lane)
              | _ \<Rightarrow> Ok b1))
        (\<lambda>b2. builder_finish s (emit b2 (RelationshipLaneGranted lane))))))"

end
