(* ===== verification/Kernel_Moves.thy ===== *)
theory Kernel_Moves
  imports Kernel
begin

text \<open>
  What a kernel command may do to the requests, their money and the request history, as a step
  relation, and the proof that every handler of \<open>Kernel\<close> takes exactly one such step.  The
  properties of the kernel are consequences of the relation.
\<close>

section \<open>The core of the state under construction\<close>

record kernel_core =
  kk_key :: relationship_key
  kk_requests :: "(request_id, relationship_request) btmap"
  kk_payments :: "(request_id, request_financials) btmap"
  kk_history :: request_history

definition core :: "builder \<Rightarrow> kernel_core" where
  "core b = \<lparr>kk_key = re_key (st_relationship (mb_next b)), kk_requests = st_requests (mb_next b), kk_payments = mb_payments b, kk_history = mb_history b\<rparr>"

definition booked :: "builder \<Rightarrow> financial_effects \<Rightarrow> builder \<Rightarrow> bool" where
  "booked b fx b' \<longleftrightarrow>
     mb_batch b' = fold (\<lambda>t. batch_transfer (tr_from t) (tr_to t) (tr_amount t)) (fe_postings fx) (mb_batch b)
     \<and> mb_forfeitures b' = mb_forfeitures b @ fe_forfeitures fx
     \<and> mb_holds b' = mb_holds b @ fe_holds fx"

definition same_context :: "builder \<Rightarrow> builder \<Rightarrow> bool" where
  "same_context b b' \<longleftrightarrow>
     mb_now b' = mb_now b \<and> mb_event b' = mb_event b
     \<and> re_key (st_relationship (mb_next b')) = re_key (st_relationship (mb_next b))
     \<and> re_history (st_relationship (mb_next b')) = re_history (st_relationship (mb_next b))"

definition quiet_step :: "builder \<Rightarrow> builder \<Rightarrow> bool" where
  "quiet_step b b' \<longleftrightarrow> core b' = core b \<and> booked b no_effects b' \<and> same_context b b'"

section \<open>The step relation\<close>

text \<open>
  \<open>resolves now ev settlement l l'\<close>: a lifecycle is resolved by a settlement at a time, in an
  event.  A cancelled request was still prepared; the other settlements end an awaited decision,
  rejection while the decision window is open and expiry once it is over.
\<close>

inductive resolves ::
  "canonical_time \<Rightarrow> event_ref \<Rightarrow> request_settlement \<Rightarrow> request_lifecycle \<Rightarrow> request_lifecycle \<Rightarrow> bool"
  for now :: canonical_time and ev :: event_ref where
  cancels: "resolves now ev SettledCancelled (PreparingSubmission p) (LcCancelled p ev)"
| accepts: "resolves now ev SettledAccepted (AwaitingRecipientDecision a) (LcAccepted m a ev)"
| rejects: "now \<le> su_decision_deadline a
    \<Longrightarrow> resolves now ev SettledRejected (AwaitingRecipientDecision a) (LcRejected a ev)"
| expires: "su_decision_deadline a < now
    \<Longrightarrow> resolves now ev SettledExpired (AwaitingRecipientDecision a) (LcExpired a ev)"

definition release :: "relationship_request \<Rightarrow> request_history \<Rightarrow> request_history" where
  "release r h = (if hi_pending h = Some (reservation r) then h\<lparr>hi_pending := None\<rparr> else h)"

text \<open>The history after a settlement: cancellation frees the reservation, rejection and expiry cool down.\<close>

definition settled_history ::
  "request_settlement \<Rightarrow> relationship_request \<Rightarrow> canonical_time \<Rightarrow> event_ref \<Rightarrow> request_history
     \<Rightarrow> request_history \<Rightarrow> bool" where
  "settled_history settlement r now ev h h' =
     (case settlement of
        SettledCancelled \<Rightarrow> h' = release r h
      | SettledAccepted \<Rightarrow> h' = h
      | SettledRejected \<Rightarrow> extend_cooldown h now (qt_rejection_cooldown (rq_terms r)) now ev = Ok h'
      | SettledExpired \<Rightarrow> (\<exists>a. rq_lifecycle r = AwaitingRecipientDecision a
          \<and> extend_cooldown h (su_decision_deadline a) (qt_expiry_cooldown (rq_terms r)) now ev = Ok h'))"

definition with_lifecycle :: "relationship_request \<Rightarrow> request_lifecycle \<Rightarrow> relationship_request" where
  "with_lifecycle r l = r\<lparr>rq_lifecycle := l, rq_version := rq_version r + 1\<rparr>"

definition fresh_request :: "kernel_core \<Rightarrow> relationship_request \<Rightarrow> canonical_time \<Rightarrow> event_ref \<Rightarrow> bool" where
  "fresh_request k r now ev \<longleftrightarrow>
     bt_get (kk_requests k) (rq_id r) = None \<and> bt_get (kk_payments k) (rq_id r) = None
     \<and> (\<forall>i q. bt_get (kk_requests k) i = Some q \<longrightarrow> is_terminal (rq_lifecycle q))
     \<and> hi_pending (kk_history k) = None \<and> hi_earliest (kk_history k) \<le> now
     \<and> is_preparing_submission (rq_lifecycle r) \<and> rq_version r = 0
     \<and> qt_relationship (rq_terms r) = rk_reference (kk_key k)
     \<and> qt_sender (rq_terms r) = rk_sender (kk_key k) \<and> qt_recipient (rq_terms r) = rk_recipient (kk_key k)
     \<and> rq_created_at r = now \<and> rq_creation_event r = ev
     \<and> qt_history_version (rq_terms r) = hi_version (kk_history k)"

inductive kernel_move ::
  "crypto \<Rightarrow> canonical_time \<Rightarrow> event_ref \<Rightarrow> kernel_core \<Rightarrow> financial_effects \<Rightarrow> kernel_core \<Rightarrow> bool"
  for c :: crypto and now :: canonical_time and ev :: event_ref where
  quiet: "kernel_move c now ev k no_effects k"
| create: "fresh_request k r now ev \<Longrightarrow> rf_new capture contract = Ok p \<Longrightarrow> rq_funding r = op_id capture
    \<Longrightarrow> kernel_move c now ev k no_effects
      (k\<lparr>kk_requests := bt_insert (rq_id r) r (kk_requests k),
         kk_payments := bt_insert (rq_id r) p (kk_payments k),
         kk_history := (kk_history k)\<lparr>hi_pending := Some (reservation r)\<rparr>\<rparr>)"
| submit: "bt_get (kk_requests k) i = Some r \<Longrightarrow> rq_lifecycle r = PreparingSubmission preparation
    \<Longrightarrow> now \<le> sp_deadline preparation \<Longrightarrow> hi_earliest (kk_history k) \<le> now
    \<Longrightarrow> bt_get (kk_payments k) i = Some p \<Longrightarrow> funding_finalized p \<Longrightarrow> \<not> capture_reversed p
    \<Longrightarrow> record_submission (kk_history k) (reservation r) now (qt_next_request_backoff (rq_terms r)) ev = Ok h
    \<Longrightarrow> time_checked_add now (qt_decision_window (rq_terms r)) = Some deadline
    \<Longrightarrow> version_checked_next (rq_version r) \<noteq> None
    \<Longrightarrow> kernel_move c now ev k no_effects
      (k\<lparr>kk_requests := bt_insert i (with_lifecycle r
            (AwaitingRecipientDecision \<lparr>su_at = now, su_decision_deadline = deadline\<rparr>)) (kk_requests k),
         kk_history := h\<rparr>)"
| settle: "bt_get (kk_requests k) i = Some r \<Longrightarrow> bt_get (kk_payments k) i = Some p
    \<Longrightarrow> resolves now ev settlement (rq_lifecycle r) l' \<Longrightarrow> version_checked_next (rq_version r) \<noteq> None
    \<Longrightarrow> rf_settle p settlement now = Ok (p', fx)
    \<Longrightarrow> settled_history settlement r now ev (kk_history k) h
    \<Longrightarrow> kernel_move c now ev k fx
      (k\<lparr>kk_requests := bt_insert i (with_lifecycle r l') (kk_requests k),
         kk_payments := bt_insert i p' (kk_payments k), kk_history := h\<rparr>)"
| void: "bt_get (kk_requests k) i = Some r \<Longrightarrow> bt_get (kk_payments k) i = Some p
    \<Longrightarrow> rq_lifecycle r = PreparingSubmission preparation \<Longrightarrow> version_checked_next (rq_version r) \<noteq> None
    \<Longrightarrow> rf_record_payment c p receipt = Ok (p', fx) \<Longrightarrow> fe_capture_voided fx
    \<Longrightarrow> kernel_move c now ev k fx
      (k\<lparr>kk_requests := bt_insert i (with_lifecycle r (LcCancelled preparation ev)) (kk_requests k),
         kk_payments := bt_insert i p' (kk_payments k), kk_history := release r (kk_history k)\<rparr>)"
| pay: "bt_get (kk_payments k) i = Some p \<Longrightarrow> rf_record_payment c p receipt = Ok (p', fx)
    \<Longrightarrow> \<not> (fe_capture_voided fx \<and> (\<exists>r. bt_get (kk_requests k) i = Some r \<and> is_preparing_submission (rq_lifecycle r)))
    \<Longrightarrow> kernel_move c now ev k fx (k\<lparr>kk_payments := bt_insert i p' (kk_payments k)\<rparr>)"

definition advances :: "crypto \<Rightarrow> builder \<Rightarrow> builder \<Rightarrow> bool" where
  "advances c b b' \<longleftrightarrow>
     (\<exists>fx. kernel_move c (mb_now b) (mb_event b) (core b) fx (core b') \<and> booked b fx b') \<and> same_context b b'"

section \<open>The builder's updates\<close>

lemma core_simps [simp]:
  "kk_requests (core b) = st_requests (mb_next b)" "kk_payments (core b) = mb_payments b"
  "kk_history (core b) = mb_history b" "kk_key (core b) = re_key (st_relationship (mb_next b))"
  by (simp_all add: core_def)

lemma core_updates [simp]:
  "core (emit b kind) = core b" "core (schedule x b) = core b" "core (mb_deliver b m ct dl) = core b"
  "core (apply_financial_effects b i fx) = core b"
  "core (put_request i r b) = (core b)\<lparr>kk_requests := bt_insert i r (kk_requests (core b))\<rparr>"
  "core (release_reservation r b) = (core b)\<lparr>kk_history := release r (kk_history (core b))\<rparr>"
  by (simp_all add: core_def emit_def schedule_def mb_deliver_def upd_relationship_def
      apply_financial_effects_def put_request_def release_reservation_def release_def split: delivery_route.split)

lemma booked_updates [simp]:
  "booked b fx (emit b' kind) = booked b fx b'" "booked b fx (schedule x b') = booked b fx b'"
  "booked b fx (mb_deliver b' m ct dl) = booked b fx b'" "booked b fx (upd_relationship f b') = booked b fx b'"
  "booked b fx (put_request i r b') = booked b fx b'" "booked b fx (release_reservation r b') = booked b fx b'"
  by (simp_all add: booked_def emit_def schedule_def mb_deliver_def upd_relationship_def
      put_request_def release_reservation_def split: delivery_route.split)

lemma booked_refl [simp]: "booked b no_effects b"
  by (simp add: booked_def)

lemma same_context_refl [simp]: "same_context b b"
  by (simp add: same_context_def)

lemma context_updates [simp]:
  "same_context b (emit b' kind) = same_context b b'" "same_context b (schedule x b') = same_context b b'"
  "same_context b (mb_deliver b' m ct dl) = same_context b b'"
  "same_context b (put_request i r b') = same_context b b'"
  "same_context b (release_reservation r b') = same_context b b'"
  "same_context b (apply_financial_effects b' i fx) = same_context b b'"
  by (simp_all add: same_context_def emit_def schedule_def mb_deliver_def
      put_request_def release_reservation_def apply_financial_effects_def split: delivery_route.split)

lemma find_request_core: "find_request b i = bt_get (kk_requests (core b)) i"
  by (simp add: find_request_def)

lemma with_lifecycle_eq:
  "next_version (rq_version r) = Ok ver \<Longrightarrow> r\<lparr>rq_lifecycle := l, rq_version := ver\<rparr> = with_lifecycle r l"
  by (simp add: next_version_def with_lifecycle_def version_checked_next_def checked_add_def split: if_splits)

lemma next_version_Ok: "next_version v = Ok w \<Longrightarrow> version_checked_next v \<noteq> None"
  by (auto simp: next_version_def)

lemma with_lifecycle_simps [simp]:
  "rq_lifecycle (with_lifecycle r l) = l" "rq_id (with_lifecycle r l) = rq_id r"
  "rq_terms (with_lifecycle r l) = rq_terms r" "rq_funding (with_lifecycle r l) = rq_funding r"
  "rq_initial_message (with_lifecycle r l) = rq_initial_message r"
  "rq_version (with_lifecycle r l) = rq_version r + 1" "reservation (with_lifecycle r l) = reservation r"
  "release (with_lifecycle r l) = release r"
  by (simp_all add: with_lifecycle_def reservation_def release_def fun_eq_iff)

section \<open>Every handler takes one step\<close>

lemma booked_cong:
  "mb_batch b1 = mb_batch b \<Longrightarrow> mb_forfeitures b1 = mb_forfeitures b \<Longrightarrow> mb_holds b1 = mb_holds b
     \<Longrightarrow> booked b1 fx b' = booked b fx b'"
  by (simp add: booked_def)

lemma same_context_trans: "same_context b b1 \<Longrightarrow> same_context b1 b2 \<Longrightarrow> same_context b b2"
  by (simp add: same_context_def)

lemma quiet_advances: "quiet_step b b' \<Longrightarrow> advances c b b'"
  unfolding advances_def quiet_step_def by (metis kernel_move.quiet)

lemma advances_after_quiet:
  assumes "quiet_step b b1" and "advances c b1 b2"
  shows "advances c b b2"
proof -
  obtain fx where m: "kernel_move c (mb_now b1) (mb_event b1) (core b1) fx (core b2)" "booked b1 fx b2"
    "same_context b1 b2" using assms(2) by (auto simp: advances_def)
  have q: "core b1 = core b" "mb_now b1 = mb_now b" "mb_event b1 = mb_event b" "same_context b b1"
    "mb_batch b1 = mb_batch b" "mb_forfeitures b1 = mb_forfeitures b" "mb_holds b1 = mb_holds b"
    using assms(1) by (simp_all add: quiet_step_def booked_def same_context_def)
  have "booked b fx b2" using m(2) q by (simp add: booked_def)
  then show ?thesis using m q same_context_trans [OF q(4) m(3)] by (auto simp: advances_def)
qed

lemma advances_simps [simp]:
  "advances c b (emit b' kind) = advances c b b'" "advances c b (schedule x b') = advances c b b'"
  by (simp_all add: advances_def)

lemma settle_financials_Ok:
  assumes "settle_financials b i settlement = Ok b'"
  shows "\<exists>p p' fx. bt_get (mb_payments b) i = Some p \<and> rf_settle p settlement (mb_now b) = Ok (p', fx)
     \<and> core b' = (core b)\<lparr>kk_payments := bt_insert i p' (mb_payments b)\<rparr>
     \<and> booked b fx b' \<and> same_context b b' \<and> mb_next b' = mb_next b"
proof -
  obtain p p' fx where "bt_get (mb_payments b) i = Some p" "rf_settle p settlement (mb_now b) = Ok (p', fx)"
    and b': "b' = apply_financial_effects (b\<lparr>mb_payments := bt_insert i p' (mb_payments b)\<rparr>) i fx"
    using assms by (auto simp: settle_financials_def)
  moreover have "core b' = (core b)\<lparr>kk_payments := bt_insert i p' (mb_payments b)\<rparr>"
    "booked b fx b'" "same_context b b'" "mb_next b' = mb_next b"
    unfolding b' by (simp_all add: core_def booked_def same_context_def apply_financial_effects_def)
  ultimately show ?thesis by blast
qed

lemma apply_cooldown_Ok:
  assumes "apply_cooldown b from d = Ok b'"
  shows "\<exists>h. extend_cooldown (mb_history b) from d (mb_now b) (mb_event b) = Ok h
     \<and> core b' = (core b)\<lparr>kk_history := h\<rparr> \<and> (\<forall>fx b0. booked b0 fx b' = booked b0 fx b)
     \<and> (\<forall>b0. same_context b0 b' = same_context b0 b) \<and> mb_next b' = mb_next b"
  using assms by (auto simp: apply_cooldown_def core_def booked_def same_context_def)

lemma advances_settle:
  assumes "bt_get (kk_requests (core b)) i = Some r" and "bt_get (kk_payments (core b)) i = Some p"
    and "resolves (mb_now b) (mb_event b) settlement (rq_lifecycle r) l'"
    and "next_version (rq_version r) = Ok ver"
    and "rf_settle p settlement (mb_now b) = Ok (p', fx)"
    and "settled_history settlement r (mb_now b) (mb_event b) (kk_history (core b)) h"
    and "core b' = (core b)\<lparr>kk_requests := bt_insert i (with_lifecycle r l') (kk_requests (core b)),
         kk_payments := bt_insert i p' (kk_payments (core b)), kk_history := h\<rparr>"
    and "booked b fx b'" and "same_context b b'"
  shows "advances c b b'"
  using kernel_move.settle [OF assms(1,2,3) next_version_Ok [OF assms(4)] assms(5,6), of c] assms(7-9)
  by (auto simp: advances_def)

lemma release_reservation_next [simp]: "mb_next (release_reservation r b) = mb_next b"
  "mb_payments (release_reservation r b) = mb_payments b" "mb_now (release_reservation r b) = mb_now b"
  by (simp_all add: release_reservation_def)

lemma cancel_submission_advances:
  assumes "cancel_submission b i x = Ok b'" and "\<And>r. find_request b i = Some r \<Longrightarrow> rq_id r = i"
  shows "advances c b b'"
proof -
  obtain r preparation ver b1 where r: "find_request b i = Some r" "rq_lifecycle r = PreparingSubmission preparation"
    and ver: "next_version (rq_version r) = Ok ver"
    and s: "settle_financials (release_reservation (with_lifecycle r (LcCancelled preparation (mb_event b))) b)
        (rq_id r) SettledCancelled = Ok b1"
    and b': "b' = emit (schedule (CancelTask (SubmissionTimeout (rq_id r)))
        (put_request (rq_id r) (with_lifecycle r (LcCancelled preparation (mb_event b))) b1)) (cancellation_event x (rq_id r))"
    using assms(1) by (auto simp: cancel_submission_def Let_def is_preparing_iff with_lifecycle_eq)
  have i: "rq_id r = i" by (rule assms(2) [OF r(1)])
  obtain p p' fx where p: "bt_get (mb_payments b) i = Some p" "rf_settle p SettledCancelled (mb_now b) = Ok (p', fx)"
    and c1: "core b1 = (core b)\<lparr>kk_history := release r (mb_history b), kk_payments := bt_insert i p' (mb_payments b)\<rparr>"
    and b1: "booked (release_reservation (with_lifecycle r (LcCancelled preparation (mb_event b))) b) fx b1"
      "same_context (release_reservation (with_lifecycle r (LcCancelled preparation (mb_event b))) b) b1"
      "mb_next b1 = mb_next b"
    using settle_financials_Ok [OF s] by (auto simp: i)
  show ?thesis
  proof (rule advances_settle [where p = p and p' = p' and fx = fx and settlement = SettledCancelled])
    show "bt_get (kk_requests (core b)) i = Some r" using r(1) by (simp add: find_request_core)
    show "bt_get (kk_payments (core b)) i = Some p" by (simp add: p(1))
    show "resolves (mb_now b) (mb_event b) SettledCancelled (rq_lifecycle r) (LcCancelled preparation (mb_event b))"
      unfolding r(2) by (rule cancels)
    show "next_version (rq_version r) = Ok ver" by (rule ver)
    show "rf_settle p SettledCancelled (mb_now b) = Ok (p', fx)" by (rule p(2))
    show "settled_history SettledCancelled r (mb_now b) (mb_event b) (kk_history (core b)) (release r (mb_history b))"
      by (simp add: settled_history_def)
    show "core b' = (core b)\<lparr>kk_requests := bt_insert i (with_lifecycle r (LcCancelled preparation (mb_event b)))
        (kk_requests (core b)), kk_payments := bt_insert i p' (kk_payments (core b)),
        kk_history := release r (mb_history b)\<rparr>"
      by (simp add: b' i c1 b1(3) del: core_simps) (simp add: b1(3))
    show "booked b fx b'" using b1(1) by (simp add: b' booked_def release_reservation_def emit_def schedule_def put_request_def split: if_splits)
    show "same_context b b'" using b1(2) by (simp add: b' same_context_def release_reservation_def emit_def schedule_def put_request_def split: if_splits)
  qed
qed

lemma settle_financials_context:
  "settle_financials b i settlement = Ok b' \<Longrightarrow> mb_now b' = mb_now b \<and> mb_event b' = mb_event b"
  by (auto simp: settle_financials_def apply_financial_effects_def)

lemma apply_cooldown_context:
  "apply_cooldown b from d = Ok b' \<Longrightarrow> mb_now b' = mb_now b \<and> mb_event b' = mb_event b"
  by (auto simp: apply_cooldown_def)

lemma settle_accepted_advances:
  assumes "settle_accepted b i permission = Ok b'"
  shows "advances c b b'"
proof -
  obtain r a b1 ver where r: "find_request b i = Some r" "rq_lifecycle r = AwaitingRecipientDecision a"
    and s: "settle_financials b i SettledAccepted = Ok b1" and ver: "next_version (rq_version r) = Ok ver"
    and b': "b' = schedule (CancelTask (RequestExpiry i))
        (put_request i (with_lifecycle r (LcAccepted permission a (mb_event b1))) b1)"
    using assms by (auto simp: settle_accepted_def is_awaiting_iff with_lifecycle_eq)
  obtain p p' fx where p: "bt_get (mb_payments b) i = Some p" "rf_settle p SettledAccepted (mb_now b) = Ok (p', fx)"
    and c1: "core b1 = (core b)\<lparr>kk_payments := bt_insert i p' (mb_payments b)\<rparr>"
    and b1: "booked b fx b1" "same_context b b1" "mb_next b1 = mb_next b"
    using settle_financials_Ok [OF s] by blast
  show ?thesis
    by (rule advances_settle [where p = p and p' = p' and fx = fx and settlement = SettledAccepted and i = i and r = r
          and l' = "LcAccepted permission a (mb_event b)" and ver = ver and h = "mb_history b"])
       (use r p c1 b1 ver settle_financials_context [OF s] in
        \<open>simp_all add: b' find_request_core settled_history_def accepts core_def schedule_def put_request_def same_context_def booked_def\<close>)
qed

lemma settle_rejected_advances:
  assumes "settle_rejected b i = Ok b'" and "mb_now b \<le> deadline"
    and "\<And>r a. find_request b i = Some r \<Longrightarrow> rq_lifecycle r = AwaitingRecipientDecision a \<Longrightarrow> su_decision_deadline a = deadline"
  shows "advances c b b'"
proof -
  obtain r a b1 b2 ver where r: "find_request b i = Some r" "rq_lifecycle r = AwaitingRecipientDecision a"
    and s: "settle_financials b i SettledRejected = Ok b1"
    and cd: "apply_cooldown b1 (mb_now b1) (qt_rejection_cooldown (rq_terms r)) = Ok b2"
    and ver: "next_version (rq_version r) = Ok ver"
    and b': "b' = schedule (CancelTask (RequestExpiry i))
        (put_request i (with_lifecycle r (LcRejected a (mb_event b2))) b2)"
    using assms(1) by (auto simp: settle_rejected_def is_awaiting_iff with_lifecycle_eq)
  obtain p p' fx where p: "bt_get (mb_payments b) i = Some p" "rf_settle p SettledRejected (mb_now b) = Ok (p', fx)"
    and c1: "core b1 = (core b)\<lparr>kk_payments := bt_insert i p' (mb_payments b)\<rparr>"
    and b1: "booked b fx b1" "same_context b b1" "mb_next b1 = mb_next b"
    using settle_financials_Ok [OF s] by blast
  obtain h where h: "extend_cooldown (mb_history b1) (mb_now b1) (qt_rejection_cooldown (rq_terms r)) (mb_now b1) (mb_event b1) = Ok h"
    and c2: "core b2 = (core b1)\<lparr>kk_history := h\<rparr>" and b2: "booked b fx b2" "same_context b b2" "mb_next b2 = mb_next b1"
    using apply_cooldown_Ok [OF cd] b1 by blast
  have ctx: "mb_now b1 = mb_now b" "mb_event b1 = mb_event b" "mb_event b2 = mb_event b" "mb_history b1 = mb_history b"
    using settle_financials_context [OF s] apply_cooldown_context [OF cd] arg_cong [OF c1, of kk_history] by simp_all
  show ?thesis
    by (rule advances_settle [where p = p and p' = p' and fx = fx and settlement = SettledRejected and i = i and r = r
          and l' = "LcRejected a (mb_event b)" and ver = ver and h = h])
       (use r p c1 c2 b1 b2 ver h ctx assms(2) assms(3) [OF r] in
        \<open>simp_all add: b' find_request_core settled_history_def rejects core_def schedule_def put_request_def same_context_def booked_def\<close>)
qed

lemma settle_expired_advances:
  assumes "settle_expired b i = Ok b'" and "deadline < mb_now b"
    and "\<And>r a. find_request b i = Some r \<Longrightarrow> rq_lifecycle r = AwaitingRecipientDecision a \<Longrightarrow> su_decision_deadline a = deadline"
  shows "advances c b b'"
proof -
  obtain r a b1 b2 ver where r: "find_request b i = Some r" "rq_lifecycle r = AwaitingRecipientDecision a"
    and s: "settle_financials b i SettledExpired = Ok b1"
    and cd: "apply_cooldown b1 (su_decision_deadline a) (qt_expiry_cooldown (rq_terms r)) = Ok b2"
    and ver: "next_version (rq_version r) = Ok ver"
    and b': "b' = schedule (CancelTask (RequestExpiry i))
        (put_request i (with_lifecycle r (LcExpired a (mb_event b2))) b2)"
    using assms(1) by (auto simp: settle_expired_def is_awaiting_iff with_lifecycle_eq)
  obtain p p' fx where p: "bt_get (mb_payments b) i = Some p" "rf_settle p SettledExpired (mb_now b) = Ok (p', fx)"
    and c1: "core b1 = (core b)\<lparr>kk_payments := bt_insert i p' (mb_payments b)\<rparr>"
    and b1: "booked b fx b1" "same_context b b1" "mb_next b1 = mb_next b"
    using settle_financials_Ok [OF s] by blast
  obtain h where h: "extend_cooldown (mb_history b1) (su_decision_deadline a) (qt_expiry_cooldown (rq_terms r)) (mb_now b1) (mb_event b1) = Ok h"
    and c2: "core b2 = (core b1)\<lparr>kk_history := h\<rparr>" and b2: "booked b fx b2" "same_context b b2" "mb_next b2 = mb_next b1"
    using apply_cooldown_Ok [OF cd] b1 by blast
  have ctx: "mb_now b1 = mb_now b" "mb_event b1 = mb_event b" "mb_event b2 = mb_event b" "mb_history b1 = mb_history b"
    using settle_financials_context [OF s] apply_cooldown_context [OF cd] arg_cong [OF c1, of kk_history] by simp_all
  show ?thesis
    by (rule advances_settle [where p = p and p' = p' and fx = fx and settlement = SettledExpired and i = i and r = r
          and l' = "LcExpired a (mb_event b)" and ver = ver and h = h])
       (use r p c1 c2 b1 b2 ver h ctx assms(2) assms(3) [OF r] in
        \<open>simp_all add: b' find_request_core settled_history_def expires core_def schedule_def put_request_def same_context_def booked_def\<close>)
qed

lemmas update_defs = core_def booked_def same_context_def emit_def schedule_def upd_relationship_def put_request_def

lemma quiet_refl [simp]: "quiet_step b b"
  by (simp add: quiet_step_def)

lemma quiet_emit [simp]: "quiet_step b (emit b' kind) = quiet_step b b'"
  by (simp add: quiet_step_def)

lemma quiet_trans: "quiet_step b b1 \<Longrightarrow> quiet_step b1 b2 \<Longrightarrow> quiet_step b b2"
  by (simp add: quiet_step_def booked_def same_context_def)

lemma mark_relationship_quiet: "mark_relationship b target = Ok b' \<Longrightarrow> quiet_step b b'"
  by (auto simp: mark_relationship_def quiet_step_def update_defs)

lemma terminate_lane_quiet:
  assumes "terminate_lane b = Ok b'"
  shows "quiet_step b b'"
proof -
  obtain epoch where epoch: "checked_add (re_reply_epoch (st_relationship (mb_next b))) 1 = Some epoch"
    using assms by (auto simp: terminate_lane_def)
  let ?b = "upd_relationship (\<lambda>x. x\<lparr>re_reply_epoch := epoch\<rparr>) b"
  have q: "quiet_step b ?b" by (simp add: quiet_step_def update_defs)
  show ?thesis
  proof (cases "mb_lane ?b")
    case None
    then show ?thesis using assms epoch q by (simp add: terminate_lane_def)
  next
    case (Some lane)
    then obtain effect where "plan_revocation lane = Ok effect"
      using assms epoch by (auto simp: terminate_lane_def Let_def)
    then show ?thesis
      using assms epoch Some q
      by (cases effect) (simp_all add: terminate_lane_def Let_def, auto simp: quiet_step_def update_defs)
  qed
qed

lemma set_followup_policy_quiet: "set_followup_policy b expected policy = Ok b' \<Longrightarrow> quiet_step b b'"
  by (auto simp: set_followup_policy_def quiet_step_def update_defs)

lemma issue_terms_quiet:
  assumes "issue_terms b cx return_route alias class quote digest = Ok b'"
  shows "quiet_step b b'"
  using assms
  by (cases "active_request (mb_next b)"; cases "cx_permission cx")
     (auto simp: issue_terms_def Let_def quiet_step_def update_defs)

lemma admit_followup_quiet:
  assumes "admit_followup b i message_id ct dl digest valid_until expected admission = Ok b'"
  shows "quiet_step b b'"
proof -
  obtain m where "b' = emit (mb_deliver (b\<lparr>mb_messages := m\<rparr>) message_id ct dl) (FollowupAdmitted i message_id)"
    using assms by (cases admission) (auto simp: admit_followup_def Let_def)
  then show ?thesis by (simp add: quiet_step_def) (simp add: update_defs)
qed

lemma unblock_quiet: "unblock b expected = Ok b' \<Longrightarrow> quiet_step b b'"
  by (auto simp: unblock_def dest: mark_relationship_quiet)

lemma revoke_quiet: "revoke b expected = Ok b' \<Longrightarrow> quiet_step b b'"
  using quiet_trans by (fastforce simp: revoke_def dest: mark_relationship_quiet terminate_lane_quiet)

definition keyed :: "builder \<Rightarrow> bool" where
  "keyed b \<longleftrightarrow> (\<forall>i r. find_request b i = Some r \<longrightarrow> rq_id r = i)"

lemma quiet_keyed: "quiet_step b b' \<Longrightarrow> keyed b \<Longrightarrow> keyed b'"
  by (simp add: keyed_def find_request_core quiet_step_def del: core_simps)

lemma quiet_frame:
  assumes "quiet_step b b'"
  shows "st_requests (mb_next b') = st_requests (mb_next b)" and "mb_payments b' = mb_payments b"
    and "mb_history b' = mb_history b" and "mb_now b' = mb_now b" and "mb_event b' = mb_event b"
  using assms by (simp_all add: quiet_step_def same_context_def core_def)

lemma cancel_request_submission_advances:
  assumes "cancel_request_submission b actor i expected reason = Ok b'" and "keyed b"
  shows "advances c b b'"
proof -
  obtain r where r: "find_request b i = Some r"
    using assms(1) by (auto simp: cancel_request_submission_def)
  have "b' = b \<or> cancel_submission b i OrdinaryCancellation = Ok b'"
    using assms(1) by (auto simp: cancel_request_submission_def split: if_splits actor_ref.splits)
  then show ?thesis
    using cancel_submission_advances [of b i _ b'] assms(2) quiet_advances [of b b] by (auto simp: keyed_def)
qed

lemma settle_decision_advances:
  assumes "settle_decision b d = Ok b'" and "keyed b"
  shows "advances c b b'"
proof (cases "active_request (mb_next b)")
  case None
  with assms show ?thesis by (simp add: settle_decision_def quiet_advances)
next
  case (Some r)
  obtain i where "find_request b i = Some r"
    using active_request_SomeD [OF Some] by (auto simp: find_request_def)
  then have r: "find_request b (rq_id r) = Some r" using assms(2) by (auto simp: keyed_def)
  show ?thesis
  proof (cases "rq_lifecycle r")
    case (PreparingSubmission p)
    with assms Some show ?thesis
      by (auto simp: settle_decision_def keyed_def intro: cancel_submission_advances)
  next
    case (AwaitingRecipientDecision a)
    consider "mb_now b \<le> su_decision_deadline a" "d = DecAccept" "settle_accepted b (rq_id r) PermStanding = Ok b'"
      | "mb_now b \<le> su_decision_deadline a" "settle_rejected b (rq_id r) = Ok b'"
      | "su_decision_deadline a < mb_now b" "settle_expired b (rq_id r) = Ok b'"
      using assms(1) Some AwaitingRecipientDecision
      by (cases d) (auto simp: settle_decision_def split: if_splits)
    then show ?thesis
    proof cases
      case 1
      then show ?thesis by (intro settle_accepted_advances)
    next
      case 2
      then show ?thesis
        by (intro settle_rejected_advances [where deadline = "su_decision_deadline a"])
           (use r AwaitingRecipientDecision in auto)
    next
      case 3
      then show ?thesis
        by (intro settle_expired_advances [where deadline = "su_decision_deadline a"])
           (use r AwaitingRecipientDecision in auto)
    qed
  qed (use assms Some in \<open>simp_all add: settle_decision_def quiet_advances\<close>)
qed

lemma relationship_decision_advances:
  assumes "relationship_decision b expected d = Ok b'" and "keyed b"
  shows "advances c b b'"
proof -
  obtain b1 b2 b3 where "mark_relationship b (decision_state d) = Ok b1"
    "(if d = DecBlock then terminate_lane b1 else Ok b1) = Ok b2"
    and s: "settle_decision b2 d = Ok b3" and b': "b' = emit b3 (decision_event d)"
    using assms(1) by (auto simp: relationship_decision_def)
  then have q: "quiet_step b b2"
    by (auto dest!: mark_relationship_quiet terminate_lane_quiet split: if_splits intro: quiet_trans)
  have "advances c b2 b3" using s quiet_keyed [OF q assms(2)] by (rule settle_decision_advances)
  then show ?thesis using q by (simp add: b' advances_after_quiet)
qed

lemma expire_request_advances:
  assumes "expire_request b i expected = Ok b'"
  shows "advances c b b'"
proof -
  obtain r where r: "find_request b i = Some r" using assms by (auto simp: expire_request_def)
  show ?thesis
  proof (cases "is_terminal (rq_lifecycle r)")
    case True
    with assms r show ?thesis by (simp add: expire_request_def quiet_advances)
  next
    case False
    then obtain a b1 where "rq_lifecycle r = AwaitingRecipientDecision a" "su_decision_deadline a < mb_now b"
      "settle_expired b i = Ok b1" "b' = emit b1 (RequestExpiredEvent i)"
      using assms r by (auto simp: expire_request_def is_awaiting_iff)
    then show ?thesis
      using r by (auto intro!: settle_expired_advances [where deadline = "su_decision_deadline a"])
  qed
qed

lemma record_payment_advances:
  assumes "record_payment c b i receipt = Ok b'"
  shows "advances c b b'"
proof -
  obtain p p' fx where p: "bt_get (mb_payments b) i = Some p" "rf_record_payment c p receipt = Ok (p', fx)"
    using assms by (auto simp: record_payment_def)
  let ?b1 = "b\<lparr>mb_payments := bt_insert i p' (mb_payments b)\<rparr>"
  show ?thesis
  proof (cases "\<exists>r. find_request b i = Some r \<and> is_preparing_submission (rq_lifecycle r) \<and> fe_capture_voided fx")
    case False
    then have "b' = emit (apply_financial_effects ?b1 i fx) (PaymentRecorded i)"
      using assms p
      by (auto simp: record_payment_def Let_def find_request_def is_preparing_iff
          split: option.splits bool.splits request_lifecycle.splits)
    moreover have "kernel_move c (mb_now b) (mb_event b) (core b) fx
        ((core b)\<lparr>kk_payments := bt_insert i p' (kk_payments (core b))\<rparr>)"
      using p False by (intro kernel_move.pay) (auto simp: find_request_def)
    ultimately show ?thesis
      by (auto simp: advances_def) (auto simp: update_defs apply_financial_effects_def)
  next
    case True
    then obtain r preparation where r: "find_request b i = Some r" "rq_lifecycle r = PreparingSubmission preparation"
      and v: "fe_capture_voided fx" by (auto simp: is_preparing_iff)
    have f1: "find_request ?b1 i = Some r" using r(1) by (simp add: find_request_def)
    obtain ver where ver: "next_version (rq_version r) = Ok ver"
      using assms p v r f1 by (auto simp: record_payment_def Let_def)
    let ?r = "with_lifecycle r (LcCancelled preparation (mb_event b))"
    have b': "b' = emit (apply_financial_effects (schedule (CancelTask (SubmissionTimeout i))
        (release_reservation ?r (put_request i ?r ?b1))) i fx) (PaymentRecorded i)"
      using assms p v r f1 ver by (simp add: record_payment_def Let_def with_lifecycle_eq)
    have m: "kernel_move c (mb_now b) (mb_event b) (core b) fx
        ((core b)\<lparr>kk_requests := bt_insert i ?r (kk_requests (core b)),
          kk_payments := bt_insert i p' (kk_payments (core b)), kk_history := release r (kk_history (core b))\<rparr>)"
      by (rule kernel_move.void) (use p r v next_version_Ok [OF ver] in \<open>simp_all add: find_request_def\<close>)
    have "core b' = (core b)\<lparr>kk_requests := bt_insert i ?r (kk_requests (core b)),
          kk_payments := bt_insert i p' (kk_payments (core b)), kk_history := release r (kk_history (core b))\<rparr>"
      unfolding b' by (simp add: update_defs apply_financial_effects_def release_reservation_def release_def)
    moreover have "booked b fx b'" "same_context b b'"
      unfolding b' by (simp_all add: update_defs apply_financial_effects_def release_reservation_def)
    ultimately show ?thesis using m by (auto simp: advances_def)
  qed
qed

lemma create_request_Ok:
  assumes "create_request c b cx i message_id payment_method t creation_key = Ok b'"
  obtains deadline amount generation p r where
    "rel_state b \<noteq> RelBlocked" "cx_permission cx = BondedRequest"
    "validate_request_terms b cx t = Ok deadline"
    "bt_get (st_requests (mb_next b)) i = None" "bt_get (mb_payments b) i = None"
    "active_request (mb_next b) = None" "hi_pending (mb_history b) = None"
    "hi_earliest (mb_history b) \<le> cx_now cx" "payment_method \<noteq> 0"
    "qt_quote_id t |\<notin>| st_used_quotes (mb_next b)" "bt_get (st_quotes (mb_next b)) (qt_quote_id t) = Some t"
    "charge_amount t = Ok amount"
    "rf_new (request_capture c t i amount payment_method) (request_contract c t i) = Ok p"
    "r = \<lparr>rq_creation_key = creation_key, rq_creation_event = mb_event b, rq_id = i,
         rq_generation = generation, rq_initial_message = message_id,
         rq_funding = op_id (request_capture c t i amount payment_method),
         rq_terms = t, rq_created_at = cx_now cx,
         rq_lifecycle = PreparingSubmission \<lparr>sp_deadline = deadline\<rparr>, rq_version = 0\<rparr>"
    "b' = emit (schedule (Schedule (SubmissionTimeout i) deadline) (put_request i r
         (upd_relationship (\<lambda>x. x\<lparr>re_generation := generation\<rparr>)
           (b\<lparr>mb_history := (mb_history b)\<lparr>hi_pending := Some \<lparr>rv_relationship = qt_relationship t, rv_request = i\<rparr>\<rparr>,
              mb_effects := mb_effects b @ [ExecutePayment i (op_id (request_capture c t i amount payment_method))],
              mb_payments := bt_insert i p (mb_payments b),
              mb_next := (mb_next b)\<lparr>st_used_quotes := finsert (qt_quote_id t) (st_used_quotes (mb_next b))\<rparr>\<rparr>))))
       (RequestCreated i)"
proof -
  have x: "rel_state b \<noteq> RelBlocked" "cx_permission cx = BondedRequest"
    using assms by (auto simp: create_request_def split: request_permission.splits)
  obtain deadline where d: "validate_request_terms b cx t = Ok deadline"
    using assms x by (auto simp: create_request_def)
  obtain amount where a: "charge_amount t = Ok amount"
    using assms x d by (auto simp: create_request_def)
  obtain generation where g: "checked_add (re_generation (st_relationship (mb_next b))) 1 = Some generation"
    using assms x d a by (auto simp: create_request_def Let_def)
  obtain p where p: "rf_new (request_capture c t i amount payment_method) (request_contract c t i) = Ok p"
    using assms x d a g by (auto simp: create_request_def Let_def)
  have none: "active_request (mb_next b) = None" if "\<not> list_ex (\<lambda>r. \<not> is_terminal (rq_lifecycle r)) (bt_values (st_requests (mb_next b)))"
    using that by (auto simp: active_request_None list_ex_iff bt_values_iff)
  show thesis
    by (rule that [of deadline amount p _ generation])
       (use assms x d a g p none in \<open>auto simp: create_request_def Let_def bt_has_def not_less\<close>)
qed

lemma create_request_advances:
  assumes "create_request c b cx i message_id payment_method t creation_key = Ok b'" and "mb_now b = cx_now cx"
  shows "advances c b b'"
  using assms(1)
proof (rule create_request_Ok)
  fix deadline amount generation p r
  assume h: "validate_request_terms b cx t = Ok deadline"
    "bt_get (st_requests (mb_next b)) i = None" "bt_get (mb_payments b) i = None"
    "active_request (mb_next b) = None" "hi_pending (mb_history b) = None"
    "hi_earliest (mb_history b) \<le> cx_now cx"
    and p: "rf_new (request_capture c t i amount payment_method) (request_contract c t i) = Ok p"
    and r: "r = \<lparr>rq_creation_key = creation_key, rq_creation_event = mb_event b, rq_id = i,
         rq_generation = generation, rq_initial_message = message_id,
         rq_funding = op_id (request_capture c t i amount payment_method),
         rq_terms = t, rq_created_at = cx_now cx,
         rq_lifecycle = PreparingSubmission \<lparr>sp_deadline = deadline\<rparr>, rq_version = 0\<rparr>"
    and b': "b' = emit (schedule (Schedule (SubmissionTimeout i) deadline) (put_request i r
         (upd_relationship (\<lambda>x. x\<lparr>re_generation := generation\<rparr>)
           (b\<lparr>mb_history := (mb_history b)\<lparr>hi_pending := Some \<lparr>rv_relationship = qt_relationship t, rv_request = i\<rparr>\<rparr>,
              mb_effects := mb_effects b @ [ExecutePayment i (op_id (request_capture c t i amount payment_method))],
              mb_payments := bt_insert i p (mb_payments b),
              mb_next := (mb_next b)\<lparr>st_used_quotes := finsert (qt_quote_id t) (st_used_quotes (mb_next b))\<rparr>\<rparr>))))
       (RequestCreated i)"
  have "qt_history_version t = hi_version (mb_history b)"
    "qt_relationship t = rk_reference (re_key (st_relationship (mb_next b)))"
    "qt_sender t = rk_sender (re_key (st_relationship (mb_next b)))"
    "qt_recipient t = rk_recipient (re_key (st_relationship (mb_next b)))"
    using h(1) by (auto simp: validate_request_terms_def Let_def)
  then have fresh: "fresh_request (core b) r (mb_now b) (mb_event b)"
    using h assms(2) by (auto simp: fresh_request_def r active_request_None)
  have m: "kernel_move c (mb_now b) (mb_event b) (core b) no_effects
      ((core b)\<lparr>kk_requests := bt_insert (rq_id r) r (kk_requests (core b)),
         kk_payments := bt_insert (rq_id r) p (kk_payments (core b)),
         kk_history := (kk_history (core b))\<lparr>hi_pending := Some (reservation r)\<rparr>\<rparr>)"
    by (rule kernel_move.create [OF fresh p]) (simp add: r)
  have "core b' = (core b)\<lparr>kk_requests := bt_insert (rq_id r) r (kk_requests (core b)),
         kk_payments := bt_insert (rq_id r) p (kk_payments (core b)),
         kk_history := (kk_history (core b))\<lparr>hi_pending := Some (reservation r)\<rparr>\<rparr>"
    unfolding b' by (simp add: update_defs reservation_def r)
  moreover have "booked b no_effects b'" "same_context b b'"
    unfolding b' by (simp_all add: update_defs)
  ultimately show ?thesis using m unfolding advances_def by auto
qed

lemma commit_submission_Ok:
  assumes "commit_submission b cx r input = Ok b'"
  obtains p deadline ver h b0 where
    "bt_get (mb_payments b) (rq_id r) = Some p" "funding_finalized p" "\<not> capture_reversed p"
    "time_checked_add (cx_now cx) (qt_decision_window (rq_terms r)) = Some deadline"
    "bt_get (mb_messages b) (rq_initial_message r) = None"
    "next_version (rq_version r) = Ok ver"
    "record_submission (mb_history b) (reservation r) (cx_now cx) (qt_next_request_backoff (rq_terms r)) (mb_event b) = Ok h"
    "b0 = mb_deliver (schedule (Schedule (RequestExpiry (si_request input)) deadline)
        (schedule (CancelTask (SubmissionTimeout (si_request input)))
          (put_request (si_request input)
            (with_lifecycle r (AwaitingRecipientDecision \<lparr>su_at = cx_now cx, su_decision_deadline = deadline\<rparr>))
            (b\<lparr>mb_messages := bt_insert (rq_initial_message r) (submitted_message b cx r input) (mb_messages b),
               mb_history := h\<rparr>))))
        (rq_initial_message r) (si_content input) (si_delivery input)"
    "b' = emit (b0\<lparr>mb_effects := mb_effects b0 @ [EstablishRequestSolicitation (si_request input) (rq_generation r)]\<rparr>)
        (RequestSubmitted (si_request input))"
proof -
  obtain p deadline ver h where p: "bt_get (mb_payments b) (rq_id r) = Some p" "funding_finalized p" "\<not> capture_reversed p"
    and d: "time_checked_add (cx_now cx) (qt_decision_window (rq_terms r)) = Some deadline"
    and m: "bt_get (mb_messages b) (rq_initial_message r) = None"
    and ver: "next_version (rq_version r) = Ok ver"
    and h: "record_submission (mb_history b) (reservation r) (cx_now cx) (qt_next_request_backoff (rq_terms r)) (mb_event b) = Ok h"
    using assms by (auto simp: commit_submission_def validate_submission_authority_def bt_has_def)
  show thesis
    by (rule that [OF p d m ver h refl])
       (use assms p d m ver h in \<open>auto simp: commit_submission_def validate_submission_authority_def bt_has_def Let_def with_lifecycle_eq\<close>)
qed

lemma commit_submission_advances:
  assumes "commit_submission b cx r input = Ok b'" and "find_request b (si_request input) = Some r"
    and "rq_id r = si_request input" and "rq_lifecycle r = PreparingSubmission preparation"
    and "mb_now b \<le> sp_deadline preparation" and "hi_earliest (mb_history b) \<le> mb_now b"
    and "mb_now b = cx_now cx"
  shows "advances c b b'"
  using assms(1)
proof (rule commit_submission_Ok)
  fix p deadline ver h b0
  let ?r = "with_lifecycle r (AwaitingRecipientDecision \<lparr>su_at = cx_now cx, su_decision_deadline = deadline\<rparr>)"
  assume p: "bt_get (mb_payments b) (rq_id r) = Some p" "funding_finalized p" "\<not> capture_reversed p"
    and d: "time_checked_add (cx_now cx) (qt_decision_window (rq_terms r)) = Some deadline"
    and ver: "next_version (rq_version r) = Ok ver"
    and h: "record_submission (mb_history b) (reservation r) (cx_now cx) (qt_next_request_backoff (rq_terms r)) (mb_event b) = Ok h"
    and b0': "b0 = mb_deliver (schedule (Schedule (RequestExpiry (si_request input)) deadline)
        (schedule (CancelTask (SubmissionTimeout (si_request input)))
          (put_request (si_request input) ?r
            (b\<lparr>mb_messages := bt_insert (rq_initial_message r) (submitted_message b cx r input) (mb_messages b),
               mb_history := h\<rparr>))))
        (rq_initial_message r) (si_content input) (si_delivery input)"
    and b0: "b' = emit (b0\<lparr>mb_effects := mb_effects b0 @ [EstablishRequestSolicitation (si_request input) (rq_generation r)]\<rparr>)
        (RequestSubmitted (si_request input))"
  have m: "kernel_move c (mb_now b) (mb_event b) (core b) no_effects
      ((core b)\<lparr>kk_requests := bt_insert (si_request input) (with_lifecycle r
            (AwaitingRecipientDecision \<lparr>su_at = mb_now b, su_decision_deadline = deadline\<rparr>)) (kk_requests (core b)),
         kk_history := h\<rparr>)"
    by (rule kernel_move.submit [where p = p])
       (use p d h assms(2-7) next_version_Ok [OF ver] in \<open>simp_all add: find_request_def\<close>)
  have c0: "core b0 = (core b)\<lparr>kk_requests := bt_insert (si_request input) ?r (kk_requests (core b)), kk_history := h\<rparr>"
    "booked b no_effects b0" "same_context b b0"
    unfolding b0' by (simp_all, simp_all add: core_def booked_def same_context_def)
  have "core b' = core b0" "booked b no_effects b'" "same_context b b'"
    using c0(2,3) unfolding b0 by (simp_all, simp_all add: core_def booked_def same_context_def)
  then show ?thesis using m c0(1) assms(7) by (auto simp: advances_def)
qed

lemma submit_request_advances:
  assumes "submit_request_to_recipient b cx input = Ok b'" and "keyed b" and "mb_now b = cx_now cx"
  shows "advances c b b'"
proof -
  obtain r preparation where r: "find_request b (si_request input) = Some r" "rq_lifecycle r = PreparingSubmission preparation"
    using assms(1)
    by (auto simp: submit_request_to_recipient_def Let_def is_preparing_iff split: if_splits request_lifecycle.splits)
  have i: "rq_id r = si_request input" using assms(2) r(1) by (simp add: keyed_def)
  obtain failure where f: "submission_failure b r input (cx_permission cx) = Ok failure"
    using assms(1) r by (auto simp: submit_request_to_recipient_def Let_def)
  show ?thesis
  proof (cases "\<exists>x. cancel_submission b (si_request input) x = Ok b'")
    case True
    then show ?thesis using assms(2) by (auto simp: keyed_def intro: cancel_submission_advances)
  next
    case False
    then have n: "failure = None" and s: "commit_submission b cx r input = Ok b'"
      using assms(1) r f by (auto simp: submit_request_to_recipient_def Let_def split: option.splits if_splits)
    have "mb_now b \<le> sp_deadline preparation" "hi_earliest (mb_history b) \<le> mb_now b"
      using f r by (auto simp: n submission_failure_def split: if_splits)
    then show ?thesis using commit_submission_advances [OF s r(1) i r(2)] assms(3) by blast
  qed
qed

theorem apply_command_advances:
  assumes "apply_command c b cx actor key command = Ok b'" and "keyed b" and "mb_now b = cx_now cx"
  shows "advances c b b'"
  using assms
  by (cases command)
     (auto simp: apply_command_def
       intro: record_payment_advances create_request_advances submit_request_advances
         cancel_request_submission_advances relationship_decision_advances expire_request_advances
         set_followup_policy_quiet [THEN quiet_advances] admit_followup_quiet [THEN quiet_advances]
         issue_terms_quiet [THEN quiet_advances] unblock_quiet [THEN quiet_advances]
         revoke_quiet [THEN quiet_advances])

end
