(* ===== verification/Kernel_Runs.thy ===== *)
theory Kernel_Runs
  imports Kernel_Moves
begin

text \<open>
  Runs of the kernel: a snapshot, the plan an input produces on it, and the snapshot that holds
  when the plan has been committed with its ledger batch.  The properties say what holds of the
  requests, their money and the ledger in every snapshot a run can reach.
\<close>

section \<open>Plans and commits\<close>

datatype kernel_input =
  SignedCommand kernel_command
| IncomingNative relationship_request
| LaneGranted lane_id

definition kernel_plan ::
  "crypto \<Rightarrow> settlement_snapshot \<Rightarrow> kernel_input \<times> transition_context
     \<Rightarrow> (transition_manifest option, protocol_error) res" where
  "kernel_plan c s x =
     (case fst x of
        SignedCommand command \<Rightarrow> map_ok Some (transition c s command (snd x))
      | IncomingNative incoming \<Rightarrow> receive_native_request s incoming (snd x)
      | LaneGranted lane \<Rightarrow> map_ok Some (accept_express_lane s lane (snd x)))"

text \<open>The snapshot the host stores: the manifest's records over the ledger with its batch.\<close>

definition snapshot_next :: "settlement_snapshot \<Rightarrow> transition_manifest \<Rightarrow> ledger_view \<Rightarrow> settlement_snapshot" where
  "snapshot_next s m v =
     s\<lparr>sn_lane := (case tm_lane_revocation m of Some e \<Rightarrow> Some (lr_lane e) | None \<Rightarrow> sn_lane s),
       sn_revision := sn_revision s + 1, sn_state := tm_next_state m, sn_history := tm_next_history m,
       sn_payments := tm_next_payments m, sn_messages := tm_next_messages m, sn_ledger := v\<rparr>"

definition kernel_step ::
  "crypto \<Rightarrow> settlement_snapshot \<Rightarrow> kernel_input \<times> transition_context
     \<Rightarrow> (settlement_snapshot \<times> transition_manifest option, protocol_error) res" where
  "kernel_step c s x =
     and_then (kernel_plan c s x) (\<lambda>plan.
     case plan of
       None \<Rightarrow> Ok (s, None)
     | Some m \<Rightarrow>
         and_then (map_err ledger_to_protocol (view_apply (sn_ledger s) (tm_ledger_batch m))) (\<lambda>v.
         Ok (snapshot_next s m v, Some m)))"

definition snapshot_core :: "settlement_snapshot \<Rightarrow> kernel_core" where
  "snapshot_core s =
     \<lparr>kk_key = re_key (st_relationship (sn_state s)), kk_requests = st_requests (sn_state s),
      kk_payments = sn_payments s, kk_history = sn_history s\<rparr>"

definition manifest_core :: "transition_manifest \<Rightarrow> kernel_core" where
  "manifest_core m =
     \<lparr>kk_key = re_key (st_relationship (tm_next_state m)), kk_requests = st_requests (tm_next_state m),
      kk_payments = tm_next_payments m, kk_history = tm_next_history m\<rparr>"

lemma core_simps' [simp]:
  "kk_key (snapshot_core s) = re_key (st_relationship (sn_state s))"
  "kk_requests (snapshot_core s) = st_requests (sn_state s)"
  "kk_payments (snapshot_core s) = sn_payments s" "kk_history (snapshot_core s) = sn_history s"
  "kk_key (manifest_core m) = re_key (st_relationship (tm_next_state m))"
  "kk_requests (manifest_core m) = st_requests (tm_next_state m)"
  "kk_payments (manifest_core m) = tm_next_payments m" "kk_history (manifest_core m) = tm_next_history m"
  by (simp_all add: snapshot_core_def manifest_core_def)

definition nonzero_postings :: "ledger_batch \<Rightarrow> ledger_batch" where
  "nonzero_postings batch = filter (\<lambda>t. tr_amount t \<noteq> 0) batch"

lemma fold_batch_transfer:
  "fold (\<lambda>t. batch_transfer (tr_from t) (tr_to t) (tr_amount t)) ts batch = batch @ nonzero_postings ts"
  by (induction ts arbitrary: batch) (auto simp: nonzero_postings_def batch_transfer_def)

lemma nonzero_net_flow [simp]: "net_flow a (nonzero_postings ts) = net_flow a ts"
  by (induction ts) (simp_all add: nonzero_postings_def)

lemma nonzero_balanced: "is_balanced ts \<Longrightarrow> is_balanced (nonzero_postings ts)"
  by (auto simp: is_balanced_def nonzero_postings_def list_all_iff)

lemma nonzero_covered: "covered f ts \<Longrightarrow> covered f (nonzero_postings ts)"
proof (induction ts arbitrary: f)
  case (Cons t ts)
  have "(\<lambda>a. f a + net_flow a [t]) = f" if "tr_amount t = 0"
    using that by (simp add: fun_eq_iff)
  then show ?case using Cons by (auto simp: nonzero_postings_def)
qed (simp add: nonzero_postings_def)

text \<open>A plan is one step of the core, and its batch is the postings of that step.\<close>

definition plans :: "crypto \<Rightarrow> settlement_snapshot \<Rightarrow> transition_context \<Rightarrow> transition_manifest \<Rightarrow> bool" where
  "plans c s cx m \<longleftrightarrow>
     (\<exists>fx. kernel_move c (cx_now cx) (cx_journal_position cx) (snapshot_core s) fx (manifest_core m)
        \<and> tm_ledger_batch m = nonzero_postings (fe_postings fx) \<and> tm_forfeitures m = fe_forfeitures fx
        \<and> tm_forfeiture_holds m = fe_holds fx)
     \<and> re_key (st_relationship (tm_next_state m)) = re_key (st_relationship (sn_state s))
     \<and> re_history (st_relationship (tm_next_state m)) = re_history (st_relationship (sn_state s))
     \<and> (\<exists>v. view_apply (sn_ledger s) (tm_ledger_batch m) = Ok v)"

lemma builder_new_simps [simp]:
  "core (builder_new s cx) = snapshot_core s" "mb_now (builder_new s cx) = cx_now cx"
  "mb_event (builder_new s cx) = cx_journal_position cx" "mb_next (builder_new s cx) = sn_state s"
  "mb_batch (builder_new s cx) = []" "mb_payments (builder_new s cx) = sn_payments s"
  "mb_history (builder_new s cx) = sn_history s" "mb_lane (builder_new s cx) = sn_lane s"
  "mb_lane_revocation (builder_new s cx) = None" "mb_messages (builder_new s cx) = sn_messages s"
  "mb_mailbox (builder_new s cx) = []" "mb_effects (builder_new s cx) = []" "mb_terms (builder_new s cx) = None"
  by (simp_all add: builder_new_def core_def snapshot_core_def)

lemma finish_plans:
  assumes "advances c (builder_new s cx) b" and "builder_finish s b = Ok m"
  shows "plans c s cx m"
proof -
  have m: "manifest_core m = core b" "tm_ledger_batch m = mb_batch b" "tm_forfeitures m = mb_forfeitures b"
    "tm_forfeiture_holds m = mb_holds b" "tm_next_state m = mb_next b"
    "\<exists>v. view_apply (sn_ledger s) (mb_batch b) = Ok v"
    using assms(2) by (auto simp: builder_finish_def manifest_core_def core_def)
  obtain fx where "kernel_move c (cx_now cx) (cx_journal_position cx) (snapshot_core s) fx (core b)"
    "booked (builder_new s cx) fx b" and k: "same_context (builder_new s cx) b"
    using assms(1) by (auto simp: advances_def)
  then have "kernel_move c (cx_now cx) (cx_journal_position cx) (snapshot_core s) fx (manifest_core m)
      \<and> tm_ledger_batch m = nonzero_postings (fe_postings fx) \<and> tm_forfeitures m = fe_forfeitures fx
      \<and> tm_forfeiture_holds m = fe_holds fx"
    by (simp add: m booked_def builder_new_def fold_batch_transfer)
  then show ?thesis using m(2,5,6) k by (auto simp: plans_def same_context_def)
qed

lemma valid_keyed: "state_validate (sn_state s) = Ok () \<Longrightarrow> keyed (builder_new s cx)"
  by (auto simp: keyed_def find_request_def state_validate_iff owned_by_def)

lemma validate_snapshot_Ok:
  assumes "validate_snapshot s cx = Ok ()"
  shows "state_validate (sn_state s) = Ok ()" and "hi_reference (sn_history s) = re_history (st_relationship (sn_state s))"
    and "hi_recipient (sn_history s) = rk_recipient (re_key (st_relationship (sn_state s)))"
    and "bt_get (st_requests (sn_state s)) i = Some r \<Longrightarrow>
      \<exists>p. bt_get (sn_payments s) (rq_id r) = Some p \<and> op_id (rf_capture p) = rq_funding r"
    and "sn_lane s = Some lane \<Longrightarrow> gr_sender (ln_grant lane) = rk_sender (re_key (st_relationship (sn_state s)))
      \<and> gr_recipient (ln_grant lane) = rk_recipient (re_key (st_relationship (sn_state s)))"
    and "sn_complete s" and "policy_snapshot_validate (cx_policy cx) = Ok ()" and "cx_protocol_version cx = 2"
    and "cx_protocol_version cx = ps_protocol_version (cx_policy cx)"
    and "lv_unit (sn_ledger s) = ps_unit (cx_policy cx)"
proof -
  show "bt_get (st_requests (sn_state s)) i = Some r \<Longrightarrow>
      \<exists>p. bt_get (sn_payments s) (rq_id r) = Some p \<and> op_id (rf_capture p) = rq_funding r"
    using assms bt_values_iff [of r "st_requests (sn_state s)"]
    by (auto simp: validate_snapshot_def Let_def list_ex_iff split: option.splits)
qed (use assms in \<open>auto simp: validate_snapshot_def Let_def split: option.splits\<close>)

lemma kernel_plan_plans:
  assumes "kernel_plan c s (input, cx) = Ok (Some m)"
  shows "plans c s cx m"
proof (cases input)
  case (SignedCommand command)
  then obtain b where b: "validate_snapshot s cx = Ok ()"
    "apply_command c (builder_new s cx) cx (kc_actor command) (kc_key command) (kc_command command) = Ok b"
    "builder_finish s b = Ok m"
    using assms by (auto simp: kernel_plan_def transition_def)
  show ?thesis
    by (rule finish_plans [OF apply_command_advances [OF b(2)] b(3)])
       (simp_all add: valid_keyed validate_snapshot_Ok(1) [OF b(1)])
next
  case (IncomingNative incoming)
  then obtain r :: relationship_request and b where v: "validate_snapshot s cx = Ok ()"
    and b: "cancel_submission (builder_new s cx) (rq_id r) OrdinaryCancellation = Ok b"
    and m: "builder_finish s (emit b (RequestPreparationSuperseded (rq_id r) (reservation incoming))) = Ok m"
    using assms
    by (auto simp: kernel_plan_def receive_native_request_def Let_def split: option.splits if_splits)
  have "advances c (builder_new s cx) b"
    by (rule cancel_submission_advances [OF b]) (use valid_keyed [OF validate_snapshot_Ok(1) [OF v]] in \<open>simp add: keyed_def\<close>)
  then show ?thesis by (intro finish_plans [OF _ m]) simp
next
  case (LaneGranted lane)
  then obtain b1 b2 where v: "validate_snapshot s cx = Ok ()"
    and b1: "mark_relationship (builder_new s cx) (RelExpressLane lane) = Ok b1"
    and b2: "(case active_request (mb_next b1) of None \<Rightarrow> Ok b1
         | Some r \<Rightarrow> (case rq_lifecycle r of
                PreparingSubmission _ \<Rightarrow> cancel_submission b1 (rq_id r) OrdinaryCancellation
              | AwaitingRecipientDecision _ \<Rightarrow> settle_accepted b1 (rq_id r) (PermExpressLane lane)
              | _ \<Rightarrow> Ok b1)) = Ok b2"
    and m: "builder_finish s (emit b2 (RelationshipLaneGranted lane)) = Ok m"
    using assms by (auto simp: kernel_plan_def accept_express_lane_def)
  have q: "quiet_step (builder_new s cx) b1" using b1 by (rule mark_relationship_quiet)
  have k: "keyed b1" by (rule quiet_keyed [OF q valid_keyed [OF validate_snapshot_Ok(1) [OF v]]])
  have "advances c b1 b2"
    using b2 k quiet_advances [of b1 b1 c]
    by (auto simp: keyed_def split: option.splits request_lifecycle.splits
        intro: cancel_submission_advances settle_accepted_advances)
  then have "advances c (builder_new s cx) b2" by (rule advances_after_quiet [OF q])
  then show ?thesis by (intro finish_plans [OF _ m]) simp
qed

section \<open>The lifecycle of a request\<close>

inductive lifecycle_step :: "request_lifecycle \<Rightarrow> request_lifecycle \<Rightarrow> bool" where
  submitted: "lifecycle_step (PreparingSubmission p) (AwaitingRecipientDecision a)"
| withdrawn: "lifecycle_step (PreparingSubmission p) (LcCancelled p e)"
| accepted: "lifecycle_step (AwaitingRecipientDecision a) (LcAccepted m a e)"
| rejected: "lifecycle_step (AwaitingRecipientDecision a) (LcRejected a e)"
| expired: "lifecycle_step (AwaitingRecipientDecision a) (LcExpired a e)"

inductive_cases lifecycle_stepE: "lifecycle_step l l'"

definition stage :: "request_lifecycle \<Rightarrow> nat" where
  "stage l = (case l of PreparingSubmission _ \<Rightarrow> 0 | AwaitingRecipientDecision _ \<Rightarrow> 1 | LcCancelled _ _ \<Rightarrow> 1 | _ \<Rightarrow> 2)"

lemma lifecycle_step_stage: "lifecycle_step l l' \<Longrightarrow> stage l' = Suc (stage l)"
  by (erule lifecycle_stepE) (simp_all add: stage_def)

lemma terminal_stops: "lifecycle_step l l' \<Longrightarrow> \<not> is_terminal l"
  by (erule lifecycle_stepE) simp_all

lemma terminal_final: "lifecycle_step\<^sup>*\<^sup>* l l' \<Longrightarrow> is_terminal l \<Longrightarrow> l' = l"
  by (induction rule: converse_rtranclp_induct) (auto dest: terminal_stops)

lemma resolves_step: "resolves now ev settlement l l' \<Longrightarrow> lifecycle_step l l'"
  by (erule resolves.cases) (auto intro: lifecycle_step.intros)

lemma with_lifecycle_inject [simp]: "with_lifecycle r l = with_lifecycle r l' \<longleftrightarrow> l = l'"
  by (metis with_lifecycle_simps(1))

lemma move_requests:
  assumes "kernel_move c now ev k fx k'" and "bt_get (kk_requests k) i = Some r"
  shows "bt_get (kk_requests k') i = Some r
     \<or> (\<exists>l'. bt_get (kk_requests k') i = Some (with_lifecycle r l') \<and> lifecycle_step (rq_lifecycle r) l'
          \<and> version_checked_next (rq_version r) \<noteq> None)"
  using assms
  by cases (auto simp: fresh_request_def intro: lifecycle_step.intros resolves_step)

lemma move_new_requests:
  assumes "kernel_move c now ev k fx k'" and "bt_get (kk_requests k) i = None"
    and "bt_get (kk_requests k') i = Some r"
  shows "i = rq_id r \<and> fresh_request k r now ev"
  using assms by cases (auto split: if_splits)

definition evolves :: "relationship_request \<Rightarrow> relationship_request \<Rightarrow> bool" where
  "evolves r r' \<longleftrightarrow>
     lifecycle_step\<^sup>*\<^sup>* (rq_lifecycle r) (rq_lifecycle r')
     \<and> r' = r\<lparr>rq_lifecycle := rq_lifecycle r', rq_version := rq_version r'\<rparr>
     \<and> unat (rq_version r') + stage (rq_lifecycle r) = unat (rq_version r) + stage (rq_lifecycle r')"

lemma evolves_refl [simp]: "evolves r r"
  by (simp add: evolves_def)

lemma evolves_with_lifecycle:
  assumes "evolves r r'" and "lifecycle_step (rq_lifecycle r') l" and "version_checked_next (rq_version r') \<noteq> None"
  shows "evolves r (with_lifecycle r' l)"
proof -
  have r': "r' = r\<lparr>rq_lifecycle := rq_lifecycle r', rq_version := rq_version r'\<rparr>"
    and steps: "lifecycle_step\<^sup>*\<^sup>* (rq_lifecycle r) (rq_lifecycle r')"
    and n: "unat (rq_version r') + stage (rq_lifecycle r) = unat (rq_version r) + stage (rq_lifecycle r')"
    using assms(1) by (simp_all add: evolves_def)
  have "with_lifecycle r' l = r\<lparr>rq_lifecycle := l, rq_version := rq_version r' + 1\<rparr>"
    by (subst r') (simp add: with_lifecycle_def)
  moreover have "unat (rq_version r' + 1) = Suc (unat (rq_version r'))"
    using assms(3) by (auto simp: version_checked_next_def checked_add_def unat_next split: if_splits)
  ultimately show ?thesis
    using steps n assms(2) lifecycle_step_stage [OF assms(2)] by (auto simp: evolves_def)
qed

lemma kernel_step_Ok:
  assumes "kernel_step c s (input, cx) = Ok (s', plan)"
  obtains (idle) "plan = None" "s' = s"
  | (commits) m fx v where "plan = Some m" "kernel_plan c s (input, cx) = Ok (Some m)" "s' = snapshot_next s m v"
      "view_apply (sn_ledger s) (tm_ledger_batch m) = Ok v"
      "kernel_move c (cx_now cx) (cx_journal_position cx) (snapshot_core s) fx (snapshot_core s')"
      "tm_ledger_batch m = nonzero_postings (fe_postings fx)"
      "re_key (st_relationship (sn_state s')) = re_key (st_relationship (sn_state s))"
proof (cases "kernel_plan c s (input, cx)")
  case (Ok p)
  show thesis
  proof (cases p)
    case None
    with Ok assms idle show thesis by (simp add: kernel_step_def)
  next
    case (Some m)
    then obtain v where v: "view_apply (sn_ledger s) (tm_ledger_batch m) = Ok v" "s' = snapshot_next s m v" "plan = Some m"
      using assms Ok by (auto simp: kernel_step_def)
    have core: "snapshot_core s' = manifest_core m"
      by (simp add: v(2) snapshot_next_def snapshot_core_def manifest_core_def)
    have p: "plans c s cx m" using Ok Some by (simp add: kernel_plan_plans)
    then obtain fx where "kernel_move c (cx_now cx) (cx_journal_position cx) (snapshot_core s) fx (snapshot_core s')"
      "tm_ledger_batch m = nonzero_postings (fe_postings fx)"
      unfolding plans_def core by blast
    moreover have "re_key (st_relationship (sn_state s')) = re_key (st_relationship (sn_state s))"
      using p by (simp add: plans_def v(2) snapshot_next_def)
    ultimately show thesis using commits [OF v(3) _ v(2,1)] Ok Some by blast
  qed
qed (use assms in \<open>simp_all add: kernel_step_def\<close>)

definition request_in :: "settlement_snapshot \<Rightarrow> request_id \<Rightarrow> relationship_request option" where
  "request_in s i = bt_get (st_requests (sn_state s)) i"

interpretation kernel_request: invariant_machine "kernel_step c"
    "\<lambda>s. \<exists>r'. request_in s i = Some r' \<and> evolves r r'"
proof unfold_locales
  fix s x s' plan
  assume e: "\<exists>r'. request_in s i = Some r' \<and> evolves r r'" and st: "kernel_step c s x = Ok (s', plan)"
  obtain input cx where x: "x = (input, cx)" by (cases x)
  from st show "\<exists>r'. request_in s' i = Some r' \<and> evolves r r'" unfolding x
  proof (cases rule: kernel_step_Ok)
    case (commits m fx v)
    obtain r' where r': "bt_get (kk_requests (snapshot_core s)) i = Some r'" "evolves r r'"
      using e by (auto simp: request_in_def)
    show ?thesis
      using move_requests [OF commits(5) r'(1)] r'(2) evolves_with_lifecycle by (auto simp: request_in_def)
  qed (use e in auto)
qed

text \<open>
  C2: A request's life is a path of its state machine.  In every run of the kernel (commands,
  incoming native requests and lane grants, accepted or refused) a request never disappears and
  keeps everything but its lifecycle and version; the lifecycle moves along the steps
  preparing, submitted or cancelled, and from submitted to accepted, rejected or expired with the
  submission facts retained; the version counts the steps taken; a resolved request never
  changes again.
\<close>

theorem request_lifecycle_path:
  assumes "run_machine (kernel_step c) s xs = (t, outs)" and "request_in s i = Some r"
  shows "\<exists>r'. request_in t i = Some r' \<and> evolves r r' \<and> (is_terminal (rq_lifecycle r) \<longrightarrow> r' = r)"
proof -
  have "\<exists>r'. request_in s i = Some r' \<and> evolves r r'" using assms(2) by simp
  then obtain r' where r': "request_in t i = Some r'" "evolves r r'"
    using kernel_request.run_inv [OF _ assms(1)] by blast
  have "r' = r" if "is_terminal (rq_lifecycle r)"
  proof -
    have l: "rq_lifecycle r' = rq_lifecycle r" using r'(2) that terminal_final by (auto simp: evolves_def)
    have "r' = r\<lparr>rq_lifecycle := rq_lifecycle r', rq_version := rq_version r'\<rparr>"
      and n: "unat (rq_version r') + stage (rq_lifecycle r) = unat (rq_version r) + stage (rq_lifecycle r')"
      using r'(2) by (simp_all add: evolves_def)
    moreover have "rq_version r' = rq_version r" using n by (simp add: l word_unat_eq_iff)
    ultimately show ?thesis by (simp only: l) simp
  qed
  then show ?thesis using r' by blast
qed

section \<open>Requests, money and the ledger\<close>

definition lc_settlement :: "request_lifecycle \<Rightarrow> request_settlement option" where
  "lc_settlement l =
     (case l of LcAccepted _ _ _ \<Rightarrow> Some SettledAccepted | LcRejected _ _ \<Rightarrow> Some SettledRejected
      | LcExpired _ _ \<Rightarrow> Some SettledExpired | LcCancelled _ _ \<Rightarrow> Some SettledCancelled | _ \<Rightarrow> None)"

text \<open>The financial record of a request says of it what its lifecycle says.\<close>

definition agrees :: "relationship_request \<Rightarrow> request_financials \<Rightarrow> bool" where
  "agrees r p \<longleftrightarrow>
     op_id (rf_capture p) = rq_funding r \<and> rf_settlement p = lc_settlement (rq_lifecycle r)
     \<and> (lc_submission (rq_lifecycle r) \<noteq> None \<longrightarrow> funding_finalized p)"

definition money_agrees :: "crypto \<Rightarrow> kernel_core \<Rightarrow> bool" where
  "money_agrees c k \<longleftrightarrow>
     (\<forall>i p. bt_get (kk_payments k) i = Some p \<longrightarrow> rf_inv c p)
     \<and> (\<forall>i r. bt_get (kk_requests k) i = Some r \<longrightarrow> (\<exists>p. bt_get (kk_payments k) i = Some p \<and> agrees r p))"

lemma resolves_settlement:
  "resolves now ev settlement l l' \<Longrightarrow> lc_settlement l = None \<and> lc_settlement l' = Some settlement
     \<and> lc_submission l' = lc_submission l"
  by (erule resolves.cases) (simp_all add: lc_settlement_def lc_submission_def)

lemma record_payment_settlement:
  assumes "rf_record_payment c p receipt = Ok (p', fx)" and "rf_inv c p"
  shows "rf_capture p' = rf_capture p" and "funding_finalized p \<Longrightarrow> funding_finalized p'"
    and "fe_capture_voided fx \<Longrightarrow> \<not> funding_finalized p \<and> rf_settlement p' = Some SettledCancelled"
    and "\<not> fe_capture_voided fx \<Longrightarrow> rf_settlement p' = rf_settlement p"
    and "rf_settlement p = Some x \<Longrightarrow> rf_settlement p' = Some x"
proof -
  have sh: "rf_shape p" using assms(2) by (simp add: rf_inv_def)
  show "rf_capture p' = rf_capture p" "funding_finalized p \<Longrightarrow> funding_finalized p'"
    "rf_settlement p = Some x \<Longrightarrow> rf_settlement p' = Some x"
    using assms(1) rf_reconcile_frame [OF _ sh]
    by (cases rule: rf_record_payment_cases; auto)+
  have "(fe_capture_voided fx \<longrightarrow> \<not> funding_finalized p \<and> rf_settlement p' = Some SettledCancelled)
     \<and> (\<not> fe_capture_voided fx \<longrightarrow> rf_settlement p' = rf_settlement p)"
    using assms(1)
  proof (cases rule: rf_record_payment_cases)
    case (recorded operation nxt)
    from recorded(4) sh show ?thesis
      unfolding recorded(5)
      by (cases rule: rf_reconcile_cases) (simp_all add: funded_now_def Let_def)
  qed simp
  then show "fe_capture_voided fx \<Longrightarrow> \<not> funding_finalized p \<and> rf_settlement p' = Some SettledCancelled"
    "\<not> fe_capture_voided fx \<Longrightarrow> rf_settlement p' = rf_settlement p" by auto
qed

lemma money_agrees_update:
  assumes "money_agrees c k" and "rf_inv c p'"
    and "\<And>r. bt_get (kk_requests k) i = Some r \<Longrightarrow> agrees r p'"
  shows "money_agrees c (k\<lparr>kk_payments := bt_insert i p' (kk_payments k)\<rparr>)"
  using assms by (auto simp: money_agrees_def)

lemma money_agrees_update2:
  assumes "money_agrees c k" and "rf_inv c p'" and "agrees r' p'"
  shows "money_agrees c (k\<lparr>kk_requests := bt_insert i r' (kk_requests k), kk_payments := bt_insert i p' (kk_payments k), kk_history := h\<rparr>)"
  using assms by (auto simp: money_agrees_def)

lemma move_money_agrees:
  assumes "kernel_move c now ev k fx k'" and "money_agrees c k"
  shows "money_agrees c k'"
  using assms(1)
proof cases
  case quiet
  then show ?thesis using assms(2) by simp
next
  case (create r capture contract p)
  have "agrees r p"
    using create(3) rf_new_Ok [OF create(4)] create(5)
    by (auto simp: agrees_def fresh_request_def is_preparing_iff lc_settlement_def lc_submission_def)
  then show ?thesis
    unfolding create(2) by (intro money_agrees_update2 [OF assms(2) rf_new_inv [OF create(4)]])
next
  case (submit i r preparation p h deadline)
  have "agrees r p" using assms(2) submit(3,7) by (force simp: money_agrees_def)
  then have a: "agrees (with_lifecycle r (AwaitingRecipientDecision \<lparr>su_at = now, su_decision_deadline = deadline\<rparr>)) p"
    using submit(4,8) by (simp add: agrees_def lc_settlement_def)
  have "rf_inv c p" using assms(2) submit(7) by (simp add: money_agrees_def)
  from money_agrees_update2 [OF assms(2) this a, where i = i and h = h] show ?thesis
    by (simp add: submit(2) bt_insert_same [OF submit(7)])
next
  case (settle i r p settlement l' p' h)
  have inv: "rf_inv c p" and ag: "agrees r p" using assms(2) settle(2,3) by (force simp: money_agrees_def)+
  note f = rf_settle_frame [OF settle(6)]
  have sh: "rf_shape p" using inv by (simp add: rf_inv_def)
  have "agrees (with_lifecycle r l') p'"
    using ag f(1,5,6) [OF sh] resolves_settlement [OF settle(4)] by (simp add: agrees_def)
  then show ?thesis
    unfolding settle(1) by (intro money_agrees_update2 [OF assms(2) rf_settle_inv [OF settle(6) inv]])
next
  case (void i r p preparation receipt p')
  have inv: "rf_inv c p" and ag: "agrees r p" using assms(2) void(2,3) by (force simp: money_agrees_def)+
  have "agrees (with_lifecycle r (LcCancelled preparation ev)) p'"
    using ag record_payment_settlement(1,3) [OF void(6) inv] void(7)
    by (simp add: agrees_def lc_settlement_def lc_submission_def)
  then show ?thesis
    unfolding void(1) by (intro money_agrees_update2 [OF assms(2) rf_record_payment_inv [OF void(6) inv]])
next
  case (pay i p receipt p')
  have inv: "rf_inv c p" using assms(2) pay(2) by (simp add: money_agrees_def)
  note f = record_payment_settlement [OF pay(3) inv]
  show ?thesis unfolding pay(1)
  proof (rule money_agrees_update [OF assms(2) rf_record_payment_inv [OF pay(3) inv]])
    fix r assume r: "bt_get (kk_requests k) i = Some r"
    then have ag: "agrees r p" using assms(2) pay(2) by (force simp: money_agrees_def)
    show "agrees r p'"
    proof (cases "fe_capture_voided fx")
      case False
      then show ?thesis using ag f(1,2,4) by (auto simp: agrees_def)
    next
      case True
      then have "lc_submission (rq_lifecycle r) = None" "\<not> is_preparing_submission (rq_lifecycle r)"
        using ag f(3) pay(4) r by (auto simp: agrees_def)
      then have "lc_settlement (rq_lifecycle r) = Some SettledCancelled"
        by (auto simp: lc_submission_def lc_settlement_def is_preparing_submission_def split: request_lifecycle.splits)
      then show ?thesis using ag f(1) f(3) [OF True] \<open>lc_submission (rq_lifecycle r) = None\<close> by (simp add: agrees_def)
    qed
  qed
qed

definition funds :: "kernel_core \<Rightarrow> account \<Rightarrow> int" where
  "funds k a = sum_list (map (\<lambda>p. rf_level p a) (bt_values (kk_payments k)))"

lemma rf_level_nonneg: "\<not> permits_negative a \<Longrightarrow> 0 \<le> rf_level p a"
  by (cases a) (simp_all add: rf_level_def split: refund_status.split)

lemma rf_level_le_funds:
  assumes "bt_get (kk_payments k) i = Some p" and "\<not> permits_negative a"
  shows "rf_level p a \<le> funds k a"
proof -
  obtain xs ys where "bt_values (kk_payments k) = xs @ p # ys"
    using assms(1) by (metis bt_values_iff split_list)
  moreover have "0 \<le> sum_list (map (\<lambda>p. rf_level p a) zs)" for zs
    by (rule sum_list_nonneg) (auto simp: rf_level_nonneg [OF assms(2)])
  ultimately show ?thesis by (simp add: funds_def add_nonneg_nonneg)
qed

lemma funds_insert:
  "funds (k\<lparr>kk_requests := rs, kk_payments := bt_insert i p' (kk_payments k), kk_history := h\<rparr>) a =
     funds k a - (case bt_get (kk_payments k) i of Some p \<Rightarrow> rf_level p a | None \<Rightarrow> 0) + rf_level p' a"
  "funds (k\<lparr>kk_payments := bt_insert i p' (kk_payments k)\<rparr>) a =
     funds k a - (case bt_get (kk_payments k) i of Some p \<Rightarrow> rf_level p a | None \<Rightarrow> 0) + rf_level p' a"
  by (simp_all add: funds_def bt_sum_map_insert)

lemma move_funds:
  assumes "kernel_move c now ev k fx k'" and "money_agrees c k"
  shows "funds k' a = funds k a + net_flow a (fe_postings fx)"
    and "is_balanced (fe_postings fx)" and "covered (funds k) (fe_postings fx)"
proof -
  have step: "rf_level p' a = rf_level p a + net_flow a (fe_postings fx)
      \<and> is_balanced (fe_postings fx) \<and> covered (funds k) (fe_postings fx)"
    if "bt_get (kk_payments k) i = Some p" "rf_step c p cmd = Ok (p', fx)" for i p p' cmd fx a
  proof -
    have "rf_inv c p" using assms(2) that(1) by (simp add: money_agrees_def)
    from rf_step_level [OF this that(2)] covered_mono rf_level_le_funds [OF that(1)]
    show ?thesis unfolding postings_ok_def by blast
  qed
  have "funds k' a = funds k a + net_flow a (fe_postings fx)
      \<and> is_balanced (fe_postings fx) \<and> covered (funds k) (fe_postings fx)"
    using assms(1)
  proof cases
    case (create r capture contract p)
    then show ?thesis by (simp add: funds_insert fresh_request_def rf_new_level [OF create(4)])
  next
    case (settle i r p settlement l' p' h)
    with step [of i p "SettleRequest settlement now" p' fx] show ?thesis
      by (simp add: rf_step_def funds_insert)
  next
    case (void i r p preparation receipt p')
    with step [of i p "RecordEvidence receipt" p' fx] show ?thesis
      by (simp add: rf_step_def funds_insert)
  next
    case (pay i p receipt p')
    with step [of i p "RecordEvidence receipt" p' fx] show ?thesis
      by (simp add: rf_step_def funds_insert)
  qed (simp_all add: funds_def)
  then show "funds k' a = funds k a + net_flow a (fe_postings fx)" "is_balanced (fe_postings fx)"
    "covered (funds k) (fe_postings fx)" by auto
qed

definition kernel_inv :: "crypto \<Rightarrow> settlement_snapshot \<Rightarrow> bool" where
  "kernel_inv c s \<longleftrightarrow>
     money_agrees c (snapshot_core s) \<and> view_ok (sn_ledger s)
     \<and> signed_balance (sn_ledger s) = funds (snapshot_core s)"

lemma kernel_step_inv:
  assumes "kernel_inv c s" and "kernel_step c s x = Ok (s', plan)"
  shows "kernel_inv c s'"
proof -
  obtain input cx where x: "x = (input, cx)" by (cases x)
  from assms(2) show ?thesis unfolding x
  proof (cases rule: kernel_step_Ok)
    case (commits m fx v)
    have ag: "money_agrees c (snapshot_core s)" using assms(1) by (simp add: kernel_inv_def)
    have "sn_ledger s' = v" by (simp add: commits(3) snapshot_next_def)
    moreover have "signed_balance v a = funds (snapshot_core s') a" for a
      using assms(1) view_apply_Ok(6) [OF commits(4)] move_funds(1) [OF commits(5) ag]
      by (simp add: kernel_inv_def commits(6))
    ultimately show ?thesis
      using move_money_agrees [OF commits(5) ag] view_apply_Ok(2) [OF commits(4)] by (auto simp: kernel_inv_def)
  qed (use assms(1) in simp)
qed

interpretation kernel: invariant_machine "kernel_step c" "kernel_inv c"
  by unfold_locales (rule kernel_step_inv)

text \<open>The snapshot of a relationship that has just been registered, over an empty journal.\<close>

definition registered ::
  "scoped_ref \<Rightarrow> scoped_ref \<Rightarrow> protocol_identity \<Rightarrow> protocol_identity \<Rightarrow> canonical_time
     \<Rightarrow> settlement_unit \<Rightarrow> settlement_snapshot" where
  "registered relationship history sender recipient now unit =
     snapshot_complete 0 (initial_scoped relationship history sender recipient now)
       (history_new history recipient now) bt_empty bt_empty (ls_view (ledger_new unit))"

lemma registered_inv: "kernel_inv c (registered relationship history sender recipient now unit)"
  by (simp add: kernel_inv_def registered_def snapshot_complete_def initial_scoped_def snapshot_core_def
      money_agrees_def funds_def fun_eq_iff)

text \<open>
  C1: Money follows decisions.  From a registered relationship, after any run of commands,
  provider events, native requests and lane grants, each request has a financial record that
  restores from storage, whose settlement is the one its lifecycle shows (none while it is
  unresolved) and whose charge is captured if it was ever submitted; and every balance of the
  ledger is the sum of what the financial records say the account holds.
\<close>

theorem money_follows_decisions:
  assumes "run_machine (kernel_step c) (registered relationship history sender recipient now unit) xs = (t, outs)"
  shows "(\<forall>i r. request_in t i = Some r \<longrightarrow>
        (\<exists>p. bt_get (sn_payments t) i = Some p \<and> rf_restore c p = Ok p
           \<and> op_id (rf_capture p) = rq_funding r
           \<and> rf_settlement p = lc_settlement (rq_lifecycle r)
           \<and> (lc_submission (rq_lifecycle r) \<noteq> None \<longrightarrow> funding_finalized p)))
     \<and> (\<forall>a. signed_balance (sn_ledger t) a = sum_list (map (\<lambda>p. rf_level p a) (bt_values (sn_payments t))))"
proof -
  have inv: "kernel_inv c t" by (rule kernel.run_inv [OF registered_inv assms])
  then have m: "money_agrees c (snapshot_core t)" by (simp add: kernel_inv_def)
  show ?thesis
  proof (intro conjI allI impI)
    fix i r assume "request_in t i = Some r"
    then obtain p where p: "bt_get (sn_payments t) i = Some p" "agrees r p"
      using m unfolding money_agrees_def request_in_def core_simps' by blast
    moreover from p have "rf_inv c p" using m by (auto simp: money_agrees_def)
    then have "rf_restore c p = Ok p" by (rule rf_restore_inv)
    ultimately show "\<exists>p. bt_get (sn_payments t) i = Some p \<and> rf_restore c p = Ok p
           \<and> op_id (rf_capture p) = rq_funding r \<and> rf_settlement p = lc_settlement (rq_lifecycle r)
           \<and> (lc_submission (rq_lifecycle r) \<noteq> None \<longrightarrow> funding_finalized p)"
      by (auto simp: agrees_def)
  next
    fix a show "signed_balance (sn_ledger t) a = sum_list (map (\<lambda>p. rf_level p a) (bt_values (sn_payments t)))"
      using inv by (simp add: kernel_inv_def funds_def)
  qed
qed

section \<open>Waiting times\<close>

lemma settled_history_frame:
  assumes "settled_history settlement r now ev h h'"
  shows "hi_earliest h \<le> hi_earliest h'" and "hi_level h' = hi_level h"
    and "hi_reference h' = hi_reference h" and "hi_recipient h' = hi_recipient h"
  using assms by (cases settlement; auto simp: settled_history_def release_def dest: extend_cooldown_Ok)+

lemma move_history:
  assumes "kernel_move c now ev k fx k'"
  shows "hi_earliest (kk_history k) \<le> hi_earliest (kk_history k')"
    and "hi_reference (kk_history k') = hi_reference (kk_history k)"
    and "hi_recipient (kk_history k') = hi_recipient (kk_history k)"
    and "kk_key k' = kk_key k"
  using assms
  by (cases; auto simp: release_def dest: settled_history_frame record_submission_Ok)+

definition submitted_between :: "settlement_snapshot \<Rightarrow> settlement_snapshot \<Rightarrow> request_id \<Rightarrow> relationship_request \<Rightarrow> bool" where
  "submitted_between s s' i r \<longleftrightarrow>
     request_in s i = Some r \<and> is_preparing_submission (rq_lifecycle r)
     \<and> (\<exists>r'. request_in s' i = Some r' \<and> is_awaiting_recipient_decision (rq_lifecycle r'))"

lemma move_submits:
  assumes "kernel_move c now ev k fx k'" and "bt_get (kk_requests k) i = Some r"
    and "is_preparing_submission (rq_lifecycle r)" and "bt_get (kk_requests k') i = Some r'"
    and "is_awaiting_recipient_decision (rq_lifecycle r')"
  shows "hi_earliest (kk_history k) \<le> now"
    and "unat now + unat (qt_next_request_backoff (rq_terms r)) \<le> unat (hi_earliest (kk_history k'))"
    and "unat (hi_level (kk_history k')) = Suc (unat (hi_level (kk_history k)))"
proof -
  have "hi_earliest (kk_history k) \<le> now
      \<and> unat now + unat (qt_next_request_backoff (rq_terms r)) \<le> unat (hi_earliest (kk_history k'))
      \<and> unat (hi_level (kk_history k')) = Suc (unat (hi_level (kk_history k)))"
    using assms(1)
  proof cases
    case (create r0 capture contract p)
    then show ?thesis using assms by (auto simp: fresh_request_def is_preparing_iff is_awaiting_iff split: if_splits)
  next
    case (submit j r0 preparation p h deadline)
    have "j = i" using submit(2) assms(2-5) by (auto simp: is_preparing_iff is_awaiting_iff split: if_splits)
    then show ?thesis using submit assms(2) record_submission_Ok [OF submit(10)] by simp
  next
    case (settle j r0 p settlement l' p' h)
    then show ?thesis using assms(2-5)
      by (auto simp: is_preparing_iff is_awaiting_iff elim: resolves.cases split: if_splits)
  qed (use assms(2-5) in \<open>auto simp: is_preparing_iff is_awaiting_iff split: if_splits\<close>)
  then show "hi_earliest (kk_history k) \<le> now"
    "unat now + unat (qt_next_request_backoff (rq_terms r)) \<le> unat (hi_earliest (kk_history k'))"
    "unat (hi_level (kk_history k')) = Suc (unat (hi_level (kk_history k)))" by auto
qed

lemma step_submits:
  assumes "kernel_step c s (input, cx) = Ok (s', plan)" and "submitted_between s s' i r"
  shows "hi_earliest (sn_history s) \<le> cx_now cx"
    and "unat (cx_now cx) + unat (qt_next_request_backoff (rq_terms r)) \<le> unat (hi_earliest (sn_history s'))"
proof -
  obtain r' where r': "request_in s' i = Some r'" "is_awaiting_recipient_decision (rq_lifecycle r')"
    and r: "request_in s i = Some r" "is_preparing_submission (rq_lifecycle r)"
    using assms(2) by (auto simp: submitted_between_def)
  have ne: "s' \<noteq> s" using r r' by (auto simp: is_preparing_iff is_awaiting_iff)
  from assms(1) obtain fx
    where "kernel_move c (cx_now cx) (cx_journal_position cx) (snapshot_core s) fx (snapshot_core s')"
    by (rule kernel_step_Ok) (use ne in auto)
  from move_submits [OF this _ r(2) _ r'(2), of i] r(1) r'(1)
  show "hi_earliest (sn_history s) \<le> cx_now cx"
    "unat (cx_now cx) + unat (qt_next_request_backoff (rq_terms r)) \<le> unat (hi_earliest (sn_history s'))"
    by (simp_all add: request_in_def)
qed

interpretation kernel_waiting: invariant_machine "kernel_step c" "\<lambda>s. e \<le> hi_earliest (sn_history s)"
proof unfold_locales
  fix s x s' plan assume e: "e \<le> hi_earliest (sn_history s)" and st: "kernel_step c s x = Ok (s', plan)"
  obtain input cx where x: "x = (input, cx)" by (cases x)
  from st show "e \<le> hi_earliest (sn_history s')" unfolding x
    by (cases rule: kernel_step_Ok) (use e move_history(1) in \<open>fastforce intro: order_trans\<close>)+
qed

text \<open>
  Backoff is respected within one relationship.  Between two submissions the waiting time quoted
  with the first one has passed, whatever happens to the relationship in between (decisions,
  cooldowns, cancellations, provider events).
\<close>

theorem backoff_respected:
  assumes "kernel_step c s (x, cx) = Ok (s1, plan1)" and "submitted_between s s1 i r"
    and "run_machine (kernel_step c) s1 xs = (s2, outs)"
    and "kernel_step c s2 (y, cy) = Ok (s3, plan2)" and "submitted_between s2 s3 j q"
  shows "unat (cx_now cx) + unat (qt_next_request_backoff (rq_terms r)) \<le> unat (cx_now cy)"
proof -
  have "unat (cx_now cx) + unat (qt_next_request_backoff (rq_terms r)) \<le> unat (hi_earliest (sn_history s1))"
    by (rule step_submits(2) [OF assms(1,2)])
  also have "\<dots> \<le> unat (hi_earliest (sn_history s2))"
    using kernel_waiting.run_inv [OF order_refl assms(3)] by (simp add: word_le_nat_alt)
  also have "\<dots> \<le> unat (cx_now cy)"
    using step_submits(1) [OF assms(4,5)] by (simp add: word_le_nat_alt)
  finally show ?thesis .
qed

end
