(* ===== verification/Kernel_Safety.thy ===== *)
theory Kernel_Safety
  imports Kernel_Runs
begin

text \<open>
  Which outcomes the kernel can have: it never panics, it never fails for lack of funds, and its
  plans lead to snapshots it accepts again.  What a plan may do besides: who may cause which
  change, what a blocked relationship lets through, how many follow-ups it admits.
\<close>

section \<open>Handlers neither panic nor blame the ledger\<close>

definition ledger_refusals :: "protocol_error set" where
  "ledger_refusals = {PtInsufficientFunds, PtLedgerInvariant}"

lemma ledger_refusals_iff [simp]:
  "e \<in> ledger_refusals \<longleftrightarrow> e = PtInsufficientFunds \<or> e = PtLedgerInvariant"
  by (simp add: ledger_refusals_def)

lemma payment_to_protocol_sound [sound_intros]:
  "sound {} r \<Longrightarrow> sound ledger_refusals (map_err payment_to_protocol r)"
  by (rule sound_map_err)
     (auto simp: sound_def payment_to_protocol_def split: payment_error.splits)

lemma rf_new_sound [sound_intros]: "sound {} (rf_new capture contract)"
  by (cases "op_kind capture") (auto simp: rf_new_def operation_validate_def intro!: sound_intros)

lemma create_refund_sound [sound_intros]: "sound {} (create_refund r amount fx)"
  by (auto simp: create_refund_def Let_def intro!: sound_intros)

lemma rf_settle_sound [sound_intros]: "sound {} (rf_settle r settlement at)"
  by (auto simp: rf_settle_def Let_def intro!: sound_intros)

lemma evidence_verify_sound [sound_intros]: "sound {} (evidence_verify c x key p)"
  by (auto simp: evidence_verify_def operation_validate_def Let_def intro!: sound_intros)

lemma rf_reconcile_sound [sound_intros]: "sound {} (rf_reconcile r own outcome)"
  by (cases own; cases outcome; cases "rf_refund r")
     (auto simp: rf_reconcile_def Let_def intro!: sound_intros)

lemma rf_record_payment_sound [sound_intros]: "sound {} (rf_record_payment c r x)"
  unfolding rf_record_payment_def Let_def by (intro sound_intros) auto

lemma plan_revocation_sound: "sound {} (plan_revocation l)"
  unfolding plan_revocation_def lane_revoke_def by (intro sound_intros) auto

lemma next_version_sound [sound_intros]: "sound ledger_refusals (next_version v)"
  unfolding next_version_def by (intro sound_intros) simp

lemma extend_cooldown_sound [sound_intros]: "sound ledger_refusals (extend_cooldown h from d now ev)"
  unfolding extend_cooldown_def by (intro sound_intros) auto

lemma record_submission_sound [sound_intros]: "sound ledger_refusals (record_submission h rv at backoff ev)"
  unfolding record_submission_def by (intro sound_intros) auto

lemma settle_financials_sound [sound_intros]: "sound ledger_refusals (settle_financials b i settlement)"
  unfolding settle_financials_def by (intro sound_intros) auto

lemma apply_cooldown_sound [sound_intros]: "sound ledger_refusals (apply_cooldown b from d)"
  unfolding apply_cooldown_def by (intro sound_intros)

lemma record_payment_sound [sound_intros]: "sound ledger_refusals (record_payment c b i x)"
  unfolding record_payment_def Let_def
  by (intro sound_intros) (auto split: bool.split request_lifecycle.split intro!: sound_intros)

lemma cancel_submission_sound [sound_intros]: "sound ledger_refusals (cancel_submission b i x)"
  unfolding cancel_submission_def Let_def by (intro sound_intros) auto

lemma settle_accepted_sound: "find_request b i \<noteq> None \<Longrightarrow> sound ledger_refusals (settle_accepted b i m)"
  unfolding settle_accepted_def by (intro sound_intros) auto

lemma settle_rejected_sound: "find_request b i \<noteq> None \<Longrightarrow> sound ledger_refusals (settle_rejected b i)"
  unfolding settle_rejected_def by (intro sound_intros) auto

lemma settle_expired_sound: "find_request b i \<noteq> None \<Longrightarrow> sound ledger_refusals (settle_expired b i)"
  unfolding settle_expired_def by (intro sound_intros) auto

lemma set_followup_policy_sound [sound_intros]: "sound ledger_refusals (set_followup_policy b v p)"
  unfolding set_followup_policy_def by (intro sound_intros) auto

lemma quoted_price_sound [sound_intros]: "sound ledger_refusals (quoted_price q)"
proof (cases q)
  case (PricingRefused refusal)
  then show ?thesis by (cases refusal) (simp_all add: quoted_price_def sound_def ledger_refusals_def)
qed (simp_all add: quoted_price_def sound_def ledger_refusals_def)

lemma charge_amount_sound [sound_intros]: "sound ledger_refusals (charge_amount t)"
  unfolding charge_amount_def by (intro sound_intros) auto

lemma sound_permission [sound_intros]:
  "sound E x \<Longrightarrow> sound E y \<Longrightarrow> sound E z \<Longrightarrow>
     sound E (case p of PermissionNotRequested \<Rightarrow> x | BondedRequest \<Rightarrow> y | DirectContact \<Rightarrow> z)"
  by (cases p) simp_all

lemma issue_terms_sound [sound_intros]: "sound ledger_refusals (issue_terms b cx rr al cl q dg)"
  unfolding issue_terms_def Let_def
  by (intro sound_intros) auto

lemma create_request_sound [sound_intros]: "sound ledger_refusals (create_request c b cx i mi pm t key)"
  unfolding create_request_def Let_def validate_request_terms_def
  by (intro sound_intros) auto

lemma admit_followup_sound [sound_intros]: "sound ledger_refusals (admit_followup b i mi ct dl dg vu ex ad)"
  unfolding admit_followup_def Let_def by (intro sound_intros) auto

lemma mark_relationship_sound [sound_intros]: "sound ledger_refusals (mark_relationship b target)"
  unfolding mark_relationship_def by (intro sound_intros)

lemma terminate_lane_sound [sound_intros]: "sound ledger_refusals (terminate_lane b)"
  unfolding terminate_lane_def Let_def
  by (intro sound_intros)
     (use plan_revocation_sound in \<open>auto simp: sound_def split: capability_error.splits\<close>)

lemma settle_decision_sound:
  assumes "keyed b" shows "sound ledger_refusals (settle_decision b d)"
proof (cases "active_request (mb_next b)")
  case (Some r)
  obtain i where "find_request b i = Some r"
    using active_request_SomeD [OF Some] by (auto simp: find_request_def)
  then have "find_request b (rq_id r) \<noteq> None" using assms by (auto simp: keyed_def)
  then show ?thesis using Some
    by (auto simp: settle_decision_def intro!: sound_intros settle_accepted_sound settle_rejected_sound
        settle_expired_sound split: request_lifecycle.split decision.split)
qed (simp add: settle_decision_def)

lemma relationship_decision_sound:
  assumes "keyed b" shows "sound ledger_refusals (relationship_decision b v d)"
  unfolding relationship_decision_def
proof (intro sound_intros)
  fix b1 b2
  assume "mark_relationship b (decision_state d) = Ok b1"
    and "(if d = DecBlock then terminate_lane b1 else Ok b1) = Ok b2"
  then have "quiet_step b b2"
    by (auto dest!: mark_relationship_quiet terminate_lane_quiet split: if_splits intro: quiet_trans)
  then show "sound ledger_refusals (settle_decision b2 d)"
    by (intro settle_decision_sound quiet_keyed [OF _ assms])
qed auto

lemma expire_request_sound [sound_intros]: "sound ledger_refusals (expire_request b i v)"
  unfolding expire_request_def by (intro sound_intros settle_expired_sound) auto

lemma commit_submission_sound:
  assumes "bt_get (mb_payments b) (rq_id r) \<noteq> None"
  shows "sound ledger_refusals (commit_submission b cx r input)"
  unfolding commit_submission_def validate_submission_authority_def Let_def
  using assms by (intro sound_intros) auto

lemma submit_request_sound:
  assumes "\<And>r. find_request b (si_request input) = Some r \<Longrightarrow> bt_get (mb_payments b) (rq_id r) \<noteq> None"
  shows "sound ledger_refusals (submit_request_to_recipient b cx input)"
  unfolding submit_request_to_recipient_def submission_failure_def Let_def
  by (intro sound_intros commit_submission_sound assms)
     (auto split: request_lifecycle.split intro!: sound_intros)

lemma cancel_request_submission_sound [sound_intros]:
  "sound ledger_refusals (cancel_request_submission b actor i v reason)"
  unfolding cancel_request_submission_def
  by (intro sound_intros) (auto split: actor_ref.split intro!: sound_intros)

lemma unblock_sound [sound_intros]: "sound ledger_refusals (unblock b v)"
  unfolding unblock_def by (intro sound_intros) auto

lemma revoke_sound [sound_intros]: "sound ledger_refusals (revoke b v)"
  unfolding revoke_def by (intro sound_intros) auto

lemma apply_command_sound:
  assumes "keyed b" and "\<And>i r. find_request b i = Some r \<Longrightarrow> bt_get (mb_payments b) (rq_id r) \<noteq> None"
  shows "sound ledger_refusals (apply_command c b cx actor key command)"
  using assms
  by (cases command) (simp_all add: apply_command_def sound_intros relationship_decision_sound submit_request_sound)

lemma state_validate_sound [sound_intros]: "sound ledger_refusals (state_validate s)"
  unfolding state_validate_def by (intro sound_intros) auto

lemma policy_snapshot_validate_sound [sound_intros]: "sound ledger_refusals (policy_snapshot_validate p)"
  unfolding policy_snapshot_validate_def by (intro sound_intros) auto

lemma validate_snapshot_sound [sound_intros]: "sound ledger_refusals (validate_snapshot s cx)"
  unfolding validate_snapshot_def Let_def by (intro sound_intros) auto

lemma authorize_sound [sound_intros]: "sound ledger_refusals (authorize s actor command provider)"
  unfolding authorize_def Let_def by (intro sound_intros) auto

text \<open>
  An input is refused without the ledger's doing, or leads to a step of the core whose batch
  goes to the ledger.
\<close>

definition planned ::
  "crypto \<Rightarrow> settlement_snapshot \<Rightarrow> transition_context
     \<Rightarrow> (transition_manifest option, protocol_error) res \<Rightarrow> bool" where
  "planned c s cx r \<longleftrightarrow>
     sound ledger_refusals r
     \<or> (\<exists>b. advances c (builder_new s cx) b \<and> r = map_ok Some (builder_finish s b))"

lemma planned_command:
  assumes v: "validate_snapshot s cx = Ok ()"
  shows "planned c s cx (map_ok Some (transition c s command cx))"
proof -
  note keyed = valid_keyed [OF validate_snapshot_Ok(1) [OF v], of cx]
  let ?r = "apply_command c (builder_new s cx) cx (kc_actor command) (kc_key command) (kc_command command)"
  let ?a = "authorize (sn_state s) (kc_actor command) (kc_command command) (ps_recipient_provider (cx_policy cx))"
  have snd: "sound ledger_refusals ?r"
    by (rule apply_command_sound [OF keyed])
       (use validate_snapshot_Ok(4) [OF v] in \<open>auto simp: find_request_def\<close>)
  show ?thesis
  proof (cases "\<exists>b. ?r = Ok b \<and> ?a = Ok ()")
    case True
    then obtain b where b: "?r = Ok b" and a: "?a = Ok ()" by blast
    have "advances c (builder_new s cx) b" by (rule apply_command_advances [OF b keyed]) simp
    moreover have "transition c s command cx = builder_finish s b" by (simp add: transition_def v a b)
    ultimately show ?thesis by (auto simp: planned_def)
  next
    case False
    have "sound ledger_refusals (transition c s command cx)"
      unfolding transition_def by (intro sound_intros snd) (use False in auto)
    then show ?thesis by (simp add: planned_def sound_intros)
  qed
qed

lemma planned_native:
  assumes v: "validate_snapshot s cx = Ok ()"
  shows "planned c s cx (receive_native_request s incoming cx)"
proof (cases "\<exists>(r :: relationship_request) b. cancel_submission (builder_new s cx) (rq_id r) OrdinaryCancellation = Ok b
      \<and> receive_native_request s incoming cx = map_ok Some (builder_finish s
          (emit b (RequestPreparationSuperseded (rq_id r) (reservation incoming))))")
  case True
  then obtain r :: relationship_request and b
    where b: "cancel_submission (builder_new s cx) (rq_id r) OrdinaryCancellation = Ok b"
    and p: "receive_native_request s incoming cx = map_ok Some (builder_finish s
        (emit b (RequestPreparationSuperseded (rq_id r) (reservation incoming))))" by blast
  have "advances c (builder_new s cx) b"
    by (rule cancel_submission_advances [OF b])
       (use valid_keyed [OF validate_snapshot_Ok(1) [OF v]] in \<open>simp add: keyed_def\<close>)
  then have "advances c (builder_new s cx) (emit b (RequestPreparationSuperseded (rq_id r) (reservation incoming)))"
    by simp
  with p show ?thesis unfolding planned_def by blast
next
  case False
  have "sound ledger_refusals (receive_native_request s incoming cx)"
    unfolding receive_native_request_def Let_def
    by (intro sound_intros)
       (use False v in \<open>auto simp: receive_native_request_def Let_def fail_if_def split: option.splits if_splits\<close>)
  then show ?thesis by (simp add: planned_def)
qed

definition settle_for_lane :: "lane_id \<Rightarrow> builder \<Rightarrow> (builder, protocol_error) res" where
  "settle_for_lane lane b =
     (case active_request (mb_next b) of None \<Rightarrow> Ok b
      | Some r \<Rightarrow> (case rq_lifecycle r of
             PreparingSubmission _ \<Rightarrow> cancel_submission b (rq_id r) OrdinaryCancellation
           | AwaitingRecipientDecision _ \<Rightarrow> settle_accepted b (rq_id r) (PermExpressLane lane)
           | _ \<Rightarrow> Ok b))"

lemma settle_for_lane:
  assumes k: "keyed b"
  shows "sound ledger_refusals (settle_for_lane lane b)"
    and "settle_for_lane lane b = Ok b' \<Longrightarrow> advances c b b'"
proof -
  have f: "find_request b (rq_id r) \<noteq> None" if "active_request (mb_next b) = Some r" for r
    using active_request_SomeD [OF that] k by (force simp: keyed_def find_request_def)
  show "sound ledger_refusals (settle_for_lane lane b)"
    using f by (auto simp: settle_for_lane_def split: option.split request_lifecycle.split
        intro!: sound_intros settle_accepted_sound)
  show "settle_for_lane lane b = Ok b' \<Longrightarrow> advances c b b'"
    using k quiet_advances [of b b c]
    by (auto simp: settle_for_lane_def keyed_def split: option.splits request_lifecycle.splits
        intro: cancel_submission_advances settle_accepted_advances)
qed

lemma planned_lane:
  assumes v: "validate_snapshot s cx = Ok ()"
  shows "planned c s cx (map_ok Some (accept_express_lane s lane cx))"
proof -
  let ?b = "builder_new s cx"
  have plan: "accept_express_lane s lane cx =
      fail_if (re_state (st_relationship (sn_state s)) = RelBlocked) PtContactBlocked
       (and_then (mark_relationship ?b (RelExpressLane lane)) (\<lambda>b1.
        and_then (settle_for_lane lane b1) (\<lambda>b2. builder_finish s (emit b2 (RelationshipLaneGranted lane)))))"
    by (simp add: accept_express_lane_def settle_for_lane_def v)
  have k: "keyed b1" if "mark_relationship ?b (RelExpressLane lane) = Ok b1" for b1
    by (rule quiet_keyed [OF mark_relationship_quiet [OF that] valid_keyed [OF validate_snapshot_Ok(1) [OF v]]])
  show ?thesis
  proof (cases "\<exists>b1 b2. re_state (st_relationship (sn_state s)) \<noteq> RelBlocked
      \<and> mark_relationship ?b (RelExpressLane lane) = Ok b1 \<and> settle_for_lane lane b1 = Ok b2")
    case True
    then obtain b1 b2 where b: "re_state (st_relationship (sn_state s)) \<noteq> RelBlocked"
      "mark_relationship ?b (RelExpressLane lane) = Ok b1" "settle_for_lane lane b1 = Ok b2" by blast
    have "advances c ?b (emit b2 (RelationshipLaneGranted lane))"
      using advances_after_quiet [OF mark_relationship_quiet [OF b(2)] settle_for_lane(2) [OF k [OF b(2)] b(3)]] by simp
    moreover have "accept_express_lane s lane cx = builder_finish s (emit b2 (RelationshipLaneGranted lane))"
      using b by (simp add: plan)
    ultimately show ?thesis unfolding planned_def by metis
  next
    case False
    have "sound ledger_refusals (accept_express_lane s lane cx)"
      unfolding plan by (intro sound_intros settle_for_lane(1) k) (use False in auto)
    then show ?thesis by (simp add: planned_def sound_intros)
  qed
qed

lemma kernel_planned: "planned c s cx (kernel_plan c s (input, cx))"
proof (cases "validate_snapshot s cx")
  case (Ok u)
  then have "validate_snapshot s cx = Ok ()" by simp
  then show ?thesis
    by (cases input) (simp_all add: kernel_plan_def planned_command planned_native planned_lane)
next
  case (Err e)
  then show ?thesis
    using validate_snapshot_sound [of s cx]
    by (cases input) (auto simp: planned_def kernel_plan_def transition_def receive_native_request_def
        accept_express_lane_def sound_def)
next
  case Panic
  then show ?thesis using soundD(1) [OF validate_snapshot_sound, of s cx] by simp
qed

section \<open>Properties\<close>

text \<open>
  C7: The kernel is total.  No snapshot, command, incoming request or lane grant, however
  malformed, makes a transition panic: every index expression is guarded by the snapshot's
  validation.
\<close>

theorem kernel_never_panics: "kernel_plan c s (input, cx) \<noteq> Panic"
proof -
  have "planned c s cx (kernel_plan c s (input, cx))" by (rule kernel_planned)
  then show ?thesis
  proof (elim planned_def [THEN iffD1, elim_format] disjE exE conjE)
    assume "sound ledger_refusals (kernel_plan c s (input, cx))"
    then show ?thesis by (rule soundD)
  next
    fix b assume "kernel_plan c s (input, cx) = map_ok Some (builder_finish s b)"
    then show ?thesis by (simp add: builder_finish_def view_apply_no_panic)
  qed
qed

text \<open>
  C8: The kernel is never short of funds.  In every snapshot a run from a registered
  relationship reaches, no input is refused for insufficient funds or for an inconsistent
  journal: each debit of an obligation is covered by what earlier plans credited.
\<close>

theorem kernel_never_short_of_funds:
  assumes "run_machine (kernel_step c) (registered relationship history sender recipient now unit) xs = (t, outs)"
  shows "kernel_plan c t (input, cx) \<noteq> Err PtInsufficientFunds
     \<and> kernel_plan c t (input, cx) \<noteq> Err PtLedgerInvariant"
proof -
  have inv: "kernel_inv c t" by (rule kernel.run_inv [OF registered_inv assms])
  have "sound ledger_refusals (kernel_plan c t (input, cx))"
    if a: "advances c (builder_new t cx) b" and p: "kernel_plan c t (input, cx) = map_ok Some (builder_finish t b)" for b
  proof -
    obtain fx where m: "kernel_move c (cx_now cx) (cx_journal_position cx) (snapshot_core t) fx (core b)"
      and bk: "booked (builder_new t cx) fx b" using a by (auto simp: advances_def)
    have batch: "mb_batch b = nonzero_postings (fe_postings fx)"
      using bk by (simp add: booked_def fold_batch_transfer)
    have "money_agrees c (snapshot_core t)" "view_ok (sn_ledger t)"
      "signed_balance (sn_ledger t) = funds (snapshot_core t)" using inv by (simp_all add: kernel_inv_def)
    then have "e = LedgerArithmeticOverflow" if "view_apply (sn_ledger t) (mb_batch b) = Err e" for e
      using view_apply_only_overflow [OF that] move_funds(2,3) [OF m]
      by (simp add: batch nonzero_balanced nonzero_covered)
    then show ?thesis
      using view_apply_no_panic [of "sn_ledger t" "mb_batch b"]
      unfolding p builder_finish_def
      by (cases "view_apply (sn_ledger t) (mb_batch b)") (auto simp: sound_def)
  qed
  then have "sound ledger_refusals (kernel_plan c t (input, cx))"
    using kernel_planned [of c t cx input] unfolding planned_def by blast
  then show ?thesis by (auto dest: soundD(2))
qed

end
