(* ===== verification/Kernel_Authority.thy ===== *)
theory Kernel_Authority
  imports Kernel_Safety
begin

text \<open>
  What each actor may change and what a plan may deliver: the frames of the handlers (messages,
  deliveries, quotes, relationship state, lane) and the properties that rest on them.
\<close>

section \<open>Frames\<close>

text \<open>Nothing is delivered and no message is stored.\<close>

definition silent :: "builder \<Rightarrow> builder \<Rightarrow> bool" where
  "silent b b' \<longleftrightarrow>
     mb_messages b' = mb_messages b \<and> mb_mailbox b' = mb_mailbox b
     \<and> filter is_delivery (mb_effects b') = filter is_delivery (mb_effects b)"

text \<open>Neither quotes nor terms nor the follow-up policy change.\<close>

definition same_offers :: "builder \<Rightarrow> builder \<Rightarrow> bool" where
  "same_offers b b' \<longleftrightarrow>
     mb_terms b' = mb_terms b \<and> st_quotes (mb_next b') = st_quotes (mb_next b)
     \<and> st_used_quotes (mb_next b') = st_used_quotes (mb_next b)
     \<and> st_followup_policy (mb_next b') = st_followup_policy (mb_next b)"

definition same_lane :: "builder \<Rightarrow> builder \<Rightarrow> bool" where
  "same_lane b b' \<longleftrightarrow> mb_lane b' = mb_lane b \<and> mb_lane_revocation b' = mb_lane_revocation b"

definition still :: "builder \<Rightarrow> builder \<Rightarrow> bool" where
  "still b b' \<longleftrightarrow> silent b b' \<and> same_offers b b' \<and> same_lane b b' \<and> rel_state b' = rel_state b"

lemmas frame_defs = silent_def same_offers_def same_lane_def still_def rel_state_def

lemma still_refl [simp]: "still b b"
  by (simp add: frame_defs)

lemma still_trans: "still b b1 \<Longrightarrow> still b1 b2 \<Longrightarrow> still b b2"
  by (simp add: frame_defs)

lemma still_updates [simp]:
  "still b (emit b' kind) = still b b'" "still b (schedule x b') = still b b'"
  "still b (put_request i r b') = still b b'" "still b (release_reservation r b') = still b b'"
  by (simp_all add: frame_defs emit_def schedule_def put_request_def release_reservation_def)

lemma still_effects [simp]: "still b (apply_financial_effects b' i fx) = still b b'"
proof -
  have "filter is_delivery (map (ExecutePayment i) xs) = []" for xs
    by (induction xs) (simp_all add: is_delivery_def)
  then show ?thesis by (simp add: frame_defs apply_financial_effects_def)
qed

lemma settle_financials_still: "settle_financials b i settlement = Ok b' \<Longrightarrow> still b b'"
  by (auto simp: settle_financials_def) (simp add: frame_defs)

lemma apply_cooldown_still: "apply_cooldown b from d = Ok b' \<Longrightarrow> still b b'"
  by (auto simp: apply_cooldown_def frame_defs)

lemma still_release: "still (release_reservation r b) b' = still b b'"
  by (simp add: frame_defs release_reservation_def)

lemma cancel_submission_still: "cancel_submission b i x = Ok b' \<Longrightarrow> still b b'"
  by (auto simp: cancel_submission_def Let_def still_release dest: settle_financials_still)

lemma settle_accepted_still: "settle_accepted b i m = Ok b' \<Longrightarrow> still b b'"
  by (auto simp: settle_accepted_def dest: settle_financials_still)

lemma settle_rejected_still: "settle_rejected b i = Ok b' \<Longrightarrow> still b b'"
  by (auto simp: settle_rejected_def dest!: settle_financials_still apply_cooldown_still intro: still_trans)

lemma settle_expired_still: "settle_expired b i = Ok b' \<Longrightarrow> still b b'"
  by (auto simp: settle_expired_def dest!: settle_financials_still apply_cooldown_still intro: still_trans)

lemma record_payment_still:
  assumes "record_payment c b i receipt = Ok b'"
  shows "still b b'"
proof -
  obtain p p' fx where p: "bt_get (mb_payments b) i = Some p" "rf_record_payment c p receipt = Ok (p', fx)"
    using assms by (auto simp: record_payment_def)
  let ?b1 = "b\<lparr>mb_payments := bt_insert i p' (mb_payments b)\<rparr>"
  have "\<exists>b2. b' = emit (apply_financial_effects b2 i fx) (PaymentRecorded i) \<and> still ?b1 b2"
  proof (cases "find_request ?b1 i")
    case None
    then show ?thesis using assms p by (auto simp: record_payment_def Let_def)
  next
    case (Some r)
    then show ?thesis using assms p
      by (cases "fe_capture_voided fx"; cases "rq_lifecycle r") (auto simp: record_payment_def Let_def)
  qed
  moreover have "still b ?b1" by (simp add: frame_defs)
  ultimately show ?thesis by (auto intro: still_trans)
qed

lemma cancel_request_submission_still:
  assumes "cancel_request_submission b actor i v reason = Ok b'"
  shows "still b b'"
proof -
  have "b' = b \<or> cancel_submission b i OrdinaryCancellation = Ok b'"
    using assms by (auto simp: cancel_request_submission_def split: if_splits actor_ref.splits)
  then show ?thesis by (auto dest: cancel_submission_still)
qed

lemma expire_request_still: "expire_request b i v = Ok b' \<Longrightarrow> still b b'"
  by (auto simp: expire_request_def dest: settle_expired_still split: if_splits)

lemma settle_decision_still: "settle_decision b d = Ok b' \<Longrightarrow> still b b'"
  by (auto simp: settle_decision_def split: option.splits request_lifecycle.splits if_splits decision.splits
      dest: cancel_submission_still settle_accepted_still settle_rejected_still settle_expired_still)

text \<open>A change of the relationship: nothing is delivered and no offer changes.\<close>

definition relationship_only :: "builder \<Rightarrow> builder \<Rightarrow> bool" where
  "relationship_only b b' \<longleftrightarrow>
     silent b b' \<and> same_offers b b' \<and> mb_lane b' = mb_lane b
     \<and> (mb_lane_revocation b' = mb_lane_revocation b
        \<or> (\<exists>l e. mb_lane b = Some l \<and> plan_revocation l = Ok (Some e) \<and> mb_lane_revocation b' = Some e))"

lemma still_relationship: "still b b' \<Longrightarrow> relationship_only b b'"
  by (simp add: relationship_only_def frame_defs)

lemma relationship_trans_still: "relationship_only b b1 \<Longrightarrow> still b1 b2 \<Longrightarrow> relationship_only b b2"
  by (simp add: relationship_only_def frame_defs)

lemma relationship_trans_mark:
  "relationship_only b b1 \<Longrightarrow> silent b1 b2 \<Longrightarrow> same_offers b1 b2 \<Longrightarrow> same_lane b1 b2 \<Longrightarrow> relationship_only b b2"
  by (simp add: relationship_only_def frame_defs)

lemma relationship_emit [simp]: "relationship_only b (emit b' kind) = relationship_only b b'"
  by (simp add: relationship_only_def frame_defs emit_def)

lemma mark_relationship_frame:
  "mark_relationship b target = Ok b' \<Longrightarrow>
     silent b b' \<and> same_offers b b' \<and> same_lane b b' \<and> rel_state b' = target"
  by (auto simp: mark_relationship_def frame_defs upd_relationship_def)

lemma terminate_lane_frame:
  assumes "terminate_lane b = Ok b'"
  shows "relationship_only b b' \<and> rel_state b' = rel_state b"
proof -
  obtain epoch where epoch: "checked_add (re_reply_epoch (st_relationship (mb_next b))) 1 = Some epoch"
    using assms by (auto simp: terminate_lane_def)
  let ?b = "upd_relationship (\<lambda>x. x\<lparr>re_reply_epoch := epoch\<rparr>) b"
  have q: "still b ?b" by (simp add: frame_defs upd_relationship_def)
  show ?thesis
  proof (cases "mb_lane ?b")
    case None
    then show ?thesis using assms epoch q by (simp add: terminate_lane_def still_relationship) (simp add: still_def)
  next
    case (Some lane)
    then obtain effect where "plan_revocation lane = Ok effect"
      using assms epoch by (auto simp: terminate_lane_def Let_def)
    then show ?thesis
      using assms epoch Some q
      by (cases effect)
         (simp_all add: terminate_lane_def Let_def, auto simp: relationship_only_def frame_defs schedule_def upd_relationship_def)
  qed
qed

lemma relationship_decision_frame:
  assumes "relationship_decision b v d = Ok b'"
  shows "relationship_only b b'" and "rel_state b' = decision_state d"
    and "d = DecBlock \<or> rel_state b \<noteq> RelBlocked"
proof -
  obtain b1 b2 b3 where m: "mark_relationship b (decision_state d) = Ok b1"
    and t: "(if d = DecBlock then terminate_lane b1 else Ok b1) = Ok b2"
    and s: "settle_decision b2 d = Ok b3" and b': "b' = emit b3 (decision_event d)"
    using assms by (auto simp: relationship_decision_def)
  note f = mark_relationship_frame [OF m]
  have "relationship_only b b2 \<and> rel_state b2 = decision_state d"
    using t f terminate_lane_frame [of b1 b2]
    by (auto simp: relationship_only_def silent_def same_offers_def same_lane_def split: if_splits)
  then show "relationship_only b b'" "rel_state b' = decision_state d"
    using relationship_trans_still [OF _ settle_decision_still [OF s]] settle_decision_still [OF s]
    by (simp_all add: b') (simp add: still_def rel_state_def emit_def)
  show "d = DecBlock \<or> rel_state b \<noteq> RelBlocked"
    using assms by (auto simp: relationship_decision_def)
qed

lemma unblock_frame: "unblock b v = Ok b' \<Longrightarrow> relationship_only b b' \<and> rel_state b' = RelRejected"
  by (auto simp: unblock_def relationship_only_def same_lane_def rel_state_def emit_def silent_def same_offers_def
      dest!: mark_relationship_frame)

lemma revoke_frame:
  assumes "revoke b v = Ok b'"
  shows "relationship_only b b'" and "rel_state b' = RelRevoked"
proof -
  obtain b1 b2 where t: "terminate_lane b = Ok b1" and m: "mark_relationship b1 RelRevoked = Ok b2"
    and b': "b' = emit b2 RelationshipRevokedEvent" using assms by (auto simp: revoke_def)
  have "relationship_only b b2"
    using terminate_lane_frame [OF t] mark_relationship_frame [OF m] by (blast intro: relationship_trans_mark)
  then show "relationship_only b b'" by (simp add: b')
  show "rel_state b' = RelRevoked" using mark_relationship_frame [OF m] by (simp add: b' rel_state_def emit_def)
qed

lemma set_followup_policy_frame:
  "set_followup_policy b v p = Ok b' \<Longrightarrow> silent b b' \<and> same_lane b b' \<and> rel_state b' = rel_state b
     \<and> mb_terms b' = mb_terms b \<and> st_quotes (mb_next b') = st_quotes (mb_next b)"
  by (auto simp: set_followup_policy_def frame_defs emit_def)

lemma issue_terms_frame:
  assumes "issue_terms b cx rr al cl q dg = Ok b'"
  shows "silent b b' \<and> same_lane b b' \<and> rel_state b' = rel_state b \<and> rel_state b \<noteq> RelBlocked
     \<and> st_followup_policy (mb_next b') = st_followup_policy (mb_next b)"
  using assms
  by (cases "active_request (mb_next b)"; cases "cx_permission cx")
     (auto simp: issue_terms_def Let_def frame_defs emit_def)

lemma create_request_frame:
  assumes "create_request c b cx i mi pm t key = Ok b'"
  shows "silent b b' \<and> same_lane b b' \<and> rel_state b' = rel_state b \<and> rel_state b \<noteq> RelBlocked
     \<and> st_followup_policy (mb_next b') = st_followup_policy (mb_next b)"
  using assms
  by (rule create_request_Ok)
     (auto simp: frame_defs emit_def schedule_def put_request_def upd_relationship_def is_delivery_def)

lemma admit_followup_frame:
  assumes "admit_followup b i mi ct dl dg vu ex ad = Ok b'"
  shows "same_offers b b' \<and> same_lane b b' \<and> rel_state b' = rel_state b \<and> rel_state b \<noteq> RelBlocked"
proof -
  obtain m where "b' = emit (mb_deliver (b\<lparr>mb_messages := m\<rparr>) mi ct dl) (FollowupAdmitted i mi)" "rel_state b \<noteq> RelBlocked"
    using assms by (cases ad) (auto simp: admit_followup_def Let_def)
  then show ?thesis by (simp add: frame_defs emit_def mb_deliver_def split: delivery_route.split)
qed

lemma commit_submission_frame:
  assumes "commit_submission b cx r input = Ok b'"
  shows "same_offers b b' \<and> same_lane b b' \<and> rel_state b' = rel_state b"
  using assms
proof (rule commit_submission_Ok)
  fix p deadline ver h b0
  assume b0: "b0 = mb_deliver (schedule (Schedule (RequestExpiry (si_request input)) deadline)
        (schedule (CancelTask (SubmissionTimeout (si_request input)))
          (put_request (si_request input)
            (with_lifecycle r (AwaitingRecipientDecision \<lparr>su_at = cx_now cx, su_decision_deadline = deadline\<rparr>))
            (b\<lparr>mb_messages := bt_insert (rq_initial_message r) (submitted_message b cx r input) (mb_messages b),
               mb_history := h\<rparr>))))
        (rq_initial_message r) (si_content input) (si_delivery input)"
    and b': "b' = emit (b0\<lparr>mb_effects := mb_effects b0 @ [EstablishRequestSolicitation (si_request input) (rq_generation r)]\<rparr>)
        (RequestSubmitted (si_request input))"
  have "same_offers b b0 \<and> same_lane b b0 \<and> rel_state b0 = rel_state b"
    unfolding b0 by (cases "mb_route b") (simp_all add: frame_defs mb_deliver_def schedule_def put_request_def)
  then show ?thesis unfolding b' by (simp add: frame_defs emit_def)
qed

lemma submit_request_frame:
  assumes "submit_request_to_recipient b cx input = Ok b'"
  shows "same_offers b b' \<and> same_lane b b' \<and> rel_state b' = rel_state b \<and> rel_state b \<noteq> RelBlocked"
proof -
  have nb: "rel_state b \<noteq> RelBlocked" using assms by (auto simp: submit_request_to_recipient_def Let_def)
  have "(\<exists>x. cancel_submission b (si_request input) x = Ok b') \<or> (\<exists>r. commit_submission b cx r input = Ok b')"
    using assms
    by (auto simp: submit_request_to_recipient_def Let_def split: if_splits option.splits request_lifecycle.splits)
  then show ?thesis using nb commit_submission_frame by (auto dest!: cancel_submission_still simp: still_def)
qed

section \<open>New requests and submitted requests\<close>

definition no_new :: "builder \<Rightarrow> builder \<Rightarrow> bool" where
  "no_new b b' \<longleftrightarrow> (\<forall>i. find_request b i = None \<longrightarrow> find_request b' i = None)"

text \<open>A submitted request stays as it is.\<close>

definition keeps_submitted :: "builder \<Rightarrow> builder \<Rightarrow> bool" where
  "keeps_submitted b b' \<longleftrightarrow>
     (\<forall>i r. find_request b i = Some r \<longrightarrow> is_awaiting_recipient_decision (rq_lifecycle r)
        \<longrightarrow> find_request b' i = Some r)"

lemma find_request_updates [simp]:
  "find_request (emit b kind) i = find_request b i" "find_request (schedule x b) i = find_request b i"
  "find_request (release_reservation r b) i = find_request b i"
  "find_request (apply_financial_effects b j fx) i = find_request b i"
  "find_request (mb_deliver b m ct dl) i = find_request b i"
  "find_request (put_request j r b) i = (if i = j then Some r else find_request b i)"
  by (simp_all add: find_request_def emit_def schedule_def release_reservation_def
      apply_financial_effects_def mb_deliver_def put_request_def split: delivery_route.split)

lemma quiet_requests: "quiet_step b b' \<Longrightarrow> find_request b' i = find_request b i"
  by (simp add: find_request_def quiet_frame)

lemma quiet_no_new: "quiet_step b b' \<Longrightarrow> no_new b b' \<and> keeps_submitted b b'"
  by (simp add: no_new_def keeps_submitted_def quiet_requests)

lemma settle_financials_requests: "settle_financials b i x = Ok b' \<Longrightarrow> find_request b' j = find_request b j"
  using settle_financials_Ok [of b i x b'] by (auto simp: find_request_def)

lemma apply_cooldown_requests: "apply_cooldown b from d = Ok b' \<Longrightarrow> find_request b' j = find_request b j"
  by (auto simp: apply_cooldown_def find_request_def)

lemma one_preparing_changes:
  assumes "find_request b i = Some r" and "is_preparing_submission (rq_lifecycle r)"
    and "\<And>j. j \<noteq> i \<Longrightarrow> find_request b' j = find_request b j"
  shows "no_new b b' \<and> keeps_submitted b b'"
  using assms unfolding no_new_def keeps_submitted_def is_preparing_iff is_awaiting_iff
  by (metis option.distinct(1) option.inject request_lifecycle.distinct(1))

lemma no_new_refl [simp]: "no_new b b" "keeps_submitted b b"
  by (simp_all add: no_new_def keeps_submitted_def)

lemma cancel_submission_requests:
  assumes "cancel_submission b i x = Ok b'" and "keyed b"
  shows "no_new b b'" and "keeps_submitted b b'"
proof -
  obtain r where r: "find_request b i = Some r" "is_preparing_submission (rq_lifecycle r)"
    using assms(1) by (auto simp: cancel_submission_def)
  then have i: "rq_id r = i" using assms(2) by (simp add: keyed_def)
  have "find_request b' j = find_request b j" if "j \<noteq> i" for j
    using assms(1) r that i by (auto simp: cancel_submission_def Let_def settle_financials_requests)
  then show "no_new b b'" "keeps_submitted b b'" using one_preparing_changes [OF r] by blast+
qed

lemma settle_accepted_no_new: "settle_accepted b i m = Ok b' \<Longrightarrow> no_new b b'"
  by (auto simp: settle_accepted_def no_new_def settle_financials_requests)

lemma settle_rejected_no_new: "settle_rejected b i = Ok b' \<Longrightarrow> no_new b b'"
  by (auto simp: settle_rejected_def no_new_def settle_financials_requests apply_cooldown_requests)

lemma settle_expired_no_new: "settle_expired b i = Ok b' \<Longrightarrow> no_new b b'"
  by (auto simp: settle_expired_def no_new_def settle_financials_requests apply_cooldown_requests)

lemma settle_decision_no_new: "settle_decision b d = Ok b' \<Longrightarrow> keyed b \<Longrightarrow> no_new b b'"
  by (auto simp: settle_decision_def
      split: option.splits request_lifecycle.splits if_splits decision.splits
      dest: cancel_submission_requests settle_accepted_no_new settle_rejected_no_new settle_expired_no_new)

lemma settle_for_lane_no_new: "settle_for_lane lane b = Ok b' \<Longrightarrow> keyed b \<Longrightarrow> no_new b b'"
  by (auto simp: settle_for_lane_def
      split: option.splits request_lifecycle.splits
      dest: cancel_submission_requests settle_accepted_no_new)

lemma no_new_trans: "no_new b b1 \<Longrightarrow> no_new b1 b2 \<Longrightarrow> no_new b b2"
  by (simp add: no_new_def)

lemma no_new_emit [simp]: "no_new b (emit b' kind) = no_new b b'"
  by (simp add: no_new_def)

lemma relationship_decision_no_new:
  assumes "relationship_decision b v d = Ok b'" and "keyed b"
  shows "no_new b b'"
proof -
  obtain b1 b2 b3 where "mark_relationship b (decision_state d) = Ok b1"
    "(if d = DecBlock then terminate_lane b1 else Ok b1) = Ok b2"
    and s: "settle_decision b2 d = Ok b3" and b': "b' = emit b3 (decision_event d)"
    using assms(1) by (auto simp: relationship_decision_def)
  then have q: "quiet_step b b2"
    by (auto dest!: mark_relationship_quiet terminate_lane_quiet split: if_splits intro: quiet_trans)
  show ?thesis
    using no_new_trans [OF quiet_no_new [OF q, THEN conjunct1] settle_decision_no_new [OF s quiet_keyed [OF q assms(2)]]]
    by (simp add: b')
qed

lemma record_payment_no_new: 
  assumes "record_payment c b i receipt = Ok b'" shows "no_new b b'"
proof -
  obtain p p' fx where p: "bt_get (mb_payments b) i = Some p" "rf_record_payment c p receipt = Ok (p', fx)"
    using assms by (auto simp: record_payment_def)
  let ?b1 = "b\<lparr>mb_payments := bt_insert i p' (mb_payments b)\<rparr>"
  have f: "find_request ?b1 j = find_request b j" for j by (simp add: find_request_def)
  show ?thesis
  proof (cases "find_request ?b1 i")
    case None
    then show ?thesis using assms p by (auto simp: record_payment_def Let_def no_new_def f)
  next
    case (Some r)
    then show ?thesis using assms p
      by (cases "fe_capture_voided fx"; cases "rq_lifecycle r")
         (auto simp: record_payment_def Let_def no_new_def f)
  qed
qed

lemma cancel_request_submission_requests:
  assumes "cancel_request_submission b actor i v reason = Ok b'" and "keyed b"
  shows "no_new b b'" and "keeps_submitted b b'"
proof -
  have "b' = b \<or> cancel_submission b i OrdinaryCancellation = Ok b'"
    using assms(1) by (auto simp: cancel_request_submission_def split: if_splits actor_ref.splits)
  then show "no_new b b'" "keeps_submitted b b'"
    using cancel_submission_requests [OF _ assms(2)] by (auto simp: no_new_def keeps_submitted_def)
qed

lemma expire_request_no_new: "expire_request b i v = Ok b' \<Longrightarrow> no_new b b'"
  by (auto simp: expire_request_def dest: settle_expired_no_new split: if_splits)

lemma commit_submission_requests:
  assumes "commit_submission b cx r input = Ok b'" and "j \<noteq> si_request input"
  shows "find_request b' j = find_request b j"
  using assms(1)
proof (rule commit_submission_Ok)
  fix p deadline ver h b0
  assume b0: "b0 = mb_deliver (schedule (Schedule (RequestExpiry (si_request input)) deadline)
        (schedule (CancelTask (SubmissionTimeout (si_request input)))
          (put_request (si_request input)
            (with_lifecycle r (AwaitingRecipientDecision \<lparr>su_at = cx_now cx, su_decision_deadline = deadline\<rparr>))
            (b\<lparr>mb_messages := bt_insert (rq_initial_message r) (submitted_message b cx r input) (mb_messages b),
               mb_history := h\<rparr>))))
        (rq_initial_message r) (si_content input) (si_delivery input)"
    and b': "b' = emit (b0\<lparr>mb_effects := mb_effects b0 @ [EstablishRequestSolicitation (si_request input) (rq_generation r)]\<rparr>)
        (RequestSubmitted (si_request input))"
  have "find_request b0 j = find_request b j" unfolding b0 using assms(2) by simp (simp add: find_request_def)
  then show ?thesis unfolding b' by simp (simp add: find_request_def)
qed

lemma submit_request_requests:
  assumes "submit_request_to_recipient b cx input = Ok b'" and "keyed b"
  shows "no_new b b'" and "keeps_submitted b b'"
proof -
  let ?i = "si_request input"
  obtain r where r: "find_request b ?i = Some r" "is_preparing_submission (rq_lifecycle r)"
    using assms(1)
    by (auto simp: submit_request_to_recipient_def Let_def split: if_splits request_lifecycle.splits)
  have "(\<exists>x. cancel_submission b ?i x = Ok b') \<or> (\<exists>r. commit_submission b cx r input = Ok b')"
    using assms(1)
    by (auto simp: submit_request_to_recipient_def Let_def split: if_splits option.splits request_lifecycle.splits)
  then have "no_new b b' \<and> keeps_submitted b b'"
  proof (elim disjE exE)
    fix x assume "cancel_submission b ?i x = Ok b'"
    then show ?thesis using cancel_submission_requests assms(2) by blast
  next
    fix q assume "commit_submission b cx q input = Ok b'"
    from commit_submission_requests [OF this] show ?thesis by (rule one_preparing_changes [OF r])
  qed
  then show "no_new b b'" "keeps_submitted b b'" by auto
qed

lemma create_request_requests:
  assumes "create_request c b cx i mi pm t key = Ok b'"
  shows "keeps_submitted b b'" and "find_request b j = None \<Longrightarrow> find_request b' j \<noteq> None \<Longrightarrow> j = i"
    and "find_request b' i \<noteq> None"
proof -
  have "(\<forall>j. j \<noteq> i \<longrightarrow> find_request b' j = find_request b j) \<and> find_request b' i \<noteq> None \<and> find_request b i = None"
    using assms by (rule create_request_Ok) (simp, simp add: find_request_def upd_relationship_def)
  then show "keeps_submitted b b'" "find_request b j = None \<Longrightarrow> find_request b' j \<noteq> None \<Longrightarrow> j = i"
    "find_request b' i \<noteq> None"
    unfolding keeps_submitted_def by (metis option.distinct(1))+
qed

section \<open>From handlers to plans\<close>

lemma transition_Ok:
  assumes "transition c s command cx = Ok m"
  obtains b v where "validate_snapshot s cx = Ok ()"
    "authorize (sn_state s) (kc_actor command) (kc_command command) (ps_recipient_provider (cx_policy cx)) = Ok ()"
    "apply_command c (builder_new s cx) cx (kc_actor command) (kc_key command) (kc_command command) = Ok b"
    "view_apply (sn_ledger s) (mb_batch b) = Ok v"
    "tm_next_state m = mb_next b" "tm_next_messages m = mb_messages b" "tm_mailbox_deliveries m = mb_mailbox b"
    "tm_effects m = mb_effects b" "tm_terms m = mb_terms b" "tm_lane_revocation m = mb_lane_revocation b"
  using assms by (auto simp: transition_def builder_finish_def)

definition delivers_nothing :: "settlement_snapshot \<Rightarrow> transition_manifest \<Rightarrow> bool" where
  "delivers_nothing s m \<longleftrightarrow>
     tm_next_messages m = sn_messages s \<and> tm_mailbox_deliveries m = [] \<and> \<not> list_ex is_delivery (tm_effects m)"

definition creates_nothing :: "settlement_snapshot \<Rightarrow> transition_manifest \<Rightarrow> bool" where
  "creates_nothing s m \<longleftrightarrow>
     (\<forall>i. request_in s i = None \<longrightarrow> bt_get (st_requests (tm_next_state m)) i = None)"

lemma silent_delivers:
  assumes "silent (builder_new s cx) b" and "tm_next_messages m = mb_messages b"
    and "tm_mailbox_deliveries m = mb_mailbox b" and "tm_effects m = mb_effects b"
  shows "delivers_nothing s m"
proof -
  have "filter is_delivery (mb_effects b) = []" using assms(1) by (simp add: silent_def)
  then show ?thesis using assms by (auto simp: delivers_nothing_def silent_def list_ex_iff filter_empty_conv)
qed

lemma no_new_creates:
  "no_new (builder_new s cx) b \<Longrightarrow> tm_next_state m = mb_next b \<Longrightarrow> creates_nothing s m"
  by (simp add: no_new_def creates_nothing_def find_request_def request_in_def)

text \<open>What a recipient's commands do.\<close>

lemma recipient_command:
  assumes "apply_command c b cx actor key command = Ok b'" and "keyed b"
    and "authorize s actor command provider = Ok ()" and "actor = ActRecipient x"
  shows "silent b b'" and "no_new b b'"
    and "x = rk_recipient (re_key (st_relationship s))"
  using assms
  by (cases command;
      auto simp: apply_command_def authorize_def relationship_only_def split: cancellation_reason.splits if_splits
        dest: set_followup_policy_frame relationship_decision_frame unblock_frame revoke_frame
          set_followup_policy_quiet relationship_decision_no_new unblock_quiet revoke_quiet quiet_no_new)+

text \<open>What the provider's and the scheduler's commands do.\<close>

lemma provider_command:
  assumes "apply_command c b cx actor key command = Ok b'" and "keyed b"
    and "authorize s actor command provider = Ok ()" and "actor = ActProvider x \<or> actor = ActScheduler x"
  shows "still b b'" and "no_new b b'" and "x = provider"
  using assms
  by (cases command;
      auto simp: apply_command_def authorize_def split: cancellation_reason.splits if_splits
        dest: record_payment_still cancel_request_submission_still expire_request_still
          record_payment_no_new cancel_request_submission_requests expire_request_no_new)+

text \<open>What a sender's commands do.\<close>

lemma sender_command:
  assumes "apply_command c b cx actor key command = Ok b'" and "keyed b"
    and "authorize s actor command provider = Ok ()" and "actor = ActSender x"
  shows "rel_state b' = rel_state b" and "keeps_submitted b b'"
    and "st_followup_policy (mb_next b') = st_followup_policy (mb_next b)"
    and "x = rk_sender (re_key (st_relationship s))"
proof -
  have "rel_state b' = rel_state b \<and> st_followup_policy (mb_next b') = st_followup_policy (mb_next b)
      \<and> x = rk_sender (re_key (st_relationship s))"
    using assms(1,3,4)
    by (cases command;
        auto simp: apply_command_def authorize_def same_offers_def still_def split: cancellation_reason.splits if_splits
          dest!: admit_followup_frame issue_terms_frame create_request_frame submit_request_frame
            cancel_request_submission_still)
  moreover have "keeps_submitted b b'"
    using assms
    by (cases command;
        auto simp: apply_command_def authorize_def split: cancellation_reason.splits if_splits
          dest: admit_followup_quiet issue_terms_quiet quiet_no_new create_request_requests
            submit_request_requests cancel_request_submission_requests)
  ultimately show "rel_state b' = rel_state b" "keeps_submitted b b'"
    "st_followup_policy (mb_next b') = st_followup_policy (mb_next b)"
    "x = rk_sender (re_key (st_relationship s))" by auto
qed

section \<open>Properties\<close>

text \<open>
  C6: Duties are separated.  A committed command of a sender leaves the relationship state, the
  follow-up policy and every submitted request as they are; one of a recipient delivers nothing,
  stores no message and creates no request; one of the provider or the scheduler does none of
  these and leaves the relationship state.  Each acts only on its own relationship.
\<close>

theorem duties_are_separated:
  assumes "transition c s command cx = Ok m"
  shows "(\<forall>x. kc_actor command = ActSender x \<longrightarrow>
        x = rk_sender (re_key (st_relationship (sn_state s)))
        \<and> re_state (st_relationship (tm_next_state m)) = re_state (st_relationship (sn_state s))
        \<and> st_followup_policy (tm_next_state m) = st_followup_policy (sn_state s)
        \<and> (\<forall>i r. request_in s i = Some r \<longrightarrow> is_awaiting_recipient_decision (rq_lifecycle r)
              \<longrightarrow> bt_get (st_requests (tm_next_state m)) i = Some r))
     \<and> (\<forall>x. kc_actor command = ActRecipient x \<longrightarrow>
        x = rk_recipient (re_key (st_relationship (sn_state s))) \<and> delivers_nothing s m \<and> creates_nothing s m)
     \<and> (\<forall>x. kc_actor command = ActProvider x \<or> kc_actor command = ActScheduler x \<longrightarrow>
        x = ps_recipient_provider (cx_policy cx) \<and> delivers_nothing s m \<and> creates_nothing s m
        \<and> re_state (st_relationship (tm_next_state m)) = re_state (st_relationship (sn_state s)))"
  using assms
proof (rule transition_Ok)
  fix b v
  assume v: "validate_snapshot s cx = Ok ()"
    and a: "authorize (sn_state s) (kc_actor command) (kc_command command) (ps_recipient_provider (cx_policy cx)) = Ok ()"
    and b: "apply_command c (builder_new s cx) cx (kc_actor command) (kc_key command) (kc_command command) = Ok b"
    and m: "tm_next_state m = mb_next b" "tm_next_messages m = mb_messages b" "tm_mailbox_deliveries m = mb_mailbox b"
      "tm_effects m = mb_effects b"
  note k = valid_keyed [OF validate_snapshot_Ok(1) [OF v], of cx]
  note snd = sender_command [OF b k a] and rcp = recipient_command [OF b k a] and prv = provider_command [OF b k a]
  note del = silent_delivers [OF _ m(2-4)] and cre = no_new_creates [OF _ m(1)]
  show ?thesis
    by (intro conjI allI impI)
       (use snd rcp prv del cre in \<open>auto simp: m(1) rel_state_def keeps_submitted_def find_request_def request_in_def still_def\<close>)
qed

text \<open>
  C9: A block holds.  While the relationship is blocked no committed command delivers or stores
  a message, creates a request, or issues terms or quotes; and the block stays until the
  recipient unblocks or revokes.
\<close>

theorem block_holds:
  assumes "transition c s command cx = Ok m" and "re_state (st_relationship (sn_state s)) = RelBlocked"
  shows "delivers_nothing s m \<and> creates_nothing s m \<and> tm_terms m = None
     \<and> st_quotes (tm_next_state m) = st_quotes (sn_state s)
     \<and> (re_state (st_relationship (tm_next_state m)) = RelBlocked
        \<or> (\<exists>v. kc_command command = UnblockRelationship v \<or> kc_command command = RevokeRelationship v))"
  using assms(1)
proof (rule transition_Ok)
  fix b v
  let ?b = "builder_new s cx"
  assume v: "validate_snapshot s cx = Ok ()"
    and b: "apply_command c ?b cx (kc_actor command) (kc_key command) (kc_command command) = Ok b"
    and m: "tm_next_state m = mb_next b" "tm_next_messages m = mb_messages b" "tm_mailbox_deliveries m = mb_mailbox b"
      "tm_effects m = mb_effects b" "tm_terms m = mb_terms b"
  have k: "keyed ?b" by (rule valid_keyed [OF validate_snapshot_Ok(1) [OF v]])
  have blocked: "rel_state ?b = RelBlocked" using assms(2) by (simp add: rel_state_def)
  have "silent ?b b \<and> no_new ?b b \<and> mb_terms b = None \<and> st_quotes (mb_next b) = st_quotes (mb_next ?b)
      \<and> (rel_state b = RelBlocked \<or> (\<exists>v. kc_command command = UnblockRelationship v \<or> kc_command command = RevokeRelationship v))"
  proof (cases "kc_command command")
    case (SetFollowupPolicy v p)
    then show ?thesis using b blocked set_followup_policy_frame set_followup_policy_quiet quiet_no_new
      by (fastforce simp: apply_command_def)
  next
    case (RecordPayment i x)
    then show ?thesis using b blocked record_payment_still record_payment_no_new
      by (fastforce simp: apply_command_def still_def same_offers_def)
  next
    case (CancelRequestSubmission i v r)
    then show ?thesis using b blocked cancel_request_submission_still cancel_request_submission_requests [OF _ k]
      by (fastforce simp: apply_command_def still_def same_offers_def)
  next
    case (ExpireRequest i v)
    then show ?thesis using b blocked expire_request_still expire_request_no_new
      by (fastforce simp: apply_command_def still_def same_offers_def)
  next
    case (BlockRelationship v)
    then show ?thesis using b relationship_decision_frame relationship_decision_no_new [OF _ k]
      by (fastforce simp: apply_command_def relationship_only_def same_offers_def)
  next
    case (UnblockRelationship v)
    then show ?thesis using b unblock_frame unblock_quiet quiet_no_new
      by (fastforce simp: apply_command_def relationship_only_def same_offers_def)
  next
    case (RevokeRelationship v)
    then show ?thesis using b revoke_frame revoke_quiet quiet_no_new
      by (fastforce simp: apply_command_def relationship_only_def same_offers_def)
  qed (use b blocked in \<open>auto simp: apply_command_def
      dest: admit_followup_frame issue_terms_frame create_request_frame submit_request_frame relationship_decision_frame(3)\<close>)
  then show ?thesis
    using silent_delivers [OF _ m(2-4), where s = s and cx = cx] no_new_creates [OF _ m(1), where s = s and cx = cx] by (simp add: m(1,5) rel_state_def)
qed

lemma followups_insert:
  assumes "bt_get ms k = None"
  shows "mset (followups (bt_insert k m ms) i) =
     (if (case ms_basis m of BasisRequestFollowup r _ \<Rightarrow> r = i | _ \<Rightarrow> False) then {#m#} else {#}) + mset (followups ms i)"
  by (simp add: followups_def mset_filter bt_values_insert_new [OF assms])

lemma recent_mset: "mset (recent_followups ms now d) = {# m \<in># mset ms. saturating_sub now (ms_admitted_at m) < d #}"
  by (simp add: recent_followups_def)

text \<open>
  C10: Follow-ups stay within the recipient's policy.  A committed follow-up adds one message to
  a submitted, undecided request inside its decision window; the follow-ups of that request then
  number at most the policy's maximum, and those admitted within the policy's interval at most
  its rate.
\<close>

theorem followups_within_policy:
  assumes "transition c s command cx = Ok m"
    and "kc_command command = AdmitFollowup i message_id ct dl digest valid_until expected"
  shows "(\<exists>r a. request_in s i = Some r \<and> rq_lifecycle r = AwaitingRecipientDecision a
        \<and> cx_now cx \<le> su_decision_deadline a)
     \<and> bt_get (sn_messages s) message_id = None
     \<and> length (followups (tm_next_messages m) i) = Suc (length (followups (sn_messages s) i))
     \<and> length (followups (tm_next_messages m) i) \<le> unat (fp_max_messages (st_followup_policy (sn_state s)))
     \<and> length (recent_followups (followups (tm_next_messages m) i) (cx_now cx)
          (fp_interval (st_followup_policy (sn_state s)))) \<le> unat (fp_max_per_interval (st_followup_policy (sn_state s)))"
  using assms(1)
proof (rule transition_Ok)
  fix b v
  assume b: "apply_command c (builder_new s cx) cx (kc_actor command) (kc_key command) (kc_command command) = Ok b"
    and m: "tm_next_messages m = mb_messages b"
  let ?p = "st_followup_policy (sn_state s)"
  obtain r where r: "request_in s i = Some r" using b assms(2)
    by (auto simp: apply_command_def admit_followup_def Let_def find_request_def request_in_def)
  then have ad: "cx_admission cx = None" using b assms(2)
    by (cases "cx_admission cx") (auto simp: apply_command_def admit_followup_def Let_def find_request_def request_in_def)
  define msg where "msg = \<lparr>ms_id = message_id, ms_relationship = qt_relationship (rq_terms r),
      ms_content = ct, ms_delivery = dl, ms_declaration = digest, ms_valid_until = valid_until,
      ms_admitted_at = cx_now cx, ms_basis = BasisRequestFollowup i (fp_version ?p)\<rparr>"
  have f: "is_awaiting_recipient_decision (rq_lifecycle r)" "cx_now cx \<le> su_decision_deadline a"
    "bt_get (sn_messages s) message_id = None" "length (followups (sn_messages s) i) < unat (fp_max_messages ?p)"
    "length (recent_followups (followups (sn_messages s) i) (cx_now cx) (fp_interval ?p)) < unat (fp_max_per_interval ?p)"
    "mb_messages b = bt_insert message_id msg (sn_messages s)"
    if "rq_lifecycle r = AwaitingRecipientDecision a" for a
    using b assms(2) r ad that
    by (auto simp: apply_command_def admit_followup_def Let_def find_request_def request_in_def bt_has_def msg_def
        emit_def mb_deliver_def not_less split: delivery_route.splits)
  have "is_awaiting_recipient_decision (rq_lifecycle r)"
    using b assms(2) r by (auto simp: apply_command_def admit_followup_def Let_def find_request_def request_in_def)
  then obtain a where a: "rq_lifecycle r = AwaitingRecipientDecision a" by (auto simp: is_awaiting_iff)
  note f = f [OF a]
  have n: "mset (followups (tm_next_messages m) i) = add_mset msg (mset (followups (sn_messages s) i))"
    using followups_insert [OF f(3), of msg i] by (simp add: m f(6)) (simp add: msg_def)
  then have l: "length (followups (tm_next_messages m) i) = Suc (length (followups (sn_messages s) i))"
    by (metis size_add_mset size_mset)
  have "size (mset (recent_followups (followups (tm_next_messages m) i) (cx_now cx) (fp_interval ?p)))
      \<le> Suc (size (mset (recent_followups (followups (sn_messages s) i) (cx_now cx) (fp_interval ?p))))"
    unfolding recent_mset n by simp
  then show ?thesis using r a f(2-5) l by auto
qed

end
