(* ===== verification/Kernel_Validity.thy ===== *)
theory Kernel_Validity
  imports Kernel_Authority
begin

text \<open>
  Closure of the kernel: the snapshots its plans lead to pass the validation that guards the next
  transition, with the one exception of a relationship in which a request was created under the
  reserved identifier zero.
\<close>

section \<open>The express lane of a plan\<close>

text \<open>A plan leaves the lane or carries its revocation.\<close>

definition lane_planned :: "builder \<Rightarrow> builder \<Rightarrow> bool" where
  "lane_planned b b' \<longleftrightarrow>
     mb_lane_revocation b' = mb_lane_revocation b
     \<or> (\<exists>l e. mb_lane b = Some l \<and> plan_revocation l = Ok (Some e) \<and> mb_lane_revocation b' = Some e)"

lemma lane_plannedI:
  "same_lane b b' \<Longrightarrow> lane_planned b b'" "still b b' \<Longrightarrow> lane_planned b b'"
  "relationship_only b b' \<Longrightarrow> lane_planned b b'"
  by (auto simp: lane_planned_def same_lane_def still_def relationship_only_def)

lemma command_lane:
  assumes "apply_command c b cx actor key command = Ok b'"
  shows "lane_planned b b'"
  using assms
  by (cases command)
     (auto simp: apply_command_def intro: lane_plannedI
       dest: record_payment_still cancel_request_submission_still expire_request_still
         relationship_decision_frame(1) submit_request_frame set_followup_policy_frame admit_followup_frame
         issue_terms_frame create_request_frame unblock_frame revoke_frame(1))

lemma plan_revocation_grant:
  "plan_revocation l = Ok (Some e) \<Longrightarrow> ln_grant (lr_lane e) = ln_grant l"
  by (auto simp: plan_revocation_def lane_revoke_def split: if_splits)

definition lane_fits :: "sender_scoped_lane option \<Rightarrow> relationship_key \<Rightarrow> bool" where
  "lane_fits lane key \<longleftrightarrow>
     (\<forall>l. lane = Some l \<longrightarrow> gr_sender (ln_grant l) = rk_sender key \<and> gr_recipient (ln_grant l) = rk_recipient key)"

lemma planned_lane_fits:
  assumes "lane_planned (builder_new s cx) b" and "lane_fits (sn_lane s) key"
    and "tm_lane_revocation m = mb_lane_revocation b"
  shows "lane_fits (sn_lane (snapshot_next s m v)) key"
  using assms
  by (auto simp: lane_planned_def lane_fits_def snapshot_next_def plan_revocation_grant split: option.split)

lemma plan_lane:
  assumes "kernel_plan c s (input, cx) = Ok (Some m)"
  shows "\<exists>b. lane_planned (builder_new s cx) b \<and> tm_lane_revocation m = mb_lane_revocation b"
proof (cases input)
  case (SignedCommand command)
  then have "transition c s command cx = Ok m" using assms by (simp add: kernel_plan_def)
  then show ?thesis by (rule transition_Ok) (blast intro: command_lane)
next
  case (IncomingNative incoming)
  then obtain r :: relationship_request and b where
    b: "cancel_submission (builder_new s cx) (rq_id r) OrdinaryCancellation = Ok b"
    and m: "builder_finish s (emit b (RequestPreparationSuperseded (rq_id r) (reservation incoming))) = Ok m"
    using assms by (auto simp: kernel_plan_def receive_native_request_def Let_def split: option.splits if_splits)
  from m have "tm_lane_revocation m = mb_lane_revocation b" by (auto simp: builder_finish_def emit_def)
  then show ?thesis using lane_plannedI(2) [OF cancel_submission_still [OF b]] by blast
next
  case (LaneGranted lane)
  then obtain b1 b2 where b1: "mark_relationship (builder_new s cx) (RelExpressLane lane) = Ok b1"
    and b2: "settle_for_lane lane b1 = Ok b2"
    and m: "builder_finish s (emit b2 (RelationshipLaneGranted lane)) = Ok m"
    using assms by (auto simp: kernel_plan_def accept_express_lane_def settle_for_lane_def)
  have "still b1 b2"
    using b2 by (auto simp: settle_for_lane_def split: option.splits request_lifecycle.splits
        dest: cancel_submission_still settle_accepted_still)
  then have "lane_planned (builder_new s cx) b2"
    using mark_relationship_frame [OF b1] by (simp add: lane_planned_def same_lane_def still_def)
  moreover from m have "tm_lane_revocation m = mb_lane_revocation b2" by (auto simp: builder_finish_def emit_def)
  ultimately show ?thesis by blast
qed

section \<open>The requests of the next snapshot\<close>

lemma move_unresolved:
  assumes "kernel_move c now ev k fx k'"
    and unique: "\<forall>i j r q. bt_get (kk_requests k) i = Some r \<longrightarrow> bt_get (kk_requests k) j = Some q
        \<longrightarrow> \<not> is_terminal (rq_lifecycle r) \<longrightarrow> \<not> is_terminal (rq_lifecycle q) \<longrightarrow> i = j"
    and "bt_get (kk_requests k') i = Some r" and "bt_get (kk_requests k') j = Some q"
    and "\<not> is_terminal (rq_lifecycle r)" and "\<not> is_terminal (rq_lifecycle q)"
  shows "i = j"
  using assms(1)
proof cases
  case (create r0 capture contract p)
  then show ?thesis using assms(3-6) by (auto simp: fresh_request_def split: if_splits)
next
  case (submit i0 r0 preparation p h deadline)
  then have "\<not> is_terminal (rq_lifecycle r0)" by simp
  then show ?thesis using submit(2,3) assms(3-6) unique by (simp split: if_splits)
next
  case (settle i0 r0 p settlement l' p' h)
  have "is_terminal l'" using settle(4) by (auto elim: resolves.cases)
  then show ?thesis using settle(1) assms(3-6) unique by (simp split: if_splits) (metis with_lifecycle_simps(1))+
next
  case (void i0 r0 p preparation receipt p')
  then show ?thesis using assms(3-6) unique by (auto split: if_splits)
qed (use assms(3-6) unique in auto)

text \<open>A request bears its key and belongs to its relationship; zero is not excluded.\<close>

definition belongs :: "relationship_key \<Rightarrow> request_id \<Rightarrow> relationship_request \<Rightarrow> bool" where
  "belongs key i r \<longleftrightarrow>
     i = rq_id r \<and> qt_relationship (rq_terms r) = rk_reference key
     \<and> qt_sender (rq_terms r) = rk_sender key \<and> qt_recipient (rq_terms r) = rk_recipient key"

lemma owned_by_belongs: "owned_by key i r \<longleftrightarrow> belongs key i r \<and> i \<noteq> 0"
  by (auto simp: owned_by_def belongs_def)

lemma move_belongs:
  assumes "kernel_move c now ev k fx k'"
    and "\<And>i r. bt_get (kk_requests k) i = Some r \<Longrightarrow> belongs (kk_key k) i r"
    and "bt_get (kk_requests k') i = Some r"
  shows "belongs (kk_key k) i r"
proof (cases "bt_get (kk_requests k) i")
  case None
  then show ?thesis
    using move_new_requests [OF assms(1) None assms(3)] by (auto simp: belongs_def fresh_request_def)
next
  case (Some q)
  then show ?thesis
    using move_requests [OF assms(1) Some] assms(2) [OF Some] assms(3) by (auto simp: belongs_def)
qed

section \<open>Snapshots the kernel reaches\<close>

definition well_kept :: "settlement_unit \<Rightarrow> settlement_snapshot \<Rightarrow> bool" where
  "well_kept unit s \<longleftrightarrow>
     unresolved_unique (sn_state s)
     \<and> (\<forall>i r. request_in s i = Some r \<longrightarrow> belongs (re_key (st_relationship (sn_state s))) i r)
     \<and> lane_fits (sn_lane s) (re_key (st_relationship (sn_state s)))
     \<and> hi_reference (sn_history s) = re_history (st_relationship (sn_state s))
     \<and> hi_recipient (sn_history s) = rk_recipient (re_key (st_relationship (sn_state s)))
     \<and> sn_complete s \<and> lv_unit (sn_ledger s) = unit"

definition context_fits :: "settlement_unit \<Rightarrow> transition_context \<Rightarrow> bool" where
  "context_fits unit cx \<longleftrightarrow>
     cx_protocol_version cx = 2 \<and> ps_protocol_version (cx_policy cx) = 2
     \<and> policy_snapshot_validate (cx_policy cx) = Ok () \<and> ps_unit (cx_policy cx) = unit"

lemma well_kept_validates:
  assumes "kernel_inv c s" and "well_kept unit s" and "context_fits unit cx"
  shows "validate_snapshot s cx = Ok () \<longleftrightarrow> request_in s 0 = None"
proof
  assume "validate_snapshot s cx = Ok ()"
  from validate_snapshot_Ok(1) [OF this] show "request_in s 0 = None"
    by (cases "request_in s 0") (auto simp: state_validate_iff owned_by_belongs request_in_def)
next
  assume zero: "request_in s 0 = None"
  have "\<forall>i r. request_in s i = Some r \<longrightarrow> owned_by (re_key (st_relationship (sn_state s))) i r"
    using assms(2) zero by (auto simp: well_kept_def owned_by_belongs)
  then have valid: "state_validate (sn_state s) = Ok ()"
    using assms(2) by (simp add: state_validate_iff well_kept_def request_in_def)
  have paid: "\<exists>p. bt_get (sn_payments s) (rq_id r) = Some p \<and> op_id (rf_capture p) = rq_funding r"
    if r: "r \<in> set (bt_values (st_requests (sn_state s)))" for r
  proof -
    obtain i where i: "request_in s i = Some r" using r unfolding bt_values_iff request_in_def by blast
    moreover have "rq_id r = i" using assms(2) i by (auto simp: well_kept_def belongs_def)
    ultimately show ?thesis
      using assms(1) by (force simp: kernel_inv_def money_agrees_def agrees_def request_in_def)
  qed
  show "validate_snapshot s cx = Ok ()"
    using assms(2,3) valid paid
    by (fastforce simp: validate_snapshot_def Let_def context_fits_def well_kept_def lane_fits_def list_ex_iff
        split: option.splits)
qed

lemma plan_validated: "kernel_plan c s (input, cx) = Ok (Some m) \<Longrightarrow> validate_snapshot s cx = Ok ()"
  by (cases input) (auto simp: kernel_plan_def transition_def receive_native_request_def accept_express_lane_def)

lemma kernel_step_well_kept:
  assumes "well_kept unit s" and "kernel_step c s (input, cx) = Ok (s', plan)"
  shows "well_kept unit s'"
  using assms(2)
proof (cases rule: kernel_step_Ok)
  case (commits m fx v)
  note mv = commits(5)
  have p: "plans c s cx m" using commits(2) by (rule kernel_plan_plans)
  obtain b where b: "lane_planned (builder_new s cx) b" "tm_lane_revocation m = mb_lane_revocation b"
    using plan_lane [OF commits(2)] by blast
  have rel: "re_history (st_relationship (sn_state s')) = re_history (st_relationship (sn_state s))"
    using p by (simp add: plans_def commits(3) snapshot_next_def)
  have "lane_fits (sn_lane s) (re_key (st_relationship (sn_state s)))"
    using assms(1) by (simp add: well_kept_def)
  from planned_lane_fits [OF b(1) this b(2)]
  have lane: "lane_fits (sn_lane s') (re_key (st_relationship (sn_state s)))" by (simp add: commits(3))
  have unique: "unresolved_unique (sn_state s')"
    using move_unresolved [OF mv] assms(1) unfolding well_kept_def unresolved_unique_def core_simps' by blast
  have own: "belongs (re_key (st_relationship (sn_state s))) i r" if "request_in s' i = Some r" for i r
    using move_belongs [OF mv, of i r] assms(1) that by (simp add: well_kept_def request_in_def)
  have "sn_complete s'" "lv_unit (sn_ledger s') = unit"
    using assms(1) view_apply_Ok(5) [OF commits(4)]
    by (simp_all add: commits(3) snapshot_next_def well_kept_def)
  then show ?thesis
    using unique own lane rel commits(7) move_history(2,3) [OF mv] assms(1)
    by (simp add: well_kept_def)
qed (use assms(1) in simp)

interpretation kernel_kept: invariant_machine "kernel_step c" "\<lambda>s. kernel_inv c s \<and> well_kept unit s"
proof unfold_locales
  fix s x s' plan
  assume "kernel_inv c s \<and> well_kept unit s" and "kernel_step c s x = Ok (s', plan)"
  then show "kernel_inv c s' \<and> well_kept unit s'"
    by (cases x) (auto intro: kernel_step_inv kernel_step_well_kept)
qed

lemma registered_kept: "well_kept unit (registered relationship history sender recipient now unit)"
  by (simp add: well_kept_def registered_def snapshot_complete_def initial_scoped_def history_new_def
      unresolved_unique_def request_in_def lane_fits_def ledger_new_def view_from_balances_def)

text \<open>
  C4: Every snapshot the kernel reaches is one it can work on.  From a registered relationship,
  after any run and in any context of protocol version 2 with a valid policy in the ledger's
  unit, the snapshot passes the validation that guards every entry point exactly if no request
  of the relationship has the identifier zero: nothing the kernel does can otherwise invalidate
  its own records.  The exception is real: nothing stops a request from being created under
  identifier zero, and no later transition of that relationship is possible.
\<close>

theorem reachable_snapshots_valid:
  assumes "run_machine (kernel_step c) (registered relationship history sender recipient now unit) xs = (t, outs)"
    and "context_fits unit cx"
  shows "validate_snapshot t cx = Ok () \<longleftrightarrow> request_in t 0 = None"
proof -
  have "kernel_inv c t \<and> well_kept unit t"
    by (rule kernel_kept.run_inv [OF _ assms(1)]) (simp add: registered_inv registered_kept)
  then show ?thesis using well_kept_validates assms(2) by blast
qed

end
