(* ===== verification/Kernel_Samples.thy ===== *)
theory Kernel_Samples
  imports Kernel_Validity
begin

text \<open>
  A relationship in use: the runs that apply the properties of the kernel to concrete snapshots.
\<close>

section \<open>Evaluation of the kernel\<close>

lemmas kernel_lazily = lazily request_lifecycle.case_cong_weak

lemma sample_payment_id:
  "request_payment_id sample_crypto scope relationship i refund = (if refund then 2 else 1)"
  by (simp add: request_payment_id_def request_payment_preimage_def sample_crypto_def high_u128_def)

lemmas plan_defs = kernel_step_def kernel_plan_def transition_def validate_snapshot_def authorize_def apply_command_def
  builder_new_def builder_finish_def mb_deliver_def emit_def put_request_def schedule_def upd_relationship_def
  find_request_def rel_state_def next_version_def apply_financial_effects_def payment_to_protocol_def
  settle_financials_def apply_cooldown_def release_reservation_def record_payment_def cancel_submission_def
  settle_accepted_def settle_rejected_def settle_expired_def set_followup_policy_def issued_terms_def
  quoted_price_def issue_terms_def validate_request_terms_def request_capture_def request_contract_def
  create_request_def submission_failure_def validate_submission_authority_def submitted_message_def
  commit_submission_def submit_request_to_recipient_def terminate_lane_def mark_relationship_def
  settle_decision_def relationship_decision_def unblock_def admit_followup_def followups_def recent_followups_def

lemmas model_defs = history_new_def extend_cooldown_def record_submission_def charge_amount_def reservation_def
  ra_agreed_def default_followup_policy_def owned_by_def state_validate_def active_request_def initial_scoped_def
  snapshot_complete_def registered_def snapshot_next_def backoff_for_def policy_snapshot_validate_def
  is_awaiting_recipient_decision_def is_preparing_submission_def is_terminal_def lc_preparation_def lc_submission_def

lemmas money_defs = rf_new_def operation_validate_def terms_validate_def rf_record_payment_def rf_operation_def
  rf_reconcile_def rf_settle_def create_refund_def refund_of_def funding_finalized_def capture_reversed_def
  capture_voided_def no_effects_def batch_transfer_def view_apply_def total_value_def apply_transfer_def
  is_balanced_def ledger_new_def view_from_balances_def bt_values_def bt_has_def permits_negative_def
  checked_add_def i128_checked_def try_word_def time_checked_add_def version_checked_next_def money_checked_add_def
  saturating_sub_def u64_max_def less_account_def less_eq_account_def

section \<open>A relationship in use\<close>

definition sample_policy :: policy_snapshot where
  "sample_policy = \<lparr>ps_reply_lane = sample_reply_terms, ps_protocol_version = 2, ps_policy_version = 1,
     ps_privacy_profile_version = 1, ps_retention_policy_version = 1, ps_recipient_provider = 2, ps_unit = 1,
     ps_submission_window = 50, ps_decision_window = 100, ps_quote_lifetime = 30, ps_backoff = [0, 5, 60],
     ps_financial = sample_terms, ps_payment_provider_key = 9, ps_expiry_cooldown = 7, ps_rejection_cooldown = 9\<rparr>"

definition sample_context :: "canonical_time \<Rightarrow> transition_context" where
  "sample_context now = \<lparr>cx_permission = BondedRequest, cx_delivery = NativeMailboxes, cx_admission = None,
     cx_now = now, cx_journal_position = now + 1, cx_protocol_version = 2, cx_policy = sample_policy,
     cx_pricing = PricingResolved sample_price\<rparr>"

definition by_sender :: "protocol_command \<Rightarrow> kernel_input" where
  "by_sender x = SignedCommand \<lparr>kc_command = x, kc_actor = ActSender 10, kc_key = 1, kc_idempotency_key = 1\<rparr>"

definition by_recipient :: "protocol_command \<Rightarrow> kernel_input" where
  "by_recipient x = SignedCommand \<lparr>kc_command = x, kc_actor = ActRecipient 20, kc_key = 1, kc_idempotency_key = 1\<rparr>"

definition by_provider :: "protocol_command \<Rightarrow> kernel_input" where
  "by_provider x = SignedCommand \<lparr>kc_command = x, kc_actor = ActProvider 2, kc_key = 1, kc_idempotency_key = 1\<rparr>"

definition sample_start :: settlement_snapshot where
  "sample_start = registered \<lparr>sr_version = 1, sr_bytes = 1\<rparr> \<lparr>sr_version = 1, sr_bytes = 2\<rparr> 10 20 0 1"


text \<open>Inputs that refer to what the snapshot holds.\<close>

definition ask :: "quote_id \<Rightarrow> canonical_time \<Rightarrow> settlement_snapshot \<Rightarrow> kernel_input \<times> transition_context" where
  "ask quote now s = (by_sender (IssueRequestTerms (NativeRoute 1) 1 4 quote None), sample_context now)"

definition create :: "request_id \<Rightarrow> quote_id \<Rightarrow> canonical_time \<Rightarrow> settlement_snapshot \<Rightarrow> kernel_input \<times> transition_context" where
  "create i quote now s =
     (by_sender (CreateRequest 5 i (i + 1) (the (bt_get (st_quotes (sn_state s)) quote))), sample_context now)"

definition pay :: "request_id \<Rightarrow> canonical_time \<Rightarrow> settlement_snapshot \<Rightarrow> kernel_input \<times> transition_context" where
  "pay i now s =
     (by_provider (RecordPayment i
        (sample_receipt (ucast now + 1) (rf_capture (the (bt_get (sn_payments s) i))) OutSettled)), sample_context now)"

definition submit :: "request_id \<Rightarrow> canonical_time \<Rightarrow> settlement_snapshot \<Rightarrow> kernel_input \<times> transition_context" where
  "submit i now s =
     (by_sender (SubmitRequestToRecipient \<lparr>si_request = i, si_expected_version = 0, si_content = 3,
        si_delivery = 4, si_declaration = 5, si_valid_until = 1000\<rparr>), sample_context now)"

definition say :: "protocol_command \<Rightarrow> canonical_time \<Rightarrow> settlement_snapshot \<Rightarrow> kernel_input \<times> transition_context" where
  "say x now s = (by_recipient x, sample_context now)"

definition followup :: "request_id \<Rightarrow> message_id \<Rightarrow> canonical_time \<Rightarrow> settlement_snapshot \<Rightarrow> kernel_input \<times> transition_context" where
  "followup i m now s =
     (by_sender (AdmitFollowup i m 3 4 5 1000 1), sample_context now)"

text \<open>The snapshot a script leads to, if every input of it is accepted.\<close>

fun plays :: "settlement_snapshot \<Rightarrow> (settlement_snapshot \<Rightarrow> kernel_input \<times> transition_context) list \<Rightarrow> settlement_snapshot option" where
  "plays s [] = Some s"
| "plays s (f # fs) = (case kernel_step sample_crypto s (f s) of Ok (t, _) \<Rightarrow> plays t fs | _ \<Rightarrow> None)"

lemma plays_run:
  "plays s fs = Some t \<Longrightarrow> \<exists>xs outs. run_machine (kernel_step sample_crypto) s xs = (t, outs)"
proof (induction fs arbitrary: s)
  case Nil
  then have "run_machine (kernel_step sample_crypto) s [] = (t, [])" by simp
  then show ?case by blast
next
  case (Cons f fs)
  then obtain u out where u: "kernel_step sample_crypto s (f s) = Ok (u, out)" "plays u fs = Some t"
    by (auto split: res.splits)
  with Cons.IH obtain xs outs where "run_machine (kernel_step sample_crypto) u xs = (t, outs)" by blast
  with u(1) have "run_machine (kernel_step sample_crypto) s (f s # xs) = (t, out # outs)" by simp
  then show ?case by blast
qed

definition to_recipient :: "(settlement_snapshot \<Rightarrow> kernel_input \<times> transition_context) list" where
  "to_recipient = [ask 6 0, create 30 6 1, pay 30 2, submit 30 3]"

definition sample_limits :: followup_policy where
  "sample_limits = \<lparr>fp_version = 0, fp_max_messages = 2, fp_max_per_interval = 1, fp_interval = 10\<rparr>"

lemmas sample_defs = sample_start_def sample_policy_def sample_context_def sample_reply_terms_def sample_terms_def sample_scope_def
  sample_price_def ask_def create_def pay_def submit_def say_def followup_def by_sender_def by_recipient_def by_provider_def

lemmas run_simps = plan_defs model_defs money_defs sample_defs bt_collect_def Let_def sample_payment_id sample_settled_verifies

section \<open>The properties at concrete snapshots\<close>

lemma sample_rejected:
  "\<exists>t. plays sample_start (to_recipient @ [say (RejectRelationship 0) 6]) = Some t
     \<and> request_in t 30 \<noteq> None \<and> request_in t 0 = None"
  by (simp add: run_simps to_recipient_def request_in_def cong: kernel_lazily)

theorem money_follows_decisions_witness:
  "\<exists>t r p. plays sample_start (to_recipient @ [say (RejectRelationship 0) 6]) = Some t
     \<and> request_in t 30 = Some r \<and> bt_get (sn_payments t) 30 = Some p \<and> rf_settlement p = lc_settlement (rq_lifecycle r)"
proof -
  obtain t r where t: "plays sample_start (to_recipient @ [say (RejectRelationship 0) 6]) = Some t"
    "request_in t 30 = Some r" using sample_rejected by blast
  then obtain xs outs where "run_machine (kernel_step sample_crypto) sample_start xs = (t, outs)"
    using plays_run by blast
  from money_follows_decisions [OF this [unfolded sample_start_def]] t show ?thesis by blast
qed

lemma sample_zero:
  "\<exists>t. plays sample_start [ask 6 0, create 0 6 1] = Some t \<and> request_in t 0 \<noteq> None"
  by (simp add: run_simps request_in_def cong: kernel_lazily)

theorem reachable_snapshots_valid_witness:
  "(\<exists>t. plays sample_start (to_recipient @ [say (RejectRelationship 0) 6]) = Some t
     \<and> validate_snapshot t (sample_context 50) = Ok ())
   \<and> (\<exists>t. plays sample_start [ask 6 0, create 0 6 1] = Some t
     \<and> validate_snapshot t (sample_context 50) \<noteq> Ok ())"
proof -
  have fits: "context_fits 1 (sample_context 50)"
    by (simp add: context_fits_def sample_defs policy_snapshot_validate_def terms_validate_def)
  have "validate_snapshot t (sample_context 50) = Ok () \<longleftrightarrow> request_in t 0 = None"
    if played: "plays sample_start fs = Some t" for t fs
  proof -
    obtain xs outs where "run_machine (kernel_step sample_crypto) sample_start xs = (t, outs)"
      using plays_run [OF played] by blast
    from reachable_snapshots_valid [OF this [unfolded sample_start_def] fits] show ?thesis .
  qed
  then show ?thesis using sample_rejected sample_zero by metis
qed

lemma sample_submission:
  "\<exists>s t r. plays sample_start [ask 6 0, create 30 6 1, pay 30 2] = Some s \<and> request_in s 30 = Some r
     \<and> plays s [submit 30 3, say (AcceptRelationship 0) 4] = Some t"
  by (simp add: run_simps request_in_def cong: kernel_lazily)

theorem request_lifecycle_path_witness:
  "\<exists>s t r r'. plays sample_start [ask 6 0, create 30 6 1, pay 30 2] = Some s \<and> request_in s 30 = Some r
     \<and> plays s [submit 30 3, say (AcceptRelationship 0) 4] = Some t \<and> request_in t 30 = Some r' \<and> evolves r r'"
proof -
  obtain s t r where s: "plays sample_start [ask 6 0, create 30 6 1, pay 30 2] = Some s" "request_in s 30 = Some r"
    and t: "plays s [submit 30 3, say (AcceptRelationship 0) 4] = Some t" using sample_submission by blast
  then obtain xs outs where "run_machine (kernel_step sample_crypto) s xs = (t, outs)" using plays_run by blast
  from request_lifecycle_path [OF this s(2)] s t show ?thesis by blast
qed

lemma sample_to_recipient: "\<exists>t. plays sample_start to_recipient = Some t"
  by (simp add: run_simps to_recipient_def cong: kernel_lazily)

theorem kernel_never_short_of_funds_witness:
  "\<exists>t. plays sample_start to_recipient = Some t
     \<and> kernel_plan sample_crypto t (by_recipient (RejectRelationship 0), sample_context 6) \<noteq> Err PtInsufficientFunds"
proof -
  obtain t where t: "plays sample_start to_recipient = Some t" using sample_to_recipient by blast
  then obtain xs outs where "run_machine (kernel_step sample_crypto) sample_start xs = (t, outs)"
    using plays_run by blast
  from kernel_never_short_of_funds [OF this [unfolded sample_start_def]] t show ?thesis by blast
qed

lemma sample_decision:
  "\<exists>t m. plays sample_start to_recipient = Some t
     \<and> transition sample_crypto t \<lparr>kc_command = AcceptRelationship 0, kc_actor = ActRecipient 20, kc_key = 1,
         kc_idempotency_key = 1\<rparr> (sample_context 6) = Ok m"
  by (simp add: run_simps to_recipient_def cong: kernel_lazily)

theorem duties_are_separated_witness:
  "\<exists>t m. plays sample_start to_recipient = Some t
     \<and> transition sample_crypto t \<lparr>kc_command = AcceptRelationship 0, kc_actor = ActRecipient 20, kc_key = 1,
         kc_idempotency_key = 1\<rparr> (sample_context 6) = Ok m \<and> delivers_nothing t m \<and> creates_nothing t m"
  using sample_decision duties_are_separated by fastforce

lemma sample_blocked:
  "\<exists>t m. plays sample_start [say (BlockRelationship 0) 6] = Some t \<and> re_state (st_relationship (sn_state t)) = RelBlocked
     \<and> transition sample_crypto t \<lparr>kc_command = SetFollowupPolicy 0 sample_limits, kc_actor = ActRecipient 20, kc_key = 1,
         kc_idempotency_key = 1\<rparr> (sample_context 7) = Ok m"
  by (simp add: run_simps sample_limits_def cong: kernel_lazily)

theorem block_holds_witness:
  "\<exists>t m. plays sample_start [say (BlockRelationship 0) 6] = Some t
     \<and> transition sample_crypto t \<lparr>kc_command = SetFollowupPolicy 0 sample_limits, kc_actor = ActRecipient 20, kc_key = 1,
         kc_idempotency_key = 1\<rparr> (sample_context 7) = Ok m
     \<and> re_state (st_relationship (tm_next_state m)) = RelBlocked"
  using sample_blocked block_holds by fastforce

lemma sample_followup:
  "\<exists>t m. plays sample_start (to_recipient @ [say (SetFollowupPolicy 0 sample_limits) 4]) = Some t
     \<and> transition sample_crypto t \<lparr>kc_command = AdmitFollowup 30 40 3 4 5 1000 1, kc_actor = ActSender 10, kc_key = 1,
         kc_idempotency_key = 1\<rparr> (sample_context 5) = Ok m"
  by (simp add: run_simps to_recipient_def sample_limits_def cong: kernel_lazily)

theorem followups_within_policy_witness:
  "\<exists>t m. plays sample_start (to_recipient @ [say (SetFollowupPolicy 0 sample_limits) 4]) = Some t
     \<and> transition sample_crypto t \<lparr>kc_command = AdmitFollowup 30 40 3 4 5 1000 1, kc_actor = ActSender 10, kc_key = 1,
         kc_idempotency_key = 1\<rparr> (sample_context 5) = Ok m
     \<and> length (followups (tm_next_messages m) 30) = Suc (length (followups (sn_messages t) 30))"
proof -
  obtain t m where t: "plays sample_start (to_recipient @ [say (SetFollowupPolicy 0 sample_limits) 4]) = Some t"
    and m: "transition sample_crypto t \<lparr>kc_command = AdmitFollowup 30 40 3 4 5 1000 1, kc_actor = ActSender 10,
      kc_key = 1, kc_idempotency_key = 1\<rparr> (sample_context 5) = Ok m" using sample_followup by blast
  from followups_within_policy [OF m kernel_command.select_convs(1)] t m show ?thesis by blast
qed

end
