(* ===== verification/Payable.thy ===== *)
theory Payable
  imports Execution "HOL-Library.FSet"
begin

text \<open>
  Annual distributions and what they owe: the schedule of a calendar year and its payment terms
  (\<open>crates/cs-mail-finance/src/distribution.rs\<close>), the members and the rule by which they
  qualify (\<open>membership.rs\<close>), and the payable of one member (\<open>payable.rs\<close>) with its one bank
  payment.  The lemmas give the invariant of a payable and what its ledger batches move.
\<close>

section \<open>Schedules\<close>

record distribution_terms =
  di_version :: policy_version
  di_utility_charge :: money
  di_due_at :: canonical_time

definition distribution_terms_new ::
  "policy_version \<Rightarrow> money \<Rightarrow> canonical_time \<Rightarrow> (distribution_terms, program_error) res" where
  "distribution_terms_new version utility_charge due_at =
     fail_if (version = 0 \<or> utility_charge = 0) PrgInvalidPolicy
     (Ok \<lparr>di_version = version, di_utility_charge = utility_charge, di_due_at = due_at\<rparr>)"

record eligibility_policy =
  el_version :: policy_version
  el_minimum_tenure :: duration
  el_minimum_active_days :: u32

record annual_schedule =
  as_id :: annual_distribution_id
  as_start :: canonical_time
  as_cutoff :: canonical_time
  as_eligibility :: eligibility_policy
  as_payment :: distribution_terms

definition schedule_utc ::
  "u16 \<Rightarrow> eligibility_policy \<Rightarrow> distribution_terms \<Rightarrow> (annual_schedule, program_error) res" where
  "schedule_utc year eligibility payment =
     fail_if (el_minimum_active_days eligibility = 0) PrgInvalidPolicy
     (and_then (ok_or (calendar_date year 1 1) PrgInvalidPolicy) (\<lambda>start.
      and_then (ok_or (checked_add year 1) PrgInvalidPolicy) (\<lambda>following.
      and_then (ok_or (calendar_date following 1 1) PrgInvalidPolicy) (\<lambda>cutoff.
      fail_if (di_due_at payment < cutoff) PrgInvalidPolicy
      (Ok \<lparr>as_id = ucast year, as_start = start, as_cutoff = cutoff,
           as_eligibility = eligibility, as_payment = payment\<rparr>)))))"

text \<open>\<open>u16::try_from\<close>.\<close>

definition u16_of :: "u128 \<Rightarrow> u16 option" where
  "u16_of i = (if i \<le> 65535 then Some (ucast i) else None)"

definition is_calendar_year :: "annual_schedule \<Rightarrow> bool" where
  "is_calendar_year s =
     (case u16_of (as_id s) of
        None \<Rightarrow> False
      | Some year \<Rightarrow> schedule_utc year (as_eligibility s) (as_payment s) = Ok s)"

section \<open>Members\<close>

record membership_status =
  mst_opted_in :: bool
  mst_verified :: bool
  mst_suspended :: bool

record member =
  me_id :: member_id
  me_identity_digest :: bytes32
  me_joined_at :: canonical_time
  me_changes :: "(canonical_time \<times> membership_status) list"
  me_activity_days :: "u64 fset"

definition day_millis :: u64 where
  "day_millis = 86400000"

text \<open>
  \<open>BTreeSet::range\<close> panics when its bounds are out of order; a published schedule is a calendar
  year (\<open>schedule_ordered\<close> below), so they never are.
\<close>

definition member_qualifies :: "member \<Rightarrow> annual_schedule \<Rightarrow> bool" where
  "member_qualifies m s =
     ((case List.find (\<lambda>(t, _). t < as_cutoff s) (rev (me_changes m)) of
         None \<Rightarrow> False
       | Some (_, st) \<Rightarrow> mst_opted_in st \<and> mst_verified st \<and> \<not> mst_suspended st)
      \<and> (case time_checked_add (me_joined_at m) (el_minimum_tenure (as_eligibility s)) of
         None \<Rightarrow> False | Some t \<Rightarrow> t \<le> as_cutoff s)
      \<and> fcard (ffilter (\<lambda>d. as_start s div day_millis \<le> d \<and> d < as_cutoff s div day_millis)
           (me_activity_days m)) \<ge> unat (el_minimum_active_days (as_eligibility s)))"

record annual_allocation =
  aa_schedule :: annual_schedule
  aa_finalized_at :: canonical_time
  aa_members :: "member_id list"
  aa_funding :: "payment_operation_id list"
  aa_newly_eligible :: money
  aa_corporate_share :: money
  aa_member_contribution :: money
  aa_each :: money
  aa_remainder :: money

section \<open>Payables\<close>

record member_payable =
  pa_id :: allocation_id
  pa_member :: member_id
  pa_distribution :: annual_distribution_id
  pa_amount :: money
  pa_terms :: distribution_terms
  pa_scope :: financial_scope
  pa_unit :: settlement_unit
  pa_payment :: "payment_execution option"
  pa_correction :: "financial_event_id option"

definition payable_validate ::
  "crypto \<Rightarrow> member_payable \<Rightarrow> financial_scope \<Rightarrow> settlement_unit \<Rightarrow> (unit, program_error) res" where
  "payable_validate c p scope unit =
     and_then (ok_or (u16_of (pa_distribution p)) PrgInvalidPolicy) (\<lambda>year.
     and_then (ok_or (checked_add year 1) PrgInvalidPolicy) (\<lambda>following.
     and_then (ok_or (calendar_date following 1 1) PrgInvalidPolicy) (\<lambda>cutoff.
     fail_if (pa_id p = 0 \<or> pa_member p = 0 \<or> pa_scope p \<noteq> scope \<or> pa_unit p \<noteq> unit
        \<or> di_due_at (pa_terms p) < cutoff) PrgInvalidPayment
     (case pa_payment p of
        None \<Rightarrow> Ok ()
      | Some payment \<Rightarrow>
          and_then (map_err PrgPayment (px_validate c payment)) (\<lambda>_.
          let operation = px_current payment in
          fail_if (op_scope operation \<noteq> scope \<or> op_unit operation \<noteq> unit
             \<or> op_amount operation \<noteq> pa_amount p \<or> op_kind operation \<noteq> MemberPayout (pa_id p))
            PrgInvalidPayment (Ok ()))))))"

definition payable_new ::
  "crypto \<Rightarrow> allocation_id \<Rightarrow> member_id \<Rightarrow> annual_distribution_id \<Rightarrow> money \<Rightarrow> distribution_terms
     \<Rightarrow> financial_scope \<Rightarrow> settlement_unit \<Rightarrow> financial_event_id option
     \<Rightarrow> (member_payable, program_error) res" where
  "payable_new c i member distribution amount terms scope unit correction =
     (let p = \<lparr>pa_id = i, pa_member = member, pa_distribution = distribution, pa_amount = amount,
         pa_terms = terms, pa_scope = scope, pa_unit = unit, pa_payment = None,
         pa_correction = correction\<rparr>
      in and_then (payable_validate c p scope unit) (\<lambda>_. Ok p))"

definition payable_restore :: "crypto \<Rightarrow> member_payable \<Rightarrow> (member_payable, program_error) res" where
  "payable_restore c p = and_then (payable_validate c p (pa_scope p) (pa_unit p)) (\<lambda>_. Ok p)"

definition payable_rebate :: "member_payable \<Rightarrow> money" where
  "payable_rebate p = min (pa_amount p) (di_utility_charge (pa_terms p))"

definition payable_excess :: "member_payable \<Rightarrow> money" where
  "payable_excess p = pa_amount p - payable_rebate p"

definition payable_outstanding :: "member_payable \<Rightarrow> money" where
  "payable_outstanding p =
     (case pa_payment p of Some payment \<Rightarrow> if is_settled (px_state payment) then 0 else pa_amount p
      | None \<Rightarrow> pa_amount p)"

definition payable_pending :: "member_payable \<Rightarrow> payment_operation option" where
  "payable_pending p = (case pa_payment p of None \<Rightarrow> None | Some payment \<Rightarrow> px_pending payment)"

definition payout_preimage :: "financial_scope \<Rightarrow> allocation_id \<Rightarrow> nat \<Rightarrow> bytes" where
  "payout_preimage scope allocation attempt =
     str_bytes ''cs-mail/distribution-payment/v1'' @ scope_canonical_bytes scope
     @ be_bytes 16 allocation @ be_bytes 16 (of_nat attempt :: u128)"

definition payout_id :: "crypto \<Rightarrow> financial_scope \<Rightarrow> allocation_id \<Rightarrow> nat \<Rightarrow> payment_operation_id" where
  "payout_id c scope allocation attempt = high_u128 (cr_sha256 c (payout_preimage scope allocation attempt))"

definition payout_operation :: "crypto \<Rightarrow> member_payable \<Rightarrow> bytes32 \<Rightarrow> payment_operation" where
  "payout_operation c p bank_token =
     \<lparr>op_scope = pa_scope p, op_id = payout_id c (pa_scope p) (pa_id p) 0,
      op_kind = MemberPayout (pa_id p), op_amount = pa_amount p, op_unit = pa_unit p,
      op_destination = bank_token\<rparr>"

definition payable_prepare ::
  "crypto \<Rightarrow> member_payable \<Rightarrow> verified_bank_account \<Rightarrow> canonical_time
     \<Rightarrow> (member_payable \<times> payment_operation option, program_error) res" where
  "payable_prepare c p bank at =
     (let evidence = vb_evidence bank in
      fail_if (bv_scope evidence \<noteq> pa_scope p \<or> bv_unit evidence \<noteq> pa_unit p
         \<or> bv_member evidence \<noteq> pa_member p) PrgInvalidPayment
      (fail_if (at < di_due_at (pa_terms p)) PrgTooEarly
      (case pa_payment p of
         Some payment \<Rightarrow>
           fail_if (op_destination (px_current payment) \<noteq> bv_bank_token evidence) PrgInvalidPayment
           (case px_state payment of
              PayPending \<Rightarrow> Ok (p, Some (px_current payment))
            | PayFailed _ \<Rightarrow>
                and_then (map_err PrgPayment
                   (px_retry payment (payout_id c (pa_scope p) (pa_id p) (px_attempt_count payment))))
                  (\<lambda>(payment', operation). Ok (p\<lparr>pa_payment := Some payment'\<rparr>, Some operation))
            | PaySettled _ \<Rightarrow> Ok (p, None)
            | _ \<Rightarrow> Err PrgInvalidPayment)
       | None \<Rightarrow>
           if pa_amount p = 0 then Ok (p, None)
           else
             let operation = payout_operation c p (bv_bank_token evidence) in
             and_then (map_err PrgPayment (px_new operation)) (\<lambda>payment.
             Ok (p\<lparr>pa_payment := Some payment\<rparr>, Some operation)))))"

definition payable_record_receipt ::
  "crypto \<Rightarrow> member_payable \<Rightarrow> signed_payment_evidence \<Rightarrow> bytes32
     \<Rightarrow> (member_payable \<times> ledger_batch, program_error) res" where
  "payable_record_receipt c p receipt key =
     and_then (ok_or (pa_payment p) PrgInvalidPayment) (\<lambda>payment.
     and_then (map_err PrgPayment (px_record c payment receipt key)) (\<lambda>(payment', change).
     Ok (p\<lparr>pa_payment := Some payment'\<rparr>,
         case change of
           ChangeSettled \<Rightarrow> batch_transfer (MemberPayableAcc (pa_id p)) ProcessorClearing (pa_amount p) []
         | ChangeReversed \<Rightarrow> batch_transfer ProcessorClearing (MemberPayableAcc (pa_id p)) (pa_amount p) []
         | ChangeNone \<Rightarrow> [])))"

section \<open>A valid payable\<close>

definition payable_ok :: "crypto \<Rightarrow> financial_scope \<Rightarrow> settlement_unit \<Rightarrow> member_payable \<Rightarrow> bool" where
  "payable_ok c scope unit p \<longleftrightarrow> payable_validate c p scope unit = Ok ()"

lemma payable_ok_payment:
  "payable_ok c scope unit p \<longleftrightarrow>
     payable_ok c scope unit (p\<lparr>pa_payment := None\<rparr>)
     \<and> (\<forall>payment. pa_payment p = Some payment \<longrightarrow> px_inv c payment
        \<and> op_scope (px_current payment) = scope \<and> op_unit (px_current payment) = unit
        \<and> op_amount (px_current payment) = pa_amount p \<and> op_kind (px_current payment) = MemberPayout (pa_id p))"
  by (cases "pa_payment p") (auto simp: payable_ok_def payable_validate_def px_validate_iff Let_def)

lemma payable_new_Ok:
  assumes "payable_new c i member distribution amount terms scope unit correction = Ok p"
  shows "payable_ok c scope unit p" and "pa_id p = i" and "payable_outstanding p = amount" and "pa_amount p = amount"
    and "pa_member p = member" and "pa_distribution p = distribution"
  using assms by (auto simp: payable_new_def Let_def payable_ok_def payable_outstanding_def)

lemma payable_prepare_frame:
  assumes "payable_prepare c p bank at = Ok (p', operation)" and "payable_ok c scope unit p"
  shows "payable_ok c scope unit p'" and "payable_outstanding p' = payable_outstanding p" and "pa_id p' = pa_id p"
    and "pa_amount p' = pa_amount p" and "p' = p\<lparr>pa_payment := pa_payment p'\<rparr>"
proof -
  have "payable_ok c scope unit p' \<and> payable_outstanding p' = payable_outstanding p \<and> pa_id p' = pa_id p
      \<and> pa_amount p' = pa_amount p \<and> p' = p\<lparr>pa_payment := pa_payment p'\<rparr>"
  proof (cases "pa_payment p")
    case None
    show ?thesis
    proof (cases "pa_amount p = 0")
      case False
      then obtain payment where n: "px_new (payout_operation c p (bv_bank_token (vb_evidence bank))) = Ok payment"
        and p': "p' = p\<lparr>pa_payment := Some payment\<rparr>"
        using assms(1) None by (auto simp: payable_prepare_def Let_def)
      have "px_current payment = payout_operation c p (bv_bank_token (vb_evidence bank))" "px_state payment = PayPending"
        using n by (auto simp: px_new_def px_current_def px_state_def)
      moreover have "pa_scope p = scope" "pa_unit p = unit"
        using assms(2) by (auto simp: payable_ok_def payable_validate_def)
      ultimately show ?thesis
        using payable_ok_payment [of c scope unit p] payable_ok_payment [of c scope unit p'] assms(2) px_new_inv [OF n, of c] None
        by (simp add: p' payout_operation_def payable_outstanding_def)
    qed (use assms None in \<open>auto simp: payable_prepare_def Let_def\<close>)
  next
    case (Some payment)
    show ?thesis
    proof (cases "px_state payment")
      case (PayFailed e)
      then obtain payment' q where r: "px_retry payment (payout_id c (pa_scope p) (pa_id p) (px_attempt_count payment)) = Ok (payment', q)"
        and p': "p' = p\<lparr>pa_payment := Some payment'\<rparr>"
        using assms(1) Some by (auto simp: payable_prepare_def Let_def)
      have inv: "px_inv c payment" using payable_ok_payment [of c scope unit p] assms(2) Some by auto
      have "px_current payment' = q" "px_state payment' = PayPending"
        "q = (px_current payment)\<lparr>op_id := payout_id c (pa_scope p) (pa_id p) (px_attempt_count payment)\<rparr>"
        using px_retry_Ok [OF r] by (simp_all add: px_current_def px_state_def)
      then show ?thesis
        using payable_ok_payment [of c scope unit p] payable_ok_payment [of c scope unit p'] assms(2)
          px_retry_inv [OF r inv] Some PayFailed
        by (simp add: p' payable_outstanding_def)
    qed (use assms Some in \<open>auto simp: payable_prepare_def Let_def\<close>)
  qed
  then show "payable_ok c scope unit p'" "payable_outstanding p' = payable_outstanding p" "pa_id p' = pa_id p"
    "pa_amount p' = pa_amount p" "p' = p\<lparr>pa_payment := pa_payment p'\<rparr>" by auto
qed

lemma next_state_settlement:
  "next_state s e = Ok (s', change) \<Longrightarrow>
     (change = ChangeSettled \<longrightarrow> \<not> is_settled s \<and> is_settled s')
     \<and> (change = ChangeReversed \<longrightarrow> is_settled s \<and> \<not> is_settled s')
     \<and> (change = ChangeNone \<longrightarrow> is_settled s' = is_settled s)"
  by (cases s; cases "pe_outcome e") (auto simp: next_state_def Let_def)

lemma px_record_settlement:
  assumes "px_record c p receipt key = Ok (p', change)" and "px_inv c p"
  shows "change = ChangeSettled \<Longrightarrow> \<not> is_settled (px_state p) \<and> is_settled (px_state p')"
    and "change = ChangeReversed \<Longrightarrow> is_settled (px_state p) \<and> \<not> is_settled (px_state p')"
    and "change = ChangeNone \<Longrightarrow> is_settled (px_state p') = is_settled (px_state p)"
proof -
  have "(change = ChangeSettled \<longrightarrow> \<not> is_settled (px_state p) \<and> is_settled (px_state p'))
     \<and> (change = ChangeReversed \<longrightarrow> is_settled (px_state p) \<and> \<not> is_settled (px_state p'))
     \<and> (change = ChangeNone \<longrightarrow> is_settled (px_state p') = is_settled (px_state p))"
    using assms(1)
  proof (cases rule: px_record_cases)
    case (recorded n s)
    show ?thesis
    proof (cases "n + 1 = length (px_attempts p)")
      case True
      then have "px_attempts p ! n = px_latest p" "n = length (px_earlier p)" by (simp_all add: px_attempts_def)
      then have "px_state p = at_state (px_attempts p ! n)" "px_state p' = s"
        by (simp_all add: px_state_def recorded(8) px_with_attempts_def px_attempts_def)
      then show ?thesis using next_state_settlement [OF recorded(6)] by simp
    next
      case False
      then have "n < length (px_earlier p)" using recorded(2) by (simp add: px_attempts_def)
      then have "px_latest p' = px_latest p" by (simp add: recorded(8) px_with_attempts_def px_attempts_def list_update_append)
      then show ?thesis using recorded(7) False by (simp add: px_state_def)
    qed
  qed simp
  then show "change = ChangeSettled \<Longrightarrow> \<not> is_settled (px_state p) \<and> is_settled (px_state p')"
    "change = ChangeReversed \<Longrightarrow> is_settled (px_state p) \<and> \<not> is_settled (px_state p')"
    "change = ChangeNone \<Longrightarrow> is_settled (px_state p') = is_settled (px_state p)" by auto
qed

lemma payable_receipt_frame:
  assumes "payable_record_receipt c p receipt key = Ok (p', batch)" and "payable_ok c scope unit p"
  shows "payable_ok c scope unit p'" and "pa_id p' = pa_id p" and "pa_amount p' = pa_amount p"
    and "net_flow a batch = (if a = MemberPayableAcc (pa_id p) then uint (payable_outstanding p') - uint (payable_outstanding p)
       else if a = ProcessorClearing then uint (payable_outstanding p) - uint (payable_outstanding p') else 0)"
    and "is_balanced batch" and "p' = p\<lparr>pa_payment := pa_payment p'\<rparr>"
    and "\<forall>t \<in> set batch. tr_from t = ProcessorClearing
       \<or> (tr_from t = MemberPayableAcc (pa_id p) \<and> tr_amount t = payable_outstanding p)"
proof -
  obtain payment payment' change where pay: "pa_payment p = Some payment"
    and r: "px_record c payment receipt key = Ok (payment', change)"
    and p': "p' = p\<lparr>pa_payment := Some payment'\<rparr>"
    and b: "batch = (case change of
           ChangeSettled \<Rightarrow> batch_transfer (MemberPayableAcc (pa_id p)) ProcessorClearing (pa_amount p) []
         | ChangeReversed \<Rightarrow> batch_transfer ProcessorClearing (MemberPayableAcc (pa_id p)) (pa_amount p) []
         | ChangeNone \<Rightarrow> [])"
    using assms(1) by (auto simp: payable_record_receipt_def)
  have inv: "px_inv c payment" using payable_ok_payment [of c scope unit p] assms(2) pay by auto
  have cur: "px_current payment' = px_current payment"
    using px_record_frame(2) [OF r inv] by (simp add: px_current_def)
  show "payable_ok c scope unit p'"
    using payable_ok_payment [of c scope unit p] payable_ok_payment [of c scope unit p'] assms(2) px_record_inv [OF r inv] pay cur
    by (simp add: p')
  show "pa_id p' = pa_id p" "pa_amount p' = pa_amount p" "p' = p\<lparr>pa_payment := pa_payment p'\<rparr>" by (simp_all add: p')
  show "net_flow a batch = (if a = MemberPayableAcc (pa_id p) then uint (payable_outstanding p') - uint (payable_outstanding p)
       else if a = ProcessorClearing then uint (payable_outstanding p) - uint (payable_outstanding p') else 0)"
    "is_balanced batch"
    "\<forall>t \<in> set batch. tr_from t = ProcessorClearing
       \<or> (tr_from t = MemberPayableAcc (pa_id p) \<and> tr_amount t = payable_outstanding p)"
    using px_record_settlement [OF r inv]
    by (cases change; auto simp: b p' pay payable_outstanding_def batch_transfer_def)+
qed

lemma u16_of_Some: "u16_of i = Some y \<Longrightarrow> i = ucast y"
proof -
  assume "u16_of i = Some y"
  then have y: "y = ucast i" and b: "i \<le> 65535" by (simp_all add: u16_of_def split: if_splits)
  have n: "unat (65535 :: u128) = 65535" by simp
  have "unat i \<le> 65535" using b unfolding word_le_nat_alt n .
  then have "unat (ucast (ucast i :: u16) :: u128) = unat i"
    by (simp add: unsigned_ucast_eq unsigned_take_bit_eq take_bit_nat_eq_self)
  then show "i = ucast y" unfolding y by (rule word_unat_eq_iff [THEN iffD2, OF sym])
qed

section \<open>The order of a calendar year\<close>

lemma days_before_year_Suc: "1970 \<le> y \<Longrightarrow> days_before_year (Suc y) = days_before_year y + year_days y"
  by (simp add: days_before_year_def upt_Suc)

lemma days_before_year_bound: "1970 \<le> y \<Longrightarrow> days_before_year y \<le> 366 * (y - 1970)"
proof (induction y rule: dec_induct)
  case (step y)
  then show ?case using days_before_year_Suc [of y] by (auto simp: year_days_def split: if_splits)
qed (simp add: days_before_year_def)

lemma year_start:
  assumes "calendar_date y 1 1 = Some t"
  shows "unat t = days_before_year (unat y) * 86400000" and "1970 \<le> unat y" and "unat y \<le> 9999"
proof -
  have y: "1970 \<le> y" "y \<le> 9999" and t: "t = of_nat (days_before_year (unat y) * 86400000)"
    using assms by (auto simp: calendar_date_def day_number_def split: if_splits)
  show b: "1970 \<le> unat y" "unat y \<le> 9999" using y by (simp_all add: word_le_nat_alt)
  have "days_before_year (unat y) * 86400000 < 2 ^ 64"
    using days_before_year_bound [OF b(1)] b(2) by simp
  then show "unat t = days_before_year (unat y) * 86400000" using unat_of_nat [where 'a = 64, of "days_before_year (unat y) * 86400000"] unfolding t
    by (simp del: of_nat_mult)
qed

lemma schedule_ordered:
  assumes "is_calendar_year s" shows "as_start s < as_cutoff s"
proof -
  obtain y f where d: "calendar_date y 1 1 = Some (as_start s)" "checked_add y 1 = Some f" "calendar_date f 1 1 = Some (as_cutoff s)"
  proof -
    obtain y where "schedule_utc y (as_eligibility s) (as_payment s) = Ok s"
      using assms by (auto simp: is_calendar_year_def split: option.splits)
    then show ?thesis by (cases s) (auto simp: schedule_utc_def intro: that)
  qed
  have "unat f = Suc (unat y)" using checked_add_SomeD [OF d(2)] by simp
  then have "days_before_year (unat f) = days_before_year (unat y) + year_days (unat y)"
    using year_start(2) [OF d(1)] by (simp add: days_before_year_Suc)
  then show ?thesis using year_start(1) [OF d(1)] year_start(1) [OF d(3)]
    by (simp add: word_less_nat_alt year_days_def)
qed

end
