(* ===== verification/Program.thy ===== *)
theory Program
  imports Payable
begin

text \<open>
  The forfeiture program of \<open>crates/cs-mail-finance/src/program.rs\<close>: the lots contributed by
  rejected requests, the members, the annual distributions and the payables they create, over
  the program's own ledger and journal.  Every operation returns the next program and its value,
  or an error; the source changes a clone and installs it on success, so a refused operation
  leaves the program as it was.
\<close>

section \<open>Records\<close>

record journal_entry =
  je_at :: canonical_time
  je_cause :: financial_event_id
  je_batch :: ledger_batch

record program_records =
  own_funding :: "(payment_operation_id, forfeiture_lot) btmap"
  own_members :: "(member_id, member) btmap"
  own_schedules :: "(annual_distribution_id, annual_schedule) btmap"
  own_allocations :: "(annual_distribution_id, annual_allocation) btmap"
  own_payables :: "(allocation_id, member_payable) btmap"

definition records_default :: program_records where
  "records_default = \<lparr>own_funding = bt_empty, own_members = bt_empty, own_schedules = bt_empty,
     own_allocations = bt_empty, own_payables = bt_empty\<rparr>"

record program_metadata =
  gm_scope :: financial_scope
  gm_unit :: settlement_unit
  gm_revision :: u64
  gm_last_event_at :: canonical_time

record program =
  gp_scope :: financial_scope
  gp_unit :: settlement_unit
  gp_revision :: u64
  gp_complete :: bool
  gp_ledger :: ledger_state
  gp_records :: program_records
  gp_journal :: "journal_entry list"
  gp_last_event_at :: canonical_time

definition program_new :: "financial_scope \<Rightarrow> settlement_unit \<Rightarrow> program" where
  "program_new scope unit =
     \<lparr>gp_scope = scope, gp_unit = unit, gp_revision = 0, gp_complete = True,
      gp_ledger = ledger_new unit, gp_records = records_default, gp_journal = [],
      gp_last_event_at = 0\<rparr>"

definition program_metadata :: "program \<Rightarrow> program_metadata" where
  "program_metadata p =
     \<lparr>gm_scope = gp_scope p, gm_unit = gp_unit p, gm_revision = gp_revision p,
      gm_last_event_at = gp_last_event_at p\<rparr>"

definition require_complete :: "program \<Rightarrow> (unit, program_error) res" where
  "require_complete p = (if gp_complete p then Ok () else Err PrgIncompleteSnapshot)"

section \<open>Restoring a program\<close>

text \<open>The adjacent comparison \<open>windows(2)\<close> of ordered times is \<open>sorted\<close>.\<close>

primrec check_members ::
  "bytes32 list \<Rightarrow> (member_id \<times> member) list \<Rightarrow> (unit, program_error) res" where
  "check_members seen [] = Ok ()"
| "check_members seen (e # rest) =
     fail_if (fst e \<noteq> me_id (snd e) \<or> me_identity_digest (snd e) = 0
         \<or> me_identity_digest (snd e) \<in> set seen \<or> me_changes (snd e) = []
         \<or> list_ex (\<lambda>(at, _). at < me_joined_at (snd e)) (me_changes (snd e))
         \<or> \<not> sorted (map fst (me_changes (snd e)))) PrgInvalidPolicy
       (check_members (me_identity_digest (snd e) # seen) rest)"

definition lot_clearance :: "lot_lifecycle \<Rightarrow> maturity_clearance option" where
  "lot_clearance l =
     (case l of LotPending _ \<Rightarrow> None | LotCleared x \<Rightarrow> Some x | LotAssessed x _ \<Rightarrow> Some x)"

definition check_lot ::
  "program_metadata \<Rightarrow> payment_operation_id \<Rightarrow> forfeiture_lot \<Rightarrow> (unit, program_error) res" where
  "check_lot md i lot =
     (let source = lot_source lot in
      fail_if (i \<noteq> fo_id source \<or> fo_unit source \<noteq> gm_unit md
         \<or> ft_scope (fo_terms source) \<noteq> gm_scope md \<or> fo_amount source = 0) PrgInvalidPolicy
      (and_then (terms_validate (fo_terms source)) (\<lambda>_.
       fail_if (case lot_clearance (lot_lifecycle lot) of None \<Rightarrow> False
           | Some x \<Rightarrow> mc_evidence x = 0
               \<or> (case time_checked_add (fo_forfeited_at source) (ft_maturity_delay (fo_terms source)) of
                    None \<Rightarrow> True | Some at \<Rightarrow> mc_at x < at)) PrgInsufficientEvidence (Ok ()))))"

primrec check_funding ::
  "program_metadata \<Rightarrow> (payment_operation_id \<times> forfeiture_lot) list \<Rightarrow> (unit, program_error) res" where
  "check_funding md [] = Ok ()"
| "check_funding md (e # rest) =
     and_then (check_lot md (fst e) (snd e)) (\<lambda>_. check_funding md rest)"

primrec check_payables ::
  "crypto \<Rightarrow> program_metadata \<Rightarrow> ledger_view \<Rightarrow> (allocation_id \<times> member_payable) list
     \<Rightarrow> (unit, program_error) res" where
  "check_payables c md ledger [] = Ok ()"
| "check_payables c md ledger (e # rest) =
     and_then (payable_validate c (snd e) (gm_scope md) (gm_unit md)) (\<lambda>_.
     fail_if (fst e \<noteq> pa_id (snd e)
         \<or> ledger_balance ledger (MemberPayableAcc (fst e)) \<noteq> payable_outstanding (snd e)) PrgInvalidPayment
       (check_payables c md ledger rest))"

primrec check_schedules ::
  "(annual_distribution_id \<times> annual_schedule) list \<Rightarrow> (unit, program_error) res" where
  "check_schedules [] = Ok ()"
| "check_schedules (e # rest) =
     fail_if (fst e \<noteq> as_id (snd e) \<or> \<not> is_calendar_year (snd e)) PrgInvalidPolicy
       (check_schedules rest)"

definition check_allocation ::
  "annual_distribution_id \<Rightarrow> annual_allocation \<Rightarrow> (unit, program_error) res" where
  "check_allocation i a =
     fail_if (i \<noteq> as_id (aa_schedule a) \<or> \<not> is_calendar_year (aa_schedule a)
        \<or> aa_finalized_at a < as_cutoff (aa_schedule a)
        \<or> money_checked_add (aa_corporate_share a) (aa_member_contribution a) \<noteq> Some (aa_newly_eligible a)
        \<or> \<not> distinct (aa_members a) \<or> \<not> distinct (aa_funding a)) PrgInvalidPolicy
     (let count = length (aa_members a);
          total = uint (aa_each a) * int count + uint (aa_remainder a) in
      fail_if (total > u64_max \<or> (count = 0 \<and> aa_each a \<noteq> 0)
         \<or> (count > 0 \<and> uint (aa_remainder a) \<ge> int count)) PrgInvalidPolicy (Ok ()))"

primrec check_allocations ::
  "(annual_distribution_id \<times> annual_allocation) list \<Rightarrow> (unit, program_error) res" where
  "check_allocations [] = Ok ()"
| "check_allocations (e # rest) =
     and_then (check_allocation (fst e) (snd e)) (\<lambda>_. check_allocations rest)"

definition program_restore ::
  "crypto \<Rightarrow> program_metadata \<Rightarrow> program_records \<Rightarrow> ledger_view \<Rightarrow> journal_entry list
     \<Rightarrow> (program, program_error) res" where
  "program_restore c md records ledger journal =
     fail_if (lv_unit ledger \<noteq> gm_unit md) PrgInvalidPolicy
     (and_then (map_err PrgLedger (total_value ledger)) (\<lambda>total.
      fail_if (total \<noteq> 0) PrgInvalidPayment
      (and_then (check_members [] (bt_entries (own_members records))) (\<lambda>_.
       and_then (check_funding md (bt_entries (own_funding records))) (\<lambda>_.
       and_then (check_payables c md ledger (bt_entries (own_payables records))) (\<lambda>_.
       and_then (check_schedules (bt_entries (own_schedules records))) (\<lambda>_.
       and_then (check_allocations (bt_entries (own_allocations records))) (\<lambda>_.
       Ok \<lparr>gp_scope = gm_scope md, gp_unit = gm_unit md, gp_revision = gm_revision md,
          gp_complete = True, gp_ledger = \<lparr>ls_view = ledger\<rparr>, gp_records = records,
          gp_journal = journal, gp_last_event_at = gm_last_event_at md\<rparr>))))))))"

datatype program_owner =
  OwnMetadata
| OwnFunding payment_operation_id "forfeiture_lot option"
| OwnMember member_id "member option"
| OwnPayable allocation_id "member_payable option"

definition owner_records :: "program_owner \<Rightarrow> program_records" where
  "owner_records owner =
     (case owner of
        OwnFunding i (Some v) \<Rightarrow> records_default\<lparr>own_funding := bt_insert i v bt_empty\<rparr>
      | OwnMember i (Some v) \<Rightarrow> records_default\<lparr>own_members := bt_insert i v bt_empty\<rparr>
      | OwnPayable i (Some v) \<Rightarrow> records_default\<lparr>own_payables := bt_insert i v bt_empty\<rparr>
      | _ \<Rightarrow> records_default)"

definition program_restore_owner ::
  "crypto \<Rightarrow> program_metadata \<Rightarrow> program_owner \<Rightarrow> ledger_view \<Rightarrow> (program, program_error) res" where
  "program_restore_owner c md owner ledger =
     and_then (program_restore c md (owner_records owner) ledger []) (\<lambda>p. Ok (p\<lparr>gp_complete := False\<rparr>))"

record stored_program =
  sg_metadata :: program_metadata
  sg_complete :: bool
  sg_records :: program_records
  sg_ledger :: ledger_view
  sg_journal :: "journal_entry list"

definition program_store :: "program \<Rightarrow> stored_program" where
  "program_store p =
     \<lparr>sg_metadata = program_metadata p, sg_complete = gp_complete p, sg_records = gp_records p,
      sg_ledger = ls_view (gp_ledger p), sg_journal = gp_journal p\<rparr>"

definition program_load :: "crypto \<Rightarrow> stored_program \<Rightarrow> (program, program_error) res" where
  "program_load c s =
     and_then (program_restore c (sg_metadata s) (sg_records s) (sg_ledger s) (sg_journal s)) (\<lambda>p.
     Ok (p\<lparr>gp_complete := sg_complete s\<rparr>))"

section \<open>Atomic operations\<close>

definition program_atomic ::
  "program \<Rightarrow> canonical_time \<Rightarrow> (program \<Rightarrow> (program \<times> 'a, program_error) res)
     \<Rightarrow> (program \<times> 'a, program_error) res" where
  "program_atomic p at f =
     fail_if (at < gp_last_event_at p) PrgTimeRegression
     (and_then (f p) (\<lambda>(next, result).
      and_then (ok_or (checked_add (gp_revision next) 1) PrgArithmeticOverflow) (\<lambda>revision.
      Ok (next\<lparr>gp_last_event_at := at, gp_revision := revision\<rparr>, result))))"

definition program_post ::
  "program \<Rightarrow> canonical_time \<Rightarrow> financial_event_id \<Rightarrow> ledger_batch \<Rightarrow> (program, program_error) res" where
  "program_post p at cause batch =
     and_then (map_err PrgLedger (ledger_apply (gp_ledger p) (lv_revision (ls_view (gp_ledger p))) batch)) (\<lambda>l.
     Ok (p\<lparr>gp_ledger := l, gp_journal := gp_journal p @ [\<lparr>je_at = at, je_cause = cause, je_batch = batch\<rparr>]\<rparr>))"

definition put_lot :: "payment_operation_id \<Rightarrow> forfeiture_lot \<Rightarrow> program \<Rightarrow> program" where
  "put_lot i lot p = p\<lparr>gp_records := (gp_records p)\<lparr>own_funding := bt_insert i lot (own_funding (gp_records p))\<rparr>\<rparr>"

definition put_member :: "member_id \<Rightarrow> member \<Rightarrow> program \<Rightarrow> program" where
  "put_member i m p = p\<lparr>gp_records := (gp_records p)\<lparr>own_members := bt_insert i m (own_members (gp_records p))\<rparr>\<rparr>"

definition put_payable :: "allocation_id \<Rightarrow> member_payable \<Rightarrow> program \<Rightarrow> program" where
  "put_payable i x p = p\<lparr>gp_records := (gp_records p)\<lparr>own_payables := bt_insert i x (own_payables (gp_records p))\<rparr>\<rparr>"

abbreviation lots :: "program \<Rightarrow> (payment_operation_id, forfeiture_lot) btmap" where
  "lots p \<equiv> own_funding (gp_records p)"

abbreviation members :: "program \<Rightarrow> (member_id, member) btmap" where
  "members p \<equiv> own_members (gp_records p)"

abbreviation schedules :: "program \<Rightarrow> (annual_distribution_id, annual_schedule) btmap" where
  "schedules p \<equiv> own_schedules (gp_records p)"

abbreviation allocations :: "program \<Rightarrow> (annual_distribution_id, annual_allocation) btmap" where
  "allocations p \<equiv> own_allocations (gp_records p)"

abbreviation payables :: "program \<Rightarrow> (allocation_id, member_payable) btmap" where
  "payables p \<equiv> own_payables (gp_records p)"

section \<open>Contributions and their review\<close>

definition program_record_forfeiture ::
  "program \<Rightarrow> forfeiture \<Rightarrow> canonical_time \<Rightarrow> (program \<times> unit, program_error) res" where
  "program_record_forfeiture p source at =
     (case bt_get (lots p) (fo_id source) of
        Some f \<Rightarrow> if lot_source f = source then Ok (p, ()) else Err PrgDuplicateConflict
      | None \<Rightarrow>
          program_atomic p (max at (gp_last_event_at p)) (\<lambda>p.
            and_then (terms_validate (fo_terms source)) (\<lambda>_.
            fail_if (ft_scope (fo_terms source) \<noteq> gp_scope p \<or> fo_unit source \<noteq> gp_unit p
               \<or> fo_forfeited_at source > at) PrgInvalidPolicy
            (and_then (program_post p at (fo_id source)
               (batch_transfer (ProgramClearing (fo_id source)) (PendingForfeiture (fo_id source)) (fo_amount source) []))
             (\<lambda>p. Ok (put_lot (fo_id source)
                \<lparr>lot_source = source, lot_lifecycle = LotPending (fo_requires_review source)\<rparr> p, ()))))))"

definition program_set_hold ::
  "program \<Rightarrow> payment_operation_id \<Rightarrow> bool \<Rightarrow> canonical_time \<Rightarrow> (program \<times> unit, program_error) res" where
  "program_set_hold p i hold at =
     program_atomic p at (\<lambda>p.
       and_then (ok_or (bt_get (lots p) i) PrgMissingRecord) (\<lambda>f.
       and_then (lot_set_hold f hold) (\<lambda>f'. Ok (put_lot i f' p, ()))))"

definition program_clear_maturity ::
  "program \<Rightarrow> payment_operation_id \<Rightarrow> financial_event_id \<Rightarrow> canonical_time
     \<Rightarrow> (program \<times> unit, program_error) res" where
  "program_clear_maturity p i evidence at =
     program_atomic p at (\<lambda>p.
       and_then (ok_or (bt_get (lots p) i) PrgMissingRecord) (\<lambda>f.
       and_then (lot_clear f evidence at) (\<lambda>f'. Ok (put_lot i f' p, ()))))"

definition program_note_reversal ::
  "program \<Rightarrow> payment_operation_id \<Rightarrow> canonical_time \<Rightarrow> (program \<times> unit, program_error) res" where
  "program_note_reversal p i at =
     program_atomic p (max at (gp_last_event_at p)) (\<lambda>p.
       and_then (ok_or (bt_get (lots p) i) PrgMissingRecord) (\<lambda>f.
       if is_assessed (lot_lifecycle f) then Ok (p, ())
       else and_then (lot_set_hold f True) (\<lambda>f'. Ok (put_lot i f' p, ()))))"

section \<open>Members\<close>

definition program_enroll ::
  "program \<Rightarrow> member_id \<Rightarrow> bytes32 \<Rightarrow> membership_status \<Rightarrow> canonical_time
     \<Rightarrow> (program \<times> unit, program_error) res" where
  "program_enroll p i identity_digest status at =
     and_then (require_complete p) (\<lambda>_.
     program_atomic p at (\<lambda>p.
       fail_if (identity_digest = 0 \<or> bt_has (members p) i
          \<or> list_ex (\<lambda>m. me_identity_digest m = identity_digest) (bt_values (members p))) PrgDuplicateConflict
       (Ok (put_member i \<lparr>me_id = i, me_identity_digest = identity_digest, me_joined_at = at,
              me_changes = [(at, status)], me_activity_days = {||}\<rparr> p, ()))))"

definition program_set_membership ::
  "program \<Rightarrow> member_id \<Rightarrow> membership_status \<Rightarrow> canonical_time \<Rightarrow> (program \<times> unit, program_error) res" where
  "program_set_membership p i status at =
     program_atomic p at (\<lambda>p.
       and_then (ok_or (bt_get (members p) i) PrgMissingRecord) (\<lambda>m.
       Ok (put_member i (m\<lparr>me_changes := me_changes m @ [(at, status)]\<rparr>) p, ())))"

datatype intentional_activity = ActRead | ActSend | ActDecision

definition program_record_activity ::
  "program \<Rightarrow> member_id \<Rightarrow> intentional_activity \<Rightarrow> canonical_time \<Rightarrow> (program \<times> unit, program_error) res" where
  "program_record_activity p i kind at =
     program_atomic p at (\<lambda>p.
       and_then (ok_or (bt_get (members p) i) PrgMissingRecord) (\<lambda>m.
       Ok (put_member i (m\<lparr>me_activity_days := finsert (at div day_millis) (me_activity_days m)\<rparr>) p, ())))"

section \<open>Annual distributions\<close>

definition program_publish ::
  "program \<Rightarrow> annual_schedule \<Rightarrow> canonical_time \<Rightarrow> (program \<times> unit, program_error) res" where
  "program_publish p schedule at =
     and_then (require_complete p) (\<lambda>_.
     case bt_get (schedules p) (as_id schedule) of
       Some old \<Rightarrow> if old = schedule then Ok (p, ()) else Err PrgDuplicateConflict
     | None \<Rightarrow>
         program_atomic p at (\<lambda>p.
           fail_if (\<not> is_calendar_year schedule \<or> at > as_start schedule
              \<or> as_start schedule \<ge> as_cutoff schedule
              \<or> el_minimum_active_days (as_eligibility schedule) = 0
              \<or> list_ex (\<lambda>s. as_start s < as_cutoff schedule \<and> as_start schedule < as_cutoff s)
                  (bt_values (schedules p))) PrgInvalidPolicy
           (Ok (p\<lparr>gp_records := (gp_records p)\<lparr>own_schedules :=
                  bt_insert (as_id schedule) schedule (schedules p)\<rparr>\<rparr>, ()))))"

definition qualifying_members :: "program \<Rightarrow> annual_schedule \<Rightarrow> member_id list" where
  "qualifying_members p schedule =
     map me_id (filter (\<lambda>m. member_qualifies m schedule) (bt_values (members p)))"

definition eligible_lots :: "program \<Rightarrow> annual_schedule \<Rightarrow> payment_operation_id list" where
  "eligible_lots p schedule =
     map (\<lambda>f. fo_id (lot_source f)) (filter (\<lambda>f. lot_eligible_at f (as_cutoff schedule)) (bt_values (lots p)))"

text \<open>The state of the loop of \<open>assess_funding\<close>.\<close>

record assessment =
  ax_program :: program
  ax_cohorts :: "(policy_version, u16 \<times> money) btmap"
  ax_new :: money
  ax_batch :: ledger_batch

definition assess_lot ::
  "annual_distribution_id \<Rightarrow> assessment \<Rightarrow> payment_operation_id \<Rightarrow> (assessment, program_error) res" where
  "assess_lot distribution x i =
     and_then (ok_or (bt_get (lots (ax_program x)) i) PrgMissingRecord) (\<lambda>f.
     let terms = fo_terms (lot_source f); amount = fo_amount (lot_source f);
         group = (case bt_get (ax_cohorts x) (ft_policy_version terms) of
            Some g \<Rightarrow> g | None \<Rightarrow> (ft_corporate_basis_points terms, 0)) in
     fail_if (fst group \<noteq> ft_corporate_basis_points terms) PrgInvalidPolicy
     (and_then (ok_or (money_checked_add (snd group) amount) PrgArithmeticOverflow) (\<lambda>sum.
      and_then (ok_or (money_checked_add (ax_new x) amount) PrgArithmeticOverflow) (\<lambda>new.
      and_then (lot_assess f distribution) (\<lambda>f'.
      Ok (x\<lparr>ax_program := put_lot i f' (ax_program x),
            ax_cohorts := bt_insert (ft_policy_version terms) (fst group, sum) (ax_cohorts x),
            ax_new := new,
            ax_batch := batch_transfer (PendingForfeiture i) RestrictedMemberFunds amount (ax_batch x)\<rparr>))))))"

primrec assess_lots ::
  "annual_distribution_id \<Rightarrow> payment_operation_id list \<Rightarrow> assessment \<Rightarrow> (assessment, program_error) res" where
  "assess_lots distribution [] x = Ok x"
| "assess_lots distribution (i # rest) x =
     and_then (assess_lot distribution x i) (\<lambda>x'. assess_lots distribution rest x')"

primrec corporate_shares :: "(u16 \<times> money) list \<Rightarrow> money \<Rightarrow> (money, program_error) res" where
  "corporate_shares [] acc = Ok acc"
| "corporate_shares (g # rest) acc =
     and_then (ok_or (try_word (uint (snd g) * uint (fst g) div 10000)) PrgArithmeticOverflow) (\<lambda>share.
     and_then (ok_or (money_checked_add acc share) PrgArithmeticOverflow) (\<lambda>acc'.
     corporate_shares rest acc'))"

definition assess_funding ::
  "program \<Rightarrow> payment_operation_id list \<Rightarrow> annual_schedule \<Rightarrow> ledger_batch
     \<Rightarrow> (program \<times> ledger_batch \<times> money \<times> money \<times> money, program_error) res" where
  "assess_funding p funding schedule batch =
     and_then (assess_lots (as_id schedule) funding
        \<lparr>ax_program = p, ax_cohorts = bt_empty, ax_new = 0, ax_batch = batch\<rparr>) (\<lambda>x.
     and_then (corporate_shares (bt_values (ax_cohorts x)) 0) (\<lambda>corporate.
     and_then (ok_or (money_checked_sub (ax_new x) corporate) PrgArithmeticOverflow) (\<lambda>contribution.
     Ok (ax_program x, batch_transfer RestrictedMemberFunds CorporatePoolRevenue corporate (ax_batch x),
         ax_new x, corporate, contribution))))"

definition allocation_preimage ::
  "financial_scope \<Rightarrow> settlement_unit \<Rightarrow> annual_distribution_id \<Rightarrow> member_id \<Rightarrow> bytes" where
  "allocation_preimage scope unit distribution member =
     str_bytes ''cs-mail/member-allocation/v2'' @ scope_canonical_bytes scope @ be_bytes 4 unit
     @ be_bytes 16 distribution @ be_bytes 16 member"

definition allocation_id_of ::
  "crypto \<Rightarrow> financial_scope \<Rightarrow> settlement_unit \<Rightarrow> annual_distribution_id \<Rightarrow> member_id \<Rightarrow> allocation_id" where
  "allocation_id_of c scope unit distribution member =
     high_u128 (cr_sha256 c (allocation_preimage scope unit distribution member))"

primrec allocate_members ::
  "crypto \<Rightarrow> annual_schedule \<Rightarrow> money \<Rightarrow> member_id list \<Rightarrow> program \<Rightarrow> ledger_batch
     \<Rightarrow> (program \<times> ledger_batch, program_error) res" where
  "allocate_members c schedule each [] p batch = Ok (p, batch)"
| "allocate_members c schedule each (m # rest) p batch =
     (let i = allocation_id_of c (gp_scope p) (gp_unit p) (as_id schedule) m in
      fail_if (bt_has (payables p) i) PrgDuplicateConflict
      (and_then (payable_new c i m (as_id schedule) each (as_payment schedule) (gp_scope p) (gp_unit p) None) (\<lambda>x.
       allocate_members c schedule each rest (put_payable i x p)
         (batch_transfer RestrictedMemberFunds (MemberPayableAcc i) each batch))))"

definition put_allocation :: "annual_distribution_id \<Rightarrow> annual_allocation \<Rightarrow> program \<Rightarrow> program" where
  "put_allocation i a p =
     p\<lparr>gp_records := (gp_records p)\<lparr>own_allocations := bt_insert i a (allocations p)\<rparr>\<rparr>"

definition finalize_step ::
  "crypto \<Rightarrow> annual_distribution_id \<Rightarrow> canonical_time \<Rightarrow> program
     \<Rightarrow> (program \<times> annual_allocation, program_error) res" where
  "finalize_step c i at p =
     and_then (ok_or (bt_get (schedules p) i) PrgMissingRecord) (\<lambda>schedule.
     fail_if (at < as_cutoff schedule) PrgTooEarly
     (fail_if (list_ex (\<lambda>s. as_cutoff s \<le> as_start schedule \<and> \<not> bt_has (allocations p) (as_id s))
         (bt_values (schedules p))) PrgClosedPeriod
     (let ms = qualifying_members p schedule; funding = eligible_lots p schedule in
      and_then (assess_funding p funding schedule []) (\<lambda>(p1, batch, new, corporate, contribution).
      and_then (ok_or (money_checked_add (ledger_balance (ls_view (gp_ledger p1)) RestrictedMemberFunds) contribution)
         PrgArithmeticOverflow) (\<lambda>available.
      and_then (ok_or (try_word (int (length ms))) PrgArithmeticOverflow) (\<lambda>n.
      let each = if n = 0 then 0 else available div n;
          remainder = if n = 0 then available else available mod n in
      and_then (if each = 0 then Ok (p1, batch) else allocate_members c schedule each ms p1 batch) (\<lambda>(p2, batch').
      and_then (program_post p2 at (as_id schedule) batch') (\<lambda>p3.
      let result = \<lparr>aa_schedule = schedule, aa_finalized_at = at, aa_members = ms, aa_funding = funding,
             aa_newly_eligible = new, aa_corporate_share = corporate,
             aa_member_contribution = contribution, aa_each = each, aa_remainder = remainder\<rparr> in
      Ok (put_allocation i result p3, result)))))))))"

definition program_finalize ::
  "crypto \<Rightarrow> program \<Rightarrow> annual_distribution_id \<Rightarrow> canonical_time
     \<Rightarrow> (program \<times> annual_allocation, program_error) res" where
  "program_finalize c p i at =
     and_then (require_complete p) (\<lambda>_.
     case bt_get (allocations p) i of
       Some a \<Rightarrow> Ok (p, a)
     | None \<Rightarrow> program_atomic p at (finalize_step c i at))"

section \<open>Payouts\<close>

definition program_prepare_payment ::
  "crypto \<Rightarrow> program \<Rightarrow> allocation_id \<Rightarrow> verified_bank_account \<Rightarrow> canonical_time
     \<Rightarrow> (program \<times> payment_operation option, program_error) res" where
  "program_prepare_payment c p i bank at =
     program_atomic p at (\<lambda>p.
       and_then (ok_or (bt_get (payables p) i) PrgMissingRecord) (\<lambda>x.
       and_then (payable_prepare c x bank at) (\<lambda>(x', operation).
       Ok (put_payable i x' p, operation))))"

definition program_confirm_payout ::
  "crypto \<Rightarrow> program \<Rightarrow> allocation_id \<Rightarrow> signed_payment_evidence \<Rightarrow> bytes32 \<Rightarrow> canonical_time
     \<Rightarrow> (program \<times> unit, program_error) res" where
  "program_confirm_payout c p i receipt key at =
     and_then (ok_or (bt_get (payables p) i) PrgMissingRecord) (\<lambda>previous.
     and_then (payable_record_receipt c previous receipt key) (\<lambda>(next, batch).
     if next = previous then Ok (p, ())
     else program_atomic p at (\<lambda>p.
       let p1 = put_payable i next p in
       if batch \<noteq> []
       then and_then (program_post p1 at (pe_event_id (spe_evidence receipt)) batch) (\<lambda>p2. Ok (p2, ()))
       else Ok (p1, ()))))"

definition correction_preimage :: "financial_scope \<Rightarrow> settlement_unit \<Rightarrow> financial_event_id \<Rightarrow> bytes" where
  "correction_preimage scope unit event =
     str_bytes ''cs-mail/member-correction/v2'' @ scope_canonical_bytes scope @ be_bytes 4 unit
     @ be_bytes 16 event"

definition program_compensate ::
  "crypto \<Rightarrow> program \<Rightarrow> financial_event_id \<Rightarrow> member_id \<Rightarrow> annual_distribution_id \<Rightarrow> money \<Rightarrow> string
     \<Rightarrow> canonical_time \<Rightarrow> (program \<times> unit, program_error) res" where
  "program_compensate c p event member distribution amount reason at =
     and_then (require_complete p) (\<lambda>_.
     program_atomic p at (\<lambda>p.
       fail_if (event = 0 \<or> amount = 0 \<or> str_blank reason \<or> length reason > 2000
          \<or> \<not> bt_has (members p) member \<or> \<not> bt_has (allocations p) distribution) PrgInvalidPolicy
       (let i = high_u128 (cr_sha256 c (correction_preimage (gp_scope p) (gp_unit p) event)) in
        fail_if (bt_has (payables p) i) PrgDuplicateConflict
        (and_then (or_panic (bt_get (allocations p) distribution)) (\<lambda>a.
         and_then (payable_new c i member distribution amount (as_payment (aa_schedule a))
            (gp_scope p) (gp_unit p) (Some event)) (\<lambda>x.
         and_then (program_post (put_payable i x p) at event
            (batch_transfer CorporateLossClearing (MemberPayableAcc i) amount [])) (\<lambda>p'.
         Ok (p', ()))))))))"

section \<open>Commands and statements\<close>

datatype program_command =
  CmdCompensateMember financial_event_id member_id annual_distribution_id money string
| CmdEnroll member_id bytes32 membership_status
| CmdSetMembership member_id membership_status
| CmdRecordActivity member_id intentional_activity
| CmdPublishAnnualDistribution annual_schedule
| CmdHold payment_operation_id bool
| CmdClearMaturity payment_operation_id financial_event_id
| CmdFinalizeAnnualDistribution annual_distribution_id

datatype program_outcome = OutcomeRecorded | OutcomeAllocation annual_allocation

definition program_apply ::
  "crypto \<Rightarrow> program \<Rightarrow> program_command \<Rightarrow> canonical_time \<Rightarrow> (program \<times> program_outcome, program_error) res" where
  "program_apply c p command at =
     (let recorded = map_ok (\<lambda>(p', _). (p', OutcomeRecorded)) in
      case command of
        CmdCompensateMember event member distribution amount reason \<Rightarrow>
          recorded (program_compensate c p event member distribution amount reason at)
      | CmdEnroll member identity_digest status \<Rightarrow> recorded (program_enroll p member identity_digest status at)
      | CmdSetMembership member status \<Rightarrow> recorded (program_set_membership p member status at)
      | CmdRecordActivity member activity \<Rightarrow> recorded (program_record_activity p member activity at)
      | CmdPublishAnnualDistribution schedule \<Rightarrow> recorded (program_publish p schedule at)
      | CmdHold source hold \<Rightarrow> recorded (program_set_hold p source hold at)
      | CmdClearMaturity source evidence \<Rightarrow> recorded (program_clear_maturity p source evidence at)
      | CmdFinalizeAnnualDistribution i \<Rightarrow>
          map_ok (\<lambda>(p', a). (p', OutcomeAllocation a)) (program_finalize c p i at))"

record signed_program_command =
  sgc_scope :: financial_scope
  sgc_unit :: settlement_unit
  sgc_idempotency_key :: idempotency_key
  sgc_expected_revision :: u64
  sgc_command :: program_command
  sgc_signature :: bytes

text \<open>
  \<open>json\<close> is \<open>serde_json::to_vec\<close> on the tuple of the version string and the unsigned fields;
  it can fail.
\<close>

definition program_command_sign ::
  "crypto \<Rightarrow> (signed_program_command \<Rightarrow> bytes option) \<Rightarrow> financial_scope \<Rightarrow> settlement_unit
     \<Rightarrow> idempotency_key \<Rightarrow> u64 \<Rightarrow> program_command \<Rightarrow> bytes32
     \<Rightarrow> (signed_program_command, program_error) res" where
  "program_command_sign c json scope unit key revision command secret =
     (let unsigned = \<lparr>sgc_scope = scope, sgc_unit = unit, sgc_idempotency_key = key,
         sgc_expected_revision = revision, sgc_command = command, sgc_signature = []\<rparr> in
      and_then (ok_or (json unsigned) PrgInvalidPolicy) (\<lambda>bs.
      Ok (unsigned\<lparr>sgc_signature := cr_sign c secret bs\<rparr>)))"

definition program_command_verify ::
  "crypto \<Rightarrow> (signed_program_command \<Rightarrow> bytes option) \<Rightarrow> signed_program_command \<Rightarrow> bytes32
     \<Rightarrow> (unit, program_error) res" where
  "program_command_verify c json x key =
     fail_if (\<not> cr_key_parses c key) PrgInvalidPayment
     (fail_if (\<not> cr_signature_parses c (sgc_signature x)) PrgInvalidPayment
     (and_then (ok_or (json x) PrgInvalidPolicy) (\<lambda>bs.
      fail_if (\<not> cr_verify_strict c key bs (sgc_signature x)) PrgInvalidPayment (Ok ()))))"

datatype allocation_status = StAllocated | StAwaitingPayment | StConfirmed | StAwaitingReconciliation

record statement_entry =
  se_rebate_amount :: money
  se_excess_amount :: money
  se_outstanding :: money
  se_distribution :: annual_distribution_id
  se_amount :: money
  se_status :: allocation_status
  se_correction :: "financial_event_id option"

definition payable_status :: "member_payable \<Rightarrow> allocation_status" where
  "payable_status x =
     (case map_option px_state (pa_payment x) of
        None \<Rightarrow> StAllocated | Some PayPending \<Rightarrow> StAwaitingPayment
      | Some (PaySettled _) \<Rightarrow> StConfirmed | Some _ \<Rightarrow> StAwaitingReconciliation)"

definition member_statement :: "program \<Rightarrow> member_id \<Rightarrow> statement_entry list" where
  "member_statement p m =
     map (\<lambda>x. \<lparr>se_rebate_amount = payable_rebate x, se_excess_amount = payable_excess x,
            se_outstanding = payable_outstanding x, se_distribution = pa_distribution x,
            se_amount = pa_amount x, se_status = payable_status x, se_correction = pa_correction x\<rparr>)
       (filter (\<lambda>x. pa_member x = m) (bt_values (payables p)))"

end
