(* ===== verification/Program_Loops.thy ===== *)
theory Program_Loops
  imports Program
begin

text \<open>
  The loops of a finalized distribution: the assessment of the eligible lots, the corporate
  shares of their cohorts, and the payables of the qualifying members; for each loop, what it
  changes, what its ledger batch moves, and that the batch is covered.
\<close>

section \<open>Batches\<close>

lemma covered_append: "covered f (xs @ ys) \<longleftrightarrow> covered f xs \<and> covered (\<lambda>a. f a + net_flow a xs) ys"
proof (induction xs arbitrary: f)
  case (Cons t xs)
  have "(\<lambda>a. (f a + net_flow a [t]) + net_flow a xs) = (\<lambda>a. f a + net_flow a (t # xs))"
    by (simp add: fun_eq_iff)
  then show ?case using Cons by simp
qed simp

lemma covered_batch_transfer:
  "covered f (batch_transfer src dst m batch) \<longleftrightarrow>
     covered f batch \<and> (m = 0 \<or> permits_negative src \<or> uint m \<le> f src + net_flow src batch)"
  by (auto simp: batch_transfer_def covered_append)

lemma bt_sum_keys:
  "sum_list (map f (bt_values m)) = (\<Sum>k \<in> fst ` set (bt_entries m). f (the (bt_get m k)))"
proof -
  have d: "distinct (map fst (bt_entries m))" by (rule bt_distinct)
  have "sum_list (map f (bt_values m)) = sum_list (map (\<lambda>e. f (snd e)) (bt_entries m))"
    by (simp add: bt_values_def comp_def)
  also have "\<dots> = (\<Sum>e \<in> set (bt_entries m). f (snd e))"
    using d by (simp add: distinct_map sum_list_distinct_conv_sum_set)
  also have "\<dots> = (\<Sum>e \<in> set (bt_entries m). f (the (bt_get m (fst e))))"
  proof (rule sum.cong [OF refl])
    fix e assume "e \<in> set (bt_entries m)"
    then have "bt_get m (fst e) = Some (snd e)" using bt_get_Some [of m "fst e" "snd e"] by simp
    then show "f (snd e) = f (the (bt_get m (fst e)))" by simp
  qed
  also have "\<dots> = (\<Sum>k \<in> fst ` set (bt_entries m). f (the (bt_get m k)))"
    using d by (simp add: distinct_map sum.reindex comp_def)
  finally show ?thesis .
qed

section \<open>Assessment\<close>

definition lot_amount :: "program \<Rightarrow> payment_operation_id \<Rightarrow> int" where
  "lot_amount p i = (case bt_get (lots p) i of Some f \<Rightarrow> uint (fo_amount (lot_source f)) | None \<Rightarrow> 0)"

definition lot_version :: "program \<Rightarrow> payment_operation_id \<Rightarrow> policy_version" where
  "lot_version p i = (case bt_get (lots p) i of Some f \<Rightarrow> ft_policy_version (fo_terms (lot_source f)) | None \<Rightarrow> 0)"

definition lot_rate :: "program \<Rightarrow> payment_operation_id \<Rightarrow> u16" where
  "lot_rate p i = (case bt_get (lots p) i of Some f \<Rightarrow> ft_corporate_basis_points (fo_terms (lot_source f)) | None \<Rightarrow> 0)"

definition assessed :: "annual_distribution_id \<Rightarrow> forfeiture_lot \<Rightarrow> forfeiture_lot" where
  "assessed d f = (case lot_lifecycle f of LotCleared x \<Rightarrow> f\<lparr>lot_lifecycle := LotAssessed x d\<rparr> | _ \<Rightarrow> f)"

lemma assessed_source [simp]: "lot_source (assessed d f) = lot_source f"
  by (simp add: assessed_def split: lot_lifecycle.split)

definition cohort_sum :: "assessment \<Rightarrow> policy_version \<Rightarrow> int" where
  "cohort_sum x v = (case bt_get (ax_cohorts x) v of Some g \<Rightarrow> uint (snd g) | None \<Rightarrow> 0)"

lemma put_lot_simps [simp]:
  "lots (put_lot i f p) = bt_insert i f (lots p)" "payables (put_lot i f p) = payables p"
  "members (put_lot i f p) = members p" "schedules (put_lot i f p) = schedules p"
  "allocations (put_lot i f p) = allocations p" "gp_ledger (put_lot i f p) = gp_ledger p"
  "gp_scope (put_lot i f p) = gp_scope p" "gp_unit (put_lot i f p) = gp_unit p"
  "gp_journal (put_lot i f p) = gp_journal p" "gp_last_event_at (put_lot i f p) = gp_last_event_at p"
  "gp_revision (put_lot i f p) = gp_revision p" "gp_complete (put_lot i f p) = gp_complete p"
  by (simp_all add: put_lot_def)

lemma put_member_simps [simp]:
  "members (put_member i f p) = bt_insert i f (members p)" "payables (put_member i f p) = payables p"
  "lots (put_member i f p) = lots p" "schedules (put_member i f p) = schedules p"
  "allocations (put_member i f p) = allocations p" "gp_ledger (put_member i f p) = gp_ledger p"
  "gp_scope (put_member i f p) = gp_scope p" "gp_unit (put_member i f p) = gp_unit p"
  "gp_journal (put_member i f p) = gp_journal p" "gp_last_event_at (put_member i f p) = gp_last_event_at p"
  "gp_revision (put_member i f p) = gp_revision p" "gp_complete (put_member i f p) = gp_complete p"
  by (simp_all add: put_member_def)

lemma put_payable_simps [simp]:
  "payables (put_payable i f p) = bt_insert i f (payables p)" "members (put_payable i f p) = members p"
  "lots (put_payable i f p) = lots p" "schedules (put_payable i f p) = schedules p"
  "allocations (put_payable i f p) = allocations p" "gp_ledger (put_payable i f p) = gp_ledger p"
  "gp_scope (put_payable i f p) = gp_scope p" "gp_unit (put_payable i f p) = gp_unit p"
  "gp_journal (put_payable i f p) = gp_journal p" "gp_last_event_at (put_payable i f p) = gp_last_event_at p"
  "gp_revision (put_payable i f p) = gp_revision p" "gp_complete (put_payable i f p) = gp_complete p"
  by (simp_all add: put_payable_def)

lemma put_allocation_simps [simp]:
  "allocations (put_allocation i f p) = bt_insert i f (allocations p)" "members (put_allocation i f p) = members p"
  "lots (put_allocation i f p) = lots p" "schedules (put_allocation i f p) = schedules p"
  "payables (put_allocation i f p) = payables p" "gp_ledger (put_allocation i f p) = gp_ledger p"
  "gp_scope (put_allocation i f p) = gp_scope p" "gp_unit (put_allocation i f p) = gp_unit p"
  "gp_journal (put_allocation i f p) = gp_journal p" "gp_last_event_at (put_allocation i f p) = gp_last_event_at p"
  "gp_revision (put_allocation i f p) = gp_revision p" "gp_complete (put_allocation i f p) = gp_complete p"
  by (simp_all add: put_allocation_def)

text \<open>The program with other records of one kind.\<close>

definition with_lots :: "(payment_operation_id, forfeiture_lot) btmap \<Rightarrow> program \<Rightarrow> program" where
  "with_lots m p = p\<lparr>gp_records := (gp_records p)\<lparr>own_funding := m\<rparr>\<rparr>"

definition with_payables :: "(allocation_id, member_payable) btmap \<Rightarrow> program \<Rightarrow> program" where
  "with_payables m p = p\<lparr>gp_records := (gp_records p)\<lparr>own_payables := m\<rparr>\<rparr>"

lemma with_lots_simps [simp]:
  "lots (with_lots m p) = m" "with_lots m (with_lots m' p) = with_lots m p" "with_lots (lots p) p = p"
  "payables (with_lots m p) = payables p" "members (with_lots m p) = members p"
  "schedules (with_lots m p) = schedules p" "allocations (with_lots m p) = allocations p"
  "gp_ledger (with_lots m p) = gp_ledger p" "gp_scope (with_lots m p) = gp_scope p"
  "gp_unit (with_lots m p) = gp_unit p" "gp_journal (with_lots m p) = gp_journal p"
  "gp_last_event_at (with_lots m p) = gp_last_event_at p" "gp_revision (with_lots m p) = gp_revision p"
  "gp_complete (with_lots m p) = gp_complete p"
  by (simp_all add: with_lots_def)

lemma with_payables_simps [simp]:
  "payables (with_payables m p) = m" "with_payables m (with_payables m' p) = with_payables m p"
  "with_payables (payables p) p = p" "lots (with_payables m p) = lots p" "members (with_payables m p) = members p"
  "schedules (with_payables m p) = schedules p" "allocations (with_payables m p) = allocations p"
  "gp_ledger (with_payables m p) = gp_ledger p" "gp_scope (with_payables m p) = gp_scope p"
  "gp_unit (with_payables m p) = gp_unit p" "gp_journal (with_payables m p) = gp_journal p"
  "gp_last_event_at (with_payables m p) = gp_last_event_at p" "gp_revision (with_payables m p) = gp_revision p"
  "gp_complete (with_payables m p) = gp_complete p"
  by (simp_all add: with_payables_def)

lemma put_with:
  "put_lot i f p = with_lots (bt_insert i f (lots p)) p"
  "put_payable j x p = with_payables (bt_insert j x (payables p)) p"
  by (simp_all add: with_lots_def with_payables_def put_lot_def put_payable_def)

lemma assess_lot_Ok:
  assumes "assess_lot d x i = Ok x'"
  obtains f y group where "bt_get (lots (ax_program x)) i = Some f" "lot_lifecycle f = LotCleared y"
    "ax_program x' = put_lot i (assessed d f) (ax_program x)"
    "uint (ax_new x') = uint (ax_new x) + uint (fo_amount (lot_source f))"
    "ax_batch x' = batch_transfer (PendingForfeiture i) RestrictedMemberFunds (fo_amount (lot_source f)) (ax_batch x)"
    "group = (case bt_get (ax_cohorts x) (ft_policy_version (fo_terms (lot_source f))) of
        Some g \<Rightarrow> g | None \<Rightarrow> (ft_corporate_basis_points (fo_terms (lot_source f)), 0))"
    "fst group = ft_corporate_basis_points (fo_terms (lot_source f))"
    "\<exists>sum. ax_cohorts x' = bt_insert (ft_policy_version (fo_terms (lot_source f))) (fst group, sum) (ax_cohorts x)
       \<and> uint sum = uint (snd group) + uint (fo_amount (lot_source f))"
proof -
  obtain f where f: "bt_get (lots (ax_program x)) i = Some f" using assms by (auto simp: assess_lot_def)
  define group where "group = (case bt_get (ax_cohorts x) (ft_policy_version (fo_terms (lot_source f))) of
        Some g \<Rightarrow> g | None \<Rightarrow> (ft_corporate_basis_points (fo_terms (lot_source f)), 0 :: money))"
  obtain sum new f' where r: "fst group = ft_corporate_basis_points (fo_terms (lot_source f))"
    "money_checked_add (snd group) (fo_amount (lot_source f)) = Some sum"
    "money_checked_add (ax_new x) (fo_amount (lot_source f)) = Some new" "lot_assess f d = Ok f'"
    "x' = x\<lparr>ax_program := put_lot i f' (ax_program x),
            ax_cohorts := bt_insert (ft_policy_version (fo_terms (lot_source f))) (fst group, sum) (ax_cohorts x),
            ax_new := new,
            ax_batch := batch_transfer (PendingForfeiture i) RestrictedMemberFunds (fo_amount (lot_source f)) (ax_batch x)\<rparr>"
    using assms unfolding assess_lot_def f ok_or.simps and_then.simps Let_def
    unfolding group_def [symmetric] by auto
  obtain y where y: "lot_lifecycle f = LotCleared y" "f' = assessed d f"
    using r(4) by (auto simp: lot_assess_def assessed_def split: lot_lifecycle.splits)
  have u: "uint c = uint a + uint b" if "money_checked_add a b = Some c" for a b c :: money
  proof -
    have "unat c = unat a + unat b" using that by (simp add: num_simps)
    then have "int (unat c) = int (unat a) + int (unat b)" by (simp only: of_nat_add)
    then show ?thesis by simp
  qed
  show thesis
    by (rule that [OF f y(1) _ _ _ group_def r(1)]) (use r(5) u [OF r(2)] u [OF r(3)] in \<open>auto simp: y(2)\<close>)
qed

text \<open>The whole loop; \<open>ids\<close> are distinct.\<close>

lemma assess_lots_lots:
  assumes "assess_lots d ids x = Ok x'" and "distinct ids"
  shows "ax_program x' = with_lots (lots (ax_program x')) (ax_program x)"
    and "bt_get (lots (ax_program x')) i =
       (if i \<in> set ids then map_option (assessed d) (bt_get (lots (ax_program x)) i) else bt_get (lots (ax_program x)) i)"
    and "i \<in> set ids \<Longrightarrow> \<exists>f y. bt_get (lots (ax_program x)) i = Some f \<and> lot_lifecycle f = LotCleared y"
proof -
  have "ax_program x' = with_lots (lots (ax_program x')) (ax_program x)
      \<and> (\<forall>i. bt_get (lots (ax_program x')) i =
       (if i \<in> set ids then map_option (assessed d) (bt_get (lots (ax_program x)) i) else bt_get (lots (ax_program x)) i))
      \<and> (\<forall>i \<in> set ids. \<exists>f y. bt_get (lots (ax_program x)) i = Some f \<and> lot_lifecycle f = LotCleared y)"
    using assms
  proof (induction ids arbitrary: x)
    case (Cons j ids)
    then obtain x1 where a: "assess_lot d x j = Ok x1" and r: "assess_lots d ids x1 = Ok x'" by auto
    obtain f y where f: "bt_get (lots (ax_program x)) j = Some f" "lot_lifecycle f = LotCleared y"
      "ax_program x1 = put_lot j (assessed d f) (ax_program x)" using a by (rule assess_lot_Ok)
    note ih = Cons.IH [OF r]
    have "ax_program x' = with_lots (lots (ax_program x')) (ax_program x)"
      using ih Cons.prems(2) f(3) by (simp add: put_with)
    moreover have "bt_get (lots (ax_program x')) i =
       (if i \<in> set (j # ids) then map_option (assessed d) (bt_get (lots (ax_program x)) i) else bt_get (lots (ax_program x)) i)" for i
      using ih Cons.prems(2) f(1,3) by auto
    moreover have "\<exists>f y. bt_get (lots (ax_program x)) i = Some f \<and> lot_lifecycle f = LotCleared y" if "i \<in> set (j # ids)" for i
    proof (cases "i = j")
      case False
      then have "i \<in> set ids" using that by simp
      then obtain g z where "bt_get (lots (ax_program x1)) i = Some g" "lot_lifecycle g = LotCleared z"
        using ih Cons.prems(2) by auto
      then show ?thesis using False by (simp add: f(3))
    qed (use f in blast)
    ultimately show ?case by blast
  qed simp
  then show "ax_program x' = with_lots (lots (ax_program x')) (ax_program x)"
    "bt_get (lots (ax_program x')) i =
       (if i \<in> set ids then map_option (assessed d) (bt_get (lots (ax_program x)) i) else bt_get (lots (ax_program x)) i)"
    "i \<in> set ids \<Longrightarrow> \<exists>f y. bt_get (lots (ax_program x)) i = Some f \<and> lot_lifecycle f = LotCleared y" by blast+
qed

lemma lot_amount_put: "lot_amount (put_lot j (assessed d f) p) i = lot_amount p i"
  if "bt_get (lots p) j = Some f"
  using that by (simp add: lot_amount_def)

lemma lot_fields_put:
  "bt_get (lots p) j = Some f \<Longrightarrow> lot_version (put_lot j (assessed d f) p) i = lot_version p i"
  "bt_get (lots p) j = Some f \<Longrightarrow> lot_rate (put_lot j (assessed d f) p) i = lot_rate p i"
  by (simp_all add: lot_version_def lot_rate_def)

lemma lot_amount_nonneg [simp]: "0 \<le> lot_amount p i"
  by (simp add: lot_amount_def split: option.split)

lemma assess_lots_money:
  assumes "assess_lots d ids x = Ok x'" and "distinct ids"
  shows "uint (ax_new x') = uint (ax_new x) + sum_list (map (lot_amount (ax_program x)) ids)"
    and "net_flow a (ax_batch x') = net_flow a (ax_batch x)
       + (case a of PendingForfeiture i \<Rightarrow> if i \<in> set ids then - lot_amount (ax_program x) i else 0
          | RestrictedMemberFunds \<Rightarrow> sum_list (map (lot_amount (ax_program x)) ids) | _ \<Rightarrow> 0)"
    and "is_balanced (ax_batch x) \<Longrightarrow> is_balanced (ax_batch x')"
    and "covered g (ax_batch x) \<Longrightarrow>
       (\<And>i. i \<in> set ids \<Longrightarrow> lot_amount (ax_program x) i \<le> g (PendingForfeiture i) + net_flow (PendingForfeiture i) (ax_batch x))
       \<Longrightarrow> covered g (ax_batch x')"
proof -
  have "uint (ax_new x') = uint (ax_new x) + sum_list (map (lot_amount (ax_program x)) ids)
     \<and> (\<forall>a. net_flow a (ax_batch x') = net_flow a (ax_batch x)
       + (case a of PendingForfeiture i \<Rightarrow> if i \<in> set ids then - lot_amount (ax_program x) i else 0
          | RestrictedMemberFunds \<Rightarrow> sum_list (map (lot_amount (ax_program x)) ids) | _ \<Rightarrow> 0))
     \<and> (is_balanced (ax_batch x) \<longrightarrow> is_balanced (ax_batch x'))
     \<and> (covered g (ax_batch x) \<longrightarrow>
       (\<forall>i \<in> set ids. lot_amount (ax_program x) i \<le> g (PendingForfeiture i) + net_flow (PendingForfeiture i) (ax_batch x))
       \<longrightarrow> covered g (ax_batch x'))"
    using assms
  proof (induction ids arbitrary: x)
    case Nil
    then show ?case by (simp split: account.split)
  next
    case (Cons j ids)
    then obtain x1 where a: "assess_lot d x j = Ok x1" and r: "assess_lots d ids x1 = Ok x'" by auto
    obtain f where f: "bt_get (lots (ax_program x)) j = Some f"
      "ax_program x1 = put_lot j (assessed d f) (ax_program x)"
      "uint (ax_new x1) = uint (ax_new x) + uint (fo_amount (lot_source f))"
      "ax_batch x1 = batch_transfer (PendingForfeiture j) RestrictedMemberFunds (fo_amount (lot_source f)) (ax_batch x)"
      using a by (rule assess_lot_Ok)
    have am: "lot_amount (ax_program x) j = uint (fo_amount (lot_source f))" by (simp add: lot_amount_def f(1))
    have same: "lot_amount (ax_program x1) = lot_amount (ax_program x)"
      by (simp add: fun_eq_iff f(2) lot_amount_put [OF f(1)])
    have nj: "j \<notin> set ids" using Cons.prems(2) by simp
    note ih = Cons.IH [OF r, unfolded same]
    show ?case
      using ih Cons.prems(2) nj
      by (auto simp: f(3,4) am covered_batch_transfer split: account.split)
  qed
  then show "uint (ax_new x') = uint (ax_new x) + sum_list (map (lot_amount (ax_program x)) ids)"
    "net_flow a (ax_batch x') = net_flow a (ax_batch x)
       + (case a of PendingForfeiture i \<Rightarrow> if i \<in> set ids then - lot_amount (ax_program x) i else 0
          | RestrictedMemberFunds \<Rightarrow> sum_list (map (lot_amount (ax_program x)) ids) | _ \<Rightarrow> 0)"
    "is_balanced (ax_batch x) \<Longrightarrow> is_balanced (ax_batch x')"
    "covered g (ax_batch x) \<Longrightarrow>
       (\<And>i. i \<in> set ids \<Longrightarrow> lot_amount (ax_program x) i \<le> g (PendingForfeiture i) + net_flow (PendingForfeiture i) (ax_batch x))
       \<Longrightarrow> covered g (ax_batch x')" by blast+
qed

section \<open>Cohorts and corporate shares\<close>

text \<open>What the cohort table holds after the loop, from the empty table.\<close>

definition cohort_total :: "program \<Rightarrow> payment_operation_id list \<Rightarrow> policy_version \<Rightarrow> int" where
  "cohort_total p ids v = sum_list (map (lot_amount p) (filter (\<lambda>i. lot_version p i = v) ids))"

definition cohorts_of :: "program \<Rightarrow> payment_operation_id list \<Rightarrow> (policy_version, u16 \<times> money) btmap \<Rightarrow> bool" where
  "cohorts_of p ids m \<longleftrightarrow>
     (\<forall>v. case bt_get m v of
        None \<Rightarrow> v \<notin> lot_version p ` set ids
      | Some (rate, held) \<Rightarrow> v \<in> lot_version p ` set ids \<and> uint held = cohort_total p ids v
          \<and> (\<forall>i \<in> set ids. lot_version p i = v \<longrightarrow> lot_rate p i = rate))"

lemma assess_lots_cohorts:
  assumes "assess_lots d ids x = Ok x'" and "distinct (seen @ ids)"
    and "\<forall>i. lot_amount (ax_program x) i = lot_amount p i \<and> lot_version (ax_program x) i = lot_version p i
      \<and> lot_rate (ax_program x) i = lot_rate p i"
    and "cohorts_of p seen (ax_cohorts x)"
  shows "cohorts_of p (seen @ ids) (ax_cohorts x')"
  using assms
proof (induction ids arbitrary: x "seen")
  case (Cons j ids)
  then obtain x1 where a: "assess_lot d x j = Ok x1" and r: "assess_lots d ids x1 = Ok x'" by auto
  obtain f group held where f: "bt_get (lots (ax_program x)) j = Some f"
    "ax_program x1 = put_lot j (assessed d f) (ax_program x)"
    and g: "group = (case bt_get (ax_cohorts x) (ft_policy_version (fo_terms (lot_source f))) of
        Some g \<Rightarrow> g | None \<Rightarrow> (ft_corporate_basis_points (fo_terms (lot_source f)), 0))"
    "fst group = ft_corporate_basis_points (fo_terms (lot_source f))"
    "ax_cohorts x1 = bt_insert (ft_policy_version (fo_terms (lot_source f))) (fst group, held) (ax_cohorts x)"
    "uint held = uint (snd group) + uint (fo_amount (lot_source f))"
    using a by (rule assess_lot_Ok) blast
  have p: "lot_amount p j = uint (fo_amount (lot_source f))"
    "lot_version p j = ft_policy_version (fo_terms (lot_source f))"
    "lot_rate p j = ft_corporate_basis_points (fo_terms (lot_source f))"
    using Cons.prems(3) f(1) by (auto simp: lot_amount_def lot_version_def lot_rate_def dest: spec [of _ j])
  have step: "cohorts_of p (seen @ [j]) (ax_cohorts x1)"
    unfolding cohorts_of_def
  proof
    fix v
    have old: "case bt_get (ax_cohorts x) v of
        None \<Rightarrow> v \<notin> lot_version p ` set seen
      | Some (rate, held) \<Rightarrow> v \<in> lot_version p ` set seen \<and> uint held = cohort_total p seen v
          \<and> (\<forall>i \<in> set seen. lot_version p i = v \<longrightarrow> lot_rate p i = rate)"
      using Cons.prems(4) by (simp add: cohorts_of_def)
    have none: "cohort_total p seen v = 0" if "v \<notin> lot_version p ` set seen"
    proof -
      have "filter (\<lambda>i. lot_version p i = v) seen = []" using that by (auto simp: filter_empty_conv)
      then show ?thesis by (simp add: cohort_total_def)
    qed
    show "case bt_get (ax_cohorts x1) v of
        None \<Rightarrow> v \<notin> lot_version p ` set (seen @ [j])
      | Some (rate, held) \<Rightarrow> v \<in> lot_version p ` set (seen @ [j]) \<and> uint held = cohort_total p (seen @ [j]) v
          \<and> (\<forall>i \<in> set (seen @ [j]). lot_version p i = v \<longrightarrow> lot_rate p i = rate)"
    proof (cases "v = lot_version p j")
      case True
      note v = True
      show ?thesis
      proof (cases "bt_get (ax_cohorts x) v")
        case None
        then have e: "group = (lot_rate p j, 0)" and n: "v \<notin> lot_version p ` set seen"
          using g(1) old p(2,3) v by simp_all
        have "uint held = lot_amount p j" using g(4) p(1) by (simp add: e)
        moreover have "cohort_total p (seen @ [j]) v = lot_amount p j"
          using none [OF n] v by (simp add: cohort_total_def)
        moreover have "i \<notin> set seen" if "lot_version p i = v" for i using n that by blast
        ultimately show ?thesis using g(3) p(2) by (auto simp: v [symmetric] e)
      next
        case (Some h)
        then show ?thesis using old g v p by (auto simp: cohort_total_def split: prod.splits)
      qed
    next
      case False
      then show ?thesis using old g(3) p by (auto simp: cohort_total_def split: option.splits)
    qed
  qed
  have same: "\<forall>i. lot_amount (ax_program x1) i = lot_amount p i \<and> lot_version (ax_program x1) i = lot_version p i
      \<and> lot_rate (ax_program x1) i = lot_rate p i"
    using Cons.prems(3) by (simp add: f(2) lot_amount_put [OF f(1)] lot_fields_put [OF f(1)])
  show ?case using Cons.IH [OF r _ same step] Cons.prems(2) by simp
qed simp

lemma corporate_shares_Ok:
  "corporate_shares gs acc = Ok c \<Longrightarrow>
     uint c = uint acc + sum_list (map (\<lambda>g. uint (snd g) * uint (fst g) div 10000) gs)"
proof (induction gs arbitrary: acc)
  case (Cons g gs)
  then obtain share acc' where s: "try_word (uint (snd g) * uint (fst g) div 10000) = Some (share :: money)"
    and a: "money_checked_add acc share = Some acc'" and r: "corporate_shares gs acc' = Ok c" by auto
  have "uint share = uint (snd g) * uint (fst g) div 10000" using try_word_SomeD [OF s] by simp
  moreover have "uint acc' = uint acc + uint share"
  proof -
    have "unat acc' = unat acc + unat share" using a by (simp add: num_simps)
    then have "int (unat acc') = int (unat acc) + int (unat share)" by (simp only: of_nat_add)
    then show ?thesis by simp
  qed
  ultimately show ?case using Cons.IH [OF r] by simp
qed simp

text \<open>
  The corporate share of a distribution, from its lots: per policy version the rate on the sum
  of its lots, rounded down once.
\<close>

definition cohort_rate :: "program \<Rightarrow> payment_operation_id list \<Rightarrow> policy_version \<Rightarrow> int" where
  "cohort_rate p ids v = uint (lot_rate p (hd (filter (\<lambda>i. lot_version p i = v) ids)))"

definition corporate_due :: "program \<Rightarrow> payment_operation_id list \<Rightarrow> int" where
  "corporate_due p ids =
     (\<Sum>v \<in> lot_version p ` set ids. cohort_total p ids v * cohort_rate p ids v div 10000)"

lemma cohorts_of_sum:
  assumes "cohorts_of p ids m"
  shows "sum_list (map (\<lambda>g. uint (snd g) * uint (fst g) div 10000) (bt_values m)) = corporate_due p ids"
proof -
  have dom: "fst ` set (bt_entries m) = lot_version p ` set ids"
  proof -
    have "v \<in> fst ` set (bt_entries m) \<longleftrightarrow> v \<in> lot_version p ` set ids" for v
      using assms bt_keys_iff [of v m] unfolding cohorts_of_def
      by (cases "bt_get m v") (auto dest!: spec [of _ v])
    then show ?thesis by blast
  qed
  show ?thesis unfolding bt_sum_keys corporate_due_def dom
  proof (rule sum.cong [OF refl])
    fix v assume v: "v \<in> lot_version p ` set ids"
    then obtain g where g: "bt_get m v = Some g" using assms unfolding cohorts_of_def
      by (cases "bt_get m v") (auto dest: spec [of _ v])
    have f: "uint (snd g) = cohort_total p ids v" "\<forall>i \<in> set ids. lot_version p i = v \<longrightarrow> lot_rate p i = fst g"
      using assms g unfolding cohorts_of_def by (auto dest: spec [of _ v] split: prod.splits)
    have ne: "filter (\<lambda>i. lot_version p i = v) ids \<noteq> []" using v by (auto simp: filter_empty_conv)
    then have "hd (filter (\<lambda>i. lot_version p i = v) ids) \<in> set (filter (\<lambda>i. lot_version p i = v) ids)" by (rule hd_in_set)
    then have "cohort_rate p ids v = uint (fst g)" using f(2) by (simp add: cohort_rate_def)
    then show "uint (snd (the (bt_get m v))) * uint (fst (the (bt_get m v))) div 10000
        = cohort_total p ids v * cohort_rate p ids v div 10000" by (simp add: g f(1))
  qed
qed

lemma cohort_totals_sum:
  "(\<Sum>v \<in> lot_version p ` set ids. cohort_total p ids v) = sum_list (map (lot_amount p) ids)"
proof (induction ids)
  case (Cons i ids)
  have "(\<Sum>v \<in> lot_version p ` set (i # ids). cohort_total p (i # ids) v)
      = (\<Sum>v \<in> insert (lot_version p i) (lot_version p ` set ids).
          (if v = lot_version p i then lot_amount p i else 0) + cohort_total p ids v)"
    by (rule sum.cong) (auto simp: cohort_total_def)
  also have "\<dots> = lot_amount p i + (\<Sum>v \<in> insert (lot_version p i) (lot_version p ` set ids). cohort_total p ids v)"
    by (simp add: sum.distrib sum.delta)
  also have "(\<Sum>v \<in> insert (lot_version p i) (lot_version p ` set ids). cohort_total p ids v)
      = (\<Sum>v \<in> lot_version p ` set ids. cohort_total p ids v)"
  proof (rule sum.mono_neutral_right)
    show "\<forall>v \<in> insert (lot_version p i) (lot_version p ` set ids) - lot_version p ` set ids. cohort_total p ids v = 0"
    proof
      fix v assume "v \<in> insert (lot_version p i) (lot_version p ` set ids) - lot_version p ` set ids"
      then have "filter (\<lambda>i. lot_version p i = v) ids = []" by (auto simp: filter_empty_conv)
      then show "cohort_total p ids v = 0" by (simp add: cohort_total_def)
    qed
  qed auto
  finally show ?case using Cons by simp
qed simp

text \<open>With valid rates the corporate share is at most what was assessed, and not negative.\<close>

lemma corporate_due_bounds:
  assumes "\<forall>i \<in> set ids. lot_rate p i \<le> 10000"
  shows "0 \<le> corporate_due p ids" and "corporate_due p ids \<le> sum_list (map (lot_amount p) ids)"
proof -
  have n: "0 \<le> cohort_total p ids v" for v unfolding cohort_total_def
    by (rule sum_list_nonneg) auto
  have r: "0 \<le> cohort_rate p ids v \<and> (v \<in> lot_version p ` set ids \<longrightarrow> cohort_rate p ids v \<le> 10000)" for v
  proof -
    have "cohort_rate p ids v \<le> 10000" if "v \<in> lot_version p ` set ids"
    proof -
      have "filter (\<lambda>i. lot_version p i = v) ids \<noteq> []" using that by (auto simp: filter_empty_conv)
      then have "hd (filter (\<lambda>i. lot_version p i = v) ids) \<in> set ids" using hd_in_set by fastforce
      then have "lot_rate p (hd (filter (\<lambda>i. lot_version p i = v) ids)) \<le> 10000" using assms by blast
      then show ?thesis by (simp add: cohort_rate_def word_le_def)
    qed
    then show ?thesis by (simp add: cohort_rate_def)
  qed
  show "0 \<le> corporate_due p ids" unfolding corporate_due_def
    by (rule sum_nonneg) (simp add: n r pos_imp_zdiv_nonneg_iff)
  have "corporate_due p ids \<le> (\<Sum>v \<in> lot_version p ` set ids. cohort_total p ids v)"
    unfolding corporate_due_def
  proof (rule sum_mono)
    fix v assume "v \<in> lot_version p ` set ids"
    then have "cohort_total p ids v * cohort_rate p ids v \<le> cohort_total p ids v * 10000"
      using r n by (intro mult_left_mono) auto
    then have "cohort_total p ids v * cohort_rate p ids v div 10000 \<le> cohort_total p ids v * 10000 div 10000"
      by (rule zdiv_mono1) simp
    then show "cohort_total p ids v * cohort_rate p ids v div 10000 \<le> cohort_total p ids v" by simp
  qed
  then show "corporate_due p ids \<le> sum_list (map (lot_amount p) ids)" by (simp add: cohort_totals_sum)
qed

text \<open>The assessment as a whole.\<close>

lemma assess_funding_Ok:
  assumes "assess_funding p ids schedule [] = Ok (p', batch, new, corporate, contribution)" and "distinct ids"
    and rates: "\<forall>i \<in> set ids. lot_rate p i \<le> 10000"
  shows "p' = with_lots (lots p') p"
    and "bt_get (lots p') i = (if i \<in> set ids then map_option (assessed (as_id schedule)) (bt_get (lots p) i) else bt_get (lots p) i)"
    and "i \<in> set ids \<Longrightarrow> \<exists>f y. bt_get (lots p) i = Some f \<and> lot_lifecycle f = LotCleared y"
    and "uint new = sum_list (map (lot_amount p) ids)" and "uint corporate = corporate_due p ids"
    and "uint contribution = uint new - uint corporate"
    and "net_flow a batch = (case a of PendingForfeiture i \<Rightarrow> if i \<in> set ids then - lot_amount p i else 0
          | RestrictedMemberFunds \<Rightarrow> uint contribution | CorporatePoolRevenue \<Rightarrow> uint corporate | _ \<Rightarrow> 0)"
    and "is_balanced batch"
    and "(\<And>i. i \<in> set ids \<Longrightarrow> lot_amount p i \<le> g (PendingForfeiture i)) \<Longrightarrow> 0 \<le> g RestrictedMemberFunds \<Longrightarrow> covered g batch"
proof -
  let ?x = "\<lparr>ax_program = p, ax_cohorts = bt_empty, ax_new = 0, ax_batch = []\<rparr>"
  obtain x where x: "assess_lots (as_id schedule) ids ?x = Ok x"
    and c: "corporate_shares (bt_values (ax_cohorts x)) 0 = Ok corporate"
    and d: "money_checked_sub new corporate = Some contribution" and r: "p' = ax_program x" "new = ax_new x"
      "batch = batch_transfer RestrictedMemberFunds CorporatePoolRevenue corporate (ax_batch x)"
    using assms(1) by (auto simp: assess_funding_def)
  have "cohorts_of p ([] @ ids) (ax_cohorts x)"
    by (rule assess_lots_cohorts [OF x]) (use assms(2) in \<open>simp_all add: cohorts_of_def\<close>)
  then show corp: "uint corporate = corporate_due p ids"
    using corporate_shares_Ok [OF c] by (simp add: cohorts_of_sum)
  show new: "uint new = sum_list (map (lot_amount p) ids)"
    using assess_lots_money(1) [OF x assms(2)] by (simp add: r)
  have "unat new = unat corporate + unat contribution" using d by (rule money_checked_sub_SomeD)
  then have "int (unat new) = int (unat corporate) + int (unat contribution)" by (simp only: of_nat_add)
  then show con: "uint contribution = uint new - uint corporate" by simp
  show "p' = with_lots (lots p') p"
    "bt_get (lots p') i = (if i \<in> set ids then map_option (assessed (as_id schedule)) (bt_get (lots p) i) else bt_get (lots p) i)"
    "i \<in> set ids \<Longrightarrow> \<exists>f y. bt_get (lots p) i = Some f \<and> lot_lifecycle f = LotCleared y"
    using assess_lots_lots [OF x assms(2)] by (simp_all add: r(1))
  show "net_flow a batch = (case a of PendingForfeiture i \<Rightarrow> if i \<in> set ids then - lot_amount p i else 0
          | RestrictedMemberFunds \<Rightarrow> uint contribution | CorporatePoolRevenue \<Rightarrow> uint corporate | _ \<Rightarrow> 0)"
    using assess_lots_money(2) [OF x assms(2), of a] con new by (simp add: r(3) split: account.splits)
  show "is_balanced batch" using assess_lots_money(3) [OF x assms(2)] by (simp add: r(3))
  have "corporate_due p ids \<le> sum_list (map (lot_amount p) ids)" by (rule corporate_due_bounds(2) [OF rates])
  then show "(\<And>i. i \<in> set ids \<Longrightarrow> lot_amount p i \<le> g (PendingForfeiture i)) \<Longrightarrow> 0 \<le> g RestrictedMemberFunds \<Longrightarrow> covered g batch"
    using assess_lots_money(2) [OF x assms(2), of RestrictedMemberFunds] assess_lots_money(4) [OF x assms(2), of g] corp
    by (simp add: r(3) covered_batch_transfer)
qed

section \<open>The payables of a distribution\<close>

text \<open>A payable the allocation loop creates.\<close>

definition fresh_payable ::
  "crypto \<Rightarrow> program \<Rightarrow> annual_distribution_id \<Rightarrow> money \<Rightarrow> member_id list \<Rightarrow> allocation_id \<Rightarrow> member_payable \<Rightarrow> bool" where
  "fresh_payable c p d each ms j x \<longleftrightarrow>
     payable_ok c (gp_scope p) (gp_unit p) x \<and> pa_id x = j \<and> pa_amount x = each \<and> payable_outstanding x = each
     \<and> pa_correction x = None \<and> pa_distribution x = d \<and> pa_member x \<in> set ms
     \<and> j = allocation_id_of c (gp_scope p) (gp_unit p) d (pa_member x)"

lemma fresh_payable_frame [simp]: "fresh_payable c (put_payable i y p) = fresh_payable c p"
  by (simp add: fresh_payable_def fun_eq_iff)

lemma allocate_members_Cons:
  assumes "allocate_members c s each (m # ms) p batch = Ok (p', batch')"
  obtains i x where "bt_get (payables p) i = None" "fresh_payable c p (as_id s) each [m] i x" "pa_member x = m"
    "allocate_members c s each ms (put_payable i x p)
       (batch_transfer RestrictedMemberFunds (MemberPayableAcc i) each batch) = Ok (p', batch')"
proof -
  let ?i = "allocation_id_of c (gp_scope p) (gp_unit p) (as_id s) m"
  obtain x where x: "payable_new c ?i m (as_id s) each (as_payment s) (gp_scope p) (gp_unit p) None = Ok x"
    "bt_get (payables p) ?i = None"
    and r: "allocate_members c s each ms (put_payable ?i x p)
       (batch_transfer RestrictedMemberFunds (MemberPayableAcc ?i) each batch) = Ok (p', batch')"
    using assms by (auto simp: Let_def bt_has_def split: option.splits)
  have "pa_correction x = None" using x(1) by (auto simp: payable_new_def Let_def)
  then have "fresh_payable c p (as_id s) each [m] ?i x" "pa_member x = m"
    using payable_new_Ok [OF x(1)] by (simp_all add: fresh_payable_def)
  then show thesis by (rule that [OF x(2) _ _ r])
qed

lemma allocate_members_payables:
  assumes "allocate_members c s each ms p batch = Ok (p', batch')"
  shows "p' = with_payables (payables p') p"
    and "bt_get (payables p) j = Some x \<Longrightarrow> bt_get (payables p') j = Some x"
    and "bt_get (payables p) j = None \<Longrightarrow> bt_get (payables p') j = Some x \<Longrightarrow> fresh_payable c p (as_id s) each ms j x"
    and "m \<in> set ms \<Longrightarrow> \<exists>x. bt_get (payables p') (allocation_id_of c (gp_scope p) (gp_unit p) (as_id s) m) = Some x
       \<and> pa_member x = m \<and> pa_amount x = each \<and> pa_distribution x = as_id s \<and> pa_correction x = None"
proof -
  have "p' = with_payables (payables p') p
     \<and> (\<forall>j x. bt_get (payables p) j = Some x \<longrightarrow> bt_get (payables p') j = Some x)
     \<and> (\<forall>j x. bt_get (payables p) j = None \<longrightarrow> bt_get (payables p') j = Some x \<longrightarrow> fresh_payable c p (as_id s) each ms j x)
     \<and> (\<forall>m \<in> set ms. \<exists>x. bt_get (payables p') (allocation_id_of c (gp_scope p) (gp_unit p) (as_id s) m) = Some x
       \<and> pa_member x = m \<and> pa_amount x = each \<and> pa_distribution x = as_id s \<and> pa_correction x = None)"
    using assms
  proof (induction ms arbitrary: p batch)
    case (Cons m ms)
    obtain i y where i: "bt_get (payables p) i = None" and y: "fresh_payable c p (as_id s) each [m] i y" "pa_member y = m"
      and r: "allocate_members c s each ms (put_payable i y p)
       (batch_transfer RestrictedMemberFunds (MemberPayableAcc i) each batch) = Ok (p', batch')"
      using Cons.prems by (rule allocate_members_Cons)
    note ih = Cons.IH [OF r]
    have kept: "bt_get (payables p') i = Some y" using ih by simp
    have "p' = with_payables (payables p') p" using ih by (simp add: put_with)
    moreover have "bt_get (payables p') j = Some x" if "bt_get (payables p) j = Some x" for j x
    proof -
      have "j \<noteq> i" using that i by auto
      then show ?thesis using ih that by simp
    qed
    moreover have "fresh_payable c p (as_id s) each (m # ms) j x"
      if "bt_get (payables p) j = None" "bt_get (payables p') j = Some x" for j x
    proof (cases "j = i")
      case True
      then show ?thesis using kept that(2) y by (auto simp: fresh_payable_def)
    next
      case False
      then have "fresh_payable c p (as_id s) each ms j x" using ih that by simp
      then show ?thesis by (auto simp: fresh_payable_def)
    qed
    moreover have "\<exists>x. bt_get (payables p') (allocation_id_of c (gp_scope p) (gp_unit p) (as_id s) n) = Some x
       \<and> pa_member x = n \<and> pa_amount x = each \<and> pa_distribution x = as_id s \<and> pa_correction x = None"
      if "n \<in> set (m # ms)" for n
    proof (cases "n \<in> set ms")
      case True
      then show ?thesis using ih by simp
    next
      case False
      then have "n = m" using that by simp
      then show ?thesis using kept y by (auto simp: fresh_payable_def)
    qed
    ultimately show ?case by blast
  qed simp
  then show "p' = with_payables (payables p') p"
    "bt_get (payables p) j = Some x \<Longrightarrow> bt_get (payables p') j = Some x"
    "bt_get (payables p) j = None \<Longrightarrow> bt_get (payables p') j = Some x \<Longrightarrow> fresh_payable c p (as_id s) each ms j x"
    "m \<in> set ms \<Longrightarrow> \<exists>x. bt_get (payables p') (allocation_id_of c (gp_scope p) (gp_unit p) (as_id s) m) = Some x
       \<and> pa_member x = m \<and> pa_amount x = each \<and> pa_distribution x = as_id s \<and> pa_correction x = None"
    by blast+
qed

text \<open>What one payable account owes.\<close>

definition owed_in :: "(allocation_id, member_payable) btmap \<Rightarrow> allocation_id \<Rightarrow> int" where
  "owed_in m i = (case bt_get m i of Some x \<Rightarrow> uint (payable_outstanding x) | None \<Rightarrow> 0)"

lemma owed_in_simps [simp]:
  "owed_in bt_empty i = 0"
  "owed_in (bt_insert k x m) i = (if i = k then uint (payable_outstanding x) else owed_in m i)"
  by (simp_all add: owed_in_def)

lemma allocate_members_money:
  assumes "allocate_members c s each ms p batch = Ok (p', batch')"
  shows "net_flow a batch' = net_flow a batch
       + (case a of RestrictedMemberFunds \<Rightarrow> - (uint each * int (length ms))
          | MemberPayableAcc j \<Rightarrow> owed_in (payables p') j - owed_in (payables p) j | _ \<Rightarrow> 0)"
    and "is_balanced batch \<Longrightarrow> is_balanced batch'"
    and "covered g batch \<Longrightarrow> uint each * int (length ms) \<le> g RestrictedMemberFunds + net_flow RestrictedMemberFunds batch
       \<Longrightarrow> covered g batch'"
    and "(\<And>x. pa_correction x = None \<Longrightarrow> payable_outstanding x = pa_amount x \<Longrightarrow> f x = (0::int)) \<Longrightarrow>
       sum_list (map f (bt_values (payables p'))) = sum_list (map f (bt_values (payables p)))"
proof -
  have "(\<forall>a. net_flow a batch' = net_flow a batch
       + (case a of RestrictedMemberFunds \<Rightarrow> - (uint each * int (length ms))
          | MemberPayableAcc j \<Rightarrow> owed_in (payables p') j - owed_in (payables p) j | _ \<Rightarrow> 0))
     \<and> (is_balanced batch \<longrightarrow> is_balanced batch')
     \<and> (covered g batch \<longrightarrow> uint each * int (length ms) \<le> g RestrictedMemberFunds + net_flow RestrictedMemberFunds batch
       \<longrightarrow> covered g batch')
     \<and> ((\<forall>x. pa_correction x = None \<longrightarrow> payable_outstanding x = pa_amount x \<longrightarrow> f x = 0) \<longrightarrow>
       sum_list (map f (bt_values (payables p'))) = sum_list (map f (bt_values (payables p))))"
    using assms
  proof (induction ms arbitrary: p batch)
    case Nil
    then show ?case by (simp split: account.split)
  next
    case (Cons m ms)
    obtain i y where i: "bt_get (payables p) i = None" and y: "fresh_payable c p (as_id s) each [m] i y"
      and r: "allocate_members c s each ms (put_payable i y p)
       (batch_transfer RestrictedMemberFunds (MemberPayableAcc i) each batch) = Ok (p', batch')"
      using Cons.prems by (rule allocate_members_Cons)
    note ih = Cons.IH [OF r]
    have out: "payable_outstanding y = each" "pa_amount y = each" "pa_correction y = None"
      using y by (simp_all add: fresh_payable_def)
    have none: "owed_in (payables p) i = 0" by (simp add: owed_in_def i)
    have e: "uint each * int (length (m # ms)) = uint each + uint each * int (length ms)"
      by (simp add: algebra_simps)
    have nn: "0 \<le> uint each * int (length ms)" by simp
    have "net_flow a batch' = net_flow a batch
       + (case a of RestrictedMemberFunds \<Rightarrow> - (uint each * int (length (m # ms)))
          | MemberPayableAcc j \<Rightarrow> owed_in (payables p') j - owed_in (payables p) j | _ \<Rightarrow> 0)" for a
      using ih [THEN conjunct1, rule_format, of a] out none unfolding e by (auto split: account.splits)
    moreover have "is_balanced batch \<longrightarrow> is_balanced batch'" using ih by simp
    moreover have "covered g batch \<longrightarrow> uint each * int (length (m # ms)) \<le> g RestrictedMemberFunds + net_flow RestrictedMemberFunds batch
       \<longrightarrow> covered g batch'"
    proof (intro impI)
      assume "covered g batch" and
        le: "uint each * int (length (m # ms)) \<le> g RestrictedMemberFunds + net_flow RestrictedMemberFunds batch"
      moreover have "uint each \<le> g RestrictedMemberFunds + net_flow RestrictedMemberFunds batch"
        using le nn unfolding e by linarith
      ultimately show "covered g batch'" using ih unfolding e by (simp add: covered_batch_transfer)
    qed
    moreover have "(\<forall>x. pa_correction x = None \<longrightarrow> payable_outstanding x = pa_amount x \<longrightarrow> f x = 0) \<longrightarrow>
       sum_list (map f (bt_values (payables p'))) = sum_list (map f (bt_values (payables p)))"
      using ih out by (simp add: bt_sum_map_insert i)
    ultimately show ?case by blast
  qed
  then show "net_flow a batch' = net_flow a batch
       + (case a of RestrictedMemberFunds \<Rightarrow> - (uint each * int (length ms))
          | MemberPayableAcc j \<Rightarrow> owed_in (payables p') j - owed_in (payables p) j | _ \<Rightarrow> 0)"
    "is_balanced batch \<Longrightarrow> is_balanced batch'"
    "covered g batch \<Longrightarrow> uint each * int (length ms) \<le> g RestrictedMemberFunds + net_flow RestrictedMemberFunds batch
       \<Longrightarrow> covered g batch'"
    "(\<And>x. pa_correction x = None \<Longrightarrow> payable_outstanding x = pa_amount x \<Longrightarrow> f x = (0::int)) \<Longrightarrow>
       sum_list (map f (bt_values (payables p'))) = sum_list (map f (bt_values (payables p)))"
    by blast+
qed

end
