(* ===== verification/Program_Books.thy ===== *)
theory Program_Books
  imports Program_Loops
begin

text \<open>
  The accounts of the forfeiture program: what every account of its ledger must hold, read from
  its records alone, and the invariant under which a program can be stored and restored.  Every
  operation of \<open>crates/cs-mail-finance/src/program.rs\<close> keeps both.
\<close>

section \<open>The books\<close>

definition pending_amount :: "program \<Rightarrow> payment_operation_id \<Rightarrow> int" where
  "pending_amount p i =
     (case bt_get (lots p) i of
        Some f \<Rightarrow> if is_assessed (lot_lifecycle f) then 0 else uint (fo_amount (lot_source f)) | None \<Rightarrow> 0)"

definition paid_out :: "member_payable \<Rightarrow> int" where
  "paid_out x = uint (pa_amount x) - uint (payable_outstanding x)"

definition loss_of :: "member_payable \<Rightarrow> int" where
  "loss_of x = (if pa_correction x = None then 0 else uint (pa_amount x))"

definition carried :: "annual_allocation \<Rightarrow> int" where
  "carried a = uint (aa_member_contribution a) - uint (aa_each a) * int (length (aa_members a))"

definition books :: "program \<Rightarrow> account \<Rightarrow> int" where
  "books p a =
     (case a of
        ProgramClearing i \<Rightarrow> - lot_amount p i
      | PendingForfeiture i \<Rightarrow> pending_amount p i
      | MemberPayableAcc i \<Rightarrow> owed_in (payables p) i
      | RestrictedMemberFunds \<Rightarrow> sum_list (map carried (bt_values (allocations p)))
      | CorporatePoolRevenue \<Rightarrow> sum_list (map (\<lambda>x. uint (aa_corporate_share x)) (bt_values (allocations p)))
      | CorporateLossClearing \<Rightarrow> - sum_list (map loss_of (bt_values (payables p)))
      | ProcessorClearing \<Rightarrow> sum_list (map paid_out (bt_values (payables p)))
      | _ \<Rightarrow> 0)"

definition books_ok :: "program \<Rightarrow> bool" where
  "books_ok p \<longleftrightarrow>
     total_value (ls_view (gp_ledger p)) = Ok 0 \<and> lv_unit (ls_view (gp_ledger p)) = gp_unit p
     \<and> (\<forall>a. signed_balance (ls_view (gp_ledger p)) a = books p a)
     \<and> (\<forall>a. sum_list (map (\<lambda>e. net_flow a (je_batch e)) (gp_journal p)) = books p a)"

lemma books_cong:
  "gp_records p' = gp_records p \<Longrightarrow> books p' = books p"
  by (rule ext) (simp add: books_def lot_amount_def pending_amount_def split: account.split)

lemma pending_amount_nonneg [simp]: "0 \<le> pending_amount p i"
  by (simp add: pending_amount_def split: option.split)

text \<open>A posted batch keeps the books when it moves what the records say.\<close>

lemma program_post_Ok:
  assumes "program_post p at cause batch = Ok p'"
  shows "p' = p\<lparr>gp_ledger := gp_ledger p', gp_journal := gp_journal p @ [\<lparr>je_at = at, je_cause = cause, je_batch = batch\<rparr>]\<rparr>"
    and "total_value (ls_view (gp_ledger p')) = Ok 0"
    and "lv_unit (ls_view (gp_ledger p')) = lv_unit (ls_view (gp_ledger p))"
    and "signed_balance (ls_view (gp_ledger p')) a = signed_balance (ls_view (gp_ledger p)) a + net_flow a batch"
    and "gp_records p' = gp_records p" "gp_unit p' = gp_unit p" "gp_scope p' = gp_scope p"
      "gp_last_event_at p' = gp_last_event_at p" "gp_complete p' = gp_complete p" "gp_revision p' = gp_revision p"
proof -
  obtain l where l: "ledger_apply (gp_ledger p) (lv_revision (ls_view (gp_ledger p))) batch = Ok l"
    and p': "p' = p\<lparr>gp_ledger := l, gp_journal := gp_journal p @ [\<lparr>je_at = at, je_cause = cause, je_batch = batch\<rparr>]\<rparr>"
    using assms by (auto simp: program_post_def)
  then have v: "view_apply (ls_view (gp_ledger p)) batch = Ok (ls_view l)" by (simp add: ledger_apply_Ok)
  then obtain m where "total_value (ls_view l) = Ok m" by (auto simp: view_apply_def Let_def)
  then show "total_value (ls_view (gp_ledger p')) = Ok 0" using total_value_Ok by (auto simp: p')
  show "lv_unit (ls_view (gp_ledger p')) = lv_unit (ls_view (gp_ledger p))"
    "signed_balance (ls_view (gp_ledger p')) a = signed_balance (ls_view (gp_ledger p)) a + net_flow a batch"
    using view_apply_Ok(5,6) [OF v] by (simp_all add: p')
  show "p' = p\<lparr>gp_ledger := gp_ledger p', gp_journal := gp_journal p @ [\<lparr>je_at = at, je_cause = cause, je_batch = batch\<rparr>]\<rparr>"
    "gp_records p' = gp_records p" "gp_unit p' = gp_unit p" "gp_scope p' = gp_scope p"
    "gp_last_event_at p' = gp_last_event_at p" "gp_complete p' = gp_complete p" "gp_revision p' = gp_revision p"
    by (simp_all add: p')
qed

text \<open>\<open>p\<close> is the program before, \<open>q\<close> the one whose records have changed and whose batch is posted.\<close>

lemma post_keeps_books:
  assumes "program_post q at cause batch = Ok p'" and "books_ok p"
    and same: "gp_ledger q = gp_ledger p" "gp_journal q = gp_journal p" "gp_unit q = gp_unit p"
    and r: "gp_records p'' = gp_records r" "gp_ledger p'' = gp_ledger p'" "gp_journal p'' = gp_journal p'" "gp_unit p'' = gp_unit p'"
    and flow: "\<And>a. net_flow a batch = books r a - books p a"
  shows "books_ok p''"
proof -
  note post = program_post_Ok [OF assms(1)]
  have j: "gp_journal p' = gp_journal q @ [\<lparr>je_at = at, je_cause = cause, je_batch = batch\<rparr>]"
    by (subst post(1)) simp
  have b: "books p'' = books r" by (rule books_cong [OF r(1)])
  show ?thesis
    using assms(2) post(2,3,4,6) flow by (simp add: books_ok_def b r j same)
qed

lemma same_books:
  assumes "books_ok p" and "gp_ledger q = gp_ledger p" "gp_journal q = gp_journal p" "gp_unit q = gp_unit p"
    and "\<And>a. books q a = books p a"
  shows "books_ok q"
  using assms by (simp add: books_ok_def)

lemma program_new_books: "books_ok (program_new scope unit)"
proof -
  have "total_value (ls_view (ledger_new unit)) = Ok 0"
    by (simp add: ledger_new_def view_from_balances_def total_value_def)
  moreover have "books (program_new scope unit) a = 0" for a
    by (simp add: books_def program_new_def records_default_def lot_amount_def pending_amount_def split: account.split)
  ultimately show ?thesis
    by (simp add: books_ok_def program_new_def) (simp add: ledger_new_def view_from_balances_def)
qed

section \<open>Valid records\<close>

definition lot_ok :: "financial_scope \<Rightarrow> settlement_unit \<Rightarrow> payment_operation_id \<Rightarrow> forfeiture_lot \<Rightarrow> bool" where
  "lot_ok scope unit i f \<longleftrightarrow>
     i = fo_id (lot_source f) \<and> fo_unit (lot_source f) = unit \<and> ft_scope (fo_terms (lot_source f)) = scope
     \<and> terms_validate (fo_terms (lot_source f)) = Ok ()
     \<and> (case lot_clearance (lot_lifecycle f) of None \<Rightarrow> True
        | Some x \<Rightarrow> mc_evidence x \<noteq> 0
            \<and> (case time_checked_add (fo_forfeited_at (lot_source f)) (ft_maturity_delay (fo_terms (lot_source f))) of
                 None \<Rightarrow> False | Some at \<Rightarrow> at \<le> mc_at x))"

definition member_ok :: "canonical_time \<Rightarrow> member_id \<Rightarrow> member \<Rightarrow> bool" where
  "member_ok now i m \<longleftrightarrow>
     i = me_id m \<and> me_identity_digest m \<noteq> 0 \<and> me_changes m \<noteq> []
     \<and> (\<forall>(at, st) \<in> set (me_changes m). me_joined_at m \<le> at \<and> at \<le> now) \<and> sorted (map fst (me_changes m))"

definition records_ok :: "crypto \<Rightarrow> canonical_time \<Rightarrow> program \<Rightarrow> bool" where
  "records_ok c now p \<longleftrightarrow>
     (\<forall>i f. bt_get (lots p) i = Some f \<longrightarrow> lot_ok (gp_scope p) (gp_unit p) i f)
     \<and> (\<forall>i m. bt_get (members p) i = Some m \<longrightarrow> member_ok now i m)
     \<and> (\<forall>i j m n. bt_get (members p) i = Some m \<longrightarrow> bt_get (members p) j = Some n \<longrightarrow>
          me_identity_digest m = me_identity_digest n \<longrightarrow> i = j)
     \<and> (\<forall>i x. bt_get (payables p) i = Some x \<longrightarrow> pa_id x = i \<and> payable_ok c (gp_scope p) (gp_unit p) x)
     \<and> (\<forall>i s. bt_get (schedules p) i = Some s \<longrightarrow> as_id s = i \<and> is_calendar_year s)
     \<and> (\<forall>i a. bt_get (allocations p) i = Some a \<longrightarrow> check_allocation i a = Ok ())"

definition program_inv :: "crypto \<Rightarrow> program \<Rightarrow> bool" where
  "program_inv c p \<longleftrightarrow> books_ok p \<and> records_ok c (gp_last_event_at p) p"

lemma member_ok_later: "member_ok now i m \<Longrightarrow> now \<le> later \<Longrightarrow> member_ok later i m"
  by (force simp: member_ok_def)

lemma records_ok_later: "records_ok c now p \<Longrightarrow> now \<le> later \<Longrightarrow> records_ok c later p"
  unfolding records_ok_def using member_ok_later by blast

lemma records_ok_cong:
  "gp_records q = gp_records p \<Longrightarrow> gp_scope q = gp_scope p \<Longrightarrow> gp_unit q = gp_unit p \<Longrightarrow>
     records_ok c now q \<longleftrightarrow> records_ok c now p"
  by (simp add: records_ok_def)

text \<open>One record at a time.\<close>

lemma records_ok_put_lot:
  "records_ok c now p \<Longrightarrow> lot_ok (gp_scope p) (gp_unit p) i f \<Longrightarrow> records_ok c now (put_lot i f p)"
  by (simp add: records_ok_def)

lemma records_ok_put_payable:
  "records_ok c now p \<Longrightarrow> pa_id x = i \<Longrightarrow> payable_ok c (gp_scope p) (gp_unit p) x \<Longrightarrow>
     records_ok c now (put_payable i x p)"
  by (simp add: records_ok_def)

lemma records_ok_put_allocation:
  "records_ok c now p \<Longrightarrow> check_allocation i a = Ok () \<Longrightarrow> records_ok c now (put_allocation i a p)"
  by (simp add: records_ok_def)

lemma records_ok_put_member:
  assumes "records_ok c now p" and "member_ok now i m"
    and "\<And>j n. j \<noteq> i \<Longrightarrow> bt_get (members p) j = Some n \<Longrightarrow> me_identity_digest n \<noteq> me_identity_digest m"
  shows "records_ok c now (put_member i m p)"
  using assms unfolding records_ok_def by simp metis

section \<open>Atomic operations\<close>

lemma program_atomic_Ok:
  assumes "program_atomic p at f = Ok (p', r)"
  obtains q revision where "gp_last_event_at p \<le> at" "f p = Ok (q, r)" "checked_add (gp_revision q) 1 = Some revision"
    "p' = q\<lparr>gp_last_event_at := at, gp_revision := revision\<rparr>"
  using assms by (auto simp: program_atomic_def)

lemma program_atomic_inv:
  assumes "program_atomic p at f = Ok (p', r)" and "program_inv c p"
    and "\<And>q. f p = Ok (q, r) \<Longrightarrow> books_ok p \<Longrightarrow> records_ok c at p \<Longrightarrow> books_ok q \<and> records_ok c at q"
  shows "program_inv c p'"
proof -
  obtain q revision where q: "gp_last_event_at p \<le> at" "f p = Ok (q, r)"
    "p' = q\<lparr>gp_last_event_at := at, gp_revision := revision\<rparr>"
    using assms(1) by (rule program_atomic_Ok)
  have "books_ok p" "records_ok c at p"
    using assms(2) q(1) by (auto simp: program_inv_def intro: records_ok_later)
  then have "books_ok q \<and> records_ok c at q" by (rule assms(3) [OF q(2)])
  then show ?thesis
    using books_cong [of p' q] by (simp add: program_inv_def q(3) books_ok_def records_ok_def)
qed

section \<open>Every operation keeps the invariant\<close>

lemma books_put_lot:
  assumes "\<And>j. lot_amount (put_lot i f p) j = lot_amount p j" and "\<And>j. pending_amount (put_lot i f p) j = pending_amount p j"
  shows "books (put_lot i f p) a = books p a"
  using assms by (simp add: books_def split: account.split)

lemma put_lot_same_money:
  assumes "bt_get (lots p) i = Some f" and "lot_source g = lot_source f"
    and "is_assessed (lot_lifecycle g) = is_assessed (lot_lifecycle f)"
  shows "books (put_lot i g p) a = books p a"
  by (rule books_put_lot) (use assms in \<open>auto simp: lot_amount_def pending_amount_def split: option.split\<close>)

lemma lot_ok_pending:
  "lot_ok scope unit i f \<Longrightarrow> lot_ok scope unit i (f\<lparr>lot_lifecycle := LotPending held\<rparr>)"
  by (simp add: lot_ok_def lot_clearance_def)

lemma lot_ok_clear:
  assumes "lot_ok scope unit i f" and "lot_clear f evidence at = Ok f'"
  shows "lot_ok scope unit i f'" and "lot_source f' = lot_source f" and "is_assessed (lot_lifecycle f') = is_assessed (lot_lifecycle f)"
  using assms by (auto simp: lot_ok_def lot_clear_def lot_clearance_def not_less split: option.splits)

lemma lot_ok_assessed:
  "lot_ok scope unit i f \<Longrightarrow> lot_ok scope unit i (assessed d f)"
  by (auto simp: lot_ok_def assessed_def lot_clearance_def split: lot_lifecycle.splits)

lemma books_put_new_lot:
  assumes "bt_get (lots p) i = None" and "\<not> is_assessed (lot_lifecycle f)"
  shows "books (put_lot i f p) a = books p a
     + (case a of ProgramClearing j \<Rightarrow> if j = i then - uint (fo_amount (lot_source f)) else 0
        | PendingForfeiture j \<Rightarrow> if j = i then uint (fo_amount (lot_source f)) else 0 | _ \<Rightarrow> 0)"
  using assms by (simp add: books_def lot_amount_def pending_amount_def split: account.split)

lemma record_forfeiture_inv:
  assumes "program_record_forfeiture p source at = Ok (p', u)" and "program_inv c p"
  shows "program_inv c p'"
proof (cases "bt_get (lots p) (fo_id source)")
  case (Some f)
  then show ?thesis using assms by (auto simp: program_record_forfeiture_def split: if_splits)
next
  case None
  let ?i = "fo_id source" and ?f = "\<lparr>lot_source = source, lot_lifecycle = LotPending (fo_requires_review source)\<rparr>"
  show ?thesis
    using assms(1) unfolding program_record_forfeiture_def None option.case
  proof (rule program_atomic_inv [OF _ assms(2)])
    fix q
    assume "and_then (terms_validate (fo_terms source)) (\<lambda>_.
        fail_if (ft_scope (fo_terms source) \<noteq> gp_scope p \<or> fo_unit source \<noteq> gp_unit p \<or> at < fo_forfeited_at source) PrgInvalidPolicy
          (and_then (program_post p at ?i (batch_transfer (ProgramClearing ?i) (PendingForfeiture ?i) (fo_amount source) []))
            (\<lambda>p. Ok (put_lot ?i ?f p, ())))) = Ok (q, u)"
      and ok: "books_ok p" "records_ok c (max at (gp_last_event_at p)) p"
    then obtain p1 where t: "terms_validate (fo_terms source) = Ok ()" "ft_scope (fo_terms source) = gp_scope p" "fo_unit source = gp_unit p"
      and post: "program_post p at ?i (batch_transfer (ProgramClearing ?i) (PendingForfeiture ?i) (fo_amount source) []) = Ok p1"
      and q: "q = put_lot ?i ?f p1" by auto
    note f = program_post_Ok(5-10) [OF post]
    have "books_ok q"
      by (rule post_keeps_books [OF post ok(1), where r = "put_lot ?i ?f p"])
        (use f None in \<open>auto simp: q put_lot_def books_put_new_lot [unfolded put_lot_def] split: account.split\<close>)
    moreover have "records_ok c (max at (gp_last_event_at p)) p1"
      using ok(2) records_ok_cong [OF f(1,3,2)] by simp
    then have "records_ok c (max at (gp_last_event_at p)) q" unfolding q
      by (rule records_ok_put_lot) (use t f in \<open>simp add: lot_ok_def lot_clearance_def\<close>)
    ultimately show "books_ok q \<and> records_ok c (max at (gp_last_event_at p)) q" ..
  qed
qed

text \<open>The operations on one lot.\<close>

lemma lot_update_inv:
  assumes "bt_get (lots p) i = Some f" and "books_ok p" and "records_ok c now p"
    and "lot_ok (gp_scope p) (gp_unit p) i f \<Longrightarrow> lot_ok (gp_scope p) (gp_unit p) i g \<and> lot_source g = lot_source f
      \<and> is_assessed (lot_lifecycle g) = is_assessed (lot_lifecycle f)"
  shows "books_ok (put_lot i g p) \<and> records_ok c now (put_lot i g p)"
proof -
  have "lot_ok (gp_scope p) (gp_unit p) i f" using assms(1,3) by (simp add: records_ok_def)
  with assms(4) have g: "lot_ok (gp_scope p) (gp_unit p) i g" "lot_source g = lot_source f"
    "is_assessed (lot_lifecycle g) = is_assessed (lot_lifecycle f)" by auto
  have "books_ok (put_lot i g p)"
    by (rule same_books [OF assms(2)]) (simp_all add: put_lot_same_money [OF assms(1) g(2,3)])
  moreover have "records_ok c now (put_lot i g p)" using assms(3) g(1) by (rule records_ok_put_lot)
  ultimately show ?thesis ..
qed

lemma lot_pending_inv:
  assumes "bt_get (lots p) i = Some f" and "\<not> is_assessed (lot_lifecycle f)" and "books_ok p" and "records_ok c now p"
  shows "books_ok (put_lot i (f\<lparr>lot_lifecycle := LotPending held\<rparr>) p)"
    and "records_ok c now (put_lot i (f\<lparr>lot_lifecycle := LotPending held\<rparr>) p)"
  using lot_update_inv [OF assms(1,3,4), of "f\<lparr>lot_lifecycle := LotPending held\<rparr>"] assms(2)
  by (auto intro: lot_ok_pending)

lemma set_hold_Ok:
  "lot_set_hold f held = Ok g \<Longrightarrow> g = f\<lparr>lot_lifecycle := LotPending held\<rparr> \<and> \<not> is_assessed (lot_lifecycle f)"
  by (auto simp: lot_set_hold_def)

lemma set_hold_inv:
  assumes "program_set_hold p i hold at = Ok (p', u)" and "program_inv c p"
  shows "program_inv c p'"
  using assms(1) unfolding program_set_hold_def
  by (rule program_atomic_inv [OF _ assms(2)])
    (auto dest!: set_hold_Ok intro: lot_pending_inv)

lemma clear_maturity_inv:
  assumes "program_clear_maturity p i evidence at = Ok (p', u)" and "program_inv c p"
  shows "program_inv c p'"
  using assms(1) unfolding program_clear_maturity_def
proof (rule program_atomic_inv [OF _ assms(2)])
  fix q
  assume "and_then (ok_or (bt_get (lots p) i) PrgMissingRecord) (\<lambda>f. and_then (lot_clear f evidence at) (\<lambda>f'. Ok (put_lot i f' p, ()))) = Ok (q, u)"
    and ok: "books_ok p" "records_ok c at p"
  then obtain f f' where f: "bt_get (lots p) i = Some f" "lot_clear f evidence at = Ok f'" "q = put_lot i f' p" by auto
  then show "books_ok q \<and> records_ok c at q"
    using lot_update_inv [OF f(1) ok] lot_ok_clear [OF _ f(2)] by blast
qed

lemma note_reversal_inv:
  assumes "program_note_reversal p i at = Ok (p', u)" and "program_inv c p"
  shows "program_inv c p'"
  using assms(1) unfolding program_note_reversal_def
  by (rule program_atomic_inv [OF _ assms(2)])
    (auto dest!: set_hold_Ok intro: lot_pending_inv split: if_splits)

text \<open>The operations on members.\<close>

lemma put_member_books: "books_ok p \<Longrightarrow> books_ok (put_member i m p)"
  by (rule same_books [of p]) (simp_all add: books_def lot_amount_def pending_amount_def split: account.split)

lemma member_update_inv:
  assumes "bt_get (members p) i = Some m" and "books_ok p" and "records_ok c now p"
    and "member_ok now i m \<Longrightarrow> member_ok now i n" and "me_identity_digest n = me_identity_digest m"
  shows "books_ok (put_member i n p) \<and> records_ok c now (put_member i n p)"
proof -
  have "member_ok now i m" using assms(1,3) by (simp add: records_ok_def)
  moreover have "me_identity_digest k \<noteq> me_identity_digest n" if "j \<noteq> i" "bt_get (members p) j = Some k" for j k
    using assms(1,3,5) that unfolding records_ok_def by metis
  ultimately show ?thesis
    using assms(2-4) put_member_books records_ok_put_member by blast
qed

lemma enroll_inv:
  assumes "program_enroll p i identity_digest status at = Ok (p', u)" and "program_inv c p"
  shows "program_inv c p'"
proof -
  have "program_atomic p at (\<lambda>p.
       fail_if (identity_digest = 0 \<or> bt_has (members p) i
          \<or> list_ex (\<lambda>m. me_identity_digest m = identity_digest) (bt_values (members p))) PrgDuplicateConflict
       (Ok (put_member i \<lparr>me_id = i, me_identity_digest = identity_digest, me_joined_at = at,
              me_changes = [(at, status)], me_activity_days = {||}\<rparr> p, ()))) = Ok (p', u)"
    using assms(1) by (simp add: program_enroll_def require_complete_def split: if_splits)
  then show ?thesis
  proof (rule program_atomic_inv [OF _ assms(2)])
    fix q
    let ?m = "\<lparr>me_id = i, me_identity_digest = identity_digest, me_joined_at = at, me_changes = [(at, status)],
      me_activity_days = {||}\<rparr>"
    assume "fail_if (identity_digest = 0 \<or> bt_has (members p) i
          \<or> list_ex (\<lambda>m. me_identity_digest m = identity_digest) (bt_values (members p))) PrgDuplicateConflict
       (Ok (put_member i ?m p, ())) = Ok (q, u)" and ok: "books_ok p" "records_ok c at p"
    then have d: "identity_digest \<noteq> 0" "\<forall>m \<in> set (bt_values (members p)). me_identity_digest m \<noteq> identity_digest"
      and q: "q = put_member i ?m p" by (auto simp: list_ex_iff)
    have "records_ok c at q" unfolding q
      by (rule records_ok_put_member [OF ok(2)]) (use d in \<open>auto simp: member_ok_def bt_values_iff\<close>)
    then show "books_ok q \<and> records_ok c at q" using ok(1) put_member_books by (simp add: q)
  qed
qed

lemma set_membership_inv:
  assumes "program_set_membership p i status at = Ok (p', u)" and "program_inv c p"
  shows "program_inv c p'"
proof -
  obtain m where m: "bt_get (members p) i = Some m" and le: "gp_last_event_at p \<le> at"
    using assms(1) by (auto simp: program_set_membership_def elim!: program_atomic_Ok)
  have "member_ok (gp_last_event_at p) i m" using assms(2) m by (simp add: program_inv_def records_ok_def)
  then have new: "member_ok at i (m\<lparr>me_changes := me_changes m @ [(at, status)]\<rparr>)"
    using le by (cases "me_changes m") (force simp: member_ok_def sorted_append)+
  show ?thesis
    using assms(1) unfolding program_set_membership_def
  proof (rule program_atomic_inv [OF _ assms(2)])
    fix q
    assume "and_then (ok_or (bt_get (members p) i) PrgMissingRecord)
        (\<lambda>m. Ok (put_member i (m\<lparr>me_changes := me_changes m @ [(at, status)]\<rparr>) p, ())) = Ok (q, u)"
      and ok: "books_ok p" "records_ok c at p"
    then have q: "q = put_member i (m\<lparr>me_changes := me_changes m @ [(at, status)]\<rparr>) p" by (simp add: m)
    show "books_ok q \<and> records_ok c at q" unfolding q
      by (rule member_update_inv [OF m ok]) (simp_all add: new)
  qed
qed

lemma record_activity_inv:
  assumes "program_record_activity p i kind at = Ok (p', u)" and "program_inv c p"
  shows "program_inv c p'"
  using assms(1) unfolding program_record_activity_def
proof (rule program_atomic_inv [OF _ assms(2)])
  fix q
  assume "and_then (ok_or (bt_get (members p) i) PrgMissingRecord)
      (\<lambda>m. Ok (put_member i (m\<lparr>me_activity_days := finsert (at div day_millis) (me_activity_days m)\<rparr>) p, ())) = Ok (q, u)"
    and ok: "books_ok p" "records_ok c at p"
  then obtain m where m: "bt_get (members p) i = Some m"
    and q: "q = put_member i (m\<lparr>me_activity_days := finsert (at div day_millis) (me_activity_days m)\<rparr>) p" by auto
  show "books_ok q \<and> records_ok c at q" unfolding q
    by (rule member_update_inv [OF m ok]) (simp_all add: member_ok_def)
qed

lemma publish_inv:
  assumes "program_publish p schedule at = Ok (p', u)" and "program_inv c p"
  shows "program_inv c p'"
proof (cases "bt_get (schedules p) (as_id schedule)")
  case (Some s)
  then show ?thesis using assms by (auto simp: program_publish_def require_complete_def split: if_splits)
next
  case None
  let ?q = "p\<lparr>gp_records := (gp_records p)\<lparr>own_schedules := bt_insert (as_id schedule) schedule (schedules p)\<rparr>\<rparr>"
  have "program_atomic p at (\<lambda>p.
           fail_if (\<not> is_calendar_year schedule \<or> at > as_start schedule
              \<or> as_start schedule \<ge> as_cutoff schedule
              \<or> el_minimum_active_days (as_eligibility schedule) = 0
              \<or> list_ex (\<lambda>s. as_start s < as_cutoff schedule \<and> as_start schedule < as_cutoff s)
                  (bt_values (schedules p))) PrgInvalidPolicy
           (Ok (p\<lparr>gp_records := (gp_records p)\<lparr>own_schedules :=
                  bt_insert (as_id schedule) schedule (schedules p)\<rparr>\<rparr>, ()))) = Ok (p', u)"
    using assms(1) None by (simp add: program_publish_def require_complete_def split: if_splits)
  then show ?thesis
  proof (rule program_atomic_inv [OF _ assms(2)])
    fix q
    assume "fail_if (\<not> is_calendar_year schedule \<or> at > as_start schedule
              \<or> as_start schedule \<ge> as_cutoff schedule
              \<or> el_minimum_active_days (as_eligibility schedule) = 0
              \<or> list_ex (\<lambda>s. as_start s < as_cutoff schedule \<and> as_start schedule < as_cutoff s)
                  (bt_values (schedules p))) PrgInvalidPolicy (Ok (?q, ())) = Ok (q, u)"
      and ok: "books_ok p" "records_ok c at p"
    then have y: "is_calendar_year schedule" and q: "q = ?q" by auto
    have "books_ok ?q"
      by (rule same_books [OF ok(1)]) (simp_all add: books_def lot_amount_def pending_amount_def split: account.split)
    moreover have "records_ok c at ?q" using ok(2) y by (simp add: records_ok_def)
    ultimately show "books_ok q \<and> records_ok c at q" by (simp add: q)
  qed
qed

text \<open>The operations on payables.\<close>

lemma books_put_payable:
  "books (put_payable i x p) a = books p a
     + (case a of MemberPayableAcc j \<Rightarrow> if j = i then uint (payable_outstanding x) - owed_in (payables p) i else 0
        | ProcessorClearing \<Rightarrow> paid_out x - (case bt_get (payables p) i of Some y \<Rightarrow> paid_out y | None \<Rightarrow> 0)
        | CorporateLossClearing \<Rightarrow> (case bt_get (payables p) i of Some y \<Rightarrow> loss_of y | None \<Rightarrow> 0) - loss_of x
        | _ \<Rightarrow> 0)"
  by (simp add: books_def lot_amount_def pending_amount_def bt_sum_map_insert split: account.split)

lemma prepare_payment_inv:
  assumes "program_prepare_payment c p i bank at = Ok (p', operation)" and "program_inv c p"
  shows "program_inv c p'"
  using assms(1) unfolding program_prepare_payment_def
proof (rule program_atomic_inv [OF _ assms(2)])
  fix q
  assume "and_then (ok_or (bt_get (payables p) i) PrgMissingRecord) (\<lambda>x. and_then (payable_prepare c x bank at)
      (\<lambda>(x', operation). Ok (put_payable i x' p, operation))) = Ok (q, operation)"
    and ok: "books_ok p" "records_ok c at p"
  then obtain x x' where x: "bt_get (payables p) i = Some x" "payable_prepare c x bank at = Ok (x', operation)"
    and q: "q = put_payable i x' p" by (auto split: prod.splits)
  have v: "payable_ok c (gp_scope p) (gp_unit p) x" "pa_id x = i" using ok(2) x(1) by (auto simp: records_ok_def)
  note f = payable_prepare_frame [OF x(2) v(1)]
  have "pa_correction x' = pa_correction x" by (subst f(5)) simp
  then have "books_ok q" unfolding q
    by (intro same_books [OF ok(1)]) (simp_all add: books_put_payable x(1) f(2-4) owed_in_def paid_out_def loss_of_def split: account.split)
  moreover have "records_ok c at q" unfolding q
    by (rule records_ok_put_payable [OF ok(2)]) (simp_all add: f(1,3) v)
  ultimately show "books_ok q \<and> records_ok c at q" ..
qed

lemma confirm_payout_inv:
  assumes "program_confirm_payout c p i receipt key at = Ok (p', u)" and "program_inv c p"
  shows "program_inv c p'"
proof -
  obtain x x' batch where x: "bt_get (payables p) i = Some x" and r: "payable_record_receipt c x receipt key = Ok (x', batch)"
    and s: "x' = x \<and> p' = p \<or> program_atomic p at (\<lambda>p. let p1 = put_payable i x' p in
       if batch \<noteq> []
       then and_then (program_post p1 at (pe_event_id (spe_evidence receipt)) batch) (\<lambda>p2. Ok (p2, ()))
       else Ok (p1, ())) = Ok (p', u)"
    using assms(1) by (auto simp: program_confirm_payout_def split: prod.splits if_splits)
  have v: "payable_ok c (gp_scope p) (gp_unit p) x" "pa_id x = i"
    using assms(2) x by (auto simp: program_inv_def records_ok_def)
  note f = payable_receipt_frame [OF r v(1)]
  have "pa_correction x' = pa_correction x" by (subst f(6)) simp
  then have flow: "books (put_payable i x' p) a = books p a + net_flow a batch" for a
    by (simp add: books_put_payable x f(1-4) owed_in_def paid_out_def loss_of_def v split: account.split)
  show ?thesis using s
  proof
    assume "program_atomic p at (\<lambda>p. let p1 = put_payable i x' p in
       if batch \<noteq> []
       then and_then (program_post p1 at (pe_event_id (spe_evidence receipt)) batch) (\<lambda>p2. Ok (p2, ()))
       else Ok (p1, ())) = Ok (p', u)"
    then show ?thesis
    proof (rule program_atomic_inv [OF _ assms(2)])
      fix q
      assume q: "(let p1 = put_payable i x' p in
         if batch \<noteq> []
         then and_then (program_post p1 at (pe_event_id (spe_evidence receipt)) batch) (\<lambda>p2. Ok (p2, ()))
         else Ok (p1, ())) = Ok (q, u)" and ok: "books_ok p" "records_ok c at p"
      have rec: "records_ok c at (put_payable i x' p)"
        by (rule records_ok_put_payable [OF ok(2)]) (simp_all add: f(1,2) v)
      show "books_ok q \<and> records_ok c at q"
      proof (cases "batch = []")
        case True
        then have "q = put_payable i x' p" using q by simp
        then show ?thesis using rec ok(1) flow True by (auto intro: same_books)
      next
        case False
        then have post: "program_post (put_payable i x' p) at (pe_event_id (spe_evidence receipt)) batch = Ok q"
          using q by (simp add: Let_def)
        note g = program_post_Ok(5-10) [OF post]
        have "books_ok q"
          by (rule post_keeps_books [OF post ok(1), where r = "put_payable i x' p"]) (simp_all add: g flow)
        then show ?thesis using rec records_ok_cong [OF g(1,3,2)] by simp
      qed
    qed
  qed (use assms(2) in blast)
qed

lemma compensate_inv:
  assumes "program_compensate c p event member distribution amount reason at = Ok (p', u)" and "program_inv c p"
  shows "program_inv c p'"
proof -
  let ?i = "high_u128 (cr_sha256 c (correction_preimage (gp_scope p) (gp_unit p) event))"
  let ?f = "\<lambda>p. fail_if (event = 0 \<or> amount = 0 \<or> str_blank reason \<or> length reason > 2000
          \<or> \<not> bt_has (members p) member \<or> \<not> bt_has (allocations p) distribution) PrgInvalidPolicy
       (let i = high_u128 (cr_sha256 c (correction_preimage (gp_scope p) (gp_unit p) event)) in
        fail_if (bt_has (payables p) i) PrgDuplicateConflict
        (and_then (or_panic (bt_get (allocations p) distribution)) (\<lambda>a.
         and_then (payable_new c i member distribution amount (as_payment (aa_schedule a))
            (gp_scope p) (gp_unit p) (Some event)) (\<lambda>x.
         and_then (program_post (put_payable i x p) at event
            (batch_transfer CorporateLossClearing (MemberPayableAcc i) amount [])) (\<lambda>p'.
         Ok (p', ()))))))"
  have "program_atomic p at ?f = Ok (p', u)"
    using assms(1) by (simp add: program_compensate_def require_complete_def split: if_splits)
  then show ?thesis
  proof (rule program_atomic_inv [OF _ assms(2)])
    fix q
    assume "?f p = Ok (q, u)" and ok: "books_ok p" "records_ok c at p"
    then obtain x and a :: annual_allocation where i: "bt_get (payables p) ?i = None"
      and x: "payable_new c ?i member distribution amount (as_payment (aa_schedule a)) (gp_scope p) (gp_unit p) (Some event) = Ok x"
      and post: "program_post (put_payable ?i x p) at event
            (batch_transfer CorporateLossClearing (MemberPayableAcc ?i) amount []) = Ok q"
      by (auto simp: Let_def bt_has_def)
    note n = payable_new_Ok [OF x]
    have "pa_correction x = Some event" using x by (auto simp: payable_new_def Let_def)
    then have flow: "books (put_payable ?i x p) a = books p a
        + net_flow a (batch_transfer CorporateLossClearing (MemberPayableAcc ?i) amount [])" for a
      by (simp add: books_put_payable i n owed_in_def paid_out_def loss_of_def split: account.split)
    have rec: "records_ok c at (put_payable ?i x p)"
      by (rule records_ok_put_payable [OF ok(2)]) (simp_all add: n)
    note g = program_post_Ok(5-10) [OF post]
    have "books_ok q"
      by (rule post_keeps_books [OF post ok(1), where r = "put_payable ?i x p"]) (simp_all add: g flow)
    then show "books_ok q \<and> records_ok c at q" using rec records_ok_cong [OF g(1,3,2)] by simp
  qed
qed

end
