(* ===== verification/Program_Finalize.thy ===== *)
theory Program_Finalize
  imports Program_Books
begin

text \<open>
  Finalizing an annual distribution (\<open>finalize_annual_distribution\<close> of
  \<open>crates/cs-mail-finance/src/program.rs\<close>): what its assessment, its division among the members
  and its ledger batch amount to together.
\<close>

section \<open>Members and lots of a distribution\<close>

lemma distinct_keys_filter:
  assumes "\<And>k v. bt_get m k = Some v \<Longrightarrow> key v = k"
  shows "distinct (map key (filter P (bt_values m)))"
    and "set (map key (filter P (bt_values m))) = {k. \<exists>v. bt_get m k = Some v \<and> P v}"
proof -
  have k: "key (snd e) = fst e" if "e \<in> set (bt_entries m)" for e
    using assms [of "fst e" "snd e"] that by (simp add: bt_get_Some)
  have "map key (bt_values m) = map fst (bt_entries m)"
    by (simp add: bt_values_def k)
  then have "distinct (map key (bt_values m))" by (simp add: bt_distinct)
  then show "distinct (map key (filter P (bt_values m)))" by (rule distinct_map_filter)
  show "set (map key (filter P (bt_values m))) = {k. \<exists>v. bt_get m k = Some v \<and> P v}"
    using assms by (auto simp: bt_values_iff image_iff)
qed

lemma qualifying_members_set:
  assumes "records_ok c now p"
  shows "distinct (qualifying_members p s)"
    and "m \<in> set (qualifying_members p s) \<longleftrightarrow> (\<exists>v. bt_get (members p) m = Some v \<and> member_qualifies v s)"
proof -
  have k: "me_id v = k" if "bt_get (members p) k = Some v" for k v
    using assms that by (auto simp: records_ok_def member_ok_def)
  show "distinct (qualifying_members p s)" unfolding qualifying_members_def
    by (rule distinct_keys_filter(1)) (rule k)
  show "m \<in> set (qualifying_members p s) \<longleftrightarrow> (\<exists>v. bt_get (members p) m = Some v \<and> member_qualifies v s)"
    using distinct_keys_filter(2) [of "members p" me_id, OF k] by (auto simp: qualifying_members_def)
qed

lemma eligible_lots_set:
  assumes "records_ok c now p"
  shows "distinct (eligible_lots p s)"
    and "i \<in> set (eligible_lots p s) \<longleftrightarrow> (\<exists>f. bt_get (lots p) i = Some f \<and> lot_eligible_at f (as_cutoff s))"
proof -
  have k: "fo_id (lot_source v) = k" if "bt_get (lots p) k = Some v" for k v
    using assms that by (auto simp: records_ok_def lot_ok_def)
  show "distinct (eligible_lots p s)" unfolding eligible_lots_def
    by (rule distinct_keys_filter(1) [of "lots p" "\<lambda>f. fo_id (lot_source f)"]) (rule k)
  show "i \<in> set (eligible_lots p s) \<longleftrightarrow> (\<exists>f. bt_get (lots p) i = Some f \<and> lot_eligible_at f (as_cutoff s))"
    using distinct_keys_filter(2) [of "lots p" "\<lambda>f. fo_id (lot_source f)", OF k]
    by (auto simp: eligible_lots_def)
qed

lemma lot_rates_valid:
  assumes "records_ok c now p"
  shows "lot_rate p i \<le> 10000"
proof (cases "bt_get (lots p) i")
  case (Some f)
  then have "lot_ok (gp_scope p) (gp_unit p) i f" using assms by (simp add: records_ok_def)
  then show ?thesis using Some by (auto simp: lot_rate_def lot_ok_def terms_validate_def not_less split: if_splits)
qed (simp add: lot_rate_def)

section \<open>The plan of a distribution\<close>

text \<open>
  \<open>p1\<close> is the program whose lots are assessed, \<open>p2\<close> the one whose payables are created;
  \<open>batch'\<close> is posted on it.
\<close>

definition distribution_plan ::
  "crypto \<Rightarrow> program \<Rightarrow> annual_distribution_id \<Rightarrow> annual_schedule \<Rightarrow> program \<Rightarrow> program \<Rightarrow> ledger_batch
     \<Rightarrow> money \<Rightarrow> money \<Rightarrow> money \<Rightarrow> money \<Rightarrow> money \<Rightarrow> bool" where
  "distribution_plan c p i s p1 p2 batch' new corporate contribution each remainder \<longleftrightarrow>
     (\<exists>now batch available n.
        books_ok p \<and> records_ok c now p \<and> bt_get (schedules p) i = Some s \<and> bt_get (allocations p) i = None
        \<and> assess_funding p (eligible_lots p s) s [] = Ok (p1, batch, new, corporate, contribution)
        \<and> money_checked_add (ledger_balance (ls_view (gp_ledger p1)) RestrictedMemberFunds) contribution = Some available
        \<and> try_word (int (length (qualifying_members p s))) = Some n
        \<and> each = (if n = 0 then 0 else available div n)
        \<and> remainder = (if n = 0 then available else available mod n)
        \<and> (if each = 0 then Ok (p1, batch) else allocate_members c s each (qualifying_members p s) p1 batch) = Ok (p2, batch'))"

lemma planE:
  assumes "distribution_plan c p i s p1 p2 batch' new corporate contribution each remainder"
  obtains now batch available n where "books_ok p" "records_ok c now p"
    "bt_get (schedules p) i = Some s" "bt_get (allocations p) i = None"
    "assess_funding p (eligible_lots p s) s [] = Ok (p1, batch, new, corporate, contribution)"
    "money_checked_add (ledger_balance (ls_view (gp_ledger p1)) RestrictedMemberFunds) contribution = Some available"
    "try_word (int (length (qualifying_members p s))) = Some n"
    "each = (if n = 0 then 0 else available div n)" "remainder = (if n = 0 then available else available mod n)"
    "(if each = 0 then Ok (p1, batch) else allocate_members c s each (qualifying_members p s) p1 batch) = Ok (p2, batch')"
  using assms unfolding distribution_plan_def by blast

text \<open>The assessment.\<close>

lemma plan_assessment:
  assumes "distribution_plan c p i s p1 p2 batch' new corporate contribution each remainder"
  obtains now batch where "books_ok p" "records_ok c now p"
    and "bt_get (schedules p) i = Some s" "bt_get (allocations p) i = None" "as_id s = i" "is_calendar_year s"
    and "p1 = with_lots (lots p1) p"
    and "\<forall>j. bt_get (lots p1) j = (if j \<in> set (eligible_lots p s) then map_option (assessed i) (bt_get (lots p) j) else bt_get (lots p) j)"
    and "uint new = sum_list (map (lot_amount p) (eligible_lots p s))"
    and "uint corporate = corporate_due p (eligible_lots p s)" and "uint contribution = uint new - uint corporate"
    and "\<forall>a. net_flow a batch = (case a of PendingForfeiture j \<Rightarrow> if j \<in> set (eligible_lots p s) then - lot_amount p j else 0
          | RestrictedMemberFunds \<Rightarrow> uint contribution | CorporatePoolRevenue \<Rightarrow> uint corporate | _ \<Rightarrow> 0)"
    and "is_balanced batch"
    and "\<forall>g. (\<forall>j \<in> set (eligible_lots p s). lot_amount p j \<le> g (PendingForfeiture j)) \<longrightarrow> 0 \<le> g RestrictedMemberFunds \<longrightarrow> covered g batch"
    and "(if each = 0 then Ok (p1, batch) else allocate_members c s each (qualifying_members p s) p1 batch) = Ok (p2, batch')"
  using assms
proof (rule planE)
  fix now batch available n
  assume ok: "books_ok p" "records_ok c now p" and s: "bt_get (schedules p) i = Some s" "bt_get (allocations p) i = None"
    and a: "assess_funding p (eligible_lots p s) s [] = Ok (p1, batch, new, corporate, contribution)"
    and alloc: "(if each = 0 then Ok (p1, batch) else allocate_members c s each (qualifying_members p s) p1 batch) = Ok (p2, batch')"
  have id: "as_id s = i" "is_calendar_year s" using ok(2) s by (auto simp: records_ok_def)
  have rates: "\<forall>j \<in> set (eligible_lots p s). lot_rate p j \<le> 10000" using lot_rates_valid [OF ok(2)] by blast
  note f = assess_funding_Ok [OF a eligible_lots_set(1) [OF ok(2)] rates, unfolded id(1)]
  have "\<forall>g. (\<forall>j \<in> set (eligible_lots p s). lot_amount p j \<le> g (PendingForfeiture j)) \<longrightarrow> 0 \<le> g RestrictedMemberFunds \<longrightarrow> covered g batch"
    using f(9) by blast
  then show thesis by (rule that [OF ok s id f(1) allI [OF f(2)] f(4) f(5) f(6) allI [OF f(7)] f(8) _ alloc])
qed

text \<open>The division.\<close>

lemma plan_division:
  assumes "distribution_plan c p i s p1 p2 batch' new corporate contribution each remainder"
  shows "uint each * int (length (qualifying_members p s)) + uint remainder = books p RestrictedMemberFunds + uint contribution"
    and "qualifying_members p s = [] \<Longrightarrow> each = 0"
    and "qualifying_members p s \<noteq> [] \<Longrightarrow> uint remainder < int (length (qualifying_members p s))"
    and "books p RestrictedMemberFunds + uint contribution \<le> u64_max"
proof -
  obtain batch where frame: "p1 = with_lots (lots p1) p" using assms by (rule plan_assessment)
  obtain available n where ok: "books_ok p"
    and avail: "money_checked_add (ledger_balance (ls_view (gp_ledger p1)) RestrictedMemberFunds) contribution = Some available"
    and count: "try_word (int (length (qualifying_members p s))) = Some n"
    and each: "each = (if n = 0 then 0 else available div n)"
    and remainder: "remainder = (if n = 0 then available else available mod n)"
    using assms by (rule planE)
  have "gp_ledger p1 = gp_ledger p" by (subst frame) simp
  then have "unat available = unat (ledger_balance (ls_view (gp_ledger p)) RestrictedMemberFunds) + unat contribution"
    using avail by (simp add: num_simps)
  then have "int (unat available) = int (unat (ledger_balance (ls_view (gp_ledger p)) RestrictedMemberFunds)) + int (unat contribution)"
    by (simp only: of_nat_add)
  moreover have "uint (ledger_balance (ls_view (gp_ledger p)) RestrictedMemberFunds) = books p RestrictedMemberFunds"
    using ok ledger_balance_ok [of "ls_view (gp_ledger p)" RestrictedMemberFunds]
    by (auto simp: books_ok_def dest: total_value_view_ok)
  ultimately have carried: "uint available = books p RestrictedMemberFunds + uint contribution" by simp
  have n_is: "uint n = int (length (qualifying_members p s))" using try_word_SomeD [OF count] by simp
  have z: "n = 0 \<longleftrightarrow> qualifying_members p s = []"
  proof
    assume "n = 0"
    then show "qualifying_members p s = []" using n_is by simp
  next
    assume "qualifying_members p s = []"
    then have "uint n = 0" using n_is by simp
    then show "n = 0" by (simp add: uint_0_iff)
  qed
  show "uint each * int (length (qualifying_members p s)) + uint remainder = books p RestrictedMemberFunds + uint contribution"
    unfolding n_is [symmetric] carried [symmetric] by (simp add: each remainder uint_div uint_mod)
  show "qualifying_members p s = [] \<Longrightarrow> each = 0" using z each by simp
  show "uint remainder < int (length (qualifying_members p s))" if "qualifying_members p s \<noteq> []"
  proof -
    have "n \<noteq> 0" using that z by simp
    then have "uint n \<noteq> 0" by (simp add: uint_0_iff)
    then have "0 < uint n" using uint_ge_0 [of n] by linarith
    then show ?thesis using \<open>n \<noteq> 0\<close> unfolding n_is [symmetric] by (simp add: remainder uint_mod)
  qed
  show "books p RestrictedMemberFunds + uint contribution \<le> u64_max"
    using carried uint_bounded [of available] by (simp add: u64_max_def)
qed

text \<open>The payables and the batch.\<close>

lemma plan_created:
  assumes plan: "distribution_plan c p i s p1 p2 batch' new corporate contribution each remainder"
  shows "p2 = with_payables (payables p2) (with_lots (lots p1) p)"
    and "bt_get (payables p) j = Some x \<Longrightarrow> bt_get (payables p2) j = Some x"
    and "bt_get (payables p) j = None \<Longrightarrow> bt_get (payables p2) j = Some x \<Longrightarrow>
       each \<noteq> 0 \<and> fresh_payable c p i each (qualifying_members p s) j x"
    and "each \<noteq> 0 \<Longrightarrow> m \<in> set (qualifying_members p s) \<Longrightarrow>
       \<exists>x. bt_get (payables p2) (allocation_id_of c (gp_scope p) (gp_unit p) i m) = Some x
         \<and> pa_member x = m \<and> pa_amount x = each \<and> pa_distribution x = i \<and> pa_correction x = None"
    and "(\<And>x. pa_correction x = None \<Longrightarrow> payable_outstanding x = pa_amount x \<Longrightarrow> f x = (0::int)) \<Longrightarrow>
       sum_list (map f (bt_values (payables p2))) = sum_list (map f (bt_values (payables p)))"
proof -
  obtain batch where frame: "p1 = with_lots (lots p1) p" and id: "as_id s = i"
    and alloc: "(if each = 0 then Ok (p1, batch) else allocate_members c s each (qualifying_members p s) p1 batch) = Ok (p2, batch')"
    using plan by (rule plan_assessment)
  have same: "payables p1 = payables p" "gp_scope p1 = gp_scope p" "gp_unit p1 = gp_unit p" by (subst frame, simp)+
  have fresh: "fresh_payable c p1 = fresh_payable c p" by (simp add: fresh_payable_def fun_eq_iff same)
  have "p2 = with_payables (payables p2) (with_lots (lots p1) p)
    \<and> (bt_get (payables p) j = Some x \<longrightarrow> bt_get (payables p2) j = Some x)
    \<and> (bt_get (payables p) j = None \<longrightarrow> bt_get (payables p2) j = Some x \<longrightarrow>
       each \<noteq> 0 \<and> fresh_payable c p i each (qualifying_members p s) j x)
    \<and> (each \<noteq> 0 \<longrightarrow> m \<in> set (qualifying_members p s) \<longrightarrow>
       (\<exists>x. bt_get (payables p2) (allocation_id_of c (gp_scope p) (gp_unit p) i m) = Some x
         \<and> pa_member x = m \<and> pa_amount x = each \<and> pa_distribution x = i \<and> pa_correction x = None))
    \<and> ((\<forall>x. pa_correction x = None \<longrightarrow> payable_outstanding x = pa_amount x \<longrightarrow> f x = 0) \<longrightarrow>
       sum_list (map f (bt_values (payables p2))) = sum_list (map f (bt_values (payables p))))"
  proof (cases "each = 0")
    case True
    then have "p2 = p1" using alloc by simp
    moreover have "with_payables (payables p1) (with_lots (lots p1) p) = p1" using frame same(1)
      by (metis with_payables_simps(3))
    ultimately show ?thesis using True same by auto
  next
    case False
    then have a: "allocate_members c s each (qualifying_members p s) p1 batch = Ok (p2, batch')" using alloc by simp
    have "p2 = with_payables (payables p2) (with_lots (lots p1) p)"
      using allocate_members_payables(1) [OF a] frame by simp
    then show ?thesis
      using allocate_members_payables(2-4) [OF a] allocate_members_money(4) [OF a, of f] False
      unfolding same fresh id by blast
  qed
  then show "p2 = with_payables (payables p2) (with_lots (lots p1) p)"
    "bt_get (payables p) j = Some x \<Longrightarrow> bt_get (payables p2) j = Some x"
    "bt_get (payables p) j = None \<Longrightarrow> bt_get (payables p2) j = Some x \<Longrightarrow>
       each \<noteq> 0 \<and> fresh_payable c p i each (qualifying_members p s) j x"
    "each \<noteq> 0 \<Longrightarrow> m \<in> set (qualifying_members p s) \<Longrightarrow>
       \<exists>x. bt_get (payables p2) (allocation_id_of c (gp_scope p) (gp_unit p) i m) = Some x
         \<and> pa_member x = m \<and> pa_amount x = each \<and> pa_distribution x = i \<and> pa_correction x = None"
    "(\<And>x. pa_correction x = None \<Longrightarrow> payable_outstanding x = pa_amount x \<Longrightarrow> f x = (0::int)) \<Longrightarrow>
       sum_list (map f (bt_values (payables p2))) = sum_list (map f (bt_values (payables p)))" by blast+
qed

lemma plan_batch:
  assumes plan: "distribution_plan c p i s p1 p2 batch' new corporate contribution each remainder"
  shows "net_flow a batch' = (case a of PendingForfeiture j \<Rightarrow> if j \<in> set (eligible_lots p s) then - lot_amount p j else 0
          | RestrictedMemberFunds \<Rightarrow> uint contribution - uint each * int (length (qualifying_members p s))
          | CorporatePoolRevenue \<Rightarrow> uint corporate
          | MemberPayableAcc j \<Rightarrow> owed_in (payables p2) j - owed_in (payables p) j | _ \<Rightarrow> 0)"
    and "is_balanced batch'"
    and "(\<And>j. j \<in> set (eligible_lots p s) \<Longrightarrow> lot_amount p j \<le> g (PendingForfeiture j)) \<Longrightarrow>
       0 \<le> g RestrictedMemberFunds \<Longrightarrow>
       uint each * int (length (qualifying_members p s)) \<le> g RestrictedMemberFunds + uint contribution \<Longrightarrow> covered g batch'"
proof -
  obtain batch where frame: "p1 = with_lots (lots p1) p"
    and flow: "\<forall>a. net_flow a batch = (case a of PendingForfeiture j \<Rightarrow> if j \<in> set (eligible_lots p s) then - lot_amount p j else 0
          | RestrictedMemberFunds \<Rightarrow> uint contribution | CorporatePoolRevenue \<Rightarrow> uint corporate | _ \<Rightarrow> 0)"
    and bal: "is_balanced batch"
    and cov: "\<forall>g. (\<forall>j \<in> set (eligible_lots p s). lot_amount p j \<le> g (PendingForfeiture j)) \<longrightarrow> 0 \<le> g RestrictedMemberFunds \<longrightarrow> covered g batch"
    and alloc: "(if each = 0 then Ok (p1, batch) else allocate_members c s each (qualifying_members p s) p1 batch) = Ok (p2, batch')"
    using plan by (rule plan_assessment)
  have same: "payables p1 = payables p" by (subst frame) simp
  have "net_flow a batch' = net_flow a batch
       + (case a of RestrictedMemberFunds \<Rightarrow> - (uint each * int (length (qualifying_members p s)))
          | MemberPayableAcc j \<Rightarrow> owed_in (payables p2) j - owed_in (payables p) j | _ \<Rightarrow> 0)
     \<and> is_balanced batch'
     \<and> (covered g batch \<longrightarrow> uint each * int (length (qualifying_members p s)) \<le> g RestrictedMemberFunds + net_flow RestrictedMemberFunds batch
       \<longrightarrow> covered g batch')"
  proof (cases "each = 0")
    case True
    then have "p2 = p1" "batch' = batch" using alloc by simp_all
    then show ?thesis using bal by (simp add: True same split: account.split)
  next
    case False
    then have a: "allocate_members c s each (qualifying_members p s) p1 batch = Ok (p2, batch')" using alloc by simp
    show ?thesis using allocate_members_money(1-3) [OF a] bal unfolding same by blast
  qed
  then show "net_flow a batch' = (case a of PendingForfeiture j \<Rightarrow> if j \<in> set (eligible_lots p s) then - lot_amount p j else 0
          | RestrictedMemberFunds \<Rightarrow> uint contribution - uint each * int (length (qualifying_members p s))
          | CorporatePoolRevenue \<Rightarrow> uint corporate
          | MemberPayableAcc j \<Rightarrow> owed_in (payables p2) j - owed_in (payables p) j | _ \<Rightarrow> 0)"
    "is_balanced batch'"
    "(\<And>j. j \<in> set (eligible_lots p s) \<Longrightarrow> lot_amount p j \<le> g (PendingForfeiture j)) \<Longrightarrow>
       0 \<le> g RestrictedMemberFunds \<Longrightarrow>
       uint each * int (length (qualifying_members p s)) \<le> g RestrictedMemberFunds + uint contribution \<Longrightarrow> covered g batch'"
    using spec [OF cov, of g] by (simp_all add: flow split: account.splits)
qed

section \<open>The finalized program\<close>

lemma finalize_step_plan:
  assumes "finalize_step c i at p = Ok (q, a)" and "books_ok p" and "records_ok c now p" and "bt_get (allocations p) i = None"
  obtains s p1 p2 p3 batch' where
    "distribution_plan c p i s p1 p2 batch' (aa_newly_eligible a) (aa_corporate_share a) (aa_member_contribution a) (aa_each a) (aa_remainder a)"
    "bt_get (schedules p) i = Some s" "as_cutoff s \<le> at" "aa_schedule a = s" "aa_finalized_at a = at"
    "aa_members a = qualifying_members p s" "aa_funding a = eligible_lots p s"
    "program_post p2 at i batch' = Ok p3" "q = put_allocation i a p3"
proof -
  obtain s where s: "bt_get (schedules p) i = Some s" and t: "as_cutoff s \<le> at"
    using assms(1) by (auto simp: finalize_step_def)
  have id: "as_id s = i" using assms(3) s by (auto simp: records_ok_def)
  obtain p1 batch new corporate contribution available n where
    r: "assess_funding p (eligible_lots p s) s [] = Ok (p1, batch, new, corporate, contribution)"
    "money_checked_add (ledger_balance (ls_view (gp_ledger p1)) RestrictedMemberFunds) contribution = Some available"
    "try_word (int (length (qualifying_members p s))) = Some (n :: money)"
    and rest: "(let each = if n = 0 then 0 else available div n;
          remainder = if n = 0 then available else available mod n in
      and_then (if each = 0 then Ok (p1, batch) else allocate_members c s each (qualifying_members p s) p1 batch) (\<lambda>(p2, batch').
      and_then (program_post p2 at (as_id s) batch') (\<lambda>p3.
      let result = \<lparr>aa_schedule = s, aa_finalized_at = at, aa_members = qualifying_members p s, aa_funding = eligible_lots p s,
             aa_newly_eligible = new, aa_corporate_share = corporate,
             aa_member_contribution = contribution, aa_each = each, aa_remainder = remainder\<rparr> in
      Ok (put_allocation i result p3, result)))) = Ok (q, a)"
    using assms(1) unfolding finalize_step_def s ok_or.simps and_then.simps
    by (auto simp: Let_def split: prod.splits)
  define each where "each = (if n = 0 then 0 else available div n)"
  define remainder where "remainder = (if n = 0 then available else available mod n)"
  obtain p2 batch' p3 where al: "(if each = 0 then Ok (p1, batch) else allocate_members c s each (qualifying_members p s) p1 batch) = Ok (p2, batch')"
    and post: "program_post p2 at i batch' = Ok p3"
    and a: "a = \<lparr>aa_schedule = s, aa_finalized_at = at, aa_members = qualifying_members p s, aa_funding = eligible_lots p s,
             aa_newly_eligible = new, aa_corporate_share = corporate,
             aa_member_contribution = contribution, aa_each = each, aa_remainder = remainder\<rparr>" and q: "q = put_allocation i a p3"
    using rest unfolding Let_def each_def [symmetric] remainder_def [symmetric] id by (auto simp del: if_split)
  have "distribution_plan c p i s p1 p2 batch' new corporate contribution each remainder"
    unfolding distribution_plan_def
    using assms(2-4) s r al each_def remainder_def by blast
  then show thesis by (intro that [OF _ s t _ _ _ _ post q]) (simp_all add: a)
qed

lemma plan_check:
  assumes plan: "distribution_plan c p i s p1 p2 batch' (aa_newly_eligible a) (aa_corporate_share a) (aa_member_contribution a) (aa_each a) (aa_remainder a)"
    and a: "aa_schedule a = s" "as_cutoff s \<le> aa_finalized_at a" "aa_members a = qualifying_members p s" "aa_funding a = eligible_lots p s"
  shows "check_allocation i a = Ok ()"
proof -
  obtain now where ok: "records_ok c now p" and s: "as_id s = i" "is_calendar_year s"
    and sums: "uint (aa_member_contribution a) = uint (aa_newly_eligible a) - uint (aa_corporate_share a)"
    using plan by (rule plan_assessment)
  have "int (unat (aa_newly_eligible a)) = int (unat (aa_corporate_share a) + unat (aa_member_contribution a))"
    using sums by simp
  then have "money_checked_add (aa_corporate_share a) (aa_member_contribution a) = Some (aa_newly_eligible a)"
    unfolding num_simps by (simp only: of_nat_eq_iff)
  moreover have "distinct (aa_members a)" "distinct (aa_funding a)"
    unfolding a by (rule qualifying_members_set(1) [OF ok] eligible_lots_set(1) [OF ok])+
  moreover have "uint (aa_each a) * int (length (aa_members a)) + uint (aa_remainder a) \<le> u64_max"
    using plan_division(1,4) [OF plan] by (simp add: a)
  ultimately show ?thesis
    using plan_division(2,3) [OF plan] s a(2) by (auto simp: check_allocation_def Let_def a not_less)
qed

text \<open>The books after it.\<close>

lemma plan_books:
  assumes plan: "distribution_plan c p i s p1 p2 batch' (aa_newly_eligible a) (aa_corporate_share a) (aa_member_contribution a) (aa_each a) (aa_remainder a)"
    and a: "aa_members a = qualifying_members p s"
  shows "books (put_allocation i a p2) x = books p x + net_flow x batch'"
proof -
  obtain now where ok: "records_ok c now p" and none: "bt_get (allocations p) i = None"
    and l: "\<forall>j. bt_get (lots p1) j = (if j \<in> set (eligible_lots p s) then map_option (assessed i) (bt_get (lots p) j) else bt_get (lots p) j)"
    using plan by (rule plan_assessment)
  note cr = plan_created [OF plan]
  have f: "lots p2 = lots p1" "allocations p2 = allocations p" by (subst cr(1), simp)+
  have sums: "sum_list (map loss_of (bt_values (payables p2))) = sum_list (map loss_of (bt_values (payables p)))"
    "sum_list (map paid_out (bt_values (payables p2))) = sum_list (map paid_out (bt_values (payables p)))"
    by (rule cr(5), simp add: loss_of_def paid_out_def)+
  have amount: "lot_amount (put_allocation i a p2) j = lot_amount p j" for j
    by (simp add: lot_amount_def f spec [OF l] split: option.split)
  have pending: "pending_amount (put_allocation i a p2) j
      = pending_amount p j + (if j \<in> set (eligible_lots p s) then - lot_amount p j else 0)" for j
  proof (cases "j \<in> set (eligible_lots p s)")
    case True
    then obtain g where g: "bt_get (lots p) j = Some g" "lot_eligible_at g (as_cutoff s)"
      using eligible_lots_set(2) [OF ok] by blast
    then obtain y where "lot_lifecycle g = LotCleared y" by (auto simp: lot_eligible_at_def split: lot_lifecycle.splits)
    then show ?thesis using True g(1) by (simp add: pending_amount_def lot_amount_def f spec [OF l] assessed_def)
  qed (simp add: pending_amount_def f spec [OF l])
  show ?thesis
    by (cases x) (simp_all add: books_def plan_batch(1) [OF plan] sums amount pending f bt_sum_map_insert none carried_def a)
qed

lemma finalize_inv:
  assumes "program_finalize c p i at = Ok (p', a)" and "program_inv c p"
  shows "program_inv c p'"
proof (cases "bt_get (allocations p) i")
  case (Some b)
  then show ?thesis using assms by (auto simp: program_finalize_def require_complete_def split: if_splits)
next
  case None
  have "program_atomic p at (finalize_step c i at) = Ok (p', a)"
    using assms(1) None by (simp add: program_finalize_def require_complete_def split: if_splits)
  then show ?thesis
  proof (rule program_atomic_inv [OF _ assms(2)])
    fix q
    assume st: "finalize_step c i at p = Ok (q, a)" and ok: "books_ok p" "records_ok c at p"
    obtain s p1 p2 p3 batch' where
      plan: "distribution_plan c p i s p1 p2 batch' (aa_newly_eligible a) (aa_corporate_share a) (aa_member_contribution a) (aa_each a) (aa_remainder a)"
      and t: "as_cutoff s \<le> at" "aa_schedule a = s" "aa_finalized_at a = at"
        "aa_members a = qualifying_members p s" "aa_funding a = eligible_lots p s"
      and post: "program_post p2 at i batch' = Ok p3" and q: "q = put_allocation i a p3"
      using st ok None by (rule finalize_step_plan)
    note g = program_post_Ok(5-10) [OF post]
    obtain now where l: "\<forall>j. bt_get (lots p1) j = (if j \<in> set (eligible_lots p s) then map_option (assessed i) (bt_get (lots p) j) else bt_get (lots p) j)"
      using plan by (rule plan_assessment)
    note cr = plan_created [OF plan]
    have same: "lots p2 = lots p1" "gp_ledger p2 = gp_ledger p" "gp_journal p2 = gp_journal p" "gp_unit p2 = gp_unit p" "gp_scope p2 = gp_scope p"
      "members p2 = members p" "schedules p2 = schedules p" "allocations p2 = allocations p"
      by (subst cr(1), simp)+
    have rq: "gp_records q = gp_records (put_allocation i a p2)" by (simp add: q put_allocation_def g)
    have "books_ok q"
      by (rule post_keeps_books [OF post ok(1), where r = "put_allocation i a p2"])
        (use same rq in \<open>simp_all add: q plan_books [OF plan t(4)]\<close>)
    moreover have "records_ok c at q"
    proof -
      have "lot_ok (gp_scope p) (gp_unit p) j f" if "bt_get (lots p2) j = Some f" for j f
        using that ok(2) spec [OF l, of j] unfolding same records_ok_def by (auto intro: lot_ok_assessed split: if_splits)
      moreover have "pa_id x = j \<and> payable_ok c (gp_scope p) (gp_unit p) x" if "bt_get (payables p2) j = Some x" for j x
        using that ok(2) cr(2,3) [of j] unfolding records_ok_def fresh_payable_def by (cases "bt_get (payables p) j") auto
      ultimately have "records_ok c at p2"
        using ok(2) unfolding records_ok_def same by blast
      moreover have "check_allocation i a = Ok ()" by (rule plan_check [OF plan]) (simp_all add: t)
      ultimately have "records_ok c at (put_allocation i a p2)" by (rule records_ok_put_allocation)
      then show ?thesis using records_ok_cong [OF rq] by (simp add: q g)
    qed
    ultimately show "books_ok q \<and> records_ok c at q" ..
  qed
qed

end
