(* ===== verification/Program_Runs.thy ===== *)
theory Program_Runs
  imports Program_Finalize
begin

text \<open>
  The forfeiture program as a machine over everything its service calls: recorded forfeitures
  and reversals, the operator's commands, payouts and their receipts.  Its ledger always equals
  its books, it is stored and restored unchanged, a distribution divides exactly, and no call
  overdraws an account.
\<close>

section \<open>The machine\<close>

datatype program_input =
  InForfeiture forfeiture canonical_time
| InReversal payment_operation_id canonical_time
| InCommand program_command canonical_time
| InPayment allocation_id verified_bank_account canonical_time
| InReceipt allocation_id signed_payment_evidence bytes32 canonical_time

definition program_step ::
  "crypto \<Rightarrow> program \<Rightarrow> program_input \<Rightarrow> (program \<times> unit, program_error) res" where
  "program_step c p inp =
     (case inp of
        InForfeiture source at \<Rightarrow> program_record_forfeiture p source at
      | InReversal i at \<Rightarrow> program_note_reversal p i at
      | InCommand command at \<Rightarrow> map_ok (\<lambda>(p', _). (p', ())) (program_apply c p command at)
      | InPayment i bank at \<Rightarrow> map_ok (\<lambda>(p', _). (p', ())) (program_prepare_payment c p i bank at)
      | InReceipt i receipt key at \<Rightarrow> program_confirm_payout c p i receipt key at)"

lemma program_apply_inv:
  "program_apply c p command at = Ok (p', out) \<Longrightarrow> program_inv c p \<Longrightarrow> program_inv c p'"
  by (cases command)
    (auto simp: program_apply_def Let_def intro: compensate_inv enroll_inv set_membership_inv
      record_activity_inv publish_inv set_hold_inv clear_maturity_inv finalize_inv)

lemma program_step_inv:
  "program_inv c p \<Longrightarrow> program_step c p inp = Ok (p', u) \<Longrightarrow> program_inv c p'"
  by (cases inp)
    (auto simp: program_step_def intro: record_forfeiture_inv note_reversal_inv program_apply_inv
      prepare_payment_inv confirm_payout_inv)

lemma program_new_inv: "program_inv c (program_new scope unit)"
  by (simp add: program_inv_def program_new_books)
    (simp add: records_ok_def program_new_def records_default_def)

interpretation program: invariant_machine "program_step c" "program_inv c"
  by unfold_locales (rule program_step_inv)

lemmas program_reachable = program.run_inv [OF program_new_inv]

lemma reachable_view_ok: "books_ok p \<Longrightarrow> view_ok (ls_view (gp_ledger p))"
  by (auto simp: books_ok_def dest: total_value_view_ok)

text \<open>
  C12: However forfeitures, commands, payouts and receipts arrive, and whichever of them are
  refused, every account of the program's ledger equals what its records imply: each lot's
  contribution and what is still unassessed of it, what is owed to each member, the corporate
  share and the member funds carried over, the corrections charged to the operator and the
  payouts made; the journal's batches sum to the same balances.
\<close>

theorem program_accounts:
  "case run_machine (program_step c) (program_new scope unit) inputs of (p, _) \<Rightarrow>
     (\<forall>a. signed_balance (ls_view (gp_ledger p)) a =
        (case a of
           ProgramClearing i \<Rightarrow> (case bt_get (lots p) i of None \<Rightarrow> 0 | Some f \<Rightarrow> - uint (fo_amount (lot_source f)))
         | PendingForfeiture i \<Rightarrow> (case bt_get (lots p) i of None \<Rightarrow> 0
              | Some f \<Rightarrow> if is_assessed (lot_lifecycle f) then 0 else uint (fo_amount (lot_source f)))
         | MemberPayableAcc i \<Rightarrow> (case bt_get (payables p) i of None \<Rightarrow> 0 | Some x \<Rightarrow> uint (payable_outstanding x))
         | RestrictedMemberFunds \<Rightarrow> sum_list (map (\<lambda>d. uint (aa_member_contribution d)
              - uint (aa_each d) * int (length (aa_members d))) (bt_values (allocations p)))
         | CorporatePoolRevenue \<Rightarrow> sum_list (map (\<lambda>d. uint (aa_corporate_share d)) (bt_values (allocations p)))
         | CorporateLossClearing \<Rightarrow> - sum_list (map (\<lambda>x. if pa_correction x = None then 0 else uint (pa_amount x)) (bt_values (payables p)))
         | ProcessorClearing \<Rightarrow> sum_list (map (\<lambda>x. uint (pa_amount x) - uint (payable_outstanding x)) (bt_values (payables p)))
         | _ \<Rightarrow> 0))
     \<and> (\<forall>a. sum_list (map (\<lambda>e. net_flow a (je_batch e)) (gp_journal p)) = signed_balance (ls_view (gp_ledger p)) a)
     \<and> view_ok (ls_view (gp_ledger p))"
proof -
  obtain p outs where r: "run_machine (program_step c) (program_new scope unit) inputs = (p, outs)"
    by (cases "run_machine (program_step c) (program_new scope unit) inputs")
  have b: "books_ok p" using program_reachable [OF r] by (simp add: program_inv_def)
  have e: "(if h then - a else 0) = - (if h then a else (0::int))" for h a by simp
  show ?thesis
    using b reachable_view_ok [OF b] unfolding r prod.case books_ok_def books_def pending_amount_def lot_amount_def owed_in_def
      paid_out_def [abs_def] loss_of_def [abs_def] carried_def [abs_def]
    by (auto split: account.split option.split)
qed

section \<open>Storage\<close>

lemma check_members_Ok:
  "check_members seen xs = Ok () \<longleftrightarrow>
     (\<forall>e \<in> set xs. fst e = me_id (snd e) \<and> me_identity_digest (snd e) \<noteq> 0 \<and> me_changes (snd e) \<noteq> []
        \<and> (\<forall>(at, st) \<in> set (me_changes (snd e)). me_joined_at (snd e) \<le> at) \<and> sorted (map fst (me_changes (snd e))))
     \<and> distinct (map (me_identity_digest \<circ> snd) xs) \<and> set seen \<inter> (me_identity_digest \<circ> snd) ` set xs = {}"
  by (induction xs arbitrary: seen) (auto simp: list_ex_iff not_less)

lemma check_funding_Ok: "check_funding md xs = Ok () \<longleftrightarrow> (\<forall>e \<in> set xs. check_lot md (fst e) (snd e) = Ok ())"
  by (induction xs) auto

lemma check_lot_Ok:
  "check_lot md i f = Ok () \<longleftrightarrow> lot_ok (gm_scope md) (gm_unit md) i f \<and> fo_amount (lot_source f) \<noteq> 0"
  by (auto simp: check_lot_def lot_ok_def Let_def not_less split: option.splits)

lemma check_payables_Ok:
  "check_payables c md l xs = Ok () \<longleftrightarrow>
     (\<forall>e \<in> set xs. payable_ok c (gm_scope md) (gm_unit md) (snd e) \<and> fst e = pa_id (snd e)
        \<and> ledger_balance l (MemberPayableAcc (fst e)) = payable_outstanding (snd e))"
  by (induction xs) (auto simp: payable_ok_def)

lemma check_schedules_Ok:
  "check_schedules xs = Ok () \<longleftrightarrow> (\<forall>e \<in> set xs. fst e = as_id (snd e) \<and> is_calendar_year (snd e))"
  by (induction xs) auto

lemma check_allocations_Ok:
  "check_allocations xs = Ok () \<longleftrightarrow> (\<forall>e \<in> set xs. check_allocation (fst e) (snd e) = Ok ())"
  by (induction xs) auto

lemma program_load_store:
  assumes "program_inv c p"
  shows "program_load c (program_store p) = Ok p \<longleftrightarrow> (\<forall>i f. bt_get (lots p) i = Some f \<longrightarrow> fo_amount (lot_source f) \<noteq> 0)"
proof -
  have b: "books_ok p" and r: "records_ok c (gp_last_event_at p) p" using assms by (simp_all add: program_inv_def)
  have total: "total_value (ls_view (gp_ledger p)) = Ok 0" "lv_unit (ls_view (gp_ledger p)) = gp_unit p"
    using b by (simp_all add: books_ok_def)
  have entry: "(i, v) \<in> set (bt_entries m) \<longleftrightarrow> bt_get m i = Some v" for i v and m :: "(u128, 'v) btmap"
    by (simp add: bt_get_Some)
  have "distinct (map (me_identity_digest \<circ> snd) (bt_entries (members p)))"
  proof -
    have "inj_on (me_identity_digest \<circ> snd) (set (bt_entries (members p)))"
      using r by (auto simp: inj_on_def records_ok_def bt_get_Some [symmetric]) (metis option.inject)+
    then show ?thesis using bt_distinct [of "members p"] by (simp add: distinct_map)
  qed
  then have m: "check_members [] (bt_entries (members p)) = Ok ()"
    using r by (fastforce simp: check_members_Ok records_ok_def member_ok_def bt_get_Some)
  have f: "check_funding (program_metadata p) (bt_entries (lots p)) = Ok () \<longleftrightarrow>
      (\<forall>i f. bt_get (lots p) i = Some f \<longrightarrow> fo_amount (lot_source f) \<noteq> 0)"
    using r by (auto simp: check_funding_Ok check_lot_Ok program_metadata_def records_ok_def bt_get_Some)
  have balance: "ledger_balance (ls_view (gp_ledger p)) (MemberPayableAcc i) = payable_outstanding x"
    if "bt_get (payables p) i = Some x" for i x
  proof -
    have "uint (ledger_balance (ls_view (gp_ledger p)) (MemberPayableAcc i)) = uint (payable_outstanding x)"
      using ledger_balance_ok [OF reachable_view_ok [OF b], of "MemberPayableAcc i"] b that
      by (simp add: books_ok_def books_def owed_in_def)
    then show ?thesis by (simp only: word_uint_eq_iff)
  qed
  have y: "check_payables c (program_metadata p) (ls_view (gp_ledger p)) (bt_entries (payables p)) = Ok ()"
    using r balance by (fastforce simp: check_payables_Ok program_metadata_def records_ok_def bt_get_Some)
  have s: "check_schedules (bt_entries (schedules p)) = Ok ()" "check_allocations (bt_entries (allocations p)) = Ok ()"
    using r by (fastforce simp: check_schedules_Ok check_allocations_Ok records_ok_def bt_get_Some)+
  show ?thesis
    unfolding program_load_def program_restore_def program_store_def stored_program.simps f [symmetric]
    using total m y s by (cases "check_funding (program_metadata p) (bt_entries (lots p))")
      (auto simp: program_metadata_def)
qed

text \<open>
  A program reached by any calls comes back unchanged from its stored form, with every
  check of \<open>restore\<close> passed, exactly when none of its contributions is of amount zero.
\<close>

theorem program_restores:
  "case run_machine (program_step c) (program_new scope unit) inputs of (p, _) \<Rightarrow>
     program_load c (program_store p) = Ok p \<longleftrightarrow> list_all (\<lambda>f. fo_amount (lot_source f) \<noteq> 0) (bt_values (lots p))"
proof -
  obtain p outs where r: "run_machine (program_step c) (program_new scope unit) inputs = (p, outs)"
    by (cases "run_machine (program_step c) (program_new scope unit) inputs")
  show ?thesis using program_load_store [OF program_reachable [OF r]]
    by (auto simp: r list_all_iff bt_values_iff)
qed

section \<open>Distributions\<close>

lemma finalize_new:
  assumes "program_inv c p" and "program_finalize c p i at = Ok (p', a)" and "bt_get (allocations p) i = None"
  obtains s p1 p2 p3 batch' revision where
    "distribution_plan c p i s p1 p2 batch' (aa_newly_eligible a) (aa_corporate_share a) (aa_member_contribution a) (aa_each a) (aa_remainder a)"
    "bt_get (schedules p) i = Some s" "as_cutoff s \<le> at" "aa_schedule a = s" "aa_finalized_at a = at"
    "aa_members a = qualifying_members p s" "aa_funding a = eligible_lots p s"
    "program_post p2 at i batch' = Ok p3"
    "p' = (put_allocation i a p3)\<lparr>gp_last_event_at := at, gp_revision := revision\<rparr>" "gp_complete p"
proof -
  have c: "gp_complete p" and at: "program_atomic p at (finalize_step c i at) = Ok (p', a)"
    using assms(2,3) by (auto simp: program_finalize_def require_complete_def split: if_splits)
  obtain q revision where q: "finalize_step c i at p = Ok (q, a)" "p' = q\<lparr>gp_last_event_at := at, gp_revision := revision\<rparr>"
    using at by (rule program_atomic_Ok)
  obtain s p1 p2 p3 batch' where
    f: "distribution_plan c p i s p1 p2 batch' (aa_newly_eligible a) (aa_corporate_share a) (aa_member_contribution a) (aa_each a) (aa_remainder a)"
    "bt_get (schedules p) i = Some s" "as_cutoff s \<le> at" "aa_schedule a = s" "aa_finalized_at a = at"
    "aa_members a = qualifying_members p s" "aa_funding a = eligible_lots p s"
    "program_post p2 at i batch' = Ok p3" "q = put_allocation i a p3"
    using q(1) assms(1,3) unfolding program_inv_def by (elim conjE) (rule finalize_step_plan)
  show thesis by (rule that [OF f(1-8) _ c]) (use q(2) f(9) in simp)
qed

lemma finalize_first:
  assumes run: "run_machine (program_step c) (program_new scope unit) inputs = (p, outs)"
    and final: "program_finalize c p i at = Ok (p', a)" and first: "bt_get (allocations p) i = None"
  shows "\<exists>s. bt_get (schedules p) i = Some s \<and> as_cutoff s \<le> at
     \<and> set (aa_funding a) = {j. \<exists>f. bt_get (lots p) j = Some f \<and> lot_eligible_at f (as_cutoff s)} \<and> distinct (aa_funding a)
     \<and> set (aa_members a) = {m. \<exists>v. bt_get (members p) m = Some v \<and> member_qualifies v s} \<and> distinct (aa_members a)"
    and "uint (aa_newly_eligible a) = sum_list (map (lot_amount p) (aa_funding a))"
    and "uint (aa_corporate_share a) = corporate_due p (aa_funding a)"
    and "uint (aa_corporate_share a) + uint (aa_member_contribution a) = uint (aa_newly_eligible a)"
    and "uint (aa_each a) * int (length (aa_members a)) + uint (aa_remainder a)
       = signed_balance (ls_view (gp_ledger p)) RestrictedMemberFunds + uint (aa_member_contribution a)"
    and "if aa_members a = [] then aa_each a = 0 else uint (aa_remainder a) < int (length (aa_members a))"
    and "bt_get (lots p') j = (if j \<in> set (aa_funding a) then map_option (assessed i) (bt_get (lots p) j) else bt_get (lots p) j)"
    and "aa_each a \<noteq> 0 \<longrightarrow> m \<in> set (aa_members a) \<longrightarrow>
       (\<exists>x. bt_get (payables p') (allocation_id_of c (gp_scope p) (gp_unit p) i m) = Some x
         \<and> pa_member x = m \<and> pa_amount x = aa_each a \<and> pa_distribution x = i)"
    and "program_finalize c p' i later = Ok (p', a)"
proof -
  have inv: "program_inv c p" by (rule program_reachable [OF run])
  then have ok: "books_ok p" "records_ok c (gp_last_event_at p) p" by (simp_all add: program_inv_def)
  obtain s p1 p2 p3 batch' revision where
    plan: "distribution_plan c p i s p1 p2 batch' (aa_newly_eligible a) (aa_corporate_share a) (aa_member_contribution a) (aa_each a) (aa_remainder a)"
    and s: "bt_get (schedules p) i = Some s" "as_cutoff s \<le> at"
    and a: "aa_members a = qualifying_members p s" "aa_funding a = eligible_lots p s"
    and post: "program_post p2 at i batch' = Ok p3"
    and p': "p' = (put_allocation i a p3)\<lparr>gp_last_event_at := at, gp_revision := revision\<rparr>" and complete: "gp_complete p"
    using inv final first by (rule finalize_new)
  have l: "\<forall>j. bt_get (lots p1) j = (if j \<in> set (eligible_lots p s) then map_option (assessed i) (bt_get (lots p) j) else bt_get (lots p) j)"
    and sums: "uint (aa_newly_eligible a) = sum_list (map (lot_amount p) (eligible_lots p s))"
      "uint (aa_corporate_share a) = corporate_due p (eligible_lots p s)"
      "uint (aa_member_contribution a) = uint (aa_newly_eligible a) - uint (aa_corporate_share a)"
    using plan by (auto elim: plan_assessment)
  note cr = plan_created [OF plan]
  note g = program_post_Ok(5,9) [OF post]
  have f: "lots p' = lots p1" "payables p' = payables p2" "gp_complete p'" "bt_get (allocations p') i = Some a"
  proof -
    have "lots p2 = lots p1" "gp_complete p2" by (subst cr(1), simp add: complete)+
    then show "lots p' = lots p1" "payables p' = payables p2" "gp_complete p'" "bt_get (allocations p') i = Some a"
      by (simp_all add: p' g)
  qed
  show "\<exists>s. bt_get (schedules p) i = Some s \<and> as_cutoff s \<le> at
     \<and> set (aa_funding a) = {j. \<exists>f. bt_get (lots p) j = Some f \<and> lot_eligible_at f (as_cutoff s)} \<and> distinct (aa_funding a)
     \<and> set (aa_members a) = {m. \<exists>v. bt_get (members p) m = Some v \<and> member_qualifies v s} \<and> distinct (aa_members a)"
    using s eligible_lots_set [OF ok(2)] qualifying_members_set [OF ok(2)] by (intro exI [of _ s]) (auto simp: a)
  show "uint (aa_newly_eligible a) = sum_list (map (lot_amount p) (aa_funding a))"
    "uint (aa_corporate_share a) = corporate_due p (aa_funding a)"
    "uint (aa_corporate_share a) + uint (aa_member_contribution a) = uint (aa_newly_eligible a)"
    using sums by (simp_all add: a)
  show "uint (aa_each a) * int (length (aa_members a)) + uint (aa_remainder a)
       = signed_balance (ls_view (gp_ledger p)) RestrictedMemberFunds + uint (aa_member_contribution a)"
    using plan_division(1) [OF plan] ok(1) by (simp add: a books_ok_def)
  show "if aa_members a = [] then aa_each a = 0 else uint (aa_remainder a) < int (length (aa_members a))"
    using plan_division(2,3) [OF plan] by (simp add: a)
  show "bt_get (lots p') j = (if j \<in> set (aa_funding a) then map_option (assessed i) (bt_get (lots p) j) else bt_get (lots p) j)"
    using spec [OF l, of j] by (simp add: f a)
  show "aa_each a \<noteq> 0 \<longrightarrow> m \<in> set (aa_members a) \<longrightarrow>
       (\<exists>x. bt_get (payables p') (allocation_id_of c (gp_scope p) (gp_unit p) i m) = Some x
         \<and> pa_member x = m \<and> pa_amount x = aa_each a \<and> pa_distribution x = i)"
    using cr(4) [of m] by (auto simp: f a)
  show "program_finalize c p' i later = Ok (p', a)"
    by (simp add: program_finalize_def require_complete_def f)
qed

text \<open>
  C13: A distribution finalized for the first time takes exactly the lots cleared before its
  cutoff and the members who qualify; the newly eligible amount is the sum of those lots, the
  corporate share is per policy version the rate on that version's lots, rounded down once; what
  was carried over and the members' part is divided into equal allocations and a remainder
  smaller than the number of members.  Each lot is assessed to this distribution and to no other,
  every qualifying member is owed exactly the equal part by a payable of its own, and finalizing
  again, at any time, returns the same allocation and changes nothing.
\<close>

theorem annual_distribution_exact:
  assumes "run_machine (program_step c) (program_new scope unit) inputs = (p, outs)"
    and "program_finalize c p i at = Ok (p', a)" and "bt_get (allocations p) i = None"
  shows "(\<exists>s. bt_get (schedules p) i = Some s \<and> as_cutoff s \<le> at
     \<and> set (aa_funding a) = {j. \<exists>f. bt_get (lots p) j = Some f \<and> lot_eligible_at f (as_cutoff s)} \<and> distinct (aa_funding a)
     \<and> set (aa_members a) = {m. \<exists>v. bt_get (members p) m = Some v \<and> member_qualifies v s} \<and> distinct (aa_members a))
   \<and> uint (aa_newly_eligible a) = sum_list (map (lot_amount p) (aa_funding a))
   \<and> uint (aa_corporate_share a) = corporate_due p (aa_funding a)
   \<and> uint (aa_corporate_share a) + uint (aa_member_contribution a) = uint (aa_newly_eligible a)
   \<and> uint (aa_each a) * int (length (aa_members a)) + uint (aa_remainder a)
       = signed_balance (ls_view (gp_ledger p)) RestrictedMemberFunds + uint (aa_member_contribution a)
   \<and> (if aa_members a = [] then aa_each a = 0 else uint (aa_remainder a) < int (length (aa_members a)))
   \<and> (\<forall>j. bt_get (lots p') j =
        (if j \<in> set (aa_funding a) then map_option (assessed i) (bt_get (lots p) j) else bt_get (lots p) j))
   \<and> (aa_each a \<noteq> 0 \<longrightarrow> (\<forall>m \<in> set (aa_members a).
        \<exists>x. bt_get (payables p') (allocation_id_of c (gp_scope p) (gp_unit p) i m) = Some x
          \<and> pa_member x = m \<and> pa_amount x = aa_each a \<and> pa_distribution x = i))
   \<and> (\<forall>later. program_finalize c p' i later = Ok (p', a))"
  using finalize_first [OF assms] by blast

section \<open>Refusals\<close>

definition program_faults :: "program_error set" where
  "program_faults = {PrgLedger e | e. e \<noteq> LedgerArithmeticOverflow}"

lemma program_faults_iff [simp]:
  "PrgLedger e \<in> program_faults \<longleftrightarrow> e \<noteq> LedgerArithmeticOverflow"
  "PrgPayment x \<notin> program_faults" "PrgInvalidPolicy \<notin> program_faults" "PrgIncompleteSnapshot \<notin> program_faults"
  "PrgDuplicateConflict \<notin> program_faults" "PrgMissingRecord \<notin> program_faults" "PrgTooEarly \<notin> program_faults"
  "PrgClosedPeriod \<notin> program_faults" "PrgTimeRegression \<notin> program_faults" "PrgInsufficientEvidence \<notin> program_faults"
  "PrgInvalidPayment \<notin> program_faults" "PrgArithmeticOverflow \<notin> program_faults"
  by (auto simp: program_faults_def)

lemma sound_post:
  assumes "books_ok p" and "gp_ledger q = gp_ledger p" and "is_balanced batch" and "covered (books p) batch"
  shows "sound program_faults (program_post q at cause batch)"
proof -
  let ?l = "gp_ledger p"
  have cov: "covered (signed_balance (ls_view ?l)) batch"
  proof -
    have "signed_balance (ls_view ?l) = books p" using assms(1) by (auto simp: books_ok_def fun_eq_iff)
    then show ?thesis using assms(4) by simp
  qed
  have "ledger_apply ?l (lv_revision (ls_view ?l)) batch \<noteq> Panic"
    by (simp add: ledger_apply_def view_apply_no_panic)
  moreover have "e = LedgerArithmeticOverflow" if "ledger_apply ?l (lv_revision (ls_view ?l)) batch = Err e" for e
    using that view_apply_only_overflow [OF _ reachable_view_ok [OF assms(1)] assms(3) cov]
    by (auto simp: ledger_apply_def res_simps)
  ultimately show ?thesis
    unfolding program_post_def assms(2)
    by (cases "ledger_apply ?l (lv_revision (ls_view ?l)) batch") (auto simp: sound_def)
qed

text \<open>The payment layer cannot panic, and its errors are not ledger errors.\<close>

lemma payment_never_panics:
  "operation_validate op \<noteq> Panic" "evidence_verify c receipt key op \<noteq> Panic" "next_state st e \<noteq> Panic"
  "px_new op \<noteq> Panic" "px_retry x i \<noteq> Panic" "px_validate c x \<noteq> Panic" "px_record c x receipt key \<noteq> Panic"
proof -
  show v: "operation_validate op \<noteq> Panic" for op by (simp add: operation_validate_def split: payment_kind.split)
  show e: "evidence_verify c receipt key op \<noteq> Panic" for op by (simp add: evidence_verify_def Let_def)
  show n: "next_state st e \<noteq> Panic" for st e
    by (cases st; cases "pe_outcome e") (simp_all add: next_state_def Let_def)
  have a: "validate_attempts c events first seen xs \<noteq> Panic" for events first seen xs
    by (induction xs arbitrary: seen) (simp_all add: v)
  have b: "validate_events c x xs \<noteq> Panic" for xs
    by (induction xs) (auto simp: Let_def n split: prod.splits)
  show "px_new op \<noteq> Panic" "px_retry x i \<noteq> Panic" "px_validate c x \<noteq> Panic"
    by (simp_all add: px_new_def px_retry_def px_validate_def Let_def v a b)
  show "px_record c x receipt key \<noteq> Panic"
    by (auto simp: px_record_def Let_def e n split: option.split)
qed

lemma sound_payment:
  "r \<noteq> Panic \<Longrightarrow> sound program_faults (map_err PrgPayment r)"
  by (cases r) (auto simp: sound_def program_faults_def)

lemma sound_payable_validate: "sound program_faults (payable_validate c x scope unit)"
  unfolding payable_validate_def Let_def
  by (intro sound_intros sound_payment payment_never_panics) simp_all

lemma sound_payable_new: "sound program_faults (payable_new c i m d a t sc u co)"
  unfolding payable_new_def Let_def by (intro sound_intros sound_payable_validate)

lemma sound_payable_prepare: "sound program_faults (payable_prepare c x bank at)"
  unfolding payable_prepare_def Let_def
  by (intro sound_intros sound_payment payment_never_panics; (simp split: payment_state.split)?)
    (auto intro!: sound_intros sound_payment payment_never_panics split: payment_state.split)

lemma sound_payable_receipt: "sound program_faults (payable_record_receipt c x receipt key)"
  unfolding payable_record_receipt_def
  by (intro sound_intros sound_payment payment_never_panics) simp_all

text \<open>Each operation.\<close>

lemma sound_atomic:
  "sound program_faults (f p) \<Longrightarrow> sound program_faults (program_atomic p at f)"
  unfolding program_atomic_def by (intro sound_intros) simp_all

lemma sound_require_complete: "sound program_faults (require_complete p)"
  unfolding require_complete_def by (intro sound_intros) simp_all

lemma sound_lot_ops:
  "sound program_faults (lot_set_hold f held)" "sound program_faults (lot_clear f evidence at)"
  "sound program_faults (lot_assess f d)" "sound program_faults (terms_validate t)"
  unfolding lot_set_hold_def lot_clear_def lot_assess_def terms_validate_def
  by ((intro sound_intros; simp), (intro sound_intros; simp), (cases "lot_lifecycle f"; auto intro: sound_intros), (intro sound_intros; simp))

lemmas program_sound = sound_intros sound_atomic sound_require_complete sound_lot_ops sound_payable_validate
  sound_payable_new sound_payable_prepare sound_payable_receipt

lemma sound_record_forfeiture:
  assumes "books_ok p" shows "sound program_faults (program_record_forfeiture p source at)"
  unfolding program_record_forfeiture_def
  by (intro program_sound sound_post [OF assms]) (simp_all add: covered_batch_transfer)

lemma sound_assess_lot: "sound program_faults (assess_lot d x i)"
  unfolding assess_lot_def Let_def by (intro program_sound) simp_all

lemma sound_assess_lots: "sound program_faults (assess_lots d ids x)"
  by (induction ids arbitrary: x) (auto intro!: program_sound sound_assess_lot)

lemma sound_corporate_shares: "sound program_faults (corporate_shares gs acc)"
  by (induction gs arbitrary: acc) (auto intro!: program_sound)

lemma sound_assess_funding: "sound program_faults (assess_funding p ids s batch)"
  unfolding assess_funding_def by (intro program_sound sound_assess_lots sound_corporate_shares) simp_all

lemma sound_allocate_members: "sound program_faults (allocate_members c s each ms p batch)"
  by (induction ms arbitrary: p batch) (auto simp: Let_def intro!: program_sound)

lemma plan_covered:
  assumes plan: "distribution_plan c p i s p1 p2 batch' new corporate contribution each remainder"
  shows "covered (books p) batch'"
proof (rule plan_batch(3) [OF plan])
  obtain now where ok: "books_ok p" "records_ok c now p" using plan by (rule plan_assessment)
  fix j assume "j \<in> set (eligible_lots p s)"
  then obtain f where f: "bt_get (lots p) j = Some f" "lot_eligible_at f (as_cutoff s)"
    using eligible_lots_set(2) [OF ok(2)] by blast
  then have "\<not> is_assessed (lot_lifecycle f)" by (auto simp: lot_eligible_at_def split: lot_lifecycle.splits)
  then show "lot_amount p j \<le> books p (PendingForfeiture j)"
    using f(1) by (simp add: books_def pending_amount_def lot_amount_def)
next
  obtain now where ok: "books_ok p" using plan by (rule plan_assessment)
  then show "0 \<le> books p RestrictedMemberFunds"
    using ledger_balance_ok [OF reachable_view_ok [OF ok], of RestrictedMemberFunds] by (auto simp: books_ok_def) (metis uint_ge_0)
  show "uint each * int (length (qualifying_members p s)) \<le> books p RestrictedMemberFunds + uint contribution"
    using plan_division(1) [OF plan] uint_ge_0 [of remainder] by linarith
qed

lemma sound_plan_post:
  assumes "books_ok p" "records_ok c now p" "bt_get (schedules p) i = Some s" "bt_get (allocations p) i = None"
    "assess_funding p (eligible_lots p s) s [] = Ok (p1, batch, new, corporate, contribution)"
    "money_checked_add (ledger_balance (ls_view (gp_ledger p1)) RestrictedMemberFunds) contribution = Some available"
    "try_word (int (length (qualifying_members p s))) = Some n"
    "(if (if n = 0 then 0 else available div n) = 0 then Ok (p1, batch)
      else allocate_members c s (if n = 0 then 0 else available div n) (qualifying_members p s) p1 batch) = Ok (p2, batch')"
  shows "sound program_faults (program_post p2 at cause batch')"
proof -
  have plan: "distribution_plan c p i s p1 p2 batch' new corporate contribution
      (if n = 0 then 0 else available div n) (if n = 0 then available else available mod n)"
    unfolding distribution_plan_def using assms by blast
  note cr = plan_created(1) [OF plan]
  have "gp_ledger p2 = gp_ledger p" by (subst cr) simp
  then show ?thesis by (rule sound_post [OF assms(1) _ plan_batch(2) [OF plan] plan_covered [OF plan]])
qed

lemma sound_finalize_step:
  assumes "books_ok p" and "records_ok c now p" and "bt_get (allocations p) i = None"
  shows "sound program_faults (finalize_step c i at p)"
  unfolding finalize_step_def Let_def
proof (rule sound_and_then, rule sound_ok_or, simp, rule sound_fail_if, simp, rule sound_fail_if, simp,
    rule sound_and_then [OF sound_assess_funding], goal_cases)
  case (1 s r)
  obtain p1 batch new corporate contribution where r: "r = (p1, batch, new, corporate, contribution)" by (cases r)
  note post = sound_plan_post [OF assms(1,2) _ assms(3) 1(4) [unfolded r]]
  show ?case unfolding r prod.case
    by (intro program_sound sound_allocate_members post) (use 1(1) in simp_all)
qed

lemma sound_lot_updates:
  "sound program_faults (program_set_hold p i hold at)" "sound program_faults (program_clear_maturity p i evidence at)"
  "sound program_faults (program_note_reversal p i at)"
  unfolding program_set_hold_def program_clear_maturity_def program_note_reversal_def
  by (intro program_sound; simp)+

lemma sound_member_updates:
  "sound program_faults (program_enroll p m digest status at)" "sound program_faults (program_set_membership p m status at)"
  "sound program_faults (program_record_activity p m activity at)" "sound program_faults (program_publish p s at)"
  unfolding program_enroll_def program_set_membership_def program_record_activity_def program_publish_def
  by (intro program_sound; simp)+

lemma sound_finalize:
  assumes "program_inv c p" shows "sound program_faults (program_finalize c p i at)"
  unfolding program_finalize_def
  by (intro program_sound sound_finalize_step [of p c "gp_last_event_at p"]) (use assms in \<open>simp_all add: program_inv_def\<close>)

lemma sound_prepare_payment: "sound program_faults (program_prepare_payment c p i bank at)"
  unfolding program_prepare_payment_def by (intro program_sound) simp_all

lemma sound_confirm_payout:
  assumes "program_inv c p" shows "sound program_faults (program_confirm_payout c p i receipt key at)"
  unfolding program_confirm_payout_def Let_def
proof (rule sound_and_then, rule sound_ok_or, simp, rule sound_and_then [OF sound_payable_receipt], goal_cases)
  case (1 x r)
  obtain x' batch where r: "r = (x', batch)" by (cases r)
  have b: "books_ok p" and x: "bt_get (payables p) i = Some x" "payable_record_receipt c x receipt key = Ok (x', batch)"
    using assms 1 by (simp_all add: program_inv_def r)
  have v: "payable_ok c (gp_scope p) (gp_unit p) x" "pa_id x = i"
    using assms x(1) by (auto simp: program_inv_def records_ok_def)
  note f = payable_receipt_frame [OF x(2) v(1)]
  obtain change where "batch = (case change of
           ChangeSettled \<Rightarrow> batch_transfer (MemberPayableAcc (pa_id x)) ProcessorClearing (pa_amount x) []
         | ChangeReversed \<Rightarrow> batch_transfer ProcessorClearing (MemberPayableAcc (pa_id x)) (pa_amount x) []
         | ChangeNone \<Rightarrow> [])"
    using x(2) by (auto simp: payable_record_receipt_def)
  then have "batch = [] \<or> (\<exists>t. batch = [t])" by (cases change) (simp_all add: batch_transfer_def)
  moreover have "uint (payable_outstanding x) = books p (MemberPayableAcc i)"
    by (simp add: books_def owed_in_def x(1))
  ultimately have cov: "covered (books p) batch"
    using f(7) v(2) by auto
  show ?case unfolding r prod.case
    by (intro program_sound sound_post [OF b _ f(5) cov]) simp_all
qed

lemma sound_compensate:
  assumes "program_inv c p" shows "sound program_faults (program_compensate c p event m d amount reason at)"
proof -
  have b: "books_ok p" using assms by (simp add: program_inv_def)
  show ?thesis unfolding program_compensate_def Let_def
    by (intro program_sound sound_post [OF b]) (auto simp: covered_batch_transfer bt_has_def)
qed

lemma sound_program_step:
  assumes "program_inv c p" shows "sound program_faults (program_step c p inp)"
proof (cases inp)
  case (InForfeiture source at)
  then show ?thesis using assms sound_record_forfeiture by (simp add: program_step_def program_inv_def)
next
  case (InCommand command at)
  have "sound program_faults (program_apply c p command at)"
    by (cases command)
      (auto simp: program_apply_def Let_def
        intro!: sound_map_ok sound_compensate sound_member_updates sound_lot_updates sound_finalize assms)
  then show ?thesis by (simp add: InCommand program_step_def sound_map_ok)
qed (use assms in \<open>auto simp: program_step_def intro!: sound_map_ok sound_lot_updates sound_prepare_payment sound_confirm_payout\<close>)

text \<open>
  No call on a reachable program panics, and none is refused by its ledger for want of
  funds, an unbalanced batch or a stale revision: the one ledger refusal left is a value that no
  longer fits its range.
\<close>

theorem program_never_overdraws:
  assumes "run_machine (program_step c) (program_new scope unit) inputs = (p, outs)"
  shows "program_step c p inp \<noteq> Panic \<and> (\<forall>e. program_step c p inp = Err (PrgLedger e) \<longrightarrow> e = LedgerArithmeticOverflow)"
  using sound_program_step [OF program_reachable [OF assms], of inp] by (auto simp: sound_def program_faults_def)

end
