(* ===== verification/Program_Samples.thy ===== *)
theory Program_Samples
  imports Program_Runs
begin

text \<open>
  A program in use: one member, one contribution of 10000 at 2500 basis points and the year 1970.
\<close>

section \<open>The year 1970\<close>

definition sample_year :: annual_schedule where
  "sample_year = \<lparr>as_id = 1970, as_start = 0, as_cutoff = 31536000000,
     as_eligibility = \<lparr>el_version = 1, el_minimum_tenure = 0, el_minimum_active_days = 1\<rparr>,
     as_payment = \<lparr>di_version = 1, di_utility_charge = 100, di_due_at = 31536000000\<rparr>\<rparr>"

lemma year_starts: "calendar_date 1970 1 1 = Some 0" "calendar_date 1971 1 1 = Some 31536000000"
proof -
  have "days_before_year 1970 = 0" by (simp add: days_before_year_def)
  moreover have "days_before_year 1971 = 365"
    by (simp add: days_before_year_def upt_conv_Cons year_days_def leap_def)
  ultimately show "calendar_date 1970 1 1 = Some 0" "calendar_date 1971 1 1 = Some 31536000000"
    by (simp_all add: calendar_date_def month_lengths_def day_number_def)
qed

lemma sample_calendar: "is_calendar_year sample_year"
  by (simp add: is_calendar_year_def sample_year_def u16_of_def schedule_utc_def year_starts checked_add_def)

lemmas sample_year_fields [simp] =
  sample_year_def [THEN arg_cong [of _ _ as_start], simplified] sample_year_def [THEN arg_cong [of _ _ as_cutoff], simplified]
  sample_year_def [THEN arg_cong [of _ _ as_id], simplified] sample_year_def [THEN arg_cong [of _ _ as_eligibility], simplified]
  sample_year_def [THEN arg_cong [of _ _ as_payment], simplified]

section \<open>A year of the program\<close>

definition sample_status :: membership_status where
  "sample_status = \<lparr>mst_opted_in = True, mst_verified = True, mst_suspended = False\<rparr>"

definition sample_contribution :: forfeiture where
  "sample_contribution = \<lparr>fo_id = 7, fo_amount = 10000, fo_unit = 1, fo_forfeited_at = 0,
     fo_requires_review = False, fo_terms = sample_terms\<rparr>"

definition sample_inputs :: "program_input list" where
  "sample_inputs =
     [InCommand (CmdPublishAnnualDistribution sample_year) 0, InCommand (CmdEnroll 5 6 sample_status) 0,
      InCommand (CmdRecordActivity 5 ActRead) 0, InForfeiture sample_contribution 0,
      InCommand (CmdClearMaturity 7 9) 10]"

definition sample_program :: program where
  "sample_program =
     \<lparr>gp_scope = sample_scope, gp_unit = 1, gp_revision = 5, gp_complete = True,
      gp_ledger = \<lparr>ls_view = \<lparr>lv_revision = 1, lv_unit = 1,
         lv_balances = [(ProgramClearing 7, - 10000), (PendingForfeiture 7, 10000)]\<rparr>\<rparr>,
      gp_records = \<lparr>
         own_funding = bt_insert 7 \<lparr>lot_source = sample_contribution, lot_lifecycle = LotCleared \<lparr>mc_at = 10, mc_evidence = 9\<rparr>\<rparr> bt_empty,
         own_members = bt_insert 5 \<lparr>me_id = 5, me_identity_digest = 6, me_joined_at = 0,
            me_changes = [(0, sample_status)], me_activity_days = {|0|}\<rparr> bt_empty,
         own_schedules = bt_insert 1970 sample_year bt_empty, own_allocations = bt_empty, own_payables = bt_empty\<rparr>,
      gp_journal = [\<lparr>je_at = 0, je_cause = 7,
         je_batch = [\<lparr>tr_from = ProgramClearing 7, tr_to = PendingForfeiture 7, tr_amount = 10000\<rparr>]\<rparr>],
      gp_last_event_at = 10\<rparr>"

lemmas program_eval = program_step_def program_apply_def program_publish_def program_enroll_def program_record_activity_def
  program_record_forfeiture_def program_clear_maturity_def program_atomic_def require_complete_def program_new_def
  records_default_def program_post_def put_lot_def put_member_def lot_clear_def lot_set_hold_def
  ledger_apply_def view_apply_def total_value_def apply_transfer_def batch_transfer_def
  is_balanced_def ledger_new_def view_from_balances_def bt_values_def bt_has_def permits_negative_def
  checked_add_def i128_checked_def try_word_def time_checked_add_def money_checked_add_def
  u64_max_def less_account_def less_eq_account_def terms_validate_def bt_collect_def bt_insert_twice

lemma sample_program_run:
  "run_machine (program_step sample_crypto) (program_new sample_scope 1) sample_inputs
     = (sample_program, [(), (), (), (), ()])"
  by (simp add: sample_inputs_def sample_program_def program_eval sample_calendar sample_terms_def sample_contribution_def
      cong: lazily)

lemma sample_allocation_id: "allocation_id_of sample_crypto sample_scope 1 1970 5 = 6"
proof -
  have "be_bytes 16 w = be_bytes 15 (drop_bit 8 w) @ [ucast w]" for w :: u128
    using be_bytes.simps(2) [of 15 w] by simp
  then show ?thesis by (simp add: allocation_id_of_def allocation_preimage_def sample_crypto_def high_u128_def)
qed

lemma sample_active: "ffilter P {|x|} = (if P x then {|x|} else {||})" by auto

lemma sample_finalizes:
  "map_ok (\<lambda>(_, a). (aa_newly_eligible a, aa_corporate_share a, aa_each a, aa_remainder a, aa_members a))
     (program_finalize sample_crypto sample_program 1970 31536000000) = Ok (10000, 2500, 7500, 0, [5])"
  by (simp add: sample_program_def program_eval program_finalize_def finalize_step_def qualifying_members_def eligible_lots_def
      member_qualifies_def sample_status_def lot_eligible_at_def assess_funding_def assess_lot_def sample_contribution_def
      sample_terms_def lot_assess_def corporate_shares.simps money_checked_sub_def checked_sub_def ledger_balance_def
      signed_balance_def put_payable_def put_allocation_def sample_allocation_id sample_active fcard_finsert_if payable_new_def
      payable_validate_def u16_of_def year_starts day_millis_def Let_def
      cong: lazily)

lemma sample_finalized:
  obtains p' a where "program_finalize sample_crypto sample_program 1970 31536000000 = Ok (p', a)"
    "aa_each a = 7500" "aa_remainder a = 0" "aa_members a = [5]"
  using sample_finalizes by (auto simp: map_ok_eq)

lemma annual_distribution_exact_witness:
  "\<exists>p' a. program_finalize sample_crypto sample_program 1970 31536000000 = Ok (p', a) \<and> aa_members a = [5]
     \<and> 7500 = signed_balance (ls_view (gp_ledger sample_program)) RestrictedMemberFunds + uint (aa_member_contribution a)
     \<and> program_finalize sample_crypto p' 1970 0 = Ok (p', a)"
proof -
  obtain p' a where f: "program_finalize sample_crypto sample_program 1970 31536000000 = Ok (p', a)"
    and a: "aa_each a = 7500" "aa_remainder a = 0" "aa_members a = [5]" by (rule sample_finalized)
  have n: "bt_get (allocations sample_program) 1970 = None" by (simp add: sample_program_def)
  show ?thesis using annual_distribution_exact [OF sample_program_run f n] f a by simp
qed

lemma program_never_overdraws_witness:
  "program_step sample_crypto sample_program (InCommand (CmdFinalizeAnnualDistribution 1970) 31536000000) \<noteq> Panic"
  using program_never_overdraws [OF sample_program_run] by blast

section \<open>Records the program accepts and its storage or its year refuses\<close>

text \<open>
  \<open>record_forfeiture\<close> does not refuse an amount of zero, \<open>restore\<close> does: the program then no
  longer passes its own deserialization.
\<close>

lemma zero_contribution_not_restored:
  "case run_machine (program_step sample_crypto) (program_new sample_scope 1)
      [InForfeiture (sample_contribution\<lparr>fo_amount := 0\<rparr>) 0] of (p, _) \<Rightarrow>
     program_load sample_crypto (program_store p) = Err PrgInvalidPolicy"
  by (simp add: program_eval sample_terms_def sample_contribution_def program_load_def program_restore_def program_store_def
      program_metadata_def check_lot_def cong: lazily)

text \<open>
  \<open>enroll\<close> does not refuse the member identifier zero, \<open>MemberPayable::new\<close> does: a year in which
  that member qualifies cannot be finalized.
\<close>

lemma zero_member_blocks_the_year:
  "case run_machine (program_step sample_crypto) (program_new sample_scope 1)
      [InCommand (CmdPublishAnnualDistribution sample_year) 0, InCommand (CmdEnroll 0 6 sample_status) 0,
       InCommand (CmdRecordActivity 0 ActRead) 0, InForfeiture sample_contribution 0,
       InCommand (CmdClearMaturity 7 9) 10] of (p, _) \<Rightarrow>
     program_finalize sample_crypto p 1970 31536000000 = Err PrgInvalidPayment"
  by (simp add: program_eval sample_calendar sample_terms_def sample_contribution_def program_finalize_def finalize_step_def
      qualifying_members_def eligible_lots_def member_qualifies_def sample_status_def lot_eligible_at_def assess_funding_def
      assess_lot_def lot_assess_def money_checked_sub_def checked_sub_def ledger_balance_def signed_balance_def
      put_payable_def sample_active fcard_finsert_if payable_new_def payable_validate_def u16_of_def year_starts day_millis_def Let_def
      cong: lazily)

end
