(* ===== verification/Billing.thy ===== *)
theory Billing
  imports Execution
begin

text \<open>
  Annual service contracts of \<open>crates/cs-mail-billing/src/lib.rs\<close> and their signed commands
  (\<open>commands.rs\<close>): service periods with their leap-day rule, published offers, contracts and
  their one collection, and the billing account that holds them.  A refused operation leaves the
  account as it was: the source changes a clone of the contract and bumps the revision last.
\<close>

section \<open>Service periods\<close>

datatype billing_error =
  BillServiceNotCovered | BillInvalidSchedule | BillConflict | BillOverflow | BillTooEarly | BillMissingRecord
| BillPayment payment_error

datatype leap_day_rule = February28 | March1

record period_anchor =
  pn_year :: u16
  pn_month :: u8
  pn_day :: u8
  pn_leap_day :: leap_day_rule

record service_period =
  sp_anchor :: period_anchor
  sp_start :: canonical_time
  sp_end :: canonical_time

definition period_date :: "u8 \<Rightarrow> u8 \<Rightarrow> leap_day_rule \<Rightarrow> u16 \<Rightarrow> (canonical_time, billing_error) res" where
  "period_date month day rule year =
     ok_or (case calendar_date year month day of
        Some t \<Rightarrow> Some t
      | None \<Rightarrow>
          if month \<noteq> 2 \<or> day \<noteq> 29 then None
          else (case rule of February28 \<Rightarrow> calendar_date year 2 28 | March1 \<Rightarrow> calendar_date year 3 1))
       BillInvalidSchedule"

definition period_annual :: "u16 \<Rightarrow> u8 \<Rightarrow> u8 \<Rightarrow> leap_day_rule \<Rightarrow> (service_period, billing_error) res" where
  "period_annual year month day rule =
     and_then (period_date month day rule year) (\<lambda>start.
     and_then (ok_or (checked_add year 1) BillOverflow) (\<lambda>following.
     and_then (period_date month day rule following) (\<lambda>finish.
     Ok \<lparr>sp_anchor = \<lparr>pn_year = year, pn_month = month, pn_day = day, pn_leap_day = rule\<rparr>,
         sp_start = start, sp_end = finish\<rparr>)))"

definition period_contains :: "service_period \<Rightarrow> canonical_time \<Rightarrow> bool" where
  "period_contains p at \<longleftrightarrow> sp_start p \<le> at \<and> at < sp_end p"

text \<open>\<open>TryFrom<PeriodAnchor>\<close>: only the anchor of a period is stored.\<close>

definition period_load :: "period_anchor \<Rightarrow> (service_period, billing_error) res" where
  "period_load v = period_annual (pn_year v) (pn_month v) (pn_day v) (pn_leap_day v)"

section \<open>Offers\<close>

record service_offer =
  so_version :: policy_version
  so_period :: service_period
  so_collect_at :: canonical_time
  so_price :: money
  so_unit :: settlement_unit

definition offer_new ::
  "policy_version \<Rightarrow> service_period \<Rightarrow> canonical_time \<Rightarrow> money \<Rightarrow> settlement_unit
     \<Rightarrow> (service_offer, billing_error) res" where
  "offer_new version period collect_at price unit =
     fail_if (version = 0 \<or> price = 0 \<or> collect_at \<ge> sp_start period) BillInvalidSchedule
     (Ok \<lparr>so_version = version, so_period = period, so_collect_at = collect_at, so_price = price,
          so_unit = unit\<rparr>)"

text \<open>\<open>TryFrom<StoredOffer>\<close>, with the anchor of its period.\<close>

record stored_offer =
  to_version :: policy_version
  to_period :: period_anchor
  to_collect_at :: canonical_time
  to_price :: money
  to_unit :: settlement_unit

definition offer_store :: "service_offer \<Rightarrow> stored_offer" where
  "offer_store v =
     \<lparr>to_version = so_version v, to_period = sp_anchor (so_period v), to_collect_at = so_collect_at v,
      to_price = so_price v, to_unit = so_unit v\<rparr>"

definition offer_load :: "stored_offer \<Rightarrow> (service_offer, billing_error) res" where
  "offer_load v =
     and_then (period_load (to_period v)) (\<lambda>period.
     offer_new (to_version v) period (to_collect_at v) (to_price v) (to_unit v))"

section \<open>Contracts\<close>

datatype service_settlement =
  Unfunded
| is_funded: ServiceFunded canonical_time
| ServiceReversed canonical_time

record service_contract =
  sk_id :: service_contract_id
  sk_offer :: service_offer
  sk_processor_key :: bytes32
  sk_collection :: payment_execution
  sk_settlement :: service_settlement

definition contract_covers :: "service_contract \<Rightarrow> canonical_time \<Rightarrow> bool" where
  "contract_covers k at \<longleftrightarrow>
     (case sk_settlement k of ServiceFunded paid \<Rightarrow> paid \<le> at | _ \<Rightarrow> False)
     \<and> period_contains (so_period (sk_offer k)) at"

definition billing_preimage :: "financial_scope \<Rightarrow> bytes \<Rightarrow> u128 \<Rightarrow> u128 \<Rightarrow> bytes" where
  "billing_preimage scope purpose owner cycle =
     str_bytes ''cs-mail/billing-operation/v2'' @ scope_canonical_bytes scope
     @ be_bytes 8 (of_nat (length purpose) :: u64) @ purpose @ be_bytes 16 owner @ be_bytes 16 cycle"

definition billing_operation_id ::
  "crypto \<Rightarrow> financial_scope \<Rightarrow> bytes \<Rightarrow> u128 \<Rightarrow> u128 \<Rightarrow> payment_operation_id" where
  "billing_operation_id c scope purpose owner cycle =
     high_u128 (cr_sha256 c (billing_preimage scope purpose owner cycle))"

definition contract_retry ::
  "crypto \<Rightarrow> service_contract \<Rightarrow> (service_contract \<times> payment_operation, billing_error) res" where
  "contract_retry c k =
     (let i = billing_operation_id c (op_scope (px_current (sk_collection k))) (str_bytes ''service-attempt'')
         (sk_id k) (of_nat (px_attempt_count (sk_collection k))) in
      and_then (map_err BillPayment (px_retry (sk_collection k) i)) (\<lambda>(collection, operation).
      Ok (k\<lparr>sk_collection := collection\<rparr>, operation)))"

definition contract_record ::
  "crypto \<Rightarrow> service_contract \<Rightarrow> signed_payment_evidence \<Rightarrow> canonical_time
     \<Rightarrow> (service_contract \<times> ledger_batch, billing_error) res" where
  "contract_record c k receipt at =
     fail_if (at < so_collect_at (sk_offer k)) BillTooEarly
     (and_then (map_err BillPayment (px_record c (sk_collection k) receipt (sk_processor_key k)))
       (\<lambda>(collection, change).
      let next = k\<lparr>sk_collection := collection\<rparr> in
      case change of
        ChangeSettled \<Rightarrow>
          Ok (next\<lparr>sk_settlement := ServiceFunded at\<rparr>,
              batch_transfer ProcessorClearing (UtilityServiceReceipts (sk_id k)) (so_price (sk_offer k)) [])
      | ChangeReversed \<Rightarrow>
          (case sk_settlement k of
             ServiceFunded paid \<Rightarrow>
               Ok (next\<lparr>sk_settlement := ServiceReversed paid\<rparr>,
                   batch_transfer CorporateLossClearing ProcessorClearing (so_price (sk_offer k)) [])
           | _ \<Rightarrow> Err BillConflict)
      | ChangeNone \<Rightarrow> Ok (next, [])))"

definition contract_validate :: "crypto \<Rightarrow> service_contract \<Rightarrow> (unit, billing_error) res" where
  "contract_validate c k =
     and_then (map_err BillPayment (px_validate c (sk_collection k))) (\<lambda>_.
     let op = px_current (sk_collection k) in
     fail_if (sk_id k = 0 \<or> px_operation (sk_collection k) (sk_id k) = None \<or> sk_processor_key k = 0
        \<or> op_kind op \<noteq> Capture \<or> op_amount op \<noteq> so_price (sk_offer k) \<or> op_unit op \<noteq> so_unit (sk_offer k)) BillConflict
     (case (px_state (sk_collection k), sk_settlement k) of
        (PayPending, Unfunded) \<Rightarrow> Ok ()
      | (PayFailed _, Unfunded) \<Rightarrow> Ok ()
      | (PayVoided _, Unfunded) \<Rightarrow> Ok ()
      | (PaySettled _, ServiceFunded at) \<Rightarrow> fail_if (at < so_collect_at (sk_offer k)) BillConflict (Ok ())
      | (PayReversed _ _, ServiceReversed at) \<Rightarrow> fail_if (at < so_collect_at (sk_offer k)) BillConflict (Ok ())
      | _ \<Rightarrow> Err BillConflict))"

section \<open>Billing accounts\<close>

record billing_account =
  ba_bank :: verified_bank_account
  ba_revision :: u64
  ba_contracts :: "(service_contract_id, service_contract) btmap"

definition billing_new :: "verified_bank_account \<Rightarrow> billing_account" where
  "billing_new bank = \<lparr>ba_bank = bank, ba_revision = 0, ba_contracts = bt_empty\<rparr>"

abbreviation ba_evidence :: "billing_account \<Rightarrow> bank_verification" where
  "ba_evidence a \<equiv> vb_evidence (ba_bank a)"

definition billing_bump :: "billing_account \<Rightarrow> (billing_account, billing_error) res" where
  "billing_bump a =
     and_then (ok_or (checked_add (ba_revision a) 1) BillOverflow) (\<lambda>r. Ok (a\<lparr>ba_revision := r\<rparr>))"

definition billing_rebind_bank ::
  "billing_account \<Rightarrow> verified_bank_account \<Rightarrow> (billing_account, billing_error) res" where
  "billing_rebind_bank a bank =
     (let old = ba_evidence a; new = vb_evidence bank in
      fail_if (bv_account old \<noteq> bv_account new \<or> bv_member old \<noteq> bv_member new \<or> bv_scope old \<noteq> bv_scope new
         \<or> bv_unit old \<noteq> bv_unit new \<or> bv_version new \<le> bv_version old) BillConflict
      (and_then (billing_bump a) (\<lambda>a'. Ok (a'\<lparr>ba_bank := bank\<rparr>))))"

definition billing_covers :: "billing_account \<Rightarrow> canonical_time \<Rightarrow> bool" where
  "billing_covers a at = list_ex (\<lambda>k. contract_covers k at) (bt_values (ba_contracts a))"

definition periods_overlap :: "service_period \<Rightarrow> service_period \<Rightarrow> bool" where
  "periods_overlap p q \<longleftrightarrow> sp_start p < sp_end q \<and> sp_start q < sp_end p"

definition purchase_operation :: "billing_account \<Rightarrow> service_contract_id \<Rightarrow> service_offer \<Rightarrow> payment_operation" where
  "purchase_operation a i offer =
     \<lparr>op_scope = bv_scope (ba_evidence a), op_id = i, op_kind = Capture, op_amount = so_price offer,
      op_unit = bv_unit (ba_evidence a), op_destination = bv_bank_token (ba_evidence a)\<rparr>"

definition billing_purchase ::
  "crypto \<Rightarrow> billing_account \<Rightarrow> service_offer \<Rightarrow> bytes32 \<Rightarrow> (billing_account \<times> service_contract_id, billing_error) res" where
  "billing_purchase c a offer processor_key =
     fail_if (so_unit offer \<noteq> bv_unit (ba_evidence a) \<or> processor_key = 0) BillConflict
     (let i = billing_operation_id c (bv_scope (ba_evidence a)) (str_bytes ''service-contract'')
         (bv_account (ba_evidence a)) (ucast (sp_start (so_period offer))) in
      case bt_get (ba_contracts a) i of
        Some old \<Rightarrow>
          if sk_offer old = offer \<and> sk_processor_key old = processor_key then Ok (a, i) else Err BillConflict
      | None \<Rightarrow>
          fail_if (list_ex (\<lambda>k. periods_overlap (so_period (sk_offer k)) (so_period offer)) (bt_values (ba_contracts a)))
            BillConflict
          (and_then (map_err BillPayment (px_new (purchase_operation a i offer))) (\<lambda>collection.
           let contract = \<lparr>sk_id = i, sk_offer = offer, sk_processor_key = processor_key,
              sk_collection = collection, sk_settlement = Unfunded\<rparr> in
           and_then (billing_bump a) (\<lambda>a'.
           Ok (a'\<lparr>ba_contracts := bt_insert i contract (ba_contracts a')\<rparr>, i)))))"

definition billing_retry_collection ::
  "crypto \<Rightarrow> billing_account \<Rightarrow> service_contract_id \<Rightarrow> (billing_account \<times> payment_operation, billing_error) res" where
  "billing_retry_collection c a i =
     and_then (ok_or (bt_get (ba_contracts a) i) BillMissingRecord) (\<lambda>contract.
     and_then (contract_retry c contract) (\<lambda>(contract', operation).
     and_then (billing_bump a) (\<lambda>a'.
     Ok (a'\<lparr>ba_contracts := bt_insert i contract' (ba_contracts a')\<rparr>, operation))))"

definition billing_record_collection ::
  "crypto \<Rightarrow> billing_account \<Rightarrow> service_contract_id \<Rightarrow> signed_payment_evidence \<Rightarrow> canonical_time
     \<Rightarrow> (billing_account \<times> ledger_batch, billing_error) res" where
  "billing_record_collection c a i receipt at =
     and_then (ok_or (bt_get (ba_contracts a) i) BillMissingRecord) (\<lambda>previous.
     and_then (contract_record c previous receipt at) (\<lambda>(next, batch).
     if next \<noteq> previous
     then and_then (billing_bump a) (\<lambda>a'. Ok (a'\<lparr>ba_contracts := bt_insert i next (ba_contracts a')\<rparr>, batch))
     else Ok (a, batch)))"

section \<open>Storage\<close>

text \<open>
  Deserializing an account rebuilds each offer from its anchor and validates each contract; then
  \<open>TryFrom<StoredAccount>\<close> verifies the bank association and checks keys, scopes, units and that
  the periods, in the order of their starts, do not overlap.  \<open>json\<close> is the encoder
  \<open>bank_verify\<close> takes.
\<close>

record stored_account =
  ta_bank :: bank_verification
  ta_authority :: bytes32
  ta_revision :: u64
  ta_contracts :: "(service_contract_id, service_contract) btmap"

definition billing_store :: "billing_account \<Rightarrow> stored_account" where
  "billing_store a =
     \<lparr>ta_bank = ba_evidence a, ta_authority = vb_authority (ba_bank a), ta_revision = ba_revision a,
      ta_contracts = ba_contracts a\<rparr>"

definition contract_load :: "crypto \<Rightarrow> service_contract \<Rightarrow> (service_contract, billing_error) res" where
  "contract_load c k =
     and_then (offer_load (offer_store (sk_offer k))) (\<lambda>offer.
     let k' = k\<lparr>sk_offer := offer\<rparr> in
     and_then (contract_validate c k') (\<lambda>_. Ok k'))"

primrec load_contracts ::
  "crypto \<Rightarrow> (service_contract_id \<times> service_contract) list
     \<Rightarrow> ((service_contract_id \<times> service_contract) list, billing_error) res" where
  "load_contracts c [] = Ok []"
| "load_contracts c (e # rest) =
     and_then (contract_load c (snd e)) (\<lambda>k.
     and_then (load_contracts c rest) (\<lambda>ks. Ok ((fst e, k) # ks)))"

primrec check_contracts ::
  "bank_verification \<Rightarrow> (service_contract_id \<times> service_contract) list \<Rightarrow> (unit, billing_error) res" where
  "check_contracts bank [] = Ok ()"
| "check_contracts bank (e # rest) =
     (let op = px_current (sk_collection (snd e)) in
      fail_if (fst e \<noteq> sk_id (snd e) \<or> op_scope op \<noteq> bv_scope bank \<or> op_unit op \<noteq> bv_unit bank) BillConflict
        (check_contracts bank rest))"

definition billing_load ::
  "crypto \<Rightarrow> (bank_verification \<Rightarrow> bytes option) \<Rightarrow> stored_account \<Rightarrow> (billing_account, billing_error) res" where
  "billing_load c json s =
     and_then (load_contracts c (bt_entries (ta_contracts s))) (\<lambda>es.
     and_then (map_err BillPayment (bank_verify c json (ta_bank s) (ta_authority s))) (\<lambda>bank.
     and_then (check_contracts (ta_bank s) es) (\<lambda>_.
     let periods = sort_key sp_start (map (\<lambda>e. so_period (sk_offer (snd e))) es) in
     fail_if (\<not> successively (\<lambda>p q. sp_end p \<le> sp_start q) periods) BillConflict
     (Ok \<lparr>ba_bank = bank, ba_revision = ta_revision s, ba_contracts = bt_collect es\<rparr>))))"

section \<open>Signed commands\<close>

datatype billing_command =
  BillInspect
| BillPurchaseService policy_version
| BillRetryCollection service_contract_id

record signed_billing_command =
  sbc_account :: billing_account_id
  sbc_operational_key :: operational_key_ref
  sbc_scope :: financial_scope
  sbc_expected_revision :: u64
  sbc_idempotency_key :: idempotency_key
  sbc_command :: billing_command
  sbc_signature :: bytes

text \<open>\<open>json\<close> is \<open>serde_json::to_vec\<close> on the version string and the unsigned fields; it can fail.\<close>

definition billing_command_sign ::
  "crypto \<Rightarrow> (signed_billing_command \<Rightarrow> bytes option) \<Rightarrow> billing_account_id \<Rightarrow> operational_key_ref
     \<Rightarrow> financial_scope \<Rightarrow> u64 \<Rightarrow> idempotency_key \<Rightarrow> billing_command \<Rightarrow> bytes32
     \<Rightarrow> (signed_billing_command, billing_error) res" where
  "billing_command_sign c json account key scope revision idempotency command secret =
     (let signed = \<lparr>sbc_account = account, sbc_operational_key = key, sbc_scope = scope,
         sbc_expected_revision = revision, sbc_idempotency_key = idempotency, sbc_command = command,
         sbc_signature = []\<rparr> in
      and_then (ok_or (json signed) BillConflict) (\<lambda>bs.
      Ok (signed\<lparr>sbc_signature := cr_sign c secret bs\<rparr>)))"

definition billing_command_verify ::
  "crypto \<Rightarrow> (signed_billing_command \<Rightarrow> bytes option) \<Rightarrow> signed_billing_command \<Rightarrow> bytes32
     \<Rightarrow> (unit, billing_error) res" where
  "billing_command_verify c json x key =
     fail_if (\<not> cr_key_parses c key) BillConflict
     (fail_if (\<not> cr_signature_parses c (sbc_signature x)) BillConflict
     (and_then (ok_or (json x) BillConflict) (\<lambda>bs.
      fail_if (\<not> cr_verify_strict c key bs (sbc_signature x)) BillConflict (Ok ()))))"

end
