(* ===== verification/Billing_Contracts.thy ===== *)
theory Billing_Contracts
  imports Billing Payable
begin

text \<open>
  The contracts and accounts of \<open>Billing\<close>: periods are ordered and offers survive storage, a
  contract's settlement follows the state of its collection, and every operation of an account
  keeps its contracts valid and disjoint and moves the ledger by what it emits.
\<close>

section \<open>Periods\<close>

lemma date_in_year:
  assumes "calendar_date y m d = Some t"
  obtains n where "unat t = n * 86400000" "days_before_year (unat y) \<le> n" "n < days_before_year (unat y) + year_days (unat y)"
    "1970 \<le> unat y"
proof -
  let ?ms = "month_lengths (unat y)" and ?k = "unat m - 1"
  have y: "1970 \<le> y" "y \<le> 9999" "1 \<le> m" "m \<le> 12" "d \<noteq> 0" and d: "unat d \<le> ?ms ! ?k"
    and t: "t = of_nat (day_number (unat y) (unat m) (unat d) * 86400000)"
    using assms by (auto simp: calendar_date_def split: if_splits)
  have b: "1970 \<le> unat y" "unat y \<le> 9999" "?k < length ?ms" and d0: "unat d \<noteq> 0"
    using y by (simp_all add: word_le_nat_alt month_lengths_def unat_eq_0)
  have "sum_list (take ?k ?ms) + ?ms ! ?k + sum_list (drop (Suc ?k) ?ms) = sum_list ?ms"
    using id_take_nth_drop [OF b(3)] by (metis add.assoc sum_list.Cons sum_list_append)
  moreover have "sum_list ?ms = year_days (unat y)" by (simp add: month_lengths_def year_days_def)
  ultimately have n: "day_number (unat y) (unat m) (unat d) < days_before_year (unat y) + year_days (unat y)"
    using d d0 by (simp add: day_number_def)
  have "days_before_year (unat y) \<le> 366 * 8029" using days_before_year_bound [OF b(1)] b(2) by simp
  moreover have "year_days (unat y) \<le> 366" by (simp add: year_days_def)
  ultimately have "day_number (unat y) (unat m) (unat d) * 86400000 < 2 ^ 64" using n by simp
  then have "unat t = day_number (unat y) (unat m) (unat d) * 86400000"
    using unat_of_nat [where 'a = 64, of "day_number (unat y) (unat m) (unat d) * 86400000"] unfolding t
    by (simp del: of_nat_mult)
  then show thesis by (rule that [OF _ _ n b(1)]) (simp add: day_number_def)
qed

lemma period_ordered:
  assumes "period_annual year month day rule = Ok p"
  shows "sp_start p < sp_end p" and "sp_anchor p = \<lparr>pn_year = year, pn_month = month, pn_day = day, pn_leap_day = rule\<rparr>"
proof -
  obtain f where d: "period_date month day rule year = Ok (sp_start p)" "checked_add year 1 = Some f"
    "period_date month day rule f = Ok (sp_end p)"
    "sp_anchor p = \<lparr>pn_year = year, pn_month = month, pn_day = day, pn_leap_day = rule\<rparr>"
    using assms by (auto simp: period_annual_def)
  have date: "\<exists>m d. calendar_date y m d = Some t" if "period_date month day rule y = Ok t" for y t
    using that by (auto simp: period_date_def split: option.splits if_splits leap_day_rule.splits)
  obtain m1 d1 m2 d2 where c: "calendar_date year m1 d1 = Some (sp_start p)" "calendar_date f m2 d2 = Some (sp_end p)"
    using date d(1,3) by blast
  have "unat f = Suc (unat year)" using checked_add_SomeD [OF d(2)] by simp
  then show "sp_start p < sp_end p"
    using date_in_year [OF c(1)] date_in_year [OF c(2)] days_before_year_Suc [of "unat year"]
    by (metis (no_types, lifting) less_le_trans mult_less_mono1 word_less_nat_alt zero_less_numeral)
  show "sp_anchor p = \<lparr>pn_year = year, pn_month = month, pn_day = day, pn_leap_day = rule\<rparr>" by (rule d(4))
qed

lemma offer_load_store:
  assumes "offer_load v = Ok offer"
  shows "offer_load (offer_store offer) = Ok offer" and "sp_start (so_period offer) < sp_end (so_period offer)"
  using assms period_ordered
  by (auto simp: offer_load_def offer_store_def period_load_def offer_new_def)

section \<open>Valid contracts\<close>

lemma px_record_latest:
  assumes "px_record c p receipt key = Ok (p', change)" and "px_inv c p"
  shows "next_state (px_state p) (spe_evidence receipt) = Ok (px_state p', change) \<or> (px_state p' = px_state p \<and> change = ChangeNone)"
  using assms(1)
proof (cases rule: px_record_cases)
  case (recorded n s)
  show ?thesis
  proof (cases "n + 1 = length (px_attempts p)")
    case True
    then have "px_attempts p ! n = px_latest p" "n = length (px_earlier p)" by (simp_all add: px_attempts_def)
    then have "px_state p = at_state (px_attempts p ! n)" "px_state p' = s"
      by (simp_all add: px_state_def recorded(8) px_with_attempts_def px_attempts_def)
    then show ?thesis using recorded(6) by simp
  next
    case False
    then have "n < length (px_earlier p)" using recorded(2) by (simp add: px_attempts_def)
    then have "px_latest p' = px_latest p" by (simp add: recorded(8) px_with_attempts_def px_attempts_def list_update_append)
    then show ?thesis using recorded(7) False by (simp add: px_state_def)
  qed
qed simp

lemma px_known: "px_operation p i = None \<longleftrightarrow> i \<notin> set (attempt_ids (px_attempts p))"
  by (simp add: px_operation_find find_attempt_None)

lemma px_record_ids:
  assumes "px_record c p receipt key = Ok (p', change)"
  shows "attempt_ids (px_attempts p') = attempt_ids (px_attempts p)"
  using assms
proof (cases rule: px_record_cases)
  case (recorded n s)
  have "(px_attempts p)[n := (px_attempts p ! n)\<lparr>at_state := s\<rparr>] \<noteq> []" by simp
  then show ?thesis using recorded(2) unfolding recorded(8) by (simp add: attempt_ids_update)
qed simp

definition settlement_ok :: "canonical_time \<Rightarrow> payment_state \<Rightarrow> service_settlement \<Rightarrow> bool" where
  "settlement_ok collect_at state settlement \<longleftrightarrow>
     (case settlement of
        Unfunded \<Rightarrow> state = PayPending \<or> is_failed state \<or> is_voided state
      | ServiceFunded at \<Rightarrow> is_settled state \<and> collect_at \<le> at
      | ServiceReversed at \<Rightarrow> is_reversed state \<and> collect_at \<le> at)"

definition contract_ok :: "crypto \<Rightarrow> service_contract \<Rightarrow> bool" where
  "contract_ok c k \<longleftrightarrow>
     px_inv c (sk_collection k) \<and> sk_id k \<noteq> 0 \<and> sk_id k \<in> set (attempt_ids (px_attempts (sk_collection k)))
     \<and> sk_processor_key k \<noteq> 0 \<and> op_kind (px_current (sk_collection k)) = Capture
     \<and> op_amount (px_current (sk_collection k)) = so_price (sk_offer k)
     \<and> op_unit (px_current (sk_collection k)) = so_unit (sk_offer k)
     \<and> settlement_ok (so_collect_at (sk_offer k)) (px_state (sk_collection k)) (sk_settlement k)"

lemma contract_validate_Ok: "contract_validate c k = Ok () \<longleftrightarrow> contract_ok c k"
  unfolding contract_validate_def contract_ok_def settlement_ok_def
  by (cases "px_state (sk_collection k)"; cases "sk_settlement k")
    (auto simp: px_validate_iff px_known Let_def not_less)

text \<open>What a contract puts on each account.\<close>

definition contract_level :: "service_contract \<Rightarrow> account \<Rightarrow> int" where
  "contract_level k a =
     (let price = uint (so_price (sk_offer k)) in
      case sk_settlement k of
        Unfunded \<Rightarrow> 0
      | ServiceFunded _ \<Rightarrow> (if a = UtilityServiceReceipts (sk_id k) then price else if a = ProcessorClearing then - price else 0)
      | ServiceReversed _ \<Rightarrow> (if a = UtilityServiceReceipts (sk_id k) then price else if a = CorporateLossClearing then - price else 0))"

lemma settlement_next:
  assumes "next_state s e = Ok (s', change)"
  shows "change = ChangeNone \<Longrightarrow> settlement_ok t s x \<Longrightarrow> settlement_ok t s' x"
    and "change = ChangeSettled \<Longrightarrow> s = PayPending \<and> is_settled s'"
    and "change = ChangeReversed \<Longrightarrow> is_reversed s'"
proof -
  have "(change = ChangeNone \<longrightarrow> s' = s \<or> (s = PayPending \<and> (is_failed s' \<or> is_voided s')))
     \<and> (change = ChangeSettled \<longrightarrow> s = PayPending \<and> is_settled s') \<and> (change = ChangeReversed \<longrightarrow> is_reversed s')"
    using assms by (cases s; cases "pe_outcome e") (auto simp: next_state_def Let_def)
  then show "change = ChangeNone \<Longrightarrow> settlement_ok t s x \<Longrightarrow> settlement_ok t s' x"
    "change = ChangeSettled \<Longrightarrow> s = PayPending \<and> is_settled s'" "change = ChangeReversed \<Longrightarrow> is_reversed s'"
    by (auto simp: settlement_ok_def split: service_settlement.splits)
qed

lemma contract_record_ok:
  assumes "contract_record c k receipt at = Ok (k', batch)" and "contract_ok c k"
  shows "contract_ok c k'" and "sk_id k' = sk_id k" and "sk_offer k' = sk_offer k"
    and "px_current (sk_collection k') = px_current (sk_collection k)"
    and "contract_level k' a = contract_level k a + net_flow a batch"
    and "is_balanced batch"
proof -
  have t: "so_collect_at (sk_offer k) \<le> at" using assms(1) by (simp add: contract_record_def not_less)
  obtain p change where r: "px_record c (sk_collection k) receipt (sk_processor_key k) = Ok (p, change)"
    using assms(1) by (auto simp: contract_record_def)
  have rest: "(case change of
        ChangeSettled \<Rightarrow>
          Ok (k\<lparr>sk_collection := p, sk_settlement := ServiceFunded at\<rparr>,
              batch_transfer ProcessorClearing (UtilityServiceReceipts (sk_id k)) (so_price (sk_offer k)) [])
      | ChangeReversed \<Rightarrow>
          (case sk_settlement k of
             ServiceFunded paid \<Rightarrow>
               Ok (k\<lparr>sk_collection := p, sk_settlement := ServiceReversed paid\<rparr>,
                   batch_transfer CorporateLossClearing ProcessorClearing (so_price (sk_offer k)) [])
           | _ \<Rightarrow> Err BillConflict)
      | ChangeNone \<Rightarrow> Ok (k\<lparr>sk_collection := p\<rparr>, [])) = Ok (k', batch)"
    using assms(1) t by (simp add: contract_record_def Let_def r not_less cong: payment_change.case_cong)
  have inv: "px_inv c (sk_collection k)" using assms(2) by (simp add: contract_ok_def)
  have cur: "px_current p = px_current (sk_collection k)" using px_record_frame(2) [OF r inv] by (simp add: px_current_def)
  have known: "sk_id k \<in> set (attempt_ids (px_attempts p))"
    using px_record_ids [OF r] assms(2) by (simp add: contract_ok_def)
  have st: "next_state (px_state (sk_collection k)) (spe_evidence receipt) = Ok (px_state p, change)
      \<or> (px_state p = px_state (sk_collection k) \<and> change = ChangeNone)"
    by (rule px_record_latest [OF r inv])
  have old: "settlement_ok (so_collect_at (sk_offer k)) (px_state (sk_collection k)) (sk_settlement k)"
    using assms(2) by (simp add: contract_ok_def)
  note base = assms(2) [unfolded contract_ok_def] px_record_inv [OF r inv] cur known
  show "sk_id k' = sk_id k" "sk_offer k' = sk_offer k" "px_current (sk_collection k') = px_current (sk_collection k)" "is_balanced batch"
    using rest by (cases change; cases "sk_settlement k"; auto simp: cur)+
  show "contract_ok c k'"
  proof (cases change)
    case ChangeNone
    then have k': "k' = k\<lparr>sk_collection := p\<rparr>" using rest by simp
    have "settlement_ok (so_collect_at (sk_offer k)) (px_state p) (sk_settlement k)"
      using st
    proof
      assume "next_state (px_state (sk_collection k)) (spe_evidence receipt) = Ok (px_state p, change)"
      then show ?thesis using ChangeNone old by (rule settlement_next(1))
    qed (use old in simp)
    then show ?thesis using base by (simp add: k' contract_ok_def)
  next
    case ChangeSettled
    then have k': "k' = k\<lparr>sk_collection := p, sk_settlement := ServiceFunded at\<rparr>" using rest by simp
    have "is_settled (px_state p)" using st ChangeSettled settlement_next(2) by fastforce
    then show ?thesis using base t by (simp add: k' contract_ok_def settlement_ok_def)
  next
    case ChangeReversed
    then obtain paid where paid: "sk_settlement k = ServiceFunded paid" and k': "k' = k\<lparr>sk_collection := p, sk_settlement := ServiceReversed paid\<rparr>"
      using rest by (auto split: service_settlement.splits)
    have "is_reversed (px_state p)" using st ChangeReversed settlement_next(3) by fastforce
    then show ?thesis using base old paid by (simp add: k' contract_ok_def settlement_ok_def)
  qed
  show "contract_level k' a = contract_level k a + net_flow a batch"
  proof (cases change)
    case ChangeSettled
    have "px_state (sk_collection k) = PayPending" using st ChangeSettled settlement_next(2) by fastforce
    then have "sk_settlement k = Unfunded" using old by (simp add: settlement_ok_def split: service_settlement.splits)
    then show ?thesis using rest by (auto simp: ChangeSettled contract_level_def Let_def)
  next
    case ChangeReversed
    then obtain paid where "sk_settlement k = ServiceFunded paid"
      "k' = k\<lparr>sk_collection := p, sk_settlement := ServiceReversed paid\<rparr>"
      "batch = batch_transfer CorporateLossClearing ProcessorClearing (so_price (sk_offer k)) []"
      using rest by (auto split: service_settlement.splits)
    then show ?thesis by (simp add: contract_level_def Let_def)
  qed (use rest in \<open>auto simp: contract_level_def Let_def split: service_settlement.split\<close>)
qed

lemma contract_retry_ok:
  assumes "contract_retry c k = Ok (k', q)" and "contract_ok c k"
  shows "contract_ok c k'" and "sk_id k' = sk_id k" and "sk_offer k' = sk_offer k" and "sk_settlement k' = sk_settlement k"
    and "sk_settlement k = Unfunded" and "op_scope (px_current (sk_collection k')) = op_scope (px_current (sk_collection k))"
    and "op_unit (px_current (sk_collection k')) = op_unit (px_current (sk_collection k))"
proof -
  obtain i p where r: "px_retry (sk_collection k) i = Ok (p, q)" and k': "k' = k\<lparr>sk_collection := p\<rparr>"
    using assms(1) by (auto simp: contract_retry_def Let_def)
  note f = px_retry_Ok [OF r]
  have inv: "px_inv c (sk_collection k)" using assms(2) by (simp add: contract_ok_def)
  have cur: "px_current p = (px_current (sk_collection k))\<lparr>op_id := i\<rparr>" and st: "px_state p = PayPending"
    using f(3,5) by (simp_all add: px_current_def px_state_def)
  have ids: "attempt_ids (px_attempts p) = attempt_ids (px_attempts (sk_collection k)) @ [op_id q]"
    by (simp add: f(5) px_attempts_def attempt_ids_def)
  show un: "sk_settlement k = Unfunded"
    using f(1) assms(2) by (auto simp: attempt_closed_def px_state_def contract_ok_def settlement_ok_def split: service_settlement.splits)
  show "contract_ok c k'"
    using assms(2) px_retry_inv [OF r inv] by (simp add: contract_ok_def k' cur st ids un settlement_ok_def)
  show "sk_id k' = sk_id k" "sk_offer k' = sk_offer k" "sk_settlement k' = sk_settlement k"
    "op_scope (px_current (sk_collection k')) = op_scope (px_current (sk_collection k))"
    "op_unit (px_current (sk_collection k')) = op_unit (px_current (sk_collection k))"
    by (simp_all add: k' cur)
qed

section \<open>Valid accounts\<close>

definition contracts_inv ::
  "crypto \<Rightarrow> financial_scope \<Rightarrow> settlement_unit \<Rightarrow> (service_contract_id, service_contract) btmap \<Rightarrow> bool" where
  "contracts_inv c scope unit m \<longleftrightarrow>
     (\<forall>i k. bt_get m i = Some k \<longrightarrow>
        sk_id k = i \<and> contract_ok c k \<and> offer_load (offer_store (sk_offer k)) = Ok (sk_offer k)
        \<and> op_scope (px_current (sk_collection k)) = scope \<and> op_unit (px_current (sk_collection k)) = unit)
     \<and> (\<forall>i j k l. i \<noteq> j \<longrightarrow> bt_get m i = Some k \<longrightarrow> bt_get m j = Some l \<longrightarrow>
          \<not> periods_overlap (so_period (sk_offer k)) (so_period (sk_offer l)))"

definition billing_inv :: "crypto \<Rightarrow> (bank_verification \<Rightarrow> bytes option) \<Rightarrow> billing_account \<Rightarrow> bool" where
  "billing_inv c json a \<longleftrightarrow>
     bank_verify c json (ba_evidence a) (vb_authority (ba_bank a)) = Ok (ba_bank a)
     \<and> contracts_inv c (bv_scope (ba_evidence a)) (bv_unit (ba_evidence a)) (ba_contracts a)"

definition billing_level :: "billing_account \<Rightarrow> account \<Rightarrow> int" where
  "billing_level a acc = sum_list (map (\<lambda>k. contract_level k acc) (bt_values (ba_contracts a)))"

lemma periods_overlap_sym: "periods_overlap p q \<longleftrightarrow> periods_overlap q p"
  by (auto simp: periods_overlap_def)

lemma billing_bump_Ok: "billing_bump a = Ok a' \<Longrightarrow> \<exists>r. a' = a\<lparr>ba_revision := r\<rparr>"
  by (auto simp: billing_bump_def)

text \<open>Replacing a contract by a valid one of the same offer.\<close>

lemma contracts_update_inv:
  assumes "contracts_inv c scope unit m" and "bt_get m i = Some k"
    and "contract_ok c k'" "sk_id k' = sk_id k" "sk_offer k' = sk_offer k"
    and "op_scope (px_current (sk_collection k')) = op_scope (px_current (sk_collection k))"
    and "op_unit (px_current (sk_collection k')) = op_unit (px_current (sk_collection k))"
  shows "contracts_inv c scope unit (bt_insert i k' m)"
proof -
  have k: "sk_id k = i" "offer_load (offer_store (sk_offer k)) = Ok (sk_offer k)"
    "op_scope (px_current (sk_collection k)) = scope" "op_unit (px_current (sk_collection k)) = unit"
    using assms(1,2) by (simp_all add: contracts_inv_def)
  have apart: "\<not> periods_overlap (so_period (sk_offer f)) (so_period (sk_offer g))"
    if "x \<noteq> y" "bt_get (bt_insert i k' m) x = Some f" "bt_get (bt_insert i k' m) y = Some g" for x y f g
  proof -
    have "\<exists>f'. bt_get m x = Some f' \<and> sk_offer f' = sk_offer f" "\<exists>g'. bt_get m y = Some g' \<and> sk_offer g' = sk_offer g"
      using that assms(2,5) by (auto split: if_splits)
    then show ?thesis using assms(1) that(1) unfolding contracts_inv_def by metis
  qed
  show ?thesis unfolding contracts_inv_def
    using assms(1,3-7) k apart by (auto simp: contracts_inv_def split: if_splits)
qed

lemma billing_update_inv:
  assumes "billing_inv c json a" and "bt_get (ba_contracts a) i = Some k"
    and "contract_ok c k'" "sk_id k' = sk_id k" "sk_offer k' = sk_offer k"
    and "op_scope (px_current (sk_collection k')) = op_scope (px_current (sk_collection k))"
    and "op_unit (px_current (sk_collection k')) = op_unit (px_current (sk_collection k))"
  shows "billing_inv c json (a\<lparr>ba_revision := r, ba_contracts := bt_insert i k' (ba_contracts a)\<rparr>)"
  using assms(1) contracts_update_inv [OF _ assms(2-7)] by (simp add: billing_inv_def)

lemma billing_update_level:
  assumes "bt_get (ba_contracts a) i = Some k"
  shows "billing_level (a\<lparr>ba_revision := r, ba_contracts := bt_insert i k' (ba_contracts a)\<rparr>) acc
     = billing_level a acc + (contract_level k' acc - contract_level k acc)"
  by (simp add: billing_level_def bt_sum_map_insert assms)

lemma px_new_frame:
  assumes "px_new operation = Ok p"
  shows "px_current p = operation" and "px_state p = PayPending" and "attempt_ids (px_attempts p) = [op_id operation]"
    and "operation_validate operation = Ok ()"
  using assms by (auto simp: px_new_def px_current_def px_state_def px_attempts_def attempt_ids_def)

lemma purchase_inv:
  assumes "billing_purchase c a offer key = Ok (a', i)" and "billing_inv c json a"
    and "offer_load v = Ok offer"
  shows "billing_inv c json a'" and "billing_level a' acc = billing_level a acc"
proof -
  let ?i = "billing_operation_id c (bv_scope (ba_evidence a)) (str_bytes ''service-contract'')
         (bv_account (ba_evidence a)) (ucast (sp_start (so_period offer)))"
  have guard: "so_unit offer = bv_unit (ba_evidence a)" "key \<noteq> 0"
    using assms(1) by (simp_all add: billing_purchase_def)
  have "billing_inv c json a' \<and> billing_level a' acc = billing_level a acc"
  proof (cases "bt_get (ba_contracts a) ?i")
    case (Some old)
    then show ?thesis using assms(1,2) by (auto simp: billing_purchase_def Let_def split: if_splits)
  next
    case None
    then obtain p r where free: "\<forall>k \<in> set (bt_values (ba_contracts a)). \<not> periods_overlap (so_period (sk_offer k)) (so_period offer)"
      and p: "px_new (purchase_operation a ?i offer) = Ok p"
      and a': "a' = a\<lparr>ba_revision := r, ba_contracts := bt_insert ?i \<lparr>sk_id = ?i, sk_offer = offer, sk_processor_key = key,
              sk_collection = p, sk_settlement = Unfunded\<rparr> (ba_contracts a)\<rparr>"
      using assms(1) by (auto simp: billing_purchase_def Let_def list_ex_iff billing_bump_def)
    let ?k = "\<lparr>sk_id = ?i, sk_offer = offer, sk_processor_key = key, sk_collection = p, sk_settlement = Unfunded\<rparr>"
    note n = px_new_frame [OF p]
    have "op_id (purchase_operation a ?i offer) \<noteq> 0" using operation_validate_id [OF n(4)] .
    then have k: "contract_ok c ?k"
      using px_new_inv [OF p] guard by (simp add: contract_ok_def n purchase_operation_def settlement_ok_def)
    have apart: "\<not> periods_overlap (so_period (sk_offer m)) (so_period offer)" if "bt_get (ba_contracts a) j = Some m" for j m
      using free that by (auto simp: bt_values_iff)
    then have apart': "\<not> periods_overlap (so_period offer) (so_period (sk_offer m))" if "bt_get (ba_contracts a) j = Some m" for j m
      using that by (simp add: periods_overlap_sym)
    have "billing_inv c json a'"
      using assms(2) k apart apart' offer_load_store(1) [OF assms(3)] guard n(1)
      by (auto simp: billing_inv_def contracts_inv_def a' purchase_operation_def split: if_splits)
    moreover have "billing_level a' acc = billing_level a acc"
      by (simp add: billing_level_def a' bt_sum_map_insert None contract_level_def Let_def)
    ultimately show ?thesis ..
  qed
  then show "billing_inv c json a'" "billing_level a' acc = billing_level a acc" by auto
qed

lemma retry_collection_inv:
  assumes "billing_retry_collection c a i = Ok (a', q)" and "billing_inv c json a"
  shows "billing_inv c json a'" and "billing_level a' acc = billing_level a acc"
proof -
  obtain k k' r where k: "bt_get (ba_contracts a) i = Some k" and r: "contract_retry c k = Ok (k', q)"
    and a': "a' = a\<lparr>ba_revision := r, ba_contracts := bt_insert i k' (ba_contracts a)\<rparr>"
    using assms(1) by (auto simp: billing_retry_collection_def billing_bump_def)
  have ok: "contract_ok c k" using assms(2) k by (simp add: billing_inv_def contracts_inv_def)
  note f = contract_retry_ok [OF r ok]
  show "billing_inv c json a'" unfolding a' by (rule billing_update_inv [OF assms(2) k f(1,2,3,6,7)])
  show "billing_level a' acc = billing_level a acc"
    unfolding a' billing_update_level [OF k] by (simp add: contract_level_def f)
qed

lemma record_collection_inv:
  assumes "billing_record_collection c a i receipt at = Ok (a', batch)" and "billing_inv c json a"
  shows "billing_inv c json a'" and "billing_level a' acc = billing_level a acc + net_flow acc batch" and "is_balanced batch"
proof -
  obtain k where k: "bt_get (ba_contracts a) i = Some k"
    using assms(1) by (cases "bt_get (ba_contracts a) i") (simp_all add: billing_record_collection_def)
  obtain k' b where r0: "contract_record c k receipt at = Ok (k', b)"
    using assms(1) by (cases "contract_record c k receipt at") (auto simp: billing_record_collection_def k)
  have step: "(if k' \<noteq> k
      then and_then (billing_bump a) (\<lambda>a'. Ok (a'\<lparr>ba_contracts := bt_insert i k' (ba_contracts a')\<rparr>, b))
      else Ok (a, b)) = Ok (a', batch)"
    using assms(1) by (simp add: billing_record_collection_def k r0)
  have b: "b = batch" and a': "(k' = k \<and> a' = a) \<or> (\<exists>r. a' = a\<lparr>ba_revision := r, ba_contracts := bt_insert i k' (ba_contracts a)\<rparr>)"
    using step by (cases "k' = k"; cases "checked_add (ba_revision a) 1"; fastforce simp: billing_bump_def)+
  note r = r0 [unfolded b]
  have ok: "contract_ok c k" using assms(2) k by (simp add: billing_inv_def contracts_inv_def)
  note f = contract_record_ok [OF r ok]
  have cur: "op_scope (px_current (sk_collection k')) = op_scope (px_current (sk_collection k))"
    "op_unit (px_current (sk_collection k')) = op_unit (px_current (sk_collection k))" by (simp_all add: f(4))
  show "billing_inv c json a'"
    using a' assms(2) billing_update_inv [OF assms(2) k f(1,2,3) cur] by blast
  show "billing_level a' acc = billing_level a acc + net_flow acc batch"
    using a' f(5) [of acc] billing_update_level [OF k] by auto
  show "is_balanced batch" by (rule f(6))
qed

lemma rebind_bank_inv:
  assumes "billing_rebind_bank a bank = Ok a'" and "billing_inv c json a"
    and "bank_verify c json (vb_evidence bank) (vb_authority bank) = Ok bank"
  shows "billing_inv c json a'" and "billing_level a' acc = billing_level a acc"
proof -
  have same: "bv_scope (vb_evidence bank) = bv_scope (ba_evidence a)" "bv_unit (vb_evidence bank) = bv_unit (ba_evidence a)"
    using assms(1) by (simp_all add: billing_rebind_bank_def Let_def)
  obtain r where a': "a' = a\<lparr>ba_revision := r, ba_bank := bank\<rparr>"
    using assms(1) by (cases "checked_add (ba_revision a) 1") (simp_all add: billing_rebind_bank_def Let_def billing_bump_def, metis)
  show "billing_inv c json a'"
    using assms(2,3) by (simp add: billing_inv_def a' same)
  show "billing_level a' acc = billing_level a acc" unfolding a' billing_level_def by simp
qed

end
