(* ===== verification/Billing_Runs.thy ===== *)
theory Billing_Runs
  imports Billing_Contracts
begin

text \<open>
  A billing account as a machine over everything its service calls: purchases, retries, processor
  receipts and bank rebinding.  What it emits adds up to its contracts, it is stored and restored
  unchanged, and it covers only service that is paid for.
\<close>

section \<open>The machine\<close>

datatype billing_input =
  InPurchase stored_offer bytes32
| InCollectionRetry service_contract_id
| InCollectionReceipt service_contract_id signed_payment_evidence canonical_time
| InRebindBank bank_verification bytes32

definition billing_step ::
  "crypto \<Rightarrow> (bank_verification \<Rightarrow> bytes option) \<Rightarrow> billing_account \<Rightarrow> billing_input
     \<Rightarrow> (billing_account \<times> ledger_batch, billing_error) res" where
  "billing_step c json a inp =
     (case inp of
        InPurchase v key \<Rightarrow> and_then (offer_load v) (\<lambda>offer. map_ok (\<lambda>(a', _). (a', [])) (billing_purchase c a offer key))
      | InCollectionRetry i \<Rightarrow> map_ok (\<lambda>(a', _). (a', [])) (billing_retry_collection c a i)
      | InCollectionReceipt i receipt at \<Rightarrow> billing_record_collection c a i receipt at
      | InRebindBank b authority \<Rightarrow>
          and_then (map_err BillPayment (bank_verify c json b authority)) (\<lambda>bank.
          map_ok (\<lambda>a'. (a', [])) (billing_rebind_bank a bank)))"

lemma billing_step_facts:
  assumes "billing_inv c json a" and "billing_step c json a inp = Ok (a', batch)"
  shows "billing_inv c json a' \<and> billing_level a' acc = billing_level a acc + net_flow acc batch \<and> is_balanced batch"
proof (cases inp)
  case (InPurchase v key)
  then obtain offer i where "offer_load v = Ok offer" "billing_purchase c a offer key = Ok (a', i)" "batch = []"
    using assms(2) by (auto simp: billing_step_def)
  then show ?thesis using purchase_inv [OF _ assms(1)] by auto
next
  case (InCollectionRetry i)
  then obtain q where "billing_retry_collection c a i = Ok (a', q)" "batch = []"
    using assms(2) by (auto simp: billing_step_def)
  then show ?thesis using retry_collection_inv [OF _ assms(1)] by auto
next
  case (InCollectionReceipt i receipt at)
  then have "billing_record_collection c a i receipt at = Ok (a', batch)" using assms(2) by (simp add: billing_step_def)
  then show ?thesis using record_collection_inv [OF _ assms(1)] by auto
next
  case (InRebindBank b authority)
  then obtain bank where b: "bank_verify c json b authority = Ok bank" "billing_rebind_bank a bank = Ok a'" "batch = []"
    using assms(2) by (auto simp: billing_step_def)
  then have "bank_verify c json (vb_evidence bank) (vb_authority bank) = Ok bank"
    by (auto simp: bank_verify_def)
  then show ?thesis using rebind_bank_inv [OF b(2) assms(1)] b(3) by auto
qed

section \<open>Storage\<close>

lemma load_contracts_same:
  "\<forall>e \<in> set es. contract_load c (snd e) = Ok (snd e) \<Longrightarrow> load_contracts c es = Ok es"
  by (induction es) auto

lemma contract_load_same:
  "contract_ok c k \<Longrightarrow> offer_load (offer_store (sk_offer k)) = Ok (sk_offer k) \<Longrightarrow> contract_load c k = Ok k"
  by (simp add: contract_load_def Let_def contract_validate_Ok)

lemma check_contracts_Ok:
  "check_contracts bank es = Ok () \<longleftrightarrow>
     (\<forall>e \<in> set es. fst e = sk_id (snd e) \<and> op_scope (px_current (sk_collection (snd e))) = bv_scope bank
        \<and> op_unit (px_current (sk_collection (snd e))) = bv_unit bank)"
  by (induction es) (auto simp: Let_def)

lemma periods_in_order:
  fixes ps :: "service_period list"
  assumes "sorted (map sp_start ps)" and "distinct ps" and "\<forall>p \<in> set ps. sp_start p < sp_end p"
    and "\<forall>p \<in> set ps. \<forall>q \<in> set ps. p \<noteq> q \<longrightarrow> \<not> periods_overlap p q"
  shows "successively (\<lambda>p q. sp_end p \<le> sp_start q) ps"
  using assms
proof (induction ps rule: induct_list012)
  case (3 p q ps)
  have "\<not> periods_overlap p q" and "sp_start p \<le> sp_start q" "sp_start q < sp_end q" using 3 by auto
  then have "sp_end p \<le> sp_start q" unfolding periods_overlap_def by (meson le_less_trans not_le)
  then show ?case using 3 by simp
qed simp_all

lemma contract_periods:
  assumes "contracts_inv c scope unit m"
  defines "ps \<equiv> map (\<lambda>e. so_period (sk_offer (snd e))) (bt_entries m)"
  shows "distinct ps" and "\<forall>p \<in> set ps. sp_start p < sp_end p"
    and "\<forall>p \<in> set ps. \<forall>q \<in> set ps. p \<noteq> q \<longrightarrow> \<not> periods_overlap p q"
proof -
  have get: "bt_get m (fst e) = Some (snd e)" if "e \<in> set (bt_entries m)" for e
    using that by (simp add: bt_get_Some)
  have start: "sp_start (so_period (sk_offer (snd e))) < sp_end (so_period (sk_offer (snd e)))" if "e \<in> set (bt_entries m)" for e
    using get [OF that] assms(1) offer_load_store(2) by (auto simp: contracts_inv_def)
  have apart: "\<not> periods_overlap (so_period (sk_offer (snd e))) (so_period (sk_offer (snd f)))"
    if "e \<in> set (bt_entries m)" "f \<in> set (bt_entries m)" "e \<noteq> f" for e f
  proof -
    have "fst e \<noteq> fst f" using get [OF that(1)] get [OF that(2)] that(3) by (metis option.inject prod.expand)
    then show ?thesis using get [OF that(1)] get [OF that(2)] assms(1) unfolding contracts_inv_def by blast
  qed
  have "inj_on (\<lambda>e. so_period (sk_offer (snd e))) (set (bt_entries m))"
  proof (rule inj_onI, rule ccontr)
    fix e f assume e: "e \<in> set (bt_entries m)" "f \<in> set (bt_entries m)" "e \<noteq> f"
      and same: "so_period (sk_offer (snd e)) = so_period (sk_offer (snd f))"
    show False using apart [OF e] start [OF e(1)] by (simp add: periods_overlap_def same)
  qed
  moreover have "distinct (bt_entries m)" using bt_distinct [of m] distinct_map by blast
  ultimately show "distinct ps" by (simp add: ps_def distinct_map)
  show "\<forall>p \<in> set ps. sp_start p < sp_end p" using start by (auto simp: ps_def)
  show "\<forall>p \<in> set ps. \<forall>q \<in> set ps. p \<noteq> q \<longrightarrow> \<not> periods_overlap p q" using apart by (auto simp: ps_def)
qed

definition billing_restore ::
  "crypto \<Rightarrow> (bank_verification \<Rightarrow> bytes option) \<Rightarrow> billing_account \<Rightarrow> (billing_account, billing_error) res" where
  "billing_restore c json a = billing_load c json (billing_store a)"

lemma billing_restore_inv:
  assumes "billing_inv c json a" shows "billing_restore c json a = Ok a"
proof -
  let ?es = "bt_entries (ba_contracts a)" and ?bank = "ba_evidence a"
  let ?ps = "map (\<lambda>e. so_period (sk_offer (snd e))) ?es"
  have m: "contracts_inv c (bv_scope ?bank) (bv_unit ?bank) (ba_contracts a)"
    and bank: "bank_verify c json ?bank (vb_authority (ba_bank a)) = Ok (ba_bank a)"
    using assms by (simp_all add: billing_inv_def)
  have ok: "sk_id (snd e) = fst e" "contract_load c (snd e) = Ok (snd e)"
    "op_scope (px_current (sk_collection (snd e))) = bv_scope ?bank"
    "op_unit (px_current (sk_collection (snd e))) = bv_unit ?bank" if "e \<in> set ?es" for e
  proof -
    have "bt_get (ba_contracts a) (fst e) = Some (snd e)" using that by (simp add: bt_get_Some)
    then show "sk_id (snd e) = fst e" "contract_load c (snd e) = Ok (snd e)"
      "op_scope (px_current (sk_collection (snd e))) = bv_scope ?bank"
      "op_unit (px_current (sk_collection (snd e))) = bv_unit ?bank"
      using m contract_load_same unfolding contracts_inv_def by blast+
  qed
  have "successively (\<lambda>p q. sp_end p \<le> sp_start q) (sort_key sp_start ?ps)"
    using contract_periods [OF m] by (intro periods_in_order) simp_all
  moreover have "load_contracts c ?es = Ok ?es" using ok(2) by (intro load_contracts_same) blast
  moreover have "check_contracts ?bank ?es = Ok ()" using ok by (simp add: check_contracts_Ok)
  ultimately show ?thesis
    by (simp add: billing_restore_def billing_load_def billing_store_def bank Let_def)
qed

lemma billing_new_inv:
  assumes "bank_verify c json b authority = Ok v"
  shows "billing_inv c json (billing_new v)" and "billing_level (billing_new v) acc = 0"
  using assms by (auto simp: billing_inv_def billing_new_def contracts_inv_def billing_level_def bank_verify_def)

interpretation billing: accounting_machine "billing_step c json" "billing_inv c json" billing_level "\<lambda>batch a. net_flow a batch"
  by unfold_locales (use billing_step_facts in blast)+

interpretation billing_stored: stored_machine "billing_step c json" "billing_inv c json" "billing_restore c json"
  by unfold_locales (rule billing_restore_inv)

interpretation billing_balanced: emitting_machine "billing_step c json" "billing_inv c json" is_balanced
  by unfold_locales (use billing_step_facts in blast)

section \<open>Properties\<close>

definition collected :: "service_contract \<Rightarrow> int" where
  "collected k = (if sk_settlement k = Unfunded then 0 else uint (so_price (sk_offer k)))"

lemma contract_level_by_account:
  "contract_level k (UtilityServiceReceipts i) = (if sk_id k = i then collected k else 0)"
  "contract_level k ProcessorClearing = (if is_funded (sk_settlement k) then - uint (so_price (sk_offer k)) else 0)"
  "contract_level k CorporateLossClearing =
     (case sk_settlement k of ServiceReversed _ \<Rightarrow> - uint (so_price (sk_offer k)) | _ \<Rightarrow> 0)"
  "(\<forall>i. a \<noteq> UtilityServiceReceipts i) \<Longrightarrow> a \<noteq> ProcessorClearing \<Longrightarrow> a \<noteq> CorporateLossClearing \<Longrightarrow> contract_level k a = 0"
  by (cases "sk_settlement k"; auto simp: contract_level_def collected_def Let_def)+

lemma receipts_level:
  assumes "contracts_inv c scope unit m"
  shows "(\<Sum>k\<leftarrow>bt_values m. if sk_id k = i then collected k else 0)
     = (case bt_get m i of Some k \<Rightarrow> collected k | None \<Rightarrow> 0)"
proof -
  have "sk_id (snd e) = fst e" if "e \<in> set (bt_entries m)" for e
  proof -
    have "bt_get m (fst e) = Some (snd e)" using that by (simp add: bt_get_Some)
    then show ?thesis using assms by (simp add: contracts_inv_def)
  qed
  then have eq: "map (\<lambda>e. if sk_id (snd e) = i then collected (snd e) else 0) (bt_entries m)
      = map (\<lambda>e. if fst e = i then collected (snd e) else 0) (bt_entries m)" by (intro map_cong) simp_all
  show ?thesis unfolding bt_values_def map_map comp_def eq by (rule bt_sum_key)
qed

lemma contract_covers_iff:
  "contract_covers k t \<longleftrightarrow> (\<exists>paid. sk_settlement k = ServiceFunded paid \<and> paid \<le> t) \<and> period_contains (so_period (sk_offer k)) t"
  by (simp add: contract_covers_def split: service_settlement.split)

text \<open>
  C15: However service is purchased, retried, collected, reversed and rebound on an account, and whatever is
  refused, the batches it emits are balanced and add up, account by account, to its contracts: a
  contract's receipts hold its price from its one collection on, processor clearing owes the
  prices collected and not reversed, and the corporation bears those reversed.
\<close>

theorem billing_accounts:
  assumes "bank_verify c json b authority = Ok v"
    and "run_machine (billing_step c json) (billing_new v) inputs = (a, batches)"
  shows "list_all is_balanced batches
     \<and> (\<forall>acc. sum_list (map (net_flow acc) batches) =
          (case acc of
             UtilityServiceReceipts i \<Rightarrow>
               (case bt_get (ba_contracts a) i of Some k \<Rightarrow> collected k | None \<Rightarrow> 0)
           | ProcessorClearing \<Rightarrow>
               sum_list (map (\<lambda>k. if is_funded (sk_settlement k) then - uint (so_price (sk_offer k)) else 0) (bt_values (ba_contracts a)))
           | CorporateLossClearing \<Rightarrow>
               sum_list (map (\<lambda>k. case sk_settlement k of ServiceReversed _ \<Rightarrow> - uint (so_price (sk_offer k)) | _ \<Rightarrow> 0) (bt_values (ba_contracts a)))
           | _ \<Rightarrow> 0))"
proof -
  note start = billing_new_inv [OF assms(1)]
  have "billing_inv c json a" by (rule billing.run_inv [OF start(1) assms(2)])
  then have m: "contracts_inv c (bv_scope (ba_evidence a)) (bv_unit (ba_evidence a)) (ba_contracts a)"
    by (simp add: billing_inv_def)
  have "sum_list (map (net_flow acc) batches) = billing_level a acc" for acc
    using billing.run_level [OF start(1) assms(2), of acc] start(2) [of acc] by simp
  then show ?thesis
    using billing_balanced.run_good [OF start(1) assms(2)]
    by (simp add: billing_level_def receipts_level [OF m] contract_level_by_account split: account.split)
qed

text \<open>
  The account a run of the service leaves is exactly what its deserialization accepts: the
  bank evidence verifies, every offer is rebuilt from its anchor, every contract passes
  \<open>validate\<close> and the periods, in order, do not overlap.
\<close>

theorem billing_restores:
  assumes "bank_verify c json b authority = Ok v"
  shows "case run_machine (billing_step c json) (billing_new v) inputs of (a, _) \<Rightarrow>
     billing_load c json (billing_store a) = Ok a"
  using billing_stored.run_restores [OF billing_new_inv(1) [OF assms], of inputs]
  by (simp add: billing_restore_def case_prod_beta)

text \<open>
  C16: Service is covered only where it is paid for: an account is covered at a time exactly when the time lies
  in the period of one of its contracts that was funded by then; that contract is the only one whose period
  contains the time, its collection is settled for exactly the price of its offer, and it was not recorded
  before the offer's collection time.
\<close>

theorem service_is_paid_for:
  assumes "bank_verify c json b authority = Ok v"
    and "run_machine (billing_step c json) (billing_new v) inputs = (a, batches)"
  shows "(billing_covers a t \<longleftrightarrow>
          (\<exists>i k paid. bt_get (ba_contracts a) i = Some k \<and> period_contains (so_period (sk_offer k)) t
             \<and> sk_settlement k = ServiceFunded paid \<and> paid \<le> t))
     \<and> (\<forall>i k j l. bt_get (ba_contracts a) i = Some k \<longrightarrow> bt_get (ba_contracts a) j = Some l
          \<longrightarrow> period_contains (so_period (sk_offer k)) t \<longrightarrow> period_contains (so_period (sk_offer l)) t \<longrightarrow> i = j)
     \<and> (\<forall>i k paid. bt_get (ba_contracts a) i = Some k \<longrightarrow> sk_settlement k = ServiceFunded paid
          \<longrightarrow> is_settled (px_state (sk_collection k)) \<and> op_amount (px_current (sk_collection k)) = so_price (sk_offer k)
              \<and> op_kind (px_current (sk_collection k)) = Capture \<and> so_collect_at (sk_offer k) \<le> paid)"
proof -
  have inv: "contracts_inv c (bv_scope (ba_evidence a)) (bv_unit (ba_evidence a)) (ba_contracts a)"
    using billing.run_inv [OF billing_new_inv(1) [OF assms(1)] assms(2)] by (simp add: billing_inv_def)
  have one: "i = j" if "bt_get (ba_contracts a) i = Some k" "bt_get (ba_contracts a) j = Some l"
    "period_contains (so_period (sk_offer k)) t" "period_contains (so_period (sk_offer l)) t" for i j k l
  proof -
    have "periods_overlap (so_period (sk_offer k)) (so_period (sk_offer l))"
      using that(3,4) unfolding period_contains_def periods_overlap_def by (meson le_less_trans)
    then show ?thesis using inv that(1,2) unfolding contracts_inv_def by blast
  qed
  have cov: "billing_covers a t \<longleftrightarrow>
          (\<exists>i k paid. bt_get (ba_contracts a) i = Some k \<and> period_contains (so_period (sk_offer k)) t
             \<and> sk_settlement k = ServiceFunded paid \<and> paid \<le> t)"
    unfolding billing_covers_def list_ex_iff Bex_def bt_values_iff contract_covers_iff by blast
  have paid: "is_settled (px_state (sk_collection k)) \<and> op_amount (px_current (sk_collection k)) = so_price (sk_offer k)
      \<and> op_kind (px_current (sk_collection k)) = Capture \<and> so_collect_at (sk_offer k) \<le> paid"
    if "bt_get (ba_contracts a) i = Some k" "sk_settlement k = ServiceFunded paid" for i k paid
  proof -
    have "contract_ok c k" using inv that(1) by (simp add: contracts_inv_def)
    then show ?thesis using that(2) by (simp add: contract_ok_def settlement_ok_def)
  qed
  show ?thesis using one cov paid by blast
qed

section \<open>A year of service\<close>

definition sample_offer :: service_offer where
  "sample_offer = \<lparr>so_version = 1,
     so_period = \<lparr>sp_anchor = \<lparr>pn_year = 1970, pn_month = 1, pn_day = 2, pn_leap_day = March1\<rparr>,
       sp_start = 86400000, sp_end = 31622400000\<rparr>,
     so_collect_at = 10, so_price = 12, so_unit = 1\<rparr>"

definition sample_bank :: bank_verification where
  "sample_bank = \<lparr>bv_scope = sample_scope, bv_account = 3, bv_member = 4, bv_bank_token = 5, bv_unit = 1, bv_version = 1,
     bv_signature = [1]\<rparr>"

definition sample_verified :: verified_bank_account where
  "sample_verified = \<lparr>vb_evidence = sample_bank, vb_authority = 9\<rparr>"

definition sample_collection :: payment_operation where
  "sample_collection = \<lparr>op_scope = sample_scope, op_id = 1, op_kind = Capture, op_amount = 12, op_unit = 1, op_destination = 5\<rparr>"

definition sample_billing_inputs :: "billing_input list" where
  "sample_billing_inputs = [InPurchase (offer_store sample_offer) 9,
     InCollectionReceipt 1 (sample_receipt 1 sample_collection OutSettled) 11]"

lemma sample_bank_verifies: "bank_verify sample_crypto (\<lambda>_. Some []) sample_bank 9 = Ok sample_verified"
  by (simp add: bank_verify_def sample_bank_def sample_verified_def sample_crypto_def fail_if_def)

lemma sample_dates: "calendar_date 1970 1 2 = Some 86400000" "calendar_date 1971 1 2 = Some 31622400000"
proof -
  have "days_before_year 1970 = 0" by (simp add: days_before_year_def)
  moreover have "days_before_year 1971 = 365"
    by (simp add: days_before_year_def upt_conv_Cons year_days_def leap_def)
  ultimately show "calendar_date 1970 1 2 = Some 86400000" "calendar_date 1971 1 2 = Some 31622400000"
    by (simp_all add: calendar_date_def month_lengths_def day_number_def)
qed

lemma sample_offer_loads: "offer_load (offer_store sample_offer) = Ok sample_offer"
  by (simp add: offer_load_def offer_store_def sample_offer_def period_load_def period_annual_def period_date_def
      sample_dates checked_add_def offer_new_def fail_if_def)

definition sample_paid_contract :: service_contract where
  "sample_paid_contract = \<lparr>sk_id = 1, sk_offer = sample_offer, sk_processor_key = 9,
     sk_collection = \<lparr>px_earlier = [], px_latest = \<lparr>at_operation = sample_collection, at_state = PaySettled 1\<rparr>,
       px_events = bt_insert 1 (spe_evidence (sample_receipt 1 sample_collection OutSettled)) bt_empty\<rparr>,
     sk_settlement = ServiceFunded 11\<rparr>"

definition sample_paid_account :: billing_account where
  "sample_paid_account = \<lparr>ba_bank = sample_verified, ba_revision = 2, ba_contracts = bt_insert 1 sample_paid_contract bt_empty\<rparr>"

lemma sample_contract_id:
  "billing_operation_id sample_crypto sample_scope (str_bytes ''service-contract'') 3 86400000 = 1"
proof -
  have "be_bytes 16 w = be_bytes 15 (drop_bit 8 w) @ [ucast w]" for w :: u128
    using be_bytes.simps(2) [of 15 w] by simp
  then show ?thesis by (simp add: billing_operation_id_def billing_preimage_def sample_crypto_def high_u128_def)
qed

lemma sample_billing_run:
  "run_machine (billing_step sample_crypto (\<lambda>_. Some [])) (billing_new sample_verified) sample_billing_inputs
     = (sample_paid_account, [[], [\<lparr>tr_from = ProcessorClearing, tr_to = UtilityServiceReceipts 1, tr_amount = 12\<rparr>]])"
  by (simp add: sample_billing_inputs_def billing_step_def sample_offer_loads [unfolded sample_offer_def] billing_purchase_def billing_new_def
      sample_verified_def sample_bank_def Let_def bt_values_def sample_offer_def sample_contract_id billing_bump_def checked_add_def
      purchase_operation_def sample_collection_def operation_validate_def px_new_def billing_record_collection_def
      contract_record_def px_record_def px_attempts_def px_with_attempts_def sample_settled_verifies next_state_def batch_transfer_def
      px_state_def bt_insert_twice
      sample_paid_account_def sample_paid_contract_def cong: lazily)

lemma billing_accounts_witness:
  "net_flow (UtilityServiceReceipts 1) [\<lparr>tr_from = ProcessorClearing, tr_to = UtilityServiceReceipts 1, tr_amount = 12\<rparr>]
     = collected sample_paid_contract"
  using billing_accounts [OF sample_bank_verifies sample_billing_run, THEN conjunct2, THEN spec, of "UtilityServiceReceipts 1"]
  by (simp add: sample_paid_account_def)

lemma billing_restores_witness:
  "billing_load sample_crypto (\<lambda>_. Some []) (billing_store sample_paid_account) = Ok sample_paid_account"
  using billing_restores [OF sample_bank_verifies, of sample_billing_inputs] by (simp add: sample_billing_run)

lemma service_is_paid_for_witness:
  "billing_covers sample_paid_account 86400000 \<and> \<not> billing_covers sample_paid_account 12"
  using service_is_paid_for [OF sample_bank_verifies sample_billing_run, of 86400000, THEN conjunct1]
    service_is_paid_for [OF sample_bank_verifies sample_billing_run, of 12, THEN conjunct1]
  by (simp add: sample_paid_account_def sample_paid_contract_def sample_offer_def period_contains_def)

end
