(* ===== verification/Encoding.thy ===== *)
theory Encoding
  imports Capabilities
begin

text \<open>
  Canonical byte encodings are prefix codes: from the bytes of a value followed by anything, the
  value can be read back.  Each rule cancels one field at the front of an equation between byte
  lists, so that equality of two signed representations decomposes, by rewriting, into equality
  of what was signed.
\<close>

section \<open>Fields\<close>

lemma be_bytes_cancel [enc_facts]:
  fixes a b :: "'l::len word"
  assumes "LENGTH('l) \<le> 8 * n"
  shows "be_bytes n a @ s = be_bytes n b @ t \<longleftrightarrow> a = b \<and> s = t"
  using be_bytes_inject [OF assms] by (auto simp: append_eq_append_conv)

lemma be_bytes_last [enc_facts]:
  fixes a b :: "'l::len word"
  assumes "LENGTH('l) \<le> 8 * n"
  shows "be_bytes n a = be_bytes n b \<longleftrightarrow> a = b"
  using be_bytes_inject [OF assms] by auto

text \<open>A length, then that many bytes.\<close>

definition framed :: "nat \<Rightarrow> 'l::len word \<Rightarrow> bytes \<Rightarrow> bytes" where
  "framed n w xs = be_bytes n (of_nat (length xs) + 0 * w) @ xs"

lemma framed_cancel [enc_facts]:
  fixes w :: "'l::len word"
  assumes "LENGTH('l) \<le> 8 * n" "length xs < 2 ^ LENGTH('l)" "length ys < 2 ^ LENGTH('l)"
  shows "framed n w xs @ s = framed n w ys @ t \<longleftrightarrow> xs = ys \<and> s = t"
proof -
  have "(of_nat (length xs) :: 'l word) = of_nat (length ys) \<longleftrightarrow> length xs = length ys"
    using assms(2,3) by (metis of_nat_inverse)
  then show ?thesis
    by (auto simp: framed_def be_bytes_cancel [OF assms(1)] append_eq_append_conv)
qed

lemma try_word_length [simp]:
  "(try_word (int n) :: 'l::len word option) = Some w \<longleftrightarrow> n < 2 ^ LENGTH('l) \<and> w = of_nat n"
  by (auto simp: try_word_def)

section \<open>Declarations\<close>

definition identifier_bytes :: "namespaced_identifier \<Rightarrow> bytes" where
  "identifier_bytes i = framed 2 (0 :: u16) (str_bytes (ni_namespace i))
     @ framed 2 (0 :: u16) (str_bytes (ni_name i)) @ be_bytes 2 (ni_version i)"

definition purpose_bytes :: "declared_purpose \<Rightarrow> bytes" where
  "purpose_bytes p = (case p of Unspecified \<Rightarrow> [0] | Known k \<Rightarrow> [1, known_purpose_code k] | Extension i \<Rightarrow> 2 # identifier_bytes i)"

definition authority_bytes :: "declaration_authority \<Rightarrow> bytes" where
  "authority_bytes a = authority_append a []"

definition schema_bytes :: "payload_schema option \<Rightarrow> bytes" where
  "schema_bytes s = (case s of None \<Rightarrow> [0] | Some s \<Rightarrow>
     1 # identifier_bytes (ps_id s) @ [case ps_criticality s of NonCritical \<Rightarrow> 0 | Critical \<Rightarrow> 1])"

definition declarations_bytes :: "message_declarations \<Rightarrow> bytes" where
  "declarations_bytes d = declarations_prefix @ purpose_bytes (md_purpose d)
     @ [origin_mode_code (od_mode (md_origin d))] @ authority_bytes (od_authority (md_origin d))
     @ schema_bytes (md_payload_schema d)"

lemma identifier_append_Ok:
  "identifier_append i bs = Ok out \<longleftrightarrow> identifier_validate i = Ok () \<and> out = bs @ identifier_bytes i"
  by (auto simp: identifier_append_def push_declaration_bytes_def identifier_bytes_def framed_def
      identifier_validate_def valid_identifier_component_def)

lemma purpose_append_Ok:
  "purpose_append p bs = Ok out \<longleftrightarrow> purpose_validate p = Ok () \<and> out = bs @ purpose_bytes p"
  by (cases p) (auto simp: purpose_append_def purpose_validate_def purpose_bytes_def identifier_append_Ok)

lemma authority_append_bytes: "authority_append a bs = bs @ authority_bytes a"
  by (cases a) (simp_all add: authority_bytes_def)

lemma schema_append_Ok:
  "(case s of Some s \<Rightarrow> schema_append s (bs @ [1]) | None \<Rightarrow> Ok (bs @ [0])) = Ok out
     \<longleftrightarrow> (case s of None \<Rightarrow> True | Some s \<Rightarrow> schema_validate s = Ok ()) \<and> out = bs @ schema_bytes s"
  by (cases s) (auto simp: schema_append_def schema_bytes_def identifier_append_Ok schema_validate_def)

lemma declarations_bytes_Ok:
  "declarations_canonical_bytes d = Ok out \<longleftrightarrow> declarations_validate d = Ok () \<and> out = declarations_bytes d"
proof -
  have "declarations_validate d = Ok () \<Longrightarrow> purpose_validate (md_purpose d) = Ok ()
      \<and> (case md_payload_schema d of None \<Rightarrow> True | Some s \<Rightarrow> schema_validate s = Ok ())"
    by (auto simp: declarations_validate_def split: option.splits)
  then show ?thesis
    by (auto simp: declarations_canonical_bytes_def purpose_append_Ok authority_append_bytes schema_append_Ok
        declarations_bytes_def Let_def)
qed

lemma known_purpose_code_inject [enc_facts]: "known_purpose_code a = known_purpose_code b \<longleftrightarrow> a = b"
  by (cases a; cases b) simp_all

lemma origin_mode_code_inject [enc_facts]: "origin_mode_code a = origin_mode_code b \<longleftrightarrow> a = b"
  by (cases a; cases b) simp_all

lemma identifier_cancel:
  assumes "identifier_validate i = Ok ()" "identifier_validate j = Ok ()"
  shows "identifier_bytes i @ s = identifier_bytes j @ t \<longleftrightarrow> i = j \<and> s = t"
  using assms by (auto simp: identifier_validate_def valid_identifier_component_def identifier_bytes_def enc_facts)

lemma purpose_cancel:
  assumes "purpose_validate p = Ok ()" "purpose_validate q = Ok ()"
  shows "purpose_bytes p @ s = purpose_bytes q @ t \<longleftrightarrow> p = q \<and> s = t"
  using assms by (cases p; cases q) (auto simp: purpose_bytes_def purpose_validate_def identifier_cancel enc_facts)

lemma authority_cancel [enc_facts]: "authority_bytes a @ s = authority_bytes b @ t \<longleftrightarrow> a = b \<and> s = t"
  by (cases a; cases b) (auto simp: authority_bytes_def enc_facts)

lemma schema_cancel:
  assumes "case x of None \<Rightarrow> True | Some s \<Rightarrow> schema_validate s = Ok ()" "case y of None \<Rightarrow> True | Some s \<Rightarrow> schema_validate s = Ok ()"
  shows "schema_bytes x @ s = schema_bytes y @ t \<longleftrightarrow> x = y \<and> s = t"
  using assms
  by (auto simp: schema_bytes_def schema_validate_def identifier_cancel split: option.splits extension_criticality.splits)

lemma declarations_cancel:
  assumes "declarations_validate d = Ok ()" "declarations_validate e = Ok ()"
  shows "declarations_bytes d @ s = declarations_bytes e @ t \<longleftrightarrow> d = e \<and> s = t"
proof -
  have "purpose_validate (md_purpose x) = Ok ()" "case md_payload_schema x of None \<Rightarrow> True | Some s \<Rightarrow> schema_validate s = Ok ()"
    if "declarations_validate x = Ok ()" for x
    using that by (auto simp: declarations_validate_def split: option.splits)
  note v = this [OF assms(1)] this [OF assms(2)]
  show ?thesis
    by (auto simp: declarations_bytes_def purpose_cancel [OF v(1) v(3)] schema_cancel [OF v(2) v(4)] enc_facts)
qed

end
