(* ===== verification/Content.thy ===== *)
theory Content
  imports Encoding
begin

text \<open>
  Native content encryption: \<open>crates/cs-mail-content/src/lib.rs\<close>.  HPKE (the crate hpke, RFC
  9180 with X25519, HKDF-SHA256 and ChaCha20-Poly1305) is third-party code and the record
  \<open>hpke\<close>, an argument of the definitions that call it; \<open>hpke_correct\<close> states its documented
  correctness.  The lemmas show that the recipient decrypts what the sender encrypted, that the
  authenticated bytes determine the whole binding, and that the bytes of a key certificate
  determine the certificate.
\<close>

section \<open>The third-party interface\<close>

text \<open>
  \<open>hp_sender\<close> takes the random seed of the encapsulation, the sender's private key, the
  recipient's public key and the info string, and gives the encapsulated key with the context;
  \<open>hp_receiver\<close> takes the sender's public key, the recipient's private key, the encapsulated
  key and the info string.
\<close>

record 'k hpke =
  hp_private_parses :: "bytes32 \<Rightarrow> bool"
  hp_public_parses :: "bytes32 \<Rightarrow> bool"
  hp_encapped_parses :: "bytes \<Rightarrow> bool"
  hp_public :: "bytes32 \<Rightarrow> bytes32"
  hp_generate :: "bytes \<Rightarrow> bytes32 \<times> bytes32"
  hp_sender :: "bytes \<Rightarrow> bytes32 \<Rightarrow> bytes32 \<Rightarrow> bytes \<Rightarrow> (bytes \<times> 'k) option"
  hp_receiver :: "bytes32 \<Rightarrow> bytes32 \<Rightarrow> bytes \<Rightarrow> bytes \<Rightarrow> 'k option"
  hp_seal :: "'k \<Rightarrow> bytes \<Rightarrow> bytes \<Rightarrow> bytes option"
  hp_open :: "'k \<Rightarrow> bytes \<Rightarrow> bytes \<Rightarrow> bytes option"

definition hpke_correct :: "'k hpke \<Rightarrow> bool" where
  "hpke_correct h \<longleftrightarrow>
     (\<forall>sk. hp_public_parses h (hp_public h sk))
     \<and> (\<forall>seed sk recipient info encapped k. hp_sender h seed sk (hp_public h recipient) info = Some (encapped, k)
          \<longrightarrow> hp_encapped_parses h encapped \<and> hp_receiver h (hp_public h sk) recipient encapped info = Some k)
     \<and> (\<forall>k plain aad sealed. hp_seal h k plain aad = Some sealed \<longrightarrow> hp_open h k sealed aad = Some plain)"

section \<open>Keys and records\<close>

type_synonym content_key_ref = u128
type_synonym wire_version = u16
type_synonym content_key_version = u64

datatype content_cipher_suite = HpkeX25519HkdfSha256ChaCha20Poly1305V1

record endpoint_public_key =
  ep_reference :: content_key_ref
  ep_bytes :: bytes32

record endpoint_secret_key =
  es_reference :: content_key_ref
  es_private :: bytes32

record content_key_certificate =
  cc_wire_version :: wire_version
  cc_protocol_version :: protocol_version
  cc_deployment_domain :: bytes32
  cc_intended_provider :: provider_ref
  cc_relationship :: scoped_ref
  cc_owner :: protocol_identity
  cc_operational_key :: operational_key_ref
  cc_content_key_version :: content_key_version
  cc_key :: endpoint_public_key
  cc_valid_from :: canonical_time
  cc_valid_until :: canonical_time

record content_binding =
  cb_wire_version :: wire_version
  cb_content_ref :: content_ref
  cb_message_id :: message_id
  cb_sender :: protocol_identity
  cb_recipient :: protocol_identity
  cb_protocol_version :: protocol_version
  cb_relationship :: scoped_ref
  cb_content_scope :: scoped_ref
  cb_sender_certificate :: bytes32
  cb_declarations :: message_declarations
  cb_valid_until :: canonical_time
  cb_capability :: "lane_id option"

record ciphertext_envelope =
  ce_suite :: content_cipher_suite
  ce_sender_key :: content_key_ref
  ce_recipient_key :: content_key_ref
  ce_encapsulated_key :: bytes
  ce_ciphertext :: bytes

record encrypted_content_record =
  ec_binding :: content_binding
  ec_envelope :: ciphertext_envelope
  ec_created_at :: canonical_time
  ec_expires_at :: canonical_time

datatype content_error =
  PlaintextTooLarge | CtInvalidPublicKey | WrongRecipientKey | InvalidCiphertext | InvalidLifetime
| CtInvalidDeclaration | CtUnsupportedWireVersion

definition secret_from_bytes ::
  "'k hpke \<Rightarrow> content_key_ref \<Rightarrow> bytes32 \<Rightarrow> (endpoint_secret_key \<times> endpoint_public_key, content_error) res" where
  "secret_from_bytes h r bs =
     fail_if (r = 0 \<or> bs = 0) CtInvalidPublicKey
     (fail_if (\<not> hp_private_parses h bs) CtInvalidPublicKey
     (Ok (\<lparr>es_reference = r, es_private = bs\<rparr>, \<lparr>ep_reference = r, ep_bytes = hp_public h bs\<rparr>)))"

definition secret_generate ::
  "'k hpke \<Rightarrow> content_key_ref \<Rightarrow> bytes \<Rightarrow> endpoint_secret_key \<times> endpoint_public_key" where
  "secret_generate h r seed =
     (case hp_generate h seed of (private, public) \<Rightarrow>
        (\<lparr>es_reference = r, es_private = private\<rparr>, \<lparr>ep_reference = r, ep_bytes = public\<rparr>))"

section \<open>Bindings\<close>

definition content_info :: bytes where
  "content_info = str_bytes ''cs-mail/native-content/v1''"

definition max_plaintext_bytes :: nat where
  "max_plaintext_bytes = 32 * 1024 * 1024"

definition validate_binding :: "content_binding \<Rightarrow> (unit, content_error) res" where
  "validate_binding b =
     fail_if (cb_wire_version b \<noteq> 1) CtUnsupportedWireVersion
     (map_err (\<lambda>_. CtInvalidDeclaration) (declarations_validate (cb_declarations b)))"

definition scoped_ref_bytes :: "scoped_ref \<Rightarrow> bytes" where
  "scoped_ref_bytes r = be_bytes 2 (sr_version r) @ be_bytes 32 (sr_bytes r)"

definition lane_option_bytes :: "lane_id option \<Rightarrow> bytes" where
  "lane_option_bytes l = (case l of Some i \<Rightarrow> 1 # be_bytes 16 i | None \<Rightarrow> [0])"

definition binding_bytes :: "content_binding \<Rightarrow> (bytes, content_error) res" where
  "binding_bytes b =
     and_then (validate_binding b) (\<lambda>_.
     and_then (map_err (\<lambda>_. CtInvalidDeclaration) (declarations_canonical_bytes (cb_declarations b))) (\<lambda>declarations.
     Ok (str_bytes ''cs-mail/content-binding/v2'' @ be_bytes 2 (cb_wire_version b) @ be_bytes 16 (cb_content_ref b)
       @ be_bytes 16 (cb_message_id b) @ be_bytes 16 (cb_sender b) @ be_bytes 16 (cb_recipient b)
       @ be_bytes 2 (cb_protocol_version b) @ scoped_ref_bytes (cb_relationship b) @ scoped_ref_bytes (cb_content_scope b)
       @ be_bytes 32 (cb_sender_certificate b) @ declarations @ be_bytes 8 (cb_valid_until b)
       @ lane_option_bytes (cb_capability b))))"

definition message_declaration_digest :: "crypto \<Rightarrow> message_declarations \<Rightarrow> (bytes32, content_error) res" where
  "message_declaration_digest c d =
     and_then (map_err (\<lambda>_. CtInvalidDeclaration) (declarations_canonical_bytes d)) (\<lambda>bs. Ok (cr_sha256 c bs))"

definition certificate_bytes :: "content_key_certificate \<Rightarrow> bytes" where
  "certificate_bytes k =
     str_bytes ''cs-mail/content-key-certificate/v1'' @ be_bytes 2 (cc_wire_version k) @ be_bytes 2 (cc_protocol_version k)
     @ be_bytes 32 (cc_deployment_domain k) @ be_bytes 16 (cc_intended_provider k) @ scoped_ref_bytes (cc_relationship k)
     @ be_bytes 16 (cc_owner k) @ be_bytes 16 (cc_operational_key k) @ be_bytes 8 (cc_content_key_version k)
     @ be_bytes 16 (ep_reference (cc_key k)) @ be_bytes 32 (ep_bytes (cc_key k)) @ be_bytes 8 (cc_valid_from k)
     @ be_bytes 8 (cc_valid_until k)"

definition certificate_digest :: "crypto \<Rightarrow> content_key_certificate \<Rightarrow> bytes32" where
  "certificate_digest c k = cr_sha256 c (certificate_bytes k)"

section \<open>Encryption and decryption\<close>

definition content_encrypt ::
  "'k hpke \<Rightarrow> bytes \<Rightarrow> endpoint_secret_key \<Rightarrow> endpoint_public_key \<Rightarrow> content_binding \<Rightarrow> bytes
     \<Rightarrow> canonical_time \<Rightarrow> canonical_time \<Rightarrow> (encrypted_content_record, content_error) res" where
  "content_encrypt h seed sender recipient binding plaintext created_at expires_at =
     fail_if (length plaintext > max_plaintext_bytes) PlaintextTooLarge
     (fail_if (expires_at \<le> created_at \<or> cb_valid_until binding \<le> created_at) InvalidLifetime
     (and_then (validate_binding binding) (\<lambda>_.
      fail_if (\<not> hp_public_parses h (ep_bytes recipient)) CtInvalidPublicKey
      (and_then (ok_or (hp_sender h seed (es_private sender) (ep_bytes recipient) content_info) CtInvalidPublicKey)
        (\<lambda>(encapsulated, context).
       and_then (binding_bytes binding) (\<lambda>aad.
       and_then (ok_or (hp_seal h context plaintext aad) InvalidCiphertext) (\<lambda>ciphertext.
       Ok \<lparr>ec_binding = binding,
           ec_envelope = \<lparr>ce_suite = HpkeX25519HkdfSha256ChaCha20Poly1305V1, ce_sender_key = es_reference sender,
             ce_recipient_key = ep_reference recipient, ce_encapsulated_key = encapsulated, ce_ciphertext = ciphertext\<rparr>,
           ec_created_at = created_at, ec_expires_at = expires_at\<rparr>)))))))"

definition content_decrypt ::
  "'k hpke \<Rightarrow> endpoint_secret_key \<Rightarrow> endpoint_public_key \<Rightarrow> encrypted_content_record \<Rightarrow> (bytes, content_error) res" where
  "content_decrypt h recipient sender r =
     fail_if (es_reference recipient \<noteq> ce_recipient_key (ec_envelope r) \<or> ep_reference sender \<noteq> ce_sender_key (ec_envelope r))
       WrongRecipientKey
     (fail_if (\<not> hp_public_parses h (ep_bytes sender)) CtInvalidPublicKey
     (fail_if (\<not> hp_encapped_parses h (ce_encapsulated_key (ec_envelope r))) InvalidCiphertext
     (and_then (ok_or (hp_receiver h (ep_bytes sender) (es_private recipient) (ce_encapsulated_key (ec_envelope r)) content_info)
        InvalidCiphertext) (\<lambda>context.
      and_then (validate_binding (ec_binding r)) (\<lambda>_.
      and_then (binding_bytes (ec_binding r)) (\<lambda>aad.
      ok_or (hp_open h context (ce_ciphertext (ec_envelope r)) aad) InvalidCiphertext))))))"

section \<open>Properties\<close>

lemma scoped_ref_cancel [enc_facts]: "scoped_ref_bytes a @ s = scoped_ref_bytes b @ t \<longleftrightarrow> a = b \<and> s = t"
  by (cases a; cases b) (auto simp: scoped_ref_bytes_def enc_facts)

lemma lane_option_cancel [enc_facts]:
  "lane_option_bytes a @ s = lane_option_bytes b @ t \<longleftrightarrow> a = b \<and> s = t"
  "lane_option_bytes a = lane_option_bytes b \<longleftrightarrow> a = b"
  by (auto simp: lane_option_bytes_def enc_facts split: option.splits)

lemma binding_bytes_Ok:
  "binding_bytes b = Ok bs \<longleftrightarrow> validate_binding b = Ok () \<and>
     bs = str_bytes ''cs-mail/content-binding/v2'' @ be_bytes 2 (cb_wire_version b) @ be_bytes 16 (cb_content_ref b)
       @ be_bytes 16 (cb_message_id b) @ be_bytes 16 (cb_sender b) @ be_bytes 16 (cb_recipient b)
       @ be_bytes 2 (cb_protocol_version b) @ scoped_ref_bytes (cb_relationship b) @ scoped_ref_bytes (cb_content_scope b)
       @ be_bytes 32 (cb_sender_certificate b) @ declarations_bytes (cb_declarations b) @ be_bytes 8 (cb_valid_until b)
       @ lane_option_bytes (cb_capability b)"
  by (auto simp: binding_bytes_def validate_binding_def declarations_bytes_Ok)

lemma validate_binding_Ok:
  "validate_binding b = Ok () \<longleftrightarrow> cb_wire_version b = 1 \<and> declarations_validate (cb_declarations b) = Ok ()"
  by (auto simp: validate_binding_def)

text \<open>
  C37: What HPKE authenticates with a ciphertext is its whole binding: two bindings with the same
  associated data agree in every field, so a record whose binding was altered in any way is opened
  with associated data the sender did not seal.  The bytes a key certificate is signed over
  determine the certificate in the same way.
\<close>

theorem binding_is_authenticated:
  assumes "binding_bytes b = Ok bs" and "binding_bytes b' = Ok bs"
  shows "b = b' \<and> (\<forall>k k'. certificate_bytes k = certificate_bytes k' \<longleftrightarrow> k = k')"
proof -
  have v: "declarations_validate (cb_declarations b) = Ok ()" "declarations_validate (cb_declarations b') = Ok ()"
    "cb_wire_version b = 1" "cb_wire_version b' = 1"
    using assms by (simp_all add: binding_bytes_Ok validate_binding_Ok)
  have "b = b'"
    using assms by (intro content_binding.equality)
      (simp_all add: binding_bytes_Ok declarations_cancel [OF v(1,2)] v(3,4) enc_facts)
  moreover have "certificate_bytes k = certificate_bytes k' \<longleftrightarrow> k = k'" for k k'
    by (cases k; cases k'; cases "cc_key k"; cases "cc_key k'") (auto simp: certificate_bytes_def enc_facts)
  ultimately show ?thesis by blast
qed

text \<open>
  Where HPKE is correct, a recipient decrypts exactly what was encrypted for it: a record made
  with the sender's secret for the recipient's public key carries the given binding and lifetime,
  its plaintext is within the limit, the recipient's secret and the sender's public key give the
  plaintext back, and a secret of another reference is refused.
\<close>

theorem content_roundtrip:
  assumes "hpke_correct h"
    and "secret_from_bytes h i sender_bytes = Ok (sender, sender_public)"
    and "secret_from_bytes h j recipient_bytes = Ok (recipient, recipient_public)"
    and "content_encrypt h seed sender recipient_public binding plaintext created_at expires_at = Ok r"
  shows "content_decrypt h recipient sender_public r = Ok plaintext
     \<and> ec_binding r = binding \<and> ec_created_at r = created_at \<and> ec_expires_at r = expires_at
     \<and> created_at < expires_at \<and> created_at < cb_valid_until binding \<and> length plaintext \<le> max_plaintext_bytes
     \<and> (\<forall>other. es_reference other \<noteq> j \<longrightarrow> content_decrypt h other sender_public r = Err WrongRecipientKey)"
proof -
  have s: "es_reference sender = i" "es_private sender = sender_bytes" "ep_reference sender_public = i"
    "ep_bytes sender_public = hp_public h sender_bytes"
    and k: "es_reference recipient = j" "es_private recipient = recipient_bytes" "ep_reference recipient_public = j"
    "ep_bytes recipient_public = hp_public h recipient_bytes"
    using assms(2,3) by (auto simp: secret_from_bytes_def)
  obtain encapped ctx aad sealed where e: "hp_sender h seed sender_bytes (hp_public h recipient_bytes) content_info = Some (encapped, ctx)"
    "binding_bytes binding = Ok aad" "hp_seal h ctx plaintext aad = Some sealed" "validate_binding binding = Ok ()"
    and r: "r = \<lparr>ec_binding = binding, ec_envelope = \<lparr>ce_suite = HpkeX25519HkdfSha256ChaCha20Poly1305V1, ce_sender_key = i,
        ce_recipient_key = j, ce_encapsulated_key = encapped, ce_ciphertext = sealed\<rparr>, ec_created_at = created_at, ec_expires_at = expires_at\<rparr>"
    and t: "length plaintext \<le> max_plaintext_bytes" "created_at < expires_at" "created_at < cb_valid_until binding"
    using assms(4) by (auto simp: content_encrypt_def s k not_le)
  have "hp_encapped_parses h encapped" "hp_receiver h (hp_public h sender_bytes) recipient_bytes encapped content_info = Some ctx"
    "hp_open h ctx sealed aad = Some plaintext" "hp_public_parses h (hp_public h sender_bytes)"
    using assms(1) e unfolding hpke_correct_def by blast+
  then show ?thesis using e t by (simp add: content_decrypt_def r s k fail_if_def)
qed

section \<open>A concrete exchange\<close>

definition sample_hpke :: "unit hpke" where
  "sample_hpke = \<lparr>hp_private_parses = (\<lambda>_. True), hp_public_parses = (\<lambda>_. True), hp_encapped_parses = (\<lambda>_. True),
     hp_public = (\<lambda>k. k + 1), hp_generate = (\<lambda>_. (1, 2)), hp_sender = (\<lambda>_ _ _ _. Some ([], ())),
     hp_receiver = (\<lambda>_ _ _ _. Some ()), hp_seal = (\<lambda>_ plain aad. Some (aad @ plain)),
     hp_open = (\<lambda>_ sealed aad. if take (length aad) sealed = aad then Some (drop (length aad) sealed) else None)\<rparr>"

definition sample_binding :: content_binding where
  "sample_binding = \<lparr>cb_wire_version = 1, cb_content_ref = 1, cb_message_id = 7, cb_sender = 3, cb_recipient = 4,
     cb_protocol_version = 2, cb_relationship = \<lparr>sr_version = 1, sr_bytes = 5\<rparr>, cb_content_scope = \<lparr>sr_version = 1, sr_bytes = 6\<rparr>,
     cb_sender_certificate = 7, cb_declarations = sample_declarations, cb_valid_until = 50, cb_capability = None\<rparr>"

lemma sample_declarations_valid: "declarations_validate sample_declarations = Ok ()"
  by (simp add: sample_declarations_def declarations_validate_def purpose_validate_def fail_if_def)

lemma sample_binding_bytes: "\<exists>bs. binding_bytes sample_binding = Ok bs"
  by (simp add: binding_bytes_Ok validate_binding_Ok sample_declarations_valid sample_binding_def)

lemma binding_is_authenticated_witness:
  "binding_bytes (sample_binding\<lparr>cb_recipient := 99\<rparr>) \<noteq> binding_bytes sample_binding"
proof
  obtain bs where bs: "binding_bytes sample_binding = Ok bs" using sample_binding_bytes by blast
  assume "binding_bytes (sample_binding\<lparr>cb_recipient := 99\<rparr>) = binding_bytes sample_binding"
  then have "binding_bytes (sample_binding\<lparr>cb_recipient := 99\<rparr>) = Ok bs" using bs by simp
  from binding_is_authenticated [OF this bs] show False by (simp add: sample_binding_def)
qed

lemma sample_hpke_correct: "hpke_correct sample_hpke"
  by (simp add: hpke_correct_def sample_hpke_def)

lemma sample_keys:
  "secret_from_bytes sample_hpke 8 5 = Ok (\<lparr>es_reference = 8, es_private = 5\<rparr>, \<lparr>ep_reference = 8, ep_bytes = 6\<rparr>)"
  "secret_from_bytes sample_hpke 9 7 = Ok (\<lparr>es_reference = 9, es_private = 7\<rparr>, \<lparr>ep_reference = 9, ep_bytes = 8\<rparr>)"
  by (simp_all add: secret_from_bytes_def sample_hpke_def)

lemma sample_encrypts:
  "\<exists>r. content_encrypt sample_hpke [] \<lparr>es_reference = 8, es_private = 5\<rparr> \<lparr>ep_reference = 9, ep_bytes = 8\<rparr> sample_binding [1, 2] 1 100 = Ok r"
proof -
  obtain bs where bs: "binding_bytes sample_binding = Ok bs" using sample_binding_bytes by blast
  then have "validate_binding sample_binding = Ok ()" by (simp add: binding_bytes_Ok)
  then show ?thesis using bs
    by (simp add: content_encrypt_def sample_hpke_def max_plaintext_bytes_def) (simp add: sample_binding_def word_le_nat_alt)
qed

lemma content_roundtrip_witness:
  "\<exists>r. content_encrypt sample_hpke [] \<lparr>es_reference = 8, es_private = 5\<rparr> \<lparr>ep_reference = 9, ep_bytes = 8\<rparr> sample_binding [1, 2] 1 100 = Ok r
     \<and> content_decrypt sample_hpke \<lparr>es_reference = 9, es_private = 7\<rparr> \<lparr>ep_reference = 8, ep_bytes = 6\<rparr> r = Ok [1, 2]"
proof -
  obtain r where r: "content_encrypt sample_hpke [] \<lparr>es_reference = 8, es_private = 5\<rparr> \<lparr>ep_reference = 9, ep_bytes = 8\<rparr> sample_binding [1, 2] 1 100 = Ok r"
    using sample_encrypts by blast
  show ?thesis using content_roundtrip [OF sample_hpke_correct sample_keys r] r by blast
qed

end
