(* ===== verification/Signed_Messages.thy ===== *)
theory Signed_Messages
  imports Content
begin

text \<open>
  Bond-free admissions and what the parties sign about lanes: the second half of
  \<open>crates/cs-mail-capabilities/src/lib.rs\<close>.  A native sender signs the canonical bytes of an
  admission; for a legacy sender the gateway's DMARC evidence is interpreted instead.  The lemmas
  show that the signed bytes of a grant, a control and an admission determine what was signed.
\<close>

section \<open>Admissions\<close>

datatype admission_authentication = NativeKey operational_key_ref | LegacyDmarc

record bond_free_admission =
  bf_wire_version :: wire_version
  bf_sender :: protocol_identity
  bf_recipient :: protocol_identity
  bf_message_id :: message_id
  bf_content_ref :: content_ref
  bf_delivery_intent_ref :: delivery_intent_ref
  bf_declarations :: message_declarations
  bf_valid_until :: canonical_time
  bf_capability :: "lane_id option"
  bf_evidence :: "lane_evidence option"
  bf_idempotency_key :: idempotency_key
  bf_protocol_version :: protocol_version
  bf_deployment_domain :: bytes32
  bf_intended_provider :: provider_ref
  bf_authentication :: admission_authentication

definition admission_validate :: "bond_free_admission \<Rightarrow> (unit, capability_error) res" where
  "admission_validate a =
     fail_if (bf_wire_version a \<noteq> 1) CapUnsupportedWireVersion
     (and_then (map_err (\<lambda>_. CapInvalidDeclaration) (declarations_validate (bf_declarations a))) (\<lambda>_.
      case (bf_authentication a, od_authority (md_origin (bf_declarations a))) of
        (NativeKey expected, NativeSender actual) \<Rightarrow> if expected = actual then Ok () else Err CapInvalidDeclaration
      | (LegacyDmarc, LegacyGateway actual) \<Rightarrow>
          if actual = bf_intended_provider a then Ok () else Err CapInvalidDeclaration
      | _ \<Rightarrow> Err CapInvalidDeclaration))"

definition append_dmarc_pass :: "bytes \<Rightarrow> dmarc_alignment option \<Rightarrow> bytes" where
  "append_dmarc_pass bs p =
     bs @ (case p of Some alignment \<Rightarrow> [1, case alignment of AlignStrict \<Rightarrow> 0 | AlignRelaxed \<Rightarrow> 1] | None \<Rightarrow> [0])"

definition evidence_append :: "lane_evidence \<Rightarrow> bytes \<Rightarrow> (bytes, capability_error) res" where
  "evidence_append e bs =
     (case e of
        EvGuestMailbox identity \<Rightarrow> Ok (bs @ 2 # be_bytes 16 identity)
      | EvNative handle \<Rightarrow> Ok (bs @ 0 # be_bytes 32 handle)
      | EvLegacy l \<Rightarrow>
          and_then (push_bytes (bs @ 1 # be_bytes 2 (le_format_version l)) (le_lane_domain l)) (\<lambda>bs.
          and_then (push_bytes bs (vd_author_domain (le_verification l))) (\<lambda>bs.
          Ok (append_dmarc_pass (append_dmarc_pass bs (vd_dkim (le_verification l))) (vd_spf (le_verification l))
              @ be_bytes 8 (vd_evaluated_at (le_verification l))))))"

definition admission_signing_bytes :: "bond_free_admission \<Rightarrow> (bytes, capability_error) res" where
  "admission_signing_bytes a =
     and_then (admission_validate a) (\<lambda>_.
     and_then (map_err (\<lambda>_. CapInvalidDeclaration) (declarations_canonical_bytes (bf_declarations a))) (\<lambda>declarations.
     let bs = str_bytes ''cs-mail/bond-free-admission/v2'' @ be_bytes 2 (bf_wire_version a) @ be_bytes 16 (bf_sender a)
         @ be_bytes 16 (bf_recipient a) @ be_bytes 16 (bf_message_id a) @ be_bytes 16 (bf_content_ref a)
         @ be_bytes 16 (bf_delivery_intent_ref a) @ declarations @ be_bytes 8 (bf_valid_until a)
         @ lane_option_bytes (bf_capability a) in
     and_then (case bf_evidence a of Some e \<Rightarrow> evidence_append e (bs @ [1]) | None \<Rightarrow> Ok (bs @ [0])) (\<lambda>bs.
     Ok (bs @ be_bytes 16 (bf_idempotency_key a) @ be_bytes 2 (bf_protocol_version a) @ be_bytes 32 (bf_deployment_domain a)
       @ be_bytes 16 (bf_intended_provider a)
       @ (case bf_authentication a of NativeKey key \<Rightarrow> 0 # be_bytes 16 key | LegacyDmarc \<Rightarrow> [1])))))"

record legacy_admission =
  la_sender :: protocol_identity
  la_recipient :: protocol_identity
  la_message_id :: message_id
  la_content_ref :: content_ref
  la_delivery_intent_ref :: delivery_intent_ref
  la_purpose :: declared_purpose
  la_payload_schema :: "payload_schema option"
  la_valid_until :: canonical_time
  la_capability :: "lane_id option"
  la_idempotency_key :: idempotency_key
  la_protocol_version :: protocol_version
  la_deployment_domain :: bytes32
  la_intended_provider :: provider_ref
  la_sender_domain :: bytes

definition verify_legacy_admission ::
  "crypto \<Rightarrow> verified_domain \<Rightarrow> canonical_time \<Rightarrow> legacy_admission \<Rightarrow> u16
     \<Rightarrow> (bond_free_admission, capability_error) res" where
  "verify_legacy_admission c evidence at r mapping_version =
     fail_if (vd_evaluated_at evidence \<noteq> at
        \<or> synthetic_protocol_identity c (la_sender_domain r) (la_deployment_domain r) mapping_version \<noteq> la_sender r)
       CapScopeMismatch
     (and_then (map_err (\<lambda>_. CapNotAuthorized) (legacy_evidence_new (la_sender_domain r) evidence)) (\<lambda>l.
      Ok \<lparr>bf_wire_version = 1, bf_sender = la_sender r, bf_recipient = la_recipient r, bf_message_id = la_message_id r,
          bf_content_ref = la_content_ref r, bf_delivery_intent_ref = la_delivery_intent_ref r,
          bf_declarations = \<lparr>md_purpose = la_purpose r,
            md_origin = \<lparr>od_mode = LegacyOrUnspecified, od_authority = LegacyGateway (la_intended_provider r)\<rparr>,
            md_payload_schema = la_payload_schema r\<rparr>,
          bf_valid_until = la_valid_until r, bf_capability = la_capability r, bf_evidence = Some (EvLegacy l),
          bf_idempotency_key = la_idempotency_key r, bf_protocol_version = la_protocol_version r,
          bf_deployment_domain = la_deployment_domain r, bf_intended_provider = la_intended_provider r,
          bf_authentication = LegacyDmarc\<rparr>))"

section \<open>Codes\<close>

lemma push_bytes_Ok: "push_bytes bs xs = Ok out \<longleftrightarrow> length xs < 2 ^ 32 \<and> out = bs @ framed 4 (0 :: u32) xs"
  by (auto simp: push_bytes_def framed_def)

definition subject_bytes :: "lane_subject \<Rightarrow> bytes" where
  "subject_bytes s = (case s of SubjGuestMailbox i \<Rightarrow> 2 # be_bytes 16 i | SubjNative h \<Rightarrow> 0 # be_bytes 32 h
     | SubjLegacyDomain d \<Rightarrow> 1 # framed 4 (0 :: u32) d)"

definition subject_fits :: "lane_subject \<Rightarrow> bool" where
  "subject_fits s = (case s of SubjLegacyDomain d \<Rightarrow> length d < 2 ^ 32 | _ \<Rightarrow> True)"

lemma subject_append_Ok: "subject_append s bs = Ok out \<longleftrightarrow> subject_fits s \<and> out = bs @ subject_bytes s"
  by (cases s) (auto simp: subject_append_def subject_bytes_def subject_fits_def push_bytes_Ok)

lemma subject_cancel:
  "subject_fits a \<Longrightarrow> subject_fits b \<Longrightarrow> subject_bytes a @ s = subject_bytes b @ t \<longleftrightarrow> a = b \<and> s = t"
  by (cases a; cases b) (auto simp: subject_bytes_def subject_fits_def enc_facts)

definition pass_bytes :: "dmarc_alignment option \<Rightarrow> bytes" where
  "pass_bytes p = append_dmarc_pass [] p"

lemma append_pass: "append_dmarc_pass bs p = bs @ pass_bytes p"
  by (simp add: append_dmarc_pass_def pass_bytes_def)

lemma pass_cancel [enc_facts]: "pass_bytes a @ s = pass_bytes b @ t \<longleftrightarrow> a = b \<and> s = t"
  by (auto simp: pass_bytes_def append_dmarc_pass_def split: option.splits dmarc_alignment.splits)

definition evidence_bytes :: "lane_evidence \<Rightarrow> bytes" where
  "evidence_bytes e = (case e of EvGuestMailbox i \<Rightarrow> 2 # be_bytes 16 i | EvNative h \<Rightarrow> 0 # be_bytes 32 h
     | EvLegacy l \<Rightarrow> 1 # be_bytes 2 (le_format_version l) @ framed 4 (0 :: u32) (le_lane_domain l)
         @ framed 4 (0 :: u32) (vd_author_domain (le_verification l)) @ pass_bytes (vd_dkim (le_verification l))
         @ pass_bytes (vd_spf (le_verification l)) @ be_bytes 8 (vd_evaluated_at (le_verification l)))"

definition evidence_fits :: "lane_evidence \<Rightarrow> bool" where
  "evidence_fits e = (case e of EvLegacy l \<Rightarrow> length (le_lane_domain l) < 2 ^ 32
     \<and> length (vd_author_domain (le_verification l)) < 2 ^ 32 | _ \<Rightarrow> True)"

lemma evidence_append_Ok: "evidence_append e bs = Ok out \<longleftrightarrow> evidence_fits e \<and> out = bs @ evidence_bytes e"
  by (cases e) (auto simp: evidence_append_def evidence_bytes_def evidence_fits_def push_bytes_Ok append_pass)

lemma evidence_cancel:
  assumes "evidence_fits a" "evidence_fits b"
  shows "evidence_bytes a @ s = evidence_bytes b @ t \<longleftrightarrow> a = b \<and> s = t"
proof (cases "\<exists>l m. a = EvLegacy l \<and> b = EvLegacy m")
  case True
  then obtain l m where l: "a = EvLegacy l" "b = EvLegacy m" by blast
  show ?thesis using assms unfolding l evidence_bytes_def evidence_fits_def
    by (cases l; cases m; cases "le_verification l"; cases "le_verification m") (auto simp: enc_facts)
next
  case False
  then show ?thesis by (cases a; cases b) (auto simp: evidence_bytes_def enc_facts)
qed

definition optional_evidence_bytes :: "lane_evidence option \<Rightarrow> bytes" where
  "optional_evidence_bytes x = (case x of None \<Rightarrow> [0] | Some e \<Rightarrow> 1 # evidence_bytes e)"

lemma optional_evidence_append:
  "(case x of Some e \<Rightarrow> evidence_append e (bs @ [1]) | None \<Rightarrow> Ok (bs @ [0])) = Ok out
     \<longleftrightarrow> pred_option evidence_fits x \<and> out = bs @ optional_evidence_bytes x"
  by (cases x) (auto simp: evidence_append_Ok optional_evidence_bytes_def)

lemma optional_evidence_cancel:
  "pred_option evidence_fits x \<Longrightarrow> pred_option evidence_fits y \<Longrightarrow>
     optional_evidence_bytes x @ s = optional_evidence_bytes y @ t \<longleftrightarrow> x = y \<and> s = t"
  by (cases x; cases y) (auto simp: optional_evidence_bytes_def evidence_cancel)

lemma constraint_code_inject [enc_facts]: "constraint_code a = constraint_code b \<longleftrightarrow> a = b"
  by (cases a; cases b) simp_all

definition authentication_bytes :: "admission_authentication \<Rightarrow> bytes" where
  "authentication_bytes a = (case a of NativeKey key \<Rightarrow> 0 # be_bytes 16 key | LegacyDmarc \<Rightarrow> [1])"

lemma authentication_inject [enc_facts]: "authentication_bytes a = authentication_bytes b \<longleftrightarrow> a = b"
  by (cases a; cases b) (auto simp: authentication_bytes_def enc_facts)

definition origin_bytes :: "origin_mode option \<Rightarrow> bytes" where
  "origin_bytes x = (case x of Some origin \<Rightarrow> [1, origin_mode_code origin] | None \<Rightarrow> [0])"

lemma origin_cancel [enc_facts]: "origin_bytes a @ s = origin_bytes b @ t \<longleftrightarrow> a = b \<and> s = t"
  by (auto simp: origin_bytes_def enc_facts split: option.splits)

section \<open>Signed bytes determine what was signed\<close>

lemma admission_bytes_Ok:
  "admission_signing_bytes a = Ok out \<longleftrightarrow> admission_validate a = Ok () \<and> pred_option evidence_fits (bf_evidence a)
     \<and> out = str_bytes ''cs-mail/bond-free-admission/v2'' @ be_bytes 2 (bf_wire_version a) @ be_bytes 16 (bf_sender a)
         @ be_bytes 16 (bf_recipient a) @ be_bytes 16 (bf_message_id a) @ be_bytes 16 (bf_content_ref a)
         @ be_bytes 16 (bf_delivery_intent_ref a) @ declarations_bytes (bf_declarations a) @ be_bytes 8 (bf_valid_until a)
         @ lane_option_bytes (bf_capability a) @ optional_evidence_bytes (bf_evidence a)
         @ be_bytes 16 (bf_idempotency_key a) @ be_bytes 2 (bf_protocol_version a) @ be_bytes 32 (bf_deployment_domain a)
         @ be_bytes 16 (bf_intended_provider a) @ authentication_bytes (bf_authentication a)"
proof -
  have "declarations_validate (bf_declarations a) = Ok ()" if "admission_validate a = Ok ()"
    using that by (auto simp: admission_validate_def)
  then show ?thesis
    by (auto simp: admission_signing_bytes_def declarations_bytes_Ok Let_def optional_evidence_append
        simp flip: authentication_bytes_def)
qed

lemma admission_bytes_inject:
  assumes "admission_signing_bytes a = Ok bs" and "admission_signing_bytes b = Ok bs"
  shows "a = b"
proof -
  have v: "declarations_validate (bf_declarations a) = Ok ()" "declarations_validate (bf_declarations b) = Ok ()"
    and e: "pred_option evidence_fits (bf_evidence a)" "pred_option evidence_fits (bf_evidence b)"
    using assms by (auto simp: admission_bytes_Ok admission_validate_def)
  show ?thesis using assms
    by (intro bond_free_admission.equality)
      (simp_all add: admission_bytes_Ok declarations_cancel [OF v] optional_evidence_cancel [OF e] enc_facts)
qed

lemma grant_bytes_Ok:
  "grant_signing_bytes g = Ok out \<longleftrightarrow> grant_validate g = Ok () \<and> subject_fits (gr_subject g)
     \<and> out = str_bytes ''cs-mail/lane-grant/v2'' @ be_bytes 16 (gr_id g) @ subject_bytes (gr_subject g)
         @ be_bytes 16 (gr_sender g) @ be_bytes 16 (gr_recipient g)
         @ be_bytes 2 (gr_protocol_version g) @ be_bytes 32 (gr_deployment_domain g)
         @ be_bytes 16 (gr_intended_provider g) @ be_bytes 16 (gr_recipient_operational_key g)
         @ purpose_bytes (gr_purpose g) @ origin_bytes (gr_origin g)
         @ [constraint_code (gr_declaration_authority g)]
         @ be_bytes 8 (gr_lifetime g) @ be_bytes 4 (rl_max_messages (gr_rate_limit g))
         @ be_bytes 8 (rl_interval (gr_rate_limit g))
         @ [case gr_mode g of Expiring \<Rightarrow> 0 | Persistent \<Rightarrow> 1]
         @ be_bytes 8 (gr_issued_at g) @ be_bytes 8 (gr_not_before g)
         @ be_bytes 8 (gr_not_after g) @ be_bytes 8 (gr_version g)"
proof -
  have "purpose_validate (gr_purpose g) = Ok ()" if "grant_validate g = Ok ()"
    using that by (auto simp: grant_validate_def)
  then show ?thesis
    by (auto simp: grant_signing_bytes_def subject_append_Ok purpose_append_Ok Let_def origin_bytes_def)
qed

lemma grant_bytes_inject:
  assumes "grant_signing_bytes g = Ok bs" and "grant_signing_bytes h = Ok bs"
  shows "g = h"
proof -
  have v: "purpose_validate (gr_purpose g) = Ok ()" "purpose_validate (gr_purpose h) = Ok ()"
    and f: "subject_fits (gr_subject g)" "subject_fits (gr_subject h)"
    using assms by (auto simp: grant_bytes_Ok grant_validate_def)
  have m: "(case x of Expiring \<Rightarrow> 0 | Persistent \<Rightarrow> (1 :: u8)) = (case y of Expiring \<Rightarrow> 0 | Persistent \<Rightarrow> 1) \<longleftrightarrow> x = y" for x y
    by (cases x; cases y) simp_all
  have "gr_rate_limit g = gr_rate_limit h" using assms
    by (intro rate_limit.equality)
      (simp_all add: grant_bytes_Ok purpose_cancel [OF v] subject_cancel [OF f] enc_facts)
  then show ?thesis using assms
    by (intro sender_scoped_grant.equality)
      (simp_all add: grant_bytes_Ok purpose_cancel [OF v] subject_cancel [OF f] enc_facts m)
qed

lemma control_bytes_inject: "control_signing_bytes k = control_signing_bytes l \<longleftrightarrow> k = l"
  by (cases k; cases l) (auto simp: control_signing_bytes_def enc_facts split: lane_control_action.splits)

end
