(* ===== verification/Admission.thy ===== *)
theory Admission
  imports Signed_Messages Kernel_Authority
begin

text \<open>
  Admission: \<open>crates/cs-mail-protocol/src/admission.rs\<close>.  A message is checked against the durable
  encrypted content and the current policy before it is delivered: free delivery by an accepted
  relationship or a lane is planned here, and what a kernel command would deliver is predicted by
  \<open>proposed_message\<close>.  The lemmas show that the prediction is what the kernel delivers and that
  a free plan is always backed by a permission and by the bound content.
\<close>

section \<open>Policy and content checks\<close>

record admission_policy =
  ad_version :: version
  ad_supported :: "namespaced_identifier fset"

definition admission_evaluate :: "admission_policy \<Rightarrow> message_declarations \<Rightarrow> (unit, admission_failure) res" where
  "admission_evaluate p d =
     and_then (map_err (\<lambda>_. AdmInvalidDeclaration) (declarations_validate d)) (\<lambda>_.
     fail_if (case md_payload_schema d of Some s \<Rightarrow> ps_criticality s = Critical \<and> ps_id s |\<notin>| ad_supported p | None \<Rightarrow> False)
       AdmUnsupportedCriticalExtension (Ok ()))"

record admission_context =
  ax_relationship :: relationship_key
  ax_protocol :: protocol_version
  ax_now :: canonical_time
  ax_authority :: declaration_authority
  ax_capability :: "lane_id option"

definition validate_message ::
  "crypto \<Rightarrow> encrypted_content_record \<Rightarrow> message \<Rightarrow> admission_context \<Rightarrow> admission_policy
     \<Rightarrow> (unit, admission_failure) res" where
  "validate_message c r m x p =
     (let b = ec_binding r in
      fail_if (od_authority (md_origin (cb_declarations b)) \<noteq> ax_authority x \<or> cb_capability b \<noteq> ax_capability x)
        AdmAuthenticationMismatch
      (fail_if (ec_created_at r > ax_now x) AdmContentMissing
      (fail_if (ec_expires_at r \<le> ax_now x) AdmContentExpired
      (fail_if (ms_valid_until m < ax_now x) AdmMessageValidityClosed
      (if cb_message_id b \<noteq> ms_id m \<or> cb_content_ref b \<noteq> ms_content m
          \<or> cb_relationship b \<noteq> rk_reference (ax_relationship x) \<or> cb_sender b \<noteq> rk_sender (ax_relationship x)
          \<or> cb_recipient b \<noteq> rk_recipient (ax_relationship x) \<or> cb_protocol_version b \<noteq> ax_protocol x
          \<or> cb_valid_until b \<noteq> ms_valid_until m
       then Err AdmContentScopeMismatch
       else and_then (map_err (\<lambda>_. AdmInvalidDeclaration) (message_declaration_digest c (cb_declarations b))) (\<lambda>digest.
         fail_if (digest \<noteq> ms_declaration m) AdmContentScopeMismatch
         (admission_evaluate p (cb_declarations b))))))))"

section \<open>Free admission\<close>

record free_admission_plan =
  fr_message :: message
  fr_next_lane :: "sender_scoped_lane option"

datatype admission_plan_error =
  AplProtocol protocol_error | AplPolicy admission_failure | AplCapability capability_error

definition consume_lane ::
  "sender_scoped_lane \<Rightarrow> bond_free_admission \<Rightarrow> canonical_time \<Rightarrow> (sender_scoped_lane, admission_plan_error) res" where
  "consume_lane lane r now =
     and_then (ok_or (bf_evidence r) (AplCapability CapNotAuthorized)) (\<lambda>evidence.
     and_then (map_err AplCapability (lane_authorizes lane (bf_sender r) (bf_recipient r) (bf_capability r)
        (bf_declarations r) evidence now)) (\<lambda>_.
     and_then (map_err AplCapability (lane_consume lane (bf_message_id r) (bf_capability r) (bf_declarations r) evidence now))
       (\<lambda>(lane', replayed).
     fail_if replayed (AplProtocol PtDuplicateConflict) (Ok lane'))))"

definition admission_authority :: "bond_free_admission \<Rightarrow> declaration_authority" where
  "admission_authority r =
     (case bf_authentication r of NativeKey key \<Rightarrow> NativeSender key | LegacyDmarc \<Rightarrow> LegacyGateway (bf_intended_provider r))"

definition free_message ::
  "protocol_state \<Rightarrow> bond_free_admission \<Rightarrow> bytes32 \<Rightarrow> canonical_time \<Rightarrow> admission_basis \<Rightarrow> message" where
  "free_message s r digest now basis =
     \<lparr>ms_id = bf_message_id r, ms_relationship = rk_reference (re_key (st_relationship s)), ms_content = bf_content_ref r,
      ms_delivery = bf_delivery_intent_ref r, ms_declaration = digest, ms_valid_until = bf_valid_until r,
      ms_admitted_at = now, ms_basis = basis\<rparr>"

definition plan_free_admission ::
  "crypto \<Rightarrow> protocol_state \<Rightarrow> bond_free_admission \<Rightarrow> encrypted_content_record option \<Rightarrow> sender_scoped_lane option
     \<Rightarrow> canonical_time \<Rightarrow> admission_policy \<Rightarrow> (free_admission_plan, admission_plan_error) res" where
  "plan_free_admission c s r content lane now policy =
     (let rel = st_relationship s in
      fail_if (re_state rel = RelBlocked) (AplProtocol PtContactBlocked)
      (fail_if (bf_sender r \<noteq> rk_sender (re_key rel) \<or> bf_recipient r \<noteq> rk_recipient (re_key rel))
        (AplCapability CapNotAuthorized)
      (and_then (ok_or content (AplPolicy AdmContentMissing)) (\<lambda>content.
       and_then
         (if re_state rel = RelAccepted then Ok (BasisAcceptedRelationship (re_version rel), None)
          else and_then (ok_or lane (AplCapability CapNotAuthorized)) (\<lambda>l.
            Ok (BasisExpressLane (gr_id (ln_grant l)) (ln_version l), Some l)))
         (\<lambda>(basis, candidate).
       and_then (map_err (\<lambda>_. AplPolicy AdmInvalidDeclaration) (message_declaration_digest c (bf_declarations r))) (\<lambda>digest.
       let m = free_message s r digest now basis in
       and_then (map_err AplPolicy (validate_message c content m
          \<lparr>ax_relationship = re_key rel, ax_protocol = bf_protocol_version r, ax_now = now,
           ax_authority = admission_authority r, ax_capability = bf_capability r\<rparr> policy)) (\<lambda>_.
       case candidate of
         Some l \<Rightarrow>
           and_then (consume_lane l r now) (\<lambda>l'.
           Ok \<lparr>fr_message = m\<lparr>ms_basis := BasisExpressLane (gr_id (ln_grant l')) (ln_version l')\<rparr>, fr_next_lane = Some l'\<rparr>)
       | None \<Rightarrow> Ok \<lparr>fr_message = m, fr_next_lane = None\<rparr>)))))))"

section \<open>What a command proposes to deliver\<close>

definition proposed_message :: "protocol_state \<Rightarrow> protocol_command \<Rightarrow> canonical_time \<Rightarrow> message option" where
  "proposed_message s command now =
     (case command of
        SubmitRequestToRecipient input \<Rightarrow>
          map_option (\<lambda>r. \<lparr>ms_id = rq_initial_message r, ms_relationship = rk_reference (re_key (st_relationship s)),
              ms_content = si_content input, ms_delivery = si_delivery input, ms_declaration = si_declaration input,
              ms_valid_until = si_valid_until input, ms_admitted_at = now,
              ms_basis = BasisInitialRequest (si_request input)\<rparr>) (bt_get (st_requests s) (si_request input))
      | AdmitFollowup i message_id content delivery digest valid_until expected \<Rightarrow>
          Some \<lparr>ms_id = message_id, ms_relationship = rk_reference (re_key (st_relationship s)), ms_content = content,
              ms_delivery = delivery, ms_declaration = digest, ms_valid_until = valid_until, ms_admitted_at = now,
              ms_basis = BasisRequestFollowup i expected\<rparr>
      | _ \<Rightarrow> None)"

section \<open>Properties\<close>

definition delivers_message :: "settlement_snapshot \<Rightarrow> transition_manifest \<Rightarrow> delivery_route \<Rightarrow> message \<Rightarrow> bool" where
  "delivers_message s m route msg \<longleftrightarrow>
     bt_get (sn_messages s) (ms_id msg) = None
     \<and> tm_next_messages m = bt_insert (ms_id msg) msg (sn_messages s)
     \<and> (case route of
          NativeMailboxes \<Rightarrow> tm_mailbox_deliveries m = [ms_id msg] \<and> filter is_delivery (tm_effects m) = []
        | GuestRelay \<Rightarrow> tm_mailbox_deliveries m = []
            \<and> filter is_delivery (tm_effects m) = [DeliverMessage (ms_id msg) (ms_content msg) (ms_delivery msg)])"

lemma submit_delivers:
  assumes "submit_request_to_recipient b cx input = Ok b'"
  shows "silent b b' \<or> (cx_admission cx = None \<and> (\<exists>r. find_request b (si_request input) = Some r \<and> commit_submission b cx r input = Ok b'))"
proof -
  have "(\<exists>x. cancel_submission b (si_request input) x = Ok b')
      \<or> (cx_admission cx = None \<and> (\<exists>r. find_request b (si_request input) = Some r \<and> commit_submission b cx r input = Ok b'))"
    using assms
    by (auto simp: submit_request_to_recipient_def Let_def split: if_splits option.splits request_lifecycle.splits)
  then show ?thesis by (auto dest!: cancel_submission_still simp: still_def)
qed

lemma commit_delivers:
  assumes "commit_submission b cx r input = Ok b'" and "filter is_delivery (mb_effects b) = []" and "mb_mailbox b = []"
  defines "msg \<equiv> submitted_message b cx r input"
  shows "bt_get (mb_messages b) (ms_id msg) = None \<and> mb_messages b' = bt_insert (ms_id msg) msg (mb_messages b)
     \<and> (case mb_route b of
          NativeMailboxes \<Rightarrow> mb_mailbox b' = [ms_id msg] \<and> filter is_delivery (mb_effects b') = []
        | GuestRelay \<Rightarrow> mb_mailbox b' = []
            \<and> filter is_delivery (mb_effects b') = [DeliverMessage (ms_id msg) (ms_content msg) (ms_delivery msg)])"
  using assms(1)
  by (rule commit_submission_Ok)
    (simp add: msg_def submitted_message_def emit_def mb_deliver_def schedule_def put_request_def is_delivery_def assms(2,3)
      split: delivery_route.split)

lemma followup_delivers:
  assumes "admit_followup b i message_id ct dl digest valid_until expected admission = Ok b'"
    and "filter is_delivery (mb_effects b) = []" and "mb_mailbox b = []"
  shows "admission = None \<and> (\<exists>r. find_request b i = Some r \<and> bt_get (mb_messages b) message_id = None
     \<and> mb_messages b' = bt_insert message_id \<lparr>ms_id = message_id, ms_relationship = qt_relationship (rq_terms r),
          ms_content = ct, ms_delivery = dl, ms_declaration = digest, ms_valid_until = valid_until, ms_admitted_at = mb_now b,
          ms_basis = BasisRequestFollowup i expected\<rparr> (mb_messages b)
     \<and> (case mb_route b of
          NativeMailboxes \<Rightarrow> mb_mailbox b' = [message_id] \<and> filter is_delivery (mb_effects b') = []
        | GuestRelay \<Rightarrow> mb_mailbox b' = [] \<and> filter is_delivery (mb_effects b') = [DeliverMessage message_id ct dl]))"
proof -
  have none: "admission = None" using assms(1) by (cases admission) (auto simp: admit_followup_def Let_def)
  obtain r where r: "find_request b i = Some r" using assms(1) by (auto simp: admit_followup_def Let_def)
  let ?m = "\<lparr>ms_id = message_id, ms_relationship = qt_relationship (rq_terms r),
          ms_content = ct, ms_delivery = dl, ms_declaration = digest, ms_valid_until = valid_until, ms_admitted_at = mb_now b,
          ms_basis = BasisRequestFollowup i expected\<rparr>"
  have new: "bt_get (mb_messages b) message_id = None"
    and b': "b' = emit (mb_deliver (b\<lparr>mb_messages := bt_insert message_id ?m (mb_messages b)\<rparr>) message_id ct dl) (FollowupAdmitted i message_id)"
    using assms(1) by (auto simp: admit_followup_def Let_def none r bt_has_def)
  show ?thesis using none r new assms(2,3)
    by (cases "mb_route b") (simp_all add: b' emit_def mb_deliver_def is_delivery_def)
qed

text \<open>
  C17: What admission checks is what the kernel delivers.  The message \<open>proposed_message\<close> builds
  from the state and a command, which the content and policy checks are run on, is the message a
  committed transition stores and delivers, once, on the context's route and only if those checks
  passed; the only other outcome of a submission is its cancellation, which delivers nothing, and
  a command that proposes nothing delivers nothing.
\<close>

theorem proposed_is_delivered:
  assumes "transition c s command cx = Ok m"
  shows "case proposed_message (sn_state s) (kc_command command) (cx_now cx) of
       None \<Rightarrow> delivers_nothing s m
     | Some msg \<Rightarrow>
         (cx_admission cx = None \<and> delivers_message s m (cx_delivery cx) msg)
         \<or> ((\<exists>input. kc_command command = SubmitRequestToRecipient input) \<and> delivers_nothing s m)"
  using assms
proof (rule transition_Ok)
  fix b v
  let ?b = "builder_new s cx"
  assume v: "validate_snapshot s cx = Ok ()"
    and a: "authorize (sn_state s) (kc_actor command) (kc_command command) (ps_recipient_provider (cx_policy cx)) = Ok ()"
    and b: "apply_command c ?b cx (kc_actor command) (kc_key command) (kc_command command) = Ok b"
    and m: "tm_next_state m = mb_next b" "tm_next_messages m = mb_messages b" "tm_mailbox_deliveries m = mb_mailbox b"
      "tm_effects m = mb_effects b"
  note silent = silent_delivers [OF _ m(2-4)]
  have new: "mb_mailbox ?b = []" "filter is_delivery (mb_effects ?b) = []" "mb_messages ?b = sn_messages s" "mb_route ?b = cx_delivery cx"
    "mb_now ?b = cx_now cx"
    by (simp_all add: builder_new_def)
  have own: "qt_relationship (rq_terms r) = rk_reference (re_key (st_relationship (sn_state s)))"
    if "find_request ?b i = Some r" for i r
    using validate_snapshot_Ok(1) [OF v] that
    by (auto simp: state_validate_iff find_request_def builder_new_def owned_by_def)
  have req: "find_request ?b i = bt_get (st_requests (sn_state s)) i" for i
    by (simp add: find_request_def builder_new_def)
  show ?thesis
  proof (cases "kc_command command")
    case (SubmitRequestToRecipient input)
    then have "submit_request_to_recipient ?b cx input = Ok b" using b by (simp add: apply_command_def)
    then show ?thesis
    proof (rule disjE [OF submit_delivers])
      assume "silent ?b b"
      then show ?thesis using silent SubmitRequestToRecipient by (auto simp: proposed_message_def split: option.split)
    next
      assume "cx_admission cx = None \<and> (\<exists>r. find_request ?b (si_request input) = Some r \<and> commit_submission ?b cx r input = Ok b)"
      then obtain r where r: "cx_admission cx = None" "find_request ?b (si_request input) = Some r" "commit_submission ?b cx r input = Ok b"
        by blast
      show ?thesis
        using commit_delivers [OF r(3) new(2,1)] r(1,2) own [OF r(2)] SubmitRequestToRecipient
        by (cases "cx_delivery cx") (simp_all add: proposed_message_def req new delivers_message_def m submitted_message_def)
    qed
  next
    case (AdmitFollowup i message_id ct dl digest valid_until expected)
    then have "admit_followup ?b i message_id ct dl digest valid_until expected (cx_admission cx) = Ok b"
      using b by (simp add: apply_command_def)
    from followup_delivers [OF this new(2,1)] obtain r where "cx_admission cx = None" "find_request ?b i = Some r" by blast
    then show ?thesis
      using followup_delivers [OF \<open>admit_followup _ _ _ _ _ _ _ _ _ = Ok b\<close> new(2,1)] own AdmitFollowup
      by (cases "cx_delivery cx") (auto simp: proposed_message_def new delivers_message_def m)
  qed (use b in \<open>auto simp: proposed_message_def apply_command_def still_def relationship_only_def intro!: silent
      dest!: record_payment_still set_followup_policy_frame issue_terms_frame create_request_frame
        cancel_request_submission_still relationship_decision_frame(1) unblock_frame revoke_frame(1) expire_request_still\<close>)
qed

lemma validate_message_Ok:
  assumes "validate_message c k m x p = Ok ()"
  shows "ec_created_at k \<le> ax_now x" "ax_now x < ec_expires_at k" "ax_now x \<le> ms_valid_until m"
    "cb_message_id (ec_binding k) = ms_id m" "cb_content_ref (ec_binding k) = ms_content m"
    "cb_relationship (ec_binding k) = rk_reference (ax_relationship x)" "cb_sender (ec_binding k) = rk_sender (ax_relationship x)"
    "cb_recipient (ec_binding k) = rk_recipient (ax_relationship x)" "cb_valid_until (ec_binding k) = ms_valid_until m"
    "cb_capability (ec_binding k) = ax_capability x"
    "od_authority (md_origin (cb_declarations (ec_binding k))) = ax_authority x"
    "message_declaration_digest c (cb_declarations (ec_binding k)) = Ok (ms_declaration m)"
    "admission_evaluate p (cb_declarations (ec_binding k)) = Ok ()"
  using assms by (simp_all add: validate_message_def Let_def not_less not_le split: if_splits)

lemma digest_Ok:
  "message_declaration_digest c d = Ok h \<longleftrightarrow> declarations_validate d = Ok () \<and> h = cr_sha256 c (declarations_bytes d)"
  by (auto simp: message_declaration_digest_def declarations_bytes_Ok)

lemma consume_lane_Ok:
  assumes "consume_lane l r now = Ok l'"
  obtains e where "bf_evidence r = Some e" "bf_sender r = gr_sender (ln_grant l)" "bf_recipient r = gr_recipient (ln_grant l)"
    "lane_step l (ConsumeMessage (bf_message_id r) (bf_capability r) (bf_declarations r) e now) = Ok (l', Some now)"
    "ln_state l = LaneActive" "bf_message_id r |\<notin>| ln_admitted_messages l" "bf_message_id r |\<in>| ln_admitted_messages l'"
proof -
  obtain e where e: "bf_evidence r = Some e"
    and a: "lane_authorizes l (bf_sender r) (bf_recipient r) (bf_capability r) (bf_declarations r) e now = Ok ()"
    and k: "lane_consume l (bf_message_id r) (bf_capability r) (bf_declarations r) e now = Ok (l', False)"
    using assms by (auto simp: consume_lane_def)
  have "bf_message_id r |\<notin>| ln_admitted_messages l \<and> bf_message_id r |\<in>| ln_admitted_messages l'"
    using k by (cases rule: lane_consume_cases) auto
  then show thesis using e a k by (intro that [of e]) (auto simp: lane_step_def lane_authorizes_def)
qed

text \<open>
  C18: Free delivery is always permitted and bound to its content.  A plan is made only for the
  pair of an unblocked relationship and for stored, unexpired content whose authenticated binding
  names this message, content, pair, capability, authority and validity, whose declarations hash
  as the request's do and pass the policy.  In an accepted relationship no lane is touched;
  otherwise the plan is exactly one consumption of an active lane of this pair by a message it had
  not admitted, so the lane's rate limit bounds it.
\<close>

theorem free_admission_is_permitted:
  assumes "plan_free_admission c s r content lane now policy = Ok plan"
  shows "re_state (st_relationship s) \<noteq> RelBlocked
     \<and> bf_sender r = rk_sender (re_key (st_relationship s)) \<and> bf_recipient r = rk_recipient (re_key (st_relationship s))
     \<and> (\<exists>k. content = Some k \<and> ec_created_at k \<le> now \<and> now < ec_expires_at k \<and> now \<le> bf_valid_until r
          \<and> cb_message_id (ec_binding k) = bf_message_id r \<and> cb_content_ref (ec_binding k) = bf_content_ref r
          \<and> cb_relationship (ec_binding k) = rk_reference (re_key (st_relationship s))
          \<and> cb_sender (ec_binding k) = bf_sender r \<and> cb_recipient (ec_binding k) = bf_recipient r
          \<and> cb_capability (ec_binding k) = bf_capability r \<and> cb_valid_until (ec_binding k) = bf_valid_until r
          \<and> od_authority (md_origin (cb_declarations (ec_binding k))) = admission_authority r
          \<and> cr_sha256 c (declarations_bytes (cb_declarations (ec_binding k))) = cr_sha256 c (declarations_bytes (bf_declarations r))
          \<and> admission_evaluate policy (cb_declarations (ec_binding k)) = Ok ())
     \<and> ms_id (fr_message plan) = bf_message_id r \<and> ms_content (fr_message plan) = bf_content_ref r
     \<and> ms_declaration (fr_message plan) = cr_sha256 c (declarations_bytes (bf_declarations r))
     \<and> (if re_state (st_relationship s) = RelAccepted
        then fr_next_lane plan = None \<and> ms_basis (fr_message plan) = BasisAcceptedRelationship (re_version (st_relationship s))
        else \<exists>l l' e. lane = Some l \<and> fr_next_lane plan = Some l' \<and> bf_evidence r = Some e
          \<and> ms_basis (fr_message plan) = BasisExpressLane (gr_id (ln_grant l')) (ln_version l')
          \<and> ln_state l = LaneActive \<and> gr_sender (ln_grant l) = bf_sender r \<and> gr_recipient (ln_grant l) = bf_recipient r
          \<and> bf_message_id r |\<notin>| ln_admitted_messages l \<and> bf_message_id r |\<in>| ln_admitted_messages l'
          \<and> lane_step l (ConsumeMessage (bf_message_id r) (bf_capability r) (bf_declarations r) e now) = Ok (l', Some now))"
proof -
  let ?rel = "st_relationship s"
  let ?x = "\<lparr>ax_relationship = re_key ?rel, ax_protocol = bf_protocol_version r, ax_now = now,
           ax_authority = admission_authority r, ax_capability = bf_capability r\<rparr>"
  have pair: "re_state ?rel \<noteq> RelBlocked" "bf_sender r = rk_sender (re_key ?rel)" "bf_recipient r = rk_recipient (re_key ?rel)"
    using assms by (auto simp: plan_free_admission_def Let_def)
  obtain k digest basis candidate where k: "content = Some k"
    and perm: "(if re_state ?rel = RelAccepted then Ok (BasisAcceptedRelationship (re_version ?rel), None)
          else and_then (ok_or lane (AplCapability CapNotAuthorized)) (\<lambda>l.
            Ok (BasisExpressLane (gr_id (ln_grant l)) (ln_version l), Some l))) = Ok (basis, candidate)"
    and d: "message_declaration_digest c (bf_declarations r) = Ok digest"
    and v: "validate_message c k (free_message s r digest now basis) ?x policy = Ok ()"
    and plan: "(case candidate of
         Some l \<Rightarrow>
           and_then (consume_lane l r now) (\<lambda>l'.
           Ok \<lparr>fr_message = (free_message s r digest now basis)\<lparr>ms_basis := BasisExpressLane (gr_id (ln_grant l')) (ln_version l')\<rparr>,
               fr_next_lane = Some l'\<rparr>)
       | None \<Rightarrow> Ok \<lparr>fr_message = free_message s r digest now basis, fr_next_lane = None\<rparr>) = Ok plan"
    using assms by (auto simp: plan_free_admission_def Let_def)
  have bound: "ec_created_at k \<le> now \<and> now < ec_expires_at k \<and> now \<le> bf_valid_until r
          \<and> cb_message_id (ec_binding k) = bf_message_id r \<and> cb_content_ref (ec_binding k) = bf_content_ref r
          \<and> cb_relationship (ec_binding k) = rk_reference (re_key ?rel)
          \<and> cb_sender (ec_binding k) = bf_sender r \<and> cb_recipient (ec_binding k) = bf_recipient r
          \<and> cb_capability (ec_binding k) = bf_capability r \<and> cb_valid_until (ec_binding k) = bf_valid_until r
          \<and> od_authority (md_origin (cb_declarations (ec_binding k))) = admission_authority r
          \<and> cr_sha256 c (declarations_bytes (cb_declarations (ec_binding k))) = cr_sha256 c (declarations_bytes (bf_declarations r))
          \<and> admission_evaluate policy (cb_declarations (ec_binding k)) = Ok ()"
    using validate_message_Ok [OF v] pair d by (simp add: free_message_def digest_Ok)
  show ?thesis
  proof (cases "re_state ?rel = RelAccepted")
    case True
    then have "basis = BasisAcceptedRelationship (re_version ?rel)" "candidate = None" using perm by simp_all
    then show ?thesis using pair k bound plan d True by (auto simp: free_message_def digest_Ok)
  next
    case False
    then obtain l where l: "lane = Some l" "candidate = Some l" using perm by auto
    then obtain l' where l': "consume_lane l r now = Ok l'"
      and p: "plan = \<lparr>fr_message = (free_message s r digest now basis)\<lparr>ms_basis := BasisExpressLane (gr_id (ln_grant l')) (ln_version l')\<rparr>,
               fr_next_lane = Some l'\<rparr>" using plan by auto
    obtain e where "bf_evidence r = Some e" "bf_sender r = gr_sender (ln_grant l)" "bf_recipient r = gr_recipient (ln_grant l)"
      "lane_step l (ConsumeMessage (bf_message_id r) (bf_capability r) (bf_declarations r) e now) = Ok (l', Some now)"
      "ln_state l = LaneActive" "bf_message_id r |\<notin>| ln_admitted_messages l" "bf_message_id r |\<in>| ln_admitted_messages l'"
      by (rule consume_lane_Ok [OF l'])
    then show ?thesis using pair k bound d False l(1) by (simp add: p free_message_def digest_Ok)
  qed
qed

end
