(* ===== verification/Admission_Samples.thy ===== *)
theory Admission_Samples
  imports Admission Kernel_Samples
begin

text \<open>
  The properties of admission applied to concrete messages: a follow-up of an accepted exchange,
  and a first message over a lane.
\<close>

theorem proposed_is_delivered_witness:
  "\<exists>t m. delivers_message t m NativeMailboxes
      \<lparr>ms_id = 40, ms_relationship = \<lparr>sr_version = 1, sr_bytes = 1\<rparr>, ms_content = 3, ms_delivery = 4,
       ms_declaration = 5, ms_valid_until = 1000, ms_admitted_at = 5, ms_basis = BasisRequestFollowup 30 1\<rparr>"
proof -
  obtain t m where t: "plays sample_start (to_recipient @ [say (SetFollowupPolicy 0 sample_limits) 4]) = Some t"
    and m: "transition sample_crypto t \<lparr>kc_command = AdmitFollowup 30 40 3 4 5 1000 1, kc_actor = ActSender 10,
      kc_key = 1, kc_idempotency_key = 1\<rparr> (sample_context 5) = Ok m" using sample_followup by blast
  have r: "rk_reference (re_key (st_relationship (sn_state t))) = \<lparr>sr_version = 1, sr_bytes = 1\<rparr>"
    using t by (auto simp: run_simps to_recipient_def sample_limits_def cong: kernel_lazily)
  show ?thesis
    using proposed_is_delivered [OF m] by (auto simp: proposed_message_def r sample_context_def)
qed

definition sample_free :: bond_free_admission where
  "sample_free = \<lparr>bf_wire_version = 1, bf_sender = 2, bf_recipient = 3, bf_message_id = 7, bf_content_ref = 11,
     bf_delivery_intent_ref = 12, bf_declarations = sample_declarations, bf_valid_until = 100, bf_capability = Some 1,
     bf_evidence = Some (EvNative 9), bf_idempotency_key = 13, bf_protocol_version = 2, bf_deployment_domain = 3,
     bf_intended_provider = 4, bf_authentication = NativeKey 6\<rparr>"

definition sample_content :: encrypted_content_record where
  "sample_content = \<lparr>ec_binding = \<lparr>cb_wire_version = 1, cb_content_ref = 11, cb_message_id = 7, cb_sender = 2,
       cb_recipient = 3, cb_protocol_version = 2, cb_relationship = \<lparr>sr_version = 1, sr_bytes = 1\<rparr>,
       cb_content_scope = \<lparr>sr_version = 1, sr_bytes = 6\<rparr>, cb_sender_certificate = 7,
       cb_declarations = sample_declarations, cb_valid_until = 100, cb_capability = Some 1\<rparr>,
     ec_envelope = \<lparr>ce_suite = HpkeX25519HkdfSha256ChaCha20Poly1305V1, ce_sender_key = 8, ce_recipient_key = 9,
       ce_encapsulated_key = [], ce_ciphertext = [1]\<rparr>,
     ec_created_at = 15, ec_expires_at = 90\<rparr>"

definition sample_pair :: protocol_state where
  "sample_pair = sn_state (registered \<lparr>sr_version = 1, sr_bytes = 1\<rparr> \<lparr>sr_version = 1, sr_bytes = 2\<rparr> 2 3 0 1)"

definition sample_admissions :: admission_policy where
  "sample_admissions = \<lparr>ad_version = 1, ad_supported = {||}\<rparr>"

lemma sample_free_plan:
  "\<exists>plan. plan_free_admission sample_crypto sample_pair sample_free (Some sample_content) (Some sample_lane) 20 sample_admissions
     = Ok plan \<and> fr_next_lane plan = Some sample_used_lane"
proof -
  have key: "re_key (st_relationship sample_pair) = \<lparr>rk_reference = \<lparr>sr_version = 1, sr_bytes = 1\<rparr>, rk_sender = 2, rk_recipient = 3\<rparr>"
    and st: "re_state (st_relationship sample_pair) = RelUnknown"
    by (simp_all add: sample_pair_def registered_def snapshot_complete_def initial_scoped_def)
  obtain digest where digest: "message_declaration_digest sample_crypto sample_declarations = Ok digest"
    by (simp add: message_declaration_digest_def declarations_bytes_Ok sample_declarations_valid)
  have evaluates: "admission_evaluate sample_admissions sample_declarations = Ok ()"
    by (simp add: admission_evaluate_def sample_declarations_valid) (simp add: sample_declarations_def)
  have lane: "lane_authorizes sample_lane 2 3 (Some 1) sample_declarations (EvNative 9) 20 = Ok ()"
    using sample_consume by (auto simp: lane_consume_def lane_authorizes_def sample_lane_def sample_grant_def split: if_splits)
  show ?thesis
    by (simp add: plan_free_admission_def Let_def key st sample_free_def digest validate_message_def sample_content_def
        admission_authority_def evaluates consume_lane_def lane sample_consume free_message_def)
      (simp add: sample_declarations_def)
qed

theorem free_admission_is_permitted_witness:
  "\<exists>plan. plan_free_admission sample_crypto sample_pair sample_free (Some sample_content) (Some sample_lane) 20 sample_admissions
     = Ok plan \<and> fr_next_lane plan = Some sample_used_lane
     \<and> ms_content (fr_message plan) = 11 \<and> 7 |\<notin>| ln_admitted_messages sample_lane"
proof -
  obtain plan where plan: "plan_free_admission sample_crypto sample_pair sample_free (Some sample_content) (Some sample_lane)
      20 sample_admissions = Ok plan" "fr_next_lane plan = Some sample_used_lane" using sample_free_plan by blast
  from free_admission_is_permitted [OF plan(1)] plan show ?thesis
    by (auto simp: sample_free_def split: if_splits)
qed

end
