(* ===== verification/Wire.thy ===== *)
theory Wire
  imports Kernel Encoding
begin

text \<open>
  The canonical command envelope and the signed terms artifact: \<open>crates/cs-mail-wire/src/lib.rs\<close>.
  The CBOR item codec (the crate minicbor) and the JSON text of two embedded values (serde_json)
  are third-party code: they are the record \<open>codec\<close>, an argument of every definition that calls
  them, with their documented behaviour in \<open>codec_correct\<close>.  The lemmas show that decoding
  inverts encoding for every command, and that what is decoded was encoded canonically.
\<close>

section \<open>The third-party codecs\<close>

text \<open>
  An encoder writes one CBOR item, a decoder reads one item from the front and returns the rest;
  the message of a codec error is not modelled.  \<open>de_array\<close> gives no length for an indefinite
  array.
\<close>

record codec =
  en_array :: "u64 \<Rightarrow> bytes"
  en_str :: "string \<Rightarrow> bytes"
  en_u8 :: "u8 \<Rightarrow> bytes"
  en_u16 :: "u16 \<Rightarrow> bytes"
  en_u32 :: "u32 \<Rightarrow> bytes"
  en_u64 :: "u64 \<Rightarrow> bytes"
  en_bytes :: "bytes \<Rightarrow> bytes"
  de_array :: "bytes \<Rightarrow> (u64 option \<times> bytes) option"
  de_str :: "bytes \<Rightarrow> (string \<times> bytes) option"
  de_u8 :: "bytes \<Rightarrow> (u8 \<times> bytes) option"
  de_u16 :: "bytes \<Rightarrow> (u16 \<times> bytes) option"
  de_u32 :: "bytes \<Rightarrow> (u32 \<times> bytes) option"
  de_u64 :: "bytes \<Rightarrow> (u64 \<times> bytes) option"
  de_bytes :: "bytes \<Rightarrow> (bytes \<times> bytes) option"
  js_route :: "request_return_route \<Rightarrow> bytes option"
  js_route_of :: "bytes \<Rightarrow> request_return_route option"
  js_reply :: "request_reply_agreement \<Rightarrow> bytes option"
  js_reply_of :: "bytes \<Rightarrow> request_reply_agreement option"

text \<open>The UTF-8 byte sequences a Rust string holds.\<close>

fun utf8_valid :: "nat list \<Rightarrow> bool" where
  "utf8_valid [] = True"
| "utf8_valid (a # xs) =
     (if a < 0x80 then utf8_valid xs
      else (case xs of
        [] \<Rightarrow> False
      | b # ys \<Rightarrow>
          if 0xC2 \<le> a \<and> a \<le> 0xDF then b div 64 = 2 \<and> utf8_valid ys
          else (case ys of
            [] \<Rightarrow> False
          | d # zs \<Rightarrow>
              if 0xE0 \<le> a \<and> a \<le> 0xEF
              then b div 64 = 2 \<and> d div 64 = 2 \<and> (a = 0xE0 \<longrightarrow> 0xA0 \<le> b) \<and> (a = 0xED \<longrightarrow> b \<le> 0x9F) \<and> utf8_valid zs
              else (case zs of
                [] \<Rightarrow> False
              | e # ws \<Rightarrow> 0xF0 \<le> a \<and> a \<le> 0xF4 \<and> b div 64 = 2 \<and> d div 64 = 2 \<and> e div 64 = 2
                  \<and> (a = 0xF0 \<longrightarrow> 0x90 \<le> b) \<and> (a = 0xF4 \<longrightarrow> b \<le> 0x8F) \<and> utf8_valid ws))))"

definition rust_str :: "string \<Rightarrow> bool" where
  "rust_str s \<longleftrightarrow> utf8_valid (map of_char s) \<and> length s < 2 ^ 63"

definition route_ok :: "request_return_route \<Rightarrow> bool" where
  "route_ok r = (case r of NativeRoute alias \<Rightarrow> alias \<noteq> 0 | GuestMailbox \<Rightarrow> True)"

definition reply_ok :: "request_reply_agreement \<Rightarrow> bool" where
  "reply_ok a = (case a of NotOffered \<Rightarrow> True | Agreed terms \<Rightarrow> is_ok (reply_terms_new terms))"

text \<open>
  RFC 8949 for the items used: a decoder reads back what the encoder wrote, whatever follows.
  serde_json reads back what it wrote for a value its type can hold.
\<close>

definition codec_correct :: "codec \<Rightarrow> bool" where
  "codec_correct w \<longleftrightarrow>
     (\<forall>v rest. de_array w (en_array w v @ rest) = Some (Some v, rest))
     \<and> (\<forall>v rest. rust_str v \<longrightarrow> de_str w (en_str w v @ rest) = Some (v, rest))
     \<and> (\<forall>v rest. de_u8 w (en_u8 w v @ rest) = Some (v, rest))
     \<and> (\<forall>v rest. de_u16 w (en_u16 w v @ rest) = Some (v, rest))
     \<and> (\<forall>v rest. de_u32 w (en_u32 w v @ rest) = Some (v, rest))
     \<and> (\<forall>v rest. de_u64 w (en_u64 w v @ rest) = Some (v, rest))
     \<and> (\<forall>v rest. length v < 2 ^ 63 \<longrightarrow> de_bytes w (en_bytes w v @ rest) = Some (v, rest))
     \<and> (\<forall>r. route_ok r \<longrightarrow> (\<exists>bs. js_route w r = Some bs \<and> length bs < 2 ^ 63 \<and> js_route_of w bs = Some r))
     \<and> (\<forall>a. reply_ok a \<longrightarrow> (\<exists>bs. js_reply w a = Some bs \<and> length bs < 2 ^ 63 \<and> js_reply_of w bs = Some a))"

datatype wire_error =
  WireCodec | WireUnexpectedShape | WireUnknownTag u32 | WireInvalidIdentifier | WireTrailingData

section \<open>Decoders\<close>

text \<open>A decoder takes the bytes not yet read; \<open>then_read\<close> is the \<open>?\<close> between two reads.\<close>

type_synonym 'a decoder = "bytes \<Rightarrow> ('a \<times> bytes, wire_error) res"

definition read_ok :: "'a \<Rightarrow> 'a decoder" where
  "read_ok v bs = Ok (v, bs)"

definition read_fail :: "wire_error \<Rightarrow> 'a decoder" where
  "read_fail e bs = Err e"

definition then_read :: "'a decoder \<Rightarrow> ('a \<Rightarrow> 'b decoder) \<Rightarrow> 'b decoder" where
  "then_read d f bs = and_then (d bs) (\<lambda>(v, rest). f v rest)"

definition read_item :: "(bytes \<Rightarrow> ('a \<times> bytes) option) \<Rightarrow> 'a decoder" where
  "read_item f bs = ok_or (f bs) WireCodec"

definition read_try :: "'a option \<Rightarrow> wire_error \<Rightarrow> 'a decoder" where
  "read_try x e bs = map_ok (\<lambda>v. (v, bs)) (ok_or x e)"

definition be_nat :: "bytes \<Rightarrow> nat" where
  "be_nat bs = foldl (\<lambda>n b. n * 256 + unat b) 0 bs"

text \<open>\<open>try_into\<close> an array of n bytes, read as a big-endian number.\<close>

definition sized_word :: "nat \<Rightarrow> bytes \<Rightarrow> 'l::len word option" where
  "sized_word n bs = (if length bs = n then Some (of_nat (be_nat bs)) else None)"

definition encode_id :: "codec \<Rightarrow> u128 \<Rightarrow> bytes" where
  "encode_id w v = en_bytes w (be_bytes 16 v)"

definition decode_id :: "codec \<Rightarrow> u128 decoder" where
  "decode_id w = then_read (read_item (de_bytes w)) (\<lambda>bs. read_try (sized_word 16 bs) WireInvalidIdentifier)"

definition read_32 :: "codec \<Rightarrow> bytes32 decoder" where
  "read_32 w = then_read (read_item (de_bytes w)) (\<lambda>bs. read_try (sized_word 32 bs) WireUnexpectedShape)"

definition expect_array :: "codec \<Rightarrow> u64 \<Rightarrow> unit decoder" where
  "expect_array w expected = then_read (read_item (de_array w)) (\<lambda>n.
     if n = Some expected then read_ok () else read_fail WireUnexpectedShape)"

definition encode_scoped_ref :: "codec \<Rightarrow> scoped_ref \<Rightarrow> bytes" where
  "encode_scoped_ref w r = en_array w 2 @ en_u16 w (sr_version r) @ en_bytes w (be_bytes 32 (sr_bytes r))"

definition decode_scoped_ref :: "codec \<Rightarrow> scoped_ref decoder" where
  "decode_scoped_ref w =
     then_read (expect_array w 2) (\<lambda>_.
     then_read (read_item (de_u16 w)) (\<lambda>version.
     then_read (read_item (de_bytes w)) (\<lambda>bs.
     then_read (read_try (sized_word 32 bs) WireInvalidIdentifier) (\<lambda>v.
     read_ok \<lparr>sr_version = version, sr_bytes = v\<rparr>))))"

definition encode_optional_digest :: "codec \<Rightarrow> bytes32 option \<Rightarrow> bytes" where
  "encode_optional_digest w x =
     (case x of Some digest \<Rightarrow> en_array w 1 @ en_bytes w (be_bytes 32 digest) | None \<Rightarrow> en_array w 0)"

definition decode_optional_digest :: "codec \<Rightarrow> bytes32 option decoder" where
  "decode_optional_digest w =
     then_read (read_item (de_array w)) (\<lambda>n.
     if n = Some 0 then read_ok None
     else if n = Some 1 then then_read (read_item (de_bytes w)) (\<lambda>bs.
       then_read (read_try (sized_word 32 bs) WireUnexpectedShape) (\<lambda>digest. read_ok (Some digest)))
     else read_fail WireUnexpectedShape)"

definition encode_financial_scope :: "codec \<Rightarrow> financial_scope \<Rightarrow> bytes" where
  "encode_financial_scope w s =
     en_array w 5 @ en_bytes w (be_bytes 32 (fs_deployment_domain s)) @ encode_id w (fs_operator s)
     @ encode_id w (fs_program s) @ en_bytes w (be_bytes 32 (fs_payment_account s)) @ en_u16 w (fs_protocol_version s)"

definition decode_financial_scope :: "codec \<Rightarrow> financial_scope decoder" where
  "decode_financial_scope w =
     then_read (expect_array w 5) (\<lambda>_.
     then_read (read_32 w) (\<lambda>domain.
     then_read (decode_id w) (\<lambda>operator.
     then_read (decode_id w) (\<lambda>program.
     then_read (read_32 w) (\<lambda>account.
     then_read (read_item (de_u16 w)) (\<lambda>version.
     read_ok \<lparr>fs_deployment_domain = domain, fs_operator = operator, fs_program = program,
       fs_payment_account = account, fs_protocol_version = version\<rparr>))))))"

section \<open>Reading back what was written\<close>

definition reads :: "'a decoder \<Rightarrow> bytes \<Rightarrow> 'a \<Rightarrow> bool" where
  "reads d bs v \<longleftrightarrow> (\<forall>rest. d (bs @ rest) = Ok (v, rest))"

named_theorems reads_intros \<open>decoders that read back what their encoder wrote\<close>

lemma reads_then: "reads d bs v \<Longrightarrow> reads (f v) bs' v' \<Longrightarrow> reads (then_read d f) (bs @ bs') v'"
  by (simp add: reads_def then_read_def)

lemma reads_pure: "reads (read_ok v) [] v"
  by (simp add: reads_def read_ok_def)

lemma reads_pure_eq: "v = v' \<Longrightarrow> reads (read_ok v) [] v'"
  by (simp add: reads_pure)

lemma reads_last: "reads d bs v \<Longrightarrow> reads (f v) [] v' \<Longrightarrow> reads (then_read d f) bs v'"
  using reads_then [of d bs v f "[]" v'] by simp

lemma reads_silent: "reads d [] v \<Longrightarrow> reads (f v) bs v' \<Longrightarrow> reads (then_read d f) bs v'"
  using reads_then [of d "[]" v f bs v'] by simp

lemma reads_try: "x = Some v \<Longrightarrow> reads (read_try x e) [] v"
  by (simp add: reads_def read_try_def)

text \<open>Refusing what was written.\<close>

definition rejects :: "'a decoder \<Rightarrow> bytes \<Rightarrow> wire_error \<Rightarrow> bool" where
  "rejects d bs e \<longleftrightarrow> (\<forall>rest. d (bs @ rest) = Err e)"

lemma rejects_then: "reads d bs v \<Longrightarrow> rejects (f v) bs' e \<Longrightarrow> rejects (then_read d f) (bs @ bs') e"
  by (simp add: reads_def rejects_def then_read_def)

lemma rejects_silent: "reads d [] v \<Longrightarrow> rejects (f v) bs e \<Longrightarrow> rejects (then_read d f) bs e"
  using rejects_then [of d "[]" v f bs e] by simp

lemma rejects_last: "reads d bs v \<Longrightarrow> f v = read_fail e \<Longrightarrow> rejects (then_read d f) bs e"
  by (simp add: reads_def rejects_def then_read_def read_fail_def)

lemma rejects_here: "rejects d bs e \<Longrightarrow> rejects (then_read d f) bs e"
  by (simp add: rejects_def then_read_def)

lemma be_nat_bytes:
  fixes w :: "'l::len word"
  shows "be_nat (be_bytes n w) = unat w mod 256 ^ n"
proof (induction n arbitrary: w)
  case 0
  then show ?case by (simp add: be_nat_def)
next
  case (Suc n)
  have hi: "unat (drop_bit 8 w) = unat w div 256" using unat_drop_bit_eq [of 8 w] by (simp add: drop_bit_eq_div)
  have lo: "unat (ucast w :: u8) = unat w mod 256" by (simp add: unsigned_ucast_eq take_bit_eq_mod)
  have split: "x mod 256 ^ Suc n = 256 * ((x div 256) mod 256 ^ n) + x mod 256" for x :: nat
    by (simp add: mod_mult2_eq)
  have "be_nat (be_bytes (Suc n) w) = be_nat (be_bytes n (drop_bit 8 w)) * 256 + unat (ucast w :: u8)"
    by (simp add: be_nat_def)
  then show ?case by (simp only: Suc.IH hi lo split mult.commute)
qed

lemma sized_word_bytes [simp]:
  fixes v :: "'l::len word"
  assumes "LENGTH('l) \<le> 8 * n"
  shows "sized_word n (be_bytes n v) = Some v"
proof -
  have "(2 :: nat) ^ LENGTH('l) \<le> 2 ^ (8 * n)" using assms by (rule power_increasing) simp
  then have "unat v < 256 ^ n" using order.strict_trans2 [OF unsigned_less] by (auto simp: power_mult)
  then show ?thesis by (simp add: sized_word_def be_nat_bytes)
qed

lemma reads_items [reads_intros]:
  assumes "codec_correct w"
  shows "reads (read_item (de_u8 w)) (en_u8 w a) a"
    and "reads (read_item (de_u16 w)) (en_u16 w b) b"
    and "reads (read_item (de_u32 w)) (en_u32 w d) d"
    and "reads (read_item (de_u64 w)) (en_u64 w e) e"
    and "reads (read_item (de_array w)) (en_array w n) (Some n)"
    and "reads (expect_array w n) (en_array w n) ()"
    and "rust_str s \<Longrightarrow> reads (read_item (de_str w)) (en_str w s) s"
    and "length bs < 2 ^ 63 \<Longrightarrow> reads (read_item (de_bytes w)) (en_bytes w bs) bs"
  using assms by (simp_all add: reads_def read_item_def codec_correct_def expect_array_def then_read_def read_ok_def)

lemma reads_words [reads_intros]:
  assumes "codec_correct w"
  shows "reads (decode_id w) (encode_id w i) i"
    and "reads (read_32 w) (en_bytes w (be_bytes 32 h)) h"
  unfolding decode_id_def encode_id_def read_32_def
  by (rule reads_last [OF reads_items(8) [OF assms]] reads_try; simp)+

lemma reads_scoped_ref [reads_intros]:
  assumes "codec_correct w" shows "reads (decode_scoped_ref w) (encode_scoped_ref w r) r"
  unfolding decode_scoped_ref_def encode_scoped_ref_def
  by (intro reads_then [OF reads_items(6)] reads_then [OF reads_items(2)] assms reads_last [OF reads_items(8)]
      reads_silent [OF reads_try [OF sized_word_bytes]] reads_pure_eq) simp_all

lemma reads_optional_digest [reads_intros]:
  assumes "codec_correct w" shows "reads (decode_optional_digest w) (encode_optional_digest w x) x"
proof (cases x)
  case None
  show ?thesis unfolding decode_optional_digest_def encode_optional_digest_def None option.case
    by (rule reads_last [OF reads_items(5) [OF assms]]) (simp add: reads_pure)
next
  case (Some h)
  show ?thesis unfolding decode_optional_digest_def encode_optional_digest_def Some option.case
    by (rule reads_then [OF reads_items(5) [OF assms]], simp,
        intro reads_last [OF reads_items(8)] assms reads_silent [OF reads_try [OF sized_word_bytes]] reads_pure_eq) simp_all
qed

lemma reads_financial_scope [reads_intros]:
  assumes "codec_correct w" shows "reads (decode_financial_scope w) (encode_financial_scope w s) s"
  unfolding decode_financial_scope_def encode_financial_scope_def
  by (intro reads_then [OF reads_items(6)] reads_then [OF reads_words(1)] reads_then [OF reads_words(2)]
      reads_last [OF reads_items(2)] assms reads_pure_eq) simp

section \<open>Terms\<close>

definition encode_terms :: "codec \<Rightarrow> request_terms \<Rightarrow> (bytes, wire_error) res" where
  "encode_terms w t =
     and_then (ok_or (js_route w (qt_return_route t)) WireInvalidIdentifier) (\<lambda>route.
     and_then (ok_or (js_reply w (qt_reply_lane t)) WireInvalidIdentifier) (\<lambda>reply.
     Ok (en_array w 36 @ en_bytes w route @ encode_id w (qt_receiving_alias t)
       @ encode_id w (sc_id (qt_selected_class t)) @ en_str w (sc_description (qt_selected_class t))
       @ encode_id w (qt_quote_id t) @ en_u16 w (qt_protocol_version t) @ en_u64 w (qt_policy_version t)
       @ en_u64 w (qt_pricing_policy_version t) @ en_u16 w (qt_privacy_profile_version t)
       @ en_u16 w (qt_retention_policy_version t) @ encode_scoped_ref w (qt_relationship t)
       @ encode_scoped_ref w (qt_request_history t) @ encode_id w (qt_sender t) @ encode_id w (qt_recipient t)
       @ encode_id w (qt_recipient_provider t) @ en_u64 w (qt_relationship_version t) @ en_u64 w (qt_history_version t)
       @ en_u64 w (qt_processing_charge t) @ en_u64 w (qt_collateral t) @ en_u32 w (qt_request_level t)
       @ en_u64 w (qt_eligibility_time t) @ en_u32 w (qt_unit t) @ en_u64 w (qt_submission_window t)
       @ en_u64 w (qt_decision_window t) @ en_u64 w (qt_issued_at t) @ en_u64 w (qt_expires_at t)
       @ encode_optional_digest w (qt_declaration_digest t) @ encode_financial_scope w (ft_scope (qt_financial t))
       @ en_u64 w (ft_policy_version (qt_financial t)) @ en_u16 w (ft_corporate_basis_points (qt_financial t))
       @ en_u64 w (ft_maturity_delay (qt_financial t)) @ en_bytes w (be_bytes 32 (qt_payment_provider_key t))
       @ en_u64 w (qt_expiry_cooldown t) @ en_u64 w (qt_rejection_cooldown t) @ en_u64 w (qt_next_request_backoff t)
       @ en_bytes w reply)))"

definition decode_terms :: "codec \<Rightarrow> request_terms decoder" where
  "decode_terms w =
     then_read (expect_array w 36) (\<lambda>_.
     then_read (read_item (de_bytes w)) (\<lambda>route_bytes.
     then_read (read_try (js_route_of w route_bytes) WireInvalidIdentifier) (\<lambda>return_route.
     then_read (decode_id w) (\<lambda>alias_value.
     then_read (read_try (if alias_value = 0 then None else Some alias_value) WireInvalidIdentifier) (\<lambda>alias.
     then_read (decode_id w) (\<lambda>class_id.
     then_read (read_item (de_str w)) (\<lambda>description.
     then_read (read_try (case selected_class_new class_id description of Ok v \<Rightarrow> Some v | _ \<Rightarrow> None) WireInvalidIdentifier) (\<lambda>selected.
     then_read (decode_id w) (\<lambda>quote.
     then_read (read_item (de_u16 w)) (\<lambda>protocol_version.
     then_read (read_item (de_u64 w)) (\<lambda>policy_version.
     then_read (read_item (de_u64 w)) (\<lambda>pricing_version.
     then_read (read_item (de_u16 w)) (\<lambda>privacy_version.
     then_read (read_item (de_u16 w)) (\<lambda>retention_version.
     then_read (decode_scoped_ref w) (\<lambda>relationship.
     then_read (decode_scoped_ref w) (\<lambda>history.
     then_read (decode_id w) (\<lambda>sender.
     then_read (decode_id w) (\<lambda>recipient.
     then_read (decode_id w) (\<lambda>provider.
     then_read (read_item (de_u64 w)) (\<lambda>relationship_version.
     then_read (read_item (de_u64 w)) (\<lambda>history_version.
     then_read (read_item (de_u64 w)) (\<lambda>charge.
     then_read (read_item (de_u64 w)) (\<lambda>collateral.
     then_read (read_item (de_u32 w)) (\<lambda>level.
     then_read (read_item (de_u64 w)) (\<lambda>eligibility.
     then_read (read_item (de_u32 w)) (\<lambda>unit_ref.
     then_read (read_item (de_u64 w)) (\<lambda>submission_window.
     then_read (read_item (de_u64 w)) (\<lambda>decision_window.
     then_read (read_item (de_u64 w)) (\<lambda>issued_at.
     then_read (read_item (de_u64 w)) (\<lambda>expires_at.
     then_read (decode_optional_digest w) (\<lambda>digest.
     then_read (decode_financial_scope w) (\<lambda>scope.
     then_read (read_item (de_u64 w)) (\<lambda>financial_version.
     then_read (read_item (de_u16 w)) (\<lambda>basis_points.
     then_read (read_item (de_u64 w)) (\<lambda>maturity_delay.
     then_read (read_32 w) (\<lambda>provider_key.
     then_read (read_item (de_u64 w)) (\<lambda>expiry_cooldown.
     then_read (read_item (de_u64 w)) (\<lambda>rejection_cooldown.
     then_read (read_item (de_u64 w)) (\<lambda>backoff.
     then_read (read_item (de_bytes w)) (\<lambda>reply_bytes.
     then_read (read_try (js_reply_of w reply_bytes) WireInvalidIdentifier) (\<lambda>reply.
     read_ok \<lparr>qt_return_route = return_route, qt_receiving_alias = alias, qt_reply_lane = reply, qt_selected_class = selected,
       qt_pricing_policy_version = pricing_version, qt_quote_id = quote, qt_protocol_version = protocol_version,
       qt_policy_version = policy_version, qt_privacy_profile_version = privacy_version,
       qt_retention_policy_version = retention_version, qt_relationship = relationship, qt_request_history = history,
       qt_sender = sender, qt_recipient = recipient, qt_recipient_provider = provider,
       qt_relationship_version = relationship_version, qt_history_version = history_version,
       qt_processing_charge = charge, qt_collateral = collateral, qt_request_level = level, qt_eligibility_time = eligibility,
       qt_unit = unit_ref, qt_submission_window = submission_window, qt_decision_window = decision_window,
       qt_issued_at = issued_at, qt_expires_at = expires_at, qt_declaration_digest = digest,
       qt_financial = \<lparr>ft_scope = scope, ft_policy_version = financial_version, ft_corporate_basis_points = basis_points,
         ft_maturity_delay = maturity_delay\<rparr>,
       qt_payment_provider_key = provider_key, qt_expiry_cooldown = expiry_cooldown,
       qt_rejection_cooldown = rejection_cooldown, qt_next_request_backoff = backoff\<rparr>)))))))))))))))))))))))))))))))))))))))))"

definition encode_terms_artifact :: "codec \<Rightarrow> request_terms \<Rightarrow> (bytes, wire_error) res" where
  "encode_terms_artifact w t =
     and_then (encode_terms w t) (\<lambda>bs. Ok (en_array w 2 @ en_str w ''cs-mail/request-terms/v7'' @ bs))"

definition terms_ok :: "request_terms \<Rightarrow> bool" where
  "terms_ok t \<longleftrightarrow> route_ok (qt_return_route t) \<and> reply_ok (qt_reply_lane t) \<and> qt_receiving_alias t \<noteq> 0
     \<and> selected_class_new (sc_id (qt_selected_class t)) (sc_description (qt_selected_class t)) = Ok (qt_selected_class t)
     \<and> rust_str (sc_description (qt_selected_class t))"

lemma reads_terms:
  assumes "codec_correct w" and "terms_ok t" and "encode_terms w t = Ok bs"
  shows "reads (decode_terms w) bs t"
proof -
  obtain route where route: "js_route w (qt_return_route t) = Some route" "length route < 2 ^ 63" "js_route_of w route = Some (qt_return_route t)"
    using assms(1,2) unfolding codec_correct_def terms_ok_def by metis
  obtain reply where reply: "js_reply w (qt_reply_lane t) = Some reply" "length reply < 2 ^ 63" "js_reply_of w reply = Some (qt_reply_lane t)"
    using assms(1,2) unfolding codec_correct_def terms_ok_def by metis
  have cls: "(case selected_class_new (sc_id (qt_selected_class t)) (sc_description (qt_selected_class t)) of Ok v \<Rightarrow> Some v | _ \<Rightarrow> None)
      = Some (qt_selected_class t)" and str: "rust_str (sc_description (qt_selected_class t))"
    and nonzero: "(if qt_receiving_alias t = 0 then None else Some (qt_receiving_alias t)) = Some (qt_receiving_alias t)"
    using assms(2) by (simp_all add: terms_ok_def)
  note items = reads_items [OF assms(1)] reads_words [OF assms(1)] reads_scoped_ref [OF assms(1)]
    reads_optional_digest [OF assms(1)] reads_financial_scope [OF assms(1)]
  have "reads (decode_terms w) (the (case encode_terms w t of Ok b \<Rightarrow> Some b | _ \<Rightarrow> None)) t"
    unfolding decode_terms_def encode_terms_def route(1) reply(1) ok_or.simps and_then.simps res.case option.sel
    by (intro reads_then [OF items(6)] reads_then [OF items(2)] reads_then [OF items(3)] reads_then [OF items(4)]
        reads_then [OF items(7) [OF str]] reads_then [OF items(8) [OF route(2)]] reads_last [OF items(8) [OF reply(2)]]
        reads_then [OF items(9)] reads_then [OF items(10)] reads_then [OF items(11)] reads_then [OF items(12)] reads_then [OF items(13)]
        reads_silent [OF reads_try [OF route(3)]] reads_silent [OF reads_try [OF nonzero]] reads_silent [OF reads_try [OF cls]]
        reads_silent [OF reads_try [OF reply(3)]] reads_pure_eq)
      simp
  then show ?thesis using assms(3) by simp
qed

section \<open>Commands\<close>

primrec cancellation_code :: "cancellation_reason \<Rightarrow> u8" where
  "cancellation_code SenderRequested = 0"
| "cancellation_code TimeoutReason = 1"
| "cancellation_code PreSubmissionFailure = 2"

definition encode_version_command :: "codec \<Rightarrow> u8 \<Rightarrow> version \<Rightarrow> (bytes, wire_error) res" where
  "encode_version_command w tag v = Ok (en_array w 2 @ en_u8 w tag @ en_u64 w v)"

definition encode_command :: "codec \<Rightarrow> protocol_command \<Rightarrow> (bytes, wire_error) res" where
  "encode_command w command =
     (case command of
        RecordPayment i receipt \<Rightarrow>
          Ok (en_array w 7 @ en_u8 w 11 @ encode_id w i @ encode_id w (pe_event_id (spe_evidence receipt))
            @ encode_id w (pe_operation_id (spe_evidence receipt))
            @ en_bytes w (be_bytes 32 (pe_operation_digest (spe_evidence receipt)))
            @ en_u8 w (outcome_code (pe_outcome (spe_evidence receipt))) @ en_bytes w (spe_signature receipt))
      | SetFollowupPolicy expected policy \<Rightarrow>
          Ok (en_array w 6 @ en_u8 w 12 @ en_u64 w expected @ en_u64 w (fp_version policy) @ en_u32 w (fp_max_messages policy)
            @ en_u32 w (fp_max_per_interval policy) @ en_u64 w (fp_interval policy))
      | AdmitFollowup i message_id content delivery digest valid_until expected \<Rightarrow>
          Ok (en_array w 8 @ en_u8 w 13 @ encode_id w i @ encode_id w message_id @ encode_id w content @ encode_id w delivery
            @ en_bytes w (be_bytes 32 digest) @ en_u64 w valid_until @ en_u64 w expected)
      | IssueRequestTerms return_route alias_value class_id quote digest \<Rightarrow>
          and_then (ok_or (js_route w return_route) WireInvalidIdentifier) (\<lambda>route.
          Ok (en_array w 6 @ en_u8 w 0 @ en_bytes w route @ encode_id w alias_value @ encode_id w class_id @ encode_id w quote
            @ encode_optional_digest w digest))
      | CreateRequest payment_method i message_id terms \<Rightarrow>
          and_then (encode_terms w terms) (\<lambda>bs.
          Ok (en_array w 5 @ en_u8 w 1 @ encode_id w i @ encode_id w message_id @ bs @ en_bytes w (be_bytes 32 payment_method)))
      | SubmitRequestToRecipient input \<Rightarrow>
          Ok (en_array w 7 @ en_u8 w 2 @ encode_id w (si_request input) @ en_u64 w (si_expected_version input)
            @ encode_id w (si_content input) @ encode_id w (si_delivery input) @ en_bytes w (be_bytes 32 (si_declaration input))
            @ en_u64 w (si_valid_until input))
      | CancelRequestSubmission i expected reason \<Rightarrow>
          Ok (en_array w 4 @ en_u8 w 3 @ encode_id w i @ en_u64 w expected @ en_u8 w (cancellation_code reason))
      | AcceptRelationship v \<Rightarrow> encode_version_command w 4 v
      | RejectRelationship v \<Rightarrow> encode_version_command w 5 v
      | BlockRelationship v \<Rightarrow> encode_version_command w 6 v
      | UnblockRelationship v \<Rightarrow> encode_version_command w 7 v
      | ExpireRequest i expected \<Rightarrow> Ok (en_array w 3 @ en_u8 w 8 @ encode_id w i @ en_u64 w expected)
      | RevokeRelationship v \<Rightarrow> encode_version_command w 10 v)"

definition outcome_of_code :: "u8 \<Rightarrow> payment_outcome option" where
  "outcome_of_code n =
     (if n = 0 then Some OutSettled else if n = 1 then Some OutVoided else if n = 2 then Some OutReversed
      else if n = 3 then Some OutPending else if n = 4 then Some OutFailed else None)"

definition decode_payment :: "codec \<Rightarrow> protocol_command decoder" where
  "decode_payment w =
     then_read (decode_id w) (\<lambda>i.
     then_read (decode_id w) (\<lambda>event.
     then_read (decode_id w) (\<lambda>operation.
     then_read (read_32 w) (\<lambda>digest.
     then_read (read_item (de_u8 w)) (\<lambda>code.
     then_read (read_try (outcome_of_code code) WireUnexpectedShape) (\<lambda>outcome.
     then_read (read_item (de_bytes w)) (\<lambda>signature.
     if length signature \<noteq> 64 then read_fail WireUnexpectedShape
     else read_ok (RecordPayment i \<lparr>spe_evidence = \<lparr>pe_event_id = event, pe_operation_id = operation,
       pe_operation_digest = digest, pe_outcome = outcome\<rparr>, spe_signature = signature\<rparr>))))))))"

definition decode_policy :: "codec \<Rightarrow> protocol_command decoder" where
  "decode_policy w =
     then_read (read_item (de_u64 w)) (\<lambda>expected.
     then_read (read_item (de_u64 w)) (\<lambda>version.
     then_read (read_item (de_u32 w)) (\<lambda>max_messages.
     then_read (read_item (de_u32 w)) (\<lambda>max_per_interval.
     then_read (read_item (de_u64 w)) (\<lambda>interval.
     read_ok (SetFollowupPolicy expected \<lparr>fp_version = version, fp_max_messages = max_messages,
       fp_max_per_interval = max_per_interval, fp_interval = interval\<rparr>))))))"

definition decode_followup :: "codec \<Rightarrow> protocol_command decoder" where
  "decode_followup w =
     then_read (decode_id w) (\<lambda>i.
     then_read (decode_id w) (\<lambda>message_id.
     then_read (decode_id w) (\<lambda>content.
     then_read (decode_id w) (\<lambda>delivery.
     then_read (read_32 w) (\<lambda>digest.
     then_read (read_item (de_u64 w)) (\<lambda>valid_until.
     then_read (read_item (de_u64 w)) (\<lambda>expected.
     read_ok (AdmitFollowup i message_id content delivery digest valid_until expected))))))))"

definition decode_issue :: "codec \<Rightarrow> protocol_command decoder" where
  "decode_issue w =
     then_read (read_item (de_bytes w)) (\<lambda>route_bytes.
     then_read (read_try (js_route_of w route_bytes) WireInvalidIdentifier) (\<lambda>return_route.
     then_read (decode_id w) (\<lambda>alias_value.
     then_read (read_try (if alias_value = 0 then None else Some alias_value) WireInvalidIdentifier) (\<lambda>nonzero.
     then_read (decode_id w) (\<lambda>class_id.
     then_read (decode_id w) (\<lambda>quote.
     then_read (decode_optional_digest w) (\<lambda>digest.
     read_ok (IssueRequestTerms return_route nonzero class_id quote digest))))))))"

definition decode_create :: "codec \<Rightarrow> protocol_command decoder" where
  "decode_create w =
     then_read (decode_id w) (\<lambda>i.
     then_read (decode_id w) (\<lambda>message_id.
     then_read (decode_terms w) (\<lambda>terms.
     then_read (read_32 w) (\<lambda>payment_method.
     read_ok (CreateRequest payment_method i message_id terms)))))"

definition decode_submit :: "codec \<Rightarrow> protocol_command decoder" where
  "decode_submit w =
     then_read (decode_id w) (\<lambda>i.
     then_read (read_item (de_u64 w)) (\<lambda>expected.
     then_read (decode_id w) (\<lambda>content.
     then_read (decode_id w) (\<lambda>delivery.
     then_read (read_32 w) (\<lambda>digest.
     then_read (read_item (de_u64 w)) (\<lambda>valid_until.
     read_ok (SubmitRequestToRecipient \<lparr>si_request = i, si_expected_version = expected, si_content = content,
       si_delivery = delivery, si_declaration = digest, si_valid_until = valid_until\<rparr>)))))))"

definition decode_cancel :: "codec \<Rightarrow> protocol_command decoder" where
  "decode_cancel w =
     then_read (decode_id w) (\<lambda>i.
     then_read (read_item (de_u64 w)) (\<lambda>expected.
     then_read (read_item (de_u8 w)) (\<lambda>code.
     if code = 0 then read_ok (CancelRequestSubmission i expected SenderRequested)
     else if code = 1 then read_ok (CancelRequestSubmission i expected TimeoutReason)
     else if code = 2 then read_ok (CancelRequestSubmission i expected PreSubmissionFailure)
     else read_fail (WireUnknownTag (ucast code)))))"

definition decode_expire :: "codec \<Rightarrow> protocol_command decoder" where
  "decode_expire w =
     then_read (decode_id w) (\<lambda>i.
     then_read (read_item (de_u64 w)) (\<lambda>expected.
     read_ok (ExpireRequest i expected)))"

definition decode_versioned :: "codec \<Rightarrow> (version \<Rightarrow> protocol_command) \<Rightarrow> protocol_command decoder" where
  "decode_versioned w f = then_read (read_item (de_u64 w)) (\<lambda>v. read_ok (f v))"

definition decode_tagged :: "codec \<Rightarrow> u64 \<Rightarrow> u8 \<Rightarrow> protocol_command decoder" where
  "decode_tagged w len tag =
    (if tag = 11 \<and> len = 7 then decode_payment w
     else if tag = 12 \<and> len = 6 then decode_policy w
     else if tag = 13 \<and> len = 8 then decode_followup w
     else if tag = 0 \<and> len = 6 then decode_issue w
     else if tag = 1 \<and> len = 5 then decode_create w
     else if tag = 2 \<and> len = 7 then decode_submit w
     else if tag = 3 \<and> len = 4 then decode_cancel w
     else if tag = 4 \<and> len = 2 then decode_versioned w AcceptRelationship
     else if tag = 5 \<and> len = 2 then decode_versioned w RejectRelationship
     else if tag = 6 \<and> len = 2 then decode_versioned w BlockRelationship
     else if tag = 7 \<and> len = 2 then decode_versioned w UnblockRelationship
     else if tag = 8 \<and> len = 3 then decode_expire w
     else if tag = 10 \<and> len = 2 then decode_versioned w RevokeRelationship
     else read_fail (WireUnknownTag (ucast tag)))"

definition decode_command :: "codec \<Rightarrow> protocol_command decoder" where
  "decode_command w =
     then_read (read_item (de_array w)) (\<lambda>n.
     then_read (read_try n WireUnexpectedShape) (\<lambda>len.
     then_read (read_item (de_u8 w)) (\<lambda>tag.
     decode_tagged w len tag)))"

section \<open>Envelopes\<close>

datatype command_target = TargetRelationship scoped_ref

record command_envelope =
  cv_wire_version :: u16
  cv_protocol_version :: protocol_version
  cv_deployment_domain :: bytes32
  cv_intended_provider :: provider_ref
  cv_target :: command_target
  cv_actor :: actor_ref
  cv_operational_key :: operational_key_ref
  cv_idempotency_key :: idempotency_key
  cv_command :: protocol_command

definition encode_target :: "codec \<Rightarrow> command_target \<Rightarrow> bytes" where
  "encode_target w t = (case t of TargetRelationship r \<Rightarrow> en_array w 2 @ en_u8 w 0 @ encode_scoped_ref w r)"

definition decode_target :: "codec \<Rightarrow> command_target decoder" where
  "decode_target w =
     then_read (expect_array w 2) (\<lambda>_.
     then_read (read_item (de_u8 w)) (\<lambda>tag.
     if tag = 0 then then_read (decode_scoped_ref w) (\<lambda>r. read_ok (TargetRelationship r))
     else read_fail (WireUnknownTag (ucast tag))))"

definition encode_actor :: "codec \<Rightarrow> actor_ref \<Rightarrow> bytes" where
  "encode_actor w a =
     en_array w 2 @ (case a of
        ActSender i \<Rightarrow> en_u8 w 0 @ encode_id w i
      | ActRecipient i \<Rightarrow> en_u8 w 1 @ encode_id w i
      | ActProvider i \<Rightarrow> en_u8 w 2 @ encode_id w i
      | ActScheduler i \<Rightarrow> en_u8 w 3 @ encode_id w i)"

definition decode_actor :: "codec \<Rightarrow> actor_ref decoder" where
  "decode_actor w =
     then_read (expect_array w 2) (\<lambda>_.
     then_read (read_item (de_u8 w)) (\<lambda>tag.
     then_read (decode_id w) (\<lambda>i.
     if tag = 0 then read_ok (ActSender i)
     else if tag = 1 then read_ok (ActRecipient i)
     else if tag = 2 then read_ok (ActProvider i)
     else if tag = 3 then read_ok (ActScheduler i)
     else read_fail (WireUnknownTag (ucast tag)))))"

definition signing_domain :: string where
  "signing_domain = ''cs-mail/command/v7''"

definition encode_envelope :: "codec \<Rightarrow> command_envelope \<Rightarrow> (bytes, wire_error) res" where
  "encode_envelope w e =
     and_then (encode_command w (cv_command e)) (\<lambda>command.
     Ok (en_array w 10 @ en_str w signing_domain @ en_u16 w (cv_wire_version e) @ en_u16 w (cv_protocol_version e)
       @ en_bytes w (be_bytes 32 (cv_deployment_domain e)) @ encode_id w (cv_intended_provider e)
       @ encode_target w (cv_target e) @ encode_actor w (cv_actor e) @ encode_id w (cv_operational_key e)
       @ encode_id w (cv_idempotency_key e) @ command))"

definition read_envelope :: "codec \<Rightarrow> command_envelope decoder" where
  "read_envelope w =
     then_read (expect_array w 10) (\<lambda>_.
     then_read (read_item (de_str w)) (\<lambda>domain.
     if domain \<noteq> signing_domain then read_fail WireUnexpectedShape
     else then_read (read_item (de_u16 w)) (\<lambda>wire_version.
     then_read (read_item (de_u16 w)) (\<lambda>protocol_version.
     then_read (read_32 w) (\<lambda>deployment_domain.
     then_read (decode_id w) (\<lambda>provider.
     then_read (decode_target w) (\<lambda>target.
     then_read (decode_actor w) (\<lambda>actor.
     then_read (decode_id w) (\<lambda>operational_key.
     then_read (decode_id w) (\<lambda>idempotency_key.
     then_read (decode_command w) (\<lambda>command.
     read_ok \<lparr>cv_wire_version = wire_version, cv_protocol_version = protocol_version,
       cv_deployment_domain = deployment_domain, cv_intended_provider = provider, cv_target = target, cv_actor = actor,
       cv_operational_key = operational_key, cv_idempotency_key = idempotency_key, cv_command = command\<rparr>)))))))))))"

definition decode_envelope :: "codec \<Rightarrow> bytes \<Rightarrow> (command_envelope, wire_error) res" where
  "decode_envelope w bs =
     and_then (read_envelope w bs) (\<lambda>(e, rest).
     fail_if (rest \<noteq> []) WireTrailingData
     (and_then (encode_envelope w e) (\<lambda>again.
      fail_if (again \<noteq> bs) WireUnexpectedShape (Ok e))))"

section \<open>Round trips\<close>

text \<open>
  What the Rust types can hold: aliases are not zero, reply terms and classes are the validated
  ones, and every vector and string fits in memory.
\<close>

definition command_typed :: "protocol_command \<Rightarrow> bool" where
  "command_typed command \<longleftrightarrow>
     (case command of
        RecordPayment _ receipt \<Rightarrow> length (spe_signature receipt) < 2 ^ 63
      | IssueRequestTerms return_route alias_value _ _ _ \<Rightarrow> route_ok return_route \<and> alias_value \<noteq> 0
      | CreateRequest _ _ _ terms \<Rightarrow> terms_ok terms
      | _ \<Rightarrow> True)"

definition signature_fits :: "protocol_command \<Rightarrow> bool" where
  "signature_fits command \<longleftrightarrow>
     (case command of RecordPayment _ receipt \<Rightarrow> length (spe_signature receipt) = 64 | _ \<Rightarrow> True)"

definition command_ok :: "protocol_command \<Rightarrow> bool" where
  "command_ok command \<longleftrightarrow> command_typed command \<and> signature_fits command"

lemma outcome_of_outcome_code [simp]: "outcome_of_code (outcome_code x) = Some x"
  by (cases x) (simp_all add: outcome_of_code_def)

lemma reads_if: "(c \<Longrightarrow> reads d bs v) \<Longrightarrow> c \<Longrightarrow> reads (if c then d else d') bs v"
  by simp

lemma reads_bodies:
  assumes "codec_correct w"
  shows "length sig = 64 \<Longrightarrow> reads (decode_payment w) (encode_id w i @ encode_id w (pe_event_id e) @ encode_id w (pe_operation_id e)
       @ en_bytes w (be_bytes 32 (pe_operation_digest e)) @ en_u8 w (outcome_code (pe_outcome e)) @ en_bytes w sig)
       (RecordPayment i \<lparr>spe_evidence = e, spe_signature = sig\<rparr>)"
    and "reads (decode_policy w) (en_u64 w expected @ en_u64 w (fp_version p) @ en_u32 w (fp_max_messages p)
            @ en_u32 w (fp_max_per_interval p) @ en_u64 w (fp_interval p)) (SetFollowupPolicy expected p)"
    and "reads (decode_followup w) (encode_id w i @ encode_id w m @ encode_id w ct @ encode_id w dl
            @ en_bytes w (be_bytes 32 digest) @ en_u64 w valid_until @ en_u64 w expected)
          (AdmitFollowup i m ct dl digest valid_until expected)"
    and "reads (decode_submit w) (encode_id w (si_request x) @ en_u64 w (si_expected_version x)
            @ encode_id w (si_content x) @ encode_id w (si_delivery x) @ en_bytes w (be_bytes 32 (si_declaration x))
            @ en_u64 w (si_valid_until x)) (SubmitRequestToRecipient x)"
    and "reads (decode_cancel w) (encode_id w i @ en_u64 w expected @ en_u8 w (cancellation_code reason))
          (CancelRequestSubmission i expected reason)"
    and "reads (decode_expire w) (encode_id w i @ en_u64 w expected) (ExpireRequest i expected)"
    and "reads (decode_versioned w f) (en_u64 w expected) (f expected)"
proof -
  note items = reads_items [OF assms] reads_words [OF assms]
  note go = reads_then [OF items(1)] reads_then [OF items(2)] reads_then [OF items(3)] reads_then [OF items(4)]
    reads_then [OF items(9)] reads_then [OF items(10)] reads_last [OF items(4)] reads_last [OF items(1)]
  show "reads (decode_payment w) (encode_id w i @ encode_id w (pe_event_id e) @ encode_id w (pe_operation_id e)
       @ en_bytes w (be_bytes 32 (pe_operation_digest e)) @ en_u8 w (outcome_code (pe_outcome e)) @ en_bytes w sig)
       (RecordPayment i \<lparr>spe_evidence = e, spe_signature = sig\<rparr>)" if "length sig = 64"
    unfolding decode_payment_def
    by (intro go reads_silent [OF reads_try [OF outcome_of_outcome_code]] reads_last [OF items(8)])
      (use that in simp, simp add: that, rule reads_pure_eq, simp)
  show "reads (decode_policy w) (en_u64 w expected @ en_u64 w (fp_version p) @ en_u32 w (fp_max_messages p)
            @ en_u32 w (fp_max_per_interval p) @ en_u64 w (fp_interval p)) (SetFollowupPolicy expected p)"
    unfolding decode_policy_def by (intro go reads_pure_eq) simp
  show "reads (decode_followup w) (encode_id w i @ encode_id w m @ encode_id w ct @ encode_id w dl
            @ en_bytes w (be_bytes 32 digest) @ en_u64 w valid_until @ en_u64 w expected)
          (AdmitFollowup i m ct dl digest valid_until expected)"
    unfolding decode_followup_def by (intro go reads_pure)
  show "reads (decode_submit w) (encode_id w (si_request x) @ en_u64 w (si_expected_version x)
            @ encode_id w (si_content x) @ encode_id w (si_delivery x) @ en_bytes w (be_bytes 32 (si_declaration x))
            @ en_u64 w (si_valid_until x)) (SubmitRequestToRecipient x)"
    unfolding decode_submit_def by (intro go reads_pure_eq) simp
  show "reads (decode_cancel w) (encode_id w i @ en_u64 w expected @ en_u8 w (cancellation_code reason))
          (CancelRequestSubmission i expected reason)"
    unfolding decode_cancel_def by (intro go) (cases reason; simp add: reads_pure)
  show "reads (decode_expire w) (encode_id w i @ en_u64 w expected) (ExpireRequest i expected)"
    unfolding decode_expire_def by (intro go reads_pure)
  show "reads (decode_versioned w f) (en_u64 w expected) (f expected)"
    unfolding decode_versioned_def by (intro go reads_pure)
qed

lemma reads_issue:
  assumes "codec_correct w" and "js_route w r = Some route" "length route < 2 ^ 63" "js_route_of w route = Some r" and "al \<noteq> 0"
  shows "reads (decode_issue w) (en_bytes w route @ encode_id w al @ encode_id w cl @ encode_id w qu @ encode_optional_digest w digest)
     (IssueRequestTerms r al cl qu digest)"
proof -
  have nonzero: "(if al = 0 then None else Some al) = Some al" using assms(5) by simp
  show ?thesis unfolding decode_issue_def
    by (intro reads_then [OF reads_items(8) [OF assms(1,3)]] reads_silent [OF reads_try [OF assms(4)]]
        reads_silent [OF reads_try [OF nonzero]] reads_then [OF reads_words(1) [OF assms(1)]]
        reads_last [OF reads_optional_digest [OF assms(1)]] reads_pure)
qed

lemma reads_tagged:
  assumes "codec_correct w" and "decode_tagged w n tag = d" and "reads d bs v"
  shows "reads (decode_command w) (en_array w n @ en_u8 w tag @ bs) v"
  unfolding decode_command_def
  apply (rule reads_then [OF reads_items(5) [OF assms(1)]])
  apply (rule reads_silent [OF reads_try [OF refl]])
  apply (rule reads_then [OF reads_items(1) [OF assms(1)]])
  apply (subst assms(2))
  apply (rule assms(3))
  done

lemma decode_tags:
  "decode_tagged w 7 11 = decode_payment w" "decode_tagged w 6 12 = decode_policy w" "decode_tagged w 8 13 = decode_followup w"
  "decode_tagged w 6 0 = decode_issue w" "decode_tagged w 5 1 = decode_create w" "decode_tagged w 7 2 = decode_submit w"
  "decode_tagged w 4 3 = decode_cancel w" "decode_tagged w 2 4 = decode_versioned w AcceptRelationship"
  "decode_tagged w 2 5 = decode_versioned w RejectRelationship" "decode_tagged w 2 6 = decode_versioned w BlockRelationship"
  "decode_tagged w 2 7 = decode_versioned w UnblockRelationship" "decode_tagged w 3 8 = decode_expire w"
  "decode_tagged w 2 10 = decode_versioned w RevokeRelationship"
  by (simp_all add: decode_tagged_def)

lemma reads_command:
  assumes "codec_correct w" and "command_ok command" and "encode_command w command = Ok bs"
  shows "reads (decode_command w) bs command"
proof (cases command)
  case (IssueRequestTerms r al cl qu digest)
  then have "route_ok r" and al: "al \<noteq> 0" using assms(2) by (simp_all add: command_ok_def command_typed_def)
  then obtain route where route: "js_route w r = Some route" "length route < 2 ^ 63" "js_route_of w route = Some r"
    using assms(1) unfolding codec_correct_def by blast
  then have bs: "bs = en_array w 6 @ en_u8 w 0 @ en_bytes w route @ encode_id w al @ encode_id w cl @ encode_id w qu @ encode_optional_digest w digest"
    using assms(3) IssueRequestTerms by (simp add: encode_command_def)
  show ?thesis unfolding IssueRequestTerms bs
    by (rule reads_tagged [OF assms(1) decode_tags(4) reads_issue [OF assms(1) route al]])
next
  case (CreateRequest pm i m terms)
  then obtain tb where tb: "encode_terms w terms = Ok tb"
    and bs: "bs = en_array w 5 @ en_u8 w 1 @ encode_id w i @ encode_id w m @ tb @ en_bytes w (be_bytes 32 pm)"
    using assms(3) by (auto simp: encode_command_def)
  have "terms_ok terms" using assms(2) CreateRequest by (simp add: command_ok_def command_typed_def)
  note t = reads_terms [OF assms(1) this tb]
  have "reads (decode_create w) (encode_id w i @ encode_id w m @ tb @ en_bytes w (be_bytes 32 pm)) (CreateRequest pm i m terms)"
    unfolding decode_create_def
    by (intro reads_then [OF reads_words(1) [OF assms(1)]] reads_then [OF t] reads_last [OF reads_words(2) [OF assms(1)]] reads_pure)
  then show ?thesis unfolding CreateRequest bs by (rule reads_tagged [OF assms(1) decode_tags(5)])
next
  case (RecordPayment i receipt)
  obtain ev sig where receipt: "receipt = \<lparr>spe_evidence = ev, spe_signature = sig\<rparr>" by (cases receipt)
  then have "length sig = 64" using assms(2) RecordPayment by (simp add: command_ok_def signature_fits_def)
  from reads_tagged [OF assms(1) decode_tags(1) reads_bodies(1) [OF assms(1) this, of i ev]]
  show ?thesis using assms(3) RecordPayment by (simp add: encode_command_def receipt)
next
  case (SetFollowupPolicy v p)
  from reads_tagged [OF assms(1) decode_tags(2) reads_bodies(2) [OF assms(1), of v p]]
  show ?thesis using assms(3) SetFollowupPolicy by (simp add: encode_command_def)
next
  case (AdmitFollowup i m ct dl digest vu v)
  from reads_tagged [OF assms(1) decode_tags(3) reads_bodies(3) [OF assms(1), of i m ct dl digest vu v]]
  show ?thesis using assms(3) AdmitFollowup by (simp add: encode_command_def)
next
  case (SubmitRequestToRecipient x)
  from reads_tagged [OF assms(1) decode_tags(6) reads_bodies(4) [OF assms(1), of x]]
  show ?thesis using assms(3) SubmitRequestToRecipient by (simp add: encode_command_def)
next
  case (CancelRequestSubmission i v reason)
  from reads_tagged [OF assms(1) decode_tags(7) reads_bodies(5) [OF assms(1), of i v reason]]
  show ?thesis using assms(3) CancelRequestSubmission by (simp add: encode_command_def)
next
  case (ExpireRequest i v)
  from reads_tagged [OF assms(1) decode_tags(12) reads_bodies(6) [OF assms(1), of i v]]
  show ?thesis using assms(3) ExpireRequest by (simp add: encode_command_def)
next
  case (AcceptRelationship v)
  from reads_tagged [OF assms(1) decode_tags(8) reads_bodies(7) [OF assms(1), of _ v]]
  show ?thesis using assms(3) AcceptRelationship by (simp add: encode_command_def encode_version_command_def)
next
  case (RejectRelationship v)
  from reads_tagged [OF assms(1) decode_tags(9) reads_bodies(7) [OF assms(1), of _ v]]
  show ?thesis using assms(3) RejectRelationship by (simp add: encode_command_def encode_version_command_def)
next
  case (BlockRelationship v)
  from reads_tagged [OF assms(1) decode_tags(10) reads_bodies(7) [OF assms(1), of _ v]]
  show ?thesis using assms(3) BlockRelationship by (simp add: encode_command_def encode_version_command_def)
next
  case (UnblockRelationship v)
  from reads_tagged [OF assms(1) decode_tags(11) reads_bodies(7) [OF assms(1), of _ v]]
  show ?thesis using assms(3) UnblockRelationship by (simp add: encode_command_def encode_version_command_def)
next
  case (RevokeRelationship v)
  from reads_tagged [OF assms(1) decode_tags(13) reads_bodies(7) [OF assms(1), of _ v]]
  show ?thesis using assms(3) RevokeRelationship by (simp add: encode_command_def encode_version_command_def)
qed

lemma reads_target:
  assumes "codec_correct w" shows "reads (decode_target w) (encode_target w t) t"
  unfolding decode_target_def encode_target_def
  by (cases t, simp only: command_target.case, intro reads_then [OF reads_items(6)] reads_then [OF reads_items(1)] assms)
    (simp, rule reads_last [OF reads_scoped_ref [OF assms]], rule reads_pure)

lemma reads_actor:
  assumes "codec_correct w" shows "reads (decode_actor w) (encode_actor w a) a"
  unfolding decode_actor_def encode_actor_def
  by (cases a; simp only: actor_ref.case;
      intro reads_then [OF reads_items(6)] reads_then [OF reads_items(1)] reads_last [OF reads_words(1)] assms; simp add: reads_pure)

lemma signing_domain_str: "rust_str signing_domain"
  by (simp add: rust_str_def signing_domain_def)

lemma reads_envelope:
  assumes "codec_correct w" and "command_ok (cv_command e)" and "encode_envelope w e = Ok bs"
  shows "reads (read_envelope w) bs e"
proof -
  obtain cb where cb: "encode_command w (cv_command e) = Ok cb"
    and bs: "bs = en_array w 10 @ en_str w signing_domain @ en_u16 w (cv_wire_version e) @ en_u16 w (cv_protocol_version e)
       @ en_bytes w (be_bytes 32 (cv_deployment_domain e)) @ encode_id w (cv_intended_provider e)
       @ encode_target w (cv_target e) @ encode_actor w (cv_actor e) @ encode_id w (cv_operational_key e)
       @ encode_id w (cv_idempotency_key e) @ cb"
    using assms(3) by (auto simp: encode_envelope_def)
  show ?thesis unfolding read_envelope_def bs
    by (intro reads_then [OF reads_items(6) [OF assms(1)]] reads_then [OF reads_items(7) [OF assms(1) signing_domain_str]], simp,
        intro reads_then [OF reads_items(2) [OF assms(1)]] reads_then [OF reads_words(1) [OF assms(1)]]
          reads_then [OF reads_words(2) [OF assms(1)]] reads_then [OF reads_target [OF assms(1)]]
          reads_then [OF reads_actor [OF assms(1)]] reads_last [OF reads_command [OF assms(1,2) cb]] reads_pure_eq) simp
qed

lemma rejects_payment:
  assumes "codec_correct w" and "length sig < 2 ^ 63" and "length sig \<noteq> 64"
  shows "rejects (decode_payment w) (encode_id w i @ encode_id w (pe_event_id e) @ encode_id w (pe_operation_id e)
       @ en_bytes w (be_bytes 32 (pe_operation_digest e)) @ en_u8 w (outcome_code (pe_outcome e)) @ en_bytes w sig)
       WireUnexpectedShape"
proof -
  note items = reads_items [OF assms(1)] reads_words [OF assms(1)]
  show ?thesis unfolding decode_payment_def
    by (intro rejects_then [OF items(9)] rejects_then [OF items(10)] rejects_then [OF items(1)]
        rejects_silent [OF reads_try [OF outcome_of_outcome_code]] rejects_last [OF items(8) [OF assms(2)]])
      (simp add: assms(3))
qed

lemma rejects_command:
  assumes "codec_correct w" and "command_typed command" and "\<not> signature_fits command"
    and "encode_command w command = Ok bs"
  shows "rejects (decode_command w) bs WireUnexpectedShape"
proof (cases command)
  case (RecordPayment i receipt)
  obtain ev sig where receipt: "receipt = \<lparr>spe_evidence = ev, spe_signature = sig\<rparr>" by (cases receipt)
  then have "length sig < 2 ^ 63" "length sig \<noteq> 64"
    using assms(2,3) RecordPayment by (simp_all add: command_typed_def signature_fits_def)
  note body = rejects_payment [OF assms(1) this, of i ev]
  have "rejects (decode_command w) (en_array w 7 @ en_u8 w 11 @ encode_id w i @ encode_id w (pe_event_id ev)
      @ encode_id w (pe_operation_id ev) @ en_bytes w (be_bytes 32 (pe_operation_digest ev))
      @ en_u8 w (outcome_code (pe_outcome ev)) @ en_bytes w sig) WireUnexpectedShape"
    unfolding decode_command_def
    apply (rule rejects_then [OF reads_items(5) [OF assms(1)]])
    apply (rule rejects_silent [OF reads_try [OF refl]])
    apply (rule rejects_then [OF reads_items(1) [OF assms(1)]])
    apply (subst decode_tags(1))
    apply (rule body)
    done
  then show ?thesis using assms(4) RecordPayment by (simp add: encode_command_def receipt)
qed (use assms(3) in \<open>simp_all add: signature_fits_def\<close>)

lemma rejects_envelope:
  assumes "codec_correct w" and "command_typed (cv_command e)" and "\<not> signature_fits (cv_command e)"
    and "encode_envelope w e = Ok bs"
  shows "rejects (read_envelope w) bs WireUnexpectedShape"
proof -
  obtain cb where cb: "encode_command w (cv_command e) = Ok cb"
    and bs: "bs = en_array w 10 @ en_str w signing_domain @ en_u16 w (cv_wire_version e) @ en_u16 w (cv_protocol_version e)
       @ en_bytes w (be_bytes 32 (cv_deployment_domain e)) @ encode_id w (cv_intended_provider e)
       @ encode_target w (cv_target e) @ encode_actor w (cv_actor e) @ encode_id w (cv_operational_key e)
       @ encode_id w (cv_idempotency_key e) @ cb"
    using assms(4) by (auto simp: encode_envelope_def)
  show ?thesis unfolding read_envelope_def bs
    by (intro rejects_then [OF reads_items(6) [OF assms(1)]] rejects_then [OF reads_items(7) [OF assms(1) signing_domain_str]], simp,
        intro rejects_then [OF reads_items(2) [OF assms(1)]] rejects_then [OF reads_words(1) [OF assms(1)]]
          rejects_then [OF reads_words(2) [OF assms(1)]] rejects_then [OF reads_target [OF assms(1)]]
          rejects_then [OF reads_actor [OF assms(1)]] rejects_here [OF rejects_command [OF assms(1-3) cb]])
qed

section \<open>Properties\<close>

lemma command_encodes:
  assumes "codec_correct w" and "command_typed command"
  shows "\<exists>bs. encode_command w command = Ok bs"
proof (cases command)
  case (IssueRequestTerms r al cl qu digest)
  then show ?thesis using assms unfolding codec_correct_def command_typed_def by (fastforce simp: encode_command_def)
next
  case (CreateRequest pm i m terms)
  then have "route_ok (qt_return_route terms)" "reply_ok (qt_reply_lane terms)"
    using assms(2) by (simp_all add: command_typed_def terms_ok_def)
  then obtain r a where "js_route w (qt_return_route terms) = Some r" "js_reply w (qt_reply_lane terms) = Some a"
    using assms(1) unfolding codec_correct_def by blast
  then show ?thesis by (simp add: CreateRequest encode_command_def encode_terms_def)
qed (simp_all add: encode_command_def encode_version_command_def)

lemma decode_of_encode:
  assumes "codec_correct w" and "command_ok (cv_command e)" and "encode_envelope w e = Ok bs"
  shows "decode_envelope w bs = Ok e"
proof -
  have "read_envelope w (bs @ []) = Ok (e, [])"
    using reads_envelope [OF assms] unfolding reads_def by blast
  then show ?thesis using assms(3) by (simp add: decode_envelope_def)
qed

lemma decode_of_typed:
  assumes "codec_correct w" and "command_typed (cv_command e)" and "encode_envelope w e = Ok bs"
  shows "decode_envelope w bs = (if signature_fits (cv_command e) then Ok e else Err WireUnexpectedShape)"
proof (cases "signature_fits (cv_command e)")
  case True
  then have "command_ok (cv_command e)" using assms(2) by (simp add: command_ok_def)
  then show ?thesis using decode_of_encode [OF assms(1) _ assms(3)] True by simp
next
  case False
  have "read_envelope w (bs @ []) = Err WireUnexpectedShape"
    using rejects_envelope [OF assms(1,2) False assms(3)] unfolding rejects_def by blast
  then show ?thesis using False by (simp add: decode_envelope_def)
qed

text \<open>
  C36: Every command survives the wire, or is refused where it must be.  Where the CBOR and JSON
  codecs read back what they write, every envelope the Rust types can hold encodes.  Its encoding
  decodes to exactly that envelope, unless the command carries a payment signature of another
  length than 64 bytes; such an encoding, which the encoder does not prevent, is refused with an
  unexpected shape.  No envelope shares its encoding with one that decodes.
\<close>

theorem envelope_roundtrip:
  assumes "codec_correct w" and "command_typed (cv_command e)"
  shows "\<exists>bs. encode_envelope w e = Ok bs
     \<and> decode_envelope w bs = (if signature_fits (cv_command e) then Ok e else Err WireUnexpectedShape)
     \<and> (\<forall>e'. command_typed (cv_command e') \<and> encode_envelope w e' = Ok bs
          \<and> (signature_fits (cv_command e) \<or> signature_fits (cv_command e')) \<longrightarrow> e' = e)"
proof -
  obtain bs where bs: "encode_envelope w e = Ok bs"
    using command_encodes [OF assms] by (auto simp: encode_envelope_def)
  note decoded = decode_of_typed [OF assms bs]
  have "e' = e" if "command_typed (cv_command e')" "encode_envelope w e' = Ok bs"
    "signature_fits (cv_command e) \<or> signature_fits (cv_command e')" for e'
    using decode_of_typed [OF assms(1) that(1,2)] decoded that(3) by (auto split: if_splits)
  then show ?thesis using bs decoded by blast
qed

text \<open>
  A command has one accepted encoding, whatever the codecs do.  If bytes decode to an envelope
  they are exactly the bytes that envelope encodes to, so no two byte strings decode to the same
  envelope, and reencoding what was decoded before checking a signature over it changes nothing.
\<close>

theorem envelope_canonical:
  assumes "decode_envelope w bs = Ok e"
  shows "encode_envelope w e = Ok bs \<and> (\<forall>bs'. decode_envelope w bs' = Ok e \<longrightarrow> bs' = bs)"
  using assms by (auto simp: decode_envelope_def)

end
