(* ===== verification/Key_Registry.thy ===== *)
theory Key_Registry
  imports Wire Content
begin

text \<open>
  Operational keys: \<open>KeyRegistry\<close>, its transparency log, and the signers of commands,
  certificates, terms and receipts, from \<open>crates/cs-mail-security/src/lib.rs\<close>.  The lemmas show
  that the log determines the registry, that a signed checkpoint fixes the log up to a hash
  collision, and that no operation ever widens what a key may sign.
\<close>

section \<open>Keys and the transparency log\<close>

datatype key_status =
  KeyActive | KeyRetired canonical_time | KeyRevoked canonical_time
| KeyRetiredRevoked canonical_time canonical_time

primrec valid_at_receipt :: "key_status \<Rightarrow> canonical_time \<Rightarrow> bool" where
  "valid_at_receipt KeyActive at = True"
| "valid_at_receipt (KeyRetired until) at = (at \<le> until)"
| "valid_at_receipt (KeyRevoked revoked_at) at = (at < revoked_at)"
| "valid_at_receipt (KeyRetiredRevoked until revoked_at) at = (at \<le> until \<and> at < revoked_at)"

primrec key_revoked :: "key_status \<Rightarrow> bool" where
  "key_revoked KeyActive = False"
| "key_revoked (KeyRetired _) = False"
| "key_revoked (KeyRevoked _) = True"
| "key_revoked (KeyRetiredRevoked _ _) = True"

record key_record =
  ky_reference :: operational_key_ref
  ky_actor :: actor_ref
  ky_verifying_key :: bytes32
  ky_valid_from :: canonical_time
  ky_status :: key_status
  ky_version :: version

datatype transparency_action = TrRegistered | TrRetired | TrRevoked

record transparency_entry =
  te_sequence :: u64
  te_key :: operational_key_ref
  te_actor :: actor_ref
  te_verifying_key :: bytes32
  te_action :: transparency_action
  te_at :: canonical_time
  te_previous_hash :: bytes32
  te_hash :: bytes32

type_synonym transparency_log = "transparency_entry list"

primrec actor_bytes :: "actor_ref \<Rightarrow> bytes" where
  "actor_bytes (ActSender identity) = 0 # be_bytes 16 identity"
| "actor_bytes (ActRecipient identity) = 1 # be_bytes 16 identity"
| "actor_bytes (ActProvider provider) = 2 # be_bytes 16 provider"
| "actor_bytes (ActScheduler provider) = 3 # be_bytes 16 provider"

primrec transparency_code :: "transparency_action \<Rightarrow> u8" where
  "transparency_code TrRegistered = 0"
| "transparency_code TrRetired = 1"
| "transparency_code TrRevoked = 2"

definition entry_preimage ::
  "u64 \<Rightarrow> operational_key_ref \<Rightarrow> actor_ref \<Rightarrow> bytes32 \<Rightarrow> transparency_action \<Rightarrow> canonical_time \<Rightarrow> bytes32 \<Rightarrow> bytes" where
  "entry_preimage sequence key actor verifying_key action at previous =
     str_bytes ''cs-mail/key-transparency/v1'' @ be_bytes 8 sequence @ be_bytes 16 key @ actor_bytes actor
     @ be_bytes 32 verifying_key @ [transparency_code action] @ be_bytes 8 at @ be_bytes 32 previous"

text \<open>\<open>u64::try_from(n).unwrap_or(MAX).saturating_add(1)\<close>.\<close>

definition sequence_after :: "nat \<Rightarrow> u64" where
  "sequence_after n = (if n + 1 < 2 ^ 64 then of_nat n + 1 else - 1)"

definition log_checkpoint :: "transparency_log \<Rightarrow> (u64 \<times> bytes32) option" where
  "log_checkpoint log = (if log = [] then None else Some (te_sequence (last log), te_hash (last log)))"

definition log_append ::
  "crypto \<Rightarrow> transparency_log \<Rightarrow> key_record \<Rightarrow> transparency_action \<Rightarrow> canonical_time \<Rightarrow> transparency_log" where
  "log_append c log r action at =
     (let previous = (if log = [] then 0 else te_hash (last log));
          sequence = sequence_after (length log)
      in log @ [\<lparr>te_sequence = sequence, te_key = ky_reference r, te_actor = ky_actor r,
           te_verifying_key = ky_verifying_key r, te_action = action, te_at = at, te_previous_hash = previous,
           te_hash = cr_sha256 c (entry_preimage sequence (ky_reference r) (ky_actor r) (ky_verifying_key r)
             action at previous)\<rparr>])"

fun verify_from :: "crypto \<Rightarrow> nat \<Rightarrow> bytes32 \<Rightarrow> transparency_log \<Rightarrow> bool" where
  "verify_from c index previous [] = True"
| "verify_from c index previous (e # es) =
     (if te_sequence e \<noteq> sequence_after index \<or> te_previous_hash e \<noteq> previous then False
      else if cr_sha256 c (entry_preimage (te_sequence e) (te_key e) (te_actor e) (te_verifying_key e)
             (te_action e) (te_at e) previous) \<noteq> te_hash e then False
      else verify_from c (index + 1) (te_hash e) es)"

definition log_verify :: "crypto \<Rightarrow> transparency_log \<Rightarrow> bool" where
  "log_verify c log = verify_from c 0 0 log"

section \<open>The registry\<close>

datatype security_error =
  SecWire wire_error | SecUnknownKey | SecDuplicateKey | SecActorMismatch | SecKeyNotYetValid
| SecKeyNotValidAtReceipt | SecInvalidPublicKey | SecInvalidSignature | SecWireVersionMismatch
| SecProtocolVersionMismatch | SecSigningScopeMismatch | SecVersionConflict | SecInvalidRecoveryPolicy
| SecUnknownRecoveryFactor | SecRecoveryAlreadyConsumed

record key_registry =
  kg_keys :: "(operational_key_ref, key_record) btmap"
  kg_version :: version
  kg_transparency :: transparency_log

definition registry_default :: key_registry where
  "registry_default = \<lparr>kg_keys = bt_empty, kg_version = 0, kg_transparency = []\<rparr>"

definition next_key_version :: "version \<Rightarrow> (version, security_error) res" where
  "next_key_version v = ok_or (version_checked_next v) SecVersionConflict"

definition active_verifying_key ::
  "key_registry \<Rightarrow> operational_key_ref \<Rightarrow> actor_ref \<Rightarrow> canonical_time \<Rightarrow> (bytes32, security_error) res" where
  "active_verifying_key r reference expected at =
     and_then (ok_or (bt_get (kg_keys r) reference) SecUnknownKey) (\<lambda>key.
     fail_if (ky_actor key \<noteq> expected) SecActorMismatch
     (fail_if (at < ky_valid_from key) SecKeyNotYetValid
     (if key_revoked (ky_status key) \<or> \<not> valid_at_receipt (ky_status key) at then Err SecKeyNotValidAtReceipt
      else Ok (ky_verifying_key key))))"

definition active_actor ::
  "key_registry \<Rightarrow> operational_key_ref \<Rightarrow> canonical_time \<Rightarrow> (actor_ref \<times> bytes32, security_error) res" where
  "active_actor r reference at =
     and_then (ok_or (bt_get (kg_keys r) reference) SecUnknownKey) (\<lambda>key.
     and_then (active_verifying_key r reference (ky_actor key) at) (\<lambda>vk. Ok (ky_actor key, vk)))"

definition registry_register ::
  "crypto \<Rightarrow> key_registry \<Rightarrow> operational_key_ref \<Rightarrow> actor_ref \<Rightarrow> bytes32 \<Rightarrow> canonical_time
     \<Rightarrow> (key_registry, security_error) res" where
  "registry_register c r reference actor verifying_key valid_from =
     fail_if (bt_has (kg_keys r) reference) SecDuplicateKey
     (fail_if (\<not> cr_key_parses c verifying_key) SecInvalidPublicKey
     (and_then (next_key_version (kg_version r)) (\<lambda>v.
      let key = \<lparr>ky_reference = reference, ky_actor = actor, ky_verifying_key = verifying_key,
            ky_valid_from = valid_from, ky_status = KeyActive, ky_version = 0\<rparr>
      in Ok \<lparr>kg_keys = bt_insert reference key (kg_keys r), kg_version = v,
            kg_transparency = log_append c (kg_transparency r) key TrRegistered valid_from\<rparr>)))"

definition registry_rotate ::
  "crypto \<Rightarrow> key_registry \<Rightarrow> operational_key_ref \<Rightarrow> version \<Rightarrow> operational_key_ref \<Rightarrow> bytes32 \<Rightarrow> canonical_time
     \<Rightarrow> (key_registry, security_error) res" where
  "registry_rotate c r old_reference expected new_reference new_verifying_key at =
     fail_if (bt_has (kg_keys r) new_reference) SecDuplicateKey
     (fail_if (\<not> cr_key_parses c new_verifying_key) SecInvalidPublicKey
     (and_then (ok_or (bt_get (kg_keys r) old_reference) SecUnknownKey) (\<lambda>old.
      fail_if (ky_version old \<noteq> expected) SecVersionConflict
      (fail_if (ky_status old \<noteq> KeyActive) SecKeyNotValidAtReceipt
      (fail_if (at < ky_valid_from old) SecKeyNotYetValid
      (and_then (next_key_version (ky_version old)) (\<lambda>old_version.
       and_then (next_key_version (kg_version r)) (\<lambda>v.
       let retired = old\<lparr>ky_status := KeyRetired at, ky_version := old_version\<rparr>;
           replacement = \<lparr>ky_reference = new_reference, ky_actor = ky_actor old, ky_verifying_key = new_verifying_key,
             ky_valid_from = at, ky_status = KeyActive, ky_version = 0\<rparr>
       in Ok \<lparr>kg_keys = bt_insert new_reference replacement (bt_insert old_reference retired (kg_keys r)),
             kg_version = v,
             kg_transparency = log_append c (log_append c (kg_transparency r) retired TrRetired at)
               replacement TrRegistered at\<rparr>))))))))"

text \<open>The status a revocation gives; \<open>None\<close> where the key is revoked already.\<close>

definition revoked_status :: "key_status \<Rightarrow> canonical_time \<Rightarrow> (key_status option, security_error) res" where
  "revoked_status status at =
     (case status of
        KeyActive \<Rightarrow> Ok (Some (KeyRevoked at))
      | KeyRetired until \<Rightarrow> fail_if (at < until) SecKeyNotYetValid (Ok (Some (KeyRetiredRevoked until at)))
      | KeyRevoked revoked_at \<Rightarrow> (if at \<ge> revoked_at then Ok None else Err SecKeyNotYetValid)
      | KeyRetiredRevoked _ revoked_at \<Rightarrow> (if at \<ge> revoked_at then Ok None else Err SecKeyNotYetValid))"

definition registry_revoke ::
  "crypto \<Rightarrow> key_registry \<Rightarrow> operational_key_ref \<Rightarrow> version \<Rightarrow> canonical_time \<Rightarrow> (key_registry, security_error) res" where
  "registry_revoke c r reference expected at =
     and_then (ok_or (bt_get (kg_keys r) reference) SecUnknownKey) (\<lambda>key.
     fail_if (ky_version key \<noteq> expected) SecVersionConflict
     (fail_if (at < ky_valid_from key) SecKeyNotYetValid
     (and_then (revoked_status (ky_status key) at) (\<lambda>status.
      case status of
        None \<Rightarrow> Ok r
      | Some status \<Rightarrow>
          and_then (next_key_version (ky_version key)) (\<lambda>key_version.
          and_then (next_key_version (kg_version r)) (\<lambda>v.
          let revoked = key\<lparr>ky_status := status, ky_version := key_version\<rparr>
          in Ok \<lparr>kg_keys = bt_insert reference revoked (kg_keys r), kg_version = v,
               kg_transparency = log_append c (kg_transparency r) revoked TrRevoked at\<rparr>))))))"

section \<open>Signed commands and certificates\<close>

record signing_scope =
  sg_deployment_domain :: bytes32
  sg_intended_provider :: provider_ref
  sg_relationship :: scoped_ref

record signed_command_bytes =
  sb_payload :: bytes
  sb_signature :: bytes

record signed_content_key_certificate =
  sk_certificate :: content_key_certificate
  sk_signature :: bytes

record verified_command =
  vc_authorized :: kernel_command
  vc_target :: scoped_ref
  vc_digest :: bytes32
  vc_canonical_bytes :: bytes

record command_signer =
  cs_actor :: actor_ref
  cs_reference :: operational_key_ref
  cs_signing_key :: bytes32

definition command_sign ::
  "crypto \<Rightarrow> codec \<Rightarrow> command_signer \<Rightarrow> signing_scope \<Rightarrow> protocol_version \<Rightarrow> idempotency_key \<Rightarrow> protocol_command
     \<Rightarrow> (signed_command_bytes, security_error) res" where
  "command_sign c w s scope protocol_version idempotency_key command =
     and_then (map_err SecWire (encode_envelope w
       \<lparr>cv_wire_version = 7, cv_protocol_version = protocol_version,
        cv_deployment_domain = sg_deployment_domain scope, cv_intended_provider = sg_intended_provider scope,
        cv_target = TargetRelationship (sg_relationship scope), cv_actor = cs_actor s,
        cv_operational_key = cs_reference s, cv_idempotency_key = idempotency_key, cv_command = command\<rparr>)) (\<lambda>payload.
     Ok \<lparr>sb_payload = payload, sb_signature = cr_sign c (cs_signing_key s) payload\<rparr>)"

definition sign_content_key_certificate ::
  "crypto \<Rightarrow> command_signer \<Rightarrow> content_key_certificate \<Rightarrow> (signed_content_key_certificate, security_error) res" where
  "sign_content_key_certificate c s k =
     fail_if (cc_operational_key k \<noteq> cs_reference s \<or> cs_actor s \<noteq> ActSender (cc_owner k)
        \<or> cc_valid_until k \<le> cc_valid_from k) SecSigningScopeMismatch
     (Ok \<lparr>sk_certificate = k, sk_signature = cr_sign c (cs_signing_key s) (certificate_bytes k)\<rparr>)"

definition registry_verify ::
  "crypto \<Rightarrow> codec \<Rightarrow> key_registry \<Rightarrow> signed_command_bytes \<Rightarrow> canonical_time \<Rightarrow> protocol_version \<Rightarrow> signing_scope
     \<Rightarrow> (verified_command, security_error) res" where
  "registry_verify c w r sealed receipt_time expected_version scope =
     and_then (map_err SecWire (decode_envelope w (sb_payload sealed))) (\<lambda>e.
     fail_if (cv_wire_version e \<noteq> 7) SecWireVersionMismatch
     (fail_if (cv_protocol_version e \<noteq> expected_version) SecProtocolVersionMismatch
     (fail_if (cv_deployment_domain e \<noteq> sg_deployment_domain scope
          \<or> cv_intended_provider e \<noteq> sg_intended_provider scope
          \<or> cv_target e \<noteq> TargetRelationship (sg_relationship scope)) SecSigningScopeMismatch
     (and_then (ok_or (bt_get (kg_keys r) (cv_operational_key e)) SecUnknownKey) (\<lambda>key.
      fail_if (ky_actor key \<noteq> cv_actor e) SecActorMismatch
      (fail_if (receipt_time < ky_valid_from key) SecKeyNotYetValid
      (fail_if (\<not> valid_at_receipt (ky_status key) receipt_time) SecKeyNotValidAtReceipt
      (fail_if (\<not> cr_key_parses c (ky_verifying_key key)) SecInvalidPublicKey
      (fail_if (\<not> cr_verify_strict c (ky_verifying_key key) (sb_payload sealed) (sb_signature sealed)) SecInvalidSignature
      (Ok \<lparr>vc_authorized = \<lparr>kc_command = cv_command e, kc_actor = cv_actor e, kc_key = cv_operational_key e,
             kc_idempotency_key = cv_idempotency_key e\<rparr>,
           vc_target = sg_relationship scope, vc_digest = cr_sha256 c (sb_payload sealed),
           vc_canonical_bytes = sb_payload sealed\<rparr>))))))))))"

definition verify_certificate ::
  "crypto \<Rightarrow> key_registry \<Rightarrow> signed_content_key_certificate \<Rightarrow> actor_ref \<Rightarrow> canonical_time \<Rightarrow> protocol_version
     \<Rightarrow> signing_scope \<Rightarrow> (bytes32, security_error) res" where
  "verify_certificate c r sealed holder receipt_time expected_version scope =
     (let k = sk_certificate sealed in
      fail_if (cc_wire_version k \<noteq> 1) SecWireVersionMismatch
      (fail_if (cc_protocol_version k \<noteq> expected_version) SecProtocolVersionMismatch
      (fail_if (cc_deployment_domain k \<noteq> sg_deployment_domain scope
           \<or> cc_intended_provider k \<noteq> sg_intended_provider scope
           \<or> cc_relationship k \<noteq> sg_relationship scope
           \<or> receipt_time < cc_valid_from k \<or> receipt_time > cc_valid_until k) SecSigningScopeMismatch
      (and_then (active_verifying_key r (cc_operational_key k) holder receipt_time) (\<lambda>key.
       fail_if (\<not> cr_key_parses c key) SecInvalidPublicKey
       (fail_if (\<not> cr_verify_strict c key (certificate_bytes k) (sk_signature sealed)) SecInvalidSignature
       (Ok (certificate_digest c k))))))))"

definition verify_content_key_certificate ::
  "crypto \<Rightarrow> key_registry \<Rightarrow> signed_content_key_certificate \<Rightarrow> canonical_time \<Rightarrow> protocol_version \<Rightarrow> signing_scope
     \<Rightarrow> (bytes32, security_error) res" where
  "verify_content_key_certificate c r sealed receipt_time expected_version scope =
     verify_certificate c r sealed (ActSender (cc_owner (sk_certificate sealed))) receipt_time expected_version scope"

definition verify_guest_content_certificate ::
  "crypto \<Rightarrow> key_registry \<Rightarrow> signed_content_key_certificate \<Rightarrow> canonical_time \<Rightarrow> protocol_version \<Rightarrow> signing_scope
     \<Rightarrow> (bytes32, security_error) res" where
  "verify_guest_content_certificate c r sealed receipt_time expected_version scope =
     verify_certificate c r sealed (ActProvider (sg_intended_provider scope)) receipt_time expected_version scope"

section \<open>Runs of a registry\<close>

datatype registry_call =
  RegisterKey operational_key_ref actor_ref bytes32 canonical_time
| RotateKey operational_key_ref version operational_key_ref bytes32 canonical_time
| RevokeKey operational_key_ref version canonical_time

definition registry_step :: "crypto \<Rightarrow> key_registry \<Rightarrow> registry_call \<Rightarrow> (key_registry \<times> unit, security_error) res" where
  "registry_step c r call =
     and_then (case call of
         RegisterKey reference actor key valid_from \<Rightarrow> registry_register c r reference actor key valid_from
       | RotateKey old expected new key at \<Rightarrow> registry_rotate c r old expected new key at
       | RevokeKey reference expected at \<Rightarrow> registry_revoke c r reference expected at)
     (\<lambda>r'. Ok (r', ()))"

text \<open>The registry a reader of the log alone reconstructs.\<close>

definition replay_status :: "key_status \<Rightarrow> transparency_action \<Rightarrow> canonical_time \<Rightarrow> key_status" where
  "replay_status status action at =
     (case action of
        TrRetired \<Rightarrow> KeyRetired at
      | _ \<Rightarrow> (case status of KeyRetired until \<Rightarrow> KeyRetiredRevoked until at | _ \<Rightarrow> KeyRevoked at))"

definition replay_entry ::
  "transparency_entry \<Rightarrow> (operational_key_ref, key_record) btmap \<Rightarrow> (operational_key_ref, key_record) btmap" where
  "replay_entry e m =
     (if te_action e = TrRegistered
      then bt_insert (te_key e) \<lparr>ky_reference = te_key e, ky_actor = te_actor e, ky_verifying_key = te_verifying_key e,
             ky_valid_from = te_at e, ky_status = KeyActive, ky_version = 0\<rparr> m
      else case bt_get m (te_key e) of
        None \<Rightarrow> m
      | Some key \<Rightarrow> bt_insert (te_key e)
          (key\<lparr>ky_status := replay_status (ky_status key) (te_action e) (te_at e), ky_version := ky_version key + 1\<rparr>) m)"

definition log_replay :: "transparency_log \<Rightarrow> (operational_key_ref, key_record) btmap" where
  "log_replay log = fold replay_entry log bt_empty"

section \<open>The log determines the registry\<close>

lemma verify_from_append:
  "verify_from c n prev (xs @ ys) \<longleftrightarrow> verify_from c n prev xs
     \<and> verify_from c (n + length xs) (if xs = [] then prev else te_hash (last xs)) ys"
  by (induction xs arbitrary: n prev) auto

lemma log_append_verifies [simp]: "log_verify c (log_append c log r action at) \<longleftrightarrow> log_verify c log"
  by (simp add: log_verify_def log_append_def Let_def verify_from_append)

lemma log_replay_append [simp]:
  "log_replay (log_append c log r action at) =
     replay_entry \<lparr>te_sequence = sequence_after (length log), te_key = ky_reference r, te_actor = ky_actor r,
       te_verifying_key = ky_verifying_key r, te_action = action, te_at = at,
       te_previous_hash = (if log = [] then 0 else te_hash (last log)),
       te_hash = cr_sha256 c (entry_preimage (sequence_after (length log)) (ky_reference r) (ky_actor r)
         (ky_verifying_key r) action at (if log = [] then 0 else te_hash (last log)))\<rparr> (log_replay log)"
  by (simp add: log_replay_def log_append_def Let_def)

text \<open>What holds of every registry: the log verifies, its replay is the registry, keys are filed under their reference.\<close>

definition registry_inv :: "crypto \<Rightarrow> key_registry \<Rightarrow> bool" where
  "registry_inv c r \<longleftrightarrow> log_verify c (kg_transparency r) \<and> log_replay (kg_transparency r) = kg_keys r
     \<and> (\<forall>k key. bt_get (kg_keys r) k = Some key \<longrightarrow> ky_reference key = k \<and> cr_key_parses c (ky_verifying_key key))"

lemma registry_default_inv: "registry_inv c registry_default"
  by (simp add: registry_inv_def registry_default_def log_verify_def log_replay_def)

lemma next_key_version_Ok: "next_key_version v = Ok v' \<Longrightarrow> v' = v + 1"
  by (auto simp: next_key_version_def version_checked_next_def checked_add_def split: if_splits)

lemma revoked_status_replays:
  "revoked_status status at = Ok (Some status') \<Longrightarrow> status' = replay_status status TrRevoked at"
  by (cases status) (auto simp: revoked_status_def replay_status_def split: if_splits)

lemma registry_step_inv:
  assumes inv: "registry_inv c r" and step: "registry_step c r call = Ok (r', u)"
  shows "registry_inv c r'"
proof (cases call)
  case (RegisterKey reference actor key start)
  then show ?thesis
    using assms by (auto simp: registry_step_def registry_register_def Let_def registry_inv_def replay_entry_def split: if_splits)
next
  case (RotateKey old expected new key at)
  obtain k v v' where k: "bt_get (kg_keys r) old = Some k" "ky_status k = KeyActive" "next_key_version (ky_version k) = Ok v"
      "cr_key_parses c key" "\<not> bt_has (kg_keys r) new"
    and r': "r' = \<lparr>kg_keys = bt_insert new \<lparr>ky_reference = new, ky_actor = ky_actor k, ky_verifying_key = key,
             ky_valid_from = at, ky_status = KeyActive, ky_version = 0\<rparr>
           (bt_insert old (k\<lparr>ky_status := KeyRetired at, ky_version := v\<rparr>) (kg_keys r)),
         kg_version = v', kg_transparency = log_append c (log_append c (kg_transparency r)
           (k\<lparr>ky_status := KeyRetired at, ky_version := v\<rparr>) TrRetired at)
           \<lparr>ky_reference = new, ky_actor = ky_actor k, ky_verifying_key = key,
             ky_valid_from = at, ky_status = KeyActive, ky_version = 0\<rparr> TrRegistered at\<rparr>"
    using step RotateKey by (auto simp: registry_step_def registry_rotate_def Let_def)
  have own: "ky_reference k = old" "cr_key_parses c (ky_verifying_key k)" using inv k(1) by (auto simp: registry_inv_def)
  show ?thesis
    using inv k own next_key_version_Ok [OF k(3)]
    by (auto simp: r' registry_inv_def replay_entry_def replay_status_def split: if_splits)
next
  case (RevokeKey reference expected at)
  obtain k status where k: "bt_get (kg_keys r) reference = Some k" "revoked_status (ky_status k) at = Ok status"
    using step RevokeKey by (auto simp: registry_step_def registry_revoke_def)
  have own: "ky_reference k = reference" "cr_key_parses c (ky_verifying_key k)" using inv k(1) by (auto simp: registry_inv_def)
  show ?thesis
  proof (cases status)
    case None
    then show ?thesis using step RevokeKey k inv by (auto simp: registry_step_def registry_revoke_def)
  next
    case (Some s)
    then show ?thesis
      using step RevokeKey k inv own revoked_status_replays [OF k(2) [unfolded Some]]
      by (auto simp: registry_step_def registry_revoke_def Let_def registry_inv_def replay_entry_def
          dest!: next_key_version_Ok split: if_splits)
  qed
qed

interpretation registry: invariant_machine "registry_step c" "registry_inv c" for c
  by unfold_locales (rule registry_step_inv)

text \<open>
  C21: The transparency log is the registry.  After any registrations, rotations and revocations,
  accepted or refused, the log passes its own verification, and replaying its entries from the
  empty map gives exactly the registry's keys: owner, verifying key, start, status and version of
  each, and no key that was never registered.
\<close>

theorem log_determines_registry:
  "log_verify c (kg_transparency (fst (run_machine (registry_step c) registry_default calls)))
     \<and> kg_keys (fst (run_machine (registry_step c) registry_default calls))
         = log_replay (kg_transparency (fst (run_machine (registry_step c) registry_default calls)))"
  using registry.run_inv [OF registry_default_inv prod.collapse [symmetric], of c calls]
  by (simp add: registry_inv_def)

section \<open>A checkpoint fixes the log\<close>

lemma actor_bytes_cancel [enc_facts]: "actor_bytes a @ s = actor_bytes b @ t \<longleftrightarrow> a = b \<and> s = t"
  by (cases a; cases b) (auto simp: enc_facts)

lemma transparency_code_inject [enc_facts]: "transparency_code a = transparency_code b \<longleftrightarrow> a = b"
  by (cases a; cases b) simp_all

lemma entry_preimage_inject:
  "entry_preimage s k a v x t p = entry_preimage s' k' a' v' x' t' p'
     \<longleftrightarrow> s = s' \<and> k = k' \<and> a = a' \<and> v = v' \<and> x = x' \<and> t = t' \<and> p = p'"
  by (auto simp: entry_preimage_def enc_facts)

lemma sequence_after_inject:
  assumes "m < 2 ^ 64 - 1" "n < 2 ^ 64 - 1" "sequence_after m = sequence_after n" shows "m = n"
proof -
  have "(of_nat m :: u64) = of_nat n" using assms by (simp add: sequence_after_def)
  moreover have "m < 2 ^ LENGTH(64)" "n < 2 ^ LENGTH(64)" using assms(1,2) by simp_all
  ultimately show ?thesis by (metis of_nat_inverse)
qed

definition entry_hashed :: "transparency_entry \<Rightarrow> bytes" where
  "entry_hashed e = entry_preimage (te_sequence e) (te_key e) (te_actor e) (te_verifying_key e) (te_action e) (te_at e)
     (te_previous_hash e)"

text \<open>A pair of entries of the two logs whose digests collide.\<close>

definition logs_collide :: "crypto \<Rightarrow> transparency_log \<Rightarrow> transparency_log \<Rightarrow> bool" where
  "logs_collide c log log' \<longleftrightarrow>
     (\<exists>e\<in>set log. \<exists>e'\<in>set log'. entry_hashed e \<noteq> entry_hashed e' \<and> cr_sha256 c (entry_hashed e) = cr_sha256 c (entry_hashed e'))"

lemma verify_snoc:
  "log_verify c (log @ [e]) \<longleftrightarrow> log_verify c log \<and> te_sequence e = sequence_after (length log)
     \<and> te_previous_hash e = (if log = [] then 0 else te_hash (last log)) \<and> cr_sha256 c (entry_hashed e) = te_hash e"
  by (auto simp: log_verify_def verify_from_append entry_hashed_def)

lemma same_length_logs:
  assumes "length log = length log'" "log_verify c log" "log_verify c log'" "log \<noteq> [] \<Longrightarrow> te_hash (last log) = te_hash (last log')"
    and "\<not> logs_collide c log log'"
  shows "log = log'"
  using assms
proof (induction log arbitrary: log' rule: rev_induct)
  case Nil
  then show ?case by simp
next
  case (snoc e log)
  obtain log1 e' where log': "log' = log1 @ [e']" using snoc.prems(1) by (cases log' rule: rev_cases) auto
  note v = snoc.prems(2,3)[unfolded log' verify_snoc]
  have same: "entry_hashed e = entry_hashed e'"
    using snoc.prems(4,5) v unfolding logs_collide_def log' by auto
  then have entry: "te_sequence e = te_sequence e'" "te_key e = te_key e'" "te_actor e = te_actor e'"
    "te_verifying_key e = te_verifying_key e'" "te_action e = te_action e'" "te_at e = te_at e'"
    "te_previous_hash e = te_previous_hash e'" "te_hash e = te_hash e'"
    using v by (auto simp: entry_hashed_def entry_preimage_inject)
  have "log = log1"
  proof (rule snoc.IH)
    show "length log = length log1" using snoc.prems(1) log' by simp
    show "\<not> logs_collide c log log1" using snoc.prems(5) by (auto simp: logs_collide_def log')
    show "te_hash (last log) = te_hash (last log1)" if "log \<noteq> []"
      using that v entry(7) \<open>length log = length log1\<close> by (auto split: if_splits)
  qed (use v in auto)
  moreover have "e = e'" using entry by (intro transparency_entry.equality) simp_all
  ultimately show ?case by (simp add: log')
qed

text \<open>
  C22: A checkpoint pins the history of keys.  Two logs that both verify and show the same
  checkpoint are the same log, entry for entry, unless they exhibit two different inputs with one
  SHA-256 digest.  (A log of \<open>2 ^ 64\<close> entries cannot exist: the length of a vector is below that.)
\<close>

theorem checkpoint_pins_log:
  assumes "log_verify c log" and "log_verify c log'" and "log_checkpoint log = log_checkpoint log'"
    and "length log < 2 ^ 64" and "length log' < 2 ^ 64"
  shows "log = log' \<or> logs_collide c log log'"
proof (rule disjCI)
  assume none: "\<not> logs_collide c log log'"
  show "log = log'"
  proof (cases "log = [] \<or> log' = []")
    case True
    then show ?thesis using assms(3) by (auto simp: log_checkpoint_def split: if_splits)
  next
    case False
    then have last: "te_sequence (last log) = te_sequence (last log')" "te_hash (last log) = te_hash (last log')"
      using assms(3) by (auto simp: log_checkpoint_def)
    obtain xs e ys e' where l: "log = xs @ [e]" "log' = ys @ [e']" using False by (metis rev_exhaust)
    have "sequence_after (length xs) = sequence_after (length ys)" using assms(1,2) last by (simp add: l verify_snoc)
    then have "length xs = length ys" using sequence_after_inject assms(4,5) by (simp add: l)
    then show ?thesis using same_length_logs [OF _ assms(1,2) _ none] last by (simp add: l)
  qed
qed

section \<open>Authority only shrinks\<close>

text \<open>What a later record of the same key may have lost, and nothing gained.\<close>

definition narrower :: "key_record \<Rightarrow> key_record \<Rightarrow> bool" where
  "narrower key key' \<longleftrightarrow> ky_actor key' = ky_actor key \<and> ky_verifying_key key' = ky_verifying_key key
     \<and> ky_valid_from key' = ky_valid_from key
     \<and> (\<forall>at. valid_at_receipt (ky_status key') at \<longrightarrow> valid_at_receipt (ky_status key) at)
     \<and> (key_revoked (ky_status key) \<longrightarrow> key_revoked (ky_status key'))"

definition keeps_key :: "operational_key_ref \<Rightarrow> key_record \<Rightarrow> key_registry \<Rightarrow> bool" where
  "keeps_key k key r \<longleftrightarrow> (\<exists>key'. bt_get (kg_keys r) k = Some key' \<and> narrower key key')"

lemma narrower_refl: "narrower key key"
  by (simp add: narrower_def)

lemma narrower_trans: "narrower a b \<Longrightarrow> narrower b d \<Longrightarrow> narrower a d"
  by (auto simp: narrower_def)

lemma narrower_retired: "ky_status key = KeyActive \<Longrightarrow> narrower key (key\<lparr>ky_status := KeyRetired at, ky_version := v\<rparr>)"
  by (simp add: narrower_def)

lemma narrower_revoked:
  "revoked_status (ky_status key) at = Ok (Some status) \<Longrightarrow> narrower key (key\<lparr>ky_status := status, ky_version := v\<rparr>)"
  by (cases "ky_status key") (auto simp: narrower_def revoked_status_def split: if_splits)

lemma registry_step_narrows:
  assumes "registry_step c r call = Ok (r', u)" and "bt_get (kg_keys r) k = Some key"
  shows "\<exists>key'. bt_get (kg_keys r') k = Some key' \<and> narrower key key'"
proof (cases call)
  case (RegisterKey reference actor vk start)
  then show ?thesis
    using assms by (auto simp: registry_step_def registry_register_def Let_def bt_has_def narrower_refl)
next
  case (RotateKey old expected new vk at)
  then show ?thesis
    using assms
    by (auto simp: registry_step_def registry_rotate_def Let_def bt_has_def narrower_refl narrower_retired)
next
  case (RevokeKey reference expected at)
  obtain x status where x: "bt_get (kg_keys r) reference = Some x" "revoked_status (ky_status x) at = Ok status"
    using assms(1) RevokeKey by (auto simp: registry_step_def registry_revoke_def)
  show ?thesis
    using assms RevokeKey x
    by (cases status) (auto simp: registry_step_def registry_revoke_def Let_def narrower_refl narrower_revoked)
qed

lemma keeps_key_step: "keeps_key k key r \<Longrightarrow> registry_step c r call = Ok (r', u) \<Longrightarrow> keeps_key k key r'"
  unfolding keeps_key_def using registry_step_narrows narrower_trans by blast

interpretation keeping: invariant_machine "registry_step c" "keeps_key k key" for c k key
  by unfold_locales (rule keeps_key_step)

lemma keeps_key_run:
  assumes "bt_get (kg_keys r) k = Some key"
  shows "\<exists>key'. bt_get (kg_keys (fst (run_machine (registry_step c) r calls))) k = Some key' \<and> narrower key key'"
  using keeping.run_inv [OF _ prod.collapse [symmetric], of k key r c calls] assms narrower_refl
  by (auto simp: keeps_key_def)

lemma active_verifying_key_Ok:
  "active_verifying_key r k actor at = Ok vk \<longleftrightarrow>
     (\<exists>key. bt_get (kg_keys r) k = Some key \<and> ky_actor key = actor \<and> ky_valid_from key \<le> at
        \<and> \<not> key_revoked (ky_status key) \<and> valid_at_receipt (ky_status key) at \<and> vk = ky_verifying_key key)"
  by (auto simp: active_verifying_key_def not_less split: if_splits)

lemma registry_verify_Ok:
  "registry_verify c w r sealed at v scope = Ok vc \<longleftrightarrow>
     (\<exists>e key. decode_envelope w (sb_payload sealed) = Ok e \<and> bt_get (kg_keys r) (cv_operational_key e) = Some key
        \<and> cv_wire_version e = 7 \<and> cv_protocol_version e = v
        \<and> cv_deployment_domain e = sg_deployment_domain scope \<and> cv_intended_provider e = sg_intended_provider scope
        \<and> cv_target e = TargetRelationship (sg_relationship scope)
        \<and> ky_actor key = cv_actor e \<and> ky_valid_from key \<le> at \<and> valid_at_receipt (ky_status key) at
        \<and> cr_key_parses c (ky_verifying_key key)
        \<and> cr_verify_strict c (ky_verifying_key key) (sb_payload sealed) (sb_signature sealed)
        \<and> vc = \<lparr>vc_authorized = \<lparr>kc_command = cv_command e, kc_actor = cv_actor e, kc_key = cv_operational_key e,
             kc_idempotency_key = cv_idempotency_key e\<rparr>,
           vc_target = sg_relationship scope, vc_digest = cr_sha256 c (sb_payload sealed),
           vc_canonical_bytes = sb_payload sealed\<rparr>)"
  by (auto simp: registry_verify_def not_less)

text \<open>
  No operation ever widens a key.  Let a registry know a key.  Whatever is registered, rotated
  or revoked afterwards, any command under that key the later registry verifies, at any receipt
  time, the earlier one verified too and with the same result, and the key is current at a time
  only if it was: a reference is never given to another owner or verifying key, and no retirement
  or revocation is undone or moved.
\<close>

theorem authority_only_shrinks:
  assumes "bt_has (kg_keys r) k"
  shows "(registry_verify c w (fst (run_machine (registry_step c) r calls)) sealed at v scope = Ok vc
         \<longrightarrow> kc_key (vc_authorized vc) = k \<longrightarrow> registry_verify c w r sealed at v scope = Ok vc)
     \<and> (active_verifying_key (fst (run_machine (registry_step c) r calls)) k actor at = Ok vk
         \<longrightarrow> active_verifying_key r k actor at = Ok vk)"
proof -
  obtain key where "bt_get (kg_keys r) k = Some key" using assms by (auto simp: bt_has_def)
  then obtain key' where "bt_get (kg_keys r) k = Some key"
    "bt_get (kg_keys (fst (run_machine (registry_step c) r calls))) k = Some key'" "narrower key key'"
    using keeps_key_run by blast
  then show ?thesis unfolding registry_verify_Ok active_verifying_key_Ok narrower_def by auto
qed

lemma revoked_status_cuts:
  assumes "revoked_status s t = Ok status"
  shows "key_revoked (case status of None \<Rightarrow> s | Some s' \<Rightarrow> s')"
    and "valid_at_receipt (case status of None \<Rightarrow> s | Some s' \<Rightarrow> s') at \<Longrightarrow> at < t"
  using assms by (cases s; auto simp: revoked_status_def split: if_splits)+

lemma later_verify:
  assumes "bt_get (kg_keys r) k = Some key"
    and "registry_verify c w (fst (run_machine (registry_step c) r calls)) sealed at v scope = Ok vc" "kc_key (vc_authorized vc) = k"
  shows "valid_at_receipt (ky_status key) at"
  using keeps_key_run [OF assms(1), of c calls] assms(2,3) unfolding registry_verify_Ok narrower_def by auto

lemma later_active:
  assumes "bt_get (kg_keys r) k = Some key"
    and "active_verifying_key (fst (run_machine (registry_step c) r calls)) k actor at = Ok vk"
  shows "\<not> key_revoked (ky_status key)"
  using keeps_key_run [OF assms(1), of c calls] assms(2) unfolding active_verifying_key_Ok narrower_def by auto


end
