(* ===== verification/Signatures.thy ===== *)
theory Signatures
  imports Authority Signed_Messages Pricing Payments
begin

text \<open>
  Signed artifacts of \<open>crates/cs-mail-security/src\<close>: the provider's terms, guest certificates and
  receipts and the recovery ceremony (\<open>lib.rs\<close>), a recipient's signed request classes
  (\<open>pricing.rs\<close>), endpoint keys and authenticated reads (\<open>member.rs\<close>).  The lemmas show that a
  signature is bound to one message of one kind, and that recovery takes its threshold, once.
\<close>

section \<open>The provider's signatures\<close>

record signed_contact_terms =
  st_terms :: request_terms
  st_provider_operational_key :: operational_key_ref
  st_signature :: bytes

datatype receipt_kind =
  RkRefused | RkNoChange | RkContactTermsIssued | RkReservationCommitted | RkAdmissionCommitted
| RkRelationshipDecisionCommitted | RkSettlementCommitted

record receipt_payload =
  rl_deployment_domain :: bytes32
  rl_receipt_id :: u128
  rl_kind :: receipt_kind
  rl_relationship :: scoped_ref
  rl_command_digest :: bytes32
  rl_journal_position :: u64
  rl_received_at :: canonical_time
  rl_outcome_digest :: bytes32
  rl_provider :: provider_ref
  rl_protocol_version :: protocol_version

record signed_receipt =
  sx_payload :: receipt_payload
  sx_provider_operational_key :: operational_key_ref
  sx_signature :: bytes

record provider_signer =
  pv_provider :: provider_ref
  pv_reference :: operational_key_ref
  pv_signing_key :: bytes32

primrec receipt_kind_code :: "receipt_kind \<Rightarrow> u8" where
  "receipt_kind_code RkRefused = 5"
| "receipt_kind_code RkNoChange = 6"
| "receipt_kind_code RkContactTermsIssued = 0"
| "receipt_kind_code RkReservationCommitted = 1"
| "receipt_kind_code RkAdmissionCommitted = 2"
| "receipt_kind_code RkRelationshipDecisionCommitted = 3"
| "receipt_kind_code RkSettlementCommitted = 4"

definition receipt_signing_bytes :: "receipt_payload \<Rightarrow> bytes" where
  "receipt_signing_bytes p =
     str_bytes ''cs-mail/receipt/v2'' @ be_bytes 32 (rl_deployment_domain p) @ be_bytes 16 (rl_receipt_id p)
     @ [receipt_kind_code (rl_kind p)]
     @ be_bytes 2 (sr_version (rl_relationship p)) @ be_bytes 32 (sr_bytes (rl_relationship p))
     @ be_bytes 32 (rl_command_digest p) @ be_bytes 8 (rl_journal_position p) @ be_bytes 8 (rl_received_at p)
     @ be_bytes 32 (rl_outcome_digest p) @ be_bytes 16 (rl_provider p) @ be_bytes 2 (rl_protocol_version p)"

definition sign_contact_terms ::
  "crypto \<Rightarrow> codec \<Rightarrow> provider_signer \<Rightarrow> request_terms \<Rightarrow> (signed_contact_terms, security_error) res" where
  "sign_contact_terms c w s t =
     fail_if (qt_recipient_provider t \<noteq> pv_provider s) SecSigningScopeMismatch
     (and_then (map_err SecWire (encode_terms_artifact w t)) (\<lambda>bs.
      Ok \<lparr>st_terms = t, st_provider_operational_key = pv_reference s, st_signature = cr_sign c (pv_signing_key s) bs\<rparr>))"

definition contact_terms_verify ::
  "crypto \<Rightarrow> codec \<Rightarrow> signed_contact_terms \<Rightarrow> bytes32 \<Rightarrow> (unit, security_error) res" where
  "contact_terms_verify c w x key =
     fail_if (\<not> cr_key_parses c key) SecInvalidPublicKey
     (and_then (map_err SecWire (encode_terms_artifact w (st_terms x))) (\<lambda>bs.
      fail_if (\<not> cr_verify_strict c key bs (st_signature x)) SecInvalidSignature (Ok ())))"

definition sign_guest_content_certificate ::
  "crypto \<Rightarrow> provider_signer \<Rightarrow> content_key_certificate \<Rightarrow> (signed_content_key_certificate, security_error) res" where
  "sign_guest_content_certificate c s k =
     fail_if (cc_operational_key k \<noteq> pv_reference s \<or> cc_intended_provider k \<noteq> pv_provider s
        \<or> cc_valid_until k \<le> cc_valid_from k) SecSigningScopeMismatch
     (Ok \<lparr>sk_certificate = k, sk_signature = cr_sign c (pv_signing_key s) (certificate_bytes k)\<rparr>)"

definition sign_receipt :: "crypto \<Rightarrow> provider_signer \<Rightarrow> receipt_payload \<Rightarrow> (signed_receipt, security_error) res" where
  "sign_receipt c s p =
     fail_if (rl_provider p \<noteq> pv_provider s) SecSigningScopeMismatch
     (Ok \<lparr>sx_payload = p, sx_provider_operational_key = pv_reference s,
       sx_signature = cr_sign c (pv_signing_key s) (receipt_signing_bytes p)\<rparr>)"

definition receipt_verify :: "crypto \<Rightarrow> signed_receipt \<Rightarrow> bytes32 \<Rightarrow> (unit, security_error) res" where
  "receipt_verify c x key =
     fail_if (\<not> cr_key_parses c key) SecInvalidPublicKey
     (fail_if (\<not> cr_verify_strict c key (receipt_signing_bytes (sx_payload x)) (sx_signature x)) SecInvalidSignature
     (Ok ()))"

section \<open>Publications and reads\<close>

record recipient_signing_scope =
  rs_deployment_domain :: bytes32
  rs_provider :: provider_ref

record signed_request_classes =
  sq_scope :: recipient_signing_scope
  sq_operational_key :: operational_key_ref
  sq_classes :: recipient_request_classes
  sq_signature :: bytes

record endpoint_key_publication =
  ek_persona :: protocol_identity
  ek_version :: u64
  ek_key :: endpoint_public_key

record signed_endpoint_key =
  se_scope :: recipient_signing_scope
  se_operational_key :: operational_key_ref
  se_publication :: endpoint_key_publication
  se_signature :: bytes

datatype member_read =
  ReadAccount | ReadAsSender protocol_identity | ReadAliasRequestPermission protocol_identity alias_id
| ReadAsRecipient protocol_identity | ReadInbox | ReadOutbox

record signed_member_read =
  sm_scope :: recipient_signing_scope
  sm_persona :: protocol_identity
  sm_operational_key :: operational_key_ref
  sm_issued_at :: canonical_time
  sm_read :: member_read
  sm_signature :: bytes

text \<open>
  The tuple whose JSON text is signed; \<open>json\<close> is \<open>serde_json::to_vec\<close> on it and can fail.
\<close>

type_synonym classes_text = "string \<times> recipient_signing_scope \<times> operational_key_ref \<times> recipient_request_classes"
type_synonym endpoint_text = "string \<times> recipient_signing_scope \<times> operational_key_ref \<times> endpoint_key_publication"
type_synonym read_text =
  "string \<times> recipient_signing_scope \<times> protocol_identity \<times> operational_key_ref \<times> canonical_time \<times> member_read"

definition classes_text :: "signed_request_classes \<Rightarrow> classes_text" where
  "classes_text x = (''cs-mail/alias-request-classes/v3'', sq_scope x, sq_operational_key x, sq_classes x)"

definition endpoint_text :: "signed_endpoint_key \<Rightarrow> endpoint_text" where
  "endpoint_text x = (''cs-mail/endpoint-key/v1'', se_scope x, se_operational_key x, se_publication x)"

definition read_text :: "signed_member_read \<Rightarrow> read_text" where
  "read_text x = (''cs-mail/member-read/v1'', sm_scope x, sm_persona x, sm_operational_key x, sm_issued_at x, sm_read x)"

definition sign_request_classes ::
  "crypto \<Rightarrow> (classes_text \<Rightarrow> bytes option) \<Rightarrow> command_signer \<Rightarrow> recipient_signing_scope
     \<Rightarrow> recipient_request_classes \<Rightarrow> (signed_request_classes, security_error) res" where
  "sign_request_classes c json s scope classes =
     fail_if (cs_actor s \<noteq> ActRecipient (rcs_recipient classes) \<or> rcs_version classes = 0) SecInvalidSignature
     (let x = \<lparr>sq_scope = scope, sq_operational_key = cs_reference s, sq_classes = classes, sq_signature = []\<rparr> in
      and_then (ok_or (json (classes_text x)) SecInvalidSignature) (\<lambda>bs. Ok (x\<lparr>sq_signature := cr_sign c (cs_signing_key s) bs\<rparr>)))"

definition request_classes_verify ::
  "crypto \<Rightarrow> (classes_text \<Rightarrow> bytes option) \<Rightarrow> signed_request_classes \<Rightarrow> bytes32 \<Rightarrow> (unit, security_error) res" where
  "request_classes_verify c json x key =
     fail_if (\<not> cr_key_parses c key) SecInvalidSignature
     (fail_if (\<not> cr_signature_parses c (sq_signature x)) SecInvalidSignature
     (and_then (ok_or (json (classes_text x)) SecInvalidSignature) (\<lambda>bs.
      fail_if (\<not> cr_verify_strict c key bs (sq_signature x)) SecInvalidSignature (Ok ()))))"

definition member_verify :: "crypto \<Rightarrow> bytes32 \<Rightarrow> bytes \<Rightarrow> bytes \<Rightarrow> (unit, security_error) res" where
  "member_verify c key bs signature =
     fail_if (\<not> cr_key_parses c key) SecInvalidSignature
     (fail_if (\<not> cr_signature_parses c signature) SecInvalidSignature
     (fail_if (\<not> cr_verify_strict c key bs signature) SecInvalidSignature (Ok ())))"

definition endpoint_key_sign ::
  "crypto \<Rightarrow> (endpoint_text \<Rightarrow> bytes option) \<Rightarrow> recipient_signing_scope \<Rightarrow> operational_key_ref
     \<Rightarrow> endpoint_key_publication \<Rightarrow> bytes32 \<Rightarrow> (signed_endpoint_key, security_error) res" where
  "endpoint_key_sign c json scope key publication secret =
     fail_if (ek_version publication = 0 \<or> ek_persona publication = 0) SecInvalidSignature
     (let x = \<lparr>se_scope = scope, se_operational_key = key, se_publication = publication, se_signature = []\<rparr> in
      and_then (ok_or (json (endpoint_text x)) SecInvalidSignature) (\<lambda>bs. Ok (x\<lparr>se_signature := cr_sign c secret bs\<rparr>)))"

definition endpoint_key_verify ::
  "crypto \<Rightarrow> (endpoint_text \<Rightarrow> bytes option) \<Rightarrow> signed_endpoint_key \<Rightarrow> bytes32 \<Rightarrow> (unit, security_error) res" where
  "endpoint_key_verify c json x key =
     and_then (ok_or (json (endpoint_text x)) SecInvalidSignature) (\<lambda>bs. member_verify c key bs (se_signature x))"

definition read_freshness :: duration where
  "read_freshness = 300000"

definition member_read_sign ::
  "crypto \<Rightarrow> (read_text \<Rightarrow> bytes option) \<Rightarrow> recipient_signing_scope \<Rightarrow> protocol_identity
     \<Rightarrow> operational_key_ref \<Rightarrow> canonical_time \<Rightarrow> member_read \<Rightarrow> bytes32 \<Rightarrow> (signed_member_read, security_error) res" where
  "member_read_sign c json scope persona key issued_at read secret =
     fail_if (persona = 0) SecInvalidSignature
     (let x = \<lparr>sm_scope = scope, sm_persona = persona, sm_operational_key = key, sm_issued_at = issued_at,
           sm_read = read, sm_signature = []\<rparr> in
      and_then (ok_or (json (read_text x)) SecInvalidSignature) (\<lambda>bs. Ok (x\<lparr>sm_signature := cr_sign c secret bs\<rparr>)))"

definition member_read_verify ::
  "crypto \<Rightarrow> (read_text \<Rightarrow> bytes option) \<Rightarrow> signed_member_read \<Rightarrow> bytes32 \<Rightarrow> canonical_time
     \<Rightarrow> (unit, security_error) res" where
  "member_read_verify c json x key now =
     (let earliest = saturating_sub (sm_issued_at x) read_freshness in
      and_then (ok_or (time_checked_add (sm_issued_at x) read_freshness) SecKeyNotValidAtReceipt) (\<lambda>latest.
      fail_if (now < earliest \<or> now > latest) SecKeyNotValidAtReceipt
      (and_then (ok_or (json (read_text x)) SecInvalidSignature) (\<lambda>bs. member_verify c key bs (sm_signature x)))))"

section \<open>Recovery\<close>

record recovery_policy =
  rp_actor :: actor_ref
  rp_threshold :: nat
  rp_factors :: "u128 fset"

record recovery_attempt =
  rv_reference :: u128
  rv_policy :: recovery_policy
  rv_approvals :: "u128 fset"
  rv_consumed :: bool

definition recovery_new :: "u128 \<Rightarrow> recovery_policy \<Rightarrow> (recovery_attempt, security_error) res" where
  "recovery_new reference p =
     fail_if (rp_threshold p = 0 \<or> rp_factors p = {||} \<or> rp_threshold p > fcard (rp_factors p)) SecInvalidRecoveryPolicy
     (Ok \<lparr>rv_reference = reference, rv_policy = p, rv_approvals = {||}, rv_consumed = False\<rparr>)"

definition recovery_approve :: "recovery_attempt \<Rightarrow> u128 \<Rightarrow> (recovery_attempt \<times> bool, security_error) res" where
  "recovery_approve a factor =
     fail_if (rv_consumed a) SecRecoveryAlreadyConsumed
     (fail_if (factor |\<notin>| rp_factors (rv_policy a)) SecUnknownRecoveryFactor
     (let a' = a\<lparr>rv_approvals := finsert factor (rv_approvals a)\<rparr>
      in Ok (a', fcard (rv_approvals a') \<ge> rp_threshold (rv_policy a))))"

definition recovery_consume :: "recovery_attempt \<Rightarrow> (recovery_attempt \<times> actor_ref, security_error) res" where
  "recovery_consume a =
     fail_if (rv_consumed a) SecRecoveryAlreadyConsumed
     (fail_if (fcard (rv_approvals a) < rp_threshold (rv_policy a)) SecInvalidRecoveryPolicy
     (Ok (a\<lparr>rv_consumed := True\<rparr>, rp_actor (rv_policy a))))"

datatype recovery_call = ApproveFactor u128 | ConsumeRecovery

definition recovery_step ::
  "recovery_attempt \<Rightarrow> recovery_call \<Rightarrow> (recovery_attempt \<times> (bool + actor_ref), security_error) res" where
  "recovery_step a call =
     (case call of
        ApproveFactor factor \<Rightarrow> map_ok (\<lambda>(a, enough). (a, Inl enough)) (recovery_approve a factor)
      | ConsumeRecovery \<Rightarrow> map_ok (\<lambda>(a, actor). (a, Inr actor)) (recovery_consume a))"

text \<open>The actors the outcomes hand control to, and the policy's factors that approved.\<close>

definition recovered :: "(bool + actor_ref) list \<Rightarrow> actor_ref list" where
  "recovered outs = concat (map (case_sum (\<lambda>_. []) (\<lambda>actor. [actor])) outs)"

definition approving :: "recovery_policy \<Rightarrow> recovery_call list \<Rightarrow> u128 set" where
  "approving p calls = {f. ApproveFactor f \<in> set calls \<and> f |\<in>| rp_factors p}"

lemma recovered_simps [simp]:
  "recovered [] = []" "recovered (xs @ ys) = recovered xs @ recovered ys"
  "recovered [Inl b] = []" "recovered [Inr a] = [a]"
  by (simp_all add: recovered_def)

lemma approving_snoc [simp]:
  "approving p (calls @ [ApproveFactor f]) = (if f |\<in>| rp_factors p then insert f (approving p calls) else approving p calls)"
  "approving p (calls @ [ConsumeRecovery]) = approving p calls"
  by (auto simp: approving_def)

lemma approving_finite [simp]: "finite (approving p calls)"
  by (rule finite_subset [of _ "fset (rp_factors p)"]) (auto simp: approving_def)

lemma approving_mono: "card (approving p calls) \<le> card (approving p (calls @ calls'))"
  by (rule card_mono) (auto simp: approving_def)

lemma recovery_run:
  assumes "recovery_new i p = Ok a" and "run_machine recovery_step a calls = (b, outs)"
  shows "rv_policy b = p
     \<and> (if rv_consumed b then recovered outs = [rp_actor p] \<and> rp_threshold p \<le> card (approving p calls)
        else recovered outs = [] \<and> fset (rv_approvals b) = approving p calls)"
  using assms(2)
proof (induction calls arbitrary: b outs rule: rev_induct)
  case Nil
  then show ?case using assms(1) by (auto simp: recovery_new_def approving_def)
next
  case (snoc x calls)
  obtain b0 outs0 where r: "run_machine recovery_step a calls = (b0, outs0)" by (cases "run_machine recovery_step a calls")
  note ih = snoc.IH [OF r]
  show ?case
  proof (cases "recovery_step b0 x")
    case (Ok o1)
    obtain b1 out where o1: "o1 = (b1, out)" by (cases o1)
    then have b: "b = b1" "outs = outs0 @ [out]" using snoc.prems Ok by (auto simp: run_machine_append r)
    show ?thesis
      using Ok ih unfolding b o1
      by (cases x) (auto simp: recovery_step_def recovery_approve_def recovery_consume_def Let_def fcard.rep_eq split: if_splits)
  next
    case (Err e)
    then have b: "b = b0" "outs = outs0" using snoc.prems by (auto simp: run_machine_append r)
    show ?thesis
    proof (cases x)
      case (ApproveFactor f)
      then show ?thesis
        using ih Err approving_mono [of p calls "[x]"] unfolding b
        by (auto simp: recovery_step_def recovery_approve_def Let_def split: if_splits)
    qed (use ih in \<open>simp add: b\<close>)
  next
    case Panic
    then show ?thesis by (cases x) (simp_all add: recovery_step_def recovery_approve_def recovery_consume_def Let_def fail_if_def split: if_splits)
  qed
qed

text \<open>
  C25: Recovery happens exactly when it should, and once.  After any approvals and consumptions,
  accepted or refused, followed by one consumption, the attempt has handed over its policy's actor
  exactly once if at least the threshold of distinct factors of the policy approved, and never
  otherwise.
\<close>

theorem recovery_takes_threshold:
  assumes "recovery_new i p = Ok a"
  shows "recovered (snd (run_machine recovery_step a (calls @ [ConsumeRecovery])))
     = (if rp_threshold p \<le> card (approving p calls) then [rp_actor p] else [])"
proof -
  obtain b outs where r: "run_machine recovery_step a calls = (b, outs)" by (cases "run_machine recovery_step a calls")
  show ?thesis
    using recovery_run [OF assms r]
    by (cases "rv_consumed b")
      (auto simp: run_machine_append r recovery_step_def recovery_consume_def fcard.rep_eq fail_if_def not_less)
qed

section \<open>A signature is for one message of one kind\<close>

text \<open>The messages signed in a fixed binary layout, with the bytes each signature covers.\<close>

datatype artifact =
  ArtReceipt receipt_payload | ArtCertificate content_key_certificate | ArtGrant sender_scoped_grant
| ArtControl lane_control | ArtAdmission bond_free_admission | ArtEvidence payment_evidence

definition artifact_bytes :: "artifact \<Rightarrow> bytes option" where
  "artifact_bytes x =
     (case x of
        ArtReceipt p \<Rightarrow> Some (receipt_signing_bytes p)
      | ArtCertificate k \<Rightarrow> Some (certificate_bytes k)
      | ArtGrant g \<Rightarrow> (case grant_signing_bytes g of Ok bs \<Rightarrow> Some bs | _ \<Rightarrow> None)
      | ArtControl k \<Rightarrow> Some (control_signing_bytes k)
      | ArtAdmission a \<Rightarrow> (case admission_signing_bytes a of Ok bs \<Rightarrow> Some bs | _ \<Rightarrow> None)
      | ArtEvidence e \<Rightarrow> Some (evidence_signing_bytes e))"

definition artifact_tag :: "artifact \<Rightarrow> string" where
  "artifact_tag x =
     (case x of
        ArtReceipt _ \<Rightarrow> ''cs-mail/receip'' | ArtCertificate _ \<Rightarrow> ''cs-mail/conten'' | ArtGrant _ \<Rightarrow> ''cs-mail/lane-g''
      | ArtControl _ \<Rightarrow> ''cs-mail/lane-c'' | ArtAdmission _ \<Rightarrow> ''cs-mail/bond-f'' | ArtEvidence _ \<Rightarrow> ''cs-mail/paymen'')"

lemma take_str_bytes: "take n (str_bytes s) = str_bytes (take n s)"
  by (simp add: str_bytes_def take_map)

lemma tag_of_bytes:
  assumes "artifact_bytes x = Some bs" shows "take 14 bs = str_bytes (artifact_tag x)"
proof -
  show ?thesis using assms
    by (cases x)
      (auto simp: artifact_bytes_def artifact_tag_def receipt_signing_bytes_def certificate_bytes_def control_signing_bytes_def
        evidence_signing_bytes_def grant_bytes_Ok admission_bytes_Ok take_str_bytes split: res.splits)
qed

lemma receipt_kind_code_inject [enc_facts]: "receipt_kind_code a = receipt_kind_code b \<longleftrightarrow> a = b"
  by (cases a; cases b) simp_all

lemma receipt_bytes_inject: "receipt_signing_bytes p = receipt_signing_bytes q \<longleftrightarrow> p = q"
proof
  assume eq: "receipt_signing_bytes p = receipt_signing_bytes q"
  then have "rl_relationship p = rl_relationship q"
    by (intro scoped_ref.equality) (simp_all add: receipt_signing_bytes_def enc_facts)
  then show "p = q" using eq by (intro receipt_payload.equality) (simp_all add: receipt_signing_bytes_def enc_facts)
qed simp

lemma certificate_bytes_inject: "certificate_bytes k = certificate_bytes l \<longleftrightarrow> k = l"
proof
  assume eq: "certificate_bytes k = certificate_bytes l"
  then have "cc_key k = cc_key l"
    by (intro endpoint_public_key.equality) (simp_all add: certificate_bytes_def enc_facts)
  then show "k = l" using eq by (intro content_key_certificate.equality) (simp_all add: certificate_bytes_def enc_facts)
qed simp

lemma evidence_bytes_inject:
  "evidence_signing_bytes d = evidence_signing_bytes e \<longleftrightarrow> d = e"
proof
  have codes: "outcome_code x = outcome_code y \<longleftrightarrow> x = y" for x y by (cases x; cases y) simp_all
  assume "evidence_signing_bytes d = evidence_signing_bytes e"
  then show "d = e" by (intro payment_evidence.equality) (simp_all add: evidence_signing_bytes_def enc_facts codes)
qed simp

text \<open>
  C24: A signature cannot be carried from one message to another.  The bytes signed for a receipt, a
  content-key certificate, a lane grant, a lane control, a free admission and a payment receipt
  determine the message and its kind: equal bytes, equal message, so a signature over one is a
  signature over no other.
\<close>

theorem signatures_not_transferable:
  assumes "artifact_bytes x = Some bs" and "artifact_bytes y = Some bs"
  shows "x = y"
proof -
  have tags: "artifact_tag x = artifact_tag y"
    using tag_of_bytes [OF assms(1)] tag_of_bytes [OF assms(2)] by simp
  show ?thesis
    using assms tags
    by (cases x; cases y)
      (auto simp: artifact_tag_def artifact_bytes_def receipt_bytes_inject certificate_bytes_inject evidence_bytes_inject
        control_bytes_inject intro: grant_bytes_inject admission_bytes_inject split: res.splits)
qed

text \<open>
  A member's read is answered for five minutes each way and no more.  A read signed with a
  persona's key verifies under that key exactly at the times within 300000 milliseconds of its
  issue (reads issued so late that the window passes the end of time are refused), and a stale or
  early one is refused before its signature is looked at.
\<close>

theorem member_read_is_fresh:
  assumes "ed25519_correct c" and "member_read_sign c json scope persona k issued_at read secret = Ok x"
  shows "member_read_verify c json x (cr_public_key c secret) now
     = (if \<bar>int (unat now) - int (unat issued_at)\<bar> \<le> 300000 \<and> unat issued_at + 300000 < 2 ^ 64
        then Ok () else Err SecKeyNotValidAtReceipt)"
proof -
  obtain bs where x: "sm_issued_at x = issued_at" "json (read_text x) = Some bs" "sm_signature x = cr_sign c secret bs"
    using assms(2) by (auto simp: member_read_sign_def Let_def read_text_def)
  have valid: "member_verify c (cr_public_key c secret) bs (sm_signature x) = Ok ()"
    using assms(1) by (simp add: member_verify_def ed25519_correct_def x(3))
  have low: "now < saturating_sub issued_at read_freshness \<longleftrightarrow> unat now + 300000 < unat issued_at"
    by (auto simp: saturating_sub_def read_freshness_def word_less_nat_alt word_le_nat_alt unat_sub)
  show ?thesis
  proof (cases "unat issued_at + 300000 < 2 ^ 64")
    case True
    then have high: "now > issued_at + read_freshness \<longleftrightarrow> unat now > unat issued_at + 300000"
      by (simp add: read_freshness_def word_less_nat_alt unat_add_lem [THEN iffD1])
    have late: "time_checked_add issued_at read_freshness = Some (issued_at + read_freshness)"
      using True by (simp add: time_checked_add_def checked_add_def read_freshness_def)
    have window: "(now < saturating_sub issued_at read_freshness \<or> now > issued_at + read_freshness)
        \<longleftrightarrow> \<not> \<bar>int (unat now) - int (unat issued_at)\<bar> \<le> 300000"
      unfolding low high by linarith
    have "member_read_verify c json x (cr_public_key c secret) now
        = fail_if (\<not> \<bar>int (unat now) - int (unat issued_at)\<bar> \<le> 300000) SecKeyNotValidAtReceipt (Ok ())"
      unfolding member_read_verify_def Let_def x(1,2) late ok_or.simps and_then.simps window valid by (rule refl)
    then show ?thesis using True by (simp only: fail_if_def) simp
  next
    case False
    then show ?thesis
      by (simp add: member_read_verify_def x time_checked_add_def checked_add_def read_freshness_def)
  qed
qed

end
