(* ===== verification/Wire_Samples.thy ===== *)
theory Wire_Samples
  imports Wire Kernel_Samples
begin

text \<open>
  A concrete codec, with every CBOR length at its widest, that satisfies \<open>codec_correct\<close>, and the
  properties of the wire applied to it.
\<close>

section \<open>A codec\<close>

definition cut_word :: "nat \<Rightarrow> u8 \<Rightarrow> bytes \<Rightarrow> ('l::len word \<times> bytes) option" where
  "cut_word n head bs =
     (case bs of [] \<Rightarrow> None
      | h # t \<Rightarrow> if h = head \<and> n \<le> length t then Some (of_nat (be_nat (take n t)), drop n t) else None)"

definition cut_bytes :: "u8 \<Rightarrow> bytes \<Rightarrow> (bytes \<times> bytes) option" where
  "cut_bytes head bs =
     (case (cut_word 8 head bs :: (u64 \<times> bytes) option) of None \<Rightarrow> None
      | Some (n, t) \<Rightarrow> if unat n \<le> length t then Some (take (unat n) t, drop (unat n) t) else None)"

definition put_bytes :: "u8 \<Rightarrow> bytes \<Rightarrow> bytes" where
  "put_bytes head bs = head # be_bytes 8 (of_nat (length bs) :: u64) @ bs"

definition cut_str :: "bytes \<Rightarrow> (string \<times> bytes) option" where
  "cut_str bs = map_option (\<lambda>(s, rest). (map (\<lambda>b. char_of (unat b)) s, rest)) (cut_bytes 0x7B bs)"

definition put_str :: "string \<Rightarrow> bytes" where
  "put_str s = put_bytes 0x7B (str_bytes s)"

definition put_purpose :: "declared_purpose \<Rightarrow> bytes" where
  "put_purpose p = (case p of Unspecified \<Rightarrow> [0] | Known k \<Rightarrow> [1, known_purpose_code k]
     | Extension i \<Rightarrow> 2 # put_str (ni_namespace i) @ put_str (ni_name i) @ 0x19 # be_bytes 2 (ni_version i))"

definition known_of :: "u8 \<Rightarrow> known_purpose" where
  "known_of b = (if b = 0 then Personal else if b = 1 then Transactional else if b = 2 then RequestPurpose else Bulk)"

definition cut_purpose :: "bytes \<Rightarrow> declared_purpose option" where
  "cut_purpose bs =
     (case bs of
        [] \<Rightarrow> None
      | t # rest \<Rightarrow>
          if t = 0 then Some Unspecified
          else if t = 1 then (case rest of [] \<Rightarrow> None | k # _ \<Rightarrow> Some (Known (known_of k)))
          else (case cut_str rest of None \<Rightarrow> None
            | Some (ns, rest) \<Rightarrow> (case cut_str rest of None \<Rightarrow> None
              | Some (n, rest) \<Rightarrow> (case cut_word 2 0x19 rest of None \<Rightarrow> None
                | Some (v, _) \<Rightarrow> Some (Extension \<lparr>ni_namespace = ns, ni_name = n, ni_version = v\<rparr>)))))"

definition put_reply :: "request_reply_agreement \<Rightarrow> bytes" where
  "put_reply a = (case a of NotOffered \<Rightarrow> []
     | Agreed r \<Rightarrow> 0x1B # be_bytes 8 (rt_lifetime r) @ 0x1A # be_bytes 4 (rl_max_messages (rt_rate_limit r))
         @ 0x1B # be_bytes 8 (rl_interval (rt_rate_limit r)) @ put_purpose (rt_purpose r))"

definition cut_reply :: "bytes \<Rightarrow> request_reply_agreement option" where
  "cut_reply bs =
     (if bs = [] then Some NotOffered
      else (case cut_word 8 0x1B bs of None \<Rightarrow> None
        | Some (lifetime, bs) \<Rightarrow> (case cut_word 4 0x1A bs of None \<Rightarrow> None
          | Some (most, bs) \<Rightarrow> (case cut_word 8 0x1B bs of None \<Rightarrow> None
            | Some (interval, bs) \<Rightarrow> (case cut_purpose bs of None \<Rightarrow> None
              | Some p \<Rightarrow> Some (Agreed \<lparr>rt_lifetime = lifetime,
                    rt_rate_limit = \<lparr>rl_max_messages = most, rl_interval = interval\<rparr>, rt_purpose = p\<rparr>))))))"

definition put_route :: "request_return_route \<Rightarrow> bytes" where
  "put_route r = (case r of GuestMailbox \<Rightarrow> [] | NativeRoute alias \<Rightarrow> 0x50 # be_bytes 16 alias)"

definition cut_route :: "bytes \<Rightarrow> request_return_route option" where
  "cut_route bs = (if bs = [] then Some GuestMailbox else map_option (\<lambda>(a, _). NativeRoute a) (cut_word 16 0x50 bs))"

definition sample_codec :: codec where
  "sample_codec =
     \<lparr>en_array = \<lambda>v. 0x9B # be_bytes 8 v, en_str = put_str, en_u8 = \<lambda>v. 0x18 # be_bytes 1 v,
      en_u16 = \<lambda>v. 0x19 # be_bytes 2 v, en_u32 = \<lambda>v. 0x1A # be_bytes 4 v, en_u64 = \<lambda>v. 0x1B # be_bytes 8 v,
      en_bytes = put_bytes 0x5B,
      de_array = \<lambda>bs. map_option (\<lambda>(n, rest). (Some n, rest)) (cut_word 8 0x9B bs), de_str = cut_str,
      de_u8 = cut_word 1 0x18, de_u16 = cut_word 2 0x19, de_u32 = cut_word 4 0x1A, de_u64 = cut_word 8 0x1B, de_bytes = cut_bytes 0x5B,
      js_route = \<lambda>r. Some (put_route r), js_route_of = cut_route,
      js_reply = \<lambda>a. Some (put_reply a), js_reply_of = cut_reply\<rparr>"

lemma cut_put [simp]:
  fixes v :: "'l::len word"
  assumes "LENGTH('l) \<le> 8 * n"
  shows "cut_word n head (head # be_bytes n v @ rest) = Some (v, rest)"
  using sized_word_bytes [OF assms, of v] by (simp add: cut_word_def sized_word_def)

lemma cut_put_byte [simp]: "cut_word (Suc 0) head (head # (v :: u8) # rest) = Some (v, rest)"
  by (simp add: cut_word_def be_nat_def)

lemma cut_put_last [simp]:
  fixes v :: "'l::len word"
  assumes "LENGTH('l) \<le> 8 * n"
  shows "cut_word n head (head # be_bytes n v) = Some (v, [])"
  using cut_put [OF assms, of head v "[]"] by simp

lemma cut_put_bytes [simp]:
  assumes "length bs < 2 ^ 63"
  shows "cut_bytes head (put_bytes head bs @ rest) = Some (bs, rest)"
proof -
  have "length bs < 2 ^ LENGTH(64)" using assms by simp
  then have "unat (of_nat (length bs) :: u64) = length bs" by (rule of_nat_inverse [OF refl])
  then show ?thesis by (simp add: cut_bytes_def put_bytes_def)
qed

lemma chars_of_str_bytes [simp]: "map (\<lambda>b. char_of (unat b)) (str_bytes s) = s"
proof -
  have "unat (of_char c :: u8) = of_char c" for c
  proof -
    have "(of_char c :: u8) = of_nat (of_char c)" by (simp add: of_nat_of_char)
    moreover have "(of_char c :: nat) < 256" by simp
    ultimately show ?thesis by (simp add: unsigned_of_nat take_bit_nat_eq_self)
  qed
  then show ?thesis by (simp add: str_bytes_def comp_def)
qed

lemma cut_put_str [simp]:
  assumes "length s < 2 ^ 63" shows "cut_str (put_str s @ rest) = Some (s, rest)"
  using assms by (simp add: cut_str_def put_str_def)

lemma cut_put_purpose:
  assumes "purpose_validate p = Ok ()"
  shows "cut_purpose (put_purpose p) = Some p \<and> length (put_purpose p) < 2 ^ 10"
proof (cases p)
  case (Known k)
  then show ?thesis by (cases k) (simp_all add: cut_purpose_def put_purpose_def known_of_def)
next
  case (Extension i)
  then have short: "length (ni_namespace i) \<le> 64" "length (ni_name i) \<le> 64"
    using assms by (simp_all add: purpose_validate_def identifier_validate_def valid_identifier_component_def)
  then have reads: "cut_str (put_str (ni_namespace i) @ xs) = Some (ni_namespace i, xs)"
    "cut_str (put_str (ni_name i) @ xs) = Some (ni_name i, xs)" for xs
    by (auto intro!: cut_put_str)
  show ?thesis using short
    by (simp add: Extension cut_purpose_def put_purpose_def reads) (simp add: put_str_def put_bytes_def)
qed (simp add: cut_purpose_def put_purpose_def)

lemma cut_put_reply:
  assumes "reply_ok a" shows "cut_reply (put_reply a) = Some a \<and> length (put_reply a) < 2 ^ 63"
proof (cases a)
  case (Agreed r)
  then have "purpose_validate (rt_purpose r) = Ok ()"
    using assms
    by (cases "purpose_validate (rt_purpose r)") (auto simp: reply_ok_def reply_terms_new_def fail_if_def split: if_splits)
  from cut_put_purpose [OF this] show ?thesis by (simp add: Agreed cut_reply_def put_reply_def)
qed (simp add: cut_reply_def put_reply_def)

lemma sample_codec_correct: "codec_correct sample_codec"
  unfolding codec_correct_def
  by (intro conjI allI impI)
    (auto simp: sample_codec_def rust_str_def cut_put_reply [simplified] put_route_def cut_route_def split: request_return_route.splits)

section \<open>Witnesses\<close>

definition sample_envelope :: command_envelope where
  "sample_envelope =
     \<lparr>cv_wire_version = 7, cv_protocol_version = 1, cv_deployment_domain = 5, cv_intended_provider = 9,
      cv_target = TargetRelationship \<lparr>sr_version = 1, sr_bytes = 2\<rparr>, cv_actor = ActRecipient 3,
      cv_operational_key = 6, cv_idempotency_key = 8,
      cv_command = IssueRequestTerms (NativeRoute 1) 1 4 2 (Some 77)\<rparr>"

lemma sample_envelope_ok: "command_ok (cv_command sample_envelope)"
  by (simp add: sample_envelope_def command_ok_def command_typed_def signature_fits_def route_ok_def)

definition unsigned_envelope :: command_envelope where
  "unsigned_envelope = sample_envelope\<lparr>cv_command := RecordPayment 3
     \<lparr>spe_evidence = \<lparr>pe_event_id = 4, pe_operation_id = 5, pe_operation_digest = 6, pe_outcome = OutSettled\<rparr>,
      spe_signature = []\<rparr>\<rparr>"

lemma envelope_roundtrip_witness:
  "(\<exists>bs. encode_envelope sample_codec sample_envelope = Ok bs \<and> decode_envelope sample_codec bs = Ok sample_envelope)
   \<and> (\<exists>bs. encode_envelope sample_codec unsigned_envelope = Ok bs \<and> decode_envelope sample_codec bs = Err WireUnexpectedShape)"
proof -
  have "command_typed (cv_command sample_envelope)" "signature_fits (cv_command sample_envelope)"
    using sample_envelope_ok by (simp_all add: command_ok_def)
  moreover have "command_typed (cv_command unsigned_envelope)" "\<not> signature_fits (cv_command unsigned_envelope)"
    by (simp_all add: unsigned_envelope_def command_typed_def signature_fits_def)
  ultimately show ?thesis
    using envelope_roundtrip [OF sample_codec_correct, of sample_envelope]
      envelope_roundtrip [OF sample_codec_correct, of unsigned_envelope] by auto
qed

lemma envelope_canonical_witness:
  "\<exists>bs. decode_envelope sample_codec bs = Ok sample_envelope
     \<and> (\<forall>bs'. decode_envelope sample_codec bs' = Ok sample_envelope \<longrightarrow> bs' = bs)"
proof -
  obtain bs where "encode_envelope sample_codec sample_envelope = Ok bs"
    using command_encodes [OF sample_codec_correct] sample_envelope_ok by (force simp: encode_envelope_def command_ok_def)
  note decoded = decode_of_encode [OF sample_codec_correct sample_envelope_ok this]
  from decoded envelope_canonical [OF decoded] show ?thesis by blast
qed

end
