(* ===== verification/Security_Samples.thy ===== *)
theory Security_Samples
  imports Signatures Wire_Samples
begin

text \<open>The properties of keys, signatures and recovery applied to concrete registries and messages.\<close>

section \<open>The registry\<close>

definition sample_registry :: key_registry where
  "sample_registry = fst (run_machine (registry_step sample_crypto) registry_default [RegisterKey 6 (ActRecipient 3) 99 0])"

definition sample_key :: key_record where
  "sample_key = \<lparr>ky_reference = 6, ky_actor = ActRecipient 3, ky_verifying_key = 99, ky_valid_from = 0,
     ky_status = KeyActive, ky_version = 0\<rparr>"

lemma sample_registry_keys:
  "kg_keys sample_registry = bt_insert 6 sample_key bt_empty" "kg_version sample_registry = 1"
  by (simp_all add: sample_registry_def registry_step_def registry_register_def registry_default_def sample_crypto_def
      next_key_version_def version_checked_next_def checked_add_def sample_key_def Let_def)

lemma sample_registry_has: "bt_get (kg_keys sample_registry) 6 = Some sample_key"
  by (simp add: sample_registry_keys)

theorem authority_only_shrinks_witness:
  "active_verifying_key (fst (run_machine (registry_step sample_crypto) sample_registry [RegisterKey 7 (ActSender 3) 98 1]))
       6 (ActRecipient 3) 5 = Ok 99
     \<and> active_verifying_key sample_registry 6 (ActRecipient 3) 5 = Ok 99"
proof -
  have later: "active_verifying_key (fst (run_machine (registry_step sample_crypto) sample_registry [RegisterKey 7 (ActSender 3) 98 1]))
       6 (ActRecipient 3) 5 = Ok 99"
    by (simp add: registry_step_def registry_register_def sample_registry_keys sample_crypto_def next_key_version_def
        version_checked_next_def checked_add_def active_verifying_key_Ok sample_key_def Let_def)
  have "bt_has (kg_keys sample_registry) 6" by (simp add: sample_registry_keys)
  from authority_only_shrinks [OF this] later show ?thesis by blast
qed

lemma sample_revocation:
  "registry_step sample_crypto sample_registry (RevokeKey 6 0 4)
     = Ok (\<lparr>kg_keys = bt_insert 6 (sample_key\<lparr>ky_status := KeyRevoked 4, ky_version := 1\<rparr>) (kg_keys sample_registry),
        kg_version = 2, kg_transparency = log_append sample_crypto (kg_transparency sample_registry)
          (sample_key\<lparr>ky_status := KeyRevoked 4, ky_version := 1\<rparr>) TrRevoked 4\<rparr>, ())"
  by (simp add: registry_step_def registry_revoke_def sample_registry_keys sample_key_def revoked_status_def
      next_key_version_def version_checked_next_def checked_add_def Let_def fail_if_def)


definition sample_log :: "operational_key_ref \<Rightarrow> transparency_log" where
  "sample_log k = log_append sample_crypto [] (sample_key\<lparr>ky_reference := k\<rparr>) TrRegistered 0"

text \<open>The sample hash reads the last byte only, so two different logs share a checkpoint: they collide.\<close>

theorem checkpoint_pins_log_witness: "sample_log 6 \<noteq> sample_log 7 \<and> logs_collide sample_crypto (sample_log 6) (sample_log 7)"
proof -
  have v: "log_verify sample_crypto (sample_log k)" for k
    by (simp add: sample_log_def) (simp add: log_verify_def)
  have "log_checkpoint (sample_log 6) = log_checkpoint (sample_log 7)"
    by (simp add: log_checkpoint_def sample_log_def log_append_def entry_preimage_def sample_crypto_def Let_def)
  moreover have "length (sample_log k) < 2 ^ 64" for k by (simp add: sample_log_def log_append_def Let_def)
  moreover have "sample_log 6 \<noteq> sample_log 7" by (simp add: sample_log_def log_append_def Let_def)
  ultimately show ?thesis using checkpoint_pins_log [OF v v] by blast
qed

section \<open>Commands\<close>

lemma sample_ed25519: "ed25519_correct sample_crypto"
  by (simp add: ed25519_correct_def sample_crypto_def)

definition sample_signer :: command_signer where
  "sample_signer = \<lparr>cs_actor = ActRecipient 3, cs_reference = 6, cs_signing_key = 99\<rparr>"

definition sample_signing_scope :: signing_scope where
  "sample_signing_scope = \<lparr>sg_deployment_domain = 5, sg_intended_provider = 9, sg_relationship = \<lparr>sr_version = 1, sr_bytes = 2\<rparr>\<rparr>"

lemma sample_signed:
  "bt_get (kg_keys sample_registry) (cs_reference sample_signer) = Some sample_key" "ky_actor sample_key = cs_actor sample_signer"
  "ky_verifying_key sample_key = cr_public_key sample_crypto (cs_signing_key sample_signer)"
  "ky_valid_from sample_key \<le> 20" "valid_at_receipt (ky_status sample_key) 20"
  by (simp_all add: sample_registry_has sample_signer_def sample_key_def sample_crypto_def)

theorem signed_command_verifies_witness:
  "\<exists>sealed vc. command_sign sample_crypto sample_codec sample_signer sample_signing_scope 1 8 (BlockRelationship 2) = Ok sealed
     \<and> registry_verify sample_crypto sample_codec sample_registry sealed 20 1 sample_signing_scope = Ok vc
     \<and> kc_command (vc_authorized vc) = BlockRelationship 2"
proof -
  have "command_ok (BlockRelationship 2)" by (simp add: command_ok_def command_typed_def signature_fits_def)
  from signed_command_verifies [OF sample_codec_correct sample_ed25519 this sample_signed, of sample_signing_scope 1 8]
  show ?thesis by auto
qed

definition sample_snapshot :: authority_snapshot where
  "sample_snapshot = \<lparr>au_relationship = registry_default,
     au_accounts = bt_insert 1 \<lparr>aa_personas = {|3|}, aa_registry = sample_registry\<rparr> bt_empty\<rparr>"

lemma sample_snapshot_built:
  "authority_new registry_default = Ok \<lparr>au_relationship = registry_default, au_accounts = bt_empty\<rparr>"
  "add_accounts \<lparr>au_relationship = registry_default, au_accounts = bt_empty\<rparr> [(1, \<lparr>aa_personas = {|3|}, aa_registry = sample_registry\<rparr>)]
     = Ok sample_snapshot"
proof -
  have "bt_values (kg_keys sample_registry) = [sample_key]"
    by (simp add: sample_registry_keys bt_values_def)
  then show "add_accounts \<lparr>au_relationship = registry_default, au_accounts = bt_empty\<rparr>
      [(1, \<lparr>aa_personas = {|3|}, aa_registry = sample_registry\<rparr>)] = Ok sample_snapshot"
    by (simp add: add_account_def sample_key_def registry_contains_def registry_default_def sample_snapshot_def fail_if_def)
  show "authority_new registry_default = Ok \<lparr>au_relationship = registry_default, au_accounts = bt_empty\<rparr>"
    by (simp add: authority_new_def registry_default_def fail_if_def)
qed

lemma sample_reachable: "reachable_registry sample_crypto sample_registry" "reachable_registry sample_crypto registry_default"
  unfolding reachable_registry_def sample_registry_def by (blast, intro exI [of _ "[]"]) simp

lemma sample_verified:
  "\<exists>sealed vc. authority_verify sample_crypto sample_codec sample_snapshot sealed 20 1 sample_signing_scope = Ok vc
     \<and> kc_actor (vc_authorized vc) = ActRecipient 3"
proof -
  obtain bs where bs: "encode_envelope sample_codec sample_envelope = Ok bs"
    using command_encodes [OF sample_codec_correct] sample_envelope_ok by (force simp: encode_envelope_def command_ok_def)
  note d = decode_of_encode [OF sample_codec_correct sample_envelope_ok bs]
  have r: "authority_registry sample_snapshot (ActRecipient 3) = Ok sample_registry"
    by (simp add: authority_registry_def actor_persona_def sample_snapshot_def bt_values_def)
  define sealed where "sealed = \<lparr>sb_payload = bs, sb_signature = [1]\<rparr>"
  obtain vc where "registry_verify sample_crypto sample_codec sample_registry sealed 20 1 sample_signing_scope = Ok vc"
      "kc_actor (vc_authorized vc) = ActRecipient 3"
    using d sample_registry_has
    by (simp add: registry_verify_Ok sealed_def sample_envelope_def sample_signing_scope_def sample_key_def sample_crypto_def)
  moreover from this have "authority_verify sample_crypto sample_codec sample_snapshot sealed 20 1 sample_signing_scope = Ok vc"
    using d r by (simp add: authority_verify_def sealed_def sample_envelope_def)
  ultimately show ?thesis by blast
qed

theorem verified_command_is_authorized_witness:
  "\<exists>sealed vc (key :: key_record). authority_verify sample_crypto sample_codec sample_snapshot sealed 20 1 sample_signing_scope = Ok vc
     \<and> ky_actor key = ActRecipient 3 \<and> cr_verify_strict sample_crypto (ky_verifying_key key) (sb_payload sealed) (sb_signature sealed)"
proof -
  obtain sealed vc where v: "authority_verify sample_crypto sample_codec sample_snapshot sealed 20 1 sample_signing_scope = Ok vc"
    "kc_actor (vc_authorized vc) = ActRecipient 3" using sample_verified by blast
  have reach: "\<forall>x\<in>set [(1 :: u128, \<lparr>aa_personas = {|3|}, aa_registry = sample_registry\<rparr>)]. reachable_registry sample_crypto (aa_registry (snd x))"
    by (simp add: sample_reachable)
  obtain key :: key_record where "ky_actor key = kc_actor (vc_authorized vc)"
    "cr_verify_strict sample_crypto (ky_verifying_key key) (sb_payload sealed) (sb_signature sealed)"
    using verified_command_is_authorized [OF sample_reachable(2) reach sample_snapshot_built v(1)] by (elim exE conjE) (rule that)
  then show ?thesis using v by (intro exI [of _ sealed] exI [of _ vc] exI [of _ key]) simp
qed

section \<open>Recovery, receipts and reads\<close>

definition sample_recovery :: recovery_policy where
  "sample_recovery = \<lparr>rp_actor = ActRecipient 3, rp_threshold = 2, rp_factors = {|1, 2, 3|}\<rparr>"

lemma sample_recovery_new:
  "recovery_new 5 sample_recovery = Ok \<lparr>rv_reference = 5, rv_policy = sample_recovery, rv_approvals = {||}, rv_consumed = False\<rparr>"
  by (simp add: recovery_new_def sample_recovery_def fcard.rep_eq fail_if_def)

theorem recovery_takes_threshold_witness:
  "\<exists>a. recovery_new 5 sample_recovery = Ok a
     \<and> recovered (snd (run_machine recovery_step a ([ApproveFactor 1, ConsumeRecovery, ApproveFactor 3] @ [ConsumeRecovery]))) = [ActRecipient 3]
     \<and> recovered (snd (run_machine recovery_step a ([ApproveFactor 1, ApproveFactor 1, ApproveFactor 9] @ [ConsumeRecovery]))) = []"
proof -
  have a: "approving sample_recovery [ApproveFactor 1, ConsumeRecovery, ApproveFactor 3] = {1, 3}"
    "approving sample_recovery [ApproveFactor 1, ApproveFactor 1, ApproveFactor 9] = {1}"
    by (auto simp: approving_def sample_recovery_def)
  note t = recovery_takes_threshold [OF sample_recovery_new]
  show ?thesis
    by (rule exI [of _ "\<lparr>rv_reference = 5, rv_policy = sample_recovery, rv_approvals = {||}, rv_consumed = False\<rparr>"],
        unfold t a, simp add: sample_recovery_new, simp add: sample_recovery_def)
qed

definition sample_receipt :: receipt_payload where
  "sample_receipt = \<lparr>rl_deployment_domain = 1, rl_receipt_id = 2, rl_kind = RkNoChange,
     rl_relationship = \<lparr>sr_version = 1, sr_bytes = 2\<rparr>, rl_command_digest = 3, rl_journal_position = 4, rl_received_at = 5,
     rl_outcome_digest = 6, rl_provider = 7, rl_protocol_version = 8\<rparr>"

theorem signatures_not_transferable_witness:
  "receipt_signing_bytes (sample_receipt\<lparr>rl_kind := RkRefused\<rparr>) \<noteq> receipt_signing_bytes sample_receipt"
proof
  assume "receipt_signing_bytes (sample_receipt\<lparr>rl_kind := RkRefused\<rparr>) = receipt_signing_bytes sample_receipt"
  then have "artifact_bytes (ArtReceipt (sample_receipt\<lparr>rl_kind := RkRefused\<rparr>)) = Some (receipt_signing_bytes sample_receipt)"
    "artifact_bytes (ArtReceipt sample_receipt) = Some (receipt_signing_bytes sample_receipt)"
    by (simp_all add: artifact_bytes_def)
  from signatures_not_transferable [OF this] show False by (simp add: sample_receipt_def)
qed

lemma sample_read:
  "\<exists>x. member_read_sign sample_crypto (\<lambda>_. Some []) \<lparr>rs_deployment_domain = 1, rs_provider = 2\<rparr> 3 6 1000000 ReadInbox 99 = Ok x"
  by (simp add: member_read_sign_def fail_if_def Let_def)

theorem member_read_is_fresh_witness:
  "\<exists>x. member_read_sign sample_crypto (\<lambda>_. Some []) \<lparr>rs_deployment_domain = 1, rs_provider = 2\<rparr> 3 6 1000000 ReadInbox 99 = Ok x
     \<and> member_read_verify sample_crypto (\<lambda>_. Some []) x 99 1300000 = Ok ()
     \<and> member_read_verify sample_crypto (\<lambda>_. Some []) x 99 1300001 = Err SecKeyNotValidAtReceipt"
proof -
  have key: "cr_public_key sample_crypto 99 = 99" by (simp add: sample_crypto_def)
  show ?thesis
    using sample_read member_read_is_fresh [OF sample_ed25519, where secret = 99, unfolded key] by fastforce
qed

end
