(* ===== verification/Accounts.thy ===== *)
theory Accounts
  imports Authority Payments
begin

text \<open>
  Product accounts: enrollment and the account record (\<open>crates/cs-mail-accounts/src/lib.rs\<close>), the
  lifecycle and its management commands (\<open>control.rs\<close>) and exclusive key claims (\<open>keys.rs\<close>).
  The lemmas show that an account keeps a persona and a manager, that closing is final, and that a
  command or a key is bound to its account by a signature.
\<close>

section \<open>Enrollment\<close>

datatype account_error = AcctInvalidInput

record enrollment_input =
  en_bank :: bank_verification
  en_persona :: protocol_identity
  en_actor :: actor_ref
  en_key_ref :: operational_key_ref
  en_initial_key :: bytes32
  en_maximum_unresolved :: u32

definition enrollment_conflicts_with :: "enrollment_input \<Rightarrow> enrollment_input \<Rightarrow> bool" where
  "enrollment_conflicts_with a b \<longleftrightarrow>
     bv_account (en_bank a) = bv_account (en_bank b) \<or> bv_member (en_bank a) = bv_member (en_bank b)
     \<or> en_persona a = en_persona b \<or> en_key_ref a = en_key_ref b"

definition enrollment_validate :: "enrollment_input \<Rightarrow> (unit, account_error) res" where
  "enrollment_validate e =
     fail_if (en_persona e = 0 \<or> en_key_ref e = 0 \<or> en_maximum_unresolved e = 0
        \<or> \<not> (case en_actor e of ActSender i \<Rightarrow> i = en_persona e | ActRecipient i \<Rightarrow> i = en_persona e | _ \<Rightarrow> False))
       AcctInvalidInput (Ok ())"

text \<open>The subject reference is a type of the identity service, which only hands it through.\<close>

record 'r identity_binding =
  ib_issuer :: string
  ib_product :: string
  ib_subject_ref :: 'r
  ib_version :: u64

definition binding_new :: "string \<Rightarrow> string \<Rightarrow> 'r \<Rightarrow> u64 \<Rightarrow> ('r identity_binding, account_error) res" where
  "binding_new issuer product subject v =
     fail_if (issuer = [] \<or> product = [] \<or> v \<noteq> 1) AcctInvalidInput
     (Ok \<lparr>ib_issuer = issuer, ib_product = product, ib_subject_ref = subject, ib_version = v\<rparr>)"

record 'r product_account =
  ac_id :: account_id
  ac_principal :: u128
  ac_billing :: billing_account_id
  ac_member :: member_id
  ac_binding :: "'r identity_binding"

definition account_new ::
  "account_id \<Rightarrow> u128 \<Rightarrow> enrollment_input \<Rightarrow> 'r identity_binding \<Rightarrow> ('r product_account, account_error) res" where
  "account_new i owner e b =
     and_then (enrollment_validate e) (\<lambda>_.
     fail_if (i = 0 \<or> owner = 0) AcctInvalidInput
     (Ok \<lparr>ac_id = i, ac_principal = owner, ac_billing = bv_account (en_bank e),
       ac_member = bv_member (en_bank e), ac_binding = b\<rparr>))"

section \<open>Lifecycle\<close>

datatype account_status = AccountActive | AccountSuspended | AccountClosed

record account_control =
  ak_status :: account_status
  ak_revision :: u64
  ak_personas :: "protocol_identity fset"
  ak_managers :: "operational_key_ref fset"

text \<open>\<open>TryFrom<StoredControl>\<close>: the validation that guards construction and deserialization.\<close>

definition control_load :: "account_control \<Rightarrow> (account_control, account_error) res" where
  "control_load k =
     fail_if (ak_personas k = {||} \<or> 0 |\<in>| ak_personas k \<or> ak_managers k = {||} \<or> 0 |\<in>| ak_managers k)
       AcctInvalidInput (Ok k)"

definition control_new :: "protocol_identity \<Rightarrow> operational_key_ref \<Rightarrow> (account_control, account_error) res" where
  "control_new persona manager =
     control_load \<lparr>ak_status = AccountActive, ak_revision = 0, ak_personas = {|persona|}, ak_managers = {|manager|}\<rparr>"

definition allows_service :: "account_control \<Rightarrow> bool" where
  "allows_service k \<longleftrightarrow> ak_status k = AccountActive"

definition apply_security_change ::
  "account_control \<Rightarrow> operational_key_ref option \<Rightarrow> (account_control, account_error) res" where
  "apply_security_change k replacement =
     fail_if (replacement = Some 0) AcctInvalidInput
     (and_then (ok_or (checked_add (ak_revision k) 1) AcctInvalidInput) (\<lambda>revision.
      Ok (k\<lparr>ak_revision := revision,
            ak_status := (if ak_status k \<noteq> AccountClosed then AccountSuspended else ak_status k),
            ak_managers := (case replacement of Some key \<Rightarrow> {|key|} | None \<Rightarrow> ak_managers k)\<rparr>)))"

record new_operational_key =
  nk_reference :: operational_key_ref
  nk_actor :: actor_ref
  nk_key :: bytes32
  nk_proof :: bytes

datatype account_command =
  RegisterOperationalKey new_operational_key | SetAccountStatus account_status
| AddPersona protocol_identity | GrantManager operational_key_ref | RevokeManager operational_key_ref

definition apply_account_command :: "account_control \<Rightarrow> account_command \<Rightarrow> (account_control, account_error) res" where
  "apply_account_command k command =
     fail_if (ak_status k = AccountClosed) AcctInvalidInput
     (and_then
       (case command of
          RegisterOperationalKey key \<Rightarrow>
            (if allows_service k \<and> nk_reference key \<noteq> 0
                \<and> (case nk_actor key of ActSender p \<Rightarrow> p |\<in>| ak_personas k | ActRecipient p \<Rightarrow> p |\<in>| ak_personas k | _ \<Rightarrow> False)
             then Ok k else Err AcctInvalidInput)
        | SetAccountStatus status \<Rightarrow> Ok (k\<lparr>ak_status := status\<rparr>)
        | AddPersona persona \<Rightarrow>
            (if allows_service k \<and> persona \<noteq> 0
             then fail_if (persona |\<in>| ak_personas k) AcctInvalidInput (Ok (k\<lparr>ak_personas := finsert persona (ak_personas k)\<rparr>))
             else Err AcctInvalidInput)
        | GrantManager key \<Rightarrow>
            (if allows_service k \<and> key \<noteq> 0
             then fail_if (key |\<in>| ak_managers k) AcctInvalidInput (Ok (k\<lparr>ak_managers := finsert key (ak_managers k)\<rparr>))
             else Err AcctInvalidInput)
        | RevokeManager key \<Rightarrow>
            (if fcard (ak_managers k) > 1
             then fail_if (key |\<notin>| ak_managers k) AcctInvalidInput (Ok (k\<lparr>ak_managers := ak_managers k |-| {|key|}\<rparr>))
             else Err AcctInvalidInput))
       (\<lambda>next.
      and_then (ok_or (checked_add (ak_revision k) 1) AcctInvalidInput) (\<lambda>revision.
      Ok (next\<lparr>ak_revision := revision\<rparr>))))"

section \<open>Signed commands and possession proofs\<close>

record signed_account_command =
  sa_account :: account_id
  sa_operational_key :: operational_key_ref
  sa_expected_revision :: u64
  sa_idempotency_key :: idempotency_key
  sa_product :: string
  sa_command :: account_command
  sa_signature :: bytes

text \<open>
  The tuples whose JSON text is signed; \<open>json\<close> is \<open>serde_json::to_vec\<close> on them and can fail.
\<close>

type_synonym account_command_text =
  "string \<times> account_id \<times> operational_key_ref \<times> u64 \<times> idempotency_key \<times> string \<times> account_command"
type_synonym possession_text = "string \<times> account_id \<times> string \<times> operational_key_ref \<times> actor_ref \<times> bytes32"

definition account_command_bytes ::
  "(account_command_text \<Rightarrow> bytes option) \<Rightarrow> signed_account_command \<Rightarrow> (bytes, account_error) res" where
  "account_command_bytes json x =
     fail_if (sa_product x = [] \<or> sa_account x = 0) AcctInvalidInput
     (ok_or (json (''cs-mail/product-account-command/v1'', sa_account x, sa_operational_key x, sa_expected_revision x,
        sa_idempotency_key x, sa_product x, sa_command x)) AcctInvalidInput)"

definition account_command_sign ::
  "crypto \<Rightarrow> (account_command_text \<Rightarrow> bytes option) \<Rightarrow> signed_account_command \<Rightarrow> bytes32
     \<Rightarrow> (signed_account_command, account_error) res" where
  "account_command_sign c json x secret =
     and_then (account_command_bytes json x) (\<lambda>bs. Ok (x\<lparr>sa_signature := cr_sign c secret bs\<rparr>))"

definition account_command_verify ::
  "crypto \<Rightarrow> (account_command_text \<Rightarrow> bytes option) \<Rightarrow> signed_account_command \<Rightarrow> bytes32 \<Rightarrow> (unit, account_error) res" where
  "account_command_verify c json x key =
     fail_if (\<not> cr_key_parses c key) AcctInvalidInput
     (and_then (account_command_bytes json x) (\<lambda>bs.
      fail_if (\<not> cr_signature_parses c (sa_signature x)) AcctInvalidInput
      (fail_if (\<not> cr_verify_strict c key bs (sa_signature x)) AcctInvalidInput (Ok ()))))"

definition possession_bytes ::
  "(possession_text \<Rightarrow> bytes option) \<Rightarrow> new_operational_key \<Rightarrow> account_id \<Rightarrow> string \<Rightarrow> (bytes, account_error) res" where
  "possession_bytes json k account product =
     ok_or (json (''cs-mail/account-key-possession/v1'', account, product, nk_reference k, nk_actor k, nk_key k)) AcctInvalidInput"

definition possession_prove ::
  "crypto \<Rightarrow> (possession_text \<Rightarrow> bytes option) \<Rightarrow> account_id \<Rightarrow> string \<Rightarrow> operational_key_ref \<Rightarrow> actor_ref \<Rightarrow> bytes32
     \<Rightarrow> (new_operational_key, account_error) res" where
  "possession_prove c json account product reference actor secret =
     (let k = \<lparr>nk_reference = reference, nk_actor = actor, nk_key = cr_public_key c secret, nk_proof = []\<rparr> in
      and_then (possession_bytes json k account product) (\<lambda>bs. Ok (k\<lparr>nk_proof := cr_sign c secret bs\<rparr>)))"

definition possession_verify ::
  "crypto \<Rightarrow> (possession_text \<Rightarrow> bytes option) \<Rightarrow> new_operational_key \<Rightarrow> account_id \<Rightarrow> string
     \<Rightarrow> (unit, account_error) res" where
  "possession_verify c json k account product =
     fail_if (\<not> cr_key_parses c (nk_key k)) AcctInvalidInput
     (and_then (possession_bytes json k account product) (\<lambda>bs.
      fail_if (\<not> cr_signature_parses c (nk_proof k)) AcctInvalidInput
      (fail_if (\<not> cr_verify_strict c (nk_key k) bs (nk_proof k)) AcctInvalidInput (Ok ()))))"

section \<open>Exclusive key claims\<close>

datatype key_authority_owner = OwnerAccount account_id | OwnerProvider provider_ref | OwnerScheduler provider_ref

datatype key_claim =
  ClaimReserved (claim_enrollment: string) (claim_intended_owner: account_id) (claim_actor: actor_ref) (claim_key: bytes32)
| ClaimAssigned (claim_owner: key_authority_owner) (claim_actor: actor_ref) (claim_key: bytes32)

definition claim_activate :: "key_claim \<Rightarrow> string \<Rightarrow> account_id \<Rightarrow> (key_claim, account_error) res" where
  "claim_activate claim enrollment account =
     (case claim of
        ClaimReserved expected intended actor key \<Rightarrow>
          (if expected = enrollment \<and> intended = account then Ok (ClaimAssigned (OwnerAccount account) actor key)
           else Err AcctInvalidInput)
      | ClaimAssigned _ _ _ \<Rightarrow> Err AcctInvalidInput)"

section \<open>Properties\<close>

datatype account_call = AccountCommand account_command | SecurityChange "operational_key_ref option"

definition account_step :: "account_control \<Rightarrow> account_call \<Rightarrow> (account_control \<times> unit, account_error) res" where
  "account_step k call =
     and_then (case call of AccountCommand command \<Rightarrow> apply_account_command k command
         | SecurityChange replacement \<Rightarrow> apply_security_change k replacement)
     (\<lambda>k'. Ok (k', ()))"

definition control_valid :: "account_control \<Rightarrow> bool" where
  "control_valid k \<longleftrightarrow> ak_personas k \<noteq> {||} \<and> 0 |\<notin>| ak_personas k \<and> ak_managers k \<noteq> {||} \<and> 0 |\<notin>| ak_managers k"

lemma control_load_Ok [simp]: "control_load k = Ok k' \<longleftrightarrow> control_valid k \<and> k' = k"
  by (auto simp: control_load_def control_valid_def)

lemma fcard_without_one: "Suc 0 < fcard S \<Longrightarrow> \<not> S |\<subseteq>| {|x|}"
  using fcard_mono [of S "{|x|}"] by (auto simp: fcard.rep_eq)

lemma account_step_cases:
  assumes "account_step k call = Ok (k', u)"
  obtains (command) command revision where "call = AccountCommand command" "ak_status k \<noteq> AccountClosed"
      "checked_add (ak_revision k) 1 = Some revision" "apply_account_command k command = Ok k'" "ak_revision k' = revision"
  | (security) replacement revision where "call = SecurityChange replacement" "replacement \<noteq> Some 0"
      "checked_add (ak_revision k) 1 = Some revision"
      "k' = k\<lparr>ak_revision := revision,
            ak_status := (if ak_status k \<noteq> AccountClosed then AccountSuspended else ak_status k),
            ak_managers := (case replacement of Some key \<Rightarrow> {|key|} | None \<Rightarrow> ak_managers k)\<rparr>"
  using assms
  by (cases call) (auto simp: account_step_def apply_account_command_def apply_security_change_def)

lemma account_step_valid:
  assumes "control_valid k" and "account_step k call = Ok (k', u)" shows "control_valid k'"
  using assms(2)
proof (cases rule: account_step_cases)
  case (command command revision)
  show ?thesis
    using command(4) assms(1)
    by (cases command)
      (auto simp: apply_account_command_def control_valid_def fcard_without_one split: if_splits)
next
  case (security replacement revision)
  then show ?thesis using assms(1) by (auto simp: control_valid_def split: option.splits)
qed

text \<open>What every step keeps of the account it starts from: personas stay, a closed account stays closed.\<close>

definition follows_on :: "account_control \<Rightarrow> account_control \<Rightarrow> bool" where
  "follows_on k k' \<longleftrightarrow> control_valid k' \<and> ak_personas k |\<subseteq>| ak_personas k' \<and> ak_revision k \<le> ak_revision k'
     \<and> (ak_status k = AccountClosed \<longrightarrow> ak_status k' = AccountClosed \<and> ak_personas k' = ak_personas k)"

lemma account_step_follows:
  assumes "follows_on k0 k" and "account_step k call = Ok (k', u)" shows "follows_on k0 k'"
proof -
  have valid: "control_valid k'" using assms account_step_valid by (auto simp: follows_on_def)
  have le: "r \<le> r'" if "checked_add r (1 :: u64) = Some r'" for r r'
    using that by (auto simp: checked_add_def word_le_nat_alt unat_add_lem [THEN iffD1] split: if_splits)
  show ?thesis using assms(2)
  proof (cases rule: account_step_cases)
    case (command command revision)
    have "ak_personas k |\<subseteq>| ak_personas k'"
      using command(4) by (cases command) (auto simp: apply_account_command_def split: if_splits)
    moreover have "ak_status k0 \<noteq> AccountClosed" using assms(1) command(2) by (auto simp: follows_on_def)
    ultimately show ?thesis using assms(1) valid le [OF command(3)] command(5) by (auto simp: follows_on_def)
  next
    case (security replacement revision)
    then show ?thesis using assms(1) valid le [OF security(3)] by (auto simp: follows_on_def)
  qed
qed

interpretation account_machine: invariant_machine account_step "follows_on k0" for k0
  by unfold_locales (rule account_step_follows)

text \<open>
  C35: An account keeps an identity and a manager, and closing it is final.  After any management
  commands and security changes, accepted or refused, a valid account passes the validation of its
  stored form, still holds every persona it had, and never goes back in revision; a closed account
  stays closed with the same personas, and refuses every command.
\<close>

theorem account_lifecycle:
  assumes "control_load k = Ok k"
  shows "control_load (fst (run_machine account_step k calls)) = Ok (fst (run_machine account_step k calls))
     \<and> ak_personas k |\<subseteq>| ak_personas (fst (run_machine account_step k calls))
     \<and> ak_revision k \<le> ak_revision (fst (run_machine account_step k calls))
     \<and> (ak_status k = AccountClosed \<longrightarrow>
          ak_status (fst (run_machine account_step k calls)) = AccountClosed
          \<and> ak_personas (fst (run_machine account_step k calls)) = ak_personas k
          \<and> apply_account_command (fst (run_machine account_step k calls)) command = Err AcctInvalidInput)"
proof -
  have "follows_on k (fst (run_machine account_step k calls))"
    by (rule account_machine.run_inv [OF _ prod.collapse [symmetric]]) (use assms in \<open>simp add: follows_on_def\<close>)
  then show ?thesis by (auto simp: follows_on_def apply_account_command_def)
qed

text \<open>Nothing widens a suspended account until it is made active again.\<close>

definition frozen :: "account_control \<Rightarrow> account_control \<Rightarrow> bool" where
  "frozen k k' \<longleftrightarrow> ak_status k' \<noteq> AccountActive \<and> ak_personas k' = ak_personas k"

lemma suspended_command:
  assumes "apply_account_command k command = Ok k'" and "\<not> allows_service k" and "command \<noteq> SetAccountStatus AccountActive"
  shows "ak_status k' \<noteq> AccountActive" and "ak_personas k' = ak_personas k"
proof -
  have "(\<exists>x r. command = SetAccountStatus x \<and> k' = k\<lparr>ak_status := x, ak_revision := r\<rparr>)
      \<or> (\<exists>m r. k' = k\<lparr>ak_managers := m, ak_revision := r\<rparr>)"
    using assms(1,2) by (cases command) (simp_all add: apply_account_command_def split: if_splits, blast+)
  then show "ak_status k' \<noteq> AccountActive" "ak_personas k' = ak_personas k"
    using assms(2,3) by (auto simp: allows_service_def)
qed

lemma account_step_frozen:
  assumes "frozen k0 k" and "account_step k call = Ok (k', u)" and "call \<noteq> AccountCommand (SetAccountStatus AccountActive)"
  shows "frozen k0 k'"
  using assms(2)
proof (cases rule: account_step_cases)
  case (command command revision)
  have "command \<noteq> SetAccountStatus AccountActive" using assms(3) command(1) by auto
  moreover have "\<not> allows_service k" using assms(1) by (simp add: frozen_def allows_service_def)
  ultimately have "ak_status k' \<noteq> AccountActive \<and> ak_personas k' = ak_personas k0"
    using suspended_command [OF command(4)] assms(1) by (simp add: frozen_def)
  then show ?thesis by (simp add: frozen_def)
next
  case (security replacement revision)
  then show ?thesis using assms(1) by (auto simp: frozen_def split: if_splits)
qed

lemma account_run_frozen:
  "frozen k0 k \<Longrightarrow> AccountCommand (SetAccountStatus AccountActive) \<notin> set calls \<Longrightarrow> frozen k0 (fst (run_machine account_step k calls))"
proof (induction calls arbitrary: k)
  case (Cons x calls)
  show ?case
  proof (cases "account_step k x")
    case (Ok r)
    obtain k' u where r: "r = (k', u)" by (cases r)
    have "x \<noteq> AccountCommand (SetAccountStatus AccountActive)" using Cons.prems(2) by auto
    then have "frozen k0 k'" using account_step_frozen [OF Cons.prems(1)] Ok r by simp
    then show ?thesis using Ok r Cons by (simp add: case_prod_beta)
  qed (use Cons in auto)
qed simp

text \<open>
  A security change freezes the account.  Whatever it was, after a security change and any
  later calls that do not set the account active, no service is allowed and no persona was added;
  with a replacement manager the earlier managers are gone.
\<close>

theorem security_change_freezes:
  assumes "apply_security_change k replacement = Ok k'" and "AccountCommand (SetAccountStatus AccountActive) \<notin> set calls"
  shows "\<not> allows_service (fst (run_machine account_step k' calls))
     \<and> ak_personas (fst (run_machine account_step k' calls)) = ak_personas k
     \<and> (\<forall>key. replacement = Some key \<longrightarrow> ak_managers k' = {|key|})"
proof -
  have "frozen k k'" and m: "\<forall>key. replacement = Some key \<longrightarrow> ak_managers k' = {|key|}"
    using assms(1) by (auto simp: apply_security_change_def frozen_def split: if_splits)
  from account_run_frozen [OF this(1) assms(2)] m show ?thesis by (auto simp: frozen_def allows_service_def)
qed

text \<open>
  A command and a key are bound to their account.  What a manager signs verifies under its
  key, the proof a new key makes of its possession verifies for its account and product, and both
  do so whatever else the record's signature field held before.
\<close>

theorem account_signatures_verify:
  assumes "ed25519_correct c"
  shows "(account_command_sign c json x secret = Ok y \<longrightarrow> account_command_verify c json y (cr_public_key c secret) = Ok ()
        \<and> sa_command y = sa_command x \<and> sa_account y = sa_account x)
     \<and> (possession_prove c json' account product reference actor secret = Ok k \<longrightarrow> possession_verify c json' k account product = Ok ())"
  using assms
  by (auto simp: account_command_sign_def account_command_verify_def account_command_bytes_def possession_prove_def
      possession_verify_def possession_bytes_def ed25519_correct_def Let_def)

end
