(* ===== verification/Directory.thy ===== *)
theory Directory
  imports Wire
begin

text \<open>
  Addresses and the public directory (\<open>crates/cs-mail-accounts/src/directory.rs\<close>) over the UTF-8
  text functions of the Rust standard library the source uses.  The lemmas show that an address is
  in normal form, and that the entry of an address never changes its owner, alias or mailbox.
\<close>

section \<open>UTF-8 text\<close>

text \<open>Text is the UTF-8 bytes of a Rust string.  Leading and trailing Unicode white space is trimmed.\<close>

fun trim_start :: "bytes \<Rightarrow> bytes" where
  "trim_start [] = []"
| "trim_start (a # xs) =
     (if a \<in> {9, 10, 11, 12, 13, 32} then trim_start xs
      else (case xs of
        [] \<Rightarrow> a # xs
      | b # ys \<Rightarrow>
          if a = 0xC2 \<and> b \<in> {0x85, 0xA0} then trim_start ys
          else (case ys of
            [] \<Rightarrow> a # xs
          | c # zs \<Rightarrow>
              if blank_bytes [unat a, unat b, unat c] then trim_start zs else a # xs)))"

primrec trim_end :: "bytes \<Rightarrow> bytes" where
  "trim_end [] = []"
| "trim_end (a # xs) = (if blank_bytes (map unat (a # xs)) then [] else a # trim_end xs)"

definition trim :: "bytes \<Rightarrow> bytes" where
  "trim s = trim_end (trim_start s)"

text \<open>\<open>chars().count()\<close>: the bytes that start a character.\<close>

definition char_count :: "bytes \<Rightarrow> nat" where
  "char_count s = length (filter (\<lambda>b. \<not> (0x80 \<le> b \<and> b < 0xC0)) s)"

text \<open>\<open>chars().any(char::is_control)\<close>, other than the bytes excepted.\<close>

fun has_control :: "u8 set \<Rightarrow> bytes \<Rightarrow> bool" where
  "has_control except [] = False"
| "has_control except (a # xs) =
     ((a < 32 \<or> a = 127) \<and> a \<notin> except
      \<or> a = 0xC2 \<and> (case xs of b # _ \<Rightarrow> 0x80 \<le> b \<and> b \<le> 0x9F | [] \<Rightarrow> False)
      \<or> has_control except xs)"

primrec split_once :: "u8 \<Rightarrow> bytes \<Rightarrow> (bytes \<times> bytes) option" where
  "split_once x [] = None"
| "split_once x (a # xs) = (if a = x then Some ([], xs) else map_option (\<lambda>(l, r). (a # l, r)) (split_once x xs))"

fun double_dot :: "bytes \<Rightarrow> bool" where
  "double_dot (a # b # xs) = (a = 46 \<and> b = 46 \<or> double_dot (b # xs))"
| "double_dot _ = False"

section \<open>Member addresses\<close>

datatype directory_error = DirInvalidInput

record member_address =
  ma_value :: bytes
  ma_domain :: bytes

definition local_byte :: "u8 \<Rightarrow> bool" where
  "local_byte b \<longleftrightarrow> domain_byte b \<or> b = 46"

definition address_parse :: "bytes \<Rightarrow> (member_address, directory_error) res" where
  "address_parse input =
     (let value = map ascii_lower (trim input) in
      and_then (ok_or (split_once 64 value) DirInvalidInput) (\<lambda>(local_part, domain).
      fail_if (local_part = [] \<or> length local_part > 64 \<or> length domain > 253
         \<or> \<not> list_all local_byte local_part
         \<or> hd local_part = 46 \<or> last local_part = 46 \<or> double_dot local_part
         \<or> take 7 local_part = str_bytes ''member-''
         \<or> length (split_dots domain) < 2
         \<or> list_ex (\<lambda>l. \<not> valid_label l) (split_dots domain)) DirInvalidInput
      (Ok \<lparr>ma_value = value, ma_domain = domain\<rparr>)))"

section \<open>Profiles, entries and queries\<close>

datatype discovery_visibility = Listed | Unlisted

text \<open>A PNG upload: its header must announce at most 512 by 512 pixels.\<close>

definition image_parse :: "bytes \<Rightarrow> (bytes, directory_error) res" where
  "image_parse bs =
     fail_if (length bs < 33 \<or> length bs > 262144
        \<or> take 8 bs \<noteq> [0x89, 0x50, 0x4E, 0x47, 0x0D, 0x0A, 0x1A, 0x0A]
        \<or> take 4 (drop 12 bs) \<noteq> str_bytes ''IHDR'' \<or> take 4 (drop 8 bs) \<noteq> be_bytes 4 (13 :: u32)) DirInvalidInput
     (fail_if (\<not> (1 \<le> be_nat (take 4 (drop 16 bs)) \<and> be_nat (take 4 (drop 16 bs)) \<le> 512)
        \<or> \<not> (1 \<le> be_nat (take 4 (drop 20 bs)) \<and> be_nat (take 4 (drop 20 bs)) \<le> 512)) DirInvalidInput
     (Ok bs))"

record public_profile =
  pf_display_name :: bytes
  pf_description :: bytes
  pf_image :: "bytes option"

definition profile_new :: "bytes \<Rightarrow> bytes \<Rightarrow> bytes option \<Rightarrow> (public_profile, directory_error) res" where
  "profile_new name description picture =
     fail_if (trim name = [] \<or> length name > 160 \<or> length description > 2048
        \<or> has_control {} name \<or> has_control {10, 9} description) DirInvalidInput
     (Ok \<lparr>pf_display_name = name, pf_description = description, pf_image = picture\<rparr>)"

record directory_entry =
  de_alias :: alias_id
  de_address :: protocol_identity
  de_mailbox :: "member_address option"
  de_revision :: u64
  de_profile :: public_profile
  de_visibility :: discovery_visibility

definition entry_load :: "directory_entry \<Rightarrow> (directory_entry, directory_error) res" where
  "entry_load e = fail_if (de_address e = 0 \<or> de_revision e = 0) DirInvalidInput (Ok e)"

definition entry_replace ::
  "directory_entry option \<Rightarrow> protocol_identity \<Rightarrow> alias_id \<Rightarrow> u64 \<Rightarrow> public_profile \<Rightarrow> discovery_visibility
     \<Rightarrow> member_address option \<Rightarrow> (directory_entry, directory_error) res" where
  "entry_replace current address alias_value expected profile visibility mailbox =
     fail_if ((case current of Some e \<Rightarrow> de_revision e | None \<Rightarrow> 0) \<noteq> expected
        \<or> (case current of Some e \<Rightarrow> de_address e \<noteq> address \<or> de_alias e \<noteq> alias_value | None \<Rightarrow> False)
        \<or> (case Option.bind current de_mailbox of Some old \<Rightarrow> Some old \<noteq> mailbox | None \<Rightarrow> False)) DirInvalidInput
     (and_then (ok_or (checked_add expected 1) DirInvalidInput) (\<lambda>revision.
      entry_load \<lparr>de_alias = alias_value, de_address = address, de_mailbox = mailbox, de_revision = revision,
        de_profile = profile, de_visibility = visibility\<rparr>))"

record directory_query =
  dq_text :: bytes
  dq_offset :: u32

definition query_new :: "bytes \<Rightarrow> u32 \<Rightarrow> (directory_query, directory_error) res" where
  "query_new text_value offset_value =
     fail_if (length text_value > 160 \<or> has_control {} text_value \<or> offset_value > 10000) DirInvalidInput
     (Ok \<lparr>dq_text = text_value, dq_offset = offset_value\<rparr>)"

definition query_text :: "directory_query \<Rightarrow> bytes" where
  "query_text q = trim (dq_text q)"

section \<open>Addresses are in normal form\<close>

lemma split_once_Some: "split_once x s = Some (l, r) \<longleftrightarrow> s = l @ x # r \<and> x \<notin> set l"
proof (induction s arbitrary: l)
  case (Cons a s)
  then show ?case by (cases l) auto
qed simp

lemma split_dots_bytes: "b \<in> set s \<Longrightarrow> b = 46 \<or> (\<exists>l\<in>set (split_dots s). b \<in> set l)"
proof (induction s)
  case (Cons a s)
  then show ?case by (auto split: list.splits)
qed simp

text \<open>The bytes of an address: no white space, nothing a second normalization would touch.\<close>

definition address_byte :: "u8 \<Rightarrow> bool" where
  "address_byte b \<longleftrightarrow> (97 \<le> b \<and> b \<le> 122) \<or> (48 \<le> b \<and> b \<le> 57) \<or> b = 45 \<or> b = 46 \<or> b = 64"

lemma lower_address_byte: "local_byte (ascii_lower b) \<Longrightarrow> address_byte (ascii_lower b)"
  unfolding local_byte_def address_byte_def domain_byte_def ascii_lower_def
  by (auto simp: word_le_nat_alt unat_word_ariths split: if_splits)

lemma address_byte_lower: "address_byte b \<Longrightarrow> ascii_lower b = b"
  by (auto simp: address_byte_def ascii_lower_def word_le_nat_alt)

lemma address_byte_solid: "address_byte a \<Longrightarrow> \<not> blank_bytes (map unat (a # (xs :: bytes)))"
proof -
  assume "address_byte a"
  then have "unat a \<notin> {9, 10, 11, 12, 13, 32, 0xC2, 0xE1, 0xE2, 0xE3}"
    by (auto simp: address_byte_def word_le_nat_alt)
  then show ?thesis by (auto split: list.splits)
qed

lemma trim_address:
  assumes "list_all address_byte s" shows "trim s = s"
proof -
  have "trim_end s = s" using assms
    by (induction s) (simp_all add: address_byte_solid del: blank_bytes.simps list.map)
  moreover have "trim_start s = s"
  proof (cases s)
    case (Cons a xs)
    then have "address_byte a" using assms by simp
    then have "a \<notin> {9, 10, 11, 12, 13, 32}" "a \<noteq> 0xC2" "\<not> blank_bytes [unat a, unat b, unat c]" for b c :: u8
      using address_byte_solid [of a "[b, c]"] by (auto simp: address_byte_def word_le_nat_alt)
    then show ?thesis by (auto simp: Cons split: list.splits)
  qed simp
  ultimately show ?thesis by (simp add: trim_def)
qed

lemma address_parse_Ok:
  "address_parse s = Ok a \<longleftrightarrow>
     (\<exists>local_part. ma_value a = map ascii_lower (trim s) \<and> ma_value a = local_part @ 64 # ma_domain a
        \<and> local_part \<noteq> [] \<and> length local_part \<le> 64 \<and> length (ma_domain a) \<le> 253
        \<and> list_all local_byte local_part \<and> hd local_part \<noteq> 46 \<and> last local_part \<noteq> 46 \<and> \<not> double_dot local_part
        \<and> take 7 local_part \<noteq> str_bytes ''member-'' \<and> 2 \<le> length (split_dots (ma_domain a))
        \<and> list_all valid_label (split_dots (ma_domain a)))"
proof -
  have at: "64 \<notin> set l" if "list_all local_byte l" for l
    using that by (auto simp: list_all_iff local_byte_def domain_byte_def word_le_nat_alt)
  show ?thesis
    by (cases a) (auto simp: address_parse_def Let_def split_once_Some not_less list_ex_iff list_all_iff dest: at [unfolded list_all_iff])
qed

text \<open>
  An address is its own normal form.  What parses consists of a mailbox name, an at sign and a
  domain of at least two labels, in lower case without white space, and its text parses again to
  the same address: comparing the stored text compares mailboxes.
\<close>

theorem address_normal_form:
  assumes "address_parse s = Ok a"
  shows "address_parse (ma_value a) = Ok a \<and> list_all address_byte (ma_value a)
     \<and> (\<exists>l. l \<noteq> [] \<and> ma_value a = l @ 64 # ma_domain a) \<and> 2 \<le> length (split_dots (ma_domain a))"
proof -
  obtain l where rest: "l \<noteq> []" "2 \<le> length (split_dots (ma_domain a))" and l: "ma_value a = map ascii_lower (trim s)" "ma_value a = l @ 64 # ma_domain a"
    "list_all local_byte l" "list_all valid_label (split_dots (ma_domain a))"
    using assms unfolding address_parse_Ok by blast
  have "local_byte b" if "b \<in> set (ma_domain a)" for b
    using split_dots_bytes [OF that] l(4) by (auto simp: list_all_iff valid_label_def local_byte_def)
  then have bytes: "local_byte b \<or> b = 64" if "b \<in> set (ma_value a)" for b
    using that l(2,3) by (auto simp: list_all_iff)
  have all: "list_all address_byte (ma_value a)"
    unfolding list_all_iff
  proof
    fix b assume b: "b \<in> set (ma_value a)"
    then obtain x where "b = ascii_lower x" using l(1) by auto
    then show "address_byte b" using bytes [OF b] lower_address_byte by (auto simp: address_byte_def)
  qed
  have normal: "map ascii_lower (trim (ma_value a)) = ma_value a"
    using all by (simp add: trim_address map_idI address_byte_lower list_all_iff)
  have "address_parse (ma_value a) = Ok a"
    using assms unfolding address_parse_Ok normal by blast
  then show ?thesis using all rest l(2) by blast
qed

section \<open>Entries\<close>

inductive replaces :: "directory_entry \<Rightarrow> nat \<Rightarrow> directory_entry \<Rightarrow> bool" where
  same: "replaces e 0 e"
| step: "replaces e n d \<Longrightarrow> entry_replace (Some d) address alias_value expected profile visibility mailbox = Ok d'
    \<Longrightarrow> replaces e (Suc n) d'"

text \<open>
  A directory entry never changes hands.  A replacement is accepted only at the current
  revision and for the same owner and alias, keeps a mailbox once there is one, and gives the next
  revision: along any chain of replacements the revision counts them and the owner, the alias and
  the first mailbox stand.
\<close>

theorem entry_keeps_owner:
  assumes "replaces e n d"
  shows "de_address d = de_address e \<and> de_alias d = de_alias e \<and> unat (de_revision d) = unat (de_revision e) + n
     \<and> (\<forall>m. de_mailbox e = Some m \<longrightarrow> de_mailbox d = Some m)"
  using assms
proof (induction rule: replaces.induct)
  case (step e n d address alias_value expected profile visibility mailbox d')
  then have "de_address d' = de_address d \<and> de_alias d' = de_alias d
      \<and> unat (de_revision d') = unat (de_revision d) + 1 \<and> (\<forall>m. de_mailbox d = Some m \<longrightarrow> de_mailbox d' = Some m)"
    by (auto simp: entry_replace_def entry_load_def checked_add_def unat_add_lem [THEN iffD1] split: option.splits if_splits)
  then show ?case using step.IH by simp
qed simp

end
