(* ===== verification/Revisions.thy ===== *)
theory Revisions
  imports Prelude
begin

text \<open>
  The interface of a record that is changed under optimistic concurrency: a command names the
  revision it was computed from, is refused at any other, and spends it.  The laws say what one
  accepted command does; the lemmas say what any sequence of commands does.
\<close>

locale versioned_machine = stored_machine step inv restore
  for step :: "'s \<Rightarrow> 'c \<Rightarrow> ('s \<times> u64 option, 'e) res" and inv :: "'s \<Rightarrow> bool"
    and restore :: "'s \<Rightarrow> ('s, 'f) res" +
  fixes revision :: "'s \<Rightarrow> u64" and changed :: "'s \<Rightarrow> u64" and kept :: "'s \<Rightarrow> 'k"
  assumes step_spends: "step s c = Ok (s', Some r) \<Longrightarrow> r = revision s \<and> unat (revision s') = unat r + 1"
    and step_free: "step s c = Ok (s', None) \<Longrightarrow> revision s' = revision s"
    and step_changed: "step s c = Ok (s', out) \<Longrightarrow> changed s \<le> changed s'"
    and step_kept: "step s c = Ok (s', out) \<Longrightarrow> kept s' = kept s"
begin

lemma run_serial:
  "run_machine step s cs = (t, outs) \<Longrightarrow>
     unat (revision s) \<le> unat (revision t)
     \<and> [unat r. Some r \<leftarrow> outs] = [unat (revision s)..<unat (revision t)]
     \<and> changed s \<le> changed t \<and> kept t = kept s"
proof (induction cs arbitrary: s outs)
  case (Cons c cs)
  show ?case
  proof (cases "step s c")
    case (Ok r)
    obtain q out where q: "step s c = Ok (q, out)" using Ok by (cases r) simp
    obtain outs' where run: "run_machine step q cs = (t, outs')" and outs: "outs = out # outs'"
      using Cons.prems q by (auto split: prod.splits)
    have "changed s \<le> changed t" "kept t = kept s"
      using Cons.IH [OF run] step_changed [OF q] step_kept [OF q] by auto
    moreover have "unat (revision s) \<le> unat (revision t)
        \<and> [unat r. Some r \<leftarrow> outs] = [unat (revision s)..<unat (revision t)]"
      using Cons.IH [OF run] step_spends [of s c q] step_free [of s c q] q outs
      by (cases out) (auto simp: upt_conv_Cons)
    ultimately show ?thesis by blast
  qed (use Cons in auto)
qed simp

lemma run_serial_restored:
  assumes "inv s" and "run_machine step s cs = (t, outs)"
  shows "[unat r. Some r \<leftarrow> outs] = [unat (revision s)..<unat (revision t)]
     \<and> changed s \<le> changed t \<and> kept t = kept s \<and> restore t = Ok t"
  using run_serial [OF assms(2)] run_restores [OF assms(1), of cs] assms(2) by simp

end

end
