(* ===== verification/Receiving.thy ===== *)
theory Receiving
  imports Capabilities Btree Revisions
begin

text \<open>
  Receiving authority: the scopes and grants of \<open>crates/cs-mail-capabilities/src/routes.rs\<close> and
  the permission of an alias (\<open>crates/cs-mail-accounts/src/alias_permission.rs\<close>), with the error
  type and the admitted conversations of \<open>aliases.rs\<close>.  The lemmas show that a permission
  stays valid, that its revisions serialize the changes, and that restricting and consuming never widen it.
\<close>

section \<open>Scopes and grants\<close>

type_synonym conversation_id = u128

datatype alias_error =
  AliasInvalid | AliasConflict | AliasAddressTaken | AliasRetired | AliasRestricted
| AliasBlocked | AliasCoverage | AliasAuthentication | AliasPermission

type_synonym receiving_scope = "alias_id fset"

definition scope_one :: "alias_id \<Rightarrow> receiving_scope" where
  "scope_one a = {|a|}"

definition scope_selected :: "alias_id fset \<Rightarrow> (receiving_scope, capability_error) res" where
  "scope_selected s = fail_if (s = {||}) CapInvalidGrant (Ok s)"

definition scope_contains :: "receiving_scope \<Rightarrow> alias_id \<Rightarrow> bool" where
  "scope_contains s a \<longleftrightarrow> a |\<in>| s"

record alias_scoped_grant =
  ag_alias :: alias_id
  ag_recipient :: protocol_identity
  ag_established_at :: canonical_time

definition alias_grant_establish ::
  "alias_id \<Rightarrow> protocol_identity \<Rightarrow> canonical_time \<Rightarrow> (alias_scoped_grant, capability_error) res" where
  "alias_grant_establish a recipient now =
     fail_if (recipient = 0) CapInvalidGrant
     (Ok \<lparr>ag_alias = a, ag_recipient = recipient, ag_established_at = now\<rparr>)"

record sender_scoped_permission =
  sp_lane :: sender_scoped_lane
  sp_receiving :: receiving_scope

record admitted_conversation =
  cv_alias :: alias_id
  cv_conversation :: conversation_id
  cv_sender :: protocol_identity
  cv_admitted_at :: canonical_time

definition admitted_conversation_new ::
  "alias_id \<Rightarrow> conversation_id \<Rightarrow> protocol_identity \<Rightarrow> canonical_time \<Rightarrow> (admitted_conversation, alias_error) res" where
  "admitted_conversation_new a c sender now =
     fail_if (sender = 0) AliasInvalid
     (Ok \<lparr>cv_alias = a, cv_conversation = c, cv_sender = sender, cv_admitted_at = now\<rparr>)"

section \<open>The permission of an alias\<close>

datatype permission_state =
  PermNone
| PermBroad alias_scoped_grant
| PermRestricted alias_scoped_grant "(conversation_id, admitted_conversation) btmap"
| PermSenders "sender_scoped_lane list"

record receiving_permission =
  pm_alias :: alias_id
  pm_owner :: protocol_identity
  pm_revision :: u64
  pm_changed_at :: canonical_time
  pm_state :: permission_state

text \<open>\<open>TryFrom<PermissionRecord>\<close>.\<close>

definition lane_set_invalid :: "protocol_identity \<Rightarrow> canonical_time \<Rightarrow> sender_scoped_lane list \<Rightarrow> bool" where
  "lane_set_invalid owner changed lanes \<longleftrightarrow>
     lanes = [] \<or> length lanes > 32
     \<or> length (remdups (map (\<lambda>l. gr_id (ln_grant l)) lanes)) \<noteq> length lanes
     \<or> list_ex (\<lambda>i. list_ex (\<lambda>prior. gr_subject (ln_grant prior) = gr_subject (ln_grant (lanes ! i))) (take i lanes))
         [0..<length lanes]
     \<or> list_ex (\<lambda>l. gr_recipient (ln_grant l) \<noteq> owner \<or> gr_issued_at (ln_grant l) > changed) lanes"

definition permission_grant :: "permission_state \<Rightarrow> alias_scoped_grant option" where
  "permission_grant s = (case s of PermBroad g \<Rightarrow> Some g | PermRestricted g _ \<Rightarrow> Some g | _ \<Rightarrow> None)"

definition permission_load :: "receiving_permission \<Rightarrow> (receiving_permission, alias_error) res" where
  "permission_load r =
     fail_if (pm_owner r = 0 \<or> (pm_revision r = 0 \<and> pm_state r \<noteq> PermNone)) AliasInvalid
     (fail_if (case permission_grant (pm_state r) of
          Some g \<Rightarrow> ag_alias g \<noteq> pm_alias r \<or> ag_recipient g \<noteq> pm_owner r \<or> ag_established_at g > pm_changed_at r
        | None \<Rightarrow> False) AliasInvalid
     (fail_if (case pm_state r of
          PermRestricted _ conversations \<Rightarrow>
            list_ex (\<lambda>(i, c). i \<noteq> cv_conversation c \<or> cv_alias c \<noteq> pm_alias r \<or> cv_sender c = pm_owner r
              \<or> cv_admitted_at c > pm_changed_at r) (bt_entries conversations)
        | PermSenders lanes \<Rightarrow> lane_set_invalid (pm_owner r) (pm_changed_at r) lanes
        | _ \<Rightarrow> False) AliasInvalid
     (Ok r)))"

definition permission_unpaired ::
  "alias_id \<Rightarrow> protocol_identity \<Rightarrow> canonical_time \<Rightarrow> (receiving_permission, alias_error) res" where
  "permission_unpaired a owner now =
     permission_load \<lparr>pm_alias = a, pm_owner = owner, pm_revision = 0, pm_changed_at = now, pm_state = PermNone\<rparr>"

definition permission_change ::
  "receiving_permission \<Rightarrow> u64 \<Rightarrow> permission_state \<Rightarrow> canonical_time \<Rightarrow> (receiving_permission, alias_error) res" where
  "permission_change p expected state now =
     fail_if (pm_revision p \<noteq> expected) AliasConflict
     (fail_if (now < pm_changed_at p) AliasInvalid
     (and_then (ok_or (checked_add expected 1) AliasInvalid) (\<lambda>revision.
      permission_load (p\<lparr>pm_state := state, pm_revision := revision, pm_changed_at := now\<rparr>))))"

definition permission_open ::
  "receiving_permission \<Rightarrow> u64 \<Rightarrow> canonical_time \<Rightarrow> (receiving_permission, alias_error) res" where
  "permission_open p expected now =
     and_then (map_err (\<lambda>_. AliasInvalid) (alias_grant_establish (pm_alias p) (pm_owner p) now)) (\<lambda>g.
     permission_change p expected (PermBroad g) now)"

definition permission_remove ::
  "receiving_permission \<Rightarrow> u64 \<Rightarrow> canonical_time \<Rightarrow> (receiving_permission, alias_error) res" where
  "permission_remove p expected now = permission_change p expected PermNone now"

definition permission_restrict ::
  "receiving_permission \<Rightarrow> u64 \<Rightarrow> admitted_conversation list \<Rightarrow> canonical_time \<Rightarrow> (receiving_permission, alias_error) res" where
  "permission_restrict p expected existing now =
     (case pm_state p of
        PermBroad g \<Rightarrow>
          (let conversations = bt_collect (map (\<lambda>c. (cv_conversation c, c)) existing) in
           fail_if (bt_len conversations \<noteq> length existing) AliasInvalid
           (permission_change p expected (PermRestricted g conversations) now))
      | _ \<Rightarrow> Err AliasRestricted)"

definition permission_senders ::
  "receiving_permission \<Rightarrow> u64 \<Rightarrow> sender_scoped_lane list \<Rightarrow> canonical_time \<Rightarrow> (receiving_permission, alias_error) res" where
  "permission_senders p expected lanes now = permission_change p expected (PermSenders lanes) now"

definition authorizes_alias ::
  "receiving_permission \<Rightarrow> protocol_identity \<Rightarrow> conversation_id \<Rightarrow> canonical_time \<Rightarrow> bool" where
  "authorizes_alias p sender c now \<longleftrightarrow>
     \<not> now < pm_changed_at p
     \<and> (case pm_state p of
          PermBroad _ \<Rightarrow> True
        | PermRestricted _ conversations \<Rightarrow>
            (case bt_get conversations c of Some e \<Rightarrow> cv_sender e = sender | None \<Rightarrow> False)
        | _ \<Rightarrow> False)"

text \<open>The first lane with the identifier, and its replacement in place.\<close>

primrec put_lane :: "sender_scoped_lane \<Rightarrow> sender_scoped_lane list \<Rightarrow> sender_scoped_lane list" where
  "put_lane l [] = []"
| "put_lane l (x # xs) = (if gr_id (ln_grant x) = gr_id (ln_grant l) then l # xs else x # put_lane l xs)"

definition permission_consume ::
  "receiving_permission \<Rightarrow> sender_scoped_lane \<Rightarrow> (receiving_permission, alias_error) res" where
  "permission_consume p lane =
     (case pm_state p of
        PermSenders lanes \<Rightarrow>
          and_then (ok_or (find (\<lambda>l. gr_id (ln_grant l) = gr_id (ln_grant lane)) lanes) AliasPermission) (\<lambda>current.
          fail_if (ln_grant current \<noteq> ln_grant lane
            \<or> version_checked_next (ln_version current) \<noteq> Some (ln_version lane)) AliasConflict
          (permission_load (p\<lparr>pm_state := PermSenders (put_lane lane lanes)\<rparr>)))
      | _ \<Rightarrow> Err AliasPermission)"

section \<open>Loaded permissions\<close>

definition permission_ok :: "receiving_permission \<Rightarrow> bool" where
  "permission_ok p \<longleftrightarrow> permission_load p = Ok p"

lemma permission_load_eq: "permission_load r = Ok p \<longleftrightarrow> p = r \<and> permission_ok r"
  by (auto simp: permission_ok_def permission_load_def)

lemma subjects_distinct:
  "\<not> list_ex (\<lambda>i. list_ex (\<lambda>prior. f prior = f (xs ! i)) (take i xs)) [0..<length xs] \<longleftrightarrow> distinct (map f xs)"
proof
  assume free: "\<not> list_ex (\<lambda>i. list_ex (\<lambda>prior. f prior = f (xs ! i)) (take i xs)) [0..<length xs]"
  have "f (xs ! j) \<noteq> f (xs ! i)" if "j < i" "i < length xs" for i j
  proof -
    have "xs ! j \<in> set (take i xs)" using that by (auto simp: in_set_conv_nth intro!: exI [of _ j])
    then show ?thesis using free that by (auto simp: list_ex_iff)
  qed
  then show "distinct (map f xs)" by (fastforce simp: distinct_conv_nth neq_iff)
next
  assume "distinct (map f xs)"
  then show "\<not> list_ex (\<lambda>i. list_ex (\<lambda>prior. f prior = f (xs ! i)) (take i xs)) [0..<length xs]"
    by (auto simp: list_ex_iff distinct_conv_nth in_set_conv_nth)
qed

lemma lane_set_valid:
  "\<not> lane_set_invalid owner changed lanes \<longleftrightarrow>
     lanes \<noteq> [] \<and> length lanes \<le> 32 \<and> distinct (map (\<lambda>l. gr_id (ln_grant l)) lanes)
     \<and> distinct (map (\<lambda>l. gr_subject (ln_grant l)) lanes)
     \<and> (\<forall>l\<in>set lanes. gr_recipient (ln_grant l) = owner \<and> gr_issued_at (ln_grant l) \<le> changed)"
proof -
  have "length (remdups (map (\<lambda>l. gr_id (ln_grant l)) lanes)) = length lanes \<longleftrightarrow> distinct (map (\<lambda>l. gr_id (ln_grant l)) lanes)"
    using length_remdups_eq [of "map (\<lambda>l. gr_id (ln_grant l)) lanes"] by (metis distinct_remdups length_map remdups_id_iff_distinct)
  moreover have "\<not> list_ex (\<lambda>l. gr_recipient (ln_grant l) \<noteq> owner \<or> gr_issued_at (ln_grant l) > changed) lanes
      \<longleftrightarrow> (\<forall>l\<in>set lanes. gr_recipient (ln_grant l) = owner \<and> gr_issued_at (ln_grant l) \<le> changed)"
    by (auto simp: list_ex_iff)
  ultimately show ?thesis
    unfolding lane_set_invalid_def de_Morgan_disj subjects_distinct [of "\<lambda>l. gr_subject (ln_grant l)"] by (simp add: not_less)
qed

lemma permission_change_Ok:
  "permission_change p expected state now = Ok p' \<longleftrightarrow>
     pm_revision p = expected \<and> pm_changed_at p \<le> now \<and> checked_add expected 1 \<noteq> None
     \<and> p' = p\<lparr>pm_state := state, pm_revision := expected + 1, pm_changed_at := now\<rparr> \<and> permission_ok p'"
  by (auto simp: permission_change_def permission_load_eq checked_add_def)

section \<open>Commands\<close>

datatype permission_command =
  PermissionOpen u64 canonical_time
| PermissionRemove u64 canonical_time
| PermissionRestrict u64 "admitted_conversation list" canonical_time
| PermissionSenders u64 "sender_scoped_lane list" canonical_time
| PermissionConsume sender_scoped_lane

text \<open>A step returns the revision its command has spent, if it spends one.\<close>

primrec permission_step ::
  "receiving_permission \<Rightarrow> permission_command \<Rightarrow> (receiving_permission \<times> u64 option, alias_error) res" where
  "permission_step p (PermissionOpen r now) = map_ok (\<lambda>p'. (p', Some r)) (permission_open p r now)"
| "permission_step p (PermissionRemove r now) = map_ok (\<lambda>p'. (p', Some r)) (permission_remove p r now)"
| "permission_step p (PermissionRestrict r es now) = map_ok (\<lambda>p'. (p', Some r)) (permission_restrict p r es now)"
| "permission_step p (PermissionSenders r ls now) = map_ok (\<lambda>p'. (p', Some r)) (permission_senders p r ls now)"
| "permission_step p (PermissionConsume l) = map_ok (\<lambda>p'. (p', None)) (permission_consume p l)"

lemmas permission_operations =
  permission_open_def permission_remove_def permission_restrict_def permission_senders_def Let_def

lemma revision_next: "checked_add (r :: u64) 1 \<noteq> None \<Longrightarrow> unat (r + 1) = unat r + 1"
  by (auto simp: checked_add_def unat_add_lem [THEN iffD1] split: if_splits)

lemma permission_step_frame:
  assumes "permission_step p c = Ok (p', spent)"
  shows "permission_ok p' \<and> pm_alias p' = pm_alias p \<and> pm_owner p' = pm_owner p \<and> pm_changed_at p \<le> pm_changed_at p'
     \<and> (case spent of Some r \<Rightarrow> r = pm_revision p \<and> unat (pm_revision p') = unat r + 1
         | None \<Rightarrow> pm_revision p' = pm_revision p)"
  using assms
  by (cases c) (auto simp: permission_operations permission_change_Ok permission_consume_def permission_load_eq revision_next
      split: permission_state.splits)

interpretation permission_machine:
  versioned_machine permission_step permission_ok permission_load pm_revision pm_changed_at "\<lambda>p. (pm_alias p, pm_owner p)"
  by unfold_locales (auto simp: permission_ok_def dest: permission_step_frame [unfolded permission_ok_def])

text \<open>
  Optimistic concurrency of a receiving permission.  Over any sequence of commands the
  accepted changes spend exactly the consecutive revisions from the first to the last, so no two
  changes are accepted at one revision; the address, its owner and the order of times are kept,
  and a permission that is well formed stays so.
\<close>

theorem permission_revisions_serial:
  assumes "permission_load p = Ok p" and "run_machine permission_step p commands = (p', outs)"
  shows "[unat r. Some r \<leftarrow> outs] = [unat (pm_revision p)..<unat (pm_revision p')]
     \<and> pm_alias p' = pm_alias p \<and> pm_owner p' = pm_owner p \<and> pm_changed_at p \<le> pm_changed_at p'
     \<and> permission_load p' = Ok p'"
  using permission_machine.run_serial_restored [OF assms(1) [folded permission_ok_def] assms(2)] by simp

section \<open>Restriction and consumption\<close>

lemma fst_set_fold_insert:
  "fst ` set (bt_entries (fold (\<lambda>(k, v). bt_insert k v) xs m)) = fst ` set xs \<union> fst ` set (bt_entries m)"
  by (induction xs arbitrary: m) (simp_all add: set_map_fst_ins_entry split_beta)

lemma bt_len_collect_distinct: "bt_len (bt_collect xs) = length xs \<longleftrightarrow> distinct (map fst xs)"
proof -
  have "bt_len (bt_collect xs) = card (fst ` set (bt_entries (bt_collect xs)))"
    using distinct_card [OF bt_distinct [of "bt_collect xs"]] by (simp add: bt_len_def)
  also have "\<dots> = card (set (map fst xs))" by (simp add: bt_collect_def fst_set_fold_insert)
  finally show ?thesis using card_distinct [of "map fst xs"] distinct_card [of "map fst xs"] by auto
qed

lemma conversations_get:
  assumes "bt_len (bt_collect (map (\<lambda>c. (f c, c)) es)) = length es"
  shows "bt_get (bt_collect (map (\<lambda>c. (f c, c)) es)) i = Some e \<longleftrightarrow> e \<in> set es \<and> f e = i"
proof -
  have "distinct (map fst (map (\<lambda>c. (f c, c)) es))"
    using assms bt_len_collect_distinct [of "map (\<lambda>c. (f c, c)) es"] by simp
  then show ?thesis by (subst bt_get_collect) (auto simp: map_of_eq_Some_iff)
qed

text \<open>
  Restricting a receiving permission never widens it.  Afterwards exactly the senders of the
  listed conversations are authorized, each in its own conversation; these were admitted on this
  alias before the restriction, none is the owner's, and whatever the restricted permission
  authorizes the open one did.
\<close>

theorem restriction_narrows:
  assumes "permission_restrict p expected existing now = Ok p'"
  shows "(authorizes_alias p' sender c t \<longleftrightarrow>
            now \<le> t \<and> (\<exists>e\<in>set existing. cv_conversation e = c \<and> cv_sender e = sender))
     \<and> (\<forall>e\<in>set existing. cv_alias e = pm_alias p \<and> cv_sender e \<noteq> pm_owner p \<and> cv_admitted_at e \<le> now)
     \<and> (authorizes_alias p' sender c t \<longrightarrow> authorizes_alias p sender c t)"
proof -
  let ?m = "bt_collect (map (\<lambda>c. (cv_conversation c, c)) existing)"
  obtain g where g: "pm_state p = PermBroad g"
    using assms by (auto simp: permission_restrict_def split: permission_state.splits)
  have len: "bt_len ?m = length existing" and "permission_change p expected (PermRestricted g ?m) now = Ok p'"
    using assms by (simp_all add: permission_restrict_def g Let_def)
  then have le: "pm_changed_at p \<le> now" and p': "p' = p\<lparr>pm_state := PermRestricted g ?m, pm_revision := expected + 1, pm_changed_at := now\<rparr>"
    and ok: "permission_ok p'" unfolding permission_change_Ok by blast+
  note get = conversations_get [where f = cv_conversation, OF len]
  have auth: "authorizes_alias p' sender c t \<longleftrightarrow> now \<le> t \<and> (\<exists>e\<in>set existing. cv_conversation e = c \<and> cv_sender e = sender)"
  proof -
    have "authorizes_alias p' sender c t \<longleftrightarrow> now \<le> t \<and> (\<exists>e. bt_get ?m c = Some e \<and> cv_sender e = sender)"
      by (auto simp: authorizes_alias_def p' not_less split: option.splits)
    then show ?thesis unfolding get by blast
  qed
  have "cv_alias e = pm_alias p \<and> cv_sender e \<noteq> pm_owner p \<and> cv_admitted_at e \<le> now" if "e \<in> set existing" for e
  proof -
    have "(cv_conversation e, e) \<in> set (bt_entries ?m)"
      using get [of "cv_conversation e" e] that by (simp add: bt_get_Some)
    then show ?thesis using ok
      by (fastforce simp: permission_ok_def permission_load_def p' list_ex_iff not_less)
  qed
  moreover have "authorizes_alias p sender c t" if "now \<le> t"
    using that le by (simp add: authorizes_alias_def g not_less)
  ultimately show ?thesis using auth by blast
qed

text \<open>
  Consuming a sender lane changes an allowance and nothing else: the grants, their order, the
  revision and the time of the permission stand, and the one lane with that identifier is replaced
  by its successor version under the same grant.
\<close>

theorem consumption_keeps_grants:
  assumes "permission_load p = Ok p" and "permission_consume p lane = Ok p'"
  shows "\<exists>lanes current. pm_state p = PermSenders lanes \<and> current \<in> set lanes
     \<and> p' = p\<lparr>pm_state := PermSenders (map (\<lambda>l. if l = current then lane else l) lanes)\<rparr>
     \<and> ln_grant current = ln_grant lane \<and> unat (ln_version lane) = unat (ln_version current) + 1"
proof -
  obtain lanes where lanes: "pm_state p = PermSenders lanes"
    using assms(2) by (auto simp: permission_consume_def split: permission_state.splits)
  obtain current where found: "find (\<lambda>l. gr_id (ln_grant l) = gr_id (ln_grant lane)) lanes = Some current"
    and same: "ln_grant current = ln_grant lane" "version_checked_next (ln_version current) = Some (ln_version lane)"
    and p': "p' = p\<lparr>pm_state := PermSenders (put_lane lane lanes)\<rparr>"
    using assms(2) by (auto simp: permission_consume_def lanes permission_load_eq)
  have mem: "current \<in> set lanes" using found by (auto simp: find_Some_iff)
  have "distinct (map (\<lambda>l. gr_id (ln_grant l)) lanes)"
    using assms(1) by (auto simp: permission_load_def lanes lane_set_valid)
  then have put: "put_lane lane lanes = map (\<lambda>l. if l = current then lane else l) lanes"
    using mem same(1)
  proof (induction lanes)
    case (Cons x xs)
    show ?case
    proof (cases "x = current")
      case True
      then have "map (\<lambda>l. if l = current then lane else l) xs = xs"
        using Cons.prems(1) by (intro map_idI) auto
      then show ?thesis using True Cons.prems(3) by simp
    next
      case False
      then have "current \<in> set xs" using Cons.prems(2) by auto
      then have "gr_id (ln_grant current) \<in> (\<lambda>l. gr_id (ln_grant l)) ` set xs" by simp
      then have "gr_id (ln_grant x) \<noteq> gr_id (ln_grant current)" using Cons.prems(1) by fastforce
      then have "gr_id (ln_grant x) \<noteq> gr_id (ln_grant lane)" using Cons.prems(3) by simp
      then show ?thesis using False Cons by simp
    qed
  qed simp
  have "unat (ln_version lane) = unat (ln_version current) + 1"
    using same(2) by (auto simp: version_checked_next_def checked_add_eq_Some)
  then show ?thesis using lanes mem p' [unfolded put] same(1) by blast
qed

end
