(* ===== verification/Aliases.thy ===== *)
theory Aliases
  imports Directory Receiving
begin

text \<open>
  Participant-owned entrances (\<open>crates/cs-mail-accounts/src/aliases.rs\<close>): the alias record with its
  validation, its lifecycle from active through restricted and replaced to retired, and the check
  that admits a conversation.  The lemmas show that an alias stays valid, that a closed
  entrance admits only what it admitted before or what its owner approved, and that it can always
  be retired.
\<close>

section \<open>Configuration and portfolio\<close>

datatype receiving_policy = PolicyBonded | PolicyAliasScoped

definition description_new :: "bytes \<Rightarrow> (bytes, alias_error) res" where
  "description_new value =
     fail_if (trim value = [] \<or> char_count value > 240 \<or> has_control {} value) AliasInvalid (Ok (trim value))"

record alias_configuration =
  cfg_description :: bytes
  cfg_receiving :: receiving_policy

record conversation_approval =
  ap_sender :: protocol_identity
  ap_at :: canonical_time

definition approval_new :: "protocol_identity \<Rightarrow> canonical_time \<Rightarrow> (conversation_approval, alias_error) res" where
  "approval_new sender now = fail_if (sender = 0) AliasInvalid (Ok \<lparr>ap_sender = sender, ap_at = now\<rparr>)"

type_synonym admitted_map = "(conversation_id, admitted_conversation) btmap"
type_synonym approval_map = "(conversation_id, conversation_approval) btmap"

datatype alias_lifecycle =
  LifeActive
| LifeRestricted canonical_time admitted_map approval_map
| LifeReplaced canonical_time alias_id canonical_time admitted_map approval_map
| LifeRetired canonical_time

record member_alias =
  al_id :: alias_id
  al_owner :: protocol_identity
  al_address :: member_address
  al_configuration :: alias_configuration
  al_created_at :: canonical_time
  al_changed_at :: canonical_time
  al_revision :: u64
  al_lifecycle :: alias_lifecycle
  al_permission :: receiving_permission

section \<open>Validation of the record\<close>

definition opening_time :: "member_alias \<Rightarrow> canonical_time" where
  "opening_time a =
     (case al_lifecycle a of LifeActive \<Rightarrow> al_created_at a | LifeRestricted t _ _ \<Rightarrow> t | LifeReplaced t _ _ _ _ \<Rightarrow> t
      | LifeRetired t \<Rightarrow> t)"

definition life_conversations :: "alias_lifecycle \<Rightarrow> admitted_map option" where
  "life_conversations l =
     (case l of LifeRestricted _ c _ \<Rightarrow> Some c | LifeReplaced _ _ _ c _ \<Rightarrow> Some c | _ \<Rightarrow> None)"

definition life_approvals :: "alias_lifecycle \<Rightarrow> approval_map option" where
  "life_approvals l =
     (case l of LifeRestricted _ _ p \<Rightarrow> Some p | LifeReplaced _ _ _ _ p \<Rightarrow> Some p | _ \<Rightarrow> None)"

definition latest :: "canonical_time \<Rightarrow> canonical_time list \<Rightarrow> canonical_time" where
  "latest t ts = (case ts of [] \<Rightarrow> t | x # xs \<Rightarrow> fold max xs x)"

definition alias_load :: "member_alias \<Rightarrow> (member_alias, alias_error) res" where
  "alias_load r =
     fail_if (al_owner r = 0 \<or> al_changed_at r < al_created_at r
        \<or> pm_alias (al_permission r) \<noteq> al_id r \<or> pm_owner (al_permission r) \<noteq> al_owner r
        \<or> pm_changed_at (al_permission r) < al_created_at r
        \<or> (cfg_receiving (al_configuration r) = PolicyBonded
           \<and> (case pm_state (al_permission r) of PermBroad _ \<Rightarrow> True | PermRestricted _ _ \<Rightarrow> True | _ \<Rightarrow> False)))
       AliasInvalid
     (fail_if (case al_lifecycle r of LifeReplaced t replacement until _ _ \<Rightarrow> replacement = al_id r \<or> until \<le> t
          | _ \<Rightarrow> False) AliasInvalid
     (fail_if (opening_time r < al_created_at r \<or> opening_time r > al_changed_at r
        \<or> (al_lifecycle r = LifeActive \<and> (al_revision r \<noteq> 0 \<or> al_changed_at r \<noteq> al_created_at r))
        \<or> (al_lifecycle r \<noteq> LifeActive \<and> al_revision r = 0)
        \<or> (case life_conversations (al_lifecycle r) of
             Some conversations \<Rightarrow>
               list_ex (\<lambda>(i, c). i \<noteq> cv_conversation c \<or> cv_alias c \<noteq> al_id r \<or> cv_sender c = al_owner r
                  \<or> cv_admitted_at c < al_created_at r \<or> cv_admitted_at c > opening_time r) (bt_entries conversations)
           | None \<Rightarrow> False)) AliasInvalid
     (and_then (case al_lifecycle r of
          LifeRestricted t _ approvals \<Rightarrow>
            and_then (ok_or (try_word (int (bt_len approvals)) :: u64 option) AliasInvalid) (\<lambda>n.
            and_then (ok_or (checked_add n 1) AliasInvalid) (\<lambda>changes.
            fail_if (al_revision r \<noteq> changes \<or> list_ex (\<lambda>p. ap_at p < t) (bt_values approvals)
               \<or> latest t (map ap_at (bt_values approvals)) \<noteq> al_changed_at r) AliasInvalid (Ok ())))
        | LifeReplaced t _ _ _ approvals \<Rightarrow>
            and_then (ok_or (try_word (int (bt_len approvals)) :: u64 option) AliasInvalid) (\<lambda>n.
            and_then (ok_or (checked_add n 2) AliasInvalid) (\<lambda>changes.
            fail_if (al_changed_at r \<noteq> t
               \<or> (al_revision r \<noteq> changes \<and> \<not> (bt_len approvals = 0 \<and> al_revision r = 1))) AliasInvalid (Ok ())))
        | _ \<Rightarrow> Ok ()) (\<lambda>_.
     fail_if (case life_approvals (al_lifecycle r) of
          Some entries \<Rightarrow> list_ex (\<lambda>p. ap_sender p = 0 \<or> ap_sender p = al_owner r \<or> ap_at p < al_created_at r
             \<or> ap_at p > al_changed_at r) (bt_values entries)
        | None \<Rightarrow> False) AliasInvalid
     (Ok r)))))"

definition alias_create ::
  "alias_id \<Rightarrow> protocol_identity \<Rightarrow> member_address \<Rightarrow> alias_configuration \<Rightarrow> canonical_time \<Rightarrow> (member_alias, alias_error) res" where
  "alias_create i owner address configuration now =
     and_then (permission_unpaired i owner now) (\<lambda>permission.
     alias_load \<lparr>al_id = i, al_owner = owner, al_address = address, al_configuration = configuration,
       al_created_at = now, al_changed_at = now, al_revision = 0, al_lifecycle = LifeActive, al_permission = permission\<rparr>)"

record alias_portfolio =
  po_aliases :: "(alias_id, member_alias) btmap"
  po_owner :: protocol_identity

definition portfolio_new :: "protocol_identity \<Rightarrow> (alias_id, member_alias) btmap \<Rightarrow> (alias_portfolio, alias_error) res" where
  "portfolio_new owner aliases =
     fail_if (owner = 0 \<or> list_ex (\<lambda>(i, a). i \<noteq> al_id a \<or> al_owner a \<noteq> owner) (bt_entries aliases)) AliasInvalid
     (Ok \<lparr>po_aliases = aliases, po_owner = owner\<rparr>)"

definition portfolio_create ::
  "alias_portfolio \<Rightarrow> alias_id \<Rightarrow> member_address \<Rightarrow> alias_configuration \<Rightarrow> canonical_time \<Rightarrow> (member_alias, alias_error) res" where
  "portfolio_create p i address configuration now =
     fail_if (bt_has (po_aliases p) i) AliasConflict (alias_create i (po_owner p) address configuration now)"

definition is_bonded_route :: "member_alias \<Rightarrow> bool" where
  "is_bonded_route a \<longleftrightarrow> cfg_receiving (al_configuration a) = PolicyBonded
     \<and> (case al_lifecycle a of LifeActive \<Rightarrow> True | LifeRestricted _ _ _ \<Rightarrow> True | _ \<Rightarrow> False)"

section \<open>Operations\<close>

definition with_permission :: "member_alias \<Rightarrow> receiving_permission \<Rightarrow> (member_alias, alias_error) res" where
  "with_permission a permission = alias_load (a\<lparr>al_permission := permission\<rparr>)"

definition alias_update :: "member_alias \<Rightarrow> u64 \<Rightarrow> canonical_time \<Rightarrow> alias_lifecycle \<Rightarrow> (member_alias, alias_error) res" where
  "alias_update a expected now life =
     fail_if (al_revision a \<noteq> expected) AliasConflict
     (fail_if (case al_lifecycle a of LifeRetired _ \<Rightarrow> True | LifeReplaced _ _ _ _ _ \<Rightarrow> True | _ \<Rightarrow> False) AliasRetired
     (fail_if (now < al_changed_at a) AliasInvalid
     (and_then (ok_or (checked_add expected 1) AliasInvalid) (\<lambda>revision.
      alias_load (a\<lparr>al_revision := revision, al_changed_at := now, al_lifecycle := life\<rparr>)))))"

definition alias_existing :: "member_alias \<Rightarrow> admitted_conversation list \<Rightarrow> canonical_time \<Rightarrow> (admitted_map, alias_error) res" where
  "alias_existing a existing now =
     (let conversations = bt_collect (map (\<lambda>c. (cv_conversation c, c)) existing) in
      fail_if (length existing \<noteq> bt_len conversations
        \<or> list_ex (\<lambda>c. cv_alias c \<noteq> al_id a \<or> cv_admitted_at c > now \<or> cv_admitted_at c < al_created_at a
             \<or> cv_sender c = al_owner a) (bt_values conversations)) AliasInvalid
      (Ok conversations))"

definition alias_restrict ::
  "member_alias \<Rightarrow> u64 \<Rightarrow> admitted_conversation list \<Rightarrow> canonical_time \<Rightarrow> (member_alias, alias_error) res" where
  "alias_restrict a expected existing now =
     fail_if (al_lifecycle a \<noteq> LifeActive) AliasRestricted
     (and_then (alias_existing a existing now) (\<lambda>conversations.
      alias_update a expected now (LifeRestricted now conversations bt_empty)))"

definition alias_replace ::
  "member_alias \<Rightarrow> u64 \<Rightarrow> member_alias \<Rightarrow> canonical_time \<Rightarrow> admitted_conversation list \<Rightarrow> canonical_time \<Rightarrow> (member_alias, alias_error) res" where
  "alias_replace a expected replacement until existing now =
     fail_if (al_owner replacement \<noteq> al_owner a \<or> al_id replacement = al_id a \<or> al_address replacement = al_address a
        \<or> al_configuration replacement \<noteq> al_configuration a \<or> al_created_at replacement \<noteq> now
        \<or> al_revision replacement \<noteq> 0 \<or> al_lifecycle replacement \<noteq> LifeActive \<or> until \<le> now) AliasInvalid
     (let approvals = (case al_lifecycle a of LifeRestricted _ _ approvals \<Rightarrow> approvals | _ \<Rightarrow> bt_empty) in
      and_then (case al_lifecycle a of LifeRestricted _ conversations _ \<Rightarrow> Ok conversations
         | _ \<Rightarrow> alias_existing a existing now) (\<lambda>conversations.
      alias_update a expected now (LifeReplaced now (al_id replacement) until conversations approvals)))"

definition alias_retire :: "member_alias \<Rightarrow> u64 \<Rightarrow> canonical_time \<Rightarrow> (member_alias, alias_error) res" where
  "alias_retire a expected now =
     (case al_lifecycle a of
        LifeReplaced _ _ _ _ _ \<Rightarrow>
          fail_if (al_revision a \<noteq> expected \<or> now < al_changed_at a) AliasConflict
          (and_then (ok_or (checked_add expected 1) AliasInvalid) (\<lambda>revision.
           alias_load (a\<lparr>al_revision := revision, al_changed_at := now, al_lifecycle := LifeRetired now\<rparr>)))
      | _ \<Rightarrow> alias_update a expected now (LifeRetired now))"

definition approve_conversation ::
  "member_alias \<Rightarrow> u64 \<Rightarrow> protocol_identity \<Rightarrow> conversation_id \<Rightarrow> canonical_time \<Rightarrow> (member_alias, alias_error) res" where
  "approve_conversation a expected sender c now =
     (case al_lifecycle a of
        LifeRestricted restricted_at conversations approvals \<Rightarrow>
          fail_if (sender = 0 \<or> sender = al_owner a \<or> bt_has conversations c \<or> bt_has approvals c) AliasInvalid
          (and_then (approval_new sender now) (\<lambda>approval.
           alias_update a expected now (LifeRestricted restricted_at conversations (bt_insert c approval approvals))))
      | _ \<Rightarrow> Err AliasRestricted)"

definition check_conversation ::
  "member_alias \<Rightarrow> protocol_identity \<Rightarrow> conversation_id \<Rightarrow> canonical_time \<Rightarrow> (unit, alias_error) res" where
  "check_conversation a sender c now =
     fail_if (now < al_changed_at a) AliasInvalid
     (let listed = (\<lambda>conversations approvals.
         fail_if (\<not> ((case bt_get conversations c of Some e \<Rightarrow> cv_sender e = sender | None \<Rightarrow> False)
              \<or> (case bt_get approvals c of Some p \<Rightarrow> ap_sender p = sender \<and> ap_at p \<le> now | None \<Rightarrow> False)))
           AliasRestricted (Ok ())) in
      case al_lifecycle a of
        LifeActive \<Rightarrow> Ok ()
      | LifeRestricted _ conversations approvals \<Rightarrow> listed conversations approvals
      | LifeReplaced _ _ until conversations approvals \<Rightarrow>
          (if now < until then listed conversations approvals else Err AliasRetired)
      | LifeRetired _ \<Rightarrow> Err AliasRetired)"

section \<open>Commands\<close>

datatype alias_command =
  SetPermission receiving_permission
| RestrictAlias u64 "admitted_conversation list" canonical_time
| ReplaceAlias u64 member_alias canonical_time "admitted_conversation list" canonical_time
| RetireAlias u64 canonical_time
| ApproveConversation u64 protocol_identity conversation_id canonical_time

primrec alias_step :: "member_alias \<Rightarrow> alias_command \<Rightarrow> (member_alias \<times> u64 option, alias_error) res" where
  "alias_step a (SetPermission p) = map_ok (\<lambda>a'. (a', None)) (with_permission a p)"
| "alias_step a (RestrictAlias r es now) = map_ok (\<lambda>a'. (a', Some r)) (alias_restrict a r es now)"
| "alias_step a (ReplaceAlias r b until es now) = map_ok (\<lambda>a'. (a', Some r)) (alias_replace a r b until es now)"
| "alias_step a (RetireAlias r now) = map_ok (\<lambda>a'. (a', Some r)) (alias_retire a r now)"
| "alias_step a (ApproveConversation r s c now) = map_ok (\<lambda>a'. (a', Some r)) (approve_conversation a r s c now)"

definition alias_ok :: "member_alias \<Rightarrow> bool" where
  "alias_ok a \<longleftrightarrow> alias_load a = Ok a"

lemma alias_load_eq: "alias_load r = Ok a \<longleftrightarrow> a = r \<and> alias_ok r"
  by (auto simp: alias_ok_def alias_load_def Let_def)

lemma alias_update_Ok:
  "alias_update a expected now life = Ok a' \<longleftrightarrow>
     al_revision a = expected \<and> (al_lifecycle a = LifeActive \<or> (\<exists>t c p. al_lifecycle a = LifeRestricted t c p))
     \<and> al_changed_at a \<le> now \<and> checked_add expected 1 \<noteq> None
     \<and> a' = a\<lparr>al_revision := expected + 1, al_changed_at := now, al_lifecycle := life\<rparr> \<and> alias_ok a'"
  unfolding alias_update_def fail_if_eq alias_load_eq and_then_eq_Ok ok_or_eq
  by (cases "al_lifecycle a") (auto simp: checked_add_def not_less)

text \<open>What one accepted command does to the entrance.\<close>

definition same_alias :: "member_alias \<Rightarrow> alias_id \<times> protocol_identity \<times> member_address \<times> alias_configuration \<times> canonical_time" where
  "same_alias a = (al_id a, al_owner a, al_address a, al_configuration a, al_created_at a)"

lemma alias_step_frame:
  assumes "alias_step a c = Ok (a', spent)"
  shows "alias_ok a' \<and> same_alias a' = same_alias a \<and> al_changed_at a \<le> al_changed_at a'
     \<and> (case spent of Some r \<Rightarrow> r = al_revision a \<and> unat (al_revision a') = unat r + 1
         | None \<Rightarrow> al_revision a' = al_revision a)"
proof (cases c)
  case (RetireAlias r now)
  then show ?thesis using assms
    by (cases "al_lifecycle a") (auto simp: alias_retire_def alias_update_Ok alias_load_eq same_alias_def checked_add_def
      revision_next split: if_splits)
qed (use assms in \<open>auto simp: with_permission_def alias_restrict_def alias_replace_def approve_conversation_def Let_def
  alias_load_eq alias_update_Ok same_alias_def revision_next split: alias_lifecycle.splits\<close>)

interpretation alias_machine:
  versioned_machine alias_step alias_ok alias_load al_revision al_changed_at same_alias
  by unfold_locales (auto simp: alias_ok_def dest: alias_step_frame [unfolded alias_ok_def])

text \<open>
  The entrance of a participant keeps its identity.  Over any sequence of commands the alias
  identifier, the owner, the address, the configuration and the creation time stand, the accepted
  lifecycle changes spend exactly the consecutive revisions, time never runs back, and the record
  passes its validation again.
\<close>

theorem alias_revisions_serial:
  assumes "alias_load a = Ok a" and "run_machine alias_step a commands = (a', outs)"
  shows "[unat r. Some r \<leftarrow> outs] = [unat (al_revision a)..<unat (al_revision a')]
     \<and> al_changed_at a \<le> al_changed_at a' \<and> same_alias a' = same_alias a \<and> alias_load a' = Ok a'"
  by (rule alias_machine.run_serial_restored [OF assms(1) [folded alias_ok_def] assms(2)])

section \<open>A closed entrance\<close>

text \<open>The conversations and the approvals a closed entrance may admit.\<close>

definition closed_to ::
  "admitted_map \<Rightarrow> (conversation_id \<times> protocol_identity \<times> canonical_time) set \<Rightarrow> member_alias \<Rightarrow> bool" where
  "closed_to C A a \<longleftrightarrow> al_lifecycle a \<noteq> LifeActive
     \<and> (\<forall>m. life_conversations (al_lifecycle a) = Some m \<longrightarrow> m = C)
     \<and> (\<forall>m i p. life_approvals (al_lifecycle a) = Some m \<longrightarrow> bt_get m i = Some p \<longrightarrow> (i, ap_sender p, ap_at p) \<in> A)"

fun approvals_of :: "alias_command \<Rightarrow> (conversation_id \<times> protocol_identity \<times> canonical_time) set" where
  "approvals_of (ApproveConversation r sender c now) = {(c, sender, now)}"
| "approvals_of _ = {}"

lemmas life_simps = life_conversations_def life_approvals_def

lemma closed_step:
  assumes "closed_to C A a" and "alias_step a cmd = Ok (a', spent)"
  shows "closed_to C (A \<union> approvals_of cmd) a'"
proof (cases cmd)
  case (SetPermission p)
  then show ?thesis using assms by (auto simp: closed_to_def with_permission_def alias_load_eq)
next
  case (RestrictAlias r es now)
  then show ?thesis using assms by (auto simp: closed_to_def alias_restrict_def)
next
  case (ReplaceAlias r b until es now)
  then show ?thesis using assms
    by (cases "al_lifecycle a") (auto simp: closed_to_def alias_replace_def Let_def alias_update_Ok life_simps)
next
  case (RetireAlias r now)
  then show ?thesis using assms
    by (cases "al_lifecycle a") (auto simp: closed_to_def alias_retire_def alias_update_Ok alias_load_eq life_simps)
next
  case (ApproveConversation r sender c now)
  then show ?thesis using assms
    by (cases "al_lifecycle a") (auto simp: closed_to_def approve_conversation_def approval_new_def alias_update_Ok life_simps
      split: if_splits)
qed

lemma closed_run:
  "closed_to C A a \<Longrightarrow> run_machine alias_step a cmds = (t, outs) \<Longrightarrow> closed_to C (A \<union> \<Union> (approvals_of ` set cmds)) t"
proof (induction cmds arbitrary: a A outs)
  case (Cons c cs)
  show ?case
  proof (cases "alias_step a c")
    case (Ok r)
    obtain q out where q: "alias_step a c = Ok (q, out)" using Ok by (cases r) simp
    then obtain outs' where "run_machine alias_step q cs = (t, outs')"
      using Cons.prems by (auto split: prod.splits)
    then show ?thesis using Cons.IH [OF closed_step [OF Cons.prems(1) q]] by (simp add: Un_assoc)
  next
    case (Err e)
    then have "closed_to C (A \<union> \<Union> (approvals_of ` set cs)) t" using Cons by simp
    then show ?thesis by (auto simp: closed_to_def)
  next
    case Panic
    then have "closed_to C (A \<union> \<Union> (approvals_of ` set cs)) t" using Cons by simp
    then show ?thesis by (auto simp: closed_to_def)
  qed
qed simp

lemma closed_check:
  assumes "closed_to C A a" and "check_conversation a sender c now = Ok ()"
  shows "(\<exists>e. bt_get C c = Some e \<and> cv_sender e = sender) \<or> (\<exists>t\<le>now. (c, sender, t) \<in> A)"
  using assms
  by (cases "al_lifecycle a")
     (force simp: closed_to_def check_conversation_def life_simps split: option.splits if_splits)+

lemma checked_not_owner:
  assumes "alias_ok a" and "al_lifecycle a \<noteq> LifeActive" and "check_conversation a sender c now = Ok ()"
  shows "sender \<noteq> al_owner a"
proof -
  have conv: "cv_sender e \<noteq> al_owner a" if "life_conversations (al_lifecycle a) = Some m" "bt_get m c = Some e" for m e
    using assms(1) that by (auto simp: alias_ok_def alias_load_def list_ex_iff bt_get_Some)
  have appr: "ap_sender p \<noteq> al_owner a" if "life_approvals (al_lifecycle a) = Some m" "bt_get m c = Some p" for m p
    using assms(1) that by (auto simp: alias_ok_def alias_load_def list_ex_iff bt_values_iff)
  show ?thesis using assms(2,3) conv appr
    by (cases "al_lifecycle a") (auto simp: check_conversation_def life_simps split: option.splits if_splits)
qed

text \<open>
  C23: A restricted entrance stays closed.  Whatever is done to an alias after its owner restricted
  it (a new permission, approvals, replacement, retirement), a conversation passes only if it was
  admitted on this alias before the restriction with this very sender, or if the owner approved
  this sender in this conversation since; the owner's own identity never passes.
\<close>

theorem closed_entrance:
  assumes "alias_restrict a expected existing restricted_at = Ok b"
    and "run_machine alias_step b commands = (t, outs)"
    and "check_conversation t sender c now = Ok ()"
  shows "sender \<noteq> al_owner a
     \<and> ((\<exists>e\<in>set existing. cv_conversation e = c \<and> cv_sender e = sender \<and> cv_alias e = al_id a
            \<and> al_created_at a \<le> cv_admitted_at e \<and> cv_admitted_at e \<le> restricted_at)
       \<or> (\<exists>r approved_at. ApproveConversation r sender c approved_at \<in> set commands \<and> approved_at \<le> now))"
proof -
  let ?m = "bt_collect (map (\<lambda>c. (cv_conversation c, c)) existing)"
  have active: "al_lifecycle a = LifeActive" and len: "bt_len ?m = length existing"
    and good: "\<And>e. e \<in> set (bt_values ?m) \<Longrightarrow>
        cv_alias e = al_id a \<and> cv_admitted_at e \<le> restricted_at \<and> al_created_at a \<le> cv_admitted_at e"
    and b: "alias_update a expected restricted_at (LifeRestricted restricted_at ?m bt_empty) = Ok b"
    using assms(1) by (auto simp: alias_restrict_def alias_existing_def Let_def list_ex_iff not_less)
  have "closed_to ?m {} b" using b by (auto simp: alias_update_Ok closed_to_def life_simps)
  note closed = closed_run [OF this assms(2)]
  have "alias_ok b" and same_b: "al_owner b = al_owner a" using b by (auto simp: alias_update_Ok)
  then have "alias_ok t" "al_owner t = al_owner b"
    using alias_machine.run_inv [OF _ assms(2)] alias_machine.run_serial [OF assms(2)] by (auto simp: same_alias_def)
  then have "sender \<noteq> al_owner a"
    using checked_not_owner [OF _ _ assms(3)] closed same_b by (auto simp: closed_to_def)
  moreover have "\<exists>r. ApproveConversation r sender c u \<in> set commands" if "(c, sender, u) \<in> \<Union> (approvals_of ` set commands)" for u
  proof -
    from that obtain cmd where cmd: "cmd \<in> set commands" "(c, sender, u) \<in> approvals_of cmd" by blast
    from cmd(2) have "\<exists>r. cmd = ApproveConversation r sender c u" by (cases cmd) auto
    then show ?thesis using cmd(1) by blast
  qed
  moreover have "e \<in> set existing \<and> cv_conversation e = c \<and> cv_alias e = al_id a
      \<and> al_created_at a \<le> cv_admitted_at e \<and> cv_admitted_at e \<le> restricted_at" if "bt_get ?m c = Some e" for e
    using that conversations_get [where f = cv_conversation, OF len] good [of e] by (auto simp: bt_values_iff)
  moreover have "(\<exists>e. bt_get ?m c = Some e \<and> cv_sender e = sender)
      \<or> (\<exists>u\<le>now. (c, sender, u) \<in> \<Union> (approvals_of ` set commands))"
    using closed_check [OF closed assms(3)] by simp
  ultimately show ?thesis by blast
qed

section \<open>Retirement\<close>

lemma not_last_revision: "(r :: u64) \<noteq> -1 \<Longrightarrow> checked_add r 1 \<noteq> None"
proof -
  assume "r \<noteq> -1"
  then have "unat r \<noteq> unat (-1 :: u64)" by (simp add: word_unat_eq_iff [symmetric])
  then have "unat r \<noteq> 2 ^ 64 - 1" by (simp add: unsigned_minus_1_eq_mask mask_eq_exp_minus_1)
  moreover have "unat r < 2 ^ 64" using unsigned_less [of r] by simp
  ultimately show ?thesis by (simp add: checked_add_def)
qed

lemma retired_step:
  assumes "al_lifecycle a = LifeRetired t" and "alias_step a cmd = Ok (a', spent)"
  shows "al_lifecycle a' = LifeRetired t \<and> spent = None"
  using assms
  by (cases cmd) (auto simp: with_permission_def alias_load_eq alias_restrict_def alias_replace_def alias_retire_def
    approve_conversation_def alias_update_Ok Let_def)

lemma retired_run:
  "al_lifecycle a = LifeRetired t \<Longrightarrow> run_machine alias_step a cmds = (b, outs) \<Longrightarrow> al_lifecycle b = LifeRetired t"
proof (induction cmds arbitrary: a outs)
  case (Cons c cs)
  show ?case
  proof (cases "alias_step a c")
    case (Ok r)
    obtain q out where q: "alias_step a c = Ok (q, out)" using Ok by (cases r) simp
    then obtain outs' where "run_machine alias_step q cs = (b, outs')"
      using Cons.prems by (auto split: prod.splits)
    then show ?thesis using Cons.IH retired_step [OF Cons.prems(1) q] by blast
  qed (use Cons in auto)
qed simp

text \<open>
  C26: An owner can always close an entrance, for good.  At its current revision every valid alias
  that is not retired can be retired at any time from its last change on, unless the revision
  counter is exhausted: the validation on the way out never refuses it.  After that no sequence of
  commands opens it again and no conversation passes.
\<close>

theorem alias_can_be_retired:
  assumes "alias_load a = Ok a" and "\<forall>t. al_lifecycle a \<noteq> LifeRetired t"
    and "al_changed_at a \<le> now" and "al_revision a \<noteq> -1"
  shows "\<exists>b. alias_retire a (al_revision a) now = Ok b
     \<and> (\<forall>commands sender c later. let t = fst (run_machine alias_step b commands) in
          al_lifecycle t = LifeRetired now \<and> check_conversation t sender c later \<noteq> Ok ())"
proof -
  let ?b = "a\<lparr>al_revision := al_revision a + 1, al_changed_at := now, al_lifecycle := LifeRetired now\<rparr>"
  have room: "checked_add (al_revision a) 1 = Some (al_revision a + 1)"
    using not_last_revision [OF assms(4)] by (simp add: checked_add_def split: if_splits)
  have "al_revision a + 1 \<noteq> 0" using assms(4) by (simp add: eq_neg_iff_add_eq_0)
  then have ok: "alias_ok ?b"
    using assms(1,3) by (auto simp: alias_ok_def alias_load_def opening_time_def life_simps)
  then have retire: "alias_retire a (al_revision a) now = Ok ?b"
    using assms(2,3) room
    by (cases "al_lifecycle a") (auto simp: alias_retire_def alias_update_Ok alias_load_eq not_less)
  have "al_lifecycle t = LifeRetired now \<and> check_conversation t sender c later \<noteq> Ok ()"
    if "run_machine alias_step ?b commands = (t, outs)" for commands t outs sender c later
    using retired_run [OF _ that, of now] by (simp add: check_conversation_def Let_def)
  then show ?thesis using retire by (metis prod.collapse)
qed

end
