(* ===== verification/Account_Samples.thy ===== *)
theory Account_Samples
  imports Accounts Aliases
begin

text \<open>The properties of accounts, addresses, receiving permissions and aliases applied to concrete records.\<close>

section \<open>Accounts and addresses\<close>

definition sample_control :: account_control where
  "sample_control = \<lparr>ak_status = AccountActive, ak_revision = 0, ak_personas = {|3|}, ak_managers = {|6|}\<rparr>"

theorem account_lifecycle_witness:
  "let k = fst (run_machine account_step sample_control
       [AccountCommand (AddPersona 4), AccountCommand (RevokeManager 6), SecurityChange (Some 8)]) in
     control_load k = Ok k \<and> 3 |\<in>| ak_personas k"
proof -
  have "control_load sample_control = Ok sample_control"
    by (simp add: sample_control_def control_load_def)
  from account_lifecycle [OF this, of "[AccountCommand (AddPersona 4), AccountCommand (RevokeManager 6), SecurityChange (Some 8)]"]
  show ?thesis by (auto simp: sample_control_def Let_def)
qed

definition sample_address :: member_address where
  "sample_address = \<lparr>ma_value = str_bytes ''ann@mail.example'', ma_domain = str_bytes ''mail.example''\<rparr>"

lemma sample_address_parses: "address_parse (str_bytes '' Ann@Mail.example'') = Ok sample_address"
  by (simp add: address_parse_def sample_address_def str_bytes_def trim_def char_count_def ascii_lower_def local_byte_def
      domain_byte_def valid_label_def Let_def of_char_def cong: lazily)

theorem address_normal_form_witness: "address_parse (str_bytes ''ann@mail.example'') = Ok sample_address"
  using address_normal_form [OF sample_address_parses] by (simp add: sample_address_def)

section \<open>Permissions and aliases\<close>

definition sample_permission :: receiving_permission where
  "sample_permission = \<lparr>pm_alias = 1, pm_owner = 3, pm_revision = 0, pm_changed_at = 10, pm_state = PermNone\<rparr>"

lemma sample_permission_loads: "permission_load sample_permission = Ok sample_permission"
  by (simp add: sample_permission_def permission_load_def permission_grant_def)

text \<open>The second change names the revision the first has spent: it is refused.\<close>

definition sample_changes :: "permission_command list" where
  "sample_changes = [PermissionOpen 0 12, PermissionRemove 0 13, PermissionRemove 1 14]"

lemma sample_changes_run:
  "run_machine permission_step sample_permission sample_changes
     = (sample_permission\<lparr>pm_revision := 2, pm_changed_at := 14\<rparr>, [Some 0, Some 1])"
  by (simp add: sample_changes_def sample_permission_def permission_operations permission_change_def permission_load_def
      permission_grant_def alias_grant_establish_def checked_add_def fail_if_def)

theorem permission_revisions_serial_witness:
  "[unat r. Some r \<leftarrow> [Some 0, Some (1 :: u64)]] = [unat (0 :: u64)..<unat (2 :: u64)]"
  using permission_revisions_serial [OF sample_permission_loads sample_changes_run] by (simp add: sample_permission_def)

definition sample_alias :: member_alias where
  "sample_alias = \<lparr>al_id = 1, al_owner = 3, al_address = sample_address,
     al_configuration = \<lparr>cfg_description = str_bytes ''shop'', cfg_receiving = PolicyBonded\<rparr>,
     al_created_at = 10, al_changed_at = 10, al_revision = 0, al_lifecycle = LifeActive, al_permission = sample_permission\<rparr>"

lemma sample_alias_loads: "alias_load sample_alias = Ok sample_alias"
proof -
  have fields: "al_id sample_alias = 1" "al_owner sample_alias = 3" "al_created_at sample_alias = 10" "al_changed_at sample_alias = 10"
    "al_revision sample_alias = 0" "al_lifecycle sample_alias = LifeActive" "al_permission sample_alias = sample_permission"
    "cfg_receiving (al_configuration sample_alias) = PolicyBonded"
    by (simp_all add: sample_alias_def)
  show ?thesis
    by (simp add: alias_load_def fields opening_time_def life_simps sample_permission_def)
qed

definition sample_conversation :: admitted_conversation where
  "sample_conversation = \<lparr>cv_alias = 1, cv_conversation = 7, cv_sender = 5, cv_admitted_at = 15\<rparr>"

definition sample_restricted :: member_alias where
  "sample_restricted = sample_alias\<lparr>al_revision := 1, al_changed_at := 20,
     al_lifecycle := LifeRestricted 20 (bt_insert 7 sample_conversation bt_empty) bt_empty\<rparr>"

lemmas alias_evaluation =
  alias_load_def opening_time_def life_simps latest_def bt_len_def bt_values_def try_word_def checked_add_def
  sample_alias_def sample_permission_def sample_conversation_def fail_if_def

lemma sample_restriction: "alias_restrict sample_alias 0 [sample_conversation] 20 = Ok sample_restricted"
  by (simp add: alias_restrict_def alias_existing_def alias_update_def bt_collect_def sample_restricted_def
      alias_evaluation)

definition sample_approved :: member_alias where
  "sample_approved = sample_restricted\<lparr>al_revision := 2, al_changed_at := 25,
     al_lifecycle := LifeRestricted 20 (bt_insert 7 sample_conversation bt_empty) (bt_insert 8 \<lparr>ap_sender = 9, ap_at = 25\<rparr> bt_empty)\<rparr>"

lemma sample_approval:
  "run_machine alias_step sample_restricted [ApproveConversation 1 9 8 25] = (sample_approved, [Some 1])"
  by (simp add: approve_conversation_def approval_new_def alias_update_def sample_restricted_def sample_approved_def
      alias_evaluation)

theorem closed_entrance_witness:
  "check_conversation sample_approved 9 8 30 = Ok () \<and> (9 :: protocol_identity) \<noteq> al_owner sample_alias"
proof -
  have "check_conversation sample_approved 9 8 30 = Ok ()"
    by (simp add: check_conversation_def sample_approved_def sample_restricted_def alias_evaluation Let_def)
  then show ?thesis using closed_entrance [OF sample_restriction sample_approval] by blast
qed

theorem alias_can_be_retired_witness:
  "\<exists>b. alias_retire sample_alias 0 30 = Ok b \<and> check_conversation b 5 7 40 \<noteq> Ok ()"
proof -
  obtain b where b: "alias_retire sample_alias (al_revision sample_alias) 30 = Ok b"
      "\<forall>commands sender c later. let t = fst (run_machine alias_step b commands) in
         al_lifecycle t = LifeRetired 30 \<and> check_conversation t sender c later \<noteq> Ok ()"
    using alias_can_be_retired [OF sample_alias_loads, of 30] by (auto simp: sample_alias_def)
  then show ?thesis using spec [OF b(2), of "[]"] by (auto simp: sample_alias_def Let_def)
qed

end
