(* ===== verification/Consent.thy ===== *)
theory Consent
  imports Content Authority
begin

text \<open>
  Scoped decryption grants and disclosure consent (\<open>crates/cs-mail-consent/src\<close>).  A grant names
  one actor, one purpose, at most a hundred messages and a window of at most a day; it is issued,
  checked at each use and revoked.  The lemmas say exactly when a grant authorizes a use and that
  revocation is final, and that disclosure follows the last accepted decision.
\<close>

section \<open>Grants\<close>

datatype consent_error =
  ConsentInvalid | ConsentUnauthorized | ScopeDenied | ConsentExpired | ConsentRevoked
| ConsentUnavailable | ConsentConflict

type_synonym grant_id = u128

definition grant_id_new :: "u128 \<Rightarrow> (grant_id, consent_error) res" where
  "grant_id_new value = fail_if (value = 0) ConsentInvalid (Ok value)"

definition max_scope_messages :: nat where
  "max_scope_messages = 100"

definition max_grant_lifetime :: u64 where
  "max_grant_lifetime = 86400000"

definition content_scope :: "message_id fset \<Rightarrow> (message_id fset, consent_error) res" where
  "content_scope v = fail_if (v = {||} \<or> fcard v > max_scope_messages \<or> 0 |\<in>| v) ConsentInvalid (Ok v)"

datatype decryption_purpose = PurposeDisplay | CsqdProcessing bytes

definition operation_byte :: "u8 \<Rightarrow> bool" where
  "operation_byte b \<longleftrightarrow> (97 \<le> b \<and> b \<le> 122) \<or> (65 \<le> b \<and> b \<le> 90) \<or> (48 \<le> b \<and> b \<le> 57) \<or> b \<in> set (str_bytes ''._-'')"

definition decryption_purpose_validate :: "decryption_purpose \<Rightarrow> (unit, consent_error) res" where
  "decryption_purpose_validate p =
     fail_if (case p of
         CsqdProcessing operation \<Rightarrow> operation = [] \<or> length operation > 64 \<or> \<not> list_all operation_byte operation
       | PurposeDisplay \<Rightarrow> False) ConsentInvalid (Ok ())"

datatype decryption_actor = UserDevice operational_key_ref | CsqdProcessor operational_key_ref

record grant_use =
  gu_actor :: decryption_actor
  gu_purpose :: decryption_purpose
  gu_destination :: endpoint_public_key

definition use_validate :: "grant_use \<Rightarrow> (unit, consent_error) res" where
  "use_validate u =
     and_then (decryption_purpose_validate (gu_purpose u)) (\<lambda>_.
     and_then (case (gu_actor u, gu_purpose u) of
         (UserDevice key, PurposeDisplay) \<Rightarrow> Ok key
       | (CsqdProcessor key, CsqdProcessing _) \<Rightarrow> Ok key
       | _ \<Rightarrow> Err ConsentInvalid) (\<lambda>key.
     fail_if (key = 0 \<or> ep_reference (gu_destination u) = 0 \<or> ep_bytes (gu_destination u) = 0) ConsentInvalid
     (Ok ())))"

datatype grant_state = GrantActive | GrantRevoked canonical_time

datatype grant_status = StatusActive | StatusExpired | StatusRevoked

record grant_terms =
  gt_id :: grant_id
  gt_account :: account_id
  gt_persona :: protocol_identity
  gt_issuer :: operational_key_ref
  gt_scope :: "message_id fset"
  gt_usage :: grant_use
  gt_issued_at :: canonical_time
  gt_expires_at :: canonical_time

record decryption_grant =
  dg_terms :: grant_terms
  dg_state :: grant_state

definition grant_load :: "decryption_grant \<Rightarrow> (decryption_grant, consent_error) res" where
  "grant_load v =
     (let t = dg_terms v in
      and_then (use_validate (gt_usage t)) (\<lambda>_.
      fail_if (gt_account t = 0 \<or> gt_persona t = 0 \<or> gt_issuer t = 0
         \<or> gt_expires_at t \<le> gt_issued_at t
         \<or> gt_expires_at t - gt_issued_at t > max_grant_lifetime
         \<or> (case dg_state v of GrantRevoked now \<Rightarrow> now < gt_issued_at t | GrantActive \<Rightarrow> False)
         \<or> (case gu_actor (gt_usage t) of UserDevice k \<Rightarrow> k \<noteq> gt_issuer t | _ \<Rightarrow> False)) ConsentInvalid
      (Ok v)))"

definition grant_issue :: "grant_terms \<Rightarrow> (decryption_grant, consent_error) res" where
  "grant_issue terms = grant_load \<lparr>dg_terms = terms, dg_state = GrantActive\<rparr>"

definition grant_status_at :: "decryption_grant \<Rightarrow> canonical_time \<Rightarrow> grant_status" where
  "grant_status_at g now =
     (if (case dg_state g of GrantRevoked _ \<Rightarrow> True | GrantActive \<Rightarrow> False) then StatusRevoked
      else if now \<ge> gt_expires_at (dg_terms g) then StatusExpired
      else StatusActive)"

definition grant_revoke :: "decryption_grant \<Rightarrow> canonical_time \<Rightarrow> (decryption_grant, consent_error) res" where
  "grant_revoke g now =
     fail_if (now < gt_issued_at (dg_terms g)) ConsentInvalid
     (Ok (if dg_state g = GrantActive then g\<lparr>dg_state := GrantRevoked now\<rparr> else g))"

definition grant_authorize ::
  "decryption_grant \<Rightarrow> decryption_actor \<Rightarrow> decryption_purpose \<Rightarrow> message_id \<Rightarrow> canonical_time
     \<Rightarrow> (unit, consent_error) res" where
  "grant_authorize g actor purpose message now =
     fail_if (now < gt_issued_at (dg_terms g)) ConsentUnauthorized
     (and_then (case grant_status_at g now of
          StatusExpired \<Rightarrow> Err ConsentExpired
        | StatusRevoked \<Rightarrow> Err ConsentRevoked
        | StatusActive \<Rightarrow> Ok ()) (\<lambda>_.
      fail_if (gu_actor (gt_usage (dg_terms g)) \<noteq> actor \<or> gu_purpose (gt_usage (dg_terms g)) \<noteq> purpose
         \<or> message |\<notin>| gt_scope (dg_terms g)) ScopeDenied
      (Ok ())))"

section \<open>Disclosure\<close>

datatype disclosure_consent = NotGranted | Granted canonical_time | Withdrawn canonical_time

definition disclosure_grant :: "disclosure_consent \<Rightarrow> canonical_time \<Rightarrow> (disclosure_consent, consent_error) res" where
  "disclosure_grant d now =
     fail_if (case d of Granted t \<Rightarrow> now < t | Withdrawn t \<Rightarrow> now < t | NotGranted \<Rightarrow> False) ConsentInvalid
     (case d of Granted t \<Rightarrow> Ok d | _ \<Rightarrow> Ok (Granted now))"

definition permits_dispatch :: "disclosure_consent \<Rightarrow> bool" where
  "permits_dispatch d \<longleftrightarrow> (case d of Granted _ \<Rightarrow> True | _ \<Rightarrow> False)"

definition disclosure_withdraw :: "disclosure_consent \<Rightarrow> canonical_time \<Rightarrow> (disclosure_consent, consent_error) res" where
  "disclosure_withdraw d now =
     (case d of
        NotGranted \<Rightarrow> Ok d
      | Granted t \<Rightarrow> fail_if (now < t) ConsentInvalid (Ok (Withdrawn now))
      | Withdrawn t \<Rightarrow> fail_if (now < t) ConsentInvalid (Ok d))"

section \<open>Use and revocation of a grant\<close>

text \<open>Revocations at various times, accepted or refused.\<close>

definition grant_step :: "decryption_grant \<Rightarrow> canonical_time \<Rightarrow> (decryption_grant \<times> unit, consent_error) res" where
  "grant_step g now = map_ok (\<lambda>g'. (g', ())) (grant_revoke g now)"

definition grant_after :: "decryption_grant \<Rightarrow> decryption_grant \<Rightarrow> bool" where
  "grant_after g g' \<longleftrightarrow> grant_load g' = Ok g' \<and> dg_terms g' = dg_terms g
     \<and> (dg_state g \<noteq> GrantActive \<longrightarrow> dg_state g' = dg_state g)"

lemma grant_step_after: "grant_after g h \<Longrightarrow> grant_step h now = Ok (h', u) \<Longrightarrow> grant_after g h'"
  by (auto simp: grant_after_def grant_step_def grant_revoke_def grant_load_def Let_def split: if_splits grant_state.splits decryption_actor.splits)

interpretation grant_machine: invariant_machine grant_step "grant_after g" for g
  by unfold_locales (rule grant_step_after)

lemma grant_authorize_Ok:
  "grant_authorize g actor purpose message now = Ok () \<longleftrightarrow>
     gt_issued_at (dg_terms g) \<le> now \<and> now < gt_expires_at (dg_terms g) \<and> dg_state g = GrantActive
     \<and> gu_actor (gt_usage (dg_terms g)) = actor \<and> gu_purpose (gt_usage (dg_terms g)) = purpose
     \<and> message |\<in>| gt_scope (dg_terms g)"
  by (cases "dg_state g") (auto simp: grant_authorize_def grant_status_at_def not_less)

lemma grant_issue_Ok:
  "grant_issue terms = Ok g \<Longrightarrow> g = \<lparr>dg_terms = terms, dg_state = GrantActive\<rparr> \<and> grant_load g = Ok g"
  by (auto simp: grant_issue_def grant_load_def Let_def split: decryption_actor.splits)

lemma window_bounded:
  assumes "grant_load g = Ok g"
  shows "unat (gt_expires_at (dg_terms g)) \<le> unat (gt_issued_at (dg_terms g)) + 86400000"
proof -
  have le: "gt_issued_at (dg_terms g) < gt_expires_at (dg_terms g)"
    and "gt_expires_at (dg_terms g) - gt_issued_at (dg_terms g) \<le> max_grant_lifetime"
    using assms by (auto simp: grant_load_def Let_def not_less not_le)
  then have "unat (gt_expires_at (dg_terms g)) - unat (gt_issued_at (dg_terms g)) \<le> 86400000"
    using unat_sub [OF order.strict_implies_order [OF le]] by (simp add: max_grant_lifetime_def word_le_nat_alt)
  then show ?thesis by simp
qed

lemma grant_roles_separate:
  assumes "grant_load g = Ok g" and "grant_authorize g actor purpose message now = Ok ()"
  shows "unat now < unat (gt_issued_at (dg_terms g)) + 86400000
     \<and> (case actor of UserDevice k \<Rightarrow> k = gt_issuer (dg_terms g) \<and> purpose = PurposeDisplay
         | CsqdProcessor _ \<Rightarrow> purpose \<noteq> PurposeDisplay)"
proof -
  have "unat now < unat (gt_expires_at (dg_terms g))" using assms(2) by (simp add: grant_authorize_Ok word_less_nat_alt)
  moreover have "case actor of UserDevice k \<Rightarrow> k = gt_issuer (dg_terms g) \<and> purpose = PurposeDisplay
         | CsqdProcessor _ \<Rightarrow> purpose \<noteq> PurposeDisplay"
    using assms
    by (cases actor; cases purpose) (auto simp: grant_authorize_Ok grant_load_def use_validate_def Let_def)
  ultimately show ?thesis using window_bounded [OF assms(1)] by linarith
qed

text \<open>
  C27: A decryption grant is used as it was issued or not at all.  Whatever revocations were tried
  on an issued grant, it authorizes an actor only for its own purpose and a message of its scope,
  within the window it was issued for, which is at most a day; a user device acts only under the
  issuing key, a processor never for display; and if one of the revocations was at or after the
  issue it authorizes nothing more.
\<close>

theorem grant_authorizes_as_issued:
  assumes "grant_issue terms = Ok g"
  shows "grant_authorize (fst (run_machine grant_step g revocations)) actor purpose message now = Ok () \<longleftrightarrow>
       (\<forall>t\<in>set revocations. t < gt_issued_at terms)
     \<and> gt_issued_at terms \<le> now \<and> now < gt_expires_at terms
     \<and> actor = gu_actor (gt_usage terms) \<and> purpose = gu_purpose (gt_usage terms) \<and> message |\<in>| gt_scope terms
     \<and> unat now < unat (gt_issued_at terms) + 86400000
     \<and> (case actor of UserDevice k \<Rightarrow> k = gt_issuer terms \<and> purpose = PurposeDisplay
         | CsqdProcessor _ \<Rightarrow> purpose \<noteq> PurposeDisplay)"
    (is "?use \<longleftrightarrow> ?free \<and> ?fits")
proof -
  note g = grant_issue_Ok [OF assms]
  obtain h outs where h: "run_machine grant_step g revocations = (h, outs)" by (cases "run_machine grant_step g revocations")
  have "grant_after g g" using conjunct2 [OF g] unfolding grant_after_def by simp
  then have after: "grant_after g h" by (rule grant_machine.run_inv [OF _ h])
  have "run_machine grant_step x rs = (y, os) \<Longrightarrow> dg_terms x = terms \<Longrightarrow>
      dg_state y = GrantActive \<longleftrightarrow> dg_state x = GrantActive \<and> (\<forall>t\<in>set rs. t < gt_issued_at terms)" for x y os rs
  proof (induction rs arbitrary: x os)
    case (Cons r rs)
    show ?case
    proof (cases "r < gt_issued_at terms")
      case True
      then show ?thesis using Cons by (simp add: grant_step_def grant_revoke_def)
    next
      case False
      then have "grant_step x r = Ok (if dg_state x = GrantActive then x\<lparr>dg_state := GrantRevoked r\<rparr> else x, ())"
        using Cons.prems(2) by (simp add: grant_step_def grant_revoke_def)
      then show ?thesis using Cons False by (auto split: prod.splits if_splits)
    qed
  qed simp
  from this [OF h] have "dg_state h = GrantActive \<longleftrightarrow> ?free" using g by simp
  then have exact: "grant_authorize h actor purpose message now = Ok () \<longleftrightarrow> ?free
     \<and> gt_issued_at terms \<le> now \<and> now < gt_expires_at terms \<and> gu_actor (gt_usage terms) = actor
     \<and> gu_purpose (gt_usage terms) = purpose \<and> message |\<in>| gt_scope terms"
    using after g by (auto simp: grant_authorize_Ok grant_after_def)
  have th: "dg_terms h = terms" and load: "grant_load h = Ok h" using after g by (simp_all add: grant_after_def)
  have "grant_authorize h actor purpose message now = Ok () \<Longrightarrow>
      unat now < unat (gt_issued_at terms) + 86400000
     \<and> (case actor of UserDevice k \<Rightarrow> k = gt_issuer terms \<and> purpose = PurposeDisplay
         | CsqdProcessor _ \<Rightarrow> purpose \<noteq> PurposeDisplay)"
    using grant_roles_separate [OF load] unfolding th by blast
  then show ?thesis using exact h by (simp only: fst_conv) blast
qed

section \<open>The last decision counts\<close>

datatype disclosure_call = GrantDisclosure canonical_time | WithdrawDisclosure canonical_time

primrec disclosure_step :: "disclosure_consent \<Rightarrow> disclosure_call \<Rightarrow> (disclosure_consent \<times> bool, consent_error) res" where
  "disclosure_step d (GrantDisclosure now) = map_ok (\<lambda>d'. (d', True)) (disclosure_grant d now)"
| "disclosure_step d (WithdrawDisclosure now) = map_ok (\<lambda>d'. (d', False)) (disclosure_withdraw d now)"

text \<open>
  Dispatch follows the last accepted decision.  After any sequence of grants and withdrawals a
  conversation may be disclosed exactly if the last accepted decision was a grant, or none was
  accepted and it was already allowed.
\<close>

theorem disclosure_follows_last_decision:
  assumes "run_machine disclosure_step d calls = (d', decisions)"
  shows "permits_dispatch d' \<longleftrightarrow> last (permits_dispatch d # decisions)"
  using assms
proof (induction calls arbitrary: d decisions)
  case (Cons call calls)
  show ?case
  proof (cases "disclosure_step d call")
    case (Ok r)
    obtain e decision where e: "disclosure_step d call = Ok (e, decision)" using Ok by (cases r) simp
    then obtain ds where ds: "run_machine disclosure_step e calls = (d', ds)" "decisions = decision # ds"
      using Cons.prems by (auto split: prod.splits)
    have "permits_dispatch e = decision"
      using e by (cases call; cases d) (auto simp: disclosure_grant_def disclosure_withdraw_def permits_dispatch_def)
    then show ?thesis using Cons.IH [OF ds(1)] ds(2) by simp
  qed (use Cons in auto)
qed simp

end
