(* ===== verification/Guests.thy ===== *)
theory Guests
  imports Directory Encoding Kernel_Runs Authority
begin

text \<open>
  Guest senders (\<open>crates/cs-mail-guests/src/lib.rs\<close>, \<open>notices.rs\<close>, \<open>request.rs\<close>): mailboxes and the
  subjects of protocol identities, the history a guest's request uses, and the notices a guest is
  owed.  The lemmas show that the stored keys tell subjects and evidence apart, that linking
  histories never makes a guest's limits weaker, and that no notice once owed is lost.
\<close>

section \<open>Mailboxes\<close>

datatype guest_error =
  GstInvalidMailbox | GstInvalidVerificationState | GstVerificationClosed | GstTooManyAttempts | GstWrongCode
| GstSessionExpired | GstPendingRequestsConflict | GstPendingRequest | GstRecipientMismatch | GstRateLimited
| GstNotAGuestCommand | GstAlteredRequest

record guest_mailbox =
  gm_local :: bytes
  gm_domain :: bytes

definition mailbox_byte :: "u8 \<Rightarrow> bool" where
  "mailbox_byte b \<longleftrightarrow> 0x21 \<le> b \<and> b \<le> 0x7E \<and> b \<notin> {64, 34, 40, 41, 44, 58, 59, 60, 62, 91, 92, 93}"

definition rsplit_once :: "u8 \<Rightarrow> bytes \<Rightarrow> (bytes \<times> bytes) option" where
  "rsplit_once x s = map_option (\<lambda>(r, l). (rev l, rev r)) (split_once x (rev s))"

definition mailbox_parse :: "bytes \<Rightarrow> (guest_mailbox, guest_error) res" where
  "mailbox_parse input =
     and_then (ok_or (rsplit_once 64 (trim input)) GstInvalidMailbox) (\<lambda>(local_part, domain).
     fail_if (local_part = [] \<or> length local_part > 64 \<or> \<not> list_all mailbox_byte local_part) GstInvalidMailbox
     (and_then (map_err (\<lambda>_. GstInvalidMailbox) (parse_ascii domain)) (\<lambda>d.
      Ok \<lparr>gm_local = local_part, gm_domain = d\<rparr>)))"

definition mailbox_address :: "guest_mailbox \<Rightarrow> bytes" where
  "mailbox_address m = gm_local m @ 64 # gm_domain m"

definition mailbox_mapping_version :: u16 where
  "mailbox_mapping_version = 1"

definition guest_identity_preimage :: "guest_mailbox \<Rightarrow> bytes32 \<Rightarrow> bytes" where
  "guest_identity_preimage m deployment =
     str_bytes ''cs-mail/guest-mailbox-identity/v1'' @ be_bytes 32 deployment
       @ be_bytes 2 mailbox_mapping_version @ mailbox_address m"

definition guest_identity :: "crypto \<Rightarrow> guest_mailbox \<Rightarrow> bytes32 \<Rightarrow> protocol_identity" where
  "guest_identity c m deployment = high_u128 (cr_sha256 c (guest_identity_preimage m deployment)) OR 1"

section \<open>Subjects and evidence\<close>

datatype sender_subject = MemberSubject account_id | LegacyDomainSubject bytes | GuestSubject guest_mailbox

text \<open>A number in decimal notation, as \<open>format!\<close> writes it.\<close>

fun decimal :: "nat \<Rightarrow> bytes" where
  "decimal n = (if n < 10 then [48 + of_nat n] else decimal (n div 10) @ [48 + of_nat (n mod 10)])"

declare decimal.simps [simp del]

definition subject_key :: "sender_subject \<Rightarrow> protocol_identity \<Rightarrow> bytes" where
  "subject_key s identity =
     (case s of
        MemberSubject a \<Rightarrow> str_bytes ''member:'' @ decimal (unat a) @ str_bytes '':'' @ decimal (unat identity)
      | LegacyDomainSubject d \<Rightarrow> str_bytes ''legacy-domain:'' @ d
      | GuestSubject m \<Rightarrow> str_bytes ''guest:'' @ mailbox_address m)"

definition is_guest :: "sender_subject \<Rightarrow> bool" where
  "is_guest s \<longleftrightarrow> (case s of GuestSubject _ \<Rightarrow> True | _ \<Rightarrow> False)"

type_synonym instrument_fingerprint = bytes32

datatype history_evidence = MailboxEvidence guest_mailbox | FingerprintEvidence instrument_fingerprint

definition hex_digit :: "u8 \<Rightarrow> u8" where
  "hex_digit d = (if d < 10 then 48 + d else 87 + d)"

definition hex_byte :: "u8 \<Rightarrow> bytes" where
  "hex_byte b = [hex_digit (drop_bit 4 b), hex_digit (b AND 15)]"

definition evidence_key :: "history_evidence \<Rightarrow> bytes" where
  "evidence_key e =
     (case e of
        MailboxEvidence m \<Rightarrow> str_bytes ''mailbox:'' @ mailbox_address m
      | FingerprintEvidence f \<Rightarrow> str_bytes ''fingerprint:'' @ concat (map hex_byte (be_bytes 32 f)))"

section \<open>Request histories\<close>

definition saturating_next :: "version \<Rightarrow> version" where
  "saturating_next v = (case version_checked_next v of Some w \<Rightarrow> w | None \<Rightarrow> v)"


record history_decision =
  hd_history :: scoped_ref
  hd_create :: "request_history option"
  hd_merged :: "(scoped_ref \<times> scoped_ref) option"
  hd_link :: "history_evidence list"

definition resolve_history ::
  "protocol_identity \<Rightarrow> guest_mailbox \<Rightarrow> request_history option \<Rightarrow> instrument_fingerprint \<Rightarrow> request_history option
     \<Rightarrow> scoped_ref \<Rightarrow> scoped_ref \<Rightarrow> canonical_time \<Rightarrow> (history_decision, guest_error) res" where
  "resolve_history recipient mailbox by_mailbox fingerprint by_fingerprint fresh merged now =
     fail_if ((case by_mailbox of Some h \<Rightarrow> hi_recipient h \<noteq> recipient | None \<Rightarrow> False)
        \<or> (case by_fingerprint of Some h \<Rightarrow> hi_recipient h \<noteq> recipient | None \<Rightarrow> False)) GstRecipientMismatch
     (case (by_mailbox, by_fingerprint) of
        (None, None) \<Rightarrow>
          Ok \<lparr>hd_history = fresh, hd_create = Some (history_new fresh recipient now), hd_merged = None,
              hd_link = [MailboxEvidence mailbox, FingerprintEvidence fingerprint]\<rparr>
      | (Some one, None) \<Rightarrow>
          Ok \<lparr>hd_history = hi_reference one, hd_create = None, hd_merged = None, hd_link = [FingerprintEvidence fingerprint]\<rparr>
      | (None, Some one) \<Rightarrow>
          Ok \<lparr>hd_history = hi_reference one, hd_create = None, hd_merged = None, hd_link = [MailboxEvidence mailbox]\<rparr>
      | (Some a, Some b) \<Rightarrow>
          (if hi_reference a = hi_reference b then
             Ok \<lparr>hd_history = hi_reference a, hd_create = None, hd_merged = None, hd_link = []\<rparr>
           else
             fail_if (hi_pending a \<noteq> None \<and> hi_pending b \<noteq> None) GstPendingRequestsConflict
             (Ok \<lparr>hd_history = merged,
                  hd_create = Some \<lparr>hi_reference = merged, hi_recipient = recipient,
                    hi_level = max (hi_level a) (hi_level b), hi_earliest = max (hi_earliest a) (hi_earliest b),
                    hi_pending = (case hi_pending a of None \<Rightarrow> hi_pending b | p \<Rightarrow> p),
                    hi_version = saturating_next (max (hi_version a) (hi_version b)),
                    hi_last_event = None, hi_changed_at = now\<rparr>,
                  hd_merged = Some (hi_reference a, hi_reference b),
                  hd_link = [MailboxEvidence mailbox, FingerprintEvidence fingerprint]\<rparr>)))"

section \<open>Notices and retried inputs\<close>

datatype guest_outcome =
  OutSubmitted | OutAccepted | OutRejected | OutExpired | OutCancelled | OutRefundConfirmed money

record guest_notice =
  gn_request :: request_id
  gn_outcome :: guest_outcome

type_synonym notice_id = u128

datatype notice_error = InvalidNoticeId

definition notice_id_new :: "u128 \<Rightarrow> (notice_id, notice_error) res" where
  "notice_id_new value = fail_if (value = 0) InvalidNoticeId (Ok value)"

definition notices_for :: "request_id \<Rightarrow> request_lifecycle \<Rightarrow> financial_view option \<Rightarrow> guest_notice list" where
  "notices_for request lifecycle money =
     map (\<lambda>outcome. \<lparr>gn_request = request, gn_outcome = outcome\<rparr>)
       ((case lifecycle of
           PreparingSubmission _ \<Rightarrow> []
         | AwaitingRecipientDecision _ \<Rightarrow> [OutSubmitted]
         | LcAccepted _ _ _ \<Rightarrow> [OutSubmitted, OutAccepted]
         | LcRejected _ _ \<Rightarrow> [OutSubmitted, OutRejected]
         | LcExpired _ _ \<Rightarrow> [OutSubmitted, OutExpired]
         | LcCancelled _ _ \<Rightarrow> [OutCancelled])
        @ (case map_option fv_refund money of Some (ViewConfirmed amount) \<Rightarrow> [OutRefundConfirmed amount] | _ \<Rightarrow> []))"

text \<open>The keyed hash of the crate hmac is the argument \<open>hmac\<close>.\<close>

record guest_request_input =
  gi_alias :: alias_id
  gi_mailbox :: guest_mailbox
  gi_recipient :: protocol_identity
  gi_class :: request_class_id
  gi_payment_token :: bytes32
  gi_message :: bytes

definition request_input_preimage :: "guest_request_input \<Rightarrow> bytes32 \<Rightarrow> idempotency_key \<Rightarrow> bytes" where
  "request_input_preimage i deployment operation =
     str_bytes ''cs-mail/guest-request-input/v2'' @ be_bytes 32 deployment @ be_bytes 16 operation
       @ be_bytes 8 (of_nat (length (mailbox_address (gi_mailbox i))) :: u64) @ mailbox_address (gi_mailbox i)
       @ be_bytes 16 (gi_recipient i) @ be_bytes 16 (gi_alias i) @ be_bytes 16 (gi_class i)
       @ be_bytes 32 (gi_payment_token i) @ gi_message i"

definition request_fingerprint ::
  "(bytes32 \<Rightarrow> bytes \<Rightarrow> bytes32) \<Rightarrow> guest_request_input \<Rightarrow> bytes32 \<Rightarrow> bytes32 \<Rightarrow> idempotency_key \<Rightarrow> bytes32" where
  "request_fingerprint hmac i secret deployment operation = hmac secret (request_input_preimage i deployment operation)"

definition check_retry :: "bytes32 \<Rightarrow> bytes32 \<Rightarrow> (unit, guest_error) res" where
  "check_retry fingerprint stored = (if fingerprint = stored then Ok () else Err GstAlteredRequest)"

section \<open>Mailboxes are in normal form\<close>

definition mailbox_ok :: "guest_mailbox \<Rightarrow> bool" where
  "mailbox_ok m \<longleftrightarrow> gm_local m \<noteq> [] \<and> length (gm_local m) \<le> 64 \<and> list_all mailbox_byte (gm_local m)
     \<and> parse_ascii (gm_domain m) = Ok (gm_domain m)"

lemma split_dots_nonempty: "split_dots xs \<noteq> []"
  by (cases xs) (auto split: list.splits)

lemma split_dots_snoc: "split_dots (xs @ [46]) = split_dots xs @ [[]]"
  by (induction xs) (auto simp: split_dots_nonempty split: list.splits)

lemma parse_ascii_again: "parse_ascii s = Ok d \<Longrightarrow> parse_ascii d = Ok d"
proof -
  assume parsed: "parse_ascii s = Ok d"
  then have len: "d \<noteq> []" "length d \<le> 253" and labels: "list_all valid_label (split_dots d)"
    and low: "map ascii_lower d = d"
    by (auto simp: parse_ascii_def Let_def ascii_lower_def word_le_nat_alt unat_word_ariths)
  have "last d \<noteq> 46"
  proof
    assume "last d = 46"
    then have "d = butlast d @ [46]" using len(1) by (metis append_butlast_last_id)
    then have "[] \<in> set (split_dots d)" using split_dots_snoc [of "butlast d"] by simp
    then show False using labels by (auto simp: list_all_iff valid_label_def)
  qed
  then have trimmed: "trim_end_dots d = d"
    using len(1) by (cases d rule: rev_cases) (auto simp: trim_end_dots_def)
  have "list_all (\<lambda>b. b < 128) d"
    unfolding list_all_iff
  proof
    fix b assume "b \<in> set d"
    then have "b = 46 \<or> domain_byte b"
      using split_dots_bytes [of b d] labels by (auto simp: list_all_iff valid_label_def)
    then show "b < 128" by (auto simp: domain_byte_def word_le_nat_alt word_less_nat_alt)
  qed
  then show ?thesis using len labels low trimmed by (simp add: parse_ascii_def Let_def)
qed

lemma domain_bytes: "parse_ascii d = Ok d \<Longrightarrow> b \<in> set d \<Longrightarrow> local_byte b"
proof -
  assume "parse_ascii d = Ok d" and b: "b \<in> set d"
  then have "list_all valid_label (split_dots d)" by (auto simp: parse_ascii_def Let_def)
  then show "local_byte b" using split_dots_bytes [OF b] by (auto simp: list_all_iff valid_label_def local_byte_def)
qed

lemma mailbox_parse_ok: "mailbox_parse s = Ok m \<Longrightarrow> mailbox_ok m"
  by (auto simp: mailbox_parse_def mailbox_ok_def not_less dest: parse_ascii_again)

text \<open>Trimming keeps what begins and ends with printable ASCII.\<close>

lemma trim_printable:
  assumes "list_all (\<lambda>b. 0x21 \<le> b \<and> b \<le> 0x7E) (s :: bytes)" shows "trim s = s"
proof -
  have solid: "\<not> blank_bytes (map unat (a # (xs :: bytes)))" if "0x21 \<le> a" "a \<le> 0x7E" for a :: u8 and xs
  proof -
    have "unat a \<notin> {9, 10, 11, 12, 13, 32, 0xC2, 0xE1, 0xE2, 0xE3}" using that by (auto simp: word_le_nat_alt)
    then show ?thesis by (auto split: list.splits)
  qed
  have "trim_end s = s" using assms
    by (induction s) (simp_all add: solid del: blank_bytes.simps list.map)
  moreover have "trim_start s = s"
  proof (cases s)
    case (Cons a xs)
    then have "0x21 \<le> a" "a \<le> 0x7E" using assms by simp_all
    then have "a \<notin> {9, 10, 11, 12, 13, 32}" "a \<noteq> 0xC2" "\<not> blank_bytes [unat a, unat b, unat c]" for b c :: u8
      using solid [of a "[b, c]"] by (auto simp: word_le_nat_alt)
    then show ?thesis by (auto simp: Cons split: list.splits)
  qed simp
  ultimately show ?thesis by (simp add: trim_def)
qed

lemma rsplit_once_Some: "rsplit_once x s = Some (l, r) \<longleftrightarrow> s = l @ x # r \<and> x \<notin> set r"
proof -
  have "rsplit_once x s = Some (l, r) \<longleftrightarrow> split_once x (rev s) = Some (rev r, rev l)"
    by (auto simp: rsplit_once_def)
  also have "\<dots> \<longleftrightarrow> rev s = rev (l @ x # r) \<and> x \<notin> set r" by (auto simp: split_once_Some)
  finally show ?thesis by (simp only: rev_is_rev_conv)
qed

lemma mailbox_reparses: "mailbox_ok m \<Longrightarrow> mailbox_parse (mailbox_address m) = Ok m"
proof -
  assume ok: "mailbox_ok m"
  have dom: "local_byte b" if "b \<in> set (gm_domain m)" for b
    using ok domain_bytes that by (auto simp: mailbox_ok_def)
  have "list_all (\<lambda>b. 0x21 \<le> b \<and> b \<le> 0x7E) (mailbox_address m)"
    unfolding list_all_iff
  proof
    fix b assume "b \<in> set (mailbox_address m)"
    then consider "b \<in> set (gm_local m)" | "b = 64" | "b \<in> set (gm_domain m)" by (auto simp: mailbox_address_def)
    then show "0x21 \<le> b \<and> b \<le> 0x7E"
    proof cases
      case 1
      then show ?thesis using ok by (auto simp: mailbox_ok_def list_all_iff mailbox_byte_def)
    next
      case 3
      then show ?thesis using dom [OF 3] by (auto simp: local_byte_def domain_byte_def word_le_nat_alt)
    qed simp
  qed
  moreover have "64 \<notin> set (gm_domain m)" using dom [of 64] by (auto simp: local_byte_def domain_byte_def word_le_nat_alt)
  then have "rsplit_once 64 (mailbox_address m) = Some (gm_local m, gm_domain m)"
    by (simp add: rsplit_once_Some mailbox_address_def)
  ultimately show ?thesis using ok by (simp add: mailbox_parse_def trim_printable mailbox_ok_def)
qed

text \<open>
  A guest mailbox is its own normal form: the address of what was parsed parses to the same
  mailbox, so mailboxes can be stored and compared as text.
\<close>

theorem mailbox_roundtrip:
  assumes "mailbox_parse s = Ok m" shows "mailbox_parse (mailbox_address m) = Ok m"
  by (rule mailbox_reparses [OF mailbox_parse_ok [OF assms]])

section \<open>Keys tell subjects and evidence apart\<close>

definition undecimal :: "bytes \<Rightarrow> nat" where
  "undecimal = foldl (\<lambda>n b. 10 * n + (unat b - 48)) 0"

lemma digit_value: "n < 10 \<Longrightarrow> unat (48 + of_nat n :: u8) = 48 + n"
  by (simp add: unat_word_ariths unsigned_of_nat take_bit_nat_eq_self)

lemma undecimal_decimal: "undecimal (decimal n) = n"
proof (induction n rule: decimal.induct)
  case (1 n)
  then show ?case
    by (subst decimal.simps) (auto simp: undecimal_def digit_value)
qed

lemma decimal_inject [enc_facts]: "decimal m = decimal n \<longleftrightarrow> m = n"
  using undecimal_decimal by metis

lemma decimal_digits: "b \<in> set (decimal n) \<Longrightarrow> b \<noteq> 58"
proof (induction n rule: decimal.induct)
  case (1 n)
  have "(48 + of_nat k :: u8) \<noteq> 58" if "k < 10" for k
    using digit_value [OF that] that by (auto simp: word_unat_eq_iff)
  then show ?case using 1 by (subst (asm) decimal.simps) (auto split: if_splits)
qed

lemma no_colon: "58 \<notin> set (decimal n)"
  using decimal_digits by blast

lemma split_at_inject:
  fixes x :: u8
  assumes "x \<notin> set l" "x \<notin> set l'"
  shows "l @ x # r = l' @ x # r' \<longleftrightarrow> l = l' \<and> r = r'"
proof
  assume "l @ x # r = l' @ x # r'"
  then have "split_once x (l @ x # r) = split_once x (l' @ x # r')" by (rule arg_cong)
  moreover have "split_once x (l @ x # r) = Some (l, r)" "split_once x (l' @ x # r') = Some (l', r')"
    using assms by (simp_all add: split_once_Some)
  ultimately show "l = l' \<and> r = r'" by simp
qed simp

lemma mailbox_address_inject:
  assumes "mailbox_ok m" "mailbox_ok n" shows "mailbox_address m = mailbox_address n \<longleftrightarrow> m = n"
  using mailbox_reparses [OF assms(1)] mailbox_reparses [OF assms(2)] by (metis res.inject(1))

lemma hex_digit_value: "d < 16 \<Longrightarrow> unat (hex_digit d) = (if unat d < 10 then 48 + unat d else 87 + unat d)"
  by (simp add: hex_digit_def word_less_nat_alt unat_word_ariths)

lemma hex_digit_inject: "d < 16 \<Longrightarrow> e < 16 \<Longrightarrow> hex_digit d = hex_digit e \<longleftrightarrow> d = e"
  using hex_digit_value [of d] hex_digit_value [of e] by (auto simp: word_unat_eq_iff split: if_splits)

lemma hex_byte_inject: "hex_byte a = hex_byte b \<longleftrightarrow> a = b"
proof
  assume eq: "hex_byte a = hex_byte b"
  have lo: "x AND 15 < 16" for x :: u8
    by (rule order.strict_trans1 [OF word_and_le1]) simp
  have hi: "drop_bit 4 x < 16" for x :: u8
    using unsigned_less [of x, where 'a = nat] by (simp add: word_less_nat_alt drop_bit_eq_div unat_div)
  have "drop_bit 4 a = drop_bit 4 b" "a AND 15 = b AND 15"
    using eq hex_digit_inject [OF lo lo] hex_digit_inject [OF hi hi] by (auto simp: hex_byte_def)
  moreover have "push_bit 4 (drop_bit 4 x) + (x AND 15) = x" for x :: u8
    using bits_ident [of 4 x] by (simp add: take_bit_eq_mask mask_eq_exp_minus_1)
  ultimately show "a = b" by metis
qed simp

lemma hex_bytes_inject: "length xs = length ys \<Longrightarrow> concat (map hex_byte xs) = concat (map hex_byte ys) \<longleftrightarrow> xs = ys"
proof (induction xs ys rule: list_induct2)
  case (Cons x xs y ys)
  then show ?case using hex_byte_inject [of x y] by (auto simp: hex_byte_def)
qed simp

definition subject_ok :: "sender_subject \<Rightarrow> bool" where
  "subject_ok s \<longleftrightarrow> (case s of GuestSubject m \<Rightarrow> mailbox_parse (mailbox_address m) = Ok m | _ \<Rightarrow> True)"

text \<open>
  The keys a deployment stores tell its senders apart.  Two subjects with parsed mailboxes
  have the same key exactly if they are the same subject and, for a member, the same address; two
  pieces of history evidence have the same key exactly if they are the same evidence.
\<close>

theorem sender_keys_distinct:
  assumes "subject_ok s" "subject_ok t"
    and "\<forall>m\<in>{m. e = MailboxEvidence m \<or> f = MailboxEvidence m}. mailbox_parse (mailbox_address m) = Ok m"
  shows "(subject_key s i = subject_key t j \<longleftrightarrow> s = t \<and> ((\<exists>a. s = MemberSubject a) \<longrightarrow> i = j))
     \<and> (evidence_key e = evidence_key f \<longleftrightarrow> e = f)"
proof
  have m: "decimal (unat a) @ 58 # decimal (unat i) = decimal (unat b) @ 58 # decimal (unat j) \<longleftrightarrow> a = b \<and> i = j"
    for a b :: account_id
    by (subst split_at_inject) (auto simp: no_colon enc_facts word_unat_eq_iff)
  have g: "mailbox_address m = mailbox_address n \<longleftrightarrow> m = n"
    if "mailbox_parse (mailbox_address m) = Ok m" "mailbox_parse (mailbox_address n) = Ok n" for m n
    by (rule mailbox_address_inject [OF mailbox_parse_ok [OF that(1)] mailbox_parse_ok [OF that(2)]])
  show "subject_key s i = subject_key t j \<longleftrightarrow> s = t \<and> ((\<exists>a. s = MemberSubject a) \<longrightarrow> i = j)"
    using assms(1,2) m g
    by (cases s; cases t) (auto simp: subject_key_def subject_ok_def str_bytes_def)
  have "concat (map hex_byte (be_bytes 32 x)) = concat (map hex_byte (be_bytes 32 y)) \<longleftrightarrow> x = y" for x y :: bytes32
    by (simp add: hex_bytes_inject enc_facts)
  then show "evidence_key e = evidence_key f \<longleftrightarrow> e = f"
    using assms(3) g by (cases e; cases f) (auto simp: evidence_key_def str_bytes_def)
qed

section \<open>Linking histories\<close>

text \<open>
  C29: Linking evidence never makes a guest's limits weaker.  For histories stored under their
  references, the history a new request uses is one of this recipient, at a level and with a
  waiting time at least those of every history the guest's mailbox or card is linked to; a request
  still pending in one of them is pending in it, and both pieces of evidence lead to it from then
  on.  Only two pending requests, or a history of another recipient, refuse the guest.
\<close>

theorem linked_history_restrictive:
  assumes "\<forall>x y. a = Some x \<and> b = Some y \<and> hi_reference x = hi_reference y \<longrightarrow> x = y"
    and "resolve_history recipient m a f b fresh merged now = Ok d"
  shows "\<exists>h. (hd_create d = Some h \<or> hd_create d = None \<and> (a = Some h \<or> b = Some h))
     \<and> hi_reference h = hd_history d \<and> hi_recipient h = recipient
     \<and> (\<forall>g. a = Some g \<or> b = Some g \<longrightarrow> hi_level g \<le> hi_level h \<and> hi_earliest g \<le> hi_earliest h
          \<and> hi_version g \<le> hi_version h \<and> (hi_pending g \<noteq> None \<longrightarrow> hi_pending h = hi_pending g))
     \<and> (MailboxEvidence m \<in> set (hd_link d) \<or> (\<exists>g. a = Some g \<and> hi_reference g = hd_history d))
     \<and> (FingerprintEvidence f \<in> set (hd_link d) \<or> (\<exists>g. b = Some g \<and> hi_reference g = hd_history d))"
proof -
  have sat: "v \<le> saturating_next (max v w)" "w \<le> saturating_next (max v w)" for v w
  proof -
    have "max v w \<le> saturating_next (max v w)"
      by (auto simp: saturating_next_def word_le_nat_alt version_checked_next_Some split: option.splits)
    then show "v \<le> saturating_next (max v w)" "w \<le> saturating_next (max v w)" by simp_all
  qed
  show ?thesis
  proof (cases a; cases b)
    fix x y assume ab: "a = Some x" "b = Some y"
    show ?thesis
    proof (cases "hi_reference x = hi_reference y")
      case True
      then show ?thesis using assms ab by (auto simp: resolve_history_def)
    next
      case False
      then show ?thesis using assms(2) ab sat by (auto simp: resolve_history_def split: option.splits)
    qed
  qed (use assms(2) in \<open>auto simp: resolve_history_def history_new_def\<close>)
qed

section \<open>Notices\<close>

text \<open>The notices of one relationship, as the service collects them from its snapshot.\<close>

definition owed_notices :: "settlement_snapshot \<Rightarrow> guest_notice list" where
  "owed_notices s =
     concat (map (\<lambda>r. notices_for (rq_id r) (rq_lifecycle r) (map_option rf_view (bt_get (sn_payments s) (rq_id r))))
       (bt_values (st_requests (sn_state s))))"

lemma notices_step:
  "lifecycle_step l l' \<Longrightarrow> set (notices_for i l money) \<subseteq> set (notices_for i l' money)"
  by (auto simp: notices_for_def elim!: lifecycle_step.cases)

lemma notices_path:
  "lifecycle_step\<^sup>*\<^sup>* l l' \<Longrightarrow> set (notices_for i l money) \<subseteq> set (notices_for i l' money)"
  by (induction rule: rtranclp_induct) (use notices_step in blast)+

text \<open>A confirmed refund stays confirmed, for the same operation.\<close>

lemma payment_keeps_confirmed:
  assumes "rf_record_payment c p receipt = Ok (p', fx)" and "rf_shape p" and "rf_refund p = RefundConfirmed q"
  shows "rf_refund p' = RefundConfirmed q"
  using assms(1)
proof (cases rule: rf_record_payment_cases)
  case (recorded operation nxt)
  from recorded(4) assms(2) have "rf_refund nxt = RefundConfirmed q"
  proof (cases rule: rf_reconcile_cases)
    case funded
    then show ?thesis using rf_shape_unfunded(1) [OF assms(2) funded(3)] assms(3) by simp
  qed (use assms(3) in simp_all)
  then show ?thesis by (simp add: recorded(5))
qed (use assms(3) in simp)

lemma settle_keeps_confirmed:
  assumes "rf_settle p s at = Ok (p', fx)" and "rf_shape p" and "rf_refund p = RefundConfirmed q"
  shows "rf_refund p' = RefundConfirmed q"
proof -
  have "rf_settlement p \<noteq> None" using assms(2,3)
    by (cases "rf_settlement p") (auto simp: rf_shape_def refund_due_def split: if_splits)
  then show ?thesis using assms(1,3) by (auto simp: rf_settle_def split: if_splits)
qed

definition confirmed_in :: "settlement_snapshot \<Rightarrow> request_id \<Rightarrow> payment_operation \<Rightarrow> bool" where
  "confirmed_in s i q \<longleftrightarrow> (\<exists>p. bt_get (sn_payments s) i = Some p \<and> rf_refund p = RefundConfirmed q)"

lemma move_keeps_confirmed:
  assumes "kernel_move c now ev k fx k'" and "money_agrees c k" and "bt_get (kk_payments k) i = Some p" and "rf_refund p = RefundConfirmed q"
  shows "\<exists>p'. bt_get (kk_payments k') i = Some p' \<and> rf_refund p' = RefundConfirmed q"
proof -
  have shape: "rf_shape x" if "bt_get (kk_payments k) j = Some x" for j x
    using assms(2) that by (simp add: money_agrees_def rf_inv_def)
  from assms(1) show ?thesis
  proof cases
    case (create r capture contract p)
    then show ?thesis using assms(3,4) by (auto simp: fresh_request_def)
  next
    case (settle j r x settlement l' y h)
    then show ?thesis using assms(3,4) settle_keeps_confirmed [OF settle(6) shape [OF settle(3)]] by (cases "i = j") auto
  next
    case (void j r x preparation receipt y)
    then show ?thesis using assms(3,4) payment_keeps_confirmed [OF void(6) shape [OF void(3)]] by (cases "i = j") auto
  next
    case (pay j x receipt y)
    then show ?thesis using assms(3,4) payment_keeps_confirmed [OF pay(3) shape [OF pay(2)]] by (cases "i = j") auto
  qed (use assms(3,4) in auto)
qed

interpretation kernel_refund: invariant_machine "kernel_step c" "\<lambda>s. kernel_inv c s \<and> confirmed_in s i q"
proof unfold_locales
  fix s x s' plan
  assume inv: "kernel_inv c s \<and> confirmed_in s i q" and st: "kernel_step c s x = Ok (s', plan)"
  obtain input cx where x: "x = (input, cx)" by (cases x)
  from st have "confirmed_in s' i q" unfolding x
  proof (cases rule: kernel_step_Ok)
    case (commits m fx v)
    have "money_agrees c (snapshot_core s)" using inv by (simp add: kernel_inv_def)
    from move_keeps_confirmed [OF commits(5) this] show ?thesis using inv by (auto simp: confirmed_in_def)
  qed (use inv in simp)
  then show "kernel_inv c s' \<and> confirmed_in s' i q" using inv st kernel_step_inv by blast
qed

lemma notices_for_iff:
  "n \<in> set (notices_for i l money) \<longleftrightarrow>
     n \<in> set (notices_for i l None) \<or> (\<exists>v m. money = Some v \<and> fv_refund v = ViewConfirmed m \<and> n = \<lparr>gn_request = i, gn_outcome = OutRefundConfirmed m\<rparr>)"
  by (auto simp: notices_for_def split: refund_view.splits option.splits)

lemma view_confirmed: "fv_refund (rf_view p) = ViewConfirmed m \<longleftrightarrow> (\<exists>q. rf_refund p = RefundConfirmed q \<and> op_amount q = m)"
  by (cases "rf_refund p") (auto simp: rf_view_def Let_def split: prod.split)

lemma owed_notices_iff:
  "n \<in> set (owed_notices s) \<longleftrightarrow>
     (\<exists>i r. request_in s i = Some r \<and> (n \<in> set (notices_for (rq_id r) (rq_lifecycle r) None)
        \<or> (\<exists>q. confirmed_in s (rq_id r) q \<and> n = \<lparr>gn_request = rq_id r, gn_outcome = OutRefundConfirmed (op_amount q)\<rparr>)))"
proof -
  have one: "n \<in> set (notices_for j l (map_option rf_view (bt_get (sn_payments s) j))) \<longleftrightarrow>
      n \<in> set (notices_for j l None)
        \<or> (\<exists>q. confirmed_in s j q \<and> n = \<lparr>gn_request = j, gn_outcome = OutRefundConfirmed (op_amount q)\<rparr>)" for j l
    by (subst notices_for_iff) (auto simp: view_confirmed confirmed_in_def)
  have "n \<in> set (owed_notices s) \<longleftrightarrow>
      (\<exists>r\<in>set (bt_values (st_requests (sn_state s))).
         n \<in> set (notices_for (rq_id r) (rq_lifecycle r) (map_option rf_view (bt_get (sn_payments s) (rq_id r)))))"
    by (simp add: owed_notices_def)
  also have "\<dots> \<longleftrightarrow> (\<exists>i r. request_in s i = Some r
         \<and> n \<in> set (notices_for (rq_id r) (rq_lifecycle r) (map_option rf_view (bt_get (sn_payments s) (rq_id r)))))"
    unfolding Bex_def bt_values_iff request_in_def by blast
  finally show ?thesis unfolding one .
qed

lemma evolves_id:
  assumes "evolves r r'" shows "rq_id r' = rq_id r"
proof -
  have "r' = r\<lparr>rq_lifecycle := rq_lifecycle r', rq_version := rq_version r'\<rparr>" using assms unfolding evolves_def by blast
  then have "rq_id r' = rq_id (r\<lparr>rq_lifecycle := rq_lifecycle r', rq_version := rq_version r'\<rparr>)" by (rule arg_cong)
  then show ?thesis by simp
qed

text \<open>
  C30: No notice a guest is owed is lost.  A relationship that was registered warrants, in every
  snapshot its runs reach, the notices of its requests' decisions and of the refunds that its own
  financial records show confirmed; every notice a snapshot warrants, the confirmation of a
  refund with its amount included, every later snapshot warrants.  So a notice may be sent at
  any later time, and one that was sent is never contradicted by its removal.
\<close>

theorem owed_notices_stand:
  assumes "run_machine (kernel_step c) (registered relationship history sender recipient now unit) xs = (s, outs)"
    and "run_machine (kernel_step c) s ys = (t, outs')"
  shows "set (owed_notices s) \<subseteq> set (owed_notices t)"
proof
  fix n assume "n \<in> set (owed_notices s)"
  then obtain i r where r: "request_in s i = Some r"
    and n: "n \<in> set (notices_for (rq_id r) (rq_lifecycle r) None)
      \<or> (\<exists>q. confirmed_in s (rq_id r) q \<and> n = \<lparr>gn_request = rq_id r, gn_outcome = OutRefundConfirmed (op_amount q)\<rparr>)"
    by (auto simp: owed_notices_iff)
  have inv: "kernel_inv c s" by (rule kernel.run_inv [OF registered_inv assms(1)])
  have "\<exists>r'. request_in s i = Some r' \<and> evolves r r'" using r by simp
  then obtain r' where r': "request_in t i = Some r'" "evolves r r'"
    using kernel_request.run_inv [OF _ assms(2)] by blast
  note same = evolves_id [OF r'(2)]
  have "set (notices_for (rq_id r) (rq_lifecycle r) None) \<subseteq> set (notices_for (rq_id r) (rq_lifecycle r') None)"
    using r'(2) notices_path by (auto simp: evolves_def)
  moreover have "confirmed_in t (rq_id r) q" if "confirmed_in s (rq_id r) q" for q
    using kernel_refund.run_inv [OF _ assms(2), of "rq_id r" q] inv that by blast
  ultimately show "n \<in> set (owed_notices t)"
    unfolding owed_notices_iff using n r'(1) by (intro exI [of _ i] exI [of _ r']) (auto simp: same)
qed

section \<open>Retried inputs\<close>

text \<open>
  A retry under one operation with the fingerprint of the first attempt carries the same inputs,
  or two inputs with one keyed hash.
\<close>

theorem retry_inputs_bound:
  assumes "check_retry (request_fingerprint hmac i secret deployment operation)
      (request_fingerprint hmac j secret deployment operation) = Ok ()"
    and "mailbox_parse (mailbox_address (gi_mailbox i)) = Ok (gi_mailbox i)"
    and "mailbox_parse (mailbox_address (gi_mailbox j)) = Ok (gi_mailbox j)"
  shows "i = j \<or> (request_input_preimage i deployment operation \<noteq> request_input_preimage j deployment operation
     \<and> hmac secret (request_input_preimage i deployment operation) = hmac secret (request_input_preimage j deployment operation))"
proof -
  have short: "length (mailbox_address m) < 2 ^ 64" if "mailbox_ok m" for m
  proof -
    have "map ascii_lower (trim_end_dots (gm_domain m)) = gm_domain m" "length (trim_end_dots (gm_domain m)) \<le> 253"
      using that by (simp_all add: mailbox_ok_def parse_ascii_def Let_def not_less)
    then have "length (gm_domain m) \<le> 253" by (metis length_map)
    then show ?thesis using that by (simp add: mailbox_ok_def mailbox_address_def)
  qed
  note ok = mailbox_parse_ok [OF assms(2)] mailbox_parse_ok [OF assms(3)]
  have "i = j" if "request_input_preimage i deployment operation = request_input_preimage j deployment operation"
  proof -
    have "framed 8 (0 :: u64) (mailbox_address (gi_mailbox i)) @ be_bytes 16 (gi_recipient i) @ be_bytes 16 (gi_alias i)
        @ be_bytes 16 (gi_class i) @ be_bytes 32 (gi_payment_token i) @ gi_message i
      = framed 8 (0 :: u64) (mailbox_address (gi_mailbox j)) @ be_bytes 16 (gi_recipient j) @ be_bytes 16 (gi_alias j)
        @ be_bytes 16 (gi_class j) @ be_bytes 32 (gi_payment_token j) @ gi_message j"
      using that by (simp add: request_input_preimage_def framed_def)
    then show ?thesis using ok short by (simp add: enc_facts mailbox_address_inject)
  qed
  then show ?thesis using assms(1) by (auto simp: check_retry_def request_fingerprint_def split: if_splits)
qed

end
