(* ===== verification/Guest_Verification.thy ===== *)
theory Guest_Verification
  imports Guests
begin

text \<open>
  Control of a guest mailbox (\<open>crates/cs-mail-guests/src/verification.rs\<close>) and the commands its
  session authorizes (\<open>GuestCommand\<close> of \<open>lib.rs\<close>).  The lemmas bound the guesses of a code, show
  that a verification gives one session with one lifetime, and say what a guest may command.
\<close>

section \<open>Verification of a mailbox\<close>

definition verification_lifetime :: duration where
  "verification_lifetime = 900000"

definition verification_attempts :: u32 where
  "verification_attempts = 5"

definition session_lifetime :: duration where
  "session_lifetime = 7200000"

type_synonym session_token_digest = bytes32

datatype verification_state =
  AwaitingCode bytes32
| ConsumedCode canonical_time canonical_time session_token_digest

record mailbox_verification =
  mv_mailbox :: guest_mailbox
  mv_issued_at :: canonical_time
  mv_expires_at :: canonical_time
  mv_attempts :: u32
  mv_state :: verification_state

record guest_session =
  gs_mailbox :: guest_mailbox
  gs_verified_at :: canonical_time
  gs_expires_at :: canonical_time

definition deadline :: "canonical_time \<Rightarrow> duration \<Rightarrow> (canonical_time, guest_error) res" where
  "deadline t lifetime = ok_or (time_checked_add t lifetime) GstInvalidVerificationState"

definition code_digest :: "crypto \<Rightarrow> bytes \<Rightarrow> bytes32 \<Rightarrow> bytes32" where
  "code_digest c code salt =
     cr_sha256 c (str_bytes ''cs-mail/guest-verification-code/v1'' @ be_bytes 32 salt @ code)"

definition verification_load :: "mailbox_verification \<Rightarrow> (mailbox_verification, guest_error) res" where
  "verification_load r =
     and_then (deadline (mv_issued_at r) verification_lifetime) (\<lambda>expiry.
     fail_if (mv_expires_at r \<noteq> expiry \<or> mv_attempts r > verification_attempts) GstInvalidVerificationState
     (case mv_state r of
        AwaitingCode _ \<Rightarrow> Ok r
      | ConsumedCode verified_at session_expires_at _ \<Rightarrow>
          fail_if (mv_attempts r \<ge> verification_attempts \<or> verified_at < mv_issued_at r
             \<or> verified_at > mv_expires_at r) GstInvalidVerificationState
          (and_then (deadline verified_at session_lifetime) (\<lambda>session_expiry.
           fail_if (session_expires_at \<noteq> session_expiry) GstInvalidVerificationState (Ok r)))))"

definition verification_issue ::
  "crypto \<Rightarrow> guest_mailbox \<Rightarrow> bytes \<Rightarrow> bytes32 \<Rightarrow> canonical_time \<Rightarrow> (mailbox_verification, guest_error) res" where
  "verification_issue c mailbox code salt now =
     and_then (deadline now verification_lifetime) (\<lambda>expiry.
     Ok \<lparr>mv_mailbox = mailbox, mv_issued_at = now, mv_expires_at = expiry, mv_attempts = 0,
         mv_state = AwaitingCode (code_digest c code salt)\<rparr>)"

datatype code_check = CodeVerified mailbox_verification guest_session | CodeWrong mailbox_verification

definition verification_check ::
  "crypto \<Rightarrow> mailbox_verification \<Rightarrow> bytes \<Rightarrow> bytes32 \<Rightarrow> session_token_digest \<Rightarrow> canonical_time
     \<Rightarrow> (code_check, guest_error) res" where
  "verification_check c v code salt token now =
     (case mv_state v of
        ConsumedCode _ _ _ \<Rightarrow> Err GstVerificationClosed
      | AwaitingCode expected \<Rightarrow>
          fail_if (now < mv_issued_at v \<or> now > mv_expires_at v) GstVerificationClosed
          (fail_if (mv_attempts v \<ge> verification_attempts) GstTooManyAttempts
          (if code_digest c (trim code) salt \<noteq> expected then
             Ok (CodeWrong (v\<lparr>mv_attempts := mv_attempts v + 1\<rparr>))
           else
             and_then (deadline now session_lifetime) (\<lambda>expiry.
             Ok (CodeVerified (v\<lparr>mv_state := ConsumedCode now expiry token\<rparr>)
                  \<lparr>gs_mailbox = mv_mailbox v, gs_verified_at = now, gs_expires_at = expiry\<rparr>)))))"

definition session_authorize :: "guest_session \<Rightarrow> canonical_time \<Rightarrow> (guest_mailbox, guest_error) res" where
  "session_authorize s now =
     fail_if (now < gs_verified_at s \<or> now > gs_expires_at s) GstSessionExpired (Ok (gs_mailbox s))"

definition restore_session ::
  "mailbox_verification \<Rightarrow> session_token_digest \<Rightarrow> canonical_time \<Rightarrow> (guest_session, guest_error) res" where
  "restore_session v token now =
     (case mv_state v of
        AwaitingCode _ \<Rightarrow> Err GstSessionExpired
      | ConsumedCode verified_at session_expires_at digest \<Rightarrow>
          fail_if (token \<noteq> digest) GstSessionExpired
          (let session = \<lparr>gs_mailbox = mv_mailbox v, gs_verified_at = verified_at, gs_expires_at = session_expires_at\<rparr> in
           and_then (session_authorize session now) (\<lambda>_. Ok session)))"

section \<open>Guest commands\<close>

record guest_command =
  gc_session :: guest_session
  gc_identity :: protocol_identity
  gc_mailbox :: guest_mailbox
  gc_command :: protocol_command
  gc_idempotency :: idempotency_key

definition guest_may :: "protocol_command \<Rightarrow> bool" where
  "guest_may command \<longleftrightarrow>
     (case command of
        IssueRequestTerms _ _ _ _ _ \<Rightarrow> True | CreateRequest _ _ _ _ \<Rightarrow> True | SubmitRequestToRecipient _ \<Rightarrow> True
      | CancelRequestSubmission _ _ reason \<Rightarrow> reason = SenderRequested | _ \<Rightarrow> False)"

definition guest_authorize ::
  "crypto \<Rightarrow> guest_session \<Rightarrow> bytes32 \<Rightarrow> protocol_command \<Rightarrow> idempotency_key \<Rightarrow> canonical_time
     \<Rightarrow> (guest_command, guest_error) res" where
  "guest_authorize c session deployment command idempotency now =
     and_then (session_authorize session now) (\<lambda>mailbox.
     fail_if (\<not> guest_may command) GstNotAGuestCommand
     (Ok \<lparr>gc_session = session, gc_identity = guest_identity c mailbox deployment, gc_mailbox = mailbox,
          gc_command = command, gc_idempotency = idempotency\<rparr>))"

definition authorize_receipt ::
  "crypto \<Rightarrow> guest_command \<Rightarrow> bytes32 \<Rightarrow> canonical_time \<Rightarrow> (unit, guest_error) res" where
  "authorize_receipt c g deployment now =
     and_then (session_authorize (gc_session g) now) (\<lambda>mailbox.
     fail_if (guest_identity c mailbox deployment \<noteq> gc_identity g) GstNotAGuestCommand (Ok ()))"

section \<open>Guesses\<close>

text \<open>
  A check by its caller: the code and salt presented, the digest of the session token and the
  time.  Its outcome is committed; a wrong code gives no session.
\<close>

record code_attempt =
  at_code :: bytes
  at_salt :: bytes32
  at_token :: session_token_digest
  at_now :: canonical_time

definition attempt_step ::
  "crypto \<Rightarrow> mailbox_verification \<Rightarrow> code_attempt \<Rightarrow> (mailbox_verification \<times> guest_session option, guest_error) res" where
  "attempt_step c v a =
     map_ok (\<lambda>r. case r of CodeVerified v' s \<Rightarrow> (v', Some s) | CodeWrong v' \<Rightarrow> (v', None))
       (verification_check c v (at_code a) (at_salt a) (at_token a) (at_now a))"

lemma attempt_cases:
  assumes "attempt_step c v a = Ok (v', out)"
  obtains (wrong) expected where "mv_state v = AwaitingCode expected" "out = None"
      "unat (mv_attempts v') = unat (mv_attempts v) + 1" "mv_attempts v < verification_attempts"
      "v' = v\<lparr>mv_attempts := mv_attempts v + 1\<rparr>"
  | (verified) expiry where "mv_state v = AwaitingCode (code_digest c (trim (at_code a)) (at_salt a))"
      "mv_issued_at v \<le> at_now a" "at_now a \<le> mv_expires_at v" "mv_attempts v < verification_attempts"
      "deadline (at_now a) session_lifetime = Ok expiry"
      "v' = v\<lparr>mv_state := ConsumedCode (at_now a) expiry (at_token a)\<rparr>"
      "out = Some \<lparr>gs_mailbox = mv_mailbox v, gs_verified_at = at_now a, gs_expires_at = expiry\<rparr>"
proof -
  have succ: "unat (n + 1) = unat n + 1" if "n < verification_attempts" for n :: u32
    using that by (simp add: verification_attempts_def word_less_nat_alt unat_word_ariths)
  show thesis
    using assms that succ
    by (cases "mv_state v")
       (auto simp: attempt_step_def verification_check_def not_le not_less split: if_splits)
qed

lemma attempt_stored: "verification_load v = Ok v \<Longrightarrow> attempt_step c v a = Ok (v', out) \<Longrightarrow> verification_load v' = Ok v'"
  by (erule attempt_cases)
     (auto simp: verification_load_def not_le not_less verification_attempts_def word_less_nat_alt word_le_nat_alt
       unat_word_ariths)

interpretation verification_machine: stored_machine "attempt_step c" "\<lambda>v. verification_load v = Ok v" verification_load
  by unfold_locales (simp_all add: attempt_stored)

lemma consumed_run:
  "mv_state v = ConsumedCode t e k \<Longrightarrow> run_machine (attempt_step c) v as = (v, [])"
  by (induction as) (simp_all add: attempt_step_def verification_check_def)

text \<open>Wrong codes while attempts are left, then at most one right one.\<close>

definition guesses ::
  "crypto \<Rightarrow> mailbox_verification \<Rightarrow> bytes32 \<Rightarrow> code_attempt set \<Rightarrow> mailbox_verification \<Rightarrow> guest_session option list \<Rightarrow> bool" where
  "guesses c v d A v' outs \<longleftrightarrow> (\<exists>k. unat (mv_attempts v') = unat (mv_attempts v) + k \<and> mv_mailbox v' = mv_mailbox v
     \<and> (outs = replicate k None \<and> mv_state v' = AwaitingCode d \<and> unat (mv_attempts v) + k \<le> 5
       \<or> (\<exists>a\<in>A. \<exists>expiry.
            outs = replicate k None @ [Some \<lparr>gs_mailbox = mv_mailbox v, gs_verified_at = at_now a, gs_expires_at = expiry\<rparr>]
            \<and> mv_state v' = ConsumedCode (at_now a) expiry (at_token a) \<and> unat (mv_attempts v) + k < 5
            \<and> d = code_digest c (trim (at_code a)) (at_salt a) \<and> mv_issued_at v \<le> at_now a \<and> at_now a \<le> mv_expires_at v
            \<and> deadline (at_now a) session_lifetime = Ok expiry)))"

lemma guesses_mono: "guesses c v d A v' outs \<Longrightarrow> A \<subseteq> B \<Longrightarrow> guesses c v d B v' outs"
  unfolding guesses_def by blast

lemma guesses_wrong:
  assumes "guesses c (v\<lparr>mv_attempts := n\<rparr>) d A v' outs" and "unat n = unat (mv_attempts v) + 1"
  shows "guesses c v d A v' (None # outs)"
proof -
  obtain k where "unat (mv_attempts v') = unat n + k \<and> mv_mailbox v' = mv_mailbox v
     \<and> (outs = replicate k None \<and> mv_state v' = AwaitingCode d \<and> unat n + k \<le> 5
       \<or> (\<exists>a\<in>A. \<exists>expiry.
            outs = replicate k None @ [Some \<lparr>gs_mailbox = mv_mailbox v, gs_verified_at = at_now a, gs_expires_at = expiry\<rparr>]
            \<and> mv_state v' = ConsumedCode (at_now a) expiry (at_token a) \<and> unat n + k < 5
            \<and> d = code_digest c (trim (at_code a)) (at_salt a) \<and> mv_issued_at v \<le> at_now a \<and> at_now a \<le> mv_expires_at v
            \<and> deadline (at_now a) session_lifetime = Ok expiry))"
    using assms(1) by (auto simp: guesses_def)
  then show ?thesis unfolding guesses_def by (intro exI [of _ "Suc k"]) (auto simp: assms(2))
qed

lemma guesses_run:
  "run_machine (attempt_step c) v as = (v', outs) \<Longrightarrow> mv_state v = AwaitingCode d \<Longrightarrow> unat (mv_attempts v) \<le> 5 \<Longrightarrow>
     guesses c v d (set as) v' outs"
proof (induction as arbitrary: v outs)
  case (Cons a as)
  have failed: ?case if "run_machine (attempt_step c) v as = (v', outs)"
    using Cons.IH [OF that Cons.prems(2,3)] by (rule guesses_mono) auto
  show ?case
  proof (cases "attempt_step c v a")
    case (Ok r)
    obtain w out where w: "attempt_step c v a = Ok (w, out)" using Ok by (cases r) simp
    then obtain outs' where run: "run_machine (attempt_step c) w as = (v', outs')" and outs: "outs = out # outs'"
      using Cons.prems(1) by (auto split: prod.splits)
    show ?thesis using w
    proof (cases rule: attempt_cases)
      case (wrong expected)
      have "mv_state w = AwaitingCode d" "unat (mv_attempts w) \<le> 5"
        using wrong Cons.prems by (simp_all add: verification_attempts_def word_less_nat_alt)
      from Cons.IH [OF run this] have "guesses c w d (set (a # as)) v' outs'" by (rule guesses_mono) auto
      then show ?thesis
        using guesses_wrong [where n = "mv_attempts v + 1" and v = v] wrong(2,3,5) outs by simp
    next
      case (verified expiry)
      then have "v' = w" "outs' = []" using run consumed_run [of w] by auto
      then show ?thesis using verified Cons.prems(2) outs unfolding guesses_def
        by (intro exI [of _ 0]) (auto simp: verification_attempts_def word_less_nat_alt intro!: bexI [of _ a])
    qed
  qed (use Cons.prems(1) failed in simp_all)
qed (simp add: guesses_def)

text \<open>
  C28: A guest has five guesses and one session.  Whatever codes are presented to an issued
  verification, in whatever order and time, at most five are found wrong and at most one session
  comes of it: after the fifth wrong code none.  The session is for the mailbox the verification
  was issued to, was opened within fifteen minutes by a code with the digest of the one sent, and
  ends two hours later; it is the only session the stored verification ever gives back.
\<close>

theorem guesses_bounded:
  assumes "verification_issue c mailbox code salt now = Ok v"
    and "run_machine (attempt_step c) v attempts = (v', outs)"
  shows "\<exists>k session. outs = replicate k None @ map Some session \<and> k \<le> 5 \<and> length session \<le> 1
     \<and> (session \<noteq> [] \<longrightarrow> k < 5)
     \<and> (\<forall>s\<in>set session. gs_mailbox s = mailbox
          \<and> now \<le> gs_verified_at s \<and> unat (gs_verified_at s) \<le> unat now + 900000
          \<and> unat (gs_expires_at s) = unat (gs_verified_at s) + 7200000
          \<and> (\<exists>a\<in>set attempts. at_now a = gs_verified_at s
               \<and> code_digest c (trim (at_code a)) (at_salt a) = code_digest c code salt))
     \<and> (\<forall>token later s. restore_session v' token later = Ok s \<longrightarrow> s \<in> set session)"
proof -
  obtain expiry where expiry: "unat expiry = unat now + 900000"
    and v: "v = \<lparr>mv_mailbox = mailbox, mv_issued_at = now, mv_expires_at = expiry, mv_attempts = 0, mv_state = AwaitingCode (code_digest c code salt)\<rparr>"
    using assms(1) by (auto simp: verification_issue_def deadline_def verification_lifetime_def time_checked_add_Some)
  have v0: "mv_state v = AwaitingCode (code_digest c code salt)" "unat (mv_attempts v) \<le> 5" "mv_attempts v = 0"
    "mv_mailbox v = mailbox" "mv_issued_at v = now" "mv_expires_at v = expiry" by (simp_all add: v)
  from guesses_run [OF assms(2) v0(1,2)] obtain k where
    frame: "unat (mv_attempts v') = k" "mv_mailbox v' = mailbox"
    and alt: "outs = replicate k None \<and> mv_state v' = AwaitingCode (code_digest c code salt) \<and> k \<le> 5
       \<or> (\<exists>a\<in>set attempts. \<exists>expiry'.
            outs = replicate k None @ [Some \<lparr>gs_mailbox = mailbox, gs_verified_at = at_now a, gs_expires_at = expiry'\<rparr>]
            \<and> mv_state v' = ConsumedCode (at_now a) expiry' (at_token a) \<and> k < 5
            \<and> code_digest c code salt = code_digest c (trim (at_code a)) (at_salt a) \<and> now \<le> at_now a \<and> at_now a \<le> expiry
            \<and> deadline (at_now a) session_lifetime = Ok expiry')"
    unfolding guesses_def v0 by auto
  from alt show ?thesis
  proof
    assume "outs = replicate k None \<and> mv_state v' = AwaitingCode (code_digest c code salt) \<and> k \<le> 5"
    then show ?thesis by (intro exI [of _ k] exI [of _ "[]"]) (auto simp: restore_session_def)
  next
    assume "\<exists>a\<in>set attempts. \<exists>expiry'.
            outs = replicate k None @ [Some \<lparr>gs_mailbox = mailbox, gs_verified_at = at_now a, gs_expires_at = expiry'\<rparr>]
            \<and> mv_state v' = ConsumedCode (at_now a) expiry' (at_token a) \<and> k < 5
            \<and> code_digest c code salt = code_digest c (trim (at_code a)) (at_salt a) \<and> now \<le> at_now a \<and> at_now a \<le> expiry
            \<and> deadline (at_now a) session_lifetime = Ok expiry'"
    then obtain a expiry' where a: "a \<in> set attempts"
      "outs = replicate k None @ [Some \<lparr>gs_mailbox = mailbox, gs_verified_at = at_now a, gs_expires_at = expiry'\<rparr>]"
      "mv_state v' = ConsumedCode (at_now a) expiry' (at_token a)" "k < 5"
      "code_digest c code salt = code_digest c (trim (at_code a)) (at_salt a)" "now \<le> at_now a" "at_now a \<le> expiry"
      "unat expiry' = unat (at_now a) + 7200000"
      by (auto simp: deadline_def session_lifetime_def time_checked_add_Some)
    then show ?thesis
      by (intro exI [of _ k] exI [of _ "[\<lparr>gs_mailbox = mailbox, gs_verified_at = at_now a, gs_expires_at = expiry'\<rparr>]"])
         (auto simp: restore_session_def frame expiry word_le_nat_alt Let_def intro!: bexI [of _ a])
  qed
qed

text \<open>
  A guest commands only its own requests.  A guest command is authorized exactly within the
  lifetime of its session, and only for terms, creation, submission or its own cancellation of a
  request; it acts as the identity derived from the session's mailbox, and at its receipt it is
  accepted exactly within that lifetime again, for an identity of that deployment.
\<close>

theorem guest_command_confined:
  assumes "guest_authorize c session deployment command operation now = Ok g"
  shows "gs_verified_at session \<le> now \<and> now \<le> gs_expires_at session \<and> guest_may command
     \<and> gc_identity g = guest_identity c (gs_mailbox session) deployment \<and> gc_command g = command
     \<and> (authorize_receipt c g deployment later = Ok () \<longleftrightarrow> gs_verified_at session \<le> later \<and> later \<le> gs_expires_at session)"
  using assms by (auto simp: guest_authorize_def authorize_receipt_def session_authorize_def not_less)

end
