(* ===== verification/Privacy.thy ===== *)
theory Privacy
  imports Encoding Btree
begin

text \<open>
  Pairwise references and retention (\<open>crates/cs-mail-privacy/src/lib.rs\<close>).  References are keyed
  hashes of a purpose label, a service domain and a pair of identities; the keyed hash of the
  crate hmac is the argument \<open>hmac\<close>.  The lemmas show that two references agree only if they were
  derived for the same purpose from the same inputs, or the hash collides, and that a record is
  kept for exactly the longest of its lifetimes.
\<close>

section \<open>Derived references\<close>

type_synonym keyed_hash = "bytes32 \<Rightarrow> bytes \<Rightarrow> bytes32"
type_synonym principal_ref = u128
type_synonym scoped_handle = bytes32
type_synonym principal_assertion = bytes32

record privacy_deriver =
  pd_relationship_secret :: bytes32
  pd_principal_secret :: bytes32

definition derive_preimage :: "bytes \<Rightarrow> bytes \<Rightarrow> u128 \<Rightarrow> u128 \<Rightarrow> bytes" where
  "derive_preimage label domain left right =
     label @ be_bytes 8 (of_nat (length domain) :: u64) @ domain @ be_bytes 16 left @ be_bytes 16 right"

definition derive :: "keyed_hash \<Rightarrow> bytes32 \<Rightarrow> bytes \<Rightarrow> bytes \<Rightarrow> u128 \<Rightarrow> u128 \<Rightarrow> bytes32" where
  "derive hmac secret label domain left right = hmac secret (derive_preimage label domain left right)"

definition relationship_handle ::
  "keyed_hash \<Rightarrow> privacy_deriver \<Rightarrow> bytes \<Rightarrow> protocol_identity \<Rightarrow> protocol_identity \<Rightarrow> scoped_handle" where
  "relationship_handle hmac d domain sender recipient =
     derive hmac (pd_relationship_secret d) (str_bytes ''cs-mail/relationship-handle/v1'') domain sender recipient"

definition relationship_ref ::
  "keyed_hash \<Rightarrow> privacy_deriver \<Rightarrow> u16 \<Rightarrow> bytes \<Rightarrow> protocol_identity \<Rightarrow> protocol_identity \<Rightarrow> scoped_ref" where
  "relationship_ref hmac d v domain sender recipient =
     \<lparr>sr_version = v, sr_bytes = derive hmac (pd_relationship_secret d) (str_bytes ''cs-mail/relationship-ref/v1'')
        domain sender recipient\<rparr>"

definition principal_assertion_of ::
  "keyed_hash \<Rightarrow> privacy_deriver \<Rightarrow> bytes \<Rightarrow> principal_ref \<Rightarrow> protocol_identity \<Rightarrow> principal_assertion" where
  "principal_assertion_of hmac d domain owner recipient =
     derive hmac (pd_principal_secret d) (str_bytes ''cs-mail/principal-assertion/v1'') domain owner recipient"

definition request_history_ref ::
  "keyed_hash \<Rightarrow> privacy_deriver \<Rightarrow> u16 \<Rightarrow> bytes \<Rightarrow> principal_ref \<Rightarrow> protocol_identity \<Rightarrow> scoped_ref" where
  "request_history_ref hmac d v domain owner recipient =
     \<lparr>sr_version = v, sr_bytes = derive hmac (pd_principal_secret d) (str_bytes ''cs-mail/request-history/v1'')
        domain owner recipient\<rparr>"

definition guest_request_history_ref ::
  "keyed_hash \<Rightarrow> privacy_deriver \<Rightarrow> u16 \<Rightarrow> bytes \<Rightarrow> protocol_identity \<Rightarrow> protocol_identity \<Rightarrow> scoped_ref" where
  "guest_request_history_ref hmac d v domain guest recipient =
     \<lparr>sr_version = v, sr_bytes = derive hmac (pd_principal_secret d) (str_bytes ''cs-mail/guest-request-history/v1'')
        domain guest recipient\<rparr>"

definition merged_preimage :: "bytes \<Rightarrow> bytes32 \<Rightarrow> bytes32 \<Rightarrow> bytes" where
  "merged_preimage domain low high =
     str_bytes ''cs-mail/merged-request-history/v1'' @ be_bytes 8 (of_nat (length domain) :: u64) @ domain
       @ be_bytes 32 low @ be_bytes 32 high"

definition merged_request_history_ref ::
  "keyed_hash \<Rightarrow> privacy_deriver \<Rightarrow> u16 \<Rightarrow> bytes \<Rightarrow> scoped_ref \<Rightarrow> scoped_ref \<Rightarrow> scoped_ref" where
  "merged_request_history_ref hmac d v domain first second =
     (let (low, high) = if sr_bytes first \<le> sr_bytes second then (first, second) else (second, first) in
      \<lparr>sr_version = v, sr_bytes = hmac (pd_principal_secret d) (merged_preimage domain (sr_bytes low) (sr_bytes high))\<rparr>)"

definition content_scope_ref ::
  "keyed_hash \<Rightarrow> privacy_deriver \<Rightarrow> u16 \<Rightarrow> bytes \<Rightarrow> protocol_identity \<Rightarrow> protocol_identity \<Rightarrow> scoped_ref" where
  "content_scope_ref hmac d v domain sender recipient =
     \<lparr>sr_version = v, sr_bytes = derive hmac (pd_relationship_secret d) (str_bytes ''cs-mail/content-scope/v1'')
        domain sender recipient\<rparr>"

section \<open>Audit and telemetry\<close>

datatype translation_purpose =
  RouteDelivery | EnforceRepeatedAttempt | PresentRelationshipToOwner | ApplySettlement

datatype access_decision = AccessAllowed | AccessDenied

record translation_audit_event =
  ta_reference :: u128
  ta_purpose :: translation_purpose
  ta_decision :: access_decision
  ta_occurred_at :: canonical_time

datatype safe_metric =
  MetricCommandAccepted | MetricCommandRejected | MetricDeliverySucceeded | MetricDeliveryRetried | MetricRetentionDeleted

record safe_telemetry_event =
  te_metric :: safe_metric
  te_coarse_time_bucket :: u64

definition telemetry_hourly :: "safe_metric \<Rightarrow> canonical_time \<Rightarrow> safe_telemetry_event" where
  "telemetry_hourly metric now = \<lparr>te_metric = metric, te_coarse_time_bucket = now div 3600000\<rparr>"

section \<open>Retention\<close>

datatype retention_purpose =
  RetainPendingOperation | RetainDeliveryRetry | RetainUserContent | RetainSettlementAudit | RetainSecurityInvestigation

datatype access_domain = DomainRelationship | DomainContent | DomainLedger | DomainTelemetry

datatype deletion_method = PhysicalDelete | DestroyRecordKeyThenExpireBackups

type_synonym retention_class_id = u128

record retention_class =
  rc_id :: retention_class_id
  rc_purpose :: retention_purpose
  rc_access_domain :: access_domain
  rc_operational_lifetime :: duration
  rc_dispute_lifetime :: "duration option"
  rc_required_lifetime :: "duration option"
  rc_deletion :: deletion_method

definition retention_lifetimes :: "retention_class \<Rightarrow> duration list" where
  "retention_lifetimes r =
     rc_operational_lifetime r # (case rc_dispute_lifetime r of Some d \<Rightarrow> [d] | None \<Rightarrow> [])
       @ (case rc_required_lifetime r of Some d \<Rightarrow> [d] | None \<Rightarrow> [])"

text \<open>\<open>max_by_key\<close> of the lifetimes; the empty list, on which it is \<open>None\<close>, does not occur.\<close>

definition delete_after :: "retention_class \<Rightarrow> canonical_time \<Rightarrow> canonical_time option" where
  "delete_after r created_at =
     (case retention_lifetimes r of
        [] \<Rightarrow> None
      | d # ds \<Rightarrow> time_checked_add created_at (fold max ds d))"

type_synonym retention_catalog = "(retention_class_id, retention_class) btmap"

definition catalog_register :: "retention_catalog \<Rightarrow> retention_class \<Rightarrow> retention_catalog \<times> retention_class option" where
  "catalog_register catalog r = (bt_insert (rc_id r) r catalog, bt_get catalog (rc_id r))"

definition catalog_class :: "retention_catalog \<Rightarrow> retention_class_id \<Rightarrow> retention_class option" where
  "catalog_class catalog i = bt_get catalog i"

record deletion_manifest =
  dm_audit_ref :: u128
  dm_class :: retention_class_id
  dm_deleted_at :: canonical_time
  dm_method :: deletion_method

section \<open>References are separate\<close>

text \<open>What a reference is derived for, and its label.\<close>

datatype derivation = ForHandle | ForRelationship | ForContentScope | ForAssertion | ForHistory | ForGuestHistory

primrec derivation_label :: "derivation \<Rightarrow> bytes" where
  "derivation_label ForHandle = str_bytes ''cs-mail/relationship-handle/v1''"
| "derivation_label ForRelationship = str_bytes ''cs-mail/relationship-ref/v1''"
| "derivation_label ForContentScope = str_bytes ''cs-mail/content-scope/v1''"
| "derivation_label ForAssertion = str_bytes ''cs-mail/principal-assertion/v1''"
| "derivation_label ForHistory = str_bytes ''cs-mail/request-history/v1''"
| "derivation_label ForGuestHistory = str_bytes ''cs-mail/guest-request-history/v1''"

text \<open>The references of one deriver: what is derived, for which pair.\<close>

primrec derived :: "keyed_hash \<Rightarrow> privacy_deriver \<Rightarrow> derivation \<Rightarrow> bytes \<Rightarrow> u128 \<Rightarrow> u128 \<Rightarrow> bytes32" where
  "derived hmac d ForHandle = relationship_handle hmac d"
| "derived hmac d ForRelationship = (\<lambda>domain a b. sr_bytes (relationship_ref hmac d 1 domain a b))"
| "derived hmac d ForContentScope = (\<lambda>domain a b. sr_bytes (content_scope_ref hmac d 1 domain a b))"
| "derived hmac d ForAssertion = principal_assertion_of hmac d"
| "derived hmac d ForHistory = (\<lambda>domain a b. sr_bytes (request_history_ref hmac d 1 domain a b))"
| "derived hmac d ForGuestHistory = (\<lambda>domain a b. sr_bytes (guest_request_history_ref hmac d 1 domain a b))"

primrec derivation_secret :: "privacy_deriver \<Rightarrow> derivation \<Rightarrow> bytes32" where
  "derivation_secret d ForHandle = pd_relationship_secret d"
| "derivation_secret d ForRelationship = pd_relationship_secret d"
| "derivation_secret d ForContentScope = pd_relationship_secret d"
| "derivation_secret d ForAssertion = pd_principal_secret d"
| "derivation_secret d ForHistory = pd_principal_secret d"
| "derivation_secret d ForGuestHistory = pd_principal_secret d"

lemma derived_eq:
  "derived hmac d p domain a b = hmac (derivation_secret d p) (derive_preimage (derivation_label p) domain a b)"
  by (cases p) (simp_all add: relationship_handle_def relationship_ref_def content_scope_ref_def principal_assertion_of_def
      request_history_ref_def guest_request_history_ref_def derive_def)

lemma label_separate: "derivation_label p @ s = derivation_label q @ t \<longleftrightarrow> p = q \<and> s = t"
  by (cases p; cases q) (simp_all add: str_bytes_def)

lemma framed_last:
  "length xs < 2 ^ 64 \<Longrightarrow> length ys < 2 ^ 64 \<Longrightarrow> framed 8 (0 :: u64) xs = framed 8 (0 :: u64) ys \<longleftrightarrow> xs = ys"
  using framed_cancel [where s = "[]" and t = "[]", of 8 xs ys "0 :: u64"] by simp

lemma derive_preimage_inject:
  assumes "length svc < 2 ^ 64" "length svc' < 2 ^ 64"
  shows "derive_preimage (derivation_label p) svc a b = derive_preimage (derivation_label q) svc' a' b'
     \<longleftrightarrow> p = q \<and> svc = svc' \<and> a = a' \<and> b = b'"
proof -
  have frame: "derive_preimage l svc a b = l @ framed 8 (0 :: u64) svc @ be_bytes 16 a @ be_bytes 16 b" for l svc a b
    by (simp add: derive_preimage_def framed_def)
  show ?thesis using assms by (auto simp: frame label_separate framed_last enc_facts)
qed

text \<open>A collision of the keyed hash: two keyed inputs, not the same, with one value.\<close>

definition hash_collides :: "keyed_hash \<Rightarrow> bytes32 \<Rightarrow> bytes \<Rightarrow> bytes32 \<Rightarrow> bytes \<Rightarrow> bool" where
  "hash_collides hmac k x k' y \<longleftrightarrow> (k, x) \<noteq> (k', y) \<and> hmac k x = hmac k' y"

definition merged_pair :: "bytes \<Rightarrow> scoped_ref \<Rightarrow> scoped_ref \<Rightarrow> bytes" where
  "merged_pair svc x y = merged_preimage svc (min (sr_bytes x) (sr_bytes y)) (max (sr_bytes x) (sr_bytes y))"

text \<open>
  C33: References of one deriver reveal nothing across purposes, domains and pairs.  Handles,
  relationship and content references, assertions and histories of one deriver are equal only if
  they were derived for the same purpose, domain, first and second identity, in that order, or the
  two derivations exhibit a collision of the keyed hash; the history two histories merge into does
  not depend on their order and, but for a collision, determines the pair.
\<close>

theorem references_separate:
  assumes "length svc < 2 ^ 64" "length svc' < 2 ^ 64"
  shows "(derived hmac d p svc a b = derived hmac d q svc' a' b' \<longrightarrow>
        p = q \<and> svc = svc' \<and> a = a' \<and> b = b'
        \<or> hash_collides hmac (derivation_secret d p) (derive_preimage (derivation_label p) svc a b)
            (derivation_secret d q) (derive_preimage (derivation_label q) svc' a' b'))
     \<and> merged_request_history_ref hmac d v svc x y = merged_request_history_ref hmac d v svc y x
     \<and> (sr_bytes (merged_request_history_ref hmac d v svc x y) = sr_bytes (merged_request_history_ref hmac d w svc' x' y') \<longrightarrow>
          svc = svc' \<and> {sr_bytes x, sr_bytes y} = {sr_bytes x', sr_bytes y'}
          \<or> hash_collides hmac (pd_principal_secret d) (merged_pair svc x y) (pd_principal_secret d) (merged_pair svc' x' y'))"
proof -
  have first: "p = q \<and> svc = svc' \<and> a = a' \<and> b = b'
        \<or> hash_collides hmac (derivation_secret d p) (derive_preimage (derivation_label p) svc a b)
            (derivation_secret d q) (derive_preimage (derivation_label q) svc' a' b')"
    if "derived hmac d p svc a b = derived hmac d q svc' a' b'"
  proof (cases "derive_preimage (derivation_label p) svc a b = derive_preimage (derivation_label q) svc' a' b'")
    case True
    then show ?thesis using derive_preimage_inject [OF assms] by blast
  next
    case False
    then show ?thesis using that by (simp add: derived_eq hash_collides_def)
  qed
  have merge: "sr_bytes (merged_request_history_ref hmac d v svc x y)
      = hmac (pd_principal_secret d) (merged_pair svc x y)" for v svc x y
    by (simp add: merged_request_history_ref_def merged_pair_def min_def max_def)
  have inj: "merged_preimage svc l h = merged_preimage svc' l' h' \<longleftrightarrow> svc = svc' \<and> l = l' \<and> h = h'" for l h l' h'
  proof -
    have "merged_preimage svc l h = str_bytes ''cs-mail/merged-request-history/v1'' @ framed 8 (0 :: u64) svc @ be_bytes 32 l @ be_bytes 32 h"
      for svc l h by (simp add: merged_preimage_def framed_def)
    then show ?thesis using assms by (simp add: framed_last enc_facts)
  qed
  have pair: "{min a b, max a b} = {a, b}" for a b :: bytes32 by (auto simp: min_def max_def)
  have third: "svc = svc' \<and> {sr_bytes x, sr_bytes y} = {sr_bytes x', sr_bytes y'}
          \<or> hash_collides hmac (pd_principal_secret d) (merged_pair svc x y) (pd_principal_secret d) (merged_pair svc' x' y')"
    if "sr_bytes (merged_request_history_ref hmac d v svc x y) = sr_bytes (merged_request_history_ref hmac d w svc' x' y')"
  proof (cases "svc = svc' \<and> min (sr_bytes x) (sr_bytes y) = min (sr_bytes x') (sr_bytes y')
      \<and> max (sr_bytes x) (sr_bytes y) = max (sr_bytes x') (sr_bytes y')")
    case True
    then show ?thesis using pair by metis
  next
    case False
    then have "merged_pair svc x y \<noteq> merged_pair svc' x' y'" using inj by (auto simp: merged_pair_def)
    then show ?thesis using that unfolding merge hash_collides_def by blast
  qed
  have "merged_request_history_ref hmac d v svc x y = merged_request_history_ref hmac d v svc y x"
    by (auto simp: merged_request_history_ref_def Let_def)
  then show ?thesis using first third by blast
qed

text \<open>
  A record is deleted when the longest of its lifetimes has passed: not before any of them,
  and exactly at the end of one; there is no deletion time only where the time would overflow.
\<close>

theorem retention_is_longest_lifetime:
  "(case delete_after r created_at of
      Some t \<Rightarrow> (\<forall>d\<in>set (retention_lifetimes r). unat created_at + unat d \<le> unat t)
        \<and> (\<exists>d\<in>set (retention_lifetimes r). unat t = unat created_at + unat d)
    | None \<Rightarrow> \<exists>d\<in>set (retention_lifetimes r). 2 ^ 64 \<le> unat created_at + unat d)"
proof -
  obtain d ds where ds: "retention_lifetimes r = d # ds" by (simp add: retention_lifetimes_def)
  have m: "fold max ds d = Max (set (d # ds))" by (simp add: Max.set_eq_fold [symmetric])
  have mem: "fold max ds d \<in> set (d # ds)" unfolding m by (rule Max_in) auto
  have le: "unat x \<le> unat (fold max ds d)" if "x \<in> set (d # ds)" for x
    using that unfolding m word_le_nat_alt [symmetric] by (intro Max_ge) auto
  have d: "delete_after r created_at = time_checked_add created_at (fold max ds d)" by (simp add: delete_after_def ds)
  show ?thesis
  proof (cases "time_checked_add created_at (fold max ds d)")
    case None
    then have "2 ^ 64 \<le> unat created_at + unat (fold max ds d)" by (simp add: time_checked_add_def checked_add_None)
    then show ?thesis unfolding d None ds option.case using mem by blast
  next
    case (Some t)
    then have "unat t = unat created_at + unat (fold max ds d)" by (simp add: time_checked_add_Some)
    then show ?thesis unfolding d Some ds option.case using mem le by auto
  qed
qed

end
