(* ===== verification/Search.thy ===== *)
theory Search
  imports Revisions Receiving Encoding Authority
begin

text \<open>
  Derived retrieval evidence (\<open>crates/cs-mail-search/src\<close>: \<open>lib.rs\<close>, \<open>lifecycle.rs\<close>, the profiles of
  \<open>profile.rs\<close>): passages of a source text, the lifecycle of an indexed source and the identity of
  an embedding profile.  The lemmas show that a passage vouches for its text, that an index
  publishes only the present generation of a source and never a removed one, and that generations
  count the changes.
\<close>

section \<open>Sources and passages\<close>

datatype search_error = SearchInvalid | SearchStale | SearchRemoved | SearchIncompatible | SearchExpired

datatype correspondence_stream = StreamNative | StreamExternal

datatype source_occurrence =
  OccMessage correspondence_stream conversation_id message_id
| OccPrivateDraft u128

record source_identity =
  si_account :: account_id
  si_occurrence :: source_occurrence

definition source_identity_new :: "account_id \<Rightarrow> source_occurrence \<Rightarrow> (source_identity, search_error) res" where
  "source_identity_new account occurrence =
     fail_if (account = 0
        \<or> (case occurrence of OccPrivateDraft i \<Rightarrow> i = 0 | OccMessage _ _ message \<Rightarrow> message = 0)) SearchInvalid
     (Ok \<lparr>si_account = account, si_occurrence = occurrence\<rparr>)"

type_synonym message_version = bytes32

datatype source_version = VersionMessage message_version | VersionDraft u64 bytes32

definition version_matches :: "source_version \<Rightarrow> source_identity \<Rightarrow> bool" where
  "version_matches v s \<longleftrightarrow>
     (case (si_occurrence s, v) of
        (OccMessage _ _ _, VersionMessage _) \<Rightarrow> True
      | (OccPrivateDraft _, VersionDraft _ _) \<Rightarrow> True
      | _ \<Rightarrow> False)"

datatype text_part = PartSubject | PartBody u32 | PartQuotation u32 u32 | PartSharedCopy u32 u32

record passage =
  pa_source :: source_identity
  pa_version :: source_version
  pa_extraction :: u32
  pa_location :: text_part
  pa_start :: u32
  pa_end :: u32
  pa_checksum :: bytes32

definition passage_load :: "passage \<Rightarrow> (passage, search_error) res" where
  "passage_load v =
     fail_if (\<not> version_matches (pa_version v) (pa_source v) \<or> pa_extraction v = 0 \<or> pa_start v \<ge> pa_end v)
       SearchInvalid (Ok v)"

text \<open>\<open>str::get\<close> of a range: in order, within the text, and between characters.\<close>

definition char_boundary :: "bytes \<Rightarrow> nat \<Rightarrow> bool" where
  "char_boundary s i \<longleftrightarrow> i = 0 \<or> i = length s \<or> i < length s \<and> \<not> (0x80 \<le> s ! i \<and> s ! i < 0xC0)"

definition str_get :: "bytes \<Rightarrow> nat \<Rightarrow> nat \<Rightarrow> bytes option" where
  "str_get s i j =
     (if i \<le> j \<and> j \<le> length s \<and> char_boundary s i \<and> char_boundary s j then Some (take (j - i) (drop i s)) else None)"

definition passage_new ::
  "crypto \<Rightarrow> source_identity \<Rightarrow> source_version \<Rightarrow> u32 \<Rightarrow> text_part \<Rightarrow> bytes \<Rightarrow> u32 \<Rightarrow> u32 \<Rightarrow> (passage, search_error) res" where
  "passage_new c source v extraction location body start stop =
     and_then (ok_or (str_get body (unat start) (unat stop)) SearchInvalid) (\<lambda>selected.
     passage_load \<lparr>pa_source = source, pa_version = v, pa_extraction = extraction, pa_location = location,
       pa_start = start, pa_end = stop, pa_checksum = cr_sha256 c selected\<rparr>)"

definition passage_verify :: "crypto \<Rightarrow> passage \<Rightarrow> bytes \<Rightarrow> (bytes, search_error) res" where
  "passage_verify c p body =
     and_then (ok_or (str_get body (unat (pa_start p)) (unat (pa_end p))) SearchStale) (\<lambda>selected.
     fail_if (cr_sha256 c selected \<noteq> pa_checksum p) SearchStale (Ok selected))"

definition backup_removal_max :: u64 where
  "backup_removal_max = 604800000"

definition backup_removal_deadline :: "canonical_time \<Rightarrow> (canonical_time, search_error) res" where
  "backup_removal_deadline deleted_at = ok_or (time_checked_add deleted_at backup_removal_max) SearchInvalid"

section \<open>The lifecycle of a source\<close>

type_synonym index_generation = u64

definition generation_new :: "u64 \<Rightarrow> (index_generation, search_error) res" where
  "generation_new value = fail_if (value = 0) SearchInvalid (Ok value)"

datatype source_status = SourceRetained canonical_time | SourcePrivateDraft | SourceRemoved canonical_time

record derived_source =
  ds_identity :: source_identity
  ds_version :: source_version
  ds_generation :: index_generation
  ds_status :: source_status

definition source_load :: "derived_source \<Rightarrow> (derived_source, search_error) res" where
  "source_load v =
     fail_if (\<not> version_matches (ds_version v) (ds_identity v)
        \<or> \<not> (case (ds_version v, ds_status v) of
              (_, SourceRemoved _) \<Rightarrow> True
            | (VersionMessage _, SourceRetained _) \<Rightarrow> True
            | (VersionDraft _ _, SourcePrivateDraft) \<Rightarrow> True
            | _ \<Rightarrow> False)) SearchInvalid (Ok v)"

datatype work_intent =
  ExtractAndSynchronize index_generation
| RemoveAndSynchronize index_generation canonical_time

record derived_change =
  dc_next :: derived_source
  dc_work :: work_intent

definition source_change :: "derived_source \<Rightarrow> (derived_change, search_error) res" where
  "source_change s =
     and_then (case ds_status s of
         SourceRemoved removed_at \<Rightarrow>
           map_ok (RemoveAndSynchronize (ds_generation s)) (backup_removal_deadline removed_at)
       | _ \<Rightarrow> Ok (ExtractAndSynchronize (ds_generation s))) (\<lambda>work.
     Ok \<lparr>dc_next = s, dc_work = work\<rparr>)"

definition source_restored ::
  "source_identity \<Rightarrow> source_version \<Rightarrow> index_generation \<Rightarrow> source_status \<Rightarrow> (derived_source, search_error) res" where
  "source_restored i v g s = source_load \<lparr>ds_identity = i, ds_version = v, ds_generation = g, ds_status = s\<rparr>"

definition source_observed ::
  "source_identity \<Rightarrow> source_version \<Rightarrow> source_status \<Rightarrow> (derived_change, search_error) res" where
  "source_observed i v s = and_then (source_restored i v 1 s) source_change"

definition is_removed :: "source_status \<Rightarrow> bool" where
  "is_removed s \<longleftrightarrow> (case s of SourceRemoved _ \<Rightarrow> True | _ \<Rightarrow> False)"

definition source_advance ::
  "derived_source \<Rightarrow> index_generation \<Rightarrow> source_version \<Rightarrow> source_status \<Rightarrow> (derived_change, search_error) res" where
  "source_advance s expected v status =
     fail_if (ds_generation s \<noteq> expected) SearchStale
     (fail_if (is_removed (ds_status s)) SearchRemoved
     (fail_if (case (ds_version s, v) of
          (VersionDraft previous _, VersionDraft next_revision _) \<Rightarrow> \<not> is_removed status \<and> next_revision \<le> previous
        | _ \<Rightarrow> False) SearchStale
     (fail_if (is_removed status \<and> v \<noteq> ds_version s) SearchStale
     (and_then (ok_or (checked_add (ds_generation s) 1) SearchInvalid) (\<lambda>generation.
      and_then (source_restored (ds_identity s) v generation status) source_change)))))"

definition allow_publication ::
  "derived_source \<Rightarrow> source_identity \<Rightarrow> source_version \<Rightarrow> index_generation \<Rightarrow> canonical_time \<Rightarrow> (unit, search_error) res" where
  "allow_publication s i v g now =
     fail_if (ds_identity s \<noteq> i \<or> ds_version s \<noteq> v \<or> ds_generation s \<noteq> g) SearchStale
     (case ds_status s of
        SourceRemoved _ \<Rightarrow> Err SearchRemoved
      | SourceRetained expires_at \<Rightarrow> if now \<ge> expires_at then Err SearchExpired else Ok ()
      | SourcePrivateDraft \<Rightarrow> Ok ())"

section \<open>Embedding profiles\<close>

record compatibility_profile =
  cp_weights :: bytes32
  cp_tokenizer :: bytes32
  cp_preprocessing :: bytes32
  cp_passage_rules :: bytes32
  cp_instructions :: bytes32
  cp_runtime_precision :: bytes32
  cp_dimensions :: u16
  cp_normalized :: bool

definition profile_load :: "compatibility_profile \<Rightarrow> (compatibility_profile, search_error) res" where
  "profile_load v =
     fail_if (cp_dimensions v = 0 \<or> cp_dimensions v > 8192
        \<or> 0 \<in> {cp_weights v, cp_tokenizer v, cp_preprocessing v, cp_passage_rules v, cp_instructions v, cp_runtime_precision v})
       SearchInvalid (Ok v)"

definition profile_preimage :: "compatibility_profile \<Rightarrow> bytes" where
  "profile_preimage p =
     str_bytes ''cs-mail/embedding-profile/v1''
       @ be_bytes 32 (cp_weights p) @ be_bytes 32 (cp_tokenizer p) @ be_bytes 32 (cp_preprocessing p)
       @ be_bytes 32 (cp_passage_rules p) @ be_bytes 32 (cp_instructions p) @ be_bytes 32 (cp_runtime_precision p)
       @ be_bytes 2 (cp_dimensions p) @ [if cp_normalized p then 1 else 0]"

definition profile_id :: "crypto \<Rightarrow> compatibility_profile \<Rightarrow> bytes32" where
  "profile_id c p = cr_sha256 c (profile_preimage p)"

section \<open>Passages vouch for their text\<close>

text \<open>
  A passage vouches for the text it was cut from.  A new passage verifies on its text and gives
  back the selected range, which is not empty; where it verifies on any other text the same range
  of that text has the same bytes, or two byte strings with one checksum appear.
\<close>

theorem passage_vouches:
  assumes "passage_new c source v extraction location body start stop = Ok p"
  shows "\<exists>selected. str_get body (unat start) (unat stop) = Some selected \<and> passage_verify c p body = Ok selected
     \<and> length selected = unat stop - unat start \<and> selected \<noteq> []
     \<and> (\<forall>other found. passage_verify c p other = Ok found \<longrightarrow>
          found = selected \<or> found \<noteq> selected \<and> cr_sha256 c found = cr_sha256 c selected)"
proof -
  obtain selected where s: "str_get body (unat start) (unat stop) = Some selected"
    and p: "pa_start p = start" "pa_end p = stop" "pa_checksum p = cr_sha256 c selected" "start < stop"
    using assms by (auto simp: passage_new_def passage_load_def not_le)
  have "length selected = unat stop - unat start"
    using s by (auto simp: str_get_def split: if_splits)
  moreover have "unat start < unat stop" using p(4) by (simp add: word_less_nat_alt)
  ultimately have "length selected = unat stop - unat start" "selected \<noteq> []" by auto
  then show ?thesis using s p by (auto simp: passage_verify_def)
qed

lemma profile_preimage_inject: "profile_preimage p = profile_preimage q \<longleftrightarrow> p = q"
  by (cases p; cases q) (auto simp: profile_preimage_def enc_facts)

theorem profile_ids_distinct:
  "profile_id c p = profile_id c q \<longleftrightarrow>
     p = q \<or> profile_preimage p \<noteq> profile_preimage q \<and> cr_sha256 c (profile_preimage p) = cr_sha256 c (profile_preimage q)"
  using profile_preimage_inject by (auto simp: profile_id_def)

section \<open>Generations\<close>

text \<open>An advance names the generation it was computed from.\<close>

datatype source_command = AdvanceSource index_generation source_version source_status

primrec source_step :: "derived_source \<Rightarrow> source_command \<Rightarrow> (derived_source \<times> u64 option, search_error) res" where
  "source_step s (AdvanceSource g v status) = map_ok (\<lambda>d. (dc_next d, Some g)) (source_advance s g v status)"

definition source_ok :: "derived_source \<Rightarrow> bool" where
  "source_ok s \<longleftrightarrow> source_load s = Ok s"

lemma source_load_eq: "source_load r = Ok s \<longleftrightarrow> s = r \<and> source_ok r"
  by (auto simp: source_ok_def source_load_def)

lemma source_restored_Ok:
  "source_restored i v g status = Ok s \<longleftrightarrow>
     s = \<lparr>ds_identity = i, ds_version = v, ds_generation = g, ds_status = status\<rparr> \<and> source_ok s"
  unfolding source_restored_def source_load_eq by blast

lemma source_change_Ok: "source_change s = Ok d \<Longrightarrow> dc_next d = s"
  by (auto simp: source_change_def)

lemma source_advance_Ok:
  assumes "source_advance s g v status = Ok d"
  shows "g = ds_generation s \<and> \<not> is_removed (ds_status s) \<and> checked_add g 1 \<noteq> None \<and> source_ok (dc_next d)
     \<and> dc_next d = \<lparr>ds_identity = ds_identity s, ds_version = v, ds_generation = g + 1, ds_status = status\<rparr>"
  using assms
  by (auto simp: source_advance_def source_restored_Ok checked_add_def dest!: source_change_Ok split: if_splits)

lemma source_step_frame:
  assumes "source_step s c = Ok (s', spent)"
  shows "source_ok s' \<and> ds_identity s' = ds_identity s \<and> \<not> is_removed (ds_status s)
     \<and> spent = Some (ds_generation s) \<and> unat (ds_generation s') = unat (ds_generation s) + 1"
  using assms by (cases c) (auto dest!: source_advance_Ok simp: revision_next)

interpretation source_machine:
  versioned_machine source_step source_ok source_load ds_generation "\<lambda>s. 0" ds_identity
  by unfold_locales (auto simp: source_ok_def dest: source_step_frame [unfolded source_ok_def])

lemma removed_run: "is_removed (ds_status s) \<Longrightarrow> run_machine source_step s cs = (s, [])"
proof (induction cs)
  case (Cons c cs)
  have "\<not> (\<exists>r. source_step s c = Ok r)" using source_step_frame [of s c] Cons.prems by auto
  then show ?case using Cons by (cases "source_step s c") auto
qed simp

text \<open>
  C34: An index publishes only the present generation of a source.  From its first observation on,
  whatever advances are tried, the generation is one more than their number, each accepted at
  exactly the generation before; publication is allowed exactly for the stored identity, version
  and generation of a source that is neither removed nor expired, and a source once removed
  neither publishes nor changes.
\<close>

theorem publication_is_current:
  assumes "source_observed i v status = Ok d" and "run_machine source_step (dc_next d) commands = (s, outs)"
  shows "[unat g. Some g \<leftarrow> outs] = [1..<unat (ds_generation s)] \<and> source_load s = Ok s
     \<and> (allow_publication s i' v' g now = Ok () \<longleftrightarrow>
          i' = i \<and> v' = ds_version s \<and> unat g = 1 + length [unat g. Some g \<leftarrow> outs]
          \<and> (case ds_status s of SourceRemoved _ \<Rightarrow> False | SourceRetained e \<Rightarrow> now < e | SourcePrivateDraft \<Rightarrow> True))
     \<and> (is_removed (ds_status s) \<longrightarrow> run_machine source_step s later = (s, []))"
proof -
  have d: "dc_next d = \<lparr>ds_identity = i, ds_version = v, ds_generation = 1, ds_status = status\<rparr>" and ok: "source_ok (dc_next d)"
    using assms(1) by (auto simp: source_observed_def source_restored_Ok dest!: source_change_Ok)
  note run = source_machine.run_serial_restored [OF ok assms(2)]
  have outs: "[unat g. Some g \<leftarrow> outs] = [1..<unat (ds_generation s)]" and "ds_identity s = i"
    using run by (simp_all add: d)
  have "1 \<le> unat (ds_generation s)" using source_machine.run_serial [OF assms(2)] by (simp add: d)
  then have "unat (ds_generation s) = 1 + length [unat g. Some g \<leftarrow> outs]" unfolding outs by simp
  then have "allow_publication s i' v' g now = Ok () \<longleftrightarrow>
          i' = i \<and> v' = ds_version s \<and> unat g = 1 + length [unat g. Some g \<leftarrow> outs]
          \<and> (case ds_status s of SourceRemoved _ \<Rightarrow> False | SourceRetained e \<Rightarrow> now < e | SourcePrivateDraft \<Rightarrow> True)"
    using \<open>ds_identity s = i\<close>
    by (cases "ds_status s") (auto simp: allow_publication_def not_le word_unat_eq_iff)
  then show ?thesis using outs run removed_run by blast
qed

end
