(* ===== verification/Operations.thy ===== *)
theory Operations
  imports Pricing Authority Billing Btree
begin

text \<open>
  The deployment and its operators (\<open>crates/cs-mail-operations/src\<close>): the bootstrap record and its
  trust roots, and operator commands with their signatures, verification and replay check.  The
  lemmas show that a deployment is installed once, that a validated one fits every valid protocol
  policy, and what a verified operator command is.
\<close>

section \<open>Operator keys and the bootstrap record\<close>

datatype operations_error =
  OpsInvalid | OpsBootstrapConflict | OpsNotBootstrapped | OpsUnauthorized | OpsDuplicateConflict

type_synonym operator_key_ref = u128
type_synonym operator_keys = "(operator_key_ref, bytes32) btmap"

definition operator_keys_new :: "crypto \<Rightarrow> operator_keys \<Rightarrow> (operator_keys, operations_error) res" where
  "operator_keys_new c keys =
     fail_if (bt_entries keys = []
        \<or> list_ex (\<lambda>(r, k). r = 0 \<or> k = 0 \<or> \<not> cr_key_parses c k) (bt_entries keys)) OpsInvalid (Ok keys)"

record provider_key =
  pk_reference :: operational_key_ref
  pk_verifying_key :: bytes32

record payment_trust =
  pt_processor_key :: bytes32
  pt_bank_authority :: bytes32

record identity_trust =
  it_issuer :: string
  it_product :: string
  it_decision_key :: bytes32

record bootstrap_record =
  br_provider :: provider_ref
  br_deployment_domain :: bytes32
  br_financial_scope :: financial_scope
  br_unit :: settlement_unit
  br_provider_key :: provider_key
  br_scheduler_key :: provider_key
  br_operators :: operator_keys
  br_payment :: payment_trust
  br_identity :: identity_trust

definition bootstrap_new :: "crypto \<Rightarrow> bootstrap_record \<Rightarrow> (bootstrap_record, operations_error) res" where
  "bootstrap_new c r =
     (let valid_key = (\<lambda>k. k \<noteq> 0 \<and> cr_key_parses c k) in
      fail_if (br_provider r = 0 \<or> br_deployment_domain r = 0
        \<or> fs_deployment_domain (br_financial_scope r) \<noteq> br_deployment_domain r
        \<or> fs_operator (br_financial_scope r) \<noteq> br_provider r
        \<or> pk_reference (br_provider_key r) = 0 \<or> \<not> valid_key (pk_verifying_key (br_provider_key r))
        \<or> pk_reference (br_scheduler_key r) = 0
        \<or> pk_reference (br_scheduler_key r) = pk_reference (br_provider_key r)
        \<or> \<not> valid_key (pk_verifying_key (br_scheduler_key r))
        \<or> \<not> valid_key (pt_processor_key (br_payment r)) \<or> \<not> valid_key (pt_bank_authority (br_payment r))
        \<or> \<not> valid_key (it_decision_key (br_identity r))
        \<or> take 8 (it_issuer (br_identity r)) \<noteq> ''https://'' \<or> it_product (br_identity r) = []) OpsInvalid
      (Ok r))"

datatype bootstrap_outcome = BootCreated | BootAlreadyBootstrapped

definition bootstrap_reconcile :: "bootstrap_record \<Rightarrow> bootstrap_record option \<Rightarrow> (bootstrap_outcome, operations_error) res" where
  "bootstrap_reconcile b stored =
     (case stored of
        None \<Rightarrow> Ok BootCreated
      | Some existing \<Rightarrow> if existing = b then Ok BootAlreadyBootstrapped else Err OpsBootstrapConflict)"

definition deployment_terms_of :: "bootstrap_record \<Rightarrow> deployment_terms" where
  "deployment_terms_of r =
     \<lparr>dt_protocol_version = fs_protocol_version (br_financial_scope r), dt_provider = br_provider r,
      dt_unit = br_unit r, dt_financial_scope = br_financial_scope r,
      dt_payment_provider_key = pt_processor_key (br_payment r)\<rparr>"

record operator_authority =
  oa_deployment_domain :: bytes32
  oa_keys :: operator_keys

definition operator_authority_of :: "bootstrap_record \<Rightarrow> operator_authority" where
  "operator_authority_of r = \<lparr>oa_deployment_domain = br_deployment_domain r, oa_keys = br_operators r\<rparr>"

section \<open>Operator commands\<close>

record 'c signed_operator_command =
  sg_deployment_domain :: bytes32
  sg_operator :: operator_key_ref
  sg_idempotency_key :: idempotency_key
  sg_command :: 'c
  sg_signature :: bytes

record 'c verified_operator_command =
  vo_operator :: operator_key_ref
  vo_idempotency_key :: idempotency_key
  vo_digest :: bytes32
  vo_command :: 'c

text \<open>
  The tuple whose JSON text is signed begins with the signing domain of the command's family;
  \<open>json\<close> is \<open>serde_json::to_vec\<close> on it and can fail.
\<close>

type_synonym 'c operator_text = "string \<times> bytes32 \<times> operator_key_ref \<times> idempotency_key \<times> 'c"

definition operator_bytes ::
  "('c operator_text \<Rightarrow> bytes option) \<Rightarrow> string \<Rightarrow> 'c signed_operator_command \<Rightarrow> (bytes, operations_error) res" where
  "operator_bytes json family s =
     ok_or (json (family, sg_deployment_domain s, sg_operator s, sg_idempotency_key s, sg_command s)) OpsInvalid"

definition operator_sign ::
  "crypto \<Rightarrow> ('c operator_text \<Rightarrow> bytes option) \<Rightarrow> string \<Rightarrow> bytes32 \<Rightarrow> operator_key_ref \<Rightarrow> idempotency_key \<Rightarrow> 'c
     \<Rightarrow> bytes32 \<Rightarrow> ('c signed_operator_command, operations_error) res" where
  "operator_sign c json family deployment operator idempotency command secret =
     (let s = \<lparr>sg_deployment_domain = deployment, sg_operator = operator, sg_idempotency_key = idempotency,
        sg_command = command, sg_signature = []\<rparr> in
      and_then (operator_bytes json family s) (\<lambda>bs. Ok (s\<lparr>sg_signature := cr_sign c secret bs\<rparr>)))"

definition operator_verify ::
  "crypto \<Rightarrow> ('c operator_text \<Rightarrow> bytes option) \<Rightarrow> string \<Rightarrow> operator_authority \<Rightarrow> 'c signed_operator_command
     \<Rightarrow> ('c verified_operator_command, operations_error) res" where
  "operator_verify c json family a s =
     fail_if (sg_deployment_domain s \<noteq> oa_deployment_domain a) OpsUnauthorized
     (and_then (ok_or (bt_get (oa_keys a) (sg_operator s)) OpsUnauthorized) (\<lambda>key.
      and_then (operator_bytes json family s) (\<lambda>bs.
      fail_if (\<not> cr_signature_parses c (sg_signature s)) OpsUnauthorized
      (fail_if (\<not> cr_key_parses c key) OpsUnauthorized
      (fail_if (\<not> cr_verify_strict c key bs (sg_signature s)) OpsUnauthorized
      (Ok \<lparr>vo_operator = sg_operator s, vo_idempotency_key = sg_idempotency_key s,
           vo_digest = cr_sha256 c (bs @ sg_signature s), vo_command = sg_command s\<rparr>))))))"

datatype 'o command_replay = ReplayNew | ReplayOf 'o

definition operator_replay ::
  "'c verified_operator_command \<Rightarrow> (bytes32 \<times> 'o) option \<Rightarrow> ('o command_replay, operations_error) res" where
  "operator_replay command stored =
     (case stored of
        None \<Rightarrow> Ok ReplayNew
      | Some (digest, outcome) \<Rightarrow>
          if digest = vo_digest command then Ok (ReplayOf outcome) else Err OpsDuplicateConflict)"

section \<open>Properties\<close>

text \<open>Bootstraps applied one after another; the first one accepted is stored.\<close>

definition bootstrap_step ::
  "bootstrap_record option \<Rightarrow> bootstrap_record \<Rightarrow> (bootstrap_record option \<times> bootstrap_outcome, operations_error) res" where
  "bootstrap_step stored b =
     map_ok (\<lambda>outcome. (if outcome = BootCreated then Some b else stored, outcome)) (bootstrap_reconcile b stored)"

lemma bootstrap_stays: "run_machine bootstrap_step (Some b) bs = (t, outs) \<Longrightarrow> t = Some b \<and> set outs \<subseteq> {BootAlreadyBootstrapped}"
  by (induction bs arbitrary: outs) (auto simp: bootstrap_step_def bootstrap_reconcile_def split: prod.splits if_splits)

text \<open>
  A deployment is installed once and fits its policies.  Of any sequence of bootstraps the
  first is stored and stays, exactly one creation is reported and every other bootstrap is
  reported as a repetition or refused; and the terms of a validated deployment turn every valid
  protocol policy into a snapshot the kernel accepts.
\<close>

theorem bootstrap_installs_once:
  assumes "run_machine bootstrap_step None (b # bs) = (t, outs)" and "bootstrap_new c b = Ok b"
    and "protocol_policy_new p = Ok p"
  shows "t = Some b \<and> count_list outs BootCreated = 1
     \<and> (\<exists>s. policy_snapshot_of p (deployment_terms_of b) = Ok s \<and> policy_snapshot_validate s = Ok ())"
proof -
  obtain outs' where run: "run_machine bootstrap_step (Some b) bs = (t, outs')" and outs: "outs = BootCreated # outs'"
    using assms(1) by (auto simp: bootstrap_step_def bootstrap_reconcile_def split: prod.splits)
  have "count_list outs' BootCreated = 0"
    using bootstrap_stays [OF run] by (auto simp: count_list_0_iff)
  moreover have "pt_processor_key (br_payment b) \<noteq> 0" using assms(2) by (simp add: bootstrap_new_def Let_def)
  then have "\<exists>s. policy_snapshot_of p (deployment_terms_of b) = Ok s \<and> policy_snapshot_validate s = Ok ()"
    using policy_snapshot_accepted [OF assms(3), of "deployment_terms_of b"] by (auto simp: deployment_terms_of_def)
  ultimately show ?thesis using bootstrap_stays [OF run] outs by simp
qed

lemma operator_verify_Ok:
  "operator_verify c json family a s = Ok v \<longleftrightarrow>
     (\<exists>key bs. sg_deployment_domain s = oa_deployment_domain a \<and> bt_get (oa_keys a) (sg_operator s) = Some key
       \<and> json (family, sg_deployment_domain s, sg_operator s, sg_idempotency_key s, sg_command s) = Some bs
       \<and> cr_signature_parses c (sg_signature s) \<and> cr_key_parses c key \<and> cr_verify_strict c key bs (sg_signature s)
       \<and> v = \<lparr>vo_operator = sg_operator s, vo_idempotency_key = sg_idempotency_key s,
           vo_digest = cr_sha256 c (bs @ sg_signature s), vo_command = sg_command s\<rparr>)"
  by (auto simp: operator_verify_def operator_bytes_def)

text \<open>What an installed operator signs for the deployment verifies as that command.\<close>

lemma operator_signed_verifies:
  assumes "ed25519_correct c" and "bt_get (oa_keys a) operator = Some (cr_public_key c secret)"
    and "operator_sign c json family (oa_deployment_domain a) operator key command secret = Ok s"
  shows "\<exists>v. operator_verify c json family a s = Ok v \<and> vo_command v = command \<and> vo_operator v = operator
     \<and> vo_idempotency_key v = key"
  using assms by (auto simp: operator_verify_Ok operator_sign_def operator_bytes_def ed25519_correct_def Let_def)

end
