(* ===== verification/Publication.thy ===== *)
theory Publication
  imports Operations Signatures
begin

text \<open>
  Publication by operators and members: the decisions of the application layer
  (\<open>crates/cs-mail-application/src/operations.rs\<close> and \<open>request_pricing.rs\<close>) and the transaction the
  PostgreSQL adapter runs them in (\<open>crates/cs-mail-storage-postgres/src/operations.rs\<close>).  A table is
  an ordered map of its rows by primary key; inserting a key twice fails the transaction, and a
  failed transaction leaves every table as it was.  The lemmas show that what was published never
  changes, that versions rise, and that a command is executed once.
\<close>

section \<open>Decisions\<close>

record policy_publication_context =
  px_current :: "pricing_policy option"
  px_same_version :: "pricing_policy option"
  px_publications :: "recipient_request_classes list"

record policy_publication_report =
  pb_version :: policy_version
  pb_changed :: bool
  pb_unquotable :: nat

definition decide_policy ::
  "pricing_policy \<Rightarrow> policy_publication_context \<Rightarrow> canonical_time
     \<Rightarrow> ((pricing_policy \<times> canonical_time) option \<times> policy_publication_report, protocol_error) res" where
  "decide_policy policy cx now =
     fail_if (case px_same_version cx of Some p \<Rightarrow> p \<noteq> policy | None \<Rightarrow> False) PtDuplicateConflict
     (let affected = length (filter (\<lambda>p. \<not> policy_permits policy p) (px_publications cx));
          report = (\<lambda>changed. \<lparr>pb_version = pp_version policy, pb_changed = changed, pb_unquotable = affected\<rparr>) in
      case px_current cx of
        None \<Rightarrow> Ok (Some (policy, now), report True)
      | Some current \<Rightarrow>
          if current = policy then Ok (None, report False)
          else fail_if (pp_version policy \<le> pp_version current) PtVersionConflict
            (fail_if (pp_unit policy \<noteq> pp_unit current) PtPolicyInvalid
            (Ok (Some (policy, now), report True))))"

definition decide_protocol_policy ::
  "protocol_policy \<Rightarrow> protocol_policy option \<Rightarrow> protocol_policy option \<Rightarrow> (bool, protocol_error) res" where
  "decide_protocol_policy policy current same_version =
     fail_if (case same_version of Some stored \<Rightarrow> stored \<noteq> policy | None \<Rightarrow> False) PtDuplicateConflict
     (case current of
        Some c \<Rightarrow> if c = policy then Ok False
          else fail_if (po_version policy \<le> po_version c) PtVersionConflict (Ok True)
      | None \<Rightarrow> Ok True)"

datatype operator_command =
  PublishServiceOffer service_offer | PublishRequestPricing pricing_policy | PublishProtocolPolicy protocol_policy

definition configuration_family :: string where
  "configuration_family = ''cs-mail/operator-command/v1''"

datatype operator_outcome =
  ServiceOfferPublished policy_version bool
| RequestPricingPublished policy_version bool nat
| ProtocolPolicyPublished policy_version bool

datatype operator_target =
  TargetServiceOffer "service_offer option"
| TargetRequestPricing policy_publication_context
| TargetProtocolPolicy "protocol_policy option" "protocol_policy option"

record operator_context =
  oc_authority :: operator_authority
  oc_prior :: "(bytes32 \<times> operator_outcome) option"
  oc_target :: operator_target

datatype operator_effect =
  EffectServiceOffer service_offer
| EffectRequestPricing pricing_policy canonical_time
| EffectProtocolPolicy protocol_policy canonical_time

record operator_record =
  or_command :: "operator_command verified_operator_command"
  or_outcome :: operator_outcome
  or_authorized_at :: canonical_time

record operator_decision =
  od_record :: "operator_record option"
  od_effect :: "operator_effect option"
  od_outcome :: operator_outcome

datatype publication_error =
  PbOperations operations_error | PbProtocol protocol_error | PbBilling billing_error
| PbNumericRange | PbUniqueViolation | PbRowMissing

definition operator_decide ::
  "crypto \<Rightarrow> (operator_command operator_text \<Rightarrow> bytes option) \<Rightarrow> operator_command signed_operator_command
     \<Rightarrow> operator_context \<Rightarrow> canonical_time \<Rightarrow> (operator_decision, publication_error) res" where
  "operator_decide c json signed_command cx now =
     and_then (map_err PbOperations (operator_verify c json configuration_family (oc_authority cx) signed_command)) (\<lambda>verified.
     and_then (map_err PbOperations (operator_replay verified (oc_prior cx))) (\<lambda>replay.
     case replay of
       ReplayOf outcome \<Rightarrow> Ok \<lparr>od_record = None, od_effect = None, od_outcome = outcome\<rparr>
     | ReplayNew \<Rightarrow>
         and_then
           (case (vo_command verified, oc_target cx) of
              (PublishServiceOffer offer, TargetServiceOffer same_version) \<Rightarrow>
                and_then (case same_version of
                    None \<Rightarrow> Ok True
                  | Some existing \<Rightarrow> if existing = offer then Ok False else Err (PbBilling BillConflict)) (\<lambda>changed.
                Ok (if changed then Some (EffectServiceOffer offer) else None,
                    ServiceOfferPublished (service_offer.so_version offer) changed))
            | (PublishRequestPricing policy, TargetRequestPricing pricing) \<Rightarrow>
                and_then (map_err PbProtocol (decide_policy policy pricing now)) (\<lambda>(next_policy, report).
                Ok (map_option (\<lambda>(p, t). EffectRequestPricing p t) next_policy,
                    RequestPricingPublished (pb_version report) (pb_changed report) (pb_unquotable report)))
            | (PublishProtocolPolicy policy, TargetProtocolPolicy current same_version) \<Rightarrow>
                and_then (map_err PbProtocol (decide_protocol_policy policy current same_version)) (\<lambda>changed.
                Ok (if changed then Some (EffectProtocolPolicy policy now) else None,
                    ProtocolPolicyPublished (po_version policy) changed))
            | _ \<Rightarrow> Err (PbOperations OpsInvalid)) (\<lambda>(effect, outcome).
         Ok \<lparr>od_record = Some \<lparr>or_command = verified, or_outcome = outcome, or_authorized_at = now\<rparr>,
             od_effect = effect, od_outcome = outcome\<rparr>)))"

section \<open>The transaction\<close>

record deployment_tables =
  tb_deployment :: "bootstrap_record option"
  tb_commands :: "(idempotency_key, operator_record) btmap"
  tb_offers :: "(policy_version, service_offer) btmap"
  tb_pricing :: "(policy_version, pricing_policy) btmap"
  tb_pricing_current :: "policy_version option"
  tb_protocol :: "(policy_version, protocol_policy) btmap"
  tb_protocol_current :: "policy_version option"
  tb_classes :: "(alias_id, recipient_request_classes) btmap"

text \<open>A \<open>BIGINT\<close> column holds a u64 below the range of an i64.\<close>

definition to_i64 :: "u64 \<Rightarrow> (u64, publication_error) res" where
  "to_i64 v = fail_if (2 ^ 63 \<le> unat v) PbNumericRange (Ok v)"

definition insert_row :: "('k::linorder, 'v) btmap \<Rightarrow> 'k \<Rightarrow> 'v \<Rightarrow> (('k, 'v) btmap, publication_error) res" where
  "insert_row table k v = fail_if (bt_has table k) PbUniqueViolation (Ok (bt_insert k v table))"

definition policy_context :: "deployment_tables \<Rightarrow> pricing_policy \<Rightarrow> (policy_publication_context, publication_error) res" where
  "policy_context db policy =
     and_then (case tb_pricing_current db of
         None \<Rightarrow> Ok None
       | Some v \<Rightarrow> map_ok Some (ok_or (bt_get (tb_pricing db) v) PbRowMissing)) (\<lambda>current.
     and_then (to_i64 (pp_version policy)) (\<lambda>v.
     Ok \<lparr>px_current = current, px_same_version = bt_get (tb_pricing db) v,
         px_publications = bt_values (tb_classes db)\<rparr>))"

definition current_protocol_policy :: "deployment_tables \<Rightarrow> (protocol_policy option, publication_error) res" where
  "current_protocol_policy db =
     (case tb_protocol_current db of
        None \<Rightarrow> Ok None
      | Some v \<Rightarrow> map_ok Some (ok_or (bt_get (tb_protocol db) v) PbRowMissing))"

definition operator_target_of ::
  "deployment_tables \<Rightarrow> operator_command \<Rightarrow> (operator_target, publication_error) res" where
  "operator_target_of db command =
     (case command of
        PublishServiceOffer offer \<Rightarrow> Ok (TargetServiceOffer (bt_get (tb_offers db) (service_offer.so_version offer)))
      | PublishRequestPricing policy \<Rightarrow> map_ok TargetRequestPricing (policy_context db policy)
      | PublishProtocolPolicy policy \<Rightarrow>
          and_then (current_protocol_policy db) (\<lambda>current.
          and_then (to_i64 (po_version policy)) (\<lambda>v.
          Ok (TargetProtocolPolicy current (bt_get (tb_protocol db) v)))))"

definition apply_effect :: "deployment_tables \<Rightarrow> operator_effect \<Rightarrow> (deployment_tables, publication_error) res" where
  "apply_effect db effect =
     (case effect of
        EffectServiceOffer offer \<Rightarrow>
          and_then (insert_row (tb_offers db) (service_offer.so_version offer) offer) (\<lambda>offers.
          Ok (db\<lparr>tb_offers := offers\<rparr>))
      | EffectRequestPricing policy now \<Rightarrow>
          and_then (to_i64 (pp_version policy)) (\<lambda>v.
          and_then (to_i64 now) (\<lambda>_.
          and_then (insert_row (tb_pricing db) v policy) (\<lambda>policies.
          Ok (db\<lparr>tb_pricing := policies, tb_pricing_current := Some v\<rparr>))))
      | EffectProtocolPolicy policy now \<Rightarrow>
          and_then (to_i64 (po_version policy)) (\<lambda>v.
          and_then (to_i64 now) (\<lambda>_.
          and_then (insert_row (tb_protocol db) v policy) (\<lambda>policies.
          Ok (db\<lparr>tb_protocol := policies, tb_protocol_current := Some v\<rparr>)))))"

definition operator_transact ::
  "crypto \<Rightarrow> (operator_command operator_text \<Rightarrow> bytes option) \<Rightarrow> deployment_tables
     \<Rightarrow> operator_command signed_operator_command \<times> canonical_time
     \<Rightarrow> (deployment_tables \<times> operator_outcome, publication_error) res" where
  "operator_transact c json db call =
     (let (signed_command, now) = call in
      and_then (ok_or (tb_deployment db) (PbOperations OpsNotBootstrapped)) (\<lambda>deployment.
      let prior = map_option (\<lambda>r. (vo_digest (or_command r), or_outcome r))
            (bt_get (tb_commands db) (sg_idempotency_key signed_command)) in
      and_then (operator_target_of db (sg_command signed_command)) (\<lambda>target.
      and_then (operator_decide c json signed_command
          \<lparr>oc_authority = operator_authority_of deployment, oc_prior = prior, oc_target = target\<rparr> now) (\<lambda>decision.
      and_then (case od_effect decision of Some effect \<Rightarrow> apply_effect db effect | None \<Rightarrow> Ok db) (\<lambda>changed.
      and_then (case od_record decision of
          Some r \<Rightarrow>
            and_then (to_i64 (or_authorized_at r)) (\<lambda>_.
            and_then (insert_row (tb_commands changed) (sg_idempotency_key signed_command) r) (\<lambda>commands.
            Ok (changed\<lparr>tb_commands := commands\<rparr>)))
        | None \<Rightarrow> Ok changed) (\<lambda>committed.
      Ok (committed, od_outcome decision)))))))"

section \<open>What a transaction does\<close>

text \<open>The rows are stored under their own keys, and the current version is the latest one.\<close>

definition tables_ok :: "deployment_tables \<Rightarrow> bool" where
  "tables_ok db \<longleftrightarrow>
     (\<forall>v p. bt_get (tb_pricing db) v = Some p \<longrightarrow> pp_version p = v)
     \<and> (\<forall>v p. bt_get (tb_protocol db) v = Some p \<longrightarrow> po_version p = v)
     \<and> (case tb_pricing_current db of
          Some v \<Rightarrow> bt_has (tb_pricing db) v \<and> (\<forall>w. bt_has (tb_pricing db) w \<longrightarrow> w \<le> v)
        | None \<Rightarrow> \<forall>w. \<not> bt_has (tb_pricing db) w)
     \<and> (case tb_protocol_current db of
          Some v \<Rightarrow> bt_has (tb_protocol db) v \<and> (\<forall>w. bt_has (tb_protocol db) w \<longrightarrow> w \<le> v)
        | None \<Rightarrow> \<forall>w. \<not> bt_has (tb_protocol db) w)"

text \<open>Everything published stays, and a current version only rises.\<close>

definition keeps_rows :: "('k::linorder, 'v) btmap \<Rightarrow> ('k, 'v) btmap \<Rightarrow> bool" where
  "keeps_rows m n \<longleftrightarrow> (\<forall>k v. bt_get m k = Some v \<longrightarrow> bt_get n k = Some v)"

definition keeps_tables :: "deployment_tables \<Rightarrow> deployment_tables \<Rightarrow> bool" where
  "keeps_tables db db' \<longleftrightarrow>
     tb_deployment db' = tb_deployment db \<and> tb_classes db' = tb_classes db
     \<and> keeps_rows (tb_commands db) (tb_commands db') \<and> keeps_rows (tb_offers db) (tb_offers db')
     \<and> keeps_rows (tb_pricing db) (tb_pricing db') \<and> keeps_rows (tb_protocol db) (tb_protocol db')
     \<and> tb_pricing_current db \<le> tb_pricing_current db' \<and> tb_protocol_current db \<le> tb_protocol_current db'"

lemma keeps_rows_refl [simp]: "keeps_rows m m"
  by (simp add: keeps_rows_def)

lemma keeps_rows_insert: "\<not> bt_has m k \<Longrightarrow> keeps_rows m (bt_insert k v m)"
  by (auto simp: keeps_rows_def bt_has_def)

lemma keeps_tables_refl [simp]: "keeps_tables db db"
  by (simp add: keeps_tables_def)

lemma keeps_tables_trans: "keeps_tables a b \<Longrightarrow> keeps_tables b d \<Longrightarrow> keeps_tables a d"
  by (auto simp: keeps_tables_def keeps_rows_def intro: order_trans)

text \<open>A decision replays a record, or records the command with an effect newer than what is current.\<close>

definition newer_effect :: "operator_target \<Rightarrow> operator_effect \<Rightarrow> bool" where
  "newer_effect target effect \<longleftrightarrow>
     (case effect of
        EffectServiceOffer offer \<Rightarrow> True
      | EffectRequestPricing policy _ \<Rightarrow>
          (\<exists>cx. target = TargetRequestPricing cx \<and> (\<forall>cur. px_current cx = Some cur \<longrightarrow> pp_version cur < pp_version policy))
      | EffectProtocolPolicy policy _ \<Rightarrow>
          (\<exists>cur same. target = TargetProtocolPolicy cur same \<and> (\<forall>x. cur = Some x \<longrightarrow> po_version x < po_version policy)))"

lemma decide_policy_newer:
  "decide_policy policy cx now = Ok (Some (p, t), report) \<Longrightarrow>
     p = policy \<and> (\<forall>cur. px_current cx = Some cur \<longrightarrow> pp_version cur < pp_version policy)"
  by (auto simp: decide_policy_def Let_def not_le split: option.splits if_splits)

lemma decide_protocol_newer:
  "decide_protocol_policy policy cur same = Ok True \<Longrightarrow> \<forall>x. cur = Some x \<longrightarrow> po_version x < po_version policy"
  by (auto simp: decide_protocol_policy_def not_le split: option.splits if_splits)

lemma operator_decide_cases:
  assumes "operator_decide c json s cx now = Ok d"
  obtains (replay) verified where "operator_verify c json configuration_family (oc_authority cx) s = Ok verified"
      "oc_prior cx = Some (vo_digest verified, od_outcome d)" "od_record d = None" "od_effect d = None"
  | (executed) verified where "operator_verify c json configuration_family (oc_authority cx) s = Ok verified"
      "oc_prior cx = None" "od_record d = Some \<lparr>or_command = verified, or_outcome = od_outcome d, or_authorized_at = now\<rparr>"
      "\<forall>e. od_effect d = Some e \<longrightarrow> newer_effect (oc_target cx) e"
proof -
  obtain verified where v: "operator_verify c json configuration_family (oc_authority cx) s = Ok verified"
    using assms by (auto simp: operator_decide_def)
  show thesis
  proof (cases "oc_prior cx")
    case None
    then have r: "operator_replay verified (oc_prior cx) = Ok ReplayNew" by (simp add: operator_replay_def)
    show thesis
      by (rule executed [OF v None])
         (use assms v r in \<open>auto simp: operator_decide_def newer_effect_def
            split: operator_command.splits operator_target.splits if_splits
            dest!: decide_policy_newer decide_protocol_newer\<close>)
  next
    case (Some x)
    then show thesis using assms v replay
      by (cases x) (auto simp: operator_decide_def operator_replay_def split: if_splits)
  qed
qed

lemma target_policy:
  "operator_target_of db command = Ok (TargetRequestPricing cx) \<Longrightarrow>
     px_current cx = Option.bind (tb_pricing_current db) (bt_get (tb_pricing db))
     \<and> (tb_pricing_current db \<noteq> None \<longrightarrow> px_current cx \<noteq> None)"
  by (auto simp: operator_target_of_def policy_context_def current_protocol_policy_def
      split: operator_command.splits option.splits)

lemma target_protocol:
  "operator_target_of db command = Ok (TargetProtocolPolicy cur same) \<Longrightarrow>
     cur = Option.bind (tb_protocol_current db) (bt_get (tb_protocol db))
     \<and> (tb_protocol_current db \<noteq> None \<longrightarrow> cur \<noteq> None)"
  by (auto simp: operator_target_of_def policy_context_def current_protocol_policy_def
      split: operator_command.splits option.splits)

lemma tables_ok_commands [simp]: "tables_ok (db\<lparr>tb_commands := m\<rparr>) = tables_ok db"
  by (cases "tb_pricing_current db"; cases "tb_protocol_current db") (simp_all add: tables_ok_def)

lemma tables_ok_offers [simp]: "tables_ok (db\<lparr>tb_offers := m\<rparr>) = tables_ok db"
  by (cases "tb_pricing_current db"; cases "tb_protocol_current db") (simp_all add: tables_ok_def)

lemma apply_effect_ok:
  assumes ok: "tables_ok db" and target: "operator_target_of db command = Ok target" and newer: "newer_effect target effect"
    and mid: "apply_effect db effect = Ok mid"
  shows "tables_ok mid \<and> keeps_tables db mid \<and> tb_commands mid = tb_commands db"
proof (cases effect)
  case (EffectServiceOffer offer)
  then show ?thesis using mid ok
    by (auto simp: apply_effect_def insert_row_def keeps_tables_def keeps_rows_insert)
next
  case (EffectRequestPricing policy now)
  obtain cx where cx: "target = TargetRequestPricing cx" and new: "\<forall>cur. px_current cx = Some cur \<longrightarrow> pp_version cur < pp_version policy"
    using newer EffectRequestPricing by (auto simp: newer_effect_def)
  note cur = target_policy [OF target [unfolded cx]]
  have le: "case tb_pricing_current db of Some v \<Rightarrow> v < pp_version policy | None \<Rightarrow> True"
    using cur new ok by (auto simp: tables_ok_def split: option.splits)
  have m: "mid = db\<lparr>tb_pricing := bt_insert (pp_version policy) policy (tb_pricing db), tb_pricing_current := Some (pp_version policy)\<rparr>"
    and free: "\<not> bt_has (tb_pricing db) (pp_version policy)"
    using mid EffectRequestPricing by (auto simp: apply_effect_def insert_row_def to_i64_def)
  have below: "w \<le> pp_version policy" if "bt_has (tb_pricing db) w" for w
    using that le ok by (cases "tb_pricing_current db") (force simp: tables_ok_def)+
  have "tables_ok mid"
    using ok below unfolding m by (cases "tb_protocol_current db") (auto simp: tables_ok_def bt_has_def)
  moreover have "keeps_tables db mid"
    using free le unfolding m by (cases "tb_pricing_current db") (auto simp: keeps_tables_def keeps_rows_insert)
  ultimately show ?thesis by (simp add: m)
next
  case (EffectProtocolPolicy policy now)
  obtain cur same where cx: "target = TargetProtocolPolicy cur same" and new: "\<forall>x. cur = Some x \<longrightarrow> po_version x < po_version policy"
    using newer EffectProtocolPolicy by (auto simp: newer_effect_def)
  note cur = target_protocol [OF target [unfolded cx]]
  have le: "case tb_protocol_current db of Some v \<Rightarrow> v < po_version policy | None \<Rightarrow> True"
    using cur new ok by (auto simp: tables_ok_def split: option.splits)
  have m: "mid = db\<lparr>tb_protocol := bt_insert (po_version policy) policy (tb_protocol db), tb_protocol_current := Some (po_version policy)\<rparr>"
    and free: "\<not> bt_has (tb_protocol db) (po_version policy)"
    using mid EffectProtocolPolicy by (auto simp: apply_effect_def insert_row_def to_i64_def)
  have below: "w \<le> po_version policy" if "bt_has (tb_protocol db) w" for w
    using that le ok by (cases "tb_protocol_current db") (force simp: tables_ok_def)+
  have "tables_ok mid"
    using ok below unfolding m by (cases "tb_pricing_current db") (auto simp: tables_ok_def bt_has_def)
  moreover have "keeps_tables db mid"
    using free le unfolding m by (cases "tb_protocol_current db") (auto simp: keeps_tables_def keeps_rows_insert)
  ultimately show ?thesis by (simp add: m)
qed

lemma operator_transact_cases:
  assumes "operator_transact c json db (s, now) = Ok (db', outcome)" and "tables_ok db"
  obtains (replay) deployment verified r where
      "tb_deployment db = Some deployment"
      "operator_verify c json configuration_family (operator_authority_of deployment) s = Ok verified"
      "bt_get (tb_commands db) (sg_idempotency_key s) = Some r" "vo_digest (or_command r) = vo_digest verified"
      "outcome = or_outcome r" "db' = db"
  | (executed) deployment verified mid where
      "tb_deployment db = Some deployment"
      "operator_verify c json configuration_family (operator_authority_of deployment) s = Ok verified"
      "bt_get (tb_commands db) (sg_idempotency_key s) = None"
      "tables_ok mid" "keeps_tables db mid" "tb_commands mid = tb_commands db"
      "db' = mid\<lparr>tb_commands := bt_insert (sg_idempotency_key s)
          \<lparr>or_command = verified, or_outcome = outcome, or_authorized_at = now\<rparr> (tb_commands db)\<rparr>"
proof -
  let ?prior = "map_option (\<lambda>r. (vo_digest (or_command r), or_outcome r)) (bt_get (tb_commands db) (sg_idempotency_key s))"
  obtain deployment target decision changed where
    d: "tb_deployment db = Some deployment" and t: "operator_target_of db (sg_command s) = Ok target"
    and dec: "operator_decide c json s \<lparr>oc_authority = operator_authority_of deployment, oc_prior = ?prior,
        oc_target = target\<rparr> now = Ok decision"
    and ch: "(case od_effect decision of Some effect \<Rightarrow> apply_effect db effect | None \<Rightarrow> Ok db) = Ok changed"
    and com: "(case od_record decision of
          Some r \<Rightarrow>
            and_then (to_i64 (or_authorized_at r)) (\<lambda>_.
            and_then (insert_row (tb_commands changed) (sg_idempotency_key s) r) (\<lambda>commands.
            Ok (changed\<lparr>tb_commands := commands\<rparr>)))
        | None \<Rightarrow> Ok changed) = Ok db'"
    and out: "outcome = od_outcome decision"
    using assms(1) by (auto simp: operator_transact_def Let_def)
  show thesis using dec
  proof (cases rule: operator_decide_cases)
    case (replay verified)
    then obtain r where "bt_get (tb_commands db) (sg_idempotency_key s) = Some r" "vo_digest (or_command r) = vo_digest verified"
      "or_outcome r = od_outcome decision" by auto
    then show thesis using that(1) [OF d] replay ch com out by simp
  next
    case (executed verified)
    have mid: "tables_ok changed \<and> keeps_tables db changed \<and> tb_commands changed = tb_commands db"
    proof (cases "od_effect decision")
      case None
      then show ?thesis using ch assms(2) by simp
    next
      case (Some effect)
      then show ?thesis using ch executed(4) apply_effect_ok [OF assms(2) t] by simp
    qed
    have eq: "db' = changed\<lparr>tb_commands := bt_insert (sg_idempotency_key s)
          \<lparr>or_command = verified, or_outcome = outcome, or_authorized_at = now\<rparr> (tb_commands db)\<rparr>"
      using com executed(3) out mid by (auto simp: insert_row_def)
    have none: "bt_get (tb_commands db) (sg_idempotency_key s) = None" using executed(2) by simp
    have v: "operator_verify c json configuration_family (operator_authority_of deployment) s = Ok verified"
      using executed(1) by simp
    show thesis
      using that(2) [OF d v none] mid eq by blast
  qed
qed

lemma operator_transact_ok:
  assumes "operator_transact c json db call = Ok (db', outcome)" and "tables_ok db"
  shows "tables_ok db' \<and> keeps_tables db db'"
proof -
  obtain s now where call: "call = (s, now)" by (cases call)
  show ?thesis using assms(1) [unfolded call] assms(2)
  proof (cases rule: operator_transact_cases)
    case (executed deployment verified mid)
    then have "keeps_tables mid db'" by (auto simp: keeps_tables_def keeps_rows_insert bt_has_def)
    moreover have "tables_ok db'" using executed(4,7) by simp
    ultimately show ?thesis using keeps_tables_trans [OF executed(5)] by blast
  qed (use assms(2) in simp)
qed

interpretation publication: invariant_machine "operator_transact c json" "\<lambda>db. tables_ok db \<and> keeps_tables db0 db" for db0
  by unfold_locales (blast dest: operator_transact_ok intro: keeps_tables_trans)

text \<open>A recorded command, presented again, is answered from its record.\<close>

lemma target_stays:
  assumes "tables_ok db'" and "operator_target_of db command = Ok target"
  shows "\<exists>target'. operator_target_of db' command = Ok target'"
  using assms
  by (cases command; cases "tb_pricing_current db'"; cases "tb_protocol_current db'")
     (auto simp: operator_target_of_def policy_context_def current_protocol_policy_def tables_ok_def bt_has_def)

lemma replay_again:
  assumes "tb_deployment db = Some deployment"
    and "operator_verify c json configuration_family (operator_authority_of deployment) s = Ok verified"
    and "bt_get (tb_commands db) (sg_idempotency_key s) = Some r" "vo_digest (or_command r) = vo_digest verified"
    and "operator_target_of db (sg_command s) = Ok target"
  shows "operator_transact c json db (s, later) = Ok (db, or_outcome r)"
  using assms by (simp add: operator_transact_def operator_decide_def operator_replay_def Let_def)

lemma transact_target:
  "operator_transact c json db (s, now) = Ok (db', outcome) \<Longrightarrow> \<exists>target. operator_target_of db (sg_command s) = Ok target"
  by (auto simp: operator_transact_def Let_def)

text \<open>
  C31: What operators publish is final, in order, and executed once.  From tables in order, over any
  sequence of submitted commands, the tables stay in order, no published offer, policy or recorded
  command ever changes, and the current version of each policy never falls.  A command that was
  committed was signed by an installed operator; presented again at any later point it commits
  with the outcome first recorded and changes nothing.
\<close>

theorem publication_final:
  assumes "tables_ok db" and "operator_transact c json db (s, now) = Ok (db1, outcome)"
    and "run_machine (operator_transact c json) db1 calls = (db2, outs)"
  shows "tables_ok db2 \<and> keeps_tables db db2
     \<and> operator_transact c json db2 (s, later) = Ok (db2, outcome)
     \<and> (\<exists>deployment key bs. tb_deployment db = Some deployment \<and> bt_get (br_operators deployment) (sg_operator s) = Some key
          \<and> json (configuration_family, br_deployment_domain deployment, sg_operator s, sg_idempotency_key s, sg_command s) = Some bs
          \<and> cr_verify_strict c key bs (sg_signature s))"
proof -
  note one = operator_transact_ok [OF assms(2,1)]
  have two: "tables_ok db2 \<and> keeps_tables db db2"
    using publication.run_inv [OF one assms(3)] .
  have kept: "keeps_tables db1 db2" using publication.run_inv [OF _ assms(3), of db1] one by simp
  obtain deployment verified r where dep: "tb_deployment db = Some deployment"
    and v: "operator_verify c json configuration_family (operator_authority_of deployment) s = Ok verified"
    and r: "bt_get (tb_commands db1) (sg_idempotency_key s) = Some r" "vo_digest (or_command r) = vo_digest verified"
      "outcome = or_outcome r"
    using assms(2,1)
  proof (cases rule: operator_transact_cases)
    case (replay deployment verified r)
    then show thesis using that by blast
  next
    case (executed deployment verified mid)
    then show thesis
      using that [OF executed(1,2), of "\<lparr>or_command = verified, or_outcome = outcome, or_authorized_at = now\<rparr>"] by simp
  qed
  obtain target where "operator_target_of db2 (sg_command s) = Ok target"
    using transact_target [OF assms(2)] target_stays two by blast
  moreover have "tb_deployment db2 = Some deployment" using two dep by (simp add: keeps_tables_def)
  moreover have "bt_get (tb_commands db2) (sg_idempotency_key s) = Some r"
    using kept r(1) by (simp add: keeps_tables_def keeps_rows_def)
  ultimately have "operator_transact c json db2 (s, later) = Ok (db2, outcome)"
    using replay_again v r(2,3) by simp
  moreover have "\<exists>key bs. bt_get (br_operators deployment) (sg_operator s) = Some key
          \<and> json (configuration_family, br_deployment_domain deployment, sg_operator s, sg_idempotency_key s, sg_command s) = Some bs
          \<and> cr_verify_strict c key bs (sg_signature s)"
    using v by (auto simp: operator_verify_Ok operator_authority_of_def)
  ultimately show ?thesis using two dep by blast
qed

section \<open>Request classes\<close>

datatype classes_error = ClsProtocol protocol_error | ClsSecurity security_error

definition decide_classes ::
  "crypto \<Rightarrow> (classes_text \<Rightarrow> bytes option) \<Rightarrow> signed_request_classes \<Rightarrow> recipient_signing_scope \<Rightarrow> authority_snapshot
     \<Rightarrow> pricing_policy option \<Rightarrow> recipient_request_classes option \<Rightarrow> canonical_time
     \<Rightarrow> ((recipient_request_classes \<times> canonical_time) option, classes_error) res" where
  "decide_classes c json s expected authority policy current now =
     fail_if (sq_scope s \<noteq> expected) (ClsSecurity SecSigningScopeMismatch)
     (and_then (map_err ClsSecurity (authority_verifying_key authority (sq_operational_key s)
          (ActRecipient (rcs_recipient (sq_classes s))) now)) (\<lambda>key.
      and_then (map_err ClsSecurity (request_classes_verify c json s key)) (\<lambda>_.
      and_then (ok_or policy (ClsProtocol PtPolicyInvalid)) (\<lambda>p.
      fail_if (\<not> policy_permits p (sq_classes s)) (ClsProtocol PtRequestClassOutsidePolicy)
      (case current of
         Some old \<Rightarrow>
           if old = sq_classes s then Ok None
           else fail_if (rcs_version (sq_classes s) \<le> rcs_version old) (ClsProtocol PtVersionConflict)
             (Ok (Some (sq_classes s, now)))
       | None \<Rightarrow> Ok (Some (sq_classes s, now)))))))"

lemma decided_classes:
  assumes "decide_classes c json s expected authority policy current now = Ok (Some (classes, t))"
  shows "classes = sq_classes s \<and> t = now \<and> (\<exists>p. policy = Some p \<and> policy_permits p classes)
     \<and> (\<forall>old. current = Some old \<longrightarrow> rcs_version old < rcs_version classes)
     \<and> (\<exists>key. authority_verifying_key authority (sq_operational_key s) (ActRecipient (rcs_recipient classes)) now = Ok key
          \<and> request_classes_verify c json s key = Ok ())"
  using assms by (auto simp: decide_classes_def not_le split: option.splits if_splits)

section \<open>Processing of received commands\<close>

type_synonym journal_position = u64

datatype processing_failure = AwaitingQuoteSignature | PersistenceFailure | RequiresIntervention

datatype processing_status =
  ProcReady | ProcWaitingForQuote u64 | ProcRetryable u64 | ProcIntervention u64 | ProcCompleted

datatype processing_command = ProcInspect u16 | ProcResume journal_position bytes32

definition processing_family :: string where
  "processing_family = ''cs-mail/processing-command/v1''"

record processing_inspection =
  pi_position :: journal_position
  pi_digest :: bytes32
  pi_status :: processing_status

datatype processing_response = ProcPending "processing_inspection list" | ProcResumed journal_position bool

record processing_target =
  pg_digest :: bytes32
  pg_status :: processing_status

definition processing_resume :: "processing_target \<Rightarrow> bytes32 \<Rightarrow> (bool, operations_error) res" where
  "processing_resume t expected =
     fail_if (pg_digest t \<noteq> expected \<or> pg_status t = ProcCompleted) OpsInvalid (Ok (pg_status t \<noteq> ProcReady))"

datatype processing_input = InputPending "processing_inspection list" | InputCommand processing_target

datatype processing_decision =
  ProcObserved processing_response
| ProcDecidedResume "processing_command verified_operator_command" canonical_time processing_response

definition manage_processing ::
  "crypto \<Rightarrow> (processing_command operator_text \<Rightarrow> bytes option) \<Rightarrow> processing_command signed_operator_command
     \<Rightarrow> operator_authority \<Rightarrow> (bytes32 \<times> processing_response) option \<Rightarrow> processing_input \<Rightarrow> canonical_time
     \<Rightarrow> (processing_decision, operations_error) res" where
  "manage_processing c json s authority prior input now =
     and_then (operator_verify c json processing_family authority s) (\<lambda>command.
     and_then (operator_replay command prior) (\<lambda>replay.
     case replay of
       ReplayOf outcome \<Rightarrow> Ok (ProcObserved outcome)
     | ReplayNew \<Rightarrow>
         (case (vo_command command, input) of
            (ProcInspect limit, InputPending items) \<Rightarrow>
              if 1 \<le> limit \<and> limit \<le> 100 then Ok (ProcObserved (ProcPending items)) else Err OpsInvalid
          | (ProcResume position digest, InputCommand target) \<Rightarrow>
              and_then (processing_resume target digest) (\<lambda>changed.
              Ok (ProcDecidedResume command now (ProcResumed position changed)))
          | _ \<Rightarrow> Err OpsInvalid)))"

datatype processing_owner = OwnerPersona protocol_identity | OwnerOfAccount account_id

record participant_owner =
  po_persona :: protocol_identity
  po_account :: "account_id option"

definition ordering_owners :: "participant_owner list \<Rightarrow> (processing_owner fset, operations_error) res" where
  "ordering_owners participants =
     fail_if (participants = []
        \<or> list_ex (\<lambda>p. po_persona p = 0 \<or> po_account p = Some 0) participants) OpsInvalid
     (Ok (fset_of_list (concat (map (\<lambda>p. OwnerPersona (po_persona p)
        # (case po_account p of Some a \<Rightarrow> [OwnerOfAccount a] | None \<Rightarrow> [])) participants))))"

text \<open>A received command is resumed as it was received, on an operator's word, and never once it is completed.\<close>

lemma resume_original:
  assumes "manage_processing c json s authority prior input now = Ok (ProcDecidedResume command t response)"
  shows "\<exists>target position. input = InputCommand target \<and> vo_command command = ProcResume position (pg_digest target)
     \<and> pg_status target \<noteq> ProcCompleted \<and> t = now
     \<and> response = ProcResumed position (pg_status target \<noteq> ProcReady) \<and> prior = None"
proof (cases prior)
  case None
  then obtain v where "operator_verify c json processing_family authority s = Ok v"
    "(case (vo_command v, input) of
            (ProcInspect limit, InputPending items) \<Rightarrow>
              if 1 \<le> limit \<and> limit \<le> 100 then Ok (ProcObserved (ProcPending items)) else Err OpsInvalid
          | (ProcResume position digest, InputCommand target) \<Rightarrow>
              and_then (processing_resume target digest) (\<lambda>changed.
              Ok (ProcDecidedResume v now (ProcResumed position changed)))
          | _ \<Rightarrow> Err OpsInvalid) = Ok (ProcDecidedResume command t response)"
    using assms by (auto simp: manage_processing_def operator_replay_def)
  then show ?thesis using None
    by (cases "vo_command v"; cases input) (auto simp: processing_resume_def split: if_splits)
next
  case (Some x)
  then show ?thesis using assms
    by (cases x) (auto simp: manage_processing_def operator_replay_def split: if_splits)
qed

end
