(* ===== verification/Service_Samples.thy ===== *)
theory Service_Samples
  imports Consent Guest_Verification Privacy Search Publication Kernel_Samples Billing_Runs
begin

text \<open>The properties of the services around the protocol applied to concrete records.\<close>

section \<open>Consent\<close>

definition sample_display :: grant_terms where
  "sample_display = \<lparr>gt_id = 1, gt_account = 2, gt_persona = 3, gt_issuer = 4, gt_scope = {|7, 8|},
     gt_usage = \<lparr>gu_actor = UserDevice 4, gu_purpose = PurposeDisplay,
       gu_destination = \<lparr>ep_reference = 5, ep_bytes = 6\<rparr>\<rparr>,
     gt_issued_at = 10, gt_expires_at = 20\<rparr>"

lemma sample_display_issued: "grant_issue sample_display = Ok \<lparr>dg_terms = sample_display, dg_state = GrantActive\<rparr>"
  by (simp add: sample_display_def grant_issue_def grant_load_def use_validate_def decryption_purpose_validate_def
      max_grant_lifetime_def Let_def fail_if_def)

text \<open>A revocation before the issue is refused; one after it ends the grant.\<close>

theorem grant_authorizes_as_issued_witness:
  "(let g = \<lparr>dg_terms = sample_display, dg_state = GrantActive\<rparr> in
      grant_authorize (fst (run_machine grant_step g [9])) (UserDevice 4) PurposeDisplay 7 15 = Ok ()
      \<and> grant_authorize (fst (run_machine grant_step g [9, 12])) (UserDevice 4) PurposeDisplay 7 15 \<noteq> Ok ())"
  unfolding Let_def grant_authorizes_as_issued [OF sample_display_issued]
  by (simp add: sample_display_def)

section \<open>Guests\<close>

definition sample_mailbox :: guest_mailbox where
  "sample_mailbox = \<lparr>gm_local = str_bytes ''ann'', gm_domain = str_bytes ''mail.example''\<rparr>"

definition sample_attempt :: "u8 \<Rightarrow> canonical_time \<Rightarrow> code_attempt" where
  "sample_attempt digit now = \<lparr>at_code = [digit], at_salt = 3, at_token = 77, at_now = now\<rparr>"

definition sample_pending_code :: mailbox_verification where
  "sample_pending_code = \<lparr>mv_mailbox = sample_mailbox, mv_issued_at = 10, mv_expires_at = 900010, mv_attempts = 0,
     mv_state = AwaitingCode (code_digest sample_crypto [49] 3)\<rparr>"

definition sample_session :: guest_session where
  "sample_session = \<lparr>gs_mailbox = sample_mailbox, gs_verified_at = 13, gs_expires_at = 7200013\<rparr>"

lemma sample_code_issued: "verification_issue sample_crypto sample_mailbox [49] 3 10 = Ok sample_pending_code"
  by (simp add: verification_issue_def deadline_def verification_lifetime_def time_checked_add_def checked_add_def
      sample_pending_code_def)

lemma sample_digits: "trim [49] = [49]" "trim [50] = [50]"
  by (rule trim_printable, simp)+

text \<open>A wrong code, the right one, and the right one again: the last is refused.\<close>

lemma sample_attempts:
  "run_machine (attempt_step sample_crypto) sample_pending_code [sample_attempt 50 12, sample_attempt 49 13, sample_attempt 49 14]
     = (sample_pending_code\<lparr>mv_attempts := 1,
          mv_state := ConsumedCode 13 7200013 77\<rparr>, [None, Some sample_session])"
  by (simp add: attempt_step_def verification_check_def sample_pending_code_def sample_attempt_def code_digest_def sample_digits
      sample_crypto_def verification_attempts_def deadline_def session_lifetime_def time_checked_add_def checked_add_def
      sample_session_def word_le_nat_alt fail_if_def)

theorem guesses_bounded_witness:
  "\<exists>k session. [None, Some sample_session] = replicate k None @ map Some session \<and> k \<le> 5 \<and> length session \<le> 1
     \<and> (\<forall>s\<in>set session. gs_mailbox s = sample_mailbox \<and> unat (gs_verified_at s) \<le> 900010)"
  using guesses_bounded [OF sample_code_issued sample_attempts] by fastforce

definition sample_history :: "bytes32 \<Rightarrow> nat \<Rightarrow> canonical_time \<Rightarrow> request_reservation option \<Rightarrow> request_history" where
  "sample_history r level earliest pending = \<lparr>hi_reference = \<lparr>sr_version = 1, sr_bytes = r\<rparr>, hi_recipient = 20,
     hi_level = of_nat level, hi_earliest = earliest, hi_pending = pending, hi_version = 3, hi_last_event = None, hi_changed_at = 5\<rparr>"

text \<open>Two histories of one recipient, the second with a request pending.\<close>

definition sample_linking :: "history_decision" where
  "sample_linking = \<lparr>hd_history = \<lparr>sr_version = 1, sr_bytes = 4\<rparr>,
     hd_create = Some \<lparr>hi_reference = \<lparr>sr_version = 1, sr_bytes = 4\<rparr>, hi_recipient = 20, hi_level = 2, hi_earliest = 40,
       hi_pending = Some \<lparr>rv_relationship = \<lparr>sr_version = 1, sr_bytes = 8\<rparr>, rv_request = 6\<rparr>,
       hi_version = 4, hi_last_event = None, hi_changed_at = 50\<rparr>,
     hd_merged = Some (\<lparr>sr_version = 1, sr_bytes = 1\<rparr>, \<lparr>sr_version = 1, sr_bytes = 2\<rparr>),
     hd_link = [MailboxEvidence sample_mailbox, FingerprintEvidence 9]\<rparr>"

definition sample_earlier :: request_history where
  "sample_earlier = sample_history 1 2 30 None"

definition sample_open :: request_history where
  "sample_open = sample_history 2 1 40 (Some \<lparr>rv_relationship = \<lparr>sr_version = 1, sr_bytes = 8\<rparr>, rv_request = 6\<rparr>)"

lemma sample_linked:
  "resolve_history 20 sample_mailbox (Some sample_earlier) 9 (Some sample_open)
      \<lparr>sr_version = 1, sr_bytes = 3\<rparr> \<lparr>sr_version = 1, sr_bytes = 4\<rparr> 50 = Ok sample_linking"
  by (simp add: resolve_history_def sample_history_def sample_earlier_def sample_open_def sample_linking_def saturating_next_def
      version_checked_next_def checked_add_def fail_if_def)

theorem linked_history_restrictive_witness:
  "\<exists>h :: request_history. hi_reference h = hd_history sample_linking \<and> hi_level sample_earlier \<le> hi_level h
     \<and> hi_earliest sample_open \<le> hi_earliest h \<and> hi_pending h = hi_pending sample_open \<and> hi_pending h \<noteq> None"
proof -
  have "\<forall>x y. Some sample_earlier = Some x \<and> Some sample_open = Some y \<and> hi_reference x = hi_reference y \<longrightarrow> x = y"
    by (simp add: sample_history_def sample_earlier_def sample_open_def)
  from linked_history_restrictive [OF this sample_linked] obtain h :: request_history where h: "hi_reference h = hd_history sample_linking"
    "\<forall>g. Some sample_earlier = Some g \<or> Some sample_open = Some g \<longrightarrow>
        hi_level g \<le> hi_level h \<and> hi_earliest g \<le> hi_earliest h
        \<and> hi_version g \<le> hi_version h \<and> (hi_pending g \<noteq> None \<longrightarrow> hi_pending h = hi_pending g)"
    by blast
  moreover have "hi_pending sample_open \<noteq> None" by (simp add: sample_history_def sample_open_def)
  ultimately show ?thesis
    using spec [OF h(2), of sample_earlier] spec [OF h(2), of sample_open] by (intro exI [of _ h]) simp
qed

definition confirm_refund :: "request_id \<Rightarrow> canonical_time \<Rightarrow> settlement_snapshot \<Rightarrow> kernel_input \<times> transition_context" where
  "confirm_refund i now s =
     (by_provider (RecordPayment i
        (sample_receipt (ucast now + 1) (the (refund_operation (rf_refund (the (bt_get (sn_payments s) i))))) OutSettled)),
      sample_context now)"

lemma sample_refund_noticed:
  "\<exists>s t. plays sample_start (to_recipient @ [say (AcceptRelationship 0) 4, confirm_refund 30 5]) = Some s
     \<and> \<lparr>gn_request = 30, gn_outcome = OutRefundConfirmed 12\<rparr> \<in> set (owed_notices s)
     \<and> plays s [say (SetFollowupPolicy 0 sample_limits) 7] = Some t"
  by (simp add: run_simps to_recipient_def confirm_refund_def sample_limits_def refund_of_def owed_notices_def notices_for_def rf_view_def cong: kernel_lazily)

theorem owed_notices_stand_witness:
  "\<exists>s t. plays sample_start (to_recipient @ [say (AcceptRelationship 0) 4, confirm_refund 30 5]) = Some s
     \<and> plays s [say (SetFollowupPolicy 0 sample_limits) 7] = Some t
     \<and> \<lparr>gn_request = 30, gn_outcome = OutRefundConfirmed 12\<rparr> \<in> set (owed_notices t)"
proof -
  obtain s t where s: "plays sample_start (to_recipient @ [say (AcceptRelationship 0) 4, confirm_refund 30 5]) = Some s"
    and owed: "\<lparr>gn_request = 30, gn_outcome = OutRefundConfirmed 12\<rparr> \<in> set (owed_notices s)"
    and t: "plays s [say (SetFollowupPolicy 0 sample_limits) 7] = Some t" using sample_refund_noticed by blast
  obtain xs outs where xs: "run_machine (kernel_step sample_crypto) sample_start xs = (s, outs)" using plays_run [OF s] by blast
  obtain ys outs' where ys: "run_machine (kernel_step sample_crypto) s ys = (t, outs')" using plays_run [OF t] by blast
  from owed_notices_stand [OF xs [unfolded sample_start_def] ys] s t owed show ?thesis by blast
qed

section \<open>References and sources\<close>

text \<open>Under a constant hash every two references collide.\<close>

theorem references_separate_witness:
  "hash_collides (\<lambda>_ _. 0) 1 (derive_preimage (derivation_label ForHandle) [97] 10 20)
     1 (derive_preimage (derivation_label ForHandle) [97] 20 10)"
proof -
  let ?d = "\<lparr>pd_relationship_secret = 1, pd_principal_secret = 2\<rparr>"
  have "derived (\<lambda>_ _. 0) ?d ForHandle [97] 10 20 = derived (\<lambda>_ _. 0) ?d ForHandle [97] 20 10"
    by (simp only: derived_eq)
  moreover have "length [97 :: u8] < 2 ^ 64" by simp
  ultimately have "(10 :: u128) = 20 \<or> hash_collides (\<lambda>_ _. 0)
      (derivation_secret ?d ForHandle) (derive_preimage (derivation_label ForHandle) [97] 10 20)
      (derivation_secret ?d ForHandle) (derive_preimage (derivation_label ForHandle) [97] 20 10)"
    using conjunct1 [OF references_separate] by blast
  then show ?thesis by (simp del: derivation_label.simps)
qed

definition sample_draft :: source_identity where
  "sample_draft = \<lparr>si_account = 1, si_occurrence = OccPrivateDraft 2\<rparr>"

definition sample_source :: "index_generation \<Rightarrow> u64 \<Rightarrow> derived_source" where
  "sample_source g revision = \<lparr>ds_identity = sample_draft, ds_version = VersionDraft revision 5,
     ds_generation = g, ds_status = SourcePrivateDraft\<rparr>"

lemmas source_evaluation = source_advance_def source_restored_def source_change_def source_load_def sample_source_def
  sample_draft_def version_matches_def is_removed_def checked_add_def fail_if_def

lemma sample_observed:
  "source_observed sample_draft (VersionDraft 1 5) SourcePrivateDraft
     = Ok \<lparr>dc_next = sample_source 1 1, dc_work = ExtractAndSynchronize 1\<rparr>"
  by (simp add: source_observed_def source_evaluation)

lemma sample_advances:
  "run_machine source_step (dc_next \<lparr>dc_next = sample_source 1 1, dc_work = ExtractAndSynchronize 1\<rparr>)
     [AdvanceSource 1 (VersionDraft 2 5) SourcePrivateDraft, AdvanceSource 1 (VersionDraft 3 5) SourcePrivateDraft]
     = (sample_source 2 2, [Some 1])"
  by (simp add: source_evaluation word_le_nat_alt)

theorem publication_is_current_witness:
  "allow_publication (sample_source 2 2) sample_draft (VersionDraft 2 5) 2 50 = Ok ()
     \<and> allow_publication (sample_source 2 2) sample_draft (VersionDraft 2 5) 1 50 \<noteq> Ok ()"
  using publication_is_current [OF sample_observed sample_advances, of sample_draft "VersionDraft 2 5" 2 50]
    publication_is_current [OF sample_observed sample_advances, of sample_draft "VersionDraft 2 5" 1 50]
  by (simp add: sample_source_def)

section \<open>The deployment\<close>

definition sample_bootstrap :: bootstrap_record where
  "sample_bootstrap = \<lparr>br_provider = 2, br_deployment_domain = fs_deployment_domain sample_scope,
     br_financial_scope = sample_scope, br_unit = 1,
     br_provider_key = \<lparr>pk_reference = 1, pk_verifying_key = 9\<rparr>, br_scheduler_key = \<lparr>pk_reference = 2, pk_verifying_key = 8\<rparr>,
     br_operators = bt_insert 5 7 bt_empty, br_payment = \<lparr>pt_processor_key = 9, pt_bank_authority = 9\<rparr>,
     br_identity = \<lparr>it_issuer = ''https://id.example'', it_product = ''mail'', it_decision_key = 6\<rparr>\<rparr>"

lemma sample_bootstrap_valid: "bootstrap_new sample_crypto sample_bootstrap = Ok sample_bootstrap"
  by (simp add: bootstrap_new_def sample_bootstrap_def sample_scope_def sample_crypto_def fail_if_def)

lemma sample_bootstraps:
  "run_machine bootstrap_step None [sample_bootstrap, sample_bootstrap\<lparr>br_unit := 3\<rparr>, sample_bootstrap]
     = (Some sample_bootstrap, [BootCreated, BootAlreadyBootstrapped])"
  by (simp add: bootstrap_step_def bootstrap_reconcile_def sample_bootstrap_def)

theorem bootstrap_installs_once_witness:
  "\<exists>s. policy_snapshot_of sample_protocol_policy (deployment_terms_of sample_bootstrap) = Ok s \<and> policy_snapshot_validate s = Ok ()"
proof -
  have "protocol_policy_new sample_protocol_policy = Ok sample_protocol_policy"
    by (simp add: protocol_policy_new_def sample_protocol_policy_def max_backoff_steps_def fail_if_def)
  from bootstrap_installs_once [OF sample_bootstraps sample_bootstrap_valid this] show ?thesis by blast
qed

definition sample_tables :: deployment_tables where
  "sample_tables = \<lparr>tb_deployment = Some sample_bootstrap, tb_commands = bt_empty, tb_offers = bt_empty, tb_pricing = bt_empty,
     tb_pricing_current = None, tb_protocol = bt_empty, tb_protocol_current = None, tb_classes = bt_empty\<rparr>"

definition sample_publication :: "operator_command signed_operator_command" where
  "sample_publication = \<lparr>sg_deployment_domain = fs_deployment_domain sample_scope, sg_operator = 5, sg_idempotency_key = 11,
     sg_command = PublishRequestPricing sample_pricing, sg_signature = [1]\<rparr>"

text \<open>The policy is published; a second command with its version is refused.\<close>

definition published_tables :: deployment_tables where
  "published_tables = fst (run_machine (operator_transact sample_crypto (\<lambda>_. Some [])) sample_tables [(sample_publication, 20)])"

lemma sample_published:
  "operator_transact sample_crypto (\<lambda>_. Some []) sample_tables (sample_publication, 20)
     = Ok (published_tables, RequestPricingPublished 1 True 0)"
  by (simp add: published_tables_def operator_transact_def operator_target_of_def policy_context_def operator_decide_def
      operator_verify_def operator_bytes_def operator_replay_def decide_policy_def apply_effect_def insert_row_def to_i64_def
      sample_tables_def sample_publication_def sample_bootstrap_def sample_pricing_def operator_authority_of_def sample_crypto_def
      bt_has_def bt_values_def Let_def fail_if_def)

theorem publication_final_witness:
  "operator_transact sample_crypto (\<lambda>_. Some []) published_tables (sample_publication, 99)
     = Ok (published_tables, RequestPricingPublished 1 True 0) \<and> keeps_tables sample_tables published_tables"
proof -
  have "tables_ok sample_tables" by (simp add: tables_ok_def sample_tables_def bt_has_def)
  from publication_final [OF this sample_published, of "[]" published_tables "[]" 99] show ?thesis by simp
qed

end
