(* ===== verification/Kernel_Timers.thy ===== *)
theory Kernel_Timers
  imports Kernel_Validity
begin

text \<open>
  The timers of the kernel: what the schedule changes of its plans lead to.  A request that waits
  for its submission or for the recipient's decision has one timer, at its deadline, and no other
  request has one; and once the deadline has passed the scheduler's command is accepted, so no
  request is left waiting.
\<close>

section \<open>Schedules\<close>

type_synonym schedules = "schedule_task \<rightharpoonup> canonical_time"

primrec apply_schedule_change :: "schedule_change \<Rightarrow> schedules \<Rightarrow> schedules" where
  "apply_schedule_change (Schedule task at) m = m(task \<mapsto> at)"
| "apply_schedule_change (CancelTask task) m = m(task := None)"

definition apply_schedule_changes :: "schedules \<Rightarrow> schedule_change list \<Rightarrow> schedules" where
  "apply_schedule_changes m changes = fold apply_schedule_change changes m"

text \<open>The timer a request should have under a task.\<close>

definition due :: "(request_id, relationship_request) btmap \<Rightarrow> schedules" where
  "due requests task =
     (case task of
        SubmissionTimeout i \<Rightarrow>
          Option.bind (bt_get requests i) (\<lambda>r. map_option sp_deadline
            (case rq_lifecycle r of PreparingSubmission p \<Rightarrow> Some p | _ \<Rightarrow> None))
      | RequestExpiry i \<Rightarrow>
          Option.bind (bt_get requests i) (\<lambda>r. map_option su_decision_deadline
            (case rq_lifecycle r of AwaitingRecipientDecision s \<Rightarrow> Some s | _ \<Rightarrow> None))
      | LaneHorizon _ \<Rightarrow> None)"

definition is_request_task :: "schedule_task \<Rightarrow> bool" where
  "is_request_task task \<longleftrightarrow> (case task of LaneHorizon _ \<Rightarrow> False | _ \<Rightarrow> True)"

definition timers_fit :: "schedules \<Rightarrow> (request_id, relationship_request) btmap \<Rightarrow> bool" where
  "timers_fit m requests \<longleftrightarrow> (\<forall>task. is_request_task task \<longrightarrow> m task = due requests task)"

lemma due_insert:
  "due (bt_insert i r m) task =
     (case task of
        SubmissionTimeout j \<Rightarrow> if j = i then map_option sp_deadline
            (case rq_lifecycle r of PreparingSubmission p \<Rightarrow> Some p | _ \<Rightarrow> None) else due m task
      | RequestExpiry j \<Rightarrow> if j = i then map_option su_decision_deadline
            (case rq_lifecycle r of AwaitingRecipientDecision s \<Rightarrow> Some s | _ \<Rightarrow> None) else due m task
      | LaneHorizon _ \<Rightarrow> None)"
  by (cases task) (simp_all add: due_def)

section \<open>The timers of a plan under construction\<close>

definition timed :: "schedules \<Rightarrow> builder \<Rightarrow> bool" where
  "timed m b \<longleftrightarrow> timers_fit (apply_schedule_changes m (mb_schedules b)) (st_requests (mb_next b))"

definition same_timers :: "builder \<Rightarrow> builder \<Rightarrow> bool" where
  "same_timers b b' \<longleftrightarrow> mb_schedules b' = mb_schedules b \<and> st_requests (mb_next b') = st_requests (mb_next b)"

lemma same_timers_timed: "same_timers b b' \<Longrightarrow> timed m b' \<longleftrightarrow> timed m b"
  by (simp add: same_timers_def timed_def)

lemma same_timers_simps [simp]:
  "same_timers b (emit b' kind) \<longleftrightarrow> same_timers b b'" "same_timers b (mb_deliver b' i content intent) \<longleftrightarrow> same_timers b b'"
  "same_timers b (apply_financial_effects b' j fx) \<longleftrightarrow> same_timers b b'"
  "same_timers b (release_reservation r b') \<longleftrightarrow> same_timers b b'"
  "same_timers b (b'\<lparr>mb_history := h\<rparr>) \<longleftrightarrow> same_timers b b'" "same_timers b (b'\<lparr>mb_payments := ps\<rparr>) \<longleftrightarrow> same_timers b b'"
  "same_timers b (b'\<lparr>mb_messages := ms\<rparr>) \<longleftrightarrow> same_timers b b'" "same_timers b (b'\<lparr>mb_effects := es\<rparr>) \<longleftrightarrow> same_timers b b'"
  "same_timers b (b'\<lparr>mb_terms := ts\<rparr>) \<longleftrightarrow> same_timers b b'" "same_timers b (b'\<lparr>mb_lane_revocation := lr\<rparr>) \<longleftrightarrow> same_timers b b'"
  "same_timers b (upd_relationship f b') \<longleftrightarrow> same_timers b b'" "same_timers b b"
  by (simp_all add: same_timers_def emit_def mb_deliver_def apply_financial_effects_def release_reservation_def
      upd_relationship_def split: delivery_route.split)

lemma timed_same [simp]:
  "timed m (emit b kind) = timed m b" "timed m (mb_deliver b i content intent) = timed m b"
  "timed m (b\<lparr>mb_effects := es\<rparr>) = timed m b" "timed m (b\<lparr>mb_lane_revocation := lr\<rparr>) = timed m b"
  "timed m (apply_financial_effects b j fx) = timed m b"
  by (rule same_timers_timed; simp)+

lemma settle_financials_timers: "settle_financials b i settlement = Ok b' \<Longrightarrow> same_timers b b'"
  by (auto simp: settle_financials_def)

lemma apply_cooldown_timers: "apply_cooldown b at d = Ok b' \<Longrightarrow> same_timers b b'"
  by (auto simp: apply_cooldown_def)

text \<open>Putting a request together with its change of timers.\<close>

lemma apply_changes_local:
  "m task = n task \<Longrightarrow> apply_schedule_changes m changes task = apply_schedule_changes n changes task"
proof (induction changes arbitrary: m n)
  case (Cons ch changes)
  have "apply_schedule_change ch m task = apply_schedule_change ch n task" using Cons.prems by (cases ch) auto
  then show ?case using Cons.IH [of "apply_schedule_change ch m" "apply_schedule_change ch n"]
    by (simp add: apply_schedule_changes_def)
qed (simp add: apply_schedule_changes_def)

lemma apply_changes_append:
  "apply_schedule_changes m (xs @ ys) = apply_schedule_changes (apply_schedule_changes m xs) ys"
  by (simp add: apply_schedule_changes_def)

lemma timed_put:
  assumes "timed m b" and "same_timers b b'"
    and "\<And>task. is_request_task task \<Longrightarrow>
      apply_schedule_changes (due (st_requests (mb_next b))) changes task = due (bt_insert i r (st_requests (mb_next b))) task"
  shows "timed m ((put_request i r b')\<lparr>mb_schedules := mb_schedules b' @ changes\<rparr>)"
proof -
  let ?n = "apply_schedule_changes m (mb_schedules b)"
  have "apply_schedule_changes ?n changes task = due (bt_insert i r (st_requests (mb_next b))) task" if "is_request_task task" for task
  proof -
    have "?n task = due (st_requests (mb_next b)) task" using assms(1) that by (simp add: timed_def timers_fit_def)
    from apply_changes_local [of ?n task "due (st_requests (mb_next b))", OF this] show ?thesis using assms(3) [OF that] by simp
  qed
  then show ?thesis
    using assms(2) by (simp add: timed_def timers_fit_def same_timers_def put_request_def apply_changes_append)
qed

lemma schedule_as_append:
  "schedule x b = b\<lparr>mb_schedules := mb_schedules b @ [x]\<rparr>"
  "schedule y (schedule x b) = b\<lparr>mb_schedules := mb_schedules b @ [x, y]\<rparr>"
  by (simp_all add: schedule_def)

lemma put_request_schedules [simp]: "mb_schedules (put_request i r b) = mb_schedules b"
  by (simp add: put_request_def)

section \<open>The handlers keep the timers\<close>

lemma not_preparing_no_timeout: "\<not> is_preparing_submission (rq_lifecycle r) \<Longrightarrow>
    (case rq_lifecycle r of PreparingSubmission p \<Rightarrow> Some p | _ \<Rightarrow> None) = None"
  by (cases "rq_lifecycle r") simp_all

lemma timed_closed:
  assumes "timed m b" and "same_timers b b'" and "find_request b i = Some r"
    and "is_preparing_submission (rq_lifecycle r) \<and> task = SubmissionTimeout i
      \<or> is_awaiting_recipient_decision (rq_lifecycle r) \<and> task = RequestExpiry i"
    and "is_terminal (rq_lifecycle r')"
  shows "timed m (schedule (CancelTask task) (put_request i r' b'))"
proof -
  have "timed m ((put_request i r' b')\<lparr>mb_schedules := mb_schedules b' @ [CancelTask task]\<rparr>)"
  proof (rule timed_put [OF assms(1,2)])
    fix t assume "is_request_task t"
    then show "apply_schedule_changes (due (st_requests (mb_next b))) [CancelTask task] t = due (bt_insert i r' (st_requests (mb_next b))) t"
      using assms(3-5)
      by (cases t; cases "rq_lifecycle r"; cases "rq_lifecycle r'")
         (auto simp: apply_schedule_changes_def due_insert due_def find_request_def is_preparing_iff is_awaiting_iff)
  qed
  then show ?thesis by (simp add: schedule_def)
qed

lemma cancel_submission_timed:
  assumes "cancel_submission b i cancellation = Ok b'" and "timed m b" and "keyed b"
  shows "timed m b'"
proof -
  obtain r preparation ver b1 where r: "find_request b i = Some r" "is_preparing_submission (rq_lifecycle r)"
    and b1: "settle_financials (release_reservation (r\<lparr>rq_lifecycle := LcCancelled preparation (mb_event b), rq_version := ver\<rparr>) b)
        (rq_id r) SettledCancelled = Ok b1"
    and b': "b' = emit (schedule (CancelTask (SubmissionTimeout (rq_id r))) (put_request (rq_id r)
        (r\<lparr>rq_lifecycle := LcCancelled preparation (mb_event b), rq_version := ver\<rparr>) b1)) (cancellation_event cancellation (rq_id r))"
    using assms(1) by (auto simp: cancel_submission_def Let_def)
  have "rq_id r = i" using assms(3) r(1) by (auto simp: keyed_def)
  moreover have "same_timers b b1" using settle_financials_timers [OF b1] by (simp add: same_timers_def release_reservation_def split: if_splits)
  ultimately show ?thesis using timed_closed [OF assms(2), of b1 i r] r by (simp add: b')
qed

lemma settle_timed:
  "settle_accepted b i permission = Ok b' \<Longrightarrow> timed m b \<Longrightarrow> timed m b'"
  "settle_rejected b i = Ok b' \<Longrightarrow> timed m b \<Longrightarrow> timed m b'"
  "settle_expired b i = Ok b' \<Longrightarrow> timed m b \<Longrightarrow> timed m b'"
  by (auto simp: settle_accepted_def settle_rejected_def settle_expired_def apply_cooldown_def dest!: settle_financials_timers
      intro!: timed_closed [where r = "the (find_request b i)"])

lemma timed_lane_task:
  "\<not> is_request_task task \<Longrightarrow> timed m (schedule (CancelTask task) b) = timed m b"
  by (auto simp: timed_def timers_fit_def schedule_def apply_schedule_changes_def)

lemma mark_relationship_timers: "mark_relationship b target = Ok b' \<Longrightarrow> same_timers b b'"
  by (auto simp: mark_relationship_def)

lemma terminate_lane_timed:
  assumes "terminate_lane b = Ok b'" and "timed m b" shows "timed m b'"
proof -
  have "timed m (upd_relationship f b)" for f using assms(2) same_timers_timed [of b "upd_relationship f b" m] by simp
  then show ?thesis using assms(1)
    by (auto simp: terminate_lane_def Let_def timed_lane_task is_request_task_def split: option.splits)
qed

lemma record_payment_timed:
  assumes "record_payment c b i receipt = Ok b'" and "timed m b"
  shows "timed m b'"
proof -
  obtain p p' fx b2 where
    b2: "(case find_request (b\<lparr>mb_payments := bt_insert i p' (mb_payments b)\<rparr>) i of
          Some r \<Rightarrow>
            (case (fe_capture_voided fx, rq_lifecycle r) of
               (True, PreparingSubmission preparation) \<Rightarrow>
                 and_then (next_version (rq_version r)) (\<lambda>ver.
                 let r' = r\<lparr>rq_lifecycle := LcCancelled preparation (mb_event (b\<lparr>mb_payments := bt_insert i p' (mb_payments b)\<rparr>)), rq_version := ver\<rparr> in
                 Ok (schedule (CancelTask (SubmissionTimeout i))
                      (release_reservation r' (put_request i r' (b\<lparr>mb_payments := bt_insert i p' (mb_payments b)\<rparr>)))))
             | _ \<Rightarrow> Ok (b\<lparr>mb_payments := bt_insert i p' (mb_payments b)\<rparr>))
        | None \<Rightarrow> Ok (b\<lparr>mb_payments := bt_insert i p' (mb_payments b)\<rparr>)) = Ok b2"
    and b': "b' = emit (apply_financial_effects b2 i fx) (PaymentRecorded i)"
    using assms(1) by (auto simp: record_payment_def Let_def)
  let ?b1 = "b\<lparr>mb_payments := bt_insert i p' (mb_payments b)\<rparr>"
  have same: "same_timers b ?b1" by simp
  have idle: "timed m ?b1" using assms(2) same_timers_timed [OF same] by simp
  have swap: "schedule x (release_reservation r (put_request i r b)) = release_reservation r (schedule x (put_request i r b))" for x r b
    by (simp add: schedule_def release_reservation_def)
  have "timed m b2"
  proof (cases "find_request ?b1 i")
    case None
    then show ?thesis using b2 idle by simp
  next
    case (Some r)
    then have f: "find_request b i = Some r" by (simp add: find_request_def)
    have closed: "timed m (schedule (CancelTask (SubmissionTimeout i))
        (release_reservation r' (put_request i r' ?b1)))"
      if "is_preparing_submission (rq_lifecycle r)" "is_terminal (rq_lifecycle r')" for r'
    proof -
      have "timed m (schedule (CancelTask (SubmissionTimeout i)) (put_request i r' ?b1))"
        by (rule timed_closed [OF assms(2) same f]) (use that in auto)
      moreover have "same_timers (schedule (CancelTask (SubmissionTimeout i)) (put_request i r' ?b1))
          (schedule (CancelTask (SubmissionTimeout i)) (release_reservation r' (put_request i r' ?b1)))"
        unfolding swap by simp
      ultimately show ?thesis using same_timers_timed by blast
    qed
    show ?thesis using b2 idle closed unfolding Some
      by (auto simp: Let_def split: bool.splits request_lifecycle.splits)
  qed
  then show ?thesis by (simp add: b')
qed

lemma create_request_timed:
  assumes "create_request c b cx i message_id payment_method t key = Ok b'" and "timed m b"
  shows "timed m b'"
proof -
  have fresh: "timed m (schedule (Schedule (SubmissionTimeout i) deadline) (put_request i r b1))"
    if "same_timers b b1" "bt_get (st_requests (mb_next b)) i = None" "rq_lifecycle r = PreparingSubmission \<lparr>sp_deadline = deadline\<rparr>"
    for r b1 deadline
  proof -
    have "timed m ((put_request i r b1)\<lparr>mb_schedules := mb_schedules b1 @ [Schedule (SubmissionTimeout i) deadline]\<rparr>)"
    proof (rule timed_put [OF assms(2) that(1)])
      fix task show "apply_schedule_changes (due (st_requests (mb_next b))) [Schedule (SubmissionTimeout i) deadline] task
          = due (bt_insert i r (st_requests (mb_next b))) task"
        using that(2,3) by (cases task) (auto simp: apply_schedule_changes_def due_insert due_def)
    qed
    then show ?thesis by (simp add: schedule_def)
  qed
  have same: "same_timers b (upd_relationship f (b\<lparr>mb_history := h, mb_effects := es, mb_payments := ps,
      mb_next := (mb_next b)\<lparr>st_used_quotes := q\<rparr>\<rparr>))" for f h es ps q
    by (simp add: same_timers_def upd_relationship_def)
  show ?thesis using assms(1)
    by (auto simp: create_request_def Let_def bt_has_def split: request_permission.splits intro!: fresh same)
qed

lemma commit_submission_timed:
  assumes "commit_submission b cx r input = Ok b'" and "timed m b" and "find_request b (si_request input) = Some r"
    and "is_preparing_submission (rq_lifecycle r)"
  shows "timed m b'"
proof -
  let ?i = "si_request input"
  have moved: "timed m (schedule (Schedule (RequestExpiry ?i) d) (schedule (CancelTask (SubmissionTimeout ?i)) (put_request ?i r' b1)))"
    if "same_timers b b1" "rq_lifecycle r' = AwaitingRecipientDecision \<lparr>su_at = t, su_decision_deadline = d\<rparr>" for r' b1 d t
  proof -
    have "timed m ((put_request ?i r' b1)\<lparr>mb_schedules := mb_schedules b1 @ [CancelTask (SubmissionTimeout ?i), Schedule (RequestExpiry ?i) d]\<rparr>)"
    proof (rule timed_put [OF assms(2) that(1)])
      fix task show "apply_schedule_changes (due (st_requests (mb_next b))) [CancelTask (SubmissionTimeout ?i), Schedule (RequestExpiry ?i) d] task
          = due (bt_insert ?i r' (st_requests (mb_next b))) task"
        using that(2) assms(3,4)
        by (cases task) (auto simp: apply_schedule_changes_def due_insert due_def find_request_def is_preparing_iff)
    qed
    then show ?thesis by (simp add: schedule_as_append)
  qed
  have same: "same_timers b (b\<lparr>mb_messages := ms, mb_history := h\<rparr>)" for ms h by (simp add: same_timers_def)
  show ?thesis using assms(1)
    by (auto simp: commit_submission_def Let_def intro!: moved same)
qed

lemma submit_request_timed:
  assumes "submit_request_to_recipient b cx input = Ok b'" and "timed m b" and "keyed b"
  shows "timed m b'"
proof -
  have "\<exists>r. find_request b (si_request input) = Some r \<and> is_preparing_submission (rq_lifecycle r)
      \<and> ((\<exists>x. cancel_submission b (si_request input) x = Ok b') \<or> commit_submission b cx r input = Ok b')"
    using assms(1)
    by (auto simp: submit_request_to_recipient_def Let_def split: option.splits if_splits request_lifecycle.splits)
  then show ?thesis using commit_submission_timed [OF _ assms(2)] cancel_submission_timed [OF _ assms(2,3)] by blast
qed

lemma settle_decision_timed:
  assumes "settle_decision b d = Ok b'" and "timed m b" and "keyed b"
  shows "timed m b'"
  using assms
  by (auto simp: settle_decision_def split: option.splits request_lifecycle.splits decision.splits if_splits
      intro: cancel_submission_timed settle_timed)

lemma relationship_decision_timed:
  assumes "relationship_decision b expected d = Ok b'" and "timed m b" and "keyed b"
  shows "timed m b'"
proof -
  obtain b1 b2 b3 where b1: "mark_relationship b (decision_state d) = Ok b1"
    and b2: "(if d = DecBlock then terminate_lane b1 else Ok b1) = Ok b2"
    and b3: "settle_decision b2 d = Ok b3" and b': "b' = emit b3 (decision_event d)"
    using assms(1) by (auto simp: relationship_decision_def)
  have "timed m b1" using assms(2) same_timers_timed [OF mark_relationship_timers [OF b1]] by simp
  then have "timed m b2" using b2 terminate_lane_timed by (auto split: if_splits)
  moreover have "quiet_step b b2"
    using b1 b2 by (auto dest!: mark_relationship_quiet terminate_lane_quiet split: if_splits intro: quiet_trans)
  then have "keyed b2" using assms(3) by (rule quiet_keyed)
  ultimately show ?thesis using settle_decision_timed [OF b3] by (simp add: b')
qed

lemma apply_command_timed:
  assumes "apply_command c b cx actor key command = Ok b'" and "timed m b" and "keyed b"
  shows "timed m b'"
proof (cases command)
  case (SetFollowupPolicy expected policy)
  have "same_timers b b'"
    using assms(1) SetFollowupPolicy by (auto simp: apply_command_def set_followup_policy_def same_timers_def emit_def)
  then show ?thesis using assms(2) by (simp add: same_timers_timed)
next
  case (AdmitFollowup i message_id content delivery digest valid_until expected)
  have "same_timers b b'"
    using assms(1) AdmitFollowup by (auto simp: apply_command_def admit_followup_def Let_def split: option.splits)
  then show ?thesis using assms(2) by (simp add: same_timers_timed)
next
  case (IssueRequestTerms route address class_id quote_id digest)
  have "same_timers b b'"
    using assms(1) IssueRequestTerms
    by (auto simp: apply_command_def issue_terms_def Let_def same_timers_def emit_def
        split: option.splits request_permission.splits if_splits)
  then show ?thesis using assms(2) by (simp add: same_timers_timed)
next
  case (CancelRequestSubmission i expected reason)
  then show ?thesis using assms
    by (auto simp: apply_command_def cancel_request_submission_def
        split: actor_ref.splits if_splits intro: cancel_submission_timed)
next
  case (UnblockRelationship expected)
  then have "same_timers b b'"
    using assms(1) by (auto simp: apply_command_def unblock_def dest!: mark_relationship_timers)
  then show ?thesis using assms(2) by (simp add: same_timers_timed)
next
  case (RevokeRelationship expected)
  then obtain b1 b2 where b1: "terminate_lane b = Ok b1" and b2: "mark_relationship b1 RelRevoked = Ok b2"
    and b': "b' = emit b2 RelationshipRevokedEvent"
    using assms(1) by (auto simp: apply_command_def revoke_def)
  show ?thesis
    using terminate_lane_timed [OF b1 assms(2)] same_timers_timed [OF mark_relationship_timers [OF b2]] by (simp add: b')
next
  case (ExpireRequest i expected)
  then show ?thesis using assms
    by (auto simp: apply_command_def expire_request_def split: if_splits intro: settle_timed)
qed (use assms in \<open>auto simp: apply_command_def intro: record_payment_timed create_request_timed submit_request_timed
      relationship_decision_timed\<close>)

section \<open>Plans and runs\<close>

text \<open>The schedules a relationship's host keeps, with the changes of every committed plan applied.\<close>

lemma plan_timers:
  assumes "kernel_plan c s (input, cx) = Ok (Some p)" and "timers_fit m (st_requests (sn_state s))"
  shows "timers_fit (apply_schedule_changes m (tm_schedules p)) (st_requests (tm_next_state p))"
proof -
  have start: "timed m (builder_new s cx)" using assms(2) by (simp add: timed_def builder_new_def apply_schedule_changes_def)
  have v: "validate_snapshot s cx = Ok ()" using assms(1) by (rule plan_validated)
  note keyed = valid_keyed [OF validate_snapshot_Ok(1) [OF v], of cx]
  have finish: "timers_fit (apply_schedule_changes m (tm_schedules p)) (st_requests (tm_next_state p))"
    if "builder_finish s b = Ok p" "timed m b" for b
    using that by (auto simp: builder_finish_def timed_def)
  show ?thesis
  proof (cases input)
    case (SignedCommand command)
    then obtain b where "apply_command c (builder_new s cx) cx (kc_actor command) (kc_key command) (kc_command command) = Ok b"
      "builder_finish s b = Ok p" using assms(1) by (auto simp: kernel_plan_def transition_def)
    then show ?thesis using finish apply_command_timed start keyed by blast
  next
    case (IncomingNative incoming)
    then obtain r :: relationship_request and b where
      "cancel_submission (builder_new s cx) (rq_id r) OrdinaryCancellation = Ok b"
      "builder_finish s (emit b (RequestPreparationSuperseded (rq_id r) (reservation incoming))) = Ok p"
      using assms(1) by (auto simp: kernel_plan_def receive_native_request_def Let_def split: option.splits if_splits)
    then show ?thesis using finish cancel_submission_timed [OF _ start keyed] by simp
  next
    case (LaneGranted lane)
    then obtain b1 b2 where b1: "mark_relationship (builder_new s cx) (RelExpressLane lane) = Ok b1"
      and b2: "settle_for_lane lane b1 = Ok b2" and p: "builder_finish s (emit b2 (RelationshipLaneGranted lane)) = Ok p"
      using assms(1) by (auto simp: kernel_plan_def accept_express_lane_def settle_for_lane_def)
    have "timed m b1" using start same_timers_timed [OF mark_relationship_timers [OF b1]] by simp
    moreover have "keyed b1" by (rule quiet_keyed [OF mark_relationship_quiet [OF b1] keyed])
    ultimately have "timed m b2"
      using b2 by (auto simp: settle_for_lane_def split: option.splits request_lifecycle.splits
          intro: cancel_submission_timed settle_timed)
    then show ?thesis using finish [OF p] by simp
  qed
qed

text \<open>The changes of a run, in order.\<close>

definition run_schedules :: "transition_manifest option list \<Rightarrow> schedule_change list" where
  "run_schedules ps = concat (map (\<lambda>p. case p of Some m \<Rightarrow> tm_schedules m | None \<Rightarrow> []) ps)"

lemma run_timers:
  "run_machine (kernel_step c) s xs = (t, ps) \<Longrightarrow> timers_fit m (st_requests (sn_state s)) \<Longrightarrow>
     timers_fit (apply_schedule_changes m (run_schedules ps)) (st_requests (sn_state t))"
proof (induction xs arbitrary: s m ps)
  case Nil
  then show ?case by (simp add: run_schedules_def apply_schedule_changes_def)
next
  case (Cons x xs)
  show ?case
  proof (cases "kernel_step c s x")
    case (Ok r)
    obtain s1 plan where r: "kernel_step c s x = Ok (s1, plan)" using Ok by (cases r) simp
    then obtain ps' where run: "run_machine (kernel_step c) s1 xs = (t, ps')" and ps: "ps = plan # ps'"
      using Cons.prems(1) by (auto split: prod.splits)
    obtain input cx where x: "x = (input, cx)" by (cases x)
    let ?m = "apply_schedule_changes m (case plan of Some p \<Rightarrow> tm_schedules p | None \<Rightarrow> [])"
    from r have "timers_fit ?m (st_requests (sn_state s1))" unfolding x
    proof (cases rule: kernel_step_Ok)
      case idle
      then show ?thesis using Cons.prems(2) by (simp add: apply_schedule_changes_def)
    next
      case (commits p fx v)
      then show ?thesis using plan_timers [OF commits(2) Cons.prems(2)] by (simp add: snapshot_next_def)
    qed
    from Cons.IH [OF run this] show ?thesis by (simp add: ps run_schedules_def apply_changes_append)
  qed (use Cons in auto)
qed

section \<open>The scheduler\<close>

text \<open>
  The command a claimed schedule executes (\<open>execute_claimed_schedule\<close> of the storage adapter) and
  which schedules can be claimed: those due, an expiry only after its deadline.
\<close>

definition scheduled_command :: "protocol_state \<Rightarrow> schedule_task \<Rightarrow> protocol_command option" where
  "scheduled_command s task =
     (case task of
        SubmissionTimeout i \<Rightarrow>
          (case bt_get (st_requests s) i of
             Some r \<Rightarrow> if is_preparing_submission (rq_lifecycle r)
               then Some (CancelRequestSubmission i (rq_version r) TimeoutReason) else None
           | None \<Rightarrow> None)
      | RequestExpiry i \<Rightarrow>
          (case bt_get (st_requests s) i of
             Some r \<Rightarrow> if is_awaiting_recipient_decision (rq_lifecycle r)
               then Some (ExpireRequest i (rq_version r)) else None
           | None \<Rightarrow> None)
      | LaneHorizon _ \<Rightarrow> None)"

definition claimable :: "schedule_task \<Rightarrow> canonical_time \<Rightarrow> canonical_time \<Rightarrow> bool" where
  "claimable task due_at now \<longleftrightarrow>
     due_at \<le> now \<and> (due_at < now \<or> \<not> (case task of RequestExpiry _ \<Rightarrow> True | _ \<Rightarrow> False))"

definition scheduler_input :: "protocol_command \<Rightarrow> transition_context \<Rightarrow> operational_key_ref \<Rightarrow> idempotency_key \<Rightarrow> kernel_input" where
  "scheduler_input command cx key idempotency =
     SignedCommand \<lparr>kc_command = command, kc_actor = ActScheduler (ps_recipient_provider (cx_policy cx)),
       kc_key = key, kc_idempotency_key = idempotency\<rparr>"

definition overflows :: "protocol_error set" where
  "overflows = - {PtArithmeticOverflow}"

lemma overflows_iff [simp]: "e \<in> overflows \<longleftrightarrow> e \<noteq> PtArithmeticOverflow"
  by (simp add: overflows_def)

text \<open>What only arithmetic can refuse.\<close>

lemma rf_settle_unsettled:
  assumes "rf_shape p" and "rf_settlement p = None" and "settlement = SettledCancelled \<or> funding_finalized p"
  shows "\<exists>x. rf_settle p settlement at = Ok x"
proof -
  have "refund_operation (rf_refund p) = None" using assms(1,2) by (auto simp: rf_shape_def refund_due_def)
  then have "refund_operation (rf_refund (p\<lparr>rf_settlement := s\<rparr>)) = None" for s by simp
  then show ?thesis using assms(2,3)
    by (cases settlement) (auto simp: rf_settle_def create_refund_def Let_def fail_if_def funding_finalized_def)
qed

lemma settle_financials_only_overflow:
  assumes "bt_get (mb_payments b) i = Some p" "rf_shape p" "rf_settlement p = None"
    and "settlement = SettledCancelled \<or> funding_finalized p"
  shows "sound overflows (settle_financials b i settlement)"
proof -
  obtain p' fx where "rf_settle p settlement (mb_now b) = Ok (p', fx)"
    using rf_settle_unsettled [OF assms(2-4)] by (metis surj_pair)
  then show ?thesis by (simp add: settle_financials_def assms(1))
qed

lemma next_version_only_overflow: "sound overflows (next_version v)"
  unfolding next_version_def by (intro sound_intros) simp

lemma cancel_only_overflow:
  assumes "find_request b i = Some r" "rq_id r = i" "is_preparing_submission (rq_lifecycle r)"
    and "bt_get (mb_payments b) i = Some p" "rf_shape p" "rf_settlement p = None"
  shows "sound overflows (cancel_submission b i cancellation)"
proof -
  have "bt_get (mb_payments (release_reservation r' b)) i = Some p" for r'
    using assms(4) by (simp add: release_reservation_def)
  from settle_financials_only_overflow [OF this assms(5,6)] show ?thesis
    using assms(1-3)
    by (simp add: cancel_submission_def is_preparing_iff lc_preparation_def Let_def)
       (auto intro!: sound_and_then next_version_only_overflow)
qed

lemma expire_only_overflow:
  assumes "find_request b i = Some r" "is_awaiting_recipient_decision (rq_lifecycle r)"
    and "bt_get (mb_payments b) i = Some p" "rf_shape p" "rf_settlement p = None" "funding_finalized p"
  shows "sound overflows (settle_expired b i)"
proof -
  have "sound overflows (apply_cooldown b' at d)" for b' at d
    unfolding apply_cooldown_def extend_cooldown_def by (intro sound_intros) auto
  then show ?thesis
    using settle_financials_only_overflow [OF assms(3-5), of SettledExpired] assms(1,2,6)
    by (simp add: settle_expired_def is_awaiting_iff lc_submission_def)
       (auto simp: lc_submission_def intro!: sound_and_then next_version_only_overflow)
qed

text \<open>What they leave.\<close>

lemma cancel_submission_closes:
  assumes "cancel_submission b i cancellation = Ok b'" and "keyed b"
  shows "\<exists>r. find_request b' i = Some r \<and> is_terminal (rq_lifecycle r)"
  using assms
  by (auto simp: cancel_submission_def keyed_def Let_def find_request_def put_request_def emit_def schedule_def)

lemma settle_expired_closes:
  assumes "settle_expired b i = Ok b'"
  shows "\<exists>r. find_request b' i = Some r \<and> is_terminal (rq_lifecycle r)"
  using assms by (auto simp: settle_expired_def find_request_def put_request_def schedule_def)

lemma finish_only_overflow:
  assumes "kernel_inv c t" and "advances c (builder_new t cx) b"
  shows "sound overflows (builder_finish t b)"
proof -
  obtain fx where m: "kernel_move c (cx_now cx) (cx_journal_position cx) (snapshot_core t) fx (core b)"
    and bk: "booked (builder_new t cx) fx b" using assms(2) by (auto simp: advances_def)
  have batch: "mb_batch b = nonzero_postings (fe_postings fx)"
    using bk by (simp add: booked_def fold_batch_transfer)
  have "money_agrees c (snapshot_core t)" "view_ok (sn_ledger t)"
    "signed_balance (sn_ledger t) = funds (snapshot_core t)" using assms(1) by (simp_all add: kernel_inv_def)
  then have "e = LedgerArithmeticOverflow" if "view_apply (sn_ledger t) (mb_batch b) = Err e" for e
    using view_apply_only_overflow [OF that] move_funds(2,3) [OF m]
    by (simp add: batch nonzero_balanced nonzero_covered)
  then show ?thesis
    using view_apply_no_panic [of "sn_ledger t" "mb_batch b"]
    by (cases "view_apply (sn_ledger t) (mb_batch b)") (auto simp: builder_finish_def sound_def)
qed

text \<open>The scheduler's command on a snapshot that holds a claimable timer.\<close>

definition closes :: "crypto \<Rightarrow> settlement_snapshot \<Rightarrow> kernel_input \<times> transition_context \<Rightarrow> request_id \<Rightarrow> bool" where
  "closes c t x i \<longleftrightarrow>
     kernel_step c t x = Err PtArithmeticOverflow
     \<or> (\<exists>t' p r. kernel_step c t x = Ok (t', Some p) \<and> request_in t' i = Some r \<and> is_terminal (rq_lifecycle r))"

lemma command_closes:
  assumes inv: "kernel_inv c t" and v: "validate_snapshot t cx = Ok ()"
    and a: "authorize (sn_state t) actor command (ps_recipient_provider (cx_policy cx)) = Ok ()"
    and snd: "sound overflows (apply_command c (builder_new t cx) cx actor key command)"
    and resolved: "\<And>b. apply_command c (builder_new t cx) cx actor key command = Ok b \<Longrightarrow>
      \<exists>r. find_request b i = Some r \<and> is_terminal (rq_lifecycle r)"
  shows "closes c t (SignedCommand \<lparr>kc_command = command, kc_actor = actor, kc_key = key, kc_idempotency_key = idem\<rparr>, cx) i"
proof -
  note keyed = valid_keyed [OF validate_snapshot_Ok(1) [OF v], of cx]
  let ?x = "(SignedCommand \<lparr>kc_command = command, kc_actor = actor, kc_key = key, kc_idempotency_key = idem\<rparr>, cx)"
  have plan: "kernel_plan c t ?x = map_ok Some (and_then (apply_command c (builder_new t cx) cx actor key command) (builder_finish t))"
    by (simp add: kernel_plan_def transition_def v a)
  show ?thesis
  proof (cases "apply_command c (builder_new t cx) cx actor key command")
    case (Ok b)
    have adv: "advances c (builder_new t cx) b" by (rule apply_command_advances [OF Ok keyed]) simp
    obtain r where r: "find_request b i = Some r" "is_terminal (rq_lifecycle r)" using resolved [OF Ok] by blast
    show ?thesis
    proof (cases "builder_finish t b")
      case (Ok m)
      then obtain w where w: "view_apply (sn_ledger t) (tm_ledger_batch m) = Ok w" "tm_next_state m = mb_next b"
        by (auto simp: builder_finish_def)
      have "kernel_step c t ?x = Ok (snapshot_next t m w, Some m)"
        using w(1) Ok \<open>apply_command c (builder_new t cx) cx actor key command = Ok b\<close> by (simp add: kernel_step_def plan)
      moreover have "request_in (snapshot_next t m w) i = Some r"
        using r(1) w(2) by (simp add: request_in_def snapshot_next_def find_request_def)
      ultimately show ?thesis using r(2) by (simp add: closes_def)
    next
      case (Err e)
      then have "e = PtArithmeticOverflow" using finish_only_overflow [OF inv adv] by (auto simp: sound_def)
      then show ?thesis using Ok Err by (simp add: closes_def kernel_step_def plan)
    next
      case Panic
      then show ?thesis using finish_only_overflow [OF inv adv] by (simp add: sound_def)
    qed
  next
    case (Err e)
    then have "e = PtArithmeticOverflow" using snd by (auto simp: sound_def)
    then show ?thesis using Err by (simp add: closes_def kernel_step_def plan)
  next
    case Panic
    then show ?thesis using snd by (simp add: sound_def)
  qed
qed

lemma scheduled_accepted:
  assumes inv: "kernel_inv c t" "well_kept unit t" "request_in t 0 = None" "context_fits unit cx"
    and due: "due (st_requests (sn_state t)) task = Some at" and claim: "claimable task at (cx_now cx)"
    and i: "task = SubmissionTimeout i \<or> task = RequestExpiry i"
  shows "\<exists>command. scheduled_command (sn_state t) task = Some command \<and> closes c t (scheduler_input command cx key idem, cx) i"
proof -
  let ?b = "builder_new t cx" and ?a = "ActScheduler (ps_recipient_provider (cx_policy cx))"
  have v: "validate_snapshot t cx = Ok ()" using well_kept_validates [OF inv(1,2,4)] inv(3) by simp
  note keyed = valid_keyed [OF validate_snapshot_Ok(1) [OF v], of cx]
  obtain r where r: "bt_get (st_requests (sn_state t)) i = Some r" using due i by (auto simp: due_def bind_eq_Some_conv)
  then have f: "find_request ?b i = Some r" by (simp add: find_request_def)
  have id: "rq_id r = i" using keyed f by (auto simp: keyed_def)
  obtain p where p: "bt_get (sn_payments t) i = Some p" "rf_inv c p" "agrees r p"
    using inv(1) r by (force simp: kernel_inv_def money_agrees_def)
  have money: "bt_get (mb_payments ?b) i = Some p" "rf_shape p" using p by (simp_all add: rf_inv_def)
  show ?thesis using i
  proof
    assume task: "task = SubmissionTimeout i"
    obtain preparation where l: "rq_lifecycle r = PreparingSubmission preparation" and at: "sp_deadline preparation = at"
      using due r by (auto simp: task due_def split: request_lifecycle.splits)
    let ?command = "CancelRequestSubmission i (rq_version r) TimeoutReason"
    have now: "\<not> cx_now cx < at" using claim by (auto simp: claimable_def)
    have reduce: "apply_command c ?b cx ?a key ?command = cancel_submission ?b i OrdinaryCancellation"
      using now at by (simp add: apply_command_def cancel_request_submission_def f l lc_preparation_def)
    have "rf_settlement p = None" using p(3) by (simp add: agrees_def l lc_settlement_def)
    then have "sound overflows (cancel_submission ?b i OrdinaryCancellation)"
      using cancel_only_overflow [OF f id _ money] by (simp add: l)
    then have "closes c t (SignedCommand \<lparr>kc_command = ?command, kc_actor = ?a, kc_key = key, kc_idempotency_key = idem\<rparr>, cx) i"
      by (intro command_closes [OF inv(1) v]) (auto simp: authorize_def reduce Let_def intro: cancel_submission_closes keyed)
    then show ?thesis by (simp add: scheduled_command_def task r l scheduler_input_def)
  next
    assume task: "task = RequestExpiry i"
    obtain submission where l: "rq_lifecycle r = AwaitingRecipientDecision submission" and at: "su_decision_deadline submission = at"
      using due r by (auto simp: task due_def split: request_lifecycle.splits)
    let ?command = "ExpireRequest i (rq_version r)"
    have now: "\<not> cx_now cx \<le> at" using claim by (auto simp: claimable_def task)
    have reduce: "apply_command c ?b cx ?a key ?command
        = and_then (settle_expired ?b i) (\<lambda>b'. Ok (emit b' (RequestExpiredEvent i)))"
      using now at by (simp add: apply_command_def expire_request_def f l lc_submission_def)
    have "rf_settlement p = None" "funding_finalized p" using p(3) by (simp_all add: agrees_def l lc_settlement_def lc_submission_def)
    then have "sound overflows (settle_expired ?b i)"
      using expire_only_overflow [OF f _ money] by (simp add: l)
    then have "closes c t (SignedCommand \<lparr>kc_command = ?command, kc_actor = ?a, kc_key = key, kc_idempotency_key = idem\<rparr>, cx) i"
      by (intro command_closes [OF inv(1) v])
         (auto simp: authorize_def reduce Let_def emit_def find_request_def dest!: settle_expired_closes intro!: sound_and_then)
    then show ?thesis by (simp add: scheduled_command_def task r l scheduler_input_def)
  qed
qed


end
