(* ===== verification/Engine.thy ===== *)
theory Engine
  imports Kernel_Timers Program_Runs Billing Key_Registry
begin

text \<open>
  The engine of the application layer over its in-memory store
  (\<open>crates/cs-mail-application/src/lib.rs\<close>): relationships with their ledgers, journals and
  schedules, the request histories that several relationships share, and the forfeiture program
  of each settlement unit.  One call commits the kernel's plan, the ledger batch, the program's
  contributions and the replay record together, or nothing.  The lemmas show that an executed
  command is one step of the kernel, and what that makes of the whole store.
\<close>

section \<open>The order of references\<close>

text \<open>The derived order: the version first, then the bytes.\<close>

instantiation scoped_ref_ext :: (linorder) linorder
begin

definition less_scoped_ref_ext :: "'a scoped_ref_scheme \<Rightarrow> 'a scoped_ref_scheme \<Rightarrow> bool" where
  "less_scoped_ref_ext x y \<longleftrightarrow>
     sr_version x < sr_version y \<or> sr_version x = sr_version y \<and>
       (sr_bytes x < sr_bytes y \<or> sr_bytes x = sr_bytes y \<and> scoped_ref.more x < scoped_ref.more y)"

definition less_eq_scoped_ref_ext :: "'a scoped_ref_scheme \<Rightarrow> 'a scoped_ref_scheme \<Rightarrow> bool" where
  "less_eq_scoped_ref_ext x y \<longleftrightarrow> x < y \<or> x = y"

instance
proof
  fix x y z :: "'a scoped_ref_scheme"
  show "x < y \<longleftrightarrow> x \<le> y \<and> \<not> y \<le> x" by (auto simp: less_scoped_ref_ext_def less_eq_scoped_ref_ext_def)
  show "x \<le> x" by (simp add: less_eq_scoped_ref_ext_def)
  show "x \<le> y \<Longrightarrow> y \<le> z \<Longrightarrow> x \<le> z" by (auto simp: less_scoped_ref_ext_def less_eq_scoped_ref_ext_def)
  show "x \<le> y \<Longrightarrow> y \<le> x \<Longrightarrow> x = y" by (auto simp: less_scoped_ref_ext_def less_eq_scoped_ref_ext_def)
  show "x \<le> y \<or> y \<le> x" by (cases x; cases y) (auto simp: less_scoped_ref_ext_def less_eq_scoped_ref_ext_def)
qed

end

section \<open>The store\<close>

text \<open>The error of the third-party identity contract is the type variable.\<close>

datatype 'i engine_error =
  EngSecurity security_error | EngIdentity 'i
| EngProtocol protocol_error
| EngLedger ledger_error
| EngDuplicateConflict | EngVersionConflict | EngLockPoisoned | EngArithmeticOverflow | EngCommandEncoding
| EngFinance program_error
| EngBilling billing_error

record execution_record =
  xr_fingerprint :: bytes32
  xr_transition :: committed_transition

record engine_state =
  es_revision :: u64
  es_protocol :: protocol_state
  es_ledger :: ledger_state
  es_payments :: "(request_id, request_financials) btmap"
  es_messages :: "(message_id, message) btmap"
  es_journal :: "protocol_event list"
  es_schedules :: schedules
  es_outbox :: "effect_intent list"
  es_idempotency :: "(idempotency_key, execution_record) btmap"
  es_next_position :: u64

record program_state =
  pst_program :: program
  pst_commands :: "(idempotency_key, signed_program_command \<times> program_outcome) btmap"

text \<open>
  The part of the store these calls work on; the accounts, billing and enrollment tables of the
  same lock are not touched by them.
\<close>

record store =
  sto_scope :: financial_scope
  sto_relationships :: "(scoped_ref, engine_state) btmap"
  sto_histories :: "(scoped_ref, request_history) btmap"
  sto_programs :: "(settlement_unit, program_state) btmap"
  sto_pricing :: "pricing_policy option"
  sto_classes :: "(alias_id, recipient_request_classes) btmap"

definition store_new :: "financial_scope \<Rightarrow> store" where
  "store_new scope =
     \<lparr>sto_scope = scope, sto_relationships = bt_empty, sto_histories = bt_empty, sto_programs = bt_empty,
      sto_pricing = None, sto_classes = bt_empty\<rparr>"

definition configure_request_pricing :: "store \<Rightarrow> pricing_policy \<Rightarrow> (store, 'i engine_error) res" where
  "configure_request_pricing w policy = Ok (w\<lparr>sto_pricing := Some policy\<rparr>)"

definition configure_request_classes :: "store \<Rightarrow> recipient_request_classes \<Rightarrow> (store, 'i engine_error) res" where
  "configure_request_classes w classes =
     and_then (ok_or (sto_pricing w) (EngProtocol PtPolicyInvalid)) (\<lambda>policy.
     fail_if (\<not> policy_permits policy classes) (EngProtocol PtRequestClassOutsidePolicy)
     (Ok (w\<lparr>sto_classes := bt_insert (rcs_alias classes) classes (sto_classes w)\<rparr>)))"

definition fresh_engine_state :: "protocol_state \<Rightarrow> settlement_unit \<Rightarrow> engine_state" where
  "fresh_engine_state protocol unit =
     \<lparr>es_revision = 0, es_protocol = protocol, es_ledger = ledger_new unit, es_payments = bt_empty,
      es_messages = bt_empty, es_journal = [], es_schedules = Map.empty, es_outbox = [],
      es_idempotency = bt_empty, es_next_position = 1\<rparr>"

definition store_register :: "store \<Rightarrow> protocol_state \<Rightarrow> settlement_unit \<Rightarrow> (store, 'i engine_error) res" where
  "store_register w protocol unit =
     (let rel = st_relationship protocol; key = re_key rel in
      fail_if (bt_has (sto_relationships w) (rk_reference key)
         \<or> list_ex (\<lambda>r. rk_sender (re_key (st_relationship (es_protocol r))) = rk_sender key
              \<and> rk_recipient (re_key (st_relationship (es_protocol r))) = rk_recipient key)
             (bt_values (sto_relationships w))) EngDuplicateConflict
      (let history = (case bt_get (sto_histories w) (re_history rel) of
             Some h \<Rightarrow> h | None \<Rightarrow> history_new (re_history rel) (rk_recipient key) (re_changed_at rel)) in
       fail_if (hi_recipient history \<noteq> rk_recipient key) EngDuplicateConflict
       (Ok (w\<lparr>sto_histories := bt_insert (re_history rel) history (sto_histories w),
              sto_programs := (if bt_has (sto_programs w) unit then sto_programs w
                else bt_insert unit \<lparr>pst_program = program_new (sto_scope w) unit, pst_commands = bt_empty\<rparr> (sto_programs w)),
              sto_relationships := bt_insert (rk_reference key) (fresh_engine_state protocol unit) (sto_relationships w)\<rparr>))))"

definition harness_price :: "store \<Rightarrow> relationship_key \<Rightarrow> protocol_command \<Rightarrow> quote_pricing" where
  "harness_price w relationship command =
     (case command of
        IssueRequestTerms _ address class_id _ _ \<Rightarrow>
          pricing_resolve (sto_pricing w)
            (case bt_get (sto_classes w) address of
               Some c \<Rightarrow> if rcs_recipient c = rk_recipient relationship then Some c else None
             | None \<Rightarrow> None) class_id
      | _ \<Rightarrow> PricingNotRequested)"

section \<open>Executing a command\<close>

definition engine_snapshot :: "engine_state \<Rightarrow> request_history \<Rightarrow> settlement_snapshot" where
  "engine_snapshot e history =
     snapshot_complete (es_revision e) (es_protocol e) history (es_payments e) (es_messages e) (ls_view (es_ledger e))"

definition engine_context ::
  "store \<Rightarrow> engine_state \<Rightarrow> kernel_command \<Rightarrow> canonical_time \<Rightarrow> policy_snapshot \<Rightarrow> transition_context" where
  "engine_context w e command now policy =
     \<lparr>cx_permission = (if re_state (st_relationship (es_protocol e)) = RelAccepted then DirectContact else BondedRequest),
      cx_delivery = GuestRelay, cx_admission = None, cx_now = now, cx_journal_position = es_next_position e,
      cx_protocol_version = ps_protocol_version policy, cx_policy = policy,
      cx_pricing = harness_price w (re_key (st_relationship (es_protocol e))) (kc_command command)\<rparr>"

primrec record_forfeitures :: "program \<Rightarrow> forfeiture list \<Rightarrow> canonical_time \<Rightarrow> (program, program_error) res" where
  "record_forfeitures p [] now = Ok p"
| "record_forfeitures p (source # sources) now =
     and_then (program_record_forfeiture p source now) (\<lambda>(p', _). record_forfeitures p' sources now)"

primrec note_reversals :: "program \<Rightarrow> payment_operation_id list \<Rightarrow> canonical_time \<Rightarrow> (program, program_error) res" where
  "note_reversals p [] now = Ok p"
| "note_reversals p (i # ids) now =
     and_then (program_note_reversal p i now) (\<lambda>(p', _). note_reversals p' ids now)"

record execution_outcome =
  xo_transition :: committed_transition
  xo_replayed :: bool

text \<open>The state a manifest leads to.\<close>

definition engine_committed ::
  "engine_state \<Rightarrow> transition_manifest \<Rightarrow> ledger_state \<Rightarrow> u64 \<Rightarrow> u64 \<Rightarrow> idempotency_key \<Rightarrow> execution_record \<Rightarrow> engine_state" where
  "engine_committed e m ledger revision position key r =
     e\<lparr>es_payments := tm_next_payments m, es_messages := tm_next_messages m, es_protocol := tm_next_state m,
       es_ledger := ledger, es_schedules := apply_schedule_changes (es_schedules e) (tm_schedules m),
       es_journal := es_journal e @ tm_events m, es_outbox := es_outbox e @ tm_effects m,
       es_idempotency := bt_insert key r (es_idempotency e), es_revision := revision,
       es_next_position := position\<rparr>"

definition engine_execute ::
  "crypto \<Rightarrow> (kernel_command \<Rightarrow> bytes option) \<Rightarrow> store \<Rightarrow> scoped_ref \<Rightarrow> kernel_command \<Rightarrow> canonical_time
     \<Rightarrow> policy_snapshot \<Rightarrow> (store \<times> execution_outcome, 'i engine_error) res" where
  "engine_execute c json w relationship command now policy =
     and_then (or_panic (bt_get (sto_relationships w) relationship)) (\<lambda>e.
     fail_if (ft_scope (ps_financial policy) \<noteq> sto_scope w) EngVersionConflict
     (and_then (map_ok (cr_sha256 c) (ok_or (json command) EngCommandEncoding)) (\<lambda>fingerprint.
      case bt_get (es_idempotency e) (kc_idempotency_key command) of
        Some r \<Rightarrow>
          if xr_fingerprint r = fingerprint then Ok (w, \<lparr>xo_transition = xr_transition r, xo_replayed = True\<rparr>)
          else Err EngDuplicateConflict
      | None \<Rightarrow>
          and_then (or_panic (bt_get (sto_histories w) (re_history (st_relationship (es_protocol e))))) (\<lambda>history.
          let cx = engine_context w e command now policy in
          and_then (map_err EngProtocol (transition c (engine_snapshot e history) command cx)) (\<lambda>m.
          fail_if (tm_expected_snapshot_revision m \<noteq> es_revision e) EngVersionConflict
          (and_then (ok_or (checked_add (es_revision e) 1) EngArithmeticOverflow) (\<lambda>revision.
           and_then (ok_or (checked_add (es_next_position e) 1) EngArithmeticOverflow) (\<lambda>position.
           and_then (map_err EngLedger (ledger_apply (es_ledger e) (tm_expected_ledger_revision m) (tm_ledger_batch m))) (\<lambda>ledger.
           let unit = lv_unit (ls_view (es_ledger e)) in
           and_then (or_panic (bt_get (sto_programs w) unit)) (\<lambda>ps.
           and_then (map_err EngFinance (record_forfeitures (pst_program ps) (tm_forfeitures m) now)) (\<lambda>p.
           and_then (map_err EngFinance (note_reversals p (tm_forfeiture_holds m) now)) (\<lambda>program.
           let outcome = manifest_committed m (cx_journal_position cx);
               r = \<lparr>xr_fingerprint = fingerprint, xr_transition = outcome\<rparr> in
           Ok (w\<lparr>sto_programs := bt_insert unit (ps\<lparr>pst_program := program\<rparr>) (sto_programs w),
                sto_histories := bt_insert (hi_reference (tm_next_history m)) (tm_next_history m) (sto_histories w),
                sto_relationships := bt_insert relationship
                  (engine_committed e m ledger revision position (kc_idempotency_key command) r) (sto_relationships w)\<rparr>,
               \<lparr>xo_transition = outcome, xo_replayed = False\<rparr>)))))))))))))"

section \<open>Executing a financial command\<close>

definition engine_financial ::
  "crypto \<Rightarrow> (signed_program_command \<Rightarrow> bytes option) \<Rightarrow> store \<Rightarrow> scoped_ref \<Rightarrow> signed_program_command \<Rightarrow> bytes32
     \<Rightarrow> canonical_time \<Rightarrow> (store \<times> program_outcome, 'i engine_error) res" where
  "engine_financial c json w relationship s key now =
     and_then (map_err EngFinance (program_command_verify c json s key)) (\<lambda>_.
     and_then (or_panic (bt_get (sto_relationships w) relationship)) (\<lambda>e.
     let unit = lv_unit (ls_view (es_ledger e)) in
     and_then (ok_or (bt_get (sto_programs w) unit) EngVersionConflict) (\<lambda>ps.
     case bt_get (pst_commands ps) (sgc_idempotency_key s) of
       Some (previous, outcome) \<Rightarrow> if previous = s then Ok (w, outcome) else Err EngDuplicateConflict
     | None \<Rightarrow>
         fail_if (sgc_scope s \<noteq> gp_scope (pst_program ps) \<or> sgc_unit s \<noteq> gp_unit (pst_program ps)
            \<or> sgc_expected_revision s \<noteq> gp_revision (pst_program ps)) EngVersionConflict
         (and_then (map_err EngFinance (program_apply c (pst_program ps) (sgc_command s) now)) (\<lambda>(program, outcome).
          Ok (w\<lparr>sto_programs := bt_insert unit
                 \<lparr>pst_program = program, pst_commands = bt_insert (sgc_idempotency_key s) (s, outcome) (pst_commands ps)\<rparr>
                 (sto_programs w)\<rparr>, outcome))))))"

section \<open>The machine\<close>

datatype engine_input =
  EngRegister scoped_ref scoped_ref protocol_identity protocol_identity canonical_time settlement_unit
| EngPricing pricing_policy
| EngClasses recipient_request_classes
| EngExecute scoped_ref kernel_command canonical_time policy_snapshot
| EngFinancial scoped_ref signed_program_command bytes32 canonical_time

definition engine_step ::
  "crypto \<Rightarrow> (kernel_command \<Rightarrow> bytes option) \<Rightarrow> (signed_program_command \<Rightarrow> bytes option)
     \<Rightarrow> store \<Rightarrow> engine_input \<Rightarrow> (store \<times> execution_outcome option, 'i engine_error) res" where
  "engine_step c json json' w input =
     (case input of
        EngRegister relationship history sender recipient now unit \<Rightarrow>
          map_ok (\<lambda>w'. (w', None)) (store_register w (initial_scoped relationship history sender recipient now) unit)
      | EngPricing policy \<Rightarrow> map_ok (\<lambda>w'. (w', None)) (configure_request_pricing w policy)
      | EngClasses classes \<Rightarrow> map_ok (\<lambda>w'. (w', None)) (configure_request_classes w classes)
      | EngExecute relationship command now policy \<Rightarrow>
          map_ok (\<lambda>(w', outcome). (w', Some outcome)) (engine_execute c json w relationship command now policy)
      | EngFinancial relationship s key now \<Rightarrow>
          map_ok (\<lambda>(w', _). (w', None)) (engine_financial c json' w relationship s key now))"

section \<open>Contributions stay\<close>

text \<open>Lots are never removed and their sources never change.\<close>

definition keeps_lots :: "program \<Rightarrow> program \<Rightarrow> bool" where
  "keeps_lots p q \<longleftrightarrow> gp_scope q = gp_scope p \<and> gp_unit q = gp_unit p
     \<and> (\<forall>i f. bt_get (lots p) i = Some f \<longrightarrow> (\<exists>g. bt_get (lots q) i = Some g \<and> lot_source g = lot_source f))"

lemma keeps_lots_refl [simp]: "keeps_lots p p"
  by (simp add: keeps_lots_def)

lemma keeps_lots_trans: "keeps_lots p q \<Longrightarrow> keeps_lots q r \<Longrightarrow> keeps_lots p r"
  unfolding keeps_lots_def by metis

lemma keeps_lots_same:
  "lots q = lots p \<Longrightarrow> gp_scope q = gp_scope p \<Longrightarrow> gp_unit q = gp_unit p \<Longrightarrow> keeps_lots p q"
  by (simp add: keeps_lots_def)

lemma keeps_lots_put:
  "(bt_get (lots p) i = None \<or> (\<exists>f. bt_get (lots p) i = Some f \<and> lot_source g = lot_source f)) \<Longrightarrow> keeps_lots p (put_lot i g p)"
  by (auto simp: keeps_lots_def)

lemma keeps_lots_post: "program_post p at cause batch = Ok q \<Longrightarrow> keeps_lots p q"
  by (rule keeps_lots_same) (simp_all add: program_post_Ok(5-7))

lemma keeps_lots_atomic:
  assumes "program_atomic p at f = Ok (q, r)" and "\<And>q. f p = Ok (q, r) \<Longrightarrow> keeps_lots p q"
  shows "keeps_lots p q"
proof -
  obtain q' revision where "f p = Ok (q', r)" "q = q'\<lparr>gp_last_event_at := at, gp_revision := revision\<rparr>"
    using assms(1) by (rule program_atomic_Ok)
  then show ?thesis using assms(2) [of q'] by (simp add: keeps_lots_def)
qed

lemma record_forfeiture_lots:
  assumes "program_record_forfeiture p source at = Ok (q, u)"
  shows "keeps_lots p q \<and> (\<exists>f. bt_get (lots q) (fo_id source) = Some f \<and> lot_source f = source)"
proof (cases "bt_get (lots p) (fo_id source)")
  case (Some f)
  then show ?thesis using assms by (auto simp: program_record_forfeiture_def split: if_splits)
next
  case None
  let ?f = "\<lparr>lot_source = source, lot_lifecycle = LotPending (fo_requires_review source)\<rparr>"
  have step: "keeps_lots p (put_lot (fo_id source) ?f p1)" if "keeps_lots p p1" "lots p1 = lots p" for p1
    using that None keeps_lots_put [of p1] by (intro keeps_lots_trans [OF that(1)]) simp
  obtain q' revision p1 where post: "program_post p at (fo_id source)
      (batch_transfer (ProgramClearing (fo_id source)) (PendingForfeiture (fo_id source)) (fo_amount source) []) = Ok p1"
    and q: "q' = put_lot (fo_id source) ?f p1" "q = q'\<lparr>gp_last_event_at := max at (gp_last_event_at p), gp_revision := revision\<rparr>"
    using assms unfolding program_record_forfeiture_def None option.case by (auto elim!: program_atomic_Ok)
  have "keeps_lots p q'" using step [OF keeps_lots_post [OF post]] by (simp add: q(1) program_post_Ok(5) [OF post])
  then show ?thesis by (simp add: q keeps_lots_def)
qed

lemma note_reversal_lots: "program_note_reversal p i at = Ok (q, u) \<Longrightarrow> keeps_lots p q"
  unfolding program_note_reversal_def
  by (erule keeps_lots_atomic) (auto simp: lot_set_hold_def intro!: keeps_lots_put split: if_splits)

lemma finalize_lots:
  assumes "finalize_step c i at p = Ok (q, a)"
  shows "keeps_lots p q"
proof -
  obtain schedule p1 batch new corporate contribution p2 batch' p3 each where
    funding: "assess_funding p (eligible_lots p schedule) schedule [] = Ok (p1, batch, new, corporate, contribution)"
    and members: "p2 = p1 \<or> allocate_members c schedule each (qualifying_members p schedule) p1 batch = Ok (p2, batch')"
    and post: "program_post p2 at (as_id schedule) batch' = Ok p3" and q: "gp_records q = gp_records (put_allocation i a p3)"
      "gp_scope q = gp_scope p3" "gp_unit q = gp_unit p3"
    using assms by (force simp: finalize_step_def Let_def put_allocation_def split: if_splits)
  obtain x where x: "assess_lots (as_id schedule) (eligible_lots p schedule)
      \<lparr>ax_program = p, ax_cohorts = bt_empty, ax_new = 0, ax_batch = []\<rparr> = Ok x" "p1 = ax_program x"
    using funding by (auto simp: assess_funding_def)
  have loop: "keeps_lots (ax_program x) (ax_program y)" if "assess_lots d ids x = Ok y" for d ids x y
    using that
  proof (induction ids arbitrary: x)
    case (Cons j ids)
    then obtain x1 where x1: "assess_lot d x j = Ok x1" and rest: "assess_lots d ids x1 = Ok y" by auto
    from x1 have "keeps_lots (ax_program x) (ax_program x1)"
      by (rule assess_lot_Ok) (auto intro!: keeps_lots_put)
    then show ?case using Cons.IH [OF rest] by (rule keeps_lots_trans)
  qed simp
  have "keeps_lots p p1" using loop [OF x(1)] by (simp add: x(2))
  moreover have "keeps_lots p1 p2" using members
  proof
    assume "allocate_members c schedule each (qualifying_members p schedule) p1 batch = Ok (p2, batch')"
    then have w: "p2 = with_payables (payables p2) p1" by (rule allocate_members_payables(1))
    have "lots p2 = lots p1" "gp_scope p2 = gp_scope p1" "gp_unit p2 = gp_unit p1" by (subst w, simp)+
    then show ?thesis by (rule keeps_lots_same)
  qed simp
  moreover have "keeps_lots p2 p3" by (rule keeps_lots_post [OF post])
  moreover have "keeps_lots p3 q" using q by (intro keeps_lots_same) (simp_all add: put_allocation_def)
  ultimately show ?thesis by (blast intro: keeps_lots_trans)
qed

lemma program_apply_lots:
  assumes "program_apply c p command at = Ok (q, out)"
  shows "keeps_lots p q"
proof -
  have same: "keeps_lots p (put_member i m p)" "keeps_lots p (put_payable i x p)"
    "keeps_lots p (p\<lparr>gp_records := (gp_records p)\<lparr>own_schedules := ss\<rparr>\<rparr>)" for i m x ss p
    by (simp_all add: keeps_lots_def)
  have compensate: "keeps_lots p q" if "program_compensate c p event member distribution amount reason at = Ok (q, u)"
    for event member distribution amount reason u
    using that unfolding program_compensate_def
    by (auto elim!: keeps_lots_atomic intro: keeps_lots_trans [OF same(2) keeps_lots_post] simp: Let_def)
  have finalize: "keeps_lots p q" if "program_finalize c p i at = Ok (q, a)" for i a
    using that unfolding program_finalize_def
    by (auto elim!: keeps_lots_atomic intro: finalize_lots split: option.splits)
  have publish: "keeps_lots p q" if "program_publish p schedule at = Ok (q, u)" for schedule u
    using that same(3) unfolding program_publish_def
    by (auto elim!: keeps_lots_atomic split: option.splits if_splits)
  have enroll: "keeps_lots p q" if "program_enroll p i d status at = Ok (q, u)" for i d status u
    using that same(1) unfolding program_enroll_def by (auto elim!: keeps_lots_atomic)
  have status: "keeps_lots p q" if "program_set_membership p i st at = Ok (q, u)" for i st u
    using that same(1) unfolding program_set_membership_def by (auto elim!: keeps_lots_atomic)
  have activity: "keeps_lots p q" if "program_record_activity p i k at = Ok (q, u)" for i k u
    using that same(1) unfolding program_record_activity_def by (auto elim!: keeps_lots_atomic)
  have hold: "keeps_lots p q" if "program_set_hold p i h at = Ok (q, u)" for i h u
    using that unfolding program_set_hold_def
    by (auto elim!: keeps_lots_atomic intro!: keeps_lots_put simp: lot_set_hold_def)
  have clear: "keeps_lots p q" if "program_clear_maturity p i e at = Ok (q, u)" for i e u
    using that unfolding program_clear_maturity_def
    by (auto elim!: keeps_lots_atomic intro!: keeps_lots_put simp: lot_clear_def)
  show ?thesis using assms compensate finalize publish enroll status activity hold clear
    by (cases command) (auto simp: program_apply_def Let_def)
qed

lemma record_forfeitures_lots:
  "record_forfeitures p sources now = Ok q \<Longrightarrow>
     keeps_lots p q \<and> (\<forall>source\<in>set sources. \<exists>f. bt_get (lots q) (fo_id source) = Some f \<and> lot_source f = source)"
proof (induction sources arbitrary: p)
  case (Cons source sources)
  then obtain p1 u where p1: "program_record_forfeiture p source now = Ok (p1, u)" and rest: "record_forfeitures p1 sources now = Ok q"
    by auto
  note a = record_forfeiture_lots [OF p1] and b = Cons.IH [OF rest]
  obtain f where "bt_get (lots p1) (fo_id source) = Some f" "lot_source f = source" using a by blast
  then have "\<exists>g. bt_get (lots q) (fo_id source) = Some g \<and> lot_source g = source" using b by (auto simp: keeps_lots_def)
  then show ?case using a b by (auto intro: keeps_lots_trans)
qed simp

lemma note_reversals_lots: "note_reversals p ids now = Ok q \<Longrightarrow> keeps_lots p q"
  by (induction ids arbitrary: p) (auto intro: keeps_lots_trans note_reversal_lots)

lemma record_forfeitures_inv: "record_forfeitures p sources now = Ok q \<Longrightarrow> program_inv c p \<Longrightarrow> program_inv c q"
  by (induction sources arbitrary: p) (auto dest: record_forfeiture_inv)

lemma note_reversals_inv: "note_reversals p ids now = Ok q \<Longrightarrow> program_inv c p \<Longrightarrow> program_inv c q"
  by (induction ids arbitrary: p) (auto dest: note_reversal_inv)

end
