(* ===== verification/Engine_Runs.thy ===== *)
theory Engine_Runs
  imports Engine
begin

text \<open>
  Runs of the in-memory engine over any number of relationships: an executed command is one step
  of the kernel on its relationship's snapshot, and over every run of registrations,
  configurations, commands and financial commands the store stays consistent across
  relationships, ledgers, histories and programs.
\<close>

section \<open>An executed command is a step of the kernel\<close>

definition forfeits :: "request_financials \<Rightarrow> bool" where
  "forfeits p \<longleftrightarrow> rf_settlement p = Some SettledRejected \<and> fc_collateral (rf_contract p) \<noteq> 0"

lemma payment_keeps_terms:
  assumes "rf_record_payment c p receipt = Ok (p', fx)" and "rf_inv c p"
  shows "rf_contract p' = rf_contract p"
  using assms(1)
proof (cases rule: rf_record_payment_cases)
  case (recorded operation nxt)
  then show ?thesis using rf_reconcile_frame(2) [OF recorded(4)] assms(2) by (simp add: rf_inv_def)
qed simp

lemma payment_keeps_forfeit:
  assumes "rf_record_payment c p receipt = Ok (p', fx)" and "rf_inv c p" and "forfeits p'"
  shows "forfeits p \<and> rf_capture p = rf_capture p' \<and> rf_contract p = rf_contract p'"
  using payment_keeps_terms [OF assms(1,2)] record_payment_settlement(1,3,4) [OF assms(1,2)] assms(3)
  by (cases "fe_capture_voided fx") (auto simp: forfeits_def)

lemma settle_forfeits:
  assumes "rf_settle p settlement now = Ok (p', fx)" and "rf_shape p" and "forfeits p'"
  shows "p' = p \<or> (\<exists>f\<in>set (fe_forfeitures fx). fo_id f = op_id (rf_capture p') \<and> fo_amount f = fc_collateral (rf_contract p'))"
proof -
  have "settlement = SettledRejected" using rf_settle_frame(5) [OF assms(1,2)] assms(3) by (simp add: forfeits_def)
  then show ?thesis
    using assms(1,3) by (auto simp: rf_settle_def forfeits_def Let_def split: option.splits if_splits)
qed

lemma move_forfeits:
  assumes "kernel_move c now ev k fx k'" and "money_agrees c k" and "bt_get (kk_payments k') i = Some p'" and "forfeits p'"
  shows "(\<exists>p. bt_get (kk_payments k) i = Some p \<and> forfeits p \<and> rf_capture p = rf_capture p' \<and> rf_contract p = rf_contract p')
     \<or> (\<exists>f\<in>set (fe_forfeitures fx). fo_id f = op_id (rf_capture p') \<and> fo_amount f = fc_collateral (rf_contract p'))"
  using assms(1)
proof cases
  case (create r capture contract p)
  then show ?thesis using assms(3,4) rf_new_Ok [OF create(4)] by (auto simp: forfeits_def split: if_splits)
next
  case (settle j r p settlement l' q h)
  have inv: "rf_inv c p" using assms(2) settle(3) by (simp add: money_agrees_def)
  show ?thesis
  proof (cases "i = j")
    case True
    then have "p' = q" using assms(3) settle(1) by simp
    then show ?thesis using settle_forfeits [OF settle(6)] inv assms(4) settle(3) True by (auto simp: rf_inv_def)
  qed (use assms(3,4) settle(1) in auto)
next
  case (void j r p preparation receipt q)
  have inv: "rf_inv c p" using assms(2) void(3) by (simp add: money_agrees_def)
  show ?thesis
    using payment_keeps_forfeit [OF void(6) inv] assms(3,4) void(1,3) by (cases "i = j") auto
next
  case (pay j p receipt q)
  have inv: "rf_inv c p" using assms(2) pay(2) by (simp add: money_agrees_def)
  show ?thesis
    using payment_keeps_forfeit [OF pay(3) inv] assms(3,4) pay(1,2) by (cases "i = j") auto
qed (use assms(3,4) in auto)

text \<open>The records of a relationship after a plan of the kernel, and what else the commit changes.\<close>

lemma plan_without_lane:
  assumes "kernel_plan c s (input, cx) = Ok (Some m)" and "sn_lane s = None"
  shows "tm_lane_revocation m = None"
  using plan_lane [OF assms(1)] assms(2) by (auto simp: lane_planned_def)

lemma engine_snapshot_simps [simp]:
  "sn_lane (engine_snapshot e h) = None" "sn_revision (engine_snapshot e h) = es_revision e"
  "sn_state (engine_snapshot e h) = es_protocol e" "sn_history (engine_snapshot e h) = h"
  "sn_payments (engine_snapshot e h) = es_payments e" "sn_messages (engine_snapshot e h) = es_messages e"
  "sn_ledger (engine_snapshot e h) = ls_view (es_ledger e)" "sn_complete (engine_snapshot e h)"
  by (simp_all add: engine_snapshot_def snapshot_complete_def)

lemma engine_context_simps [simp]:
  "cx_now (engine_context w e command now policy) = now"
  "cx_journal_position (engine_context w e command now policy) = es_next_position e"
  by (simp_all add: engine_context_def)

definition engine_input_of :: "store \<Rightarrow> engine_state \<Rightarrow> kernel_command \<Rightarrow> canonical_time \<Rightarrow> policy_snapshot
    \<Rightarrow> kernel_input \<times> transition_context" where
  "engine_input_of w e command now policy = (SignedCommand command, engine_context w e command now policy)"

lemma engine_execute_cases:
  assumes "engine_execute c json w rel command now policy = Ok (w', outcome)"
  obtains (replayed) e r where "bt_get (sto_relationships w) rel = Some e"
      "bt_get (es_idempotency e) (kc_idempotency_key command) = Some r"
      "map_option (cr_sha256 c) (json command) = Some (xr_fingerprint r)"
      "w' = w" "outcome = \<lparr>xo_transition = xr_transition r, xo_replayed = True\<rparr>"
  | (executed) e h m v ps p p' fingerprint where "bt_get (sto_relationships w) rel = Some e"
      "bt_get (es_idempotency e) (kc_idempotency_key command) = None"
      "bt_get (sto_histories w) (re_history (st_relationship (es_protocol e))) = Some h"
      "kernel_plan c (engine_snapshot e h) (engine_input_of w e command now policy) = Ok (Some m)"
      "view_apply (ls_view (es_ledger e)) (tm_ledger_batch m) = Ok v"
      "checked_add (es_revision e) 1 \<noteq> None" "checked_add (es_next_position e) 1 \<noteq> None"
      "bt_get (sto_programs w) (lv_unit (ls_view (es_ledger e))) = Some ps"
      "record_forfeitures (pst_program ps) (tm_forfeitures m) now = Ok p"
      "note_reversals p (tm_forfeiture_holds m) now = Ok p'"
      "map_option (cr_sha256 c) (json command) = Some fingerprint"
      "outcome = \<lparr>xo_transition = manifest_committed m (es_next_position e), xo_replayed = False\<rparr>"
      "w' = w\<lparr>sto_programs := bt_insert (lv_unit (ls_view (es_ledger e))) (ps\<lparr>pst_program := p'\<rparr>) (sto_programs w),
         sto_histories := bt_insert (hi_reference (tm_next_history m)) (tm_next_history m) (sto_histories w),
         sto_relationships := bt_insert rel (engine_committed e m \<lparr>ls_view = v\<rparr> (es_revision e + 1) (es_next_position e + 1)
            (kc_idempotency_key command)
            \<lparr>xr_fingerprint = fingerprint, xr_transition = manifest_committed m (es_next_position e)\<rparr>) (sto_relationships w)\<rparr>"
proof -
  obtain e fingerprint where e: "bt_get (sto_relationships w) rel = Some e"
    and fp: "map_option (cr_sha256 c) (json command) = Some fingerprint"
    using assms by (auto simp: engine_execute_def)
  show thesis
  proof (cases "bt_get (es_idempotency e) (kc_idempotency_key command)")
    case (Some r)
    then show thesis using assms e fp by (intro replayed [OF e Some]) (auto simp: engine_execute_def split: if_splits)
  next
    case None
    obtain h m v ps p p' where
      h: "bt_get (sto_histories w) (re_history (st_relationship (es_protocol e))) = Some h"
      and m: "transition c (engine_snapshot e h) command (engine_context w e command now policy) = Ok m"
      and rest: "checked_add (es_revision e) 1 \<noteq> None" "checked_add (es_next_position e) 1 \<noteq> None"
        "view_apply (ls_view (es_ledger e)) (tm_ledger_batch m) = Ok v"
        "bt_get (sto_programs w) (lv_unit (ls_view (es_ledger e))) = Some ps"
        "record_forfeitures (pst_program ps) (tm_forfeitures m) now = Ok p"
        "note_reversals p (tm_forfeiture_holds m) now = Ok p'"
      and out: "outcome = \<lparr>xo_transition = manifest_committed m (es_next_position e), xo_replayed = False\<rparr>"
      and w': "w' = w\<lparr>sto_programs := bt_insert (lv_unit (ls_view (es_ledger e))) (ps\<lparr>pst_program := p'\<rparr>) (sto_programs w),
         sto_histories := bt_insert (hi_reference (tm_next_history m)) (tm_next_history m) (sto_histories w),
         sto_relationships := bt_insert rel (engine_committed e m \<lparr>ls_view = v\<rparr> (es_revision e + 1) (es_next_position e + 1)
            (kc_idempotency_key command)
            \<lparr>xr_fingerprint = fingerprint, xr_transition = manifest_committed m (es_next_position e)\<rparr>) (sto_relationships w)\<rparr>"
      using assms e fp None
      by (auto simp: engine_execute_def Let_def ledger_apply_def checked_add_def split: if_splits)
    show thesis
      by (rule executed [OF e None h _ rest(3,1,2,4-6) fp out w']) (simp add: kernel_plan_def engine_input_of_def m)
  qed
qed

lemma executed_step:
  assumes "kernel_plan c (engine_snapshot e h) (engine_input_of w e command now policy) = Ok (Some m)"
    and "view_apply (ls_view (es_ledger e)) (tm_ledger_batch m) = Ok v"
  shows "kernel_step c (engine_snapshot e h) (engine_input_of w e command now policy)
     = Ok (engine_snapshot (engine_committed e m \<lparr>ls_view = v\<rparr> (es_revision e + 1) (es_next_position e + 1) key r) (tm_next_history m), Some m)"
proof -
  have "tm_lane_revocation m = None" using assms(1) unfolding engine_input_of_def by (rule plan_without_lane) simp
  then show ?thesis
    using assms by (simp add: kernel_step_def snapshot_next_def engine_snapshot_def snapshot_complete_def engine_committed_def)
qed

section \<open>A consistent store\<close>

text \<open>Every forfeited collateral has its lot in the program, for exactly its amount.\<close>

definition contributed :: "program \<Rightarrow> (request_id, request_financials) btmap \<Rightarrow> bool" where
  "contributed q payments \<longleftrightarrow>
     (\<forall>i p. bt_get payments i = Some p \<and> forfeits p \<longrightarrow>
        (\<exists>f. bt_get (lots q) (op_id (rf_capture p)) = Some f \<and> fo_amount (lot_source f) = fc_collateral (rf_contract p)))"

definition unit_of :: "engine_state \<Rightarrow> settlement_unit" where
  "unit_of e = lv_unit (ls_view (es_ledger e))"

definition history_of :: "engine_state \<Rightarrow> scoped_ref" where
  "history_of e = re_history (st_relationship (es_protocol e))"

definition relationship_ok :: "crypto \<Rightarrow> store \<Rightarrow> scoped_ref \<Rightarrow> engine_state \<Rightarrow> request_history \<Rightarrow> bool" where
  "relationship_ok c w rel e h \<longleftrightarrow>
     rk_reference (re_key (st_relationship (es_protocol e))) = rel
     \<and> kernel_inv c (engine_snapshot e h) \<and> well_kept (unit_of e) (engine_snapshot e h)
     \<and> timers_fit (es_schedules e) (st_requests (es_protocol e))
     \<and> (\<exists>ps. bt_get (sto_programs w) (unit_of e) = Some ps \<and> contributed (pst_program ps) (es_payments e))"

definition store_ok :: "crypto \<Rightarrow> store \<Rightarrow> bool" where
  "store_ok c w \<longleftrightarrow>
     (\<forall>rel e. bt_get (sto_relationships w) rel = Some e \<longrightarrow>
        (\<exists>h. bt_get (sto_histories w) (history_of e) = Some h \<and> relationship_ok c w rel e h))
     \<and> (\<forall>i h. bt_get (sto_histories w) i = Some h \<longrightarrow> hi_reference h = i)
     \<and> (\<forall>unit ps. bt_get (sto_programs w) unit = Some ps \<longrightarrow>
        program_inv c (pst_program ps) \<and> gp_unit (pst_program ps) = unit \<and> gp_scope (pst_program ps) = sto_scope w)"

lemma store_ok_relationship:
  "store_ok c w \<Longrightarrow> bt_get (sto_relationships w) rel = Some e \<Longrightarrow>
     \<exists>h. bt_get (sto_histories w) (history_of e) = Some h \<and> relationship_ok c w rel e h"
  by (simp add: store_ok_def)

lemma contributed_mono: "contributed q payments \<Longrightarrow> keeps_lots q q' \<Longrightarrow> contributed q' payments"
  unfolding contributed_def keeps_lots_def by metis

lemma contributed_step:
  assumes "kernel_move c now ev k fx k'" and "money_agrees c k" and "contributed q (kk_payments k)"
    and "keeps_lots q q'" and "\<forall>source\<in>set (fe_forfeitures fx). \<exists>f. bt_get (lots q') (fo_id source) = Some f \<and> lot_source f = source"
  shows "contributed q' (kk_payments k')"
  unfolding contributed_def
proof (intro allI impI, elim conjE)
  fix i p assume p: "bt_get (kk_payments k') i = Some p" "forfeits p"
  from move_forfeits [OF assms(1,2) p] show "\<exists>f. bt_get (lots q') (op_id (rf_capture p)) = Some f \<and> fo_amount (lot_source f) = fc_collateral (rf_contract p)"
  proof
    assume "\<exists>p0. bt_get (kk_payments k) i = Some p0 \<and> forfeits p0 \<and> rf_capture p0 = rf_capture p \<and> rf_contract p0 = rf_contract p"
    then obtain p0 where p0: "bt_get (kk_payments k) i = Some p0" "forfeits p0" "rf_capture p0 = rf_capture p" "rf_contract p0 = rf_contract p"
      by blast
    have "contributed q' (kk_payments k)" using contributed_mono [OF assms(3,4)] .
    then obtain f where "bt_get (lots q') (op_id (rf_capture p0)) = Some f" "fo_amount (lot_source f) = fc_collateral (rf_contract p0)"
      using p0(1,2) unfolding contributed_def by blast
    then show ?thesis using p0(3,4) by simp
  next
    assume "\<exists>f\<in>set (fe_forfeitures fx). fo_id f = op_id (rf_capture p) \<and> fo_amount f = fc_collateral (rf_contract p)"
    then obtain f where f: "f \<in> set (fe_forfeitures fx)" "fo_id f = op_id (rf_capture p)" "fo_amount f = fc_collateral (rf_contract p)"
      by blast
    then obtain g where "bt_get (lots q') (fo_id f) = Some g" "lot_source g = f" using assms(5) by blast
    then show ?thesis using f(2,3) by auto
  qed
qed

text \<open>What the invariant of a relationship depends on.\<close>

lemma kernel_inv_history: "kernel_inv c (engine_snapshot e h) = kernel_inv c (engine_snapshot e h')"
  by (simp add: kernel_inv_def money_agrees_def funds_def fun_eq_iff)

lemma well_kept_history:
  "hi_reference h' = hi_reference h \<Longrightarrow> hi_recipient h' = hi_recipient h \<Longrightarrow>
     well_kept unit (engine_snapshot e h) = well_kept unit (engine_snapshot e h')"
  by (simp add: well_kept_def request_in_def)

lemma relationship_ok_history:
  assumes "relationship_ok c w rel e h" and "hi_reference h' = hi_reference h" and "hi_recipient h' = hi_recipient h"
  shows "relationship_ok c w rel e h'"
  using assms(1) kernel_inv_history [of c e h h'] well_kept_history [OF assms(2,3)] by (simp add: relationship_ok_def)

text \<open>What every call keeps.\<close>

definition same_relationship :: "engine_state \<Rightarrow> engine_state \<Rightarrow> bool" where
  "same_relationship e e' \<longleftrightarrow>
     re_key (st_relationship (es_protocol e')) = re_key (st_relationship (es_protocol e)) \<and> history_of e' = history_of e
     \<and> (\<forall>k r. bt_get (es_idempotency e) k = Some r \<longrightarrow> bt_get (es_idempotency e') k = Some r)"

definition store_grows :: "store \<Rightarrow> store \<Rightarrow> bool" where
  "store_grows w w' \<longleftrightarrow>
     sto_scope w' = sto_scope w
     \<and> (\<forall>rel e. bt_get (sto_relationships w) rel = Some e \<longrightarrow>
          (\<exists>e'. bt_get (sto_relationships w') rel = Some e' \<and> same_relationship e e'))
     \<and> (\<forall>i h. bt_get (sto_histories w) i = Some h \<longrightarrow>
          (\<exists>h'. bt_get (sto_histories w') i = Some h' \<and> hi_earliest h \<le> hi_earliest h'
             \<and> hi_reference h' = hi_reference h \<and> hi_recipient h' = hi_recipient h))
     \<and> (\<forall>unit ps. bt_get (sto_programs w) unit = Some ps \<longrightarrow>
          (\<exists>ps'. bt_get (sto_programs w') unit = Some ps' \<and> keeps_lots (pst_program ps) (pst_program ps')))"

lemma same_relationship_refl [simp]: "same_relationship e e"
  by (simp add: same_relationship_def)

lemma store_grows_refl [simp]: "store_grows w w"
  by (simp add: store_grows_def)

lemma same_relationship_trans: "same_relationship e f \<Longrightarrow> same_relationship f g \<Longrightarrow> same_relationship e g"
  by (simp add: same_relationship_def)

lemma store_grows_trans:
  assumes uv: "store_grows u v" and vw: "store_grows v w"
  shows "store_grows u w"
  unfolding store_grows_def
proof (intro conjI allI impI)
  show "sto_scope w = sto_scope u" using uv vw by (simp add: store_grows_def)
next
  fix rel e assume "bt_get (sto_relationships u) rel = Some e"
  then obtain f where f: "bt_get (sto_relationships v) rel = Some f" "same_relationship e f"
    using uv unfolding store_grows_def by blast
  then obtain g where "bt_get (sto_relationships w) rel = Some g" "same_relationship f g"
    using vw unfolding store_grows_def by blast
  then show "\<exists>e'. bt_get (sto_relationships w) rel = Some e' \<and> same_relationship e e'"
    using f(2) same_relationship_trans by blast
next
  fix i h assume "bt_get (sto_histories u) i = Some h"
  then obtain h' :: request_history where h': "bt_get (sto_histories v) i = Some h'" "hi_earliest h \<le> hi_earliest h'"
      "hi_reference h' = hi_reference h" "hi_recipient h' = hi_recipient h"
    using uv unfolding store_grows_def by blast
  then obtain g :: request_history where "bt_get (sto_histories w) i = Some g" "hi_earliest h' \<le> hi_earliest g"
      "hi_reference g = hi_reference h'" "hi_recipient g = hi_recipient h'"
    using vw unfolding store_grows_def by blast
  then show "\<exists>h'. bt_get (sto_histories w) i = Some h' \<and> hi_earliest h \<le> hi_earliest h' \<and> hi_reference h' = hi_reference h
      \<and> hi_recipient h' = hi_recipient h"
    using h'(2-4) by (intro exI [of _ g]) (simp add: order_trans [of "hi_earliest h" "hi_earliest h'"])
next
  fix unit ps assume "bt_get (sto_programs u) unit = Some ps"
  then obtain q where q: "bt_get (sto_programs v) unit = Some q" "keeps_lots (pst_program ps) (pst_program q)"
    using uv unfolding store_grows_def by blast
  then obtain r where "bt_get (sto_programs w) unit = Some r" "keeps_lots (pst_program q) (pst_program r)"
    using vw unfolding store_grows_def by blast
  then show "\<exists>ps'. bt_get (sto_programs w) unit = Some ps' \<and> keeps_lots (pst_program ps) (pst_program ps')"
    using q(2) keeps_lots_trans by blast
qed

text \<open>The other relationships stay consistent when the store grows.\<close>

lemma relationship_ok_grows:
  assumes "relationship_ok c w rel e h" and "store_grows w w'" and "bt_get (sto_histories w) (history_of e) = Some h"
  shows "\<exists>h'. bt_get (sto_histories w') (history_of e) = Some h' \<and> relationship_ok c w' rel e h'"
proof -
  obtain h' where h': "bt_get (sto_histories w') (history_of e) = Some h'" "hi_reference h' = hi_reference h" "hi_recipient h' = hi_recipient h"
    using assms(2,3) unfolding store_grows_def by blast
  obtain ps where "bt_get (sto_programs w) (unit_of e) = Some ps" "contributed (pst_program ps) (es_payments e)"
    using assms(1) by (auto simp: relationship_ok_def)
  moreover then obtain ps' where "bt_get (sto_programs w') (unit_of e) = Some ps'" "keeps_lots (pst_program ps) (pst_program ps')"
    using assms(2) unfolding store_grows_def by blast
  ultimately have "relationship_ok c w' rel e h"
    using assms(1) contributed_mono unfolding relationship_ok_def by blast
  then show ?thesis using h' relationship_ok_history by blast
qed

section \<open>Every call keeps the store consistent\<close>

lemma execute_ok:
  assumes "engine_execute c json w rel command now policy = Ok (w', outcome)" and "store_ok c w"
  shows "store_ok c w' \<and> store_grows w w'"
  using assms(1)
proof (cases rule: engine_execute_cases)
  case (executed e h m v ps p p' fingerprint)
  let ?e = "engine_committed e m \<lparr>ls_view = v\<rparr> (es_revision e + 1) (es_next_position e + 1)
            (kc_idempotency_key command) \<lparr>xr_fingerprint = fingerprint, xr_transition = manifest_committed m (es_next_position e)\<rparr>"
  let ?h = "tm_next_history m" and ?s = "engine_snapshot e h"
  have ok: "relationship_ok c w rel e h" using assms(2) executed(1,3) by (force simp: store_ok_def history_of_def)
  note step = executed_step [OF executed(4,5), where key = "kc_idempotency_key command"
      and r = "\<lparr>xr_fingerprint = fingerprint, xr_transition = manifest_committed m (es_next_position e)\<rparr>"]
  note pl = kernel_plan_plans [OF executed(4) [unfolded engine_input_of_def]]
  obtain fx where fx: "kernel_move c now (es_next_position e) (snapshot_core ?s) fx (manifest_core m)"
    "tm_forfeitures m = fe_forfeitures fx" using pl by (auto simp: plans_def)
  have key: "re_key (st_relationship (es_protocol ?e)) = re_key (st_relationship (es_protocol e))" "history_of ?e = history_of e"
    using pl by (simp_all add: plans_def engine_committed_def history_of_def)
  have unit: "unit_of ?e = unit_of e"
    using view_apply_Ok(5) [OF executed(5)] by (simp add: unit_of_def engine_committed_def)
  have refs: "hi_reference h = history_of e" "hi_recipient h = rk_recipient (re_key (st_relationship (es_protocol e)))"
    using ok by (simp_all add: relationship_ok_def well_kept_def history_of_def)
  have hist: "hi_reference ?h = hi_reference h" "hi_recipient ?h = hi_recipient h" "hi_earliest h \<le> hi_earliest ?h"
    using move_history [OF fx(1)] by simp_all
  have lots: "keeps_lots (pst_program ps) p'"
    "\<forall>source\<in>set (fe_forfeitures fx). \<exists>f. bt_get (lots p') (fo_id source) = Some f \<and> lot_source f = source"
    using record_forfeitures_lots [OF executed(9)] note_reversals_lots [OF executed(10)]
    unfolding fx(2) keeps_lots_def by metis+
  have inv': "kernel_inv c (engine_snapshot ?e ?h)" "well_kept (unit_of ?e) (engine_snapshot ?e ?h)"
    using ok kernel_step_inv [OF _ step] kernel_step_well_kept [OF _ step [unfolded engine_input_of_def]] unit
    by (auto simp: relationship_ok_def)
  have timers: "timers_fit (es_schedules ?e) (st_requests (es_protocol ?e))"
    using plan_timers [OF executed(4) [unfolded engine_input_of_def]] ok by (simp add: relationship_ok_def engine_committed_def)
  have "money_agrees c (snapshot_core ?s)" "contributed (pst_program ps) (es_payments e)"
    using ok executed(8) by (auto simp: relationship_ok_def kernel_inv_def unit_of_def)
  then have paid: "contributed p' (es_payments ?e)"
    using contributed_step [OF fx(1) _ _ lots] by (simp add: engine_committed_def)
  have grows: "store_grows w w'"
    using executed(1,3,8,2) hist refs lots(1) key
    by (auto simp: executed(13) store_grows_def same_relationship_def history_of_def engine_committed_def)
  have mine: "relationship_ok c w' rel ?e ?h"
    using ok inv' timers paid key unit executed(8)
    by (simp add: relationship_ok_def executed(13) unit_of_def)
  have "\<exists>h. bt_get (sto_histories w') (history_of e2) = Some h \<and> relationship_ok c w' rel2 e2 h"
    if e2: "bt_get (sto_relationships w') rel2 = Some e2" for rel2 e2
  proof (cases "rel2 = rel")
    case True
    then have "e2 = ?e" using e2 by (simp add: executed(13))
    moreover have "bt_get (sto_histories w') (history_of ?e) = Some ?h"
      using hist(1) refs(1) key(2) by (simp add: executed(13))
    ultimately show ?thesis using mine True by auto
  next
    case False
    then have "bt_get (sto_relationships w) rel2 = Some e2" using e2 by (simp add: executed(13))
    then show ?thesis using assms(2) relationship_ok_grows [OF _ grows] by (force simp: store_ok_def)
  qed
  moreover have "program_inv c p'" "gp_unit p' = unit_of e" "gp_scope p' = sto_scope w"
    using assms(2) executed(8) record_forfeitures_inv [OF executed(9)] note_reversals_inv [OF executed(10)] lots(1)
    by (auto simp: store_ok_def keeps_lots_def unit_of_def)
  then have "program_inv c (pst_program qs) \<and> gp_unit (pst_program qs) = unit \<and> gp_scope (pst_program qs) = sto_scope w'"
    if "bt_get (sto_programs w') unit = Some qs" for unit qs
    using that assms(2) by (auto simp: executed(13) store_ok_def unit_of_def split: if_splits)
  moreover have "hi_reference h2 = i" if "bt_get (sto_histories w') i = Some h2" for i h2
    using that assms(2) by (auto simp: executed(13) store_ok_def split: if_splits)
  ultimately show ?thesis using grows by (simp add: store_ok_def)
qed (use assms(2) in simp)

lemma configured_ok:
  "configure_request_pricing w policy = Ok w' \<Longrightarrow> store_ok c w \<Longrightarrow> store_ok c w' \<and> store_grows w w'"
  "configure_request_classes w classes = Ok w' \<Longrightarrow> store_ok c w \<Longrightarrow> store_ok c w' \<and> store_grows w w'"
  by (auto simp: configure_request_pricing_def configure_request_classes_def store_ok_def store_grows_def relationship_ok_def)

text \<open>A store with the same relationships and histories whose programs have grown.\<close>

lemma programs_ok:
  assumes "store_ok c w" and "store_grows w w'" and "sto_relationships w' = sto_relationships w"
    and "sto_histories w' = sto_histories w"
    and "\<And>unit ps. bt_get (sto_programs w') unit = Some ps \<Longrightarrow>
      program_inv c (pst_program ps) \<and> gp_unit (pst_program ps) = unit \<and> gp_scope (pst_program ps) = sto_scope w"
  shows "store_ok c w' \<and> store_grows w w'"
proof -
  have "\<exists>h. bt_get (sto_histories w') (history_of e) = Some h \<and> relationship_ok c w' rel e h"
    if e: "bt_get (sto_relationships w') rel = Some e" for rel e
  proof -
    obtain h where "bt_get (sto_histories w) (history_of e) = Some h" "relationship_ok c w rel e h"
      using e assms(3) store_ok_relationship [OF assms(1)] by force
    then show ?thesis using relationship_ok_grows [OF _ assms(2)] by blast
  qed
  moreover have "sto_scope w' = sto_scope w" using assms(2) by (simp add: store_grows_def)
  ultimately show ?thesis using assms by (simp add: store_ok_def)
qed

lemma financial_ok:
  assumes "engine_financial c json w rel s key now = Ok (w', outcome)" and "store_ok c w"
  shows "store_ok c w' \<and> store_grows w w'"
proof -
  obtain e ps where e: "bt_get (sto_relationships w) rel = Some e"
    and ps: "bt_get (sto_programs w) (lv_unit (ls_view (es_ledger e))) = Some ps"
    using assms(1) by (auto simp: engine_financial_def Let_def)
  then have cases: "w' = w \<or> (\<exists>q out. program_apply c (pst_program ps) (sgc_command s) now = Ok (q, out)
      \<and> w' = w\<lparr>sto_programs := bt_insert (lv_unit (ls_view (es_ledger e)))
           \<lparr>pst_program = q, pst_commands = bt_insert (sgc_idempotency_key s) (s, out) (pst_commands ps)\<rparr> (sto_programs w)\<rparr>)"
    using assms(1) by (cases "bt_get (pst_commands ps) (sgc_idempotency_key s)")
      (auto simp: engine_financial_def Let_def split: prod.splits if_splits)
  from cases show ?thesis
  proof
    assume "\<exists>q out. program_apply c (pst_program ps) (sgc_command s) now = Ok (q, out)
      \<and> w' = w\<lparr>sto_programs := bt_insert (lv_unit (ls_view (es_ledger e)))
           \<lparr>pst_program = q, pst_commands = bt_insert (sgc_idempotency_key s) (s, out) (pst_commands ps)\<rparr> (sto_programs w)\<rparr>"
    then obtain q out where q: "program_apply c (pst_program ps) (sgc_command s) now = Ok (q, out)"
      and w': "w' = w\<lparr>sto_programs := bt_insert (lv_unit (ls_view (es_ledger e)))
           \<lparr>pst_program = q, pst_commands = bt_insert (sgc_idempotency_key s) (s, out) (pst_commands ps)\<rparr> (sto_programs w)\<rparr>"
      by blast
    note lots = program_apply_lots [OF q]
    have inv: "program_inv c q" "gp_unit q = lv_unit (ls_view (es_ledger e))" "gp_scope q = sto_scope w"
      using program_apply_inv [OF q] lots assms(2) ps by (auto simp: store_ok_def keeps_lots_def)
    have "store_grows w w'" using lots ps by (auto simp: w' store_grows_def)
    then show ?thesis
      by (rule programs_ok [OF assms(2)]) (use inv assms(2) in \<open>auto simp: w' store_ok_def split: if_splits\<close>)
  qed (use assms(2) in simp)
qed

lemma fresh_snapshot:
  "engine_snapshot (fresh_engine_state (initial_scoped relationship history sender recipient now) unit)
     (history_new history recipient now) = registered relationship history sender recipient now unit"
  by (simp add: engine_snapshot_def fresh_engine_state_def registered_def)

lemma fresh_relationship_ok:
  assumes "hi_reference h = history" and "hi_recipient h = recipient"
    and "bt_get (sto_programs w) unit \<noteq> None"
  shows "relationship_ok c w relationship (fresh_engine_state (initial_scoped relationship history sender recipient now) unit) h"
proof -
  let ?e = "fresh_engine_state (initial_scoped relationship history sender recipient now) unit"
  let ?h = "history_new history recipient now"
  have h: "hi_reference h = hi_reference ?h" "hi_recipient h = hi_recipient ?h"
    using assms(1,2) by (simp_all add: history_new_def)
  have "kernel_inv c (engine_snapshot ?e ?h)" "well_kept unit (engine_snapshot ?e ?h)"
    by (simp_all only: fresh_snapshot registered_inv registered_kept)
  then have "kernel_inv c (engine_snapshot ?e h)" "well_kept unit (engine_snapshot ?e h)"
    using kernel_inv_history [of c ?e h ?h] well_kept_history [of ?h h unit ?e] h by simp_all
  then show ?thesis
    using assms(3) by (auto simp: relationship_ok_def unit_of_def fresh_engine_state_def ledger_new_def view_from_balances_def
        initial_scoped_def contributed_def timers_fit_def due_def is_request_task_def split: schedule_task.splits)
qed

lemma register_ok:
  assumes "store_register w (initial_scoped relationship history sender recipient now) unit = Ok w'" and "store_ok c w"
  shows "store_ok c w' \<and> store_grows w w'"
proof -
  let ?s = "initial_scoped relationship history sender recipient now"
  let ?h = "case bt_get (sto_histories w) history of Some h \<Rightarrow> h | None \<Rightarrow> history_new history recipient now"
  have s: "re_key (st_relationship ?s) = \<lparr>rk_reference = relationship, rk_sender = sender, rk_recipient = recipient\<rparr>"
    "re_history (st_relationship ?s) = history" "re_changed_at (st_relationship ?s) = now"
    by (simp_all add: initial_scoped_def)
  have "bt_get (sto_relationships w) relationship = None \<and> hi_recipient ?h = recipient
    \<and> w' = w\<lparr>sto_histories := bt_insert history ?h (sto_histories w),
              sto_programs := (if bt_has (sto_programs w) unit then sto_programs w
                else bt_insert unit \<lparr>pst_program = program_new (sto_scope w) unit, pst_commands = bt_empty\<rparr> (sto_programs w)),
              sto_relationships := bt_insert relationship (fresh_engine_state ?s unit) (sto_relationships w)\<rparr>"
    using assms(1) by (cases "bt_get (sto_histories w) history") (simp_all add: store_register_def Let_def s bt_has_def)
  then have fresh: "bt_get (sto_relationships w) relationship = None" and owner: "hi_recipient ?h = recipient"
    and w': "w' = w\<lparr>sto_histories := bt_insert history ?h (sto_histories w),
              sto_programs := (if bt_has (sto_programs w) unit then sto_programs w
                else bt_insert unit \<lparr>pst_program = program_new (sto_scope w) unit, pst_commands = bt_empty\<rparr> (sto_programs w)),
              sto_relationships := bt_insert relationship (fresh_engine_state ?s unit) (sto_relationships w)\<rparr>"
    by blast+
  have ref: "hi_reference ?h = history"
    using assms(2) by (auto simp: store_ok_def history_new_def split: option.split)
  have programs: "bt_get (sto_programs w') u = Some ps \<Longrightarrow>
      bt_get (sto_programs w) u = Some ps \<or> u = unit \<and> pst_program ps = program_new (sto_scope w) unit" for u ps
    by (auto simp: w' split: if_splits)
  have old: "bt_get (sto_programs w) u = Some ps \<Longrightarrow> bt_get (sto_programs w') u = Some ps" for u ps
    by (auto simp: w' bt_has_def)
  have histories: "\<exists>h'. bt_get (sto_histories w') i = Some h' \<and> hi_earliest h \<le> hi_earliest h' \<and> hi_reference h' = hi_reference h
      \<and> hi_recipient h' = hi_recipient h" if "bt_get (sto_histories w) i = Some h" for i h
    using that by (auto simp: w')
  have grows: "store_grows w w'"
    unfolding store_grows_def
  proof (intro conjI allI impI)
    fix rel e assume "bt_get (sto_relationships w) rel = Some e"
    then show "\<exists>e'. bt_get (sto_relationships w') rel = Some e' \<and> same_relationship e e'"
      using fresh by (auto simp: w')
  qed (use histories old in \<open>force simp: w'\<close>)+
  have "\<exists>h. bt_get (sto_histories w') (history_of e) = Some h \<and> relationship_ok c w' rel e h"
    if e: "bt_get (sto_relationships w') rel = Some e" for rel e
  proof (cases "rel = relationship")
    case True
    then have e': "e = fresh_engine_state ?s unit" using e by (simp add: w')
    have "relationship_ok c w' relationship e ?h"
      unfolding e' by (rule fresh_relationship_ok [OF ref owner]) (auto simp: w' bt_has_def)
    moreover have "history_of e = history" by (simp add: e' history_of_def fresh_engine_state_def s)
    ultimately show ?thesis using True by (auto simp: w')
  next
    case False
    then have "bt_get (sto_relationships w) rel = Some e" using e by (simp add: w')
    then obtain h where "bt_get (sto_histories w) (history_of e) = Some h" "relationship_ok c w rel e h"
      using store_ok_relationship [OF assms(2)] by force
    then show ?thesis using relationship_ok_grows [OF _ grows] by blast
  qed
  moreover have "hi_reference h2 = i" if "bt_get (sto_histories w') i = Some h2" for i h2
    using that assms(2) ref by (cases "i = history") (auto simp: w' store_ok_def)
  moreover have "program_inv c (pst_program ps) \<and> gp_unit (pst_program ps) = u \<and> gp_scope (pst_program ps) = sto_scope w'"
    if "bt_get (sto_programs w') u = Some ps" for u ps
    using programs [OF that] assms(2) program_new_inv [of c "sto_scope w" unit]
    by (auto simp: store_ok_def w' program_new_def)
  ultimately show ?thesis using grows by (simp add: store_ok_def)
qed

lemma engine_step_ok:
  "engine_step c json json' w input = Ok (w', out) \<Longrightarrow> store_ok c w \<Longrightarrow> store_ok c w' \<and> store_grows w w'"
  by (cases input) (auto simp: engine_step_def dest: register_ok configured_ok execute_ok financial_ok)

lemma store_new_ok: "store_ok c (store_new scope)"
  by (simp add: store_ok_def store_new_def)

text \<open>The laws of a run: a consistent store stays consistent, and only grows.\<close>

interpretation engine: invariant_machine "engine_step c json json'" "\<lambda>w. store_ok c w \<and> store_grows w0 w"
  by unfold_locales (blast dest: engine_step_ok intro: store_grows_trans)

lemma engine_reachable:
  "run_machine (engine_step c json json') (store_new scope) xs = (w, outs) \<Longrightarrow> store_ok c w"
  using engine.run_inv [of c "store_new scope" "store_new scope"] store_new_ok by fastforce

lemma engine_later:
  "run_machine (engine_step c json json') w xs = (w', outs) \<Longrightarrow> store_ok c w \<Longrightarrow> store_ok c w' \<and> store_grows w w'"
  using engine.run_inv [of c w w] by fastforce

section \<open>What the runs keep\<close>

text \<open>
  C14: The store is consistent across its tables.  After any run of registrations, configurations,
  signed commands and financial commands, in whatever order they reach whichever relationships,
  every relationship's requests agree with its financial records, every balance of its ledger is
  the sum of what those records hold, its timers are exactly those of its waiting requests, and
  every collateral forfeited by a rejection is a contribution of the program of the ledger's
  unit, under the capture's identifier and for exactly the collateral.
\<close>

theorem engine_consistent:
  assumes "run_machine (engine_step c json json') (store_new scope) xs = (w, outs)"
    and "bt_get (sto_relationships w) relationship = Some e"
  shows "(\<forall>i r. bt_get (st_requests (es_protocol e)) i = Some r \<longrightarrow>
        (\<exists>p. bt_get (es_payments e) i = Some p \<and> rf_restore c p = Ok p
           \<and> rf_settlement p = lc_settlement (rq_lifecycle r)))
     \<and> (\<forall>a. signed_balance (ls_view (es_ledger e)) a = sum_list (map (\<lambda>p. rf_level p a) (bt_values (es_payments e))))
     \<and> timers_fit (es_schedules e) (st_requests (es_protocol e))
     \<and> (\<exists>ps. bt_get (sto_programs w) (lv_unit (ls_view (es_ledger e))) = Some ps
          \<and> (\<forall>i p. bt_get (es_payments e) i = Some p \<and> rf_settlement p = Some SettledRejected
               \<and> fc_collateral (rf_contract p) \<noteq> 0 \<longrightarrow>
             (\<exists>f. bt_get (lots (pst_program ps)) (op_id (rf_capture p)) = Some f
                \<and> fo_amount (lot_source f) = fc_collateral (rf_contract p))))"
proof -
  obtain h where ok: "relationship_ok c w relationship e h"
    using store_ok_relationship [OF engine_reachable [OF assms(1)] assms(2)] by blast
  then have m: "money_agrees c (snapshot_core (engine_snapshot e h))" by (simp add: relationship_ok_def kernel_inv_def)
  have "\<exists>p. bt_get (es_payments e) i = Some p \<and> rf_restore c p = Ok p \<and> rf_settlement p = lc_settlement (rq_lifecycle r)"
    if "bt_get (st_requests (es_protocol e)) i = Some r" for i r
  proof -
    obtain p where p: "bt_get (es_payments e) i = Some p" "agrees r p"
      using m \<open>bt_get (st_requests (es_protocol e)) i = Some r\<close> by (force simp: money_agrees_def)
    moreover from p have "rf_inv c p" using m by (auto simp: money_agrees_def)
    then have "rf_restore c p = Ok p" by (rule rf_restore_inv)
    ultimately show ?thesis by (auto simp: agrees_def)
  qed
  moreover have "signed_balance (ls_view (es_ledger e)) a = sum_list (map (\<lambda>p. rf_level p a) (bt_values (es_payments e)))" for a
    using ok by (simp add: relationship_ok_def kernel_inv_def funds_def fun_eq_iff)
  moreover have "timers_fit (es_schedules e) (st_requests (es_protocol e))"
    using ok by (simp add: relationship_ok_def)
  moreover have "\<exists>ps. bt_get (sto_programs w) (lv_unit (ls_view (es_ledger e))) = Some ps \<and> contributed (pst_program ps) (es_payments e)"
    using ok by (simp add: relationship_ok_def unit_of_def)
  ultimately show ?thesis unfolding contributed_def forfeits_def by blast
qed

text \<open>A command that takes a request of a relationship to its recipient.\<close>

definition engine_submits :: "store \<Rightarrow> store \<Rightarrow> scoped_ref \<Rightarrow> request_id \<Rightarrow> relationship_request \<Rightarrow> bool" where
  "engine_submits w w' relationship i r \<longleftrightarrow>
     (\<exists>e e' r'. bt_get (sto_relationships w) relationship = Some e \<and> bt_get (sto_relationships w') relationship = Some e'
        \<and> bt_get (st_requests (es_protocol e)) i = Some r \<and> is_preparing_submission (rq_lifecycle r)
        \<and> bt_get (st_requests (es_protocol e')) i = Some r' \<and> is_awaiting_recipient_decision (rq_lifecycle r'))"

lemma submission_history:
  assumes "engine_execute c json w relationship command now policy = Ok (w', outcome)"
    and "engine_submits w w' relationship i r" and "store_ok c w"
  shows "\<exists>e h h'. bt_get (sto_relationships w) relationship = Some e
     \<and> bt_get (sto_histories w) (history_of e) = Some h \<and> bt_get (sto_histories w') (history_of e) = Some h'
     \<and> hi_earliest h \<le> now \<and> unat now + unat (qt_next_request_backoff (rq_terms r)) \<le> unat (hi_earliest h')"
  using assms(1)
proof (cases rule: engine_execute_cases)
  case (replayed e r')
  then show ?thesis using assms(2) by (auto simp: engine_submits_def is_preparing_iff is_awaiting_iff)
next
  case (executed e h m v ps p p' fingerprint)
  let ?e = "engine_committed e m \<lparr>ls_view = v\<rparr> (es_revision e + 1) (es_next_position e + 1)
            (kc_idempotency_key command) \<lparr>xr_fingerprint = fingerprint, xr_transition = manifest_committed m (es_next_position e)\<rparr>"
  let ?h = "tm_next_history m"
  note step = executed_step [OF executed(4,5), where key = "kc_idempotency_key command"
      and r = "\<lparr>xr_fingerprint = fingerprint, xr_transition = manifest_committed m (es_next_position e)\<rparr>"]
  have "submitted_between (engine_snapshot e h) (engine_snapshot ?e ?h) i r"
    using assms(2) executed(1) by (auto simp: engine_submits_def submitted_between_def request_in_def executed(13))
  note sub = step_submits [OF step [unfolded engine_input_of_def] this]
  obtain fx where fx: "kernel_move c now (es_next_position e) (snapshot_core (engine_snapshot e h)) fx (manifest_core m)"
    using kernel_plan_plans [OF executed(4) [unfolded engine_input_of_def]] by (auto simp: plans_def)
  have "hi_reference h = history_of e"
    using executed(3) assms(3) by (simp add: store_ok_def history_of_def)
  then have "hi_reference ?h = history_of e" using move_history [OF fx] by simp
  then have "bt_get (sto_histories w') (history_of e) = Some ?h" by (simp add: executed(13))
  then show ?thesis using sub executed(1,3) by (simp add: history_of_def)
qed

text \<open>
  C5: Relationships that share a history share their waiting time.  Between any two requests
  that reach a recipient through the engine, of the same or of different relationships with the
  same request history, at least the backoff passes that the first one's quote promised, whatever
  runs in between.
\<close>

theorem shared_waiting_time:
  assumes "run_machine (engine_step c json json') (store_new scope) ws = (w, os)"
    and "engine_execute c json w rel1 command now policy = Ok (w1, out1)" and "engine_submits w w1 rel1 i r"
    and "run_machine (engine_step c json json') w1 xs = (w2, outs)"
    and "engine_execute c json w2 rel2 command2 now2 policy2 = Ok (w3, out2)" and "engine_submits w2 w3 rel2 j q"
    and "map_option (\<lambda>e. re_history (st_relationship (es_protocol e))) (bt_get (sto_relationships w) rel1)
       = map_option (\<lambda>e. re_history (st_relationship (es_protocol e))) (bt_get (sto_relationships w2) rel2)"
  shows "unat now + unat (qt_next_request_backoff (rq_terms r)) \<le> unat now2"
proof -
  have ok: "store_ok c w" "store_ok c w1" "store_ok c w2" "store_grows w1 w2"
    using engine_reachable [OF assms(1)] execute_ok [OF assms(2)] engine_later [OF assms(4)] by blast+
  obtain e h1 where e: "bt_get (sto_relationships w) rel1 = Some e"
    "bt_get (sto_histories w1) (history_of e) = Some h1"
    "unat now + unat (qt_next_request_backoff (rq_terms r)) \<le> unat (hi_earliest h1)"
    using submission_history [OF assms(2,3) ok(1)] by blast
  obtain e2 h2 where e2: "bt_get (sto_relationships w2) rel2 = Some e2"
    "bt_get (sto_histories w2) (history_of e2) = Some h2" "hi_earliest h2 \<le> now2"
    using submission_history [OF assms(5,6) ok(3)] by blast
  have "history_of e2 = history_of e" using assms(7) e(1) e2(1) by (simp add: history_of_def)
  moreover obtain h1' where "bt_get (sto_histories w2) (history_of e) = Some h1'" "hi_earliest h1 \<le> hi_earliest h1'"
    using ok(4) e(2) unfolding store_grows_def by blast
  ultimately have "hi_earliest h1 \<le> hi_earliest h2" using e2(2) by simp
  then show ?thesis using e(3) e2(3) by (simp add: word_le_nat_alt)
qed

text \<open>
  C32: A command commits once.  Once the engine has committed a command, repeating it at any later
  time and under any policy of the store's scope returns the recorded transition, marked as a
  replay, and changes nothing; and another command under the same idempotency key is refused as
  a conflict.
\<close>

theorem commands_execute_once:
  assumes "run_machine (engine_step c json json') (store_new scope) ws = (w, os)"
    and "engine_execute c json w relationship command now policy = Ok (w1, out)"
    and "run_machine (engine_step c json json') w1 xs = (w2, outs)"
    and "ft_scope (ps_financial policy2) = scope"
  shows "engine_execute c json w2 relationship command now2 policy2
       = Ok (w2, \<lparr>xo_transition = xo_transition out, xo_replayed = True\<rparr>)
     \<and> (kc_idempotency_key other = kc_idempotency_key command \<and> json other \<noteq> None
        \<and> map_option (cr_sha256 c) (json other) \<noteq> map_option (cr_sha256 c) (json command) \<longrightarrow>
        engine_execute c json w2 relationship other now2 policy2 = Err EngDuplicateConflict)"
proof -
  have ok: "store_ok c w1" "store_grows w1 w2" "sto_scope w = scope" "sto_scope w1 = sto_scope w"
    using engine_reachable [OF assms(1)] execute_ok [OF assms(2)] engine_later [OF assms(3)]
      engine_later [OF assms(1) store_new_ok] by (auto simp: store_grows_def store_new_def)
  have "\<exists>e r. bt_get (sto_relationships w1) relationship = Some e \<and> bt_get (es_idempotency e) (kc_idempotency_key command) = Some r
     \<and> map_option (cr_sha256 c) (json command) = Some (xr_fingerprint r) \<and> xr_transition r = xo_transition out"
    using assms(2) by (cases rule: engine_execute_cases) (auto simp: engine_committed_def)
  then obtain e r where e: "bt_get (sto_relationships w1) relationship = Some e"
    "bt_get (es_idempotency e) (kc_idempotency_key command) = Some r"
    "map_option (cr_sha256 c) (json command) = Some (xr_fingerprint r)" "xr_transition r = xo_transition out" by blast
  obtain e2 where "bt_get (sto_relationships w2) relationship = Some e2" "same_relationship e e2"
    using ok(2) e(1) unfolding store_grows_def by blast
  moreover have "sto_scope w2 = scope" using ok by (simp add: store_grows_def)
  ultimately show ?thesis
    using e(2-4) assms(4) by (auto simp: engine_execute_def same_relationship_def)
qed

end
