(* ===== verification/Engine_Samples.thy ===== *)
theory Engine_Samples
  imports Engine_Runs Kernel_Samples
begin

text \<open>
  A store in use: two senders with one request history write to the same recipient, and the
  properties of the engine applied to what happens.
\<close>

section \<open>Scripts\<close>

definition sample_json :: "kernel_command \<Rightarrow> bytes option" where
  "sample_json k = Some [ucast (kc_idempotency_key k)]"

definition sample_ref :: "bytes32 \<Rightarrow> scoped_ref" where
  "sample_ref v = \<lparr>sr_version = 1, sr_bytes = v\<rparr>"

definition sample_engine :: "store \<Rightarrow> engine_input \<Rightarrow> (store \<times> execution_outcome option, unit engine_error) res" where
  "sample_engine = engine_step sample_crypto sample_json (\<lambda>_. None)"

definition given :: "scoped_ref \<Rightarrow> actor_ref \<Rightarrow> idempotency_key \<Rightarrow> protocol_command \<Rightarrow> canonical_time \<Rightarrow> engine_input" where
  "given rel actor key x now =
     EngExecute rel \<lparr>kc_command = x, kc_actor = actor, kc_key = 1, kc_idempotency_key = key\<rparr> now sample_policy"

definition of_relationship :: "store \<Rightarrow> scoped_ref \<Rightarrow> engine_state" where
  "of_relationship w rel = the (bt_get (sto_relationships w) rel)"

text \<open>A request of one sender: quote, creation, payment and submission at consecutive times.\<close>

definition asks :: "scoped_ref \<Rightarrow> protocol_identity \<Rightarrow> idempotency_key \<Rightarrow> canonical_time \<Rightarrow> (store \<Rightarrow> engine_input) list" where
  "asks rel sender key now =
     [\<lambda>w. given rel (ActSender sender) key (IssueRequestTerms (NativeRoute 1) 1 4 6 None) now,
      \<lambda>w. given rel (ActSender sender) (key + 1)
        (CreateRequest 5 30 31 (the (bt_get (st_quotes (es_protocol (of_relationship w rel))) 6))) (now + 1),
      \<lambda>w. given rel (ActProvider 2) (key + 2)
        (RecordPayment 30 (sample_receipt (ucast now + 3)
           (rf_capture (the (bt_get (es_payments (of_relationship w rel)) 30))) OutSettled)) (now + 2)]"

definition submission :: "protocol_identity \<Rightarrow> idempotency_key \<Rightarrow> kernel_command" where
  "submission sender key =
     \<lparr>kc_command = SubmitRequestToRecipient \<lparr>si_request = 30, si_expected_version = 0, si_content = 3,
        si_delivery = 4, si_declaration = 5, si_valid_until = 1000\<rparr>,
      kc_actor = ActSender sender, kc_key = 1, kc_idempotency_key = key\<rparr>"

definition decides :: "scoped_ref \<Rightarrow> protocol_command \<Rightarrow> canonical_time \<Rightarrow> store \<Rightarrow> engine_input" where
  "decides rel x now w = given rel (ActRecipient 20) 5 x now"

definition set_up :: "(store \<Rightarrow> engine_input) list" where
  "set_up =
     [\<lambda>w. EngRegister (sample_ref 1) (sample_ref 2) 10 20 0 1, \<lambda>w. EngRegister (sample_ref 3) (sample_ref 2) 11 20 0 1,
      \<lambda>w. EngPricing sample_pricing, \<lambda>w. EngClasses sample_classes]"

fun enacts :: "store \<Rightarrow> (store \<Rightarrow> engine_input) list \<Rightarrow> store option" where
  "enacts w [] = Some w"
| "enacts w (f # fs) = (case sample_engine w (f w) of Ok (v, _) \<Rightarrow> enacts v fs | _ \<Rightarrow> None)"

lemma enacts_run:
  "enacts w fs = Some v \<Longrightarrow> \<exists>xs outs. run_machine sample_engine w xs = (v, outs)"
proof (induction fs arbitrary: w)
  case Nil
  then have "run_machine sample_engine w [] = (v, [])" by simp
  then show ?case by blast
next
  case (Cons f fs)
  then obtain u out where u: "sample_engine w (f w) = Ok (u, out)" "enacts u fs = Some v"
    by (auto split: res.splits)
  with Cons.IH obtain xs outs where "run_machine sample_engine u xs = (v, outs)" by blast
  with u(1) have "run_machine sample_engine w (f w # xs) = (v, out # outs)" by simp
  then show ?case by blast
qed

lemmas engine_defs = sample_engine_def engine_step_def sample_json_def sample_ref_def given_def of_relationship_def asks_def
  submission_def decides_def set_up_def store_new_def store_register_def configure_request_pricing_def configure_request_classes_def
  fresh_engine_state_def program_new_def records_default_def policy_permits_def quotable_def collateral_in_bounds_def
  engine_execute_def engine_snapshot_def engine_context_def harness_price_def ledger_apply_def engine_committed_def
  less_scoped_ref_ext_def less_eq_scoped_ref_ext_def pricing_resolve_def policy_quote_def sample_pricing_def sample_classes_def
  sample_class_def rc_id_def manifest_committed_def apply_schedule_changes_def

section \<open>The properties at a concrete store\<close>

definition sample_paid :: "store option" where
  "sample_paid = enacts (store_new sample_scope) (set_up @ asks (sample_ref 1) 10 1 0)"

definition sample_executes :: "store \<Rightarrow> scoped_ref \<Rightarrow> kernel_command \<Rightarrow> canonical_time \<Rightarrow> (store \<times> execution_outcome, unit engine_error) res" where
  "sample_executes w rel command now = engine_execute sample_crypto sample_json w rel command now sample_policy"

lemma sample_waiting:
  "\<exists>w w1 out1 w2 w3 out2 r q.
     enacts (store_new sample_scope) (set_up @ asks (sample_ref 1) 10 1 0) = Some w
     \<and> sample_executes w (sample_ref 1) (submission 10 4) 3 = Ok (w1, out1)
     \<and> engine_submits w w1 (sample_ref 1) 30 r \<and> qt_next_request_backoff (rq_terms r) = 5
     \<and> enacts w1 (decides (sample_ref 1) (AcceptRelationship 0) 4 # asks (sample_ref 3) 11 1 8) = Some w2
     \<and> sample_executes w2 (sample_ref 3) (submission 11 4) 11 = Ok (w3, out2)
     \<and> engine_submits w2 w3 (sample_ref 3) 30 q
     \<and> map_option (\<lambda>e. re_history (st_relationship (es_protocol e))) (bt_get (sto_relationships w) (sample_ref 1))
        = map_option (\<lambda>e. re_history (st_relationship (es_protocol e))) (bt_get (sto_relationships w2) (sample_ref 3))"
  by (simp add: engine_defs run_simps engine_submits_def sample_executes_def cong: kernel_lazily engine_input.case_cong_weak option.case_cong_weak)

theorem shared_waiting_time_witness:
  "\<exists>w w1 out1 r. enacts (store_new sample_scope) (set_up @ asks (sample_ref 1) 10 1 0) = Some w
     \<and> sample_executes w (sample_ref 1) (submission 10 4) 3 = Ok (w1, out1) \<and> engine_submits w w1 (sample_ref 1) 30 r
     \<and> unat (3 :: canonical_time) + unat (qt_next_request_backoff (rq_terms r)) \<le> unat (11 :: canonical_time)"
proof -
  obtain w w1 out1 w2 w3 out2 r q where a: "enacts (store_new sample_scope) (set_up @ asks (sample_ref 1) 10 1 0) = Some w"
    "sample_executes w (sample_ref 1) (submission 10 4) 3 = Ok (w1, out1)" "engine_submits w w1 (sample_ref 1) 30 r"
    and b: "enacts w1 (decides (sample_ref 1) (AcceptRelationship 0) 4 # asks (sample_ref 3) 11 1 8) = Some w2"
    and d: "sample_executes w2 (sample_ref 3) (submission 11 4) 11 = Ok (w3, out2)" "engine_submits w2 w3 (sample_ref 3) 30 q"
    and h: "map_option (\<lambda>e. re_history (st_relationship (es_protocol e))) (bt_get (sto_relationships w) (sample_ref 1))
        = map_option (\<lambda>e. re_history (st_relationship (es_protocol e))) (bt_get (sto_relationships w2) (sample_ref 3))"
    using sample_waiting by blast
  obtain xs outs where xs: "run_machine sample_engine (store_new sample_scope) xs = (w, outs)" using enacts_run [OF a(1)] by blast
  obtain ys outs' where ys: "run_machine sample_engine w1 ys = (w2, outs')" using enacts_run [OF b] by blast
  from shared_waiting_time [OF xs [unfolded sample_engine_def] a(2) [unfolded sample_executes_def] a(3)
      ys [unfolded sample_engine_def] d(1) [unfolded sample_executes_def] d(2) h] a show ?thesis by blast
qed

lemma sample_replay:
  "\<exists>w w1 out w2.
     enacts (store_new sample_scope) (set_up @ asks (sample_ref 1) 10 1 0) = Some w
     \<and> sample_executes w (sample_ref 1) (submission 10 4) 3 = Ok (w1, out)
     \<and> enacts w1 [decides (sample_ref 1) (AcceptRelationship 0) 4] = Some w2"
  by (simp add: engine_defs run_simps sample_executes_def cong: kernel_lazily engine_input.case_cong_weak option.case_cong_weak)

theorem commands_execute_once_witness:
  "\<exists>w w1 out w2.
     enacts (store_new sample_scope) (set_up @ asks (sample_ref 1) 10 1 0) = Some w
     \<and> sample_executes w (sample_ref 1) (submission 10 4) 3 = Ok (w1, out)
     \<and> enacts w1 [decides (sample_ref 1) (AcceptRelationship 0) 4] = Some w2
     \<and> sample_executes w2 (sample_ref 1) (submission 10 4) 90 = Ok (w2, \<lparr>xo_transition = xo_transition out, xo_replayed = True\<rparr>)"
proof -
  obtain w w1 out w2 where a: "enacts (store_new sample_scope) (set_up @ asks (sample_ref 1) 10 1 0) = Some w"
    and b: "sample_executes w (sample_ref 1) (submission 10 4) 3 = Ok (w1, out)"
    and d: "enacts w1 [decides (sample_ref 1) (AcceptRelationship 0) 4] = Some w2" using sample_replay by blast
  obtain xs outs where xs: "run_machine sample_engine (store_new sample_scope) xs = (w, outs)" using enacts_run [OF a] by blast
  obtain ys outs' where ys: "run_machine sample_engine w1 ys = (w2, outs')" using enacts_run [OF d] by blast
  have "ft_scope (ps_financial sample_policy) = sample_scope" by (simp add: sample_policy_def sample_terms_def)
  from commands_execute_once [OF xs [unfolded sample_engine_def] b [unfolded sample_executes_def]
      ys [unfolded sample_engine_def] this, of 90] a b d show ?thesis unfolding sample_executes_def by blast
qed

lemma sample_forfeited:
  "\<exists>w e p. enacts (store_new sample_scope) (set_up @ asks (sample_ref 1) 10 1 0
        @ [\<lambda>w. EngExecute (sample_ref 1) (submission 10 4) 3 sample_policy, decides (sample_ref 1) (RejectRelationship 0) 4]) = Some w
     \<and> bt_get (sto_relationships w) (sample_ref 1) = Some e
     \<and> bt_get (es_payments e) 30 = Some p \<and> rf_settlement p = Some SettledRejected \<and> fc_collateral (rf_contract p) \<noteq> 0"
  by (simp add: engine_defs run_simps program_record_forfeiture_def program_atomic_def program_post_def
      cong: kernel_lazily engine_input.case_cong_weak option.case_cong_weak)

theorem engine_consistent_witness:
  "\<exists>w e p ps f. enacts (store_new sample_scope) (set_up @ asks (sample_ref 1) 10 1 0
        @ [\<lambda>w. EngExecute (sample_ref 1) (submission 10 4) 3 sample_policy, decides (sample_ref 1) (RejectRelationship 0) 4]) = Some w
     \<and> bt_get (sto_relationships w) (sample_ref 1) = Some e \<and> bt_get (es_payments e) 30 = Some p
     \<and> bt_get (sto_programs w) (lv_unit (ls_view (es_ledger e))) = Some ps
     \<and> bt_get (lots (pst_program ps)) (op_id (rf_capture p)) = Some f
     \<and> fo_amount (lot_source f) = fc_collateral (rf_contract p)"
proof -
  obtain w e p where a: "enacts (store_new sample_scope) (set_up @ asks (sample_ref 1) 10 1 0
        @ [\<lambda>w. EngExecute (sample_ref 1) (submission 10 4) 3 sample_policy, decides (sample_ref 1) (RejectRelationship 0) 4]) = Some w"
    and b: "bt_get (sto_relationships w) (sample_ref 1) = Some e"
    and p: "bt_get (es_payments e) 30 = Some p" "rf_settlement p = Some SettledRejected" "fc_collateral (rf_contract p) \<noteq> 0"
    using sample_forfeited by blast
  obtain xs outs where "run_machine sample_engine (store_new sample_scope) xs = (w, outs)" using enacts_run [OF a] by blast
  from engine_consistent [OF this [unfolded sample_engine_def] b] a b p show ?thesis by blast
qed

section \<open>A timer\<close>

lemma sample_waits:
  "\<exists>t r. plays sample_start to_recipient = Some t \<and> request_in t 30 = Some r \<and> \<not> is_terminal (rq_lifecycle r)
     \<and> request_in t 0 = None \<and> due (st_requests (sn_state t)) (SubmissionTimeout 30) = None
     \<and> due (st_requests (sn_state t)) (RequestExpiry 30) = Some 103"
  by (simp add: run_simps to_recipient_def request_in_def due_def cong: kernel_lazily)


end
