(* ===== verification/Spec2Isabelle.thy ===== *)
theory Spec2Isabelle
  imports Funding Request_Financials Capabilities Pricing Kernel_Samples Program_Samples Billing_Runs
    Admission_Samples Security_Samples Account_Samples Service_Samples Engine_Samples
begin

text \<open>
  A verification development for cs-mail, the Rust workspace under \<open>src/crates\<close>: a mail protocol in
  which a stranger pays to be heard.  A sender asks for the terms of a contact, pays a processing
  charge and a collateral, and submits one request; the recipient accepts it (the payment is
  refunded), rejects it (the collateral is forfeited to a program whose yearly distribution goes to
  the members) or lets it expire.  Accepted senders write freely, others through lanes with rate
  limits.  Around the protocol stand accounts, keys and signatures, consent, guests, billing and
  the operator's publications.

  \<^bold>\<open>How the parts interact.\<close>  A host loads a snapshot of one relationship, asks the protocol kernel
  for a plan, and commits the plan together with its ledger batch, the contributions it makes to
  the forfeiture program, its timers and a replay record, or commits nothing.  The kernel calls the
  financial record of a request for settlements and provider evidence; both emit postings for the
  ledger.  Commands reach the kernel through the wire protocol and the key registry, free messages
  through admission.  Theories import what their code calls, so the order below is the order of
  dependence.

  \<^bold>\<open>Foundations.\<close>
  \<^item> \<open>Prelude\<close>: the outcome of a Rust computation (\<open>Ok\<close>, \<open>Err\<close>, \<open>Panic\<close>), checked arithmetic on words,
    big-endian bytes, and the interfaces shared by the components as locales: a machine that keeps an
    invariant, whose exact replays are harmless, that restores what it stores, whose outputs account
    for its state.  Every locale is interpreted on the definitions of the components.
  \<^item> \<open>Btree\<close>: \<open>BTreeMap\<close> as a finite map with ordered iteration.  \<open>Encoding\<close>: byte encodings as prefix
    codes.  \<open>Crypto\<close>: SHA-256 and Ed25519 as parameters.  \<open>Revisions\<close>: records under optimistic
    concurrency.
  \<^item> \<open>Primitives\<close> (\<open>cs-mail-primitives\<close>): identifiers, money, time, versions, declarations.

  \<^bold>\<open>Money\<close> (\<open>cs-mail-ledger\<close>, \<open>cs-mail-finance\<close>, \<open>cs-mail-billing\<close>).
  \<^item> \<open>Ledger\<close>: batches and balances; a run keeps the journal valid, and a refused batch names a real
    overdraft.
  \<^item> \<open>Payments\<close>, \<open>Execution\<close>, \<open>Funding\<close>: operations and signed evidence, attempts at a provider, the
    funding source with its limits (bounds over any run).
  \<^item> \<open>Request_Financials\<close> (\<open>request.rs\<close>): \<open>rf_new\<close>, \<open>rf_settle\<close>, \<open>rf_record_payment\<close>, \<open>rf_restore\<close>.  Its
    postings equal what the record says every account holds, a settlement divides the charge
    exactly into the refund it creates, the retained charge and the forfeited collateral, and
    replays and stored forms are harmless.
  \<^item> \<open>Payable\<close>, \<open>Program\<close> (\<open>program.rs\<close>, \<open>payable.rs\<close>, \<open>distribution.rs\<close>, \<open>membership.rs\<close>) with
    \<open>Program_Loops\<close>, \<open>Program_Books\<close>, \<open>Program_Finalize\<close>, \<open>Program_Runs\<close>: contributions, members,
    the finalization of a year, payouts and corrections.  The books lemmas give every account from
    the records alone; the finalization of a year is specified exactly.
  \<^item> \<open>Billing\<close>, \<open>Billing_Contracts\<close>, \<open>Billing_Runs\<close>: service contracts and their collection; coverage is
    equivalent to one paid contract.

  \<^bold>\<open>Protocol\<close> (\<open>cs-mail-protocol\<close>, \<open>cs-mail-capabilities\<close>, \<open>cs-mail-adapters\<close>).
  \<^item> \<open>Capabilities\<close>, \<open>Signed_Messages\<close>: grants, sender-scoped lanes with their sliding rate limit, reply
    lanes, bond-free admissions.
  \<^item> \<open>Pricing\<close> (\<open>pricing.rs\<close>, \<open>policy.rs\<close>), \<open>Protocol_Model\<close> (\<open>model.rs\<close>): policies and quotes, requests,
    lifecycles, relationships, histories.
  \<^item> \<open>Kernel\<close> (\<open>lib.rs\<close>): \<open>transition\<close>, \<open>receive_native_request\<close>, \<open>accept_express_lane\<close> and one definition
    per handler over the builder of a plan.  \<open>Kernel_Moves\<close> is a step relation over requests, money
    and history, which every handler refines.  On it rest \<open>Kernel_Runs\<close> (money follows decisions, the
    path of a lifecycle, waiting times), \<open>Kernel_Validity\<close> (reachable snapshots are accepted again),
    \<open>Kernel_Safety\<close> (no panic, no shortage of funds), \<open>Kernel_Authority\<close> (who may cause what, blocks,
    follow-ups) and \<open>Kernel_Timers\<close> (every waiting request has one timer, and a due timer resolves
    it; the timer commands are those of the storage adapter).
  \<^item> \<open>Admission\<close> (\<open>admission.rs\<close>): content checks, the plan of a free message, and its agreement with what
    the kernel delivers.

  \<^bold>\<open>Identity and transport\<close> (\<open>cs-mail-wire\<close>, \<open>cs-mail-content\<close>, \<open>cs-mail-security\<close>, \<open>cs-mail-accounts\<close>).
  \<^item> \<open>Wire\<close>: the command envelope with its encoder and decoder; round trip, refusal of signatures of
    another length, one accepted encoding.
  \<^item> \<open>Content\<close>, \<open>Key_Registry\<close>, \<open>Signatures\<close>, \<open>Authority\<close>: bindings and sealed content, keys with their
    transparency log, every signed representation and that none is valid as another, recovery, the
    verification of commands.
  \<^item> \<open>Accounts\<close>, \<open>Directory\<close>, \<open>Receiving\<close>, \<open>Aliases\<close>: account control, addresses, receiving permissions,
    aliases and their restriction.

  \<^bold>\<open>Services.\<close>
  \<^item> \<open>Consent\<close>, \<open>Guests\<close>, \<open>Guest_Verification\<close>, \<open>Privacy\<close>, \<open>Search\<close>: grants over content, guest mailboxes with
    linked histories and notices (the notices of a snapshot as \<open>cs-mail-service/src/guests.rs\<close> collects
    them), one-time codes, derived references, the lifecycle of a search index.
  \<^item> \<open>Operations\<close>, \<open>Publication\<close>: the bootstrap record, signed operator commands and the transaction that
    publishes pricing and protocol policies (\<open>cs-mail-application\<close>, \<open>cs-mail-storage-postgres\<close>).
  \<^item> \<open>Engine\<close>, \<open>Engine_Runs\<close> (\<open>cs-mail-application/src/lib.rs\<close>): the in-memory store of many
    relationships with shared histories and one program per unit, and its calls \<open>store_register\<close>,
    \<open>configure_request_pricing\<close>, \<open>configure_request_classes\<close>, \<open>engine_execute\<close>, \<open>engine_financial\<close>.  An
    executed command is one step of the kernel; over any run the store is consistent across its
    tables, relationships that share a history share its waiting time, and a command commits once.

  The theories \<open>Kernel_Samples\<close>, \<open>Program_Samples\<close>, \<open>Admission_Samples\<close>, \<open>Wire_Samples\<close>,
  \<open>Security_Samples\<close>, \<open>Account_Samples\<close>, \<open>Service_Samples\<close> and \<open>Engine_Samples\<close> evaluate the definitions on
  concrete states and apply the properties there.

  \<^bold>\<open>Modelling conventions.\<close>  A Rust integer is a word of its width and \<open>[u8; 32]\<close> a 256-bit word; checked
  arithmetic returns an option; every early return, error and panic is a branch of \<open>res\<close>; a struct is
  a record, an enum a datatype; a method that mutates \<open>self\<close> returns the new record, and an operation
  that fails leaves the old one.  Loops recurse over the finite lists and maps they iterate, so no
  fuel is needed and every definition is total.  Runs are lists of inputs, refused ones included,
  which cover every interleaving of calls because each call holds the lock or the transaction of the
  store.

  \<^bold>\<open>Parameters.\<close>  SHA-256, HMAC and Ed25519 (the crates sha2, hmac, ed25519-dalek), HPKE, CBOR (minicbor)
  and JSON text (serde_json) are arguments.  Three hypotheses are made about them: codecs
  read back what they write (\<open>codec_correct\<close>), signatures verify under their own key, and sealed
  content opens; each is satisfied by a concrete instance in the samples.  No property assumes that
  a hash has no collisions: where two preimages could collide, the collision is an explicit case.
  The error of the separate identity contract is a type variable.

  \<^bold>\<open>Not modelled.\<close>  The SQL of \<open>cs-mail-storage-postgres\<close> apart from the transaction of operator commands
  and the choice and command of a due schedule; the accessors of the in-memory engine and its
  account, billing and enrollment tables; the processes and their polling and network code
  (\<open>cs-mail-service\<close> apart from the collection of notices, \<open>cs-mail-worker\<close>, \<open>cs-mail-smtp-gateway\<close>,
  \<open>cs-mail-identity-client\<close>, \<open>cs-mail-key-custody\<close>, the client, its bindings and the apps), which are
  input and output; \<open>cs-mail-correspondence\<close>, text processing outside the protocol; embeddings (floats)
  and queries (Unicode case folding) of \<open>cs-mail-search\<close>; simulators, conformance suites and test
  fixtures; serde attributes and error texts.
\<close>

end
